(* ===== verification/Unwind_Prelude.thy ===== *)
theory Unwind_Prelude
  imports Main "HOL-Library.Word" "HOL-Library.Signed_Division"
begin

text \<open>
  The vocabulary every component theory shares: the machine types of the C++ sources, the outcome
  of an operation (returned true, returned false, aborted, undefined behaviour), little-endian
  byte sequences, byte-addressed memory contents and the ordered associative container
  (\<^verbatim>\<open>std::map\<close>) as a sorted association list.
\<close>

unbundle bit_operations_syntax

section \<open>Machine types\<close>

type_synonym u8 = "8 word"
type_synonym u16 = "16 word"
type_synonym u32 = "32 word"
type_synonym u64 = "64 word"

text \<open>
  A memory object as its clients see it: \<^verbatim>\<open>Memory::Read(addr, dst, size)\<close> copies a number of
  bytes to \<^verbatim>\<open>dst\<close> and returns how many. The model returns the copied bytes; the C++ return
  value is the length of the list.
\<close>

type_synonym reader = "u64 \<Rightarrow> nat \<Rightarrow> u8 list"

named_theorems outcome_simps \<open>evaluation of sequenced operations\<close>
named_theorems memory_simps \<open>definitions of the memory objects\<close>

text \<open>\<^verbatim>\<open>__builtin_add_overflow\<close> and \<^verbatim>\<open>__builtin_sub_overflow\<close> on \<^verbatim>\<open>uint64_t\<close>: whether the
  sum or the difference is not representable.\<close>

definition add_overflows :: "u64 \<Rightarrow> u64 \<Rightarrow> bool" where
  "add_overflows a b = (2 ^ 64 \<le> unat a + unat b)"

definition sub_overflows :: "u64 \<Rightarrow> u64 \<Rightarrow> bool" where
  "sub_overflows a b = (a < b)"

text \<open>\<^verbatim>\<open>memcpy\<close> out of an array given by its elements.\<close>

definition copy_bytes :: "(nat \<Rightarrow> u8) \<Rightarrow> nat \<Rightarrow> nat \<Rightarrow> u8 list" where
  "copy_bytes p from len = map p [from ..< from + len]"

section \<open>Outcomes\<close>

text \<open>
  The C++ operations return \<^verbatim>\<open>bool\<close> and change the object they belong to. \<open>Ok v s\<close> is "returned
  true, produced \<open>v\<close>, object is now \<open>s\<close>"; \<open>Fail s\<close> is "returned false, object is now \<open>s\<close>";
  \<open>Abort\<close> is a failed \<^verbatim>\<open>CHECK\<close> or \<^verbatim>\<open>abort()\<close>; \<open>Undef k\<close> is an execution the C++ standard gives
  no meaning to, with its cause: a shift by at least the width, a signed overflow, an access
  outside an array or container, a call through a null pointer, an object used as one of another class,
  a compiler builtin called outside its domain.
\<close>

datatype ub = UB_Shift | UB_Signed_Overflow | UB_Bounds | UB_Null | UB_Cast | UB_Builtin

datatype ('v, 's) outcome = Ok 'v 's | Fail 's | Abort | Undef ub

primrec bind_out ::
  "('v, 's) outcome \<Rightarrow> ('v \<Rightarrow> 's \<Rightarrow> ('w, 's) outcome) \<Rightarrow> ('w, 's) outcome" where
  "bind_out (Ok v s) f = f v s"
| "bind_out (Fail s) f = Fail s"
| "bind_out Abort f = Abort"
| "bind_out (Undef k) f = Undef k"

primrec map_state :: "('s \<Rightarrow> 't) \<Rightarrow> ('s \<Rightarrow> 't) \<Rightarrow> ('v, 's) outcome \<Rightarrow> ('v, 't) outcome" where
  "map_state f g (Ok v s) = Ok v (f s)"
| "map_state f g (Fail s) = Fail (g s)"
| "map_state f g Abort = Abort"
| "map_state f g (Undef k) = Undef k"

definition returns_true :: "('v, 's) outcome \<Rightarrow> bool" where
  "returns_true r = (case r of Ok _ _ \<Rightarrow> True | _ \<Rightarrow> False)"

section \<open>Little-endian byte sequences\<close>

primrec le_nat :: "u8 list \<Rightarrow> nat" where
  "le_nat [] = 0"
| "le_nat (b # bs) = unat b + 256 * le_nat bs"

definition le_word :: "u8 list \<Rightarrow> 'a::len word" where
  "le_word bs = of_nat (le_nat bs)"

primrec to_le :: "nat \<Rightarrow> nat \<Rightarrow> u8 list" where
  "to_le 0 n = []"
| "to_le (Suc k) n = of_nat n # to_le k (n div 256)"

section \<open>Byte-addressed contents\<close>

text \<open>
  \<open>flat_read m a n\<close> is the longest readable prefix of the \<open>n\<close> bytes at \<open>a\<close>, where \<open>m\<close> gives the
  byte at each address, or \<open>None\<close> where nothing can be read. It is the contract of
  \<^verbatim>\<open>Memory::Read\<close>.
\<close>

primrec flat_read :: "(u64 \<Rightarrow> u8 option) \<Rightarrow> u64 \<Rightarrow> nat \<Rightarrow> u8 list" where
  "flat_read m a 0 = []"
| "flat_read m a (Suc n) = (case m a of None \<Rightarrow> [] | Some b \<Rightarrow> b # flat_read m (a + 1) n)"

section \<open>Ordered maps\<close>

text \<open>
  \<^verbatim>\<open>std::map\<close> as the list of its entries in iteration order. \<open>omap_emplace\<close> is
  \<^verbatim>\<open>try_emplace\<close>/\<^verbatim>\<open>emplace\<close>: it keeps an entry that is already there and says whether it
  inserted; \<open>omap_put\<close> is \<^verbatim>\<open>m[k] = v\<close>. \<open>omap_upper_bound\<close> is the first entry with a key above the argument and
  \<open>omap_before\<close> the entry before it.
\<close>

type_synonym ('k, 'v) omap = "('k \<times> 'v) list"

fun omap_emplace :: "'k::linorder \<Rightarrow> 'v \<Rightarrow> ('k, 'v) omap \<Rightarrow> ('k, 'v) omap \<times> bool" where
  "omap_emplace k v [] = ([(k, v)], True)"
| "omap_emplace k v ((k', v') # xs) =
     (if k < k' then ((k, v) # (k', v') # xs, True)
      else if k = k' then ((k', v') # xs, False)
      else (let (ys, b) = omap_emplace k v xs in ((k', v') # ys, b)))"

fun omap_put :: "'k::linorder \<Rightarrow> 'v \<Rightarrow> ('k, 'v) omap \<Rightarrow> ('k, 'v) omap" where
  "omap_put k v [] = [(k, v)]"
| "omap_put k v ((k', v') # xs) =
     (if k < k' then (k, v) # (k', v') # xs
      else if k = k' then (k, v) # xs else (k', v') # omap_put k v xs)"

definition omap_upper_bound :: "'k::linorder \<Rightarrow> ('k, 'v) omap \<Rightarrow> ('k \<times> 'v) option" where
  "omap_upper_bound k xs = find (\<lambda>(k', v). k < k') xs"

definition omap_before :: "'k::linorder \<Rightarrow> ('k, 'v) omap \<Rightarrow> ('k \<times> 'v) option" where
  "omap_before k xs = (case takeWhile (\<lambda>(k', v). k' \<le> k) xs of [] \<Rightarrow> None | ys \<Rightarrow> Some (last ys))"

definition omap_invar :: "('k::linorder, 'v) omap \<Rightarrow> bool" where
  "omap_invar xs = sorted_wrt (<) (map fst xs)"

section \<open>Lemmas on outcomes\<close>

declare bind_out.simps [outcome_simps]
declare map_state.simps [outcome_simps]

lemma bind_out_cong [fundef_cong]:
  "r = r' \<Longrightarrow> (\<And>v s. r' = Ok v s \<Longrightarrow> f v s = g v s) \<Longrightarrow> bind_out r f = bind_out r' g"
  by (cases r') auto

lemma bind_out_Ok_iff:
  "bind_out r f = Ok w t \<longleftrightarrow> (\<exists>v s. r = Ok v s \<and> f v s = Ok w t)"
  by (cases r) auto

lemma bind_out_Undef_iff:
  "bind_out r f = Undef k \<longleftrightarrow> r = Undef k \<or> (\<exists>v s. r = Ok v s \<and> f v s = Undef k)"
  by (cases r) auto

lemma bind_out_Abort_iff:
  "bind_out r f = Abort \<longleftrightarrow> r = Abort \<or> (\<exists>v s. r = Ok v s \<and> f v s = Abort)"
  by (cases r) auto

lemma bind_out_assoc:
  "bind_out (bind_out r f) g = bind_out r (\<lambda>v s. bind_out (f v s) g)"
  by (cases r) auto

lemma map_state_iff [simp]:
  "map_state f g r = Undef k \<longleftrightarrow> r = Undef k"
  "map_state f g r = Abort \<longleftrightarrow> r = Abort"
  "map_state f g r = Ok v t \<longleftrightarrow> (\<exists>s. r = Ok v s \<and> t = f s)"
  by (cases r; auto)+

section \<open>Lemmas on byte sequences\<close>

lemma length_to_le [simp]: "length (to_le k n) = k"
  by (induction k arbitrary: n) auto

lemma le_nat_to_le: "le_nat (to_le k n) = n mod 256 ^ k"
proof (induction k arbitrary: n)
  case 0
  then show ?case by simp
next
  case (Suc k)
  have "unat (of_nat n :: u8) = n mod 256"
    by (simp add: unat_of_nat)
  then show ?case
    using mod_mult2_eq [of n 256 "256 ^ k"] by (simp add: Suc.IH)
qed

lemma le_nat_bound: "le_nat bs < 256 ^ length bs"
proof (induction bs)
  case Nil
  then show ?case by simp
next
  case (Cons b bs)
  have "unat b < 256"
    using unsigned_less [of b] by simp
  with Cons show ?case by simp
qed

lemma to_le_le_nat: "to_le (length bs) (le_nat bs) = bs"
proof (induction bs)
  case Nil
  then show ?case by simp
next
  case (Cons b bs)
  have b: "unat b < 256"
    using unsigned_less [of b] by simp
  then have "(unat b + 256 * le_nat bs) div 256 = le_nat bs"
    by simp
  moreover have "(256 :: u8) = 0"
    by simp
  then have "(of_nat (unat b + 256 * le_nat bs) :: u8) = b"
    by (simp only: of_nat_add of_nat_mult of_nat_numeral) simp
  ultimately show ?case using Cons by simp
qed

lemma le_word_to_le:
  fixes w :: "'a::len word"
  assumes "LENGTH('a) \<le> 8 * k"
  shows "le_word (to_le k (unat w)) = w"
proof -
  have "unat w < 2 ^ LENGTH('a)"
    by (rule unsigned_less)
  also have "(2::nat) ^ LENGTH('a) \<le> 2 ^ (8 * k)"
    using assms by (simp add: power_increasing)
  also have "(2::nat) ^ (8 * k) = 256 ^ k"
    by (simp add: power_mult)
  finally show ?thesis
    by (simp add: le_word_def le_nat_to_le)
qed

section \<open>Lemmas on contents\<close>

lemma length_copy_bytes [simp]: "length (copy_bytes p from len) = len"
  by (simp add: copy_bytes_def)

lemma nth_copy_bytes [simp]: "i < len \<Longrightarrow> copy_bytes p from len ! i = p (from + i)"
  by (simp add: copy_bytes_def)

lemma copy_bytes_0 [simp]: "copy_bytes p from 0 = []"
  by (simp add: copy_bytes_def)

lemma unat_add_no_overflow:
  "\<not> add_overflows a b \<Longrightarrow> unat (a + b) = unat a + unat b"
  by (simp add: add_overflows_def unat_word_ariths)

lemma unat_bound: "unat (w :: 'a::len word) < 2 ^ LENGTH('a)"
  by (rule unsigned_less)

text \<open>Splitting a word into the bits inside and outside a mask, as alignment does.\<close>

lemma and_not_split:
  fixes a x :: "'a::len word"
  shows "(a AND NOT x) + (a AND x) = a"
    and "unat (a AND NOT x) + unat (a AND x) = unat a"
proof -
  have "(a AND NOT x) AND (a AND x) = 0"
    by (simp add: bit_eq_iff bit_simps)
  then have "(a AND NOT x) + (a AND x) = (a AND NOT x) OR (a AND x)"
    by (rule disjunctive_add_eq_or)
  also have "\<dots> = a"
    by (auto simp: bit_eq_iff bit_simps)
  finally show sum: "(a AND NOT x) + (a AND x) = a" .
  have "a AND x \<le> a" by (rule word_and_le2)
  moreover have "a AND NOT x = a - (a AND x)"
    using sum by (simp add: algebra_simps)
  ultimately show "unat (a AND NOT x) + unat (a AND x) = unat a"
    by (simp add: unat_sub word_le_nat_alt)
qed

lemma unat_add_of_nat:
  fixes a :: "'a::len word"
  assumes "unat a + i < 2 ^ LENGTH('a)"
  shows "unat (a + of_nat i) = unat a + i"
  using assms by (simp add: unat_word_ariths unat_of_nat)

lemma length_flat_read: "length (flat_read m a n) \<le> n"
  by (induction n arbitrary: a) (auto split: option.split)

lemma flat_read_add:
  "flat_read m a (n + k) =
     (if length (flat_read m a n) = n
      then flat_read m a n @ flat_read m (a + of_nat n) k else flat_read m a n)"
proof (induction n arbitrary: a)
  case 0
  then show ?case by simp
next
  case (Suc n)
  then show ?case
    by (auto split: option.split simp: Suc.IH add.assoc)
qed

lemma flat_read_full_iff:
  "length (flat_read m a n) = n \<longleftrightarrow> (\<forall>i < n. m (a + of_nat i) \<noteq> None)"
proof (induction n arbitrary: a)
  case 0
  then show ?case by simp
next
  case (Suc n)
  have "(\<forall>i < Suc n. m (a + of_nat i) \<noteq> None) \<longleftrightarrow>
        m a \<noteq> None \<and> (\<forall>i < n. m (a + 1 + of_nat i) \<noteq> None)"
    by (simp add: All_less_Suc2 add.assoc)
  then show ?case
    using Suc.IH [of "a + 1"] by (auto split: option.split)
qed

lemma flat_read_nth:
  "i < length (flat_read m a n) \<Longrightarrow> m (a + of_nat i) = Some (flat_read m a n ! i)"
proof (induction n arbitrary: a i)
  case 0
  then show ?case by simp
next
  case (Suc n)
  then show ?case
    using Suc.IH [of _ "a + 1"]
    by (cases i) (auto split: option.splits simp: add.assoc)
qed

lemma flat_read_stop:
  "length (flat_read m a n) < n \<Longrightarrow> m (a + of_nat (length (flat_read m a n))) = None"
proof (induction n arbitrary: a)
  case 0
  then show ?case by simp
next
  case (Suc n)
  then show ?case
    using Suc.IH [of "a + 1"] by (auto split: option.splits simp: add.assoc)
qed

lemma flat_read_eqI:
  assumes "length bs \<le> n"
    and "\<And>i. i < length bs \<Longrightarrow> m (a + of_nat i) = Some (bs ! i)"
    and "length bs < n \<Longrightarrow> m (a + of_nat (length bs)) = None"
  shows "flat_read m a n = bs"
  using assms
proof (induction n arbitrary: a bs)
  case 0
  then show ?case by simp
next
  case (Suc n)
  show ?case
  proof (cases bs)
    case Nil
    with Suc.prems(3) show ?thesis by simp
  next
    case (Cons b cs)
    have "m a = Some b"
      using Suc.prems(2) [of 0] Cons by simp
    moreover have "flat_read m (a + 1) n = cs"
    proof (rule Suc.IH)
      show "length cs \<le> n" using Suc.prems(1) Cons by simp
      show "m (a + 1 + of_nat i) = Some (cs ! i)" if "i < length cs" for i
        using Suc.prems(2) [of "Suc i"] Cons that by (simp add: add.assoc)
      show "m (a + 1 + of_nat (length cs)) = None" if "length cs < n"
        using Suc.prems(3) Cons that by (simp add: add.assoc)
    qed
    ultimately show ?thesis using Cons by simp
  qed
qed

lemma flat_read_take: "k \<le> n \<Longrightarrow> take k (flat_read m a n) = flat_read m a k"
proof -
  assume "k \<le> n"
  then obtain j where n: "n = k + j"
    using le_Suc_ex by blast
  then show ?thesis
    using length_flat_read [of m a k] by (simp add: flat_read_add)
qed

lemma flat_read_drop:
  "k \<le> n \<Longrightarrow> length (flat_read m a n) = n \<Longrightarrow>
   drop k (flat_read m a n) = flat_read m (a + of_nat k) (n - k)"
proof -
  assume "k \<le> n" and full: "length (flat_read m a n) = n"
  then obtain j where n: "n = k + j"
    using le_Suc_ex by blast
  with full have "length (flat_read m a k) = k"
    by (auto simp: flat_read_full_iff)
  then show ?thesis
    by (simp add: n flat_read_add)
qed

section \<open>Lemmas on ordered maps\<close>

lemma omap_emplace_set:
  "set (fst (omap_emplace k v xs)) = set xs \<union> (if snd (omap_emplace k v xs) then {(k, v)} else {})"
  by (induction k v xs rule: omap_emplace.induct) (auto split: prod.split)

lemma omap_emplace_invar:
  "omap_invar xs \<Longrightarrow> omap_invar (fst (omap_emplace k v xs))"
proof (induction k v xs rule: omap_emplace.induct)
  case (1 k v)
  then show ?case by (simp add: omap_invar_def)
next
  case (2 k v k' v' xs)
  show ?case
  proof (cases "k' < k")
    case True
    have "\<forall>p \<in> set (fst (omap_emplace k v xs)). k' < fst p"
      using 2 True by (auto simp: omap_emplace_set omap_invar_def)
    with 2 True show ?thesis
      by (auto simp: omap_invar_def split: prod.split)
  next
    case False
    with 2 show ?thesis by (auto simp: omap_invar_def)
  qed
qed

lemma omap_emplace_inserted_iff:
  "omap_invar xs \<Longrightarrow> snd (omap_emplace k v xs) \<longleftrightarrow> k \<notin> fst ` set xs"
proof (induction k v xs rule: omap_emplace.induct)
  case (1 k v)
  then show ?case by simp
next
  case (2 k v k' v' xs)
  then show ?case by (force simp: omap_invar_def split: prod.split)
qed

lemma omap_upper_bound_Some:
  assumes "omap_invar xs"
  shows "omap_upper_bound k xs = Some (k', v) \<longleftrightarrow>
    (k', v) \<in> set xs \<and> k < k' \<and> (\<forall>(j, w) \<in> set xs. k < j \<longrightarrow> k' \<le> j)"
  using assms
proof (induction xs)
  case Nil
  then show ?case by (simp add: omap_upper_bound_def)
next
  case (Cons p xs)
  then show ?case
    by (cases p) (force simp: omap_upper_bound_def omap_invar_def)
qed

lemma omap_upper_bound_None:
  "omap_upper_bound k xs = None \<longleftrightarrow> (\<forall>(j, w) \<in> set xs. j \<le> k)"
  by (auto simp: omap_upper_bound_def find_None_iff)

lemma omap_put_set:
  "omap_invar xs \<Longrightarrow> set (omap_put k v xs) = insert (k, v) {e \<in> set xs. fst e \<noteq> k}"
  by (induction k v xs rule: omap_put.induct) (auto simp: omap_invar_def)

lemma omap_put_invar: "omap_invar xs \<Longrightarrow> omap_invar (omap_put k v xs)"
proof (induction k v xs rule: omap_put.induct)
  case (1 k v)
  then show ?case by (simp add: omap_invar_def)
next
  case (2 k v k' v' xs)
  have "omap_invar xs" using 2(2) by (simp add: omap_invar_def)
  with 2 show ?case
    by (auto simp: omap_invar_def omap_put_set split: if_splits)
qed

lemma omap_before_Some:
  assumes "omap_before k xs = Some (k', v)"
  shows "(k', v) \<in> set xs" "k' \<le> k"
proof -
  let ?ys = "takeWhile (\<lambda>(k', v). k' \<le> k) xs"
  have "?ys \<noteq> []" "last ?ys = (k', v)"
    using assms by (auto simp: omap_before_def split: list.splits if_splits)
  then have "(k', v) \<in> set ?ys" using last_in_set by metis
  then show "(k', v) \<in> set xs" "k' \<le> k"
    by (auto dest: set_takeWhileD)
qed

section \<open>Results and states of an outcome\<close>

text \<open>What an operation returns, without the state it leaves.\<close>

definition result_of :: "('v, 's) outcome \<Rightarrow> ('v, unit) outcome" where
  "result_of r = map_state (\<lambda>_. ()) (\<lambda>_. ()) r"

fun out_states :: "('s \<Rightarrow> bool) \<Rightarrow> ('v, 's) outcome \<Rightarrow> bool" where
  "out_states P (Ok v s) \<longleftrightarrow> P s"
| "out_states P (Fail s) \<longleftrightarrow> P s"
| "out_states P _ \<longleftrightarrow> True"

fun state_of :: "('v, 's) outcome \<Rightarrow> 's option" where
  "state_of (Ok v s) = Some s"
| "state_of (Fail s) = Some s"
| "state_of _ = None"

lemma result_simps [simp]:
  "result_of (Ok v s) = Ok v ()" "result_of (Fail s) = Fail ()" "result_of Abort = Abort" "result_of (Undef k) = Undef k"
  by (simp_all add: result_of_def)

lemma result_map_state [simp]: "result_of (map_state f g r) = result_of r"
  by (cases r) simp_all

lemma result_bind_cong:
  assumes "result_of r = result_of q"
    and "\<And>v s t. r = Ok v s \<Longrightarrow> q = Ok v t \<Longrightarrow> result_of (f v s) = result_of (g v t)"
  shows "result_of (bind_out r f) = result_of (bind_out q g)"
  using assms by (cases r; cases q) auto

lemma result_bind_Ok: "result_of (bind_out r (\<lambda>v s. Ok (f v) (h v s))) = bind_out (result_of r) (\<lambda>v _. Ok (f v) ())"
  by (cases r) simp_all

lemma out_states_bind:
  "out_states P r \<Longrightarrow> (\<And>v s. r = Ok v s \<Longrightarrow> P s \<Longrightarrow> out_states P (f v s)) \<Longrightarrow> out_states P (bind_out r f)"
  by (cases r) auto

lemma out_states_mono: "out_states P r \<Longrightarrow> (\<And>s. P s \<Longrightarrow> Q s) \<Longrightarrow> out_states Q r"
  by (cases r) auto

lemma bind_out_OkE:
  assumes "bind_out r f = Ok w t"
  obtains v s where "r = Ok v s" "f v s = Ok w t"
  using assms by (cases r) auto

lemma out_states_conj: "out_states P r \<Longrightarrow> out_states Q r \<Longrightarrow> out_states (\<lambda>s. P s \<and> Q s) r"
  by (cases r) auto

lemma out_states_state_of: "out_states P r \<Longrightarrow> state_of r = Some s \<Longrightarrow> P s"
  by (cases r) auto

end
