(* ===== verification/Memory_Model.thy ===== *)
theory Memory_Model
  imports Unwind_Prelude
begin

text \<open>
  The memory objects of \<^verbatim>\<open>libunwindstack/Memory.cpp\<close> and its headers: the base class operations
  (\<^verbatim>\<open>ReadFully\<close>, \<^verbatim>\<open>Read32\<close>, \<^verbatim>\<open>Read64\<close>, \<^verbatim>\<open>ReadString\<close>), buffers, file mappings, ranges, sets of
  ranges, offline memories and the page cache. The locale \<open>flat_memory\<close> is the contract of
  \<^verbatim>\<open>Memory::Read\<close> (a read returns the longest readable prefix of the addressed bytes); every
  concrete memory is an interpretation of it, and the page cache, \<^verbatim>\<open>ReadString\<close> and the DWARF
  cursor are its clients.
\<close>

section \<open>The base class\<close>

definition ReadFully :: "reader \<Rightarrow> u64 \<Rightarrow> nat \<Rightarrow> u8 list option" where
  "ReadFully rd addr sz =
     (let bs = rd addr sz in if length bs = sz then Some bs else None)"

definition Read32 :: "reader \<Rightarrow> u64 \<Rightarrow> u32 option" where
  "Read32 rd addr = map_option le_word (ReadFully rd addr 4)"

definition Read64 :: "reader \<Rightarrow> u64 \<Rightarrow> u64 option" where
  "Read64 rd addr = map_option le_word (ReadFully rd addr 8)"

text \<open>
  The loop of \<^verbatim>\<open>Memory::ReadString\<close>: blocks of at most 256 bytes are read until one holds a null
  byte. When the string spans several blocks it is read again as a whole.
\<close>

function ReadString_loop :: "reader \<Rightarrow> u64 \<Rightarrow> nat \<Rightarrow> nat \<Rightarrow> u8 list option" where
  "ReadString_loop rd addr max_read offset =
     (if offset < max_read then
        (let read = min 256 (max_read - offset);
             buffer = rd (addr + of_nat offset) read;
             sz = length buffer;
             len = length (takeWhile (\<lambda>b. b \<noteq> 0) buffer)
         in if sz = 0 then None
            else if len < sz then
              (if offset = 0 then Some (take len buffer)
               else ReadFully rd addr (offset + len))
            else ReadString_loop rd addr max_read (offset + sz))
      else None)"
  by pat_completeness auto
termination
  by (relation "measure (\<lambda>(rd, addr, max_read, offset). max_read - offset)")
    (auto intro!: diff_less_mono2)

definition ReadString :: "reader \<Rightarrow> u64 \<Rightarrow> nat \<Rightarrow> u8 list option" where
  "ReadString rd addr max_read = ReadString_loop rd addr max_read 0"

section \<open>MemoryBuffer\<close>

record memory_buffer =
  buf_raw :: "nat \<Rightarrow> u8"
  buf_size :: u64

definition MemoryBuffer_Read :: "memory_buffer \<Rightarrow> reader" where
  "MemoryBuffer_Read b addr sz =
     (if buf_size b \<le> addr then []
      else let bytes_left = unat (buf_size b - addr); actual_len = min bytes_left sz
           in copy_bytes (buf_raw b) (unat addr) actual_len)"

text \<open>\<^verbatim>\<open>GetPtr\<close> returns the address of an element; the model returns its index.\<close>

definition MemoryBuffer_GetPtr :: "memory_buffer \<Rightarrow> u64 \<Rightarrow> nat option" where
  "MemoryBuffer_GetPtr b offset = (if offset < buf_size b then Some (unat offset) else None)"

text \<open>\<^verbatim>\<open>Resize\<close>; \<open>new_raw\<close> is what \<^verbatim>\<open>realloc\<close> returned, \<open>None\<close> for a null pointer.\<close>

definition MemoryBuffer_Resize ::
  "(nat \<Rightarrow> u8) option \<Rightarrow> u64 \<Rightarrow> memory_buffer \<Rightarrow> memory_buffer \<times> bool" where
  "MemoryBuffer_Resize new_raw sz b =
     (case new_raw of
        None \<Rightarrow> (b\<lparr>buf_size := 0\<rparr>, False)
      | Some r \<Rightarrow> (b\<lparr>buf_raw := r, buf_size := sz\<rparr>, True))"

section \<open>MemoryFileAtOffset\<close>

text \<open>
  \<open>file_data = None\<close> is the null \<^verbatim>\<open>data_\<close> of an object that maps nothing. The file system is a
  parameter: what \<^verbatim>\<open>open\<close> and \<^verbatim>\<open>fstat\<close> found (the bytes and \<^verbatim>\<open>st_size\<close>, \<open>None\<close> when either
  failed) and whether \<^verbatim>\<open>mmap\<close> succeeds.
\<close>

record memory_file =
  file_data :: "(nat \<Rightarrow> u8) option"
  file_size :: u64
  file_offset :: u64

definition MemoryFileAtOffset_new :: memory_file where
  "MemoryFileAtOffset_new = \<lparr>file_data = None, file_size = 0, file_offset = 0\<rparr>"

definition MemoryFileAtOffset_Clear :: "memory_file \<Rightarrow> memory_file" where
  "MemoryFileAtOffset_Clear f =
     (case file_data f of None \<Rightarrow> f | Some _ \<Rightarrow> f\<lparr>file_data := None\<rparr>)"

definition MemoryFileAtOffset_Init ::
  "u64 \<Rightarrow> ((nat \<Rightarrow> u8) \<times> u64) option \<Rightarrow> bool \<Rightarrow> u64 \<Rightarrow> u64 \<Rightarrow> memory_file
    \<Rightarrow> (unit, memory_file) outcome" where
  "MemoryFileAtOffset_Init pagesize file mmap_ok offset sz f0 =
     (let f = MemoryFileAtOffset_Clear f0 in
      case file of
        None \<Rightarrow> Fail f
      | Some (bytes, st_size) \<Rightarrow>
          if st_size \<le> offset then Fail f
          else
            let f = f\<lparr>file_offset := offset AND (pagesize - 1)\<rparr>;
                aligned_offset = offset AND NOT (pagesize - 1)
            in if st_size < aligned_offset \<or> st_size < offset then Fail f
               else
                 let f = f\<lparr>file_size := st_size - aligned_offset\<rparr>;
                     max_size = sz + file_offset f;
                     f = (if \<not> add_overflows sz (file_offset f) \<and> max_size < file_size f
                          then f\<lparr>file_size := max_size\<rparr> else f)
                 in if \<not> mmap_ok then Fail f
                    else Ok () (f\<lparr>file_data := Some (\<lambda>i. bytes (unat aligned_offset
                                                          + (unat (file_offset f) + i))),
                                  file_size := file_size f - file_offset f\<rparr>))"

text \<open>\<^verbatim>\<open>Read\<close> does not test \<^verbatim>\<open>data_\<close>, so with nothing mapped it copies from a null pointer.\<close>

definition MemoryFileAtOffset_Read ::
  "memory_file \<Rightarrow> u64 \<Rightarrow> nat \<Rightarrow> (u8 list, memory_file) outcome" where
  "MemoryFileAtOffset_Read f addr sz =
     (if file_size f \<le> addr then Ok [] f
      else let bytes_left = unat (file_size f - addr); actual_len = min bytes_left sz
           in case file_data f of
                None \<Rightarrow> Undef UB_Null
              | Some p \<Rightarrow> Ok (copy_bytes p (unat addr) actual_len) f)"

text \<open>The memory a client holds after a successful \<^verbatim>\<open>Init\<close>.\<close>

definition file_reader :: "memory_file \<Rightarrow> reader" where
  "file_reader f addr sz =
     (case MemoryFileAtOffset_Read f addr sz of Ok bs _ \<Rightarrow> bs | _ \<Rightarrow> [])"

section \<open>MemoryRange and MemoryRanges\<close>

record memory_range =
  rng_memory :: reader
  rng_begin :: u64
  rng_length :: u64
  rng_offset :: u64

definition MemoryRange_Read :: "memory_range \<Rightarrow> reader" where
  "MemoryRange_Read r addr sz =
     (if addr < rng_offset r then []
      else let read_offset = addr - rng_offset r in
        if rng_length r \<le> read_offset then []
        else let read_length = min sz (unat (rng_length r - read_offset)) in
          if add_overflows read_offset (rng_begin r) then []
          else rng_memory r (read_offset + rng_begin r) read_length)"

type_synonym memory_ranges = "(u64, memory_range) omap"

definition range_last_addr :: "memory_range \<Rightarrow> u64" where
  "range_last_addr r =
     (if add_overflows (rng_offset r) (rng_length r) then - 1 else rng_offset r + rng_length r)"

definition MemoryRanges_Insert :: "memory_range \<Rightarrow> memory_ranges \<Rightarrow> memory_ranges \<times> bool" where
  "MemoryRanges_Insert r maps = omap_emplace (range_last_addr r) r maps"

definition MemoryRanges_Read :: "memory_ranges \<Rightarrow> reader" where
  "MemoryRanges_Read maps addr sz =
     (case omap_upper_bound addr maps of
        None \<Rightarrow> []
      | Some (_, r) \<Rightarrow> MemoryRange_Read r addr sz)"

section \<open>Offline memories\<close>

text \<open>A \<^verbatim>\<open>MemoryOffline\<close> is the range it built, or nothing. Both \<^verbatim>\<open>Init\<close> functions get the file
  object after its own \<^verbatim>\<open>Init\<close> succeeded.\<close>

definition MemoryOffline_Init :: "memory_file \<Rightarrow> memory_range option" where
  "MemoryOffline_Init f =
     (case ReadFully (file_reader f) 0 8 of
        None \<Rightarrow> None
      | Some bs \<Rightarrow>
          if sub_overflows (file_size f) 8 then None
          else Some \<lparr>rng_memory = file_reader f, rng_begin = 8,
                     rng_length = file_size f - 8, rng_offset = le_word bs\<rparr>)"

definition MemoryOffline_Init_range :: "memory_file \<Rightarrow> u64 \<Rightarrow> u64 \<Rightarrow> memory_range option" where
  "MemoryOffline_Init_range f start sz =
     Some \<lparr>rng_memory = file_reader f, rng_begin = 0, rng_length = sz, rng_offset = start\<rparr>"

definition MemoryOffline_Read :: "memory_range option \<Rightarrow> reader" where
  "MemoryOffline_Read m addr sz =
     (case m of None \<Rightarrow> [] | Some r \<Rightarrow> MemoryRange_Read r addr sz)"

fun MemoryOfflineParts_Read :: "memory_range option list \<Rightarrow> reader" where
  "MemoryOfflineParts_Read [] addr sz = []"
| "MemoryOfflineParts_Read (m # ms) addr sz =
     (let bs = MemoryOffline_Read m addr sz
      in if length bs \<noteq> 0 then bs else MemoryOfflineParts_Read ms addr sz)"

record memory_offline_buffer =
  off_data :: "nat \<Rightarrow> u8"
  off_start :: u64
  off_end :: u64

definition MemoryOfflineBuffer_Reset ::
  "(nat \<Rightarrow> u8) \<Rightarrow> u64 \<Rightarrow> u64 \<Rightarrow> memory_offline_buffer \<Rightarrow> memory_offline_buffer" where
  "MemoryOfflineBuffer_Reset data start end b =
     b\<lparr>off_data := data, off_start := start, off_end := end\<rparr>"

definition MemoryOfflineBuffer_Read :: "memory_offline_buffer \<Rightarrow> reader" where
  "MemoryOfflineBuffer_Read b addr sz =
     (if addr < off_start b \<or> off_end b \<le> addr then []
      else let read_length = min sz (unat (off_end b - addr))
           in copy_bytes (off_data b) (unat (addr - off_start b)) read_length)"

section \<open>The page cache\<close>

type_synonym page_cache = "u64 \<rightharpoonup> u8 list"

abbreviation kCacheBits :: nat where "kCacheBits \<equiv> 12"
abbreviation kCacheMask :: u64 where "kCacheMask \<equiv> 0xfff"
abbreviation kCacheSize :: nat where "kCacheSize \<equiv> 4096"

text \<open>The lookup both halves of \<^verbatim>\<open>InternalCachedRead\<close> perform: find the page, or read it
  in full and keep it, or erase the entry again.\<close>

definition cache_page :: "reader \<Rightarrow> u64 \<Rightarrow> page_cache \<Rightarrow> u8 list option \<times> page_cache" where
  "cache_page rd addr_page cache =
     (case cache addr_page of
        Some cache_dst \<Rightarrow> (Some cache_dst, cache)
      | None \<Rightarrow>
          (case ReadFully rd (push_bit kCacheBits addr_page) kCacheSize of
             None \<Rightarrow> (None, cache(addr_page := None))
           | Some bs \<Rightarrow> (Some bs, cache(addr_page \<mapsto> bs))))"

definition InternalCachedRead ::
  "reader \<Rightarrow> u64 \<Rightarrow> nat \<Rightarrow> page_cache \<Rightarrow> u8 list \<times> page_cache" where
  "InternalCachedRead rd addr sz cache =
     (let addr_page = drop_bit kCacheBits addr in
      case cache_page rd addr_page cache of
        (None, cache) \<Rightarrow> (rd addr sz, cache)
      | (Some cache_dst, cache) \<Rightarrow>
          let max_read = unat (push_bit kCacheBits (addr_page + 1) - addr);
              start = unat (addr AND kCacheMask)
          in if sz \<le> max_read then (take sz (drop start cache_dst), cache)
             else
               let dst = take max_read (drop start cache_dst); addr_page = addr_page + 1
               in case cache_page rd addr_page cache of
                    (None, cache) \<Rightarrow>
                      (dst @ rd (push_bit kCacheBits addr_page) (sz - max_read), cache)
                  | (Some cache_dst, cache) \<Rightarrow>
                      (dst @ take (sz - max_read) cache_dst, cache))"

definition MemoryCacheBase_Read ::
  "reader \<Rightarrow> u64 \<Rightarrow> nat \<Rightarrow> page_cache \<Rightarrow> u8 list \<times> page_cache" where
  "MemoryCacheBase_Read rd addr sz cache =
     (if 64 < sz then (rd addr sz, cache) else InternalCachedRead rd addr sz cache)"

definition MemoryCache_Clear :: "page_cache \<Rightarrow> page_cache" where
  "MemoryCache_Clear cache = Map.empty"

text \<open>A client that issues the reads \<open>reqs\<close> (address and size) one after the other.\<close>

fun cached_reads :: "reader \<Rightarrow> (u64 \<times> nat) list \<Rightarrow> page_cache \<Rightarrow> u8 list list" where
  "cached_reads rd [] cache = []"
| "cached_reads rd ((addr, sz) # reqs) cache =
     (let (bs, cache') = MemoryCacheBase_Read rd addr sz cache
      in bs # cached_reads rd reqs cache')"

definition cache_coherent :: "reader \<Rightarrow> page_cache \<Rightarrow> bool" where
  "cache_coherent rd cache \<longleftrightarrow>
     (\<forall>p bs. cache p = Some bs \<longrightarrow> length bs = kCacheSize
        \<and> rd (push_bit kCacheBits p) kCacheSize = bs)"

section \<open>The contract of a memory object\<close>

text \<open>The null-terminated string at an address.\<close>

definition c_string :: "(u64 \<Rightarrow> u8 option) \<Rightarrow> u64 \<Rightarrow> u8 list \<Rightarrow> bool" where
  "c_string m a s \<longleftrightarrow>
     (\<forall>i < length s. m (a + of_nat i) = Some (s ! i) \<and> s ! i \<noteq> 0)
     \<and> m (a + of_nat (length s)) = Some 0"

definition nonzero_upto :: "(u64 \<Rightarrow> u8 option) \<Rightarrow> u64 \<Rightarrow> nat \<Rightarrow> bool" where
  "nonzero_upto m a k \<longleftrightarrow> (\<forall>i < k. \<exists>b. m (a + of_nat i) = Some b \<and> b \<noteq> 0)"

lemma c_string_length:
  assumes "c_string m a s" and "nonzero_upto m a k"
  shows "k \<le> length s"
proof (rule ccontr)
  assume "\<not> k \<le> length s"
  with assms(2) obtain b where "m (a + of_nat (length s)) = Some b" "b \<noteq> 0"
    unfolding nonzero_upto_def using not_le by blast
  with assms(1) show False by (simp add: c_string_def)
qed

lemma c_string_at:
  assumes "nonzero_upto m a k" and "m (a + of_nat k) = Some 0"
  shows "c_string m a s \<longleftrightarrow> length s = k \<and> (\<forall>i < k. m (a + of_nat i) = Some (s ! i))"
proof
  assume s: "c_string m a s"
  have "\<not> k < length s"
    using s assms(2) by (auto simp: c_string_def)
  with c_string_length [OF s assms(1)] have "length s = k" by simp
  with s show "length s = k \<and> (\<forall>i < k. m (a + of_nat i) = Some (s ! i))"
    by (simp add: c_string_def)
next
  assume "length s = k \<and> (\<forall>i < k. m (a + of_nat i) = Some (s ! i))"
  with assms show "c_string m a s"
    by (force simp: c_string_def nonzero_upto_def)
qed

lemma nonzero_upto_extend:
  assumes "nonzero_upto m a k"
    and "\<And>j. j < n \<Longrightarrow> \<exists>b. m (a + of_nat k + of_nat j) = Some b \<and> b \<noteq> 0"
  shows "nonzero_upto m a (k + n)"
  unfolding nonzero_upto_def
proof (intro allI impI)
  fix i
  assume i: "i < k + n"
  show "\<exists>b. m (a + of_nat i) = Some b \<and> b \<noteq> 0"
  proof (cases "i < k")
    case True
    with assms(1) show ?thesis by (simp add: nonzero_upto_def)
  next
    case False
    with i assms(2) [of "i - k"] show ?thesis by (simp add: add.assoc)
  qed
qed

lemma takeWhile_nonzero_nth:
  fixes xs :: "u8 list"
  shows "j < length (takeWhile (\<lambda>b. b \<noteq> 0) xs) \<Longrightarrow> xs ! j \<noteq> 0"
  using nth_mem [of j "takeWhile (\<lambda>b. b \<noteq> 0) xs"]
  by (metis (mono_tags, lifting) set_takeWhileD takeWhile_nth)

locale flat_memory =
  fixes rd :: reader
    and content :: "u64 \<Rightarrow> u8 option"
  assumes rd_flat: "rd a n = flat_read content a n"
begin

lemma length_rd: "length (rd a n) \<le> n"
  by (simp add: rd_flat length_flat_read)

lemma rd_nth: "i < length (rd a n) \<Longrightarrow> content (a + of_nat i) = Some (rd a n ! i)"
  by (simp add: rd_flat flat_read_nth)

lemma rd_stop: "length (rd a n) < n \<Longrightarrow> content (a + of_nat (length (rd a n))) = None"
  by (simp add: rd_flat flat_read_stop)

lemma nonzero_block:
  assumes "nonzero_upto content addr offset"
  shows "nonzero_upto content addr
    (offset + length (takeWhile (\<lambda>b. b \<noteq> 0) (rd (addr + of_nat offset) n)))"
proof (rule nonzero_upto_extend [OF assms])
  let ?buf = "rd (addr + of_nat offset) n"
  fix j
  assume j: "j < length (takeWhile (\<lambda>b. b \<noteq> 0) ?buf)"
  then have "j < length ?buf"
    using length_takeWhile_le [of "\<lambda>b. b \<noteq> 0" ?buf] by linarith
  with rd_nth takeWhile_nonzero_nth [OF j]
  show "\<exists>b. content (addr + of_nat offset + of_nat j) = Some b \<and> b \<noteq> 0" by blast
qed

lemma ReadFully_Some_iff:
  "ReadFully rd a n = Some bs \<longleftrightarrow>
     length bs = n \<and> (\<forall>i < n. content (a + of_nat i) = Some (bs ! i))"
proof
  assume "ReadFully rd a n = Some bs"
  then have bs: "bs = flat_read content a n" and "length bs = n"
    by (auto simp: ReadFully_def rd_flat Let_def split: if_splits)
  then show "length bs = n \<and> (\<forall>i < n. content (a + of_nat i) = Some (bs ! i))"
    by (auto intro: flat_read_nth)
next
  assume "length bs = n \<and> (\<forall>i < n. content (a + of_nat i) = Some (bs ! i))"
  then have "flat_read content a n = bs" "length bs = n"
    by (auto intro: flat_read_eqI)
  then show "ReadFully rd a n = Some bs"
    by (simp add: ReadFully_def rd_flat)
qed

lemma ReadFully_None_iff:
  "ReadFully rd a n = None \<longleftrightarrow> (\<exists>i < n. content (a + of_nat i) = None)"
  using flat_read_full_iff [of content a n] by (auto simp: ReadFully_def rd_flat Let_def)

lemma ReadString_loop_correct:
  "nonzero_upto content addr offset \<Longrightarrow>
   ReadString_loop rd addr max_read offset = Some s \<longleftrightarrow>
     c_string content addr s \<and> length s < max_read"
proof (induction "max_read - offset" arbitrary: offset rule: less_induct)
  case less
  let ?read = "min 256 (max_read - offset)"
  let ?buf = "rd (addr + of_nat offset) ?read"
  let ?len = "length (takeWhile (\<lambda>b. b \<noteq> 0) ?buf)"
  note unfold = ReadString_loop.simps [of rd addr max_read offset]
  note upto = nonzero_block [OF less.prems, of ?read]
  consider (out) "max_read \<le> offset" | (empty) "offset < max_read" "?buf = []"
    | (found) "offset < max_read" "?buf \<noteq> []" "?len < length ?buf"
    | (more) "offset < max_read" "?buf \<noteq> []" "\<not> ?len < length ?buf"
    by linarith
  then show ?case
  proof cases
    case out
    with less.prems show ?thesis
      by (auto simp: unfold dest: c_string_length)
  next
    case empty
    then have "content (addr + of_nat offset) = None"
      using rd_stop [of "addr + of_nat offset" ?read] by simp
    moreover have "\<exists>b. content (addr + of_nat offset) = Some b" if "c_string content addr s"
      using that c_string_length [OF that less.prems]
      by (cases "offset = length s") (auto simp: c_string_def)
    ultimately show ?thesis using empty by (auto simp: unfold)
  next
    case found
    have "?buf ! ?len = 0"
      using nth_length_takeWhile [of "\<lambda>b. b \<noteq> 0" ?buf] found by simp
    with rd_nth [of ?len "addr + of_nat offset" ?read] found have zero: "content (addr + of_nat (offset + ?len)) = Some 0"
      by (simp add: add.assoc)
    have bound: "offset + ?len < max_read"
      using found length_rd [of "addr + of_nat offset" ?read] by linarith
    have first: "ReadFully rd addr ?len = Some (take ?len ?buf)" if "offset = 0"
      using found that rd_nth [of _ addr ?read] by (auto simp: ReadFully_Some_iff dest: less_trans)
    have "ReadString_loop rd addr max_read offset = ReadFully rd addr (offset + ?len)"
      using found first by (auto simp: unfold Let_def)
    then show ?thesis
      using c_string_at [OF upto zero, of s] bound by (auto simp: ReadFully_Some_iff)
  next
    case more
    then have len: "?len = length ?buf"
      using length_takeWhile_le [of "\<lambda>b. b \<noteq> 0" ?buf] by linarith
    have "ReadString_loop rd addr max_read offset =
      ReadString_loop rd addr max_read (offset + length ?buf)"
      using more by (subst unfold) (simp add: Let_def)
    moreover have "max_read - (offset + length ?buf) < max_read - offset"
      using more by (simp add: diff_less_mono2)
    ultimately show ?thesis
      using less.hyps [of "offset + length ?buf"] upto len by simp
  qed
qed

lemma cache_page_correct:
  assumes "cache_coherent rd cache" and "cache_page rd p cache = (r, cache')"
  shows "cache_coherent rd cache'"
    and "r = Some bs \<Longrightarrow> flat_read content (push_bit kCacheBits p) kCacheSize = bs \<and>
           length bs = kCacheSize"
  using assms
  by (auto simp: cache_page_def cache_coherent_def ReadFully_def rd_flat Let_def
      split: option.splits if_splits)

lemma page_split:
  fixes a :: u64
  shows "push_bit kCacheBits (drop_bit kCacheBits a) + of_nat (unat (a AND kCacheMask)) = a"
    and "unat (a AND kCacheMask) < kCacheSize"
    and "unat (push_bit kCacheBits (drop_bit kCacheBits a + 1) - a)
      = kCacheSize - unat (a AND kCacheMask)"
proof -
  have mask: "a AND kCacheMask = take_bit kCacheBits a"
    by (simp add: take_bit_eq_mask mask_eq_exp_minus_1 and.commute)
  show split: "push_bit kCacheBits (drop_bit kCacheBits a) + of_nat (unat (a AND kCacheMask)) = a"
    using bits_ident [of kCacheBits a] by (simp add: mask)
  have "a AND kCacheMask \<le> kCacheMask"
    by (rule word_and_le1)
  then show less: "unat (a AND kCacheMask) < kCacheSize"
    by (simp add: word_le_nat_alt)
  have "push_bit kCacheBits (drop_bit kCacheBits a + 1)
      = push_bit kCacheBits (drop_bit kCacheBits a) + 4096"
    by (simp add: push_bit_eq_mult distrib_left)
  with split have "push_bit kCacheBits (drop_bit kCacheBits a + 1) - a
      = of_nat (kCacheSize - unat (a AND kCacheMask))"
    using less by (simp add: algebra_simps of_nat_diff)
  then show "unat (push_bit kCacheBits (drop_bit kCacheBits a + 1) - a)
      = kCacheSize - unat (a AND kCacheMask)"
    by (simp add: unat_of_nat)
qed

text \<open>A read through the page cache returns what the underlying memory returns, and keeps the
  cache coherent.\<close>

lemma InternalCachedRead_correct:
  assumes "cache_coherent rd cache" and "n \<le> 64"
  shows "fst (InternalCachedRead rd a n cache) = flat_read content a n
    \<and> cache_coherent rd (snd (InternalCachedRead rd a n cache))"
proof -
  let ?p = "drop_bit kCacheBits a"
  let ?off = "unat (a AND kCacheMask)"
  let ?max = "kCacheSize - ?off"
  obtain r c1 where cp: "cache_page rd ?p cache = (r, c1)"
    by (cases "cache_page rd ?p cache")
  note c1 = cache_page_correct(1) [OF assms(1) cp]
  show ?thesis
  proof (cases r)
    case None
    with cp c1 show ?thesis by (simp add: InternalCachedRead_def rd_flat)
  next
    case (Some d)
    note d = cache_page_correct(2) [OF assms(1) cp Some]
    have rest: "drop ?off d = flat_read content a ?max"
      using d flat_read_drop [of ?off kCacheSize content "push_bit kCacheBits ?p"] page_split [of a]
      by simp
    show ?thesis
    proof (cases "n \<le> ?max")
      case True
      then show ?thesis
        using cp Some c1 rest by (simp add: InternalCachedRead_def page_split flat_read_take)
    next
      case False
      then obtain k where n: "n = ?max + k"
        using le_Suc_ex [of ?max n] by auto
      have full: "length (flat_read content a ?max) = ?max"
        using d rest by (metis length_drop)
      have base: "push_bit kCacheBits (?p + 1) = a + of_nat ?max"
        using page_split(3) [of a] by (metis add_diff_cancel_left' add.commute diff_add_cancel
            of_nat_unat ucast_id)
      obtain r2 c2 where cp2: "cache_page rd (?p + 1) c1 = (r2, c2)"
        by (cases "cache_page rd (?p + 1) c1")
      note c2 = cache_page_correct [OF c1 cp2]
      have "fst (InternalCachedRead rd a n cache) = flat_read content a ?max @
          (case r2 of None \<Rightarrow> rd (push_bit kCacheBits (?p + 1)) k | Some d2 \<Rightarrow> take k d2)"
        using cp cp2 Some rest False full n
        by (simp add: InternalCachedRead_def page_split(3) Let_def split: option.split)
      moreover have "take k d2 = flat_read content (a + of_nat ?max) k" if "r2 = Some d2" for d2
        using c2(2) [OF that] base n assms(2) by (auto simp: flat_read_take)
      ultimately have "fst (InternalCachedRead rd a n cache) = flat_read content a n"
        using full n base by (cases r2) (simp_all add: flat_read_add rd_flat)
      moreover have "snd (InternalCachedRead rd a n cache) = c2"
        using cp cp2 Some False
        by (simp add: InternalCachedRead_def page_split(3) Let_def split: option.split)
      ultimately show ?thesis using c2(1) by simp
    qed
  qed
qed

lemma MemoryCacheBase_Read_correct:
  assumes "cache_coherent rd cache"
  shows "fst (MemoryCacheBase_Read rd a n cache) = rd a n
    \<and> cache_coherent rd (snd (MemoryCacheBase_Read rd a n cache))"
  using assms InternalCachedRead_correct [OF assms, of n a]
  by (auto simp: MemoryCacheBase_Read_def rd_flat)

lemma cached_reads_correct:
  "cache_coherent rd cache \<Longrightarrow> cached_reads rd reqs cache = map (\<lambda>(a, n). rd a n) reqs"
proof (induction reqs arbitrary: cache)
  case Nil
  then show ?case by simp
next
  case (Cons r reqs)
  then show ?case
    using MemoryCacheBase_Read_correct [OF Cons.prems, of "fst r" "snd r"]
    by (cases r) (auto split: prod.split)
qed

end

section \<open>The memory objects keep the contract\<close>

text \<open>The contents of an array that answers for the addresses in a window.\<close>

definition window_content :: "(nat \<Rightarrow> u8) \<Rightarrow> u64 \<Rightarrow> u64 \<Rightarrow> u64 \<Rightarrow> u8 option" where
  "window_content p lo hi a = (if lo \<le> a \<and> a < hi then Some (p (unat (a - lo))) else None)"

lemma flat_read_window:
  "flat_read (window_content p lo hi) a n =
     (if a < lo \<or> hi \<le> a then [] else copy_bytes p (unat (a - lo)) (min n (unat (hi - a))))"
proof (cases "a < lo \<or> hi \<le> a")
  case True
  then show ?thesis by (cases n) (auto simp: window_content_def)
next
  case False
  then have a: "lo \<le> a" "a < hi" by auto
  have step: "lo \<le> a + of_nat i \<and> a + of_nat i < hi \<and> unat (a + of_nat i - lo) = unat (a - lo) + i"
    if "i < unat (hi - a)" for i
  proof -
    have bound: "unat a + i < unat hi"
      using that a by (simp add: unat_sub)
    then have "unat (a + of_nat i) = unat a + i"
      using unat_bound [of hi] by (intro unat_add_of_nat) simp
    with bound a show ?thesis
      by (simp add: word_le_nat_alt word_less_nat_alt unat_sub)
  qed
  have "flat_read (window_content p lo hi) a n =
      copy_bytes p (unat (a - lo)) (min n (unat (hi - a)))"
    by (rule flat_read_eqI) (auto simp: window_content_def step min_def split: if_splits)
  with False show ?thesis by simp
qed

definition MemoryBuffer_content :: "memory_buffer \<Rightarrow> u64 \<Rightarrow> u8 option" where
  "MemoryBuffer_content b = window_content (buf_raw b) 0 (buf_size b)"

definition MemoryOfflineBuffer_content :: "memory_offline_buffer \<Rightarrow> u64 \<Rightarrow> u8 option" where
  "MemoryOfflineBuffer_content b = window_content (off_data b) (off_start b) (off_end b)"

definition file_content :: "memory_file \<Rightarrow> u64 \<Rightarrow> u8 option" where
  "file_content f =
     (case file_data f of None \<Rightarrow> (\<lambda>_. None) | Some p \<Rightarrow> window_content p 0 (file_size f))"

interpretation buffer_mem: flat_memory "MemoryBuffer_Read b" "MemoryBuffer_content b" for b
  by unfold_locales
    (simp add: MemoryBuffer_Read_def MemoryBuffer_content_def flat_read_window Let_def min.commute)

interpretation offline_buffer_mem:
  flat_memory "MemoryOfflineBuffer_Read b" "MemoryOfflineBuffer_content b" for b
  by unfold_locales
    (simp add: MemoryOfflineBuffer_Read_def MemoryOfflineBuffer_content_def flat_read_window Let_def)

lemma flat_read_nothing [simp]: "flat_read (\<lambda>_. None) a n = []"
  by (cases n) auto

interpretation file_mem: flat_memory "file_reader f" "file_content f" for f
  by unfold_locales
    (auto simp: file_reader_def MemoryFileAtOffset_Read_def file_content_def flat_read_window
      Let_def min.commute split: option.split)

definition range_content :: "(u64 \<Rightarrow> u8 option) \<Rightarrow> memory_range \<Rightarrow> u64 \<Rightarrow> u8 option" where
  "range_content m r a =
     (if rng_offset r \<le> a \<and> a - rng_offset r < rng_length r
      then m (a - rng_offset r + rng_begin r) else None)"

lemma range_shift:
  fixes off a ro len :: u64
  assumes "off \<le> a" and "a - off = ro" and "unat ro + i < unat len"
    and "unat off + unat len \<le> 2 ^ 64"
  shows "off \<le> a + of_nat i \<and> a + of_nat i - off = ro + of_nat i \<and> ro + of_nat i < len"
proof -
  have a: "unat a = unat off + unat ro"
    using assms(1,2) by (auto simp: unat_sub word_le_nat_alt)
  have "unat (a + of_nat i) = unat a + i"
    using a assms(3,4) by (intro unat_add_of_nat) simp
  moreover have "unat (ro + of_nat i) = unat ro + i"
    using assms(3) unat_bound [of len] by (intro unat_add_of_nat) simp
  ultimately show ?thesis
    using assms a by (auto simp: word_le_nat_alt word_less_nat_alt algebra_simps)
qed

text \<open>A range that wraps around neither its own nor the underlying address space keeps the
  contract: it shows the window of the underlying memory at its offset.\<close>

lemma MemoryRange_flat:
  assumes flat: "\<And>a n. rng_memory r a n = flat_read m a n"
    and src: "unat (rng_begin r) + unat (rng_length r) \<le> 2 ^ 64"
    and dst: "unat (rng_offset r) + unat (rng_length r) \<le> 2 ^ 64"
  shows "MemoryRange_Read r a n = flat_read (range_content m r) a n"
proof (cases "rng_offset r \<le> a \<and> a - rng_offset r < rng_length r")
  case False
  then have "flat_read (range_content m r) a n = []"
    by (cases n) (auto simp: range_content_def)
  moreover have "MemoryRange_Read r a n = []"
    using False by (auto simp: MemoryRange_Read_def Let_def)
  ultimately show ?thesis by simp
next
  case in_range: True
  define ro where "ro = a - rng_offset r"
  define k where "k = min n (unat (rng_length r - ro))"
  have ro: "unat ro < unat (rng_length r)"
    using in_range by (simp add: ro_def word_less_nat_alt)
  have rest: "unat (rng_length r - ro) = unat (rng_length r) - unat ro"
    using ro by (simp add: unat_sub word_le_nat_alt)
  have a: "a = rng_offset r + ro" "unat a = unat (rng_offset r) + unat ro"
    using in_range by (simp_all add: ro_def unat_sub word_le_nat_alt)
  have no: "\<not> add_overflows ro (rng_begin r)"
    using src ro by (simp add: add_overflows_def)
  note inside = range_shift [OF _ ro_def [symmetric] _ dst]
  have read: "MemoryRange_Read r a n = flat_read m (ro + rng_begin r) k"
    using in_range no by (auto simp: MemoryRange_Read_def Let_def ro_def k_def flat)
  let ?bs = "flat_read m (ro + rng_begin r) k"
  have len: "length ?bs \<le> k" by (rule length_flat_read)
  have k: "k \<le> unat (rng_length r) - unat ro" by (simp add: k_def rest)
  have "flat_read (range_content m r) a n = ?bs"
  proof (rule flat_read_eqI)
    show "length ?bs \<le> n" using len by (simp add: k_def)
    show "range_content m r (a + of_nat i) = Some (?bs ! i)" if "i < length ?bs" for i
    proof -
      have "unat ro + i < unat (rng_length r)"
        using that len k by linarith
      then have "range_content m r (a + of_nat i) = m (ro + of_nat i + rng_begin r)"
        using inside in_range unfolding range_content_def by metis
      with flat_read_nth [OF that] show ?thesis
        by (simp add: ac_simps)
    qed
    show "range_content m r (a + of_nat (length ?bs)) = None" if "length ?bs < n"
    proof (cases "unat ro + length ?bs < unat (rng_length r)")
      case True
      then have "length ?bs < k"
        using that rest by (simp add: k_def)
      then have "m (ro + rng_begin r + of_nat (length ?bs)) = None"
        by (rule flat_read_stop)
      moreover have "range_content m r (a + of_nat (length ?bs))
          = m (ro + of_nat (length ?bs) + rng_begin r)"
        using inside True in_range unfolding range_content_def by metis
      ultimately show ?thesis
        by (simp add: ac_simps)
    next
      case False
      then have eq: "unat ro + length ?bs = unat (rng_length r)"
        using len k ro by linarith
      have "ro + of_nat (length ?bs) = rng_length r"
        using arg_cong [OF eq, of "of_nat :: nat \<Rightarrow> u64"] by simp
      then have "a + of_nat (length ?bs) - rng_offset r = rng_length r"
        using a(1) by (simp add: algebra_simps)
      then show ?thesis by (simp add: range_content_def)
    qed
  qed
  with read show ?thesis by simp
qed

lemma range_last_addr_no_overflow:
  "\<not> add_overflows (rng_offset r) (rng_length r) \<Longrightarrow>
     range_last_addr r = rng_offset r + rng_length r"
  by (simp add: range_last_addr_def)

text \<open>The segments of a set of ranges: non-empty, not wrapping, pairwise disjoint.\<close>

definition disjoint_ranges :: "memory_range list \<Rightarrow> bool" where
  "disjoint_ranges rs \<longleftrightarrow>
     (\<forall>r \<in> set rs. 0 < rng_length r \<and> \<not> add_overflows (rng_offset r) (rng_length r)) \<and>
     sorted_wrt (\<lambda>r s. rng_offset r + rng_length r \<le> rng_offset s \<or>
       rng_offset s + rng_length s \<le> rng_offset r) rs"

definition in_range :: "memory_range \<Rightarrow> u64 \<Rightarrow> bool" where
  "in_range r a \<longleftrightarrow> rng_offset r \<le> a \<and> a < rng_offset r + rng_length r"

definition insert_ranges :: "memory_range list \<Rightarrow> memory_ranges" where
  "insert_ranges rs = fold (\<lambda>r m. fst (MemoryRanges_Insert r m)) rs []"

section \<open>The contract of the ordered map\<close>

locale ordered_map =
  fixes emplace :: "'k::linorder \<Rightarrow> 'v \<Rightarrow> 'm \<Rightarrow> 'm \<times> bool"
    and upper_bound :: "'k \<Rightarrow> 'm \<Rightarrow> ('k \<times> 'v) option"
    and entries :: "'m \<Rightarrow> ('k \<times> 'v) set"
    and empty :: 'm
    and invar :: "'m \<Rightarrow> bool"
  assumes invar_empty: "invar empty"
    and entries_empty: "entries empty = {}"
    and emplace_invar: "invar m \<Longrightarrow> invar (fst (emplace k v m))"
    and emplace_entries: "invar m \<Longrightarrow> entries (fst (emplace k v m)) =
      (if k \<in> fst ` entries m then entries m else insert (k, v) (entries m))"
    and emplace_inserted: "invar m \<Longrightarrow> snd (emplace k v m) \<longleftrightarrow> k \<notin> fst ` entries m"
    and upper_bound_Some: "invar m \<Longrightarrow> upper_bound k m = Some (k', v) \<longleftrightarrow>
      (k', v) \<in> entries m \<and> k < k' \<and> (\<forall>(j, w) \<in> entries m. k < j \<longrightarrow> k' \<le> j)"
begin

definition emplace_all :: "('v \<Rightarrow> 'k) \<Rightarrow> 'v list \<Rightarrow> 'm \<Rightarrow> 'm" where
  "emplace_all key vs m = fold (\<lambda>v m. fst (emplace (key v) v m)) vs m"

lemma emplace_all_entries:
  assumes "invar m" and "distinct (map key vs)" and "\<And>v. v \<in> set vs \<Longrightarrow> key v \<notin> fst ` entries m"
  shows "invar (emplace_all key vs m) \<and>
    entries (emplace_all key vs m) = entries m \<union> (\<lambda>v. (key v, v)) ` set vs"
  using assms
proof (induction vs arbitrary: m)
  case Nil
  then show ?case by (simp add: emplace_all_def)
next
  case (Cons v vs)
  let ?m = "fst (emplace (key v) v m)"
  have entries: "entries ?m = insert (key v, v) (entries m)"
    using Cons.prems by (simp add: emplace_entries)
  have "invar (emplace_all key vs ?m) \<and>
      entries (emplace_all key vs ?m) = entries ?m \<union> (\<lambda>v. (key v, v)) ` set vs"
    using Cons.prems by (intro Cons.IH) (auto simp: emplace_invar entries rev_image_eqI)
  then show ?case
    using entries by (simp add: emplace_all_def)
qed

text \<open>The entry with the least key above \<open>a\<close> is found, whatever the order of insertion.\<close>

lemma emplace_all_upper_bound:
  assumes "distinct (map key vs)" and "v \<in> set vs" and "a < key v"
    and "\<And>w. w \<in> set vs \<Longrightarrow> a < key w \<Longrightarrow> key v \<le> key w"
  shows "upper_bound a (emplace_all key vs empty) = Some (key v, v)"
  using emplace_all_entries [OF invar_empty assms(1)] assms
  by (auto simp: upper_bound_Some entries_empty)

end

interpretation om: ordered_map omap_emplace omap_upper_bound set "[]" omap_invar
proof unfold_locales
  fix k k' :: "'k::linorder" and v :: 'v and m :: "('k, 'v) omap"
  assume m: "omap_invar m"
  show "omap_invar (fst (omap_emplace k v m))" by (rule omap_emplace_invar [OF m])
  show "set (fst (omap_emplace k v m)) =
      (if k \<in> fst ` set m then set m else insert (k, v) (set m))"
    using omap_emplace_inserted_iff [OF m, of k v] by (simp add: omap_emplace_set)
  show "snd (omap_emplace k v m) \<longleftrightarrow> k \<notin> fst ` set m"
    by (rule omap_emplace_inserted_iff [OF m])
  show "omap_upper_bound k m = Some (k', v) \<longleftrightarrow>
      (k', v) \<in> set m \<and> k < k' \<and> (\<forall>(j, w) \<in> set m. k < j \<longrightarrow> k' \<le> j)"
    by (rule omap_upper_bound_Some [OF m])
qed (simp_all add: omap_invar_def)

lemma insert_ranges_eq: "insert_ranges rs = om.emplace_all range_last_addr rs []"
  by (simp add: insert_ranges_def om.emplace_all_def MemoryRanges_Insert_def)

lemma disjoint_ranges_pair:
  assumes "disjoint_ranges rs" and "r \<in> set rs" and "s \<in> set rs" and "r \<noteq> s"
  shows "rng_offset r + rng_length r \<le> rng_offset s \<or> rng_offset s + rng_length s \<le> rng_offset r"
proof -
  obtain i j where ij: "i < length rs" "rs ! i = r" "j < length rs" "rs ! j = s"
    using assms by (meson in_set_conv_nth)
  with assms(4) have "i \<noteq> j" by auto
  then have "i < j \<or> j < i" by auto
  with ij assms(1) show ?thesis
    by (auto simp: disjoint_ranges_def sorted_wrt_iff_nth_less)
qed

lemma range_end_gt:
  assumes "disjoint_ranges rs" and "r \<in> set rs"
  shows "rng_offset r < rng_offset r + rng_length r"
    and "range_last_addr r = rng_offset r + rng_length r"
  using assms
  by (auto simp: disjoint_ranges_def range_last_addr_def word_less_nat_alt unat_add_no_overflow)

lemma disjoint_ranges_distinct:
  assumes "disjoint_ranges rs"
  shows "distinct (map range_last_addr rs)"
  unfolding distinct_conv_nth
proof (intro allI impI)
  fix i j
  assume ij: "i < length (map range_last_addr rs)" "j < length (map range_last_addr rs)" "i \<noteq> j"
  then have mem: "rs ! i \<in> set rs" "rs ! j \<in> set rs" by auto
  have "rng_offset (rs ! i) + rng_length (rs ! i) \<le> rng_offset (rs ! j) \<or>
      rng_offset (rs ! j) + rng_length (rs ! j) \<le> rng_offset (rs ! i)"
    using ij assms by (cases i j rule: linorder_cases)
      (auto simp: disjoint_ranges_def sorted_wrt_iff_nth_less)
  with range_end_gt [OF assms mem(1)] range_end_gt [OF assms mem(2)] ij
  show "map range_last_addr rs ! i \<noteq> map range_last_addr rs ! j"
    by auto
qed

section \<open>Properties\<close>

text \<open>
  \<^verbatim>\<open>Memory::ReadString\<close> over a memory that keeps the contract of \<^verbatim>\<open>Read\<close> succeeds exactly when a
  null-terminated string shorter than \<^verbatim>\<open>max_read\<close> stands at the address, and then returns that
  string: block boundaries, partial reads and the second read of a long string change nothing.
\<close>

theorem ReadString_returns_c_string:
  assumes "flat_memory rd content"
  shows "ReadString rd addr max_read = Some s \<longleftrightarrow>
    c_string content addr s \<and> length s < max_read"
  using flat_memory.ReadString_loop_correct [OF assms, of addr 0 max_read s]
  by (simp add: ReadString_def nonzero_upto_def)

definition abc_buffer :: memory_buffer where
  "abc_buffer = \<lparr>buf_raw = (\<lambda>i. if i < 3 then of_nat (97 + i) else 0), buf_size = 5\<rparr>"

theorem ReadString_returns_c_string_witness:
  "ReadString (MemoryBuffer_Read abc_buffer) 1 4 = Some [98, 99]"
proof -
  have "c_string (MemoryBuffer_content abc_buffer) 1 [98, 99]"
    by (auto simp: c_string_def MemoryBuffer_content_def window_content_def abc_buffer_def
        less_Suc_eq)
  then show ?thesis
    using ReadString_returns_c_string [OF buffer_mem.flat_memory_axioms, of abc_buffer 1 4 "[98, 99]"]
    by simp
qed

text \<open>
  C40. The page cache is invisible: any sequence of reads of any sizes through a
  \<^verbatim>\<open>MemoryCacheBase\<close> with a cleared cache returns what the underlying memory returns for each of
  them, also for reads that straddle two pages and for pages that cannot be read in full.
\<close>

theorem cached_reads_transparent:
  assumes "flat_memory rd content"
  shows "cached_reads rd reqs (MemoryCache_Clear cache) = map (\<lambda>(a, n). rd a n) reqs"
  using flat_memory.cached_reads_correct [OF assms]
  by (simp add: MemoryCache_Clear_def cache_coherent_def)

theorem cached_reads_transparent_witness:
  "cached_reads (MemoryBuffer_Read abc_buffer) [(2, 2), (0, 100), (4, 3)] (MemoryCache_Clear Map.empty)
     = [[99, 0], [97, 98, 99, 0, 0], [0]]"
  unfolding cached_reads_transparent [OF buffer_mem.flat_memory_axioms]
  by (simp add: MemoryBuffer_Read_def abc_buffer_def copy_bytes_def upt_rec)

text \<open>
  After any number of pairwise disjoint segments have been inserted into a \<^verbatim>\<open>MemoryRanges\<close>, in
  any order, a read at an address inside one of them is answered by that segment.
\<close>

theorem MemoryRanges_read_hits_segment:
  assumes "disjoint_ranges rs" and "r \<in> set rs" and "in_range r addr"
  shows "MemoryRanges_Read (insert_ranges rs) addr sz = MemoryRange_Read r addr sz"
proof -
  note last = range_end_gt [OF assms(1)]
  have "omap_upper_bound addr (om.emplace_all range_last_addr rs []) = Some (range_last_addr r, r)"
  proof (rule om.emplace_all_upper_bound [OF disjoint_ranges_distinct [OF assms(1)] assms(2)])
    show "addr < range_last_addr r"
      using assms(3) last [OF assms(2)] by (simp add: in_range_def)
    fix w
    assume w: "w \<in> set rs" "addr < range_last_addr w"
    show "range_last_addr r \<le> range_last_addr w"
    proof (cases "w = r")
      case False
      with disjoint_ranges_pair [OF assms(1,2) w(1)] w assms(3) last [OF assms(2)] last [OF w(1)]
      show ?thesis by (auto simp: in_range_def)
    qed simp
  qed
  then show ?thesis by (simp add: MemoryRanges_Read_def insert_ranges_eq)
qed

definition seg :: "u64 \<Rightarrow> u64 \<Rightarrow> u64 \<Rightarrow> memory_range" where
  "seg begin len off =
     \<lparr>rng_memory = MemoryBuffer_Read abc_buffer, rng_begin = begin, rng_length = len,
      rng_offset = off\<rparr>"

theorem MemoryRanges_read_hits_segment_witness:
  "MemoryRanges_Read (insert_ranges [seg 2 3 0x2000, seg 0 2 0x1000]) 0x1000 4 = [97, 98]"
proof -
  have d: "disjoint_ranges [seg 2 3 0x2000, seg 0 2 0x1000]"
    by (simp add: disjoint_ranges_def seg_def add_overflows_def)
  have "MemoryRanges_Read (insert_ranges [seg 2 3 0x2000, seg 0 2 0x1000]) 0x1000 4 =
      MemoryRange_Read (seg 0 2 0x1000) 0x1000 4"
    by (rule MemoryRanges_read_hits_segment [OF d]) (simp_all add: in_range_def seg_def)
  also have "\<dots> = [97, 98]"
    by (simp add: MemoryRange_Read_def seg_def add_overflows_def MemoryBuffer_Read_def
        abc_buffer_def copy_bytes_def upt_rec)
  finally show ?thesis .
qed

text \<open>
  \<^verbatim>\<open>MemoryRange\<close> maps one address range onto another: where neither range wraps around, a read
  at any address and of any size returns the longest readable prefix of the underlying bytes
  that belong to the range, and never a byte outside it.
\<close>

theorem MemoryRange_shows_window:
  assumes "flat_memory (rng_memory r) content"
    and "unat (rng_begin r) + unat (rng_length r) \<le> 2 ^ 64"
    and "unat (rng_offset r) + unat (rng_length r) \<le> 2 ^ 64"
  shows "flat_memory (MemoryRange_Read r) (range_content content r)"
  using MemoryRange_flat [OF flat_memory.rd_flat [OF assms(1)] assms(2,3)]
  by (simp add: flat_memory_def)

theorem MemoryRange_shows_window_witness:
  "flat_memory (MemoryRange_Read (seg 1 3 0x1000)) (range_content (MemoryBuffer_content abc_buffer)
     (seg 1 3 0x1000))"
  by (rule MemoryRange_shows_window) (simp_all add: seg_def buffer_mem.flat_memory_axioms)

text \<open>
  After a successful \<^verbatim>\<open>MemoryFileAtOffset::Init\<close>, address 0 is byte \<^verbatim>\<open>offset\<close> of the file and the
  memory ends after \<^verbatim>\<open>size\<close> bytes or at the end of the file, whichever comes first: the page
  alignment of the mapping is not visible.
\<close>

theorem MemoryFileAtOffset_Init_window:
  assumes "MemoryFileAtOffset_Init pagesize (Some (bytes, st_size)) ok offset sz f0 = Ok () f"
  shows "file_reader f addr n =
    flat_read (window_content (\<lambda>i. bytes (unat offset + i)) 0 (min sz (st_size - offset))) addr n"
proof -
  let ?off = "offset AND (pagesize - 1)"
  let ?al = "offset AND NOT (pagesize - 1)"
  have split: "unat ?al + unat ?off = unat offset" "?al + ?off = offset"
    by (rule and_not_split)+
  have lt: "offset < st_size"
    using assms by (auto simp: MemoryFileAtOffset_Init_def Let_def split: if_splits)
  then have al: "unat (st_size - ?al) = unat st_size - unat ?al"
    using split by (simp add: unat_sub word_le_nat_alt word_less_nat_alt)
  have rest: "unat (st_size - offset) = unat st_size - unat offset"
    using lt by (simp add: unat_sub word_less_nat_alt word_le_nat_alt)
  have data: "file_data f = Some (\<lambda>i. bytes (unat offset + i))"
    using assms split(1)
    by (auto simp: MemoryFileAtOffset_Init_def Let_def add.assoc [symmetric] split: if_splits)
  have "file_size f = (if \<not> add_overflows sz ?off \<and> sz + ?off < st_size - ?al
      then sz else st_size - offset)"
    using assms split(2)
    by (auto simp: MemoryFileAtOffset_Init_def Let_def algebra_simps split: if_splits)
  moreover have "\<not> add_overflows sz ?off \<and> sz + ?off < st_size - ?al \<longleftrightarrow>
      unat sz < unat st_size - unat offset"
    using split(1) lt al unat_bound [of st_size]
    by (auto simp: add_overflows_def word_less_nat_alt unat_word_ariths)
  ultimately have size: "file_size f = min sz (st_size - offset)"
    using rest by (auto simp: min_def word_le_nat_alt word_unat_eq_iff)
  show ?thesis
    by (simp add: file_mem.rd_flat file_content_def data size)
qed

theorem MemoryFileAtOffset_Init_window_witness:
  "\<exists>f. MemoryFileAtOffset_Init 4096 (Some (of_nat, 9000)) True 5000 300 MemoryFileAtOffset_new = Ok () f
     \<and> file_reader f 298 10 = [of_nat 5298, of_nat 5299]"
proof -
  have "\<exists>f. MemoryFileAtOffset_Init 4096 (Some (of_nat, 9000)) True 5000 300
      MemoryFileAtOffset_new = Ok () f"
    by (simp add: MemoryFileAtOffset_Init_def Let_def)
  then obtain f where f: "MemoryFileAtOffset_Init 4096 (Some (of_nat, 9000)) True 5000 300
      MemoryFileAtOffset_new = Ok () f" by blast
  have "file_reader f 298 10 = [of_nat 5298, of_nat 5299]"
    unfolding MemoryFileAtOffset_Init_window [OF f]
    by (simp add: flat_read_window copy_bytes_def upt_rec min_def)
  with f show ?thesis by blast
qed

text \<open>
  \<^verbatim>\<open>MemoryFileAtOffset::Clear\<close> unmaps the file and resets \<^verbatim>\<open>data_\<close> but keeps \<^verbatim>\<open>size_\<close>, and \<^verbatim>\<open>Read\<close>
  guards with \<^verbatim>\<open>size_\<close> only: a read of a cleared, previously non-empty mapping at address 0 copies
  from a null pointer, for every mapping and every size.
\<close>

theorem MemoryFileAtOffset_read_after_Clear:
  assumes "file_data f \<noteq> None" and "0 < file_size f"
  shows "MemoryFileAtOffset_Read (MemoryFileAtOffset_Clear f) 0 n = Undef UB_Null"
  using assms by (auto simp: MemoryFileAtOffset_Read_def MemoryFileAtOffset_Clear_def)

theorem MemoryFileAtOffset_read_after_Clear_witness:
  "MemoryFileAtOffset_Read (MemoryFileAtOffset_Clear
     \<lparr>file_data = Some (\<lambda>_. 7), file_size = 16, file_offset = 0\<rparr>) 0 4 = Undef UB_Null"
  by (rule MemoryFileAtOffset_read_after_Clear) simp_all

end
