(* ===== verification/Dwarf_Memory.thy ===== *)
theory Dwarf_Memory
  imports Memory_Model
begin

text \<open>
  \<^verbatim>\<open>libunwindstack/DwarfMemory.cpp\<close>: the cursor over DWARF data. It reads bytes, LEB128 numbers
  and the pointer encodings of \<^verbatim>\<open>DwarfEncoding.h\<close>. The template parameter \<^verbatim>\<open>AddressType\<close> enters
  through its size \<open>asz\<close> in bytes (4 or 8). \<^verbatim>\<open>pc_offset_\<close> is an \<^verbatim>\<open>int64_t\<close>, kept as its bits.
\<close>

section \<open>Pointer encodings\<close>

abbreviation DW_EH_PE_omit :: u8 where "DW_EH_PE_omit \<equiv> 0xff"
abbreviation DW_EH_PE_absptr :: u8 where "DW_EH_PE_absptr \<equiv> 0x00"
abbreviation DW_EH_PE_uleb128 :: u8 where "DW_EH_PE_uleb128 \<equiv> 0x01"
abbreviation DW_EH_PE_udata2 :: u8 where "DW_EH_PE_udata2 \<equiv> 0x02"
abbreviation DW_EH_PE_udata4 :: u8 where "DW_EH_PE_udata4 \<equiv> 0x03"
abbreviation DW_EH_PE_udata8 :: u8 where "DW_EH_PE_udata8 \<equiv> 0x04"
abbreviation DW_EH_PE_sleb128 :: u8 where "DW_EH_PE_sleb128 \<equiv> 0x09"
abbreviation DW_EH_PE_sdata2 :: u8 where "DW_EH_PE_sdata2 \<equiv> 0x0a"
abbreviation DW_EH_PE_sdata4 :: u8 where "DW_EH_PE_sdata4 \<equiv> 0x0b"
abbreviation DW_EH_PE_sdata8 :: u8 where "DW_EH_PE_sdata8 \<equiv> 0x0c"
abbreviation DW_EH_PE_pcrel :: u8 where "DW_EH_PE_pcrel \<equiv> 0x10"
abbreviation DW_EH_PE_textrel :: u8 where "DW_EH_PE_textrel \<equiv> 0x20"
abbreviation DW_EH_PE_datarel :: u8 where "DW_EH_PE_datarel \<equiv> 0x30"
abbreviation DW_EH_PE_funcrel :: u8 where "DW_EH_PE_funcrel \<equiv> 0x40"
abbreviation DW_EH_PE_aligned :: u8 where "DW_EH_PE_aligned \<equiv> 0x50"
abbreviation DW_EH_PE_udata1 :: u8 where "DW_EH_PE_udata1 \<equiv> 0x0d"
abbreviation DW_EH_PE_sdata1 :: u8 where "DW_EH_PE_sdata1 \<equiv> 0x0e"
abbreviation DW_EH_PE_block :: u8 where "DW_EH_PE_block \<equiv> 0x0f"

section \<open>The cursor\<close>

record dwarf_memory =
  cur_offset :: u64
  pc_offset :: u64
  data_offset :: u64
  func_offset :: u64
  text_offset :: u64

abbreviation INT64_MAX :: u64 where "INT64_MAX \<equiv> 0x7fffffffffffffff"

definition DwarfMemory_new :: dwarf_memory where
  "DwarfMemory_new =
     \<lparr>cur_offset = 0, pc_offset = INT64_MAX, data_offset = - 1, func_offset = - 1,
      text_offset = - 1\<rparr>"

definition ReadBytes :: "reader \<Rightarrow> nat \<Rightarrow> dwarf_memory \<Rightarrow> (u8 list, dwarf_memory) outcome" where
  "ReadBytes rd num_bytes s =
     (case ReadFully rd (cur_offset s) num_bytes of
        None \<Rightarrow> Fail s
      | Some bs \<Rightarrow> Ok bs (s\<lparr>cur_offset := cur_offset s + of_nat num_bytes\<rparr>))"

text \<open>\<^verbatim>\<open>ReadSigned<SignedType>\<close>; \<open>n\<close> is the size of the signed type.\<close>

definition ReadSigned :: "nat \<Rightarrow> reader \<Rightarrow> dwarf_memory \<Rightarrow> (u64, dwarf_memory) outcome" where
  "ReadSigned n rd s =
     bind_out (ReadBytes rd n s) (\<lambda>bs s. Ok (signed_take_bit (8 * n - 1) (le_word bs)) s)"

text \<open>
  The loop \<^verbatim>\<open>ReadULEB128\<close> and \<^verbatim>\<open>ReadSLEB128\<close> share. It yields the accumulated value, the final
  \<^verbatim>\<open>shift\<close> and the last byte. Shifting a \<^verbatim>\<open>uint64_t\<close> by 64 or more is undefined.
\<close>

function leb_loop :: "reader \<Rightarrow> u64 \<Rightarrow> nat \<Rightarrow> dwarf_memory \<Rightarrow> (u64 \<times> nat \<times> u8, dwarf_memory) outcome"
where
  "leb_loop rd cur_value shift s =
     bind_out (ReadBytes rd 1 s) (\<lambda>bs s.
       let byte = hd bs in
       if 64 \<le> shift then Undef UB_Shift
       else
         let cur_value = cur_value + push_bit shift (ucast (byte AND 0x7f)); shift' = shift + 7
         in if byte AND 0x80 \<noteq> 0 then leb_loop rd cur_value shift' s
            else Ok (cur_value, shift', byte) s)"
  by pat_completeness auto
termination
  by (relation "measure (\<lambda>(rd, cur_value, shift, s). 64 - shift)") auto

definition ReadULEB128 :: "reader \<Rightarrow> dwarf_memory \<Rightarrow> (u64, dwarf_memory) outcome" where
  "ReadULEB128 rd s = bind_out (leb_loop rd 0 0 s) (\<lambda>(cur_value, shift, byte) s. Ok cur_value s)"

definition ReadSLEB128 :: "reader \<Rightarrow> dwarf_memory \<Rightarrow> (u64, dwarf_memory) outcome" where
  "ReadSLEB128 rd s =
     bind_out (leb_loop rd 0 0 s) (\<lambda>(cur_value, shift, byte) s.
       if byte AND 0x40 \<noteq> 0
       then if 64 \<le> shift then Undef UB_Shift else Ok (cur_value OR push_bit shift (- 1)) s
       else Ok cur_value s)"

definition GetEncodedSize :: "nat \<Rightarrow> u8 \<Rightarrow> nat" where
  "GetEncodedSize asz encoding =
     (let e = encoding AND 0x0f in
      if e = DW_EH_PE_absptr then asz
      else if e = DW_EH_PE_udata1 \<or> e = DW_EH_PE_sdata1 then 1
      else if e = DW_EH_PE_udata2 \<or> e = DW_EH_PE_sdata2 then 2
      else if e = DW_EH_PE_udata4 \<or> e = DW_EH_PE_sdata4 then 4
      else if e = DW_EH_PE_udata8 \<or> e = DW_EH_PE_sdata8 then 8
      else 0)"

definition AdjustEncodedValue ::
  "u8 \<Rightarrow> u64 \<Rightarrow> dwarf_memory \<Rightarrow> (u64, dwarf_memory) outcome" where
  "AdjustEncodedValue encoding value s =
     (if encoding AND 0x0f \<noteq> 0 then Abort
      else if encoding = DW_EH_PE_absptr then Ok value s
      else if encoding = DW_EH_PE_pcrel then
        (if pc_offset s = INT64_MAX then Fail s else Ok (value + pc_offset s) s)
      else if encoding = DW_EH_PE_textrel then
        (if text_offset s = - 1 then Fail s else Ok (value + text_offset s) s)
      else if encoding = DW_EH_PE_datarel then
        (if data_offset s = - 1 then Fail s else Ok (value + data_offset s) s)
      else if encoding = DW_EH_PE_funcrel then
        (if func_offset s = - 1 then Fail s else Ok (value + func_offset s) s)
      else Fail s)"

text \<open>The \<^verbatim>\<open>switch\<close> of \<^verbatim>\<open>ReadEncodedValue\<close> on the value format.\<close>

definition ReadFormat :: "nat \<Rightarrow> reader \<Rightarrow> u8 \<Rightarrow> dwarf_memory \<Rightarrow> (u64, dwarf_memory) outcome" where
  "ReadFormat asz rd e s =
     (if e = DW_EH_PE_absptr then bind_out (ReadBytes rd asz s) (\<lambda>bs. Ok (le_word bs))
      else if e = DW_EH_PE_uleb128 then ReadULEB128 rd s
      else if e = DW_EH_PE_sleb128 then ReadSLEB128 rd s
      else if e = DW_EH_PE_udata1 then bind_out (ReadBytes rd 1 s) (\<lambda>bs. Ok (le_word bs))
      else if e = DW_EH_PE_sdata1 then ReadSigned 1 rd s
      else if e = DW_EH_PE_udata2 then bind_out (ReadBytes rd 2 s) (\<lambda>bs. Ok (le_word bs))
      else if e = DW_EH_PE_sdata2 then ReadSigned 2 rd s
      else if e = DW_EH_PE_udata4 then bind_out (ReadBytes rd 4 s) (\<lambda>bs. Ok (le_word bs))
      else if e = DW_EH_PE_sdata4 then ReadSigned 4 rd s
      else if e = DW_EH_PE_udata8 then bind_out (ReadBytes rd 8 s) (\<lambda>bs. Ok (le_word bs))
      else if e = DW_EH_PE_sdata8 then ReadSigned 8 rd s
      else Fail s)"

definition ReadEncodedValue ::
  "nat \<Rightarrow> reader \<Rightarrow> u8 \<Rightarrow> dwarf_memory \<Rightarrow> (u64, dwarf_memory) outcome" where
  "ReadEncodedValue asz rd encoding s =
     (if encoding = DW_EH_PE_omit then Ok 0 s
      else if encoding = DW_EH_PE_aligned then
        (let inc = of_nat (asz - 1); s' = s\<lparr>cur_offset := cur_offset s + inc\<rparr>
         in if add_overflows (cur_offset s) inc then Fail s'
            else bind_out
              (ReadBytes rd asz (s'\<lparr>cur_offset := cur_offset s' AND - of_nat asz\<rparr>))
              (\<lambda>bs. Ok (le_word bs)))
      else bind_out (ReadFormat asz rd (encoding AND 0x0f) s)
             (AdjustEncodedValue (encoding AND 0x70)))"

section \<open>LEB128 as the DWARF standard defines it\<close>

fun uleb_encode :: "nat \<Rightarrow> u8 list" where
  "uleb_encode n =
     (if n < 128 then [of_nat n] else of_nat (n mod 128 + 128) # uleb_encode (n div 128))"

function sleb_encode :: "int \<Rightarrow> u8 list" where
  "sleb_encode n =
     (let b = nat (n mod 128); n' = n div 128
      in if n' = 0 \<and> b < 64 \<or> n' = - 1 \<and> 64 \<le> b then [of_nat b]
         else of_nat (b + 128) # sleb_encode n')"
  by pat_completeness auto
termination
proof (relation "measure (\<lambda>n. nat (if n < 0 then - n - 1 else n))")
  fix n b n' :: int and b' :: nat
  assume "b' = nat (n mod 128)" and "n' = n div 128"
    and "\<not> (n' = 0 \<and> b' < 64 \<or> n' = - 1 \<and> 64 \<le> b')"
  then have "\<not> (n div 128 = 0 \<and> n mod 128 < 64 \<or> n div 128 = - 1 \<and> 64 \<le> n mod 128)"
    by auto
  then show "(n', n) \<in> measure (\<lambda>n. nat (if n < 0 then - n - 1 else n))"
    using \<open>n' = n div 128\<close> by auto presburger+
qed simp

declare uleb_encode.simps [simp del] sleb_encode.simps [simp del] leb_loop.simps [simp del]

text \<open>A byte sequence in LEB128 form: every byte but the last has its top bit set.\<close>

fun leb_form :: "u8 list \<Rightarrow> bool" where
  "leb_form [] = False"
| "leb_form [b] = (b AND 0x80 = 0)"
| "leb_form (b # bs) = (b AND 0x80 \<noteq> 0 \<and> leb_form bs)"

primrec leb_value :: "u8 list \<Rightarrow> nat" where
  "leb_value [] = 0"
| "leb_value (b # bs) = unat (b AND 0x7f) + 128 * leb_value bs"

text \<open>The bytes \<open>bs\<close> stand at address \<open>a\<close>.\<close>

definition bytes_at :: "(u64 \<Rightarrow> u8 option) \<Rightarrow> u64 \<Rightarrow> u8 list \<Rightarrow> bool" where
  "bytes_at m a bs \<longleftrightarrow> (\<forall>i < length bs. m (a + of_nat i) = Some (bs ! i))"

text \<open>A \<^verbatim>\<open>MemoryBuffer\<close> with the given bytes.\<close>

definition list_buffer :: "u8 list \<Rightarrow> memory_buffer" where
  "list_buffer bs = \<lparr>buf_raw = (\<lambda>i. if i < length bs then bs ! i else 0),
     buf_size = of_nat (length bs)\<rparr>"

abbreviation list_reader :: "u8 list \<Rightarrow> reader" where
  "list_reader bs \<equiv> MemoryBuffer_Read (list_buffer bs)"

abbreviation list_content :: "u8 list \<Rightarrow> u64 \<Rightarrow> u8 option" where
  "list_content bs \<equiv> MemoryBuffer_content (list_buffer bs)"

section \<open>Lemmas on encodings\<close>

lemma bytes_at_Cons [simp]:
  "bytes_at m a (b # bs) \<longleftrightarrow> m a = Some b \<and> bytes_at m (a + 1) bs"
  unfolding bytes_at_def by (simp add: All_less_Suc2 add.assoc)

lemma bytes_at_Nil [simp]: "bytes_at m a []"
  by (simp add: bytes_at_def)

lemma bytes_at_append [simp]:
  "bytes_at m a (bs @ cs) \<longleftrightarrow> bytes_at m a bs \<and> bytes_at m (a + of_nat (length bs)) cs"
  by (induction bs arbitrary: a) (auto simp: add.assoc)

lemma bytes_at_list_buffer:
  assumes "length bs < 2 ^ 64"
  shows "bytes_at (list_content bs) 0 bs"
proof -
  have "unat (of_nat i :: u64) = i \<and> (of_nat i :: u64) < of_nat (length bs)" if "i < length bs" for i
    using that assms by (simp add: word_less_nat_alt unat_of_nat)
  then show ?thesis
    by (auto simp: bytes_at_def list_buffer_def MemoryBuffer_content_def window_content_def)
qed

lemma of_nat_low7:
  assumes "n < 128"
  shows "(of_nat n :: u8) AND 0x80 = 0" and "unat ((of_nat n :: u8) AND 0x7f) = n"
    and "(of_nat (n + 128) :: u8) AND 0x80 \<noteq> 0" and "unat ((of_nat (n + 128) :: u8) AND 0x7f) = n"
proof -
  have "\<forall>n < 128. (of_nat n :: u8) AND 0x80 = 0 \<and> unat ((of_nat n :: u8) AND 0x7f) = n \<and>
      (of_nat (n + 128) :: u8) AND 0x80 \<noteq> 0 \<and> unat ((of_nat (n + 128) :: u8) AND 0x7f) = n"
    by code_simp
  with assms show "(of_nat n :: u8) AND 0x80 = 0" and "unat ((of_nat n :: u8) AND 0x7f) = n"
    and "(of_nat (n + 128) :: u8) AND 0x80 \<noteq> 0" and "unat ((of_nat (n + 128) :: u8) AND 0x7f) = n"
    by blast+
qed

lemma leb_form_Cons: "bs \<noteq> [] \<Longrightarrow> leb_form (b # bs) \<longleftrightarrow> b AND 0x80 \<noteq> 0 \<and> leb_form bs"
  by (cases bs) auto

lemma leb_form_nonempty: "leb_form bs \<Longrightarrow> bs \<noteq> []"
  by auto

lemma uleb_encode_form: "leb_form (uleb_encode n) \<and> leb_value (uleb_encode n) = n"
proof (induction n rule: uleb_encode.induct)
  case (1 n)
  show ?case
  proof (cases "n < 128")
    case True
    then show ?thesis by (simp add: uleb_encode.simps of_nat_low7)
  next
    case False
    have "n mod 128 < 128" by simp
    from of_nat_low7(3,4) [OF this] False 1 leb_form_nonempty show ?thesis
      by (simp add: uleb_encode.simps [of n] leb_form_Cons)
  qed
qed

lemma length_uleb_encode: "n < 128 ^ Suc k \<Longrightarrow> length (uleb_encode n) \<le> Suc k"
proof (induction k arbitrary: n)
  case 0
  then show ?case by (simp add: uleb_encode.simps)
next
  case (Suc k)
  then have "n div 128 < 128 ^ Suc k"
    by (simp add: div_less_iff_less_mult mult.commute)
  from Suc.IH [OF this] show ?case
    by (simp add: uleb_encode.simps [of n])
qed

lemma of_nat_bit6: "n < 128 \<Longrightarrow> (of_nat n :: u8) AND 0x40 \<noteq> 0 \<longleftrightarrow> 64 \<le> n"
proof -
  have "\<forall>n < 128. ((of_nat n :: u8) AND 0x40 \<noteq> 0) = (64 \<le> n)"
    by code_simp
  then show "n < 128 \<Longrightarrow> (of_nat n :: u8) AND 0x40 \<noteq> 0 \<longleftrightarrow> 64 \<le> n"
    by blast
qed

text \<open>What a sign-extending decoder needs to know of an encoding: its form, its value modulo the
  bits it holds, the range it covers, and that bit 6 of its last byte is the sign.\<close>

definition sleb_spec :: "int \<Rightarrow> u8 list \<Rightarrow> bool" where
  "sleb_spec n bs \<longleftrightarrow>
     leb_form bs \<and> int (leb_value bs) = n mod 128 ^ length bs
     \<and> - (64 * 128 ^ (length bs - 1)) \<le> n \<and> n < 64 * 128 ^ (length bs - 1)
     \<and> (last bs AND 0x40 \<noteq> 0 \<longleftrightarrow> n < 0)"

lemma sleb_spec_single:
  fixes n :: int
  assumes "n div 128 = 0 \<and> n mod 128 < 64 \<or> n div 128 = - 1 \<and> 64 \<le> n mod 128"
  shows "sleb_spec n [of_nat (nat (n mod 128))]"
proof -
  have b: "nat (n mod 128) < 128" by auto
  have n: "n = 128 * (n div 128) + n mod 128" by simp
  have m: "0 \<le> n mod 128" "n mod 128 < 128" by auto
  from assms have "- 64 \<le> n \<and> n < 64 \<and> (64 \<le> n mod 128 \<longleftrightarrow> n < 0)"
    using n m by linarith
  moreover from m have "64 \<le> nat (n mod 128) \<longleftrightarrow> 64 \<le> n mod 128" by linarith
  ultimately show ?thesis
    using of_nat_low7 [OF b] of_nat_bit6 [OF b] m by (simp add: sleb_spec_def)
qed

lemma div128_bounds:
  fixes n p :: int
  assumes "- p \<le> n div 128" and "n div 128 < p"
  shows "- (128 * p) \<le> n" and "n < 128 * p" and "n div 128 < 0 \<longleftrightarrow> n < 0"
proof -
  have n: "n = 128 * (n div 128) + n mod 128" by simp
  have m: "0 \<le> n mod 128" "n mod 128 < 128" by auto
  show "- (128 * p) \<le> n" and "n < 128 * p" and "n div 128 < 0 \<longleftrightarrow> n < 0"
    using assms n m by linarith+
qed

lemma sleb_spec_Cons:
  fixes n :: int
  assumes "sleb_spec (n div 128) bs"
  shows "sleb_spec n (of_nat (nat (n mod 128) + 128) # bs)"
proof -
  have b: "nat (n mod 128) < 128" by auto
  have ne: "bs \<noteq> []" and form: "leb_form bs"
    using assms leb_form_nonempty by (auto simp: sleb_spec_def)
  then obtain k where k: "length bs = Suc k" by (cases bs) auto
  have val: "n mod 128 + 128 * (n div 128 mod 128 ^ length bs) = n mod (128 * 128 ^ length bs)"
    by (simp add: zmod_zmult2_eq)
  have "- (64 * 128 ^ k) \<le> n div 128" "n div 128 < 64 * 128 ^ k"
    using assms k by (simp_all add: sleb_spec_def)
  note bounds = div128_bounds [OF this]
  have "leb_form (of_nat (nat (n mod 128) + 128) # bs)"
    using form ne of_nat_low7(3) [OF b] by (simp add: leb_form_Cons)
  moreover have "int (leb_value (of_nat (nat (n mod 128) + 128) # bs)) = n mod 128 ^ Suc (length bs)"
    using assms val of_nat_low7(4) [OF b] by (simp add: sleb_spec_def)
  ultimately show ?thesis
    using assms ne k bounds by (simp add: sleb_spec_def)
qed

lemma sleb_encode_spec: "sleb_spec n (sleb_encode n)"
proof (induction n rule: sleb_encode.induct)
  case (1 n)
  show ?case
  proof (cases "n div 128 = 0 \<and> n mod 128 < 64 \<or> n div 128 = - 1 \<and> 64 \<le> n mod 128")
    case True
    then have "sleb_encode n = [of_nat (nat (n mod 128))]"
      by (subst sleb_encode.simps) (auto simp: Let_def)
    with sleb_spec_single [OF True] show ?thesis by simp
  next
    case False
    then have enc: "sleb_encode n = of_nat (nat (n mod 128) + 128) # sleb_encode (n div 128)"
      by (subst sleb_encode.simps) (auto simp: Let_def)
    have "sleb_spec (n div 128) (sleb_encode (n div 128))"
      using False by (intro 1) auto
    then show ?thesis
      unfolding enc by (rule sleb_spec_Cons)
  qed
qed

context flat_memory
begin

lemma ReadBytes_at:
  "bytes_at content (cur_offset s) bs \<Longrightarrow> n = length bs \<Longrightarrow>
   ReadBytes rd n s = Ok bs (s\<lparr>cur_offset := cur_offset s + of_nat n\<rparr>)"
  using ReadFully_Some_iff [of "cur_offset s" n bs]
  by (simp add: ReadBytes_def bytes_at_def)

lemma ReadBytes1_at:
  "content (cur_offset s) = Some b \<Longrightarrow>
   ReadBytes rd (Suc 0) s = Ok [b] (s\<lparr>cur_offset := cur_offset s + 1\<rparr>)"
  using ReadBytes_at [of s "[b]" "Suc 0"] by simp

lemma leb_loop_form:
  assumes "leb_form bs" and "bytes_at content (cur_offset s) bs"
    and "shift + 7 * (length bs - 1) < 64"
  shows "leb_loop rd v shift s =
    Ok (v + of_nat (2 ^ shift * leb_value bs), shift + 7 * length bs, last bs)
      (s\<lparr>cur_offset := cur_offset s + of_nat (length bs)\<rparr>)"
  using assms
proof (induction bs arbitrary: v shift s)
  case Nil
  then show ?case by simp
next
  case (Cons b bs)
  have read: "ReadBytes rd (Suc 0) s = Ok [b] (s\<lparr>cur_offset := cur_offset s + 1\<rparr>)"
    using Cons.prems(2) by (simp add: ReadBytes1_at)
  have byte: "push_bit shift (ucast (b AND 0x7f) :: u64) = of_nat (2 ^ shift * unat (b AND 0x7f))"
    by (simp add: push_bit_eq_mult mult.commute unsigned_ucast_eq)
  show ?case
  proof (cases "bs = []")
    case True
    with Cons.prems read byte show ?thesis
      by (subst leb_loop.simps) (simp add: Let_def)
  next
    case False
    with Cons.prems have b: "b AND 0x80 \<noteq> 0" and bs: "leb_form bs"
      by (auto simp: leb_form_Cons)
    obtain k where k: "length bs = Suc k" using False by (cases bs) auto
    have "leb_loop rd (v + of_nat (2 ^ shift * unat (b AND 0x7f))) (shift + 7)
        (s\<lparr>cur_offset := cur_offset s + 1\<rparr>) =
      Ok (v + of_nat (2 ^ shift * unat (b AND 0x7f)) + of_nat (2 ^ (shift + 7) * leb_value bs),
          shift + 7 + 7 * length bs, last bs)
        (s\<lparr>cur_offset := cur_offset s + 1 + of_nat (length bs)\<rparr>)"
      using Cons.IH [OF bs, of "s\<lparr>cur_offset := cur_offset s + 1\<rparr>" "shift + 7"] Cons.prems k
      by simp
    then show ?thesis
      using Cons.prems(3) b read byte False k
      by (subst leb_loop.simps) (simp add: Let_def power_add algebra_simps)
  qed
qed

lemma leb_loop_overlong:
  assumes "\<forall>b \<in> set bs. b AND 0x80 \<noteq> 0" and "bytes_at content (cur_offset s) (bs @ [b])"
    and "64 \<le> shift + 7 * length bs"
  shows "leb_loop rd v shift s = Undef UB_Shift"
  using assms
proof (induction bs arbitrary: v shift s)
  case Nil
  then show ?case
    by (subst leb_loop.simps) (simp add: ReadBytes1_at)
next
  case (Cons c bs)
  then have "ReadBytes rd (Suc 0) s = Ok [c] (s\<lparr>cur_offset := cur_offset s + 1\<rparr>)"
    by (simp add: ReadBytes1_at)
  with Cons show ?case
    by (subst leb_loop.simps) (simp add: Let_def)
qed

end

section \<open>Sign extension\<close>

lemma length_sleb_encode:
  "- (64 * 128 ^ k) \<le> n \<Longrightarrow> n < 64 * 128 ^ k \<Longrightarrow> length (sleb_encode n) \<le> Suc k"
proof (induction k arbitrary: n)
  case 0
  have "n = 128 * (n div 128) + n mod 128" "0 \<le> n mod 128" "n mod 128 < 128" by auto
  then have "n div 128 = 0 \<and> n mod 128 < 64 \<or> n div 128 = - 1 \<and> 64 \<le> n mod 128"
    using 0 unfolding power_0 by linarith
  then show ?case
    by (subst sleb_encode.simps) (auto simp: Let_def)
next
  case (Suc k)
  have "n = 128 * (n div 128) + n mod 128" "0 \<le> n mod 128" "n mod 128 < 128" by auto
  then have "- (64 * 128 ^ k) \<le> n div 128" "n div 128 < 64 * 128 ^ k"
    using Suc.prems unfolding power_Suc by linarith+
  from Suc.IH [OF this] show ?case
    by (subst sleb_encode.simps) (simp add: Let_def)
qed

lemma bit_negative_high:
  fixes n :: int
  assumes "- (2 ^ k) \<le> n" and "n < 0" and "k \<le> i"
  shows "bit n i"
proof -
  have "n div 2 ^ k = - 1"
    using assms by (intro int_div_pos_eq [where r = "n + 2 ^ k"]) auto
  then have "drop_bit k n = - 1"
    by (simp add: drop_bit_eq_div)
  then have "bit (drop_bit k n) (i - k)" by simp
  with assms(3) show ?thesis by (simp add: bit_drop_bit_eq)
qed

lemma sign_extend_word:
  fixes n :: int
  assumes "- (2 ^ k) \<le> n" and "n < 0"
  shows "(word_of_int (n mod 2 ^ k) :: 'a::len word) OR push_bit k (- 1) = word_of_int n"
  using bit_negative_high [OF assms]
  by (auto simp: bit_eq_iff bit_simps bit_word_of_int_iff take_bit_eq_mod [symmetric])

lemma of_nat_sleb_value:
  "sleb_spec n bs \<Longrightarrow> (of_nat (leb_value bs) :: u64) = word_of_int (n mod 2 ^ (7 * length bs))"
proof -
  assume "sleb_spec n bs"
  then have "int (leb_value bs) = n mod 2 ^ (7 * length bs)"
    by (simp add: sleb_spec_def power_mult)
  then show ?thesis
    by (metis of_int_of_nat_eq)
qed

lemma sleb_nonneg_value: "sleb_spec n bs \<Longrightarrow> 0 \<le> n \<Longrightarrow> int (leb_value bs) = n"
proof -
  assume spec: "sleb_spec n bs" and "0 \<le> n"
  obtain k where k: "length bs = Suc k"
    using spec by (cases bs) (auto simp: sleb_spec_def)
  have "n < 64 * 128 ^ k"
    using spec k by (simp add: sleb_spec_def)
  moreover have "0 < (128 :: int) ^ k" by simp
  ultimately have "n < 128 ^ length bs"
    unfolding k power_Suc by linarith
  with spec \<open>0 \<le> n\<close> show ?thesis by (simp add: sleb_spec_def)
qed

lemma sleb_low_bound: "sleb_spec n bs \<Longrightarrow> - (2 ^ (7 * length bs)) \<le> n"
proof -
  assume spec: "sleb_spec n bs"
  obtain k where k: "length bs = Suc k"
    using spec by (cases bs) (auto simp: sleb_spec_def)
  have "- (64 * 128 ^ k) \<le> n"
    using spec k by (simp add: sleb_spec_def)
  moreover have "0 < (128 :: int) ^ k" by simp
  moreover have "(2 :: int) ^ (7 * length bs) = 128 * 128 ^ k"
    by (simp add: k power_mult power_add)
  ultimately show ?thesis by linarith
qed

lemma sleb_short_bound: "sleb_spec n bs \<Longrightarrow> length bs \<le> 9 \<Longrightarrow> - (2 ^ 62) \<le> n"
proof -
  assume spec: "sleb_spec n bs" and "length bs \<le> 9"
  then have "(128 :: int) ^ (length bs - 1) \<le> 128 ^ 8"
    by (intro power_increasing) auto
  with spec show ?thesis by (simp add: sleb_spec_def)
qed

lemma last_leb_bit6:
  "sleb_spec n bs \<Longrightarrow> last bs AND 0x40 = 0 \<longleftrightarrow> \<not> n < 0"
  by (auto simp: sleb_spec_def)

context flat_memory
begin

lemma ReadULEB128_at:
  fixes v :: u64
  assumes "bytes_at content (cur_offset s) (uleb_encode (unat v))"
  shows "ReadULEB128 rd s =
    Ok v (s\<lparr>cur_offset := cur_offset s + of_nat (length (uleb_encode (unat v)))\<rparr>)"
proof -
  have "unat v < 128 ^ Suc 9"
    using unat_bound [of v] by (simp add: power_numeral_reduce)
  then have len: "length (uleb_encode (unat v)) \<le> 10"
    using length_uleb_encode [of "unat v" 9] by simp
  show ?thesis
    using leb_loop_form [OF _ assms, of 0 0] len uleb_encode_form [of "unat v"]
    by (simp add: ReadULEB128_def)
qed

lemma ReadSLEB128_at:
  fixes v :: u64
  assumes "bytes_at content (cur_offset s) (sleb_encode (sint v))"
  shows "ReadSLEB128 rd s =
    (if - (2 ^ 62) \<le> sint v
     then Ok v (s\<lparr>cur_offset := cur_offset s + of_nat (length (sleb_encode (sint v)))\<rparr>)
     else Undef UB_Shift)"
proof -
  let ?n = "sint v" and ?bs = "sleb_encode (sint v)"
  have v: "- (2 ^ 63) \<le> ?n" "?n < 2 ^ 63"
    using sint_greater_eq [of v] sint_less [of v] by simp_all
  note spec = sleb_encode_spec [of ?n]
  have len: "length ?bs \<le> 10"
    using length_sleb_encode [of 9 ?n] v by simp
  have loop: "leb_loop rd 0 0 s = Ok (of_nat (leb_value ?bs), 7 * length ?bs, last ?bs)
      (s\<lparr>cur_offset := cur_offset s + of_nat (length ?bs)\<rparr>)"
    using leb_loop_form [OF _ assms, of 0 0] len spec
    by (simp add: sleb_spec_def)
  consider "0 \<le> ?n" | "?n < 0" "- (2 ^ 62) \<le> ?n" | "?n < - (2 ^ 62)" by linarith
  then show ?thesis
  proof cases
    case 1
    then have "(of_nat (leb_value ?bs) :: u64) = v"
      using sleb_nonneg_value [OF spec] by (metis of_int_of_nat_eq of_int_sint scast_id)
    with 1 loop spec show ?thesis
      by (simp add: ReadSLEB128_def last_leb_bit6)
  next
    case 2
    then have short: "length ?bs \<le> 9"
      using length_sleb_encode [of 8 ?n] v by simp
    have "- (2 ^ (7 * length ?bs)) \<le> ?n"
      using sleb_low_bound [OF spec] .
    from sign_extend_word [OF this 2(1), where 'a = 64] 2 loop spec short show ?thesis
      by (simp add: ReadSLEB128_def last_leb_bit6 of_nat_sleb_value [OF spec])
  next
    case 3
    then have "\<not> length ?bs \<le> 9"
      using sleb_short_bound [OF spec] by fastforce
    with 3 loop spec show ?thesis
      by (simp add: ReadSLEB128_def last_leb_bit6)
  qed
qed

end

section \<open>Properties\<close>

text \<open>
  C33. \<^verbatim>\<open>ReadULEB128\<close> decodes the DWARF encoding of every 64-bit value, whatever memory it reads
  from, and leaves the cursor just behind the encoding.
\<close>

theorem ReadULEB128_decodes:
  fixes v :: u64
  assumes "flat_memory rd m" and "bytes_at m (cur_offset s) (uleb_encode (unat v))"
  shows "ReadULEB128 rd s =
    Ok v (s\<lparr>cur_offset := cur_offset s + of_nat (length (uleb_encode (unat v)))\<rparr>)"
  by (rule flat_memory.ReadULEB128_at [OF assms])

theorem ReadULEB128_decodes_witness:
  "ReadULEB128 (list_reader [0xe5, 0x8e, 0x26]) DwarfMemory_new =
    Ok 624485 (DwarfMemory_new\<lparr>cur_offset := 3\<rparr>)"
proof -
  have enc: "uleb_encode 624485 = [0xe5, 0x8e, 0x26]"
    by (simp add: uleb_encode.simps)
  show ?thesis
    using ReadULEB128_decodes [OF buffer_mem.flat_memory_axioms,
        of "list_buffer [0xe5, 0x8e, 0x26]" DwarfMemory_new 624485]
      bytes_at_list_buffer [of "[0xe5, 0x8e, 0x26]"]
    by (simp add: enc DwarfMemory_new_def)
qed

text \<open>
  C34. \<^verbatim>\<open>ReadSLEB128\<close> decodes the DWARF encoding of exactly the values from -2^62 up. A value below
  -2^62 has a ten byte encoding, and its sign extension shifts by 70, which C++ leaves undefined.
\<close>

theorem ReadSLEB128_decodes:
  fixes v :: u64
  assumes "flat_memory rd m" and "bytes_at m (cur_offset s) (sleb_encode (sint v))"
  shows "ReadSLEB128 rd s =
    (if - (2 ^ 62) \<le> sint v
     then Ok v (s\<lparr>cur_offset := cur_offset s + of_nat (length (sleb_encode (sint v)))\<rparr>)
     else Undef UB_Shift)"
  by (rule flat_memory.ReadSLEB128_at [OF assms])

theorem ReadSLEB128_decodes_witness:
  "ReadSLEB128 (list_reader [0x80, 0x7f]) DwarfMemory_new =
     Ok (- 128) (DwarfMemory_new\<lparr>cur_offset := 2\<rparr>)
   \<and> ReadSLEB128 (list_reader (sleb_encode (- (2 ^ 63)))) DwarfMemory_new = Undef UB_Shift"
proof
  have enc: "sleb_encode (- 128) = [0x80, 0x7f]"
    by (simp add: sleb_encode.simps)
  show "ReadSLEB128 (list_reader [0x80, 0x7f]) DwarfMemory_new =
     Ok (- 128) (DwarfMemory_new\<lparr>cur_offset := 2\<rparr>)"
    using ReadSLEB128_decodes [OF buffer_mem.flat_memory_axioms,
        of "list_buffer [0x80, 0x7f]" DwarfMemory_new "- 128"]
      bytes_at_list_buffer [of "[0x80, 0x7f]"]
    by (simp add: enc DwarfMemory_new_def)
next
  let ?bs = "sleb_encode (- (2 ^ 63))"
  have "length ?bs \<le> 10"
    using length_sleb_encode [of 9 "- (2 ^ 63)"] by simp
  then have "bytes_at (list_content ?bs) 0 ?bs"
    by (intro bytes_at_list_buffer) simp
  then show "ReadSLEB128 (list_reader ?bs) DwarfMemory_new = Undef UB_Shift"
    using ReadSLEB128_decodes [OF buffer_mem.flat_memory_axioms,
        of "list_buffer ?bs" DwarfMemory_new "2 ^ 63"]
    by (simp add: DwarfMemory_new_def)
qed

text \<open>
  Neither reader bounds the length of a LEB128 number: with ten continuation bytes and one more
  readable byte behind them, both shift by 70, which C++ leaves undefined.
\<close>

theorem ReadLEB128_overlong_undefined:
  assumes "flat_memory rd m" and "\<forall>b \<in> set bs. b AND 0x80 \<noteq> 0" and "10 \<le> length bs"
    and "bytes_at m (cur_offset s) (bs @ [b])"
  shows "ReadULEB128 rd s = Undef UB_Shift \<and> ReadSLEB128 rd s = Undef UB_Shift"
  using flat_memory.leb_loop_overlong [OF assms(1,2,4), of 0 0] assms(3)
  by (simp add: ReadULEB128_def ReadSLEB128_def)

theorem ReadLEB128_overlong_undefined_witness:
  "ReadULEB128 (list_reader (replicate 10 0x80 @ [0])) DwarfMemory_new = Undef UB_Shift
   \<and> ReadSLEB128 (list_reader (replicate 10 0x80 @ [0])) DwarfMemory_new = Undef UB_Shift"
proof -
  have "bytes_at (list_content (replicate 10 0x80 @ [0])) (cur_offset DwarfMemory_new)
      (replicate 10 0x80 @ [0])"
    using bytes_at_list_buffer [of "replicate 10 0x80 @ [0]"] by (simp add: DwarfMemory_new_def)
  from ReadLEB128_overlong_undefined [OF buffer_mem.flat_memory_axioms _ _ this]
  show ?thesis by simp
qed

text \<open>The value a fixed-size format stands for, and the address it is relative to.\<close>

definition format_value :: "u8 \<Rightarrow> u8 list \<Rightarrow> u64" where
  "format_value e bs =
     (if e \<in> {DW_EH_PE_sdata1, DW_EH_PE_sdata2, DW_EH_PE_sdata4, DW_EH_PE_sdata8}
      then signed_take_bit (8 * length bs - 1) (of_nat (le_nat bs))
      else of_nat (le_nat bs))"

definition encoding_base :: "u8 \<Rightarrow> dwarf_memory \<Rightarrow> u64 option" where
  "encoding_base app s =
     (if app = DW_EH_PE_absptr then Some 0
      else if app = DW_EH_PE_pcrel \<and> pc_offset s \<noteq> INT64_MAX then Some (pc_offset s)
      else if app = DW_EH_PE_textrel \<and> text_offset s \<noteq> - 1 then Some (text_offset s)
      else if app = DW_EH_PE_datarel \<and> data_offset s \<noteq> - 1 then Some (data_offset s)
      else if app = DW_EH_PE_funcrel \<and> func_offset s \<noteq> - 1 then Some (func_offset s)
      else None)"

lemma AdjustEncodedValue_base:
  "AdjustEncodedValue (encoding AND 0x70) v s =
     (case encoding_base (encoding AND 0x70) s of None \<Rightarrow> Fail s | Some b \<Rightarrow> Ok (v + b) s)"
proof -
  have "(encoding AND 0x70) AND 0x0f = (0 :: u8)"
    by (simp add: and.assoc)
  then show ?thesis
    by (simp add: AdjustEncodedValue_def encoding_base_def)
qed

lemma GetEncodedSize_cases:
  assumes "GetEncodedSize asz e = n" and "n \<noteq> 0" and "e AND 0x0f = e"
  obtains "e = DW_EH_PE_absptr" "n = asz"
  | "e = DW_EH_PE_udata1" "n = 1" | "e = DW_EH_PE_sdata1" "n = 1"
  | "e = DW_EH_PE_udata2" "n = 2" | "e = DW_EH_PE_sdata2" "n = 2"
  | "e = DW_EH_PE_udata4" "n = 4" | "e = DW_EH_PE_sdata4" "n = 4"
  | "e = DW_EH_PE_udata8" "n = 8" | "e = DW_EH_PE_sdata8" "n = 8"
  using assms by (auto simp: GetEncodedSize_def Let_def split: if_splits)

lemma ReadFormat_fixed:
  assumes "flat_memory rd m" and "bytes_at m (cur_offset s) bs" and "bs \<noteq> []"
    and size: "GetEncodedSize asz e = n" and n: "length bs = n" and e: "e AND 0x0f = e"
  shows "ReadFormat asz rd e s =
    Ok (format_value e bs) (s\<lparr>cur_offset := cur_offset s + of_nat n\<rparr>)"
proof -
  have rb: "ReadBytes rd n s = Ok bs (s\<lparr>cur_offset := cur_offset s + of_nat n\<rparr>)"
    using flat_memory.ReadBytes_at [OF assms(1,2)] n by blast
  have "n \<noteq> 0" using assms(3) n by auto
  from size this e show ?thesis
    by (cases rule: GetEncodedSize_cases)
      (use rb n in \<open>simp_all add: ReadFormat_def ReadSigned_def format_value_def le_word_def\<close>)
qed

lemma ReadEncodedValue_fixed:
  assumes "flat_memory rd m" and "bytes_at m (cur_offset s) bs" and "bs \<noteq> []"
    and "GetEncodedSize asz encoding = length bs" and "encoding \<noteq> DW_EH_PE_aligned"
  shows "ReadEncodedValue asz rd encoding s =
    (let s' = s\<lparr>cur_offset := cur_offset s + of_nat (length bs)\<rparr>
     in case encoding_base (encoding AND 0x70) s of
          None \<Rightarrow> Fail s'
        | Some b \<Rightarrow> Ok (format_value (encoding AND 0x0f) bs + b) s')"
proof -
  have "GetEncodedSize asz (encoding AND 0x0f) = length bs"
    using assms(4) by (simp add: GetEncodedSize_def and.assoc)
  with assms(1-3) have "ReadFormat asz rd (encoding AND 0x0f) s =
      Ok (format_value (encoding AND 0x0f) bs) (s\<lparr>cur_offset := cur_offset s + of_nat (length bs)\<rparr>)"
    by (intro ReadFormat_fixed [where m = m]) (simp_all add: and.assoc)
  moreover have "encoding \<noteq> DW_EH_PE_omit"
    using assms(3,4) by (auto simp: GetEncodedSize_def)
  moreover have "encoding_base app (s\<lparr>cur_offset := x\<rparr>) = encoding_base app s" for app x
    by (simp add: encoding_base_def)
  ultimately show ?thesis
    using assms(5) by (simp add: ReadEncodedValue_def AdjustEncodedValue_base Let_def)
qed

text \<open>
  The encoded form \<open>bs\<close> of an operand with encoding \<open>e\<close> and value \<open>v\<close>: a LEB128 number, or a
  fixed-size format relative to nothing.
\<close>

definition operand_form :: "nat \<Rightarrow> u8 \<Rightarrow> u64 \<Rightarrow> u8 list \<Rightarrow> bool" where
  "operand_form asz e v bs \<longleftrightarrow>
     e = DW_EH_PE_uleb128 \<and> bs = uleb_encode (unat v)
     \<or> e = DW_EH_PE_sleb128 \<and> bs = sleb_encode (sint v) \<and> - (2 ^ 62) \<le> sint v
     \<or> e AND 0x0f = e \<and> bs \<noteq> [] \<and> GetEncodedSize asz e = length bs \<and> v = format_value e bs"

lemma ReadEncodedValue_operand:
  assumes mem: "flat_memory rd m" and "operand_form asz e v bs" and at: "bytes_at m (cur_offset s) bs"
  shows "ReadEncodedValue asz rd e s = Ok v (s\<lparr>cur_offset := cur_offset s + of_nat (length bs)\<rparr>)"
  using assms(2) unfolding operand_form_def
proof (elim disjE conjE)
  assume "e = DW_EH_PE_uleb128" "bs = uleb_encode (unat v)"
  with at show ?thesis
    using flat_memory.ReadULEB128_at [OF mem, of s v]
    by (simp add: ReadEncodedValue_def ReadFormat_def AdjustEncodedValue_def)
next
  assume "e = DW_EH_PE_sleb128" "bs = sleb_encode (sint v)" "- (2 ^ 62) \<le> sint v"
  with at show ?thesis
    using flat_memory.ReadSLEB128_at [OF mem, of s v]
    by (simp add: ReadEncodedValue_def ReadFormat_def AdjustEncodedValue_def)
next
  assume low: "e AND 0x0f = e" and *: "bs \<noteq> []" "GetEncodedSize asz e = length bs" "v = format_value e bs"
  have "e AND 0x70 = (e AND 0x0f) AND 0x70" using low by simp
  then have "e AND 0x70 = 0" by (simp add: and.assoc)
  moreover have "e \<noteq> DW_EH_PE_aligned" using low by auto
  ultimately show ?thesis
    using ReadEncodedValue_fixed [OF mem at *(1,2)] low *(3) by (simp add: encoding_base_def)
qed

lemma operand_form_byte: "operand_form asz DW_EH_PE_udata1 (ucast b) [b]"
  by (simp add: operand_form_def GetEncodedSize_def format_value_def)

text \<open>
  For every pointer encoding of fixed size, \<^verbatim>\<open>ReadEncodedValue\<close> consumes exactly the bytes
  \<^verbatim>\<open>GetEncodedSize\<close> announces and returns the little-endian value of those bytes, sign-extended for
  the signed formats, plus the base the encoding is relative to; it fails when the encoding has no
  usable base. The internal \<^verbatim>\<open>CHECK\<close> never fires.
\<close>

theorem ReadEncodedValue_fixed_size:
  assumes "flat_memory rd m" and "bytes_at m (cur_offset s) bs" and "bs \<noteq> []"
    and "GetEncodedSize asz encoding = length bs" and "encoding \<noteq> DW_EH_PE_aligned"
  shows "ReadEncodedValue asz rd encoding s =
    (let s' = s\<lparr>cur_offset := cur_offset s + of_nat (length bs)\<rparr>
     in case encoding_base (encoding AND 0x70) s of
          None \<Rightarrow> Fail s'
        | Some b \<Rightarrow> Ok (format_value (encoding AND 0x0f) bs + b) s')"
  by (rule ReadEncodedValue_fixed [OF assms])

theorem ReadEncodedValue_fixed_size_witness:
  "ReadEncodedValue 8 (list_reader [0xf0, 0xff, 0xff, 0xff]) 0x1b
       (DwarfMemory_new\<lparr>pc_offset := 0x1000\<rparr>) =
     Ok 0xff0 (DwarfMemory_new\<lparr>pc_offset := 0x1000, cur_offset := 4\<rparr>)"
proof -
  let ?s = "DwarfMemory_new\<lparr>pc_offset := 0x1000\<rparr>"
  have at: "bytes_at (list_content [0xf0, 0xff, 0xff, 0xff]) (cur_offset ?s) [0xf0, 0xff, 0xff, 0xff]"
    using bytes_at_list_buffer [of "[0xf0, 0xff, 0xff, 0xff]"] by (simp add: DwarfMemory_new_def)
  have v: "format_value 0x0b [0xf0, 0xff, 0xff, 0xff] = - 16"
    by (simp add: format_value_def le_word_def)
  show ?thesis
    using ReadEncodedValue_fixed_size [OF buffer_mem.flat_memory_axioms at, where asz = 8 and encoding = "0x1b"]
    by (simp add: GetEncodedSize_def encoding_base_def v DwarfMemory_new_def)
qed

end
