(* ===== verification/Regs_Info.thy ===== *)
theory Regs_Info
  imports Unwind_Prelude
begin

text \<open>
  \<^verbatim>\<open>libunwindstack/RegsInfo.h\<close> and the parts of \<^verbatim>\<open>include/unwindstack/Regs.h\<close> it uses: the register
  file a DWARF evaluation reads, and the copies of the registers it has already overwritten. The
  type parameter is the template parameter \<^verbatim>\<open>AddressType\<close>.
\<close>

definition MAX_REGISTERS :: nat where
  "MAX_REGISTERS = 64"

record 'w regs_info =
  regs :: "'w list"
  saved_reg_map :: u64
  saved_regs :: "'w list"

definition RegsInfo_new :: "'a::len word list \<Rightarrow> 'a word list \<Rightarrow> 'a word regs_info" where
  "RegsInfo_new rs uninit = \<lparr>regs = rs, saved_reg_map = 0, saved_regs = uninit\<rparr>"

text \<open>\<^verbatim>\<open>1ULL << reg\<close> is undefined for a shift by 64 or more; the index is checked with \<^verbatim>\<open>>\<close>.\<close>

definition RegsInfo_IsSaved :: "'a::len word regs_info \<Rightarrow> u32 \<Rightarrow> 's \<Rightarrow> (bool, 's) outcome" where
  "RegsInfo_IsSaved ri reg s =
     (if MAX_REGISTERS < unat reg then Abort
      else if 64 \<le> unat reg then Undef UB_Shift
      else Ok (saved_reg_map ri AND push_bit (unat reg) 1 \<noteq> 0) s)"

definition RegsInfo_Get :: "'a::len word regs_info \<Rightarrow> u32 \<Rightarrow> 's \<Rightarrow> ('a word, 's) outcome" where
  "RegsInfo_Get ri reg s =
     bind_out (RegsInfo_IsSaved ri reg s) (\<lambda>is_saved s.
       if is_saved
       then if unat reg < length (saved_regs ri) then Ok (saved_regs ri ! unat reg) s
            else Undef UB_Bounds
       else if unat reg < length (regs ri) then Ok (regs ri ! unat reg) s
            else Undef UB_Bounds)"

text \<open>\<^verbatim>\<open>Save\<close> returns a pointer to the live register: its index here.\<close>

definition RegsInfo_Save :: "u32 \<Rightarrow> 'a::len word regs_info \<Rightarrow> (nat, 'a word regs_info) outcome" where
  "RegsInfo_Save reg ri =
     (if MAX_REGISTERS \<le> unat reg then Abort
      else if length (regs ri) \<le> unat reg \<or> length (saved_regs ri) \<le> unat reg then Undef UB_Bounds
      else Ok (unat reg)
        (ri\<lparr>saved_reg_map := saved_reg_map ri OR push_bit (unat reg) 1,
            saved_regs := (saved_regs ri)[unat reg := regs ri ! unat reg]\<rparr>))"

definition RegsInfo_Total :: "'a::len word regs_info \<Rightarrow> u16" where
  "RegsInfo_Total ri = of_nat (length (regs ri))"

text \<open>A store through the pointer \<^verbatim>\<open>Save\<close> returned.\<close>

definition regs_store :: "nat \<Rightarrow> 'a::len word \<Rightarrow> 'a word regs_info \<Rightarrow> 'a word regs_info" where
  "regs_store i v ri = ri\<lparr>regs := (regs ri)[i := v]\<rparr>"

text \<open>The shape \<^verbatim>\<open>RegsInfo\<close> relies on: at most 64 registers, a full array of copies.\<close>

definition regs_info_ok :: "'a::len word regs_info \<Rightarrow> bool" where
  "regs_info_ok ri \<longleftrightarrow> length (regs ri) \<le> MAX_REGISTERS \<and> length (saved_regs ri) = MAX_REGISTERS"

lemma regs_info_ok_new:
  "length rs \<le> 64 \<Longrightarrow> length un = 64 \<Longrightarrow> regs_info_ok (RegsInfo_new rs un)"
  by (simp add: regs_info_ok_def RegsInfo_new_def MAX_REGISTERS_def)

lemma saved_bit:
  fixes m :: u64
  assumes "i < 64"
  shows "m AND 2 ^ i = 0 \<longleftrightarrow> \<not> bit m i"
  using assms by (simp add: and_exp_eq_0_iff_not_bit)

lemma RegsInfo_Get_below_total:
  assumes "regs_info_ok ri" and "unat reg < length (regs ri)"
  shows "RegsInfo_Get ri reg s =
    Ok (if bit (saved_reg_map ri) (unat reg) then saved_regs ri ! unat reg else regs ri ! unat reg) s"
  using assms
  by (auto simp: RegsInfo_Get_def RegsInfo_IsSaved_def regs_info_ok_def MAX_REGISTERS_def saved_bit)

lemma regs_info_ok_Save:
  "regs_info_ok ri \<Longrightarrow> RegsInfo_Save reg ri = Ok i ri' \<Longrightarrow> regs_info_ok ri'"
  by (auto simp: RegsInfo_Save_def regs_info_ok_def split: if_splits)

lemma regs_info_ok_store: "regs_info_ok ri \<Longrightarrow> regs_info_ok (regs_store i v ri)"
  by (simp add: regs_info_ok_def regs_store_def)

text \<open>The value a register had when the frame was entered, whether or not it has been overwritten.\<close>

definition caller_value :: "'a::len word regs_info \<Rightarrow> nat \<Rightarrow> 'a word" where
  "caller_value ri i = (if bit (saved_reg_map ri) i then saved_regs ri ! i else regs ri ! i)"

lemma bit_or_push_bit:
  fixes m :: u64
  shows "i < 64 \<Longrightarrow> bit (m OR 2 ^ j) i \<longleftrightarrow> bit m i \<or> i = j"
  by (auto simp: bit_simps)

text \<open>Overwriting registers one after the other, each through \<^verbatim>\<open>Save\<close>.\<close>

fun overwrite_regs :: "(u32 \<times> 'a::len word) list \<Rightarrow> 'a word regs_info \<Rightarrow> (unit, 'a word regs_info) outcome" where
  "overwrite_regs [] ri = Ok () ri"
| "overwrite_regs ((reg, v) # ws) ri =
     bind_out (RegsInfo_Save reg ri) (\<lambda>i ri. overwrite_regs ws (regs_store i v ri))"

lemma RegsInfo_Save_in_bounds:
  assumes "regs_info_ok ri" and "unat reg < length (regs ri)"
  shows "RegsInfo_Save reg ri = Ok (unat reg)
    (ri\<lparr>saved_reg_map := saved_reg_map ri OR push_bit (unat reg) 1,
        saved_regs := (saved_regs ri)[unat reg := regs ri ! unat reg]\<rparr>)"
  using assms by (simp add: RegsInfo_Save_def regs_info_ok_def MAX_REGISTERS_def)

text \<open>One overwrite of a register that is not saved yet keeps every caller value.\<close>

lemma overwrite_one:
  assumes ok: "regs_info_ok ri" and reg: "unat reg < length (regs ri)"
    and fresh: "\<not> bit (saved_reg_map ri) (unat reg)"
  obtains ri' where "RegsInfo_Save reg ri = Ok (unat reg) ri'"
    and "regs_info_ok (regs_store (unat reg) v ri')"
    and "regs (regs_store (unat reg) v ri') = (regs ri)[unat reg := v]"
    and "\<And>i. i < 64 \<Longrightarrow> caller_value (regs_store (unat reg) v ri') i = caller_value ri i"
    and "\<And>i. i < 64 \<Longrightarrow> bit (saved_reg_map (regs_store (unat reg) v ri')) i \<longleftrightarrow>
           bit (saved_reg_map ri) i \<or> i = unat reg"
proof -
  let ?ri = "ri\<lparr>saved_reg_map := saved_reg_map ri OR push_bit (unat reg) 1,
      saved_regs := (saved_regs ri)[unat reg := regs ri ! unat reg]\<rparr>"
  have len: "unat reg < 64" "length (saved_regs ri) = 64"
    using ok reg by (auto simp: regs_info_ok_def MAX_REGISTERS_def)
  show ?thesis
  proof (rule that [of ?ri])
    show "RegsInfo_Save reg ri = Ok (unat reg) ?ri"
      by (rule RegsInfo_Save_in_bounds [OF ok reg])
    show "regs_info_ok (regs_store (unat reg) v ?ri)"
      using ok by (simp add: regs_info_ok_def regs_store_def)
  qed (use len fresh in \<open>auto simp: regs_store_def caller_value_def bit_or_push_bit nth_list_update\<close>)
qed

lemma overwrite_regs_caller_value:
  assumes "regs_info_ok ri" and "distinct (map fst ws)"
    and "\<forall>(reg, v) \<in> set ws. unat reg < length (regs ri) \<and> \<not> bit (saved_reg_map ri) (unat reg)"
  shows "\<exists>ri'. overwrite_regs ws ri = Ok () ri' \<and> regs_info_ok ri'
    \<and> length (regs ri') = length (regs ri) \<and> (\<forall>i < 64. caller_value ri' i = caller_value ri i)
    \<and> regs ri' = foldl (\<lambda>rs (reg, v). rs[unat reg := v]) (regs ri) ws"
  using assms
proof (induction ws arbitrary: ri)
  case Nil
  then show ?case by simp
next
  case (Cons w ws)
  obtain reg v where w: "w = (reg, v)" by (cases w)
  have reg: "unat reg < length (regs ri)" "\<not> bit (saved_reg_map ri) (unat reg)"
    using Cons.prems(3) w by auto
  obtain ri1 where save: "RegsInfo_Save reg ri = Ok (unat reg) ri1"
    and ok: "regs_info_ok (regs_store (unat reg) v ri1)"
    and rs: "regs (regs_store (unat reg) v ri1) = (regs ri)[unat reg := v]"
    and cv: "\<And>i. i < 64 \<Longrightarrow> caller_value (regs_store (unat reg) v ri1) i = caller_value ri i"
    and sv: "\<And>i. i < 64 \<Longrightarrow> bit (saved_reg_map (regs_store (unat reg) v ri1)) i \<longleftrightarrow>
               bit (saved_reg_map ri) i \<or> i = unat reg"
    using overwrite_one [OF Cons.prems(1) reg] by blast
  have "\<forall>(reg', v') \<in> set ws. unat reg' < length (regs (regs_store (unat reg) v ri1))
      \<and> \<not> bit (saved_reg_map (regs_store (unat reg) v ri1)) (unat reg')"
  proof clarify
    fix reg' v'
    assume "(reg', v') \<in> set ws"
    then have "unat reg' < length (regs ri)" "\<not> bit (saved_reg_map ri) (unat reg')" "reg' \<noteq> reg"
      using Cons.prems(2,3) w by (auto simp: image_iff)
    then show "unat reg' < length (regs (regs_store (unat reg) v ri1))
      \<and> \<not> bit (saved_reg_map (regs_store (unat reg) v ri1)) (unat reg')"
      using Cons.prems(1) sv [of "unat reg'"] word_unat_eq_iff [of reg' reg]
      by (auto simp: rs regs_info_ok_def MAX_REGISTERS_def)
  qed
  from Cons.IH [OF ok _ this] show ?case
    using Cons.prems(2) w save cv by (auto simp: rs)
qed

section \<open>Properties\<close>

text \<open>
  However many distinct registers are overwritten through \<^verbatim>\<open>Save\<close>, \<^verbatim>\<open>Get\<close> still returns what
  every register held before the first of them, while the live register file holds the new values.
\<close>

theorem RegsInfo_Get_after_overwrites:
  assumes "length rs \<le> 64" and "length un = 64" and "distinct (map fst ws)"
    and "\<forall>(reg, v) \<in> set ws. unat reg < length rs" and "unat r < length rs"
  shows "\<exists>ri. overwrite_regs ws (RegsInfo_new rs un) = Ok () ri
    \<and> RegsInfo_Get ri r s = Ok (rs ! unat r) s
    \<and> regs ri = foldl (\<lambda>rs (reg, v). rs[unat reg := v]) rs ws"
proof -
  let ?ri = "RegsInfo_new rs un"
  have fields: "regs ?ri = rs" "saved_reg_map ?ri = 0"
    by (simp_all add: RegsInfo_new_def)
  obtain ri where ri: "overwrite_regs ws ?ri = Ok () ri" "regs_info_ok ri"
      "length (regs ri) = length rs" "\<forall>i < 64. caller_value ri i = caller_value ?ri i"
      "regs ri = foldl (\<lambda>rs (reg, v). rs[unat reg := v]) rs ws"
    using overwrite_regs_caller_value [OF regs_info_ok_new [OF assms(1,2)] assms(3)] assms(4) fields
    by auto
  have "RegsInfo_Get ri r s = Ok (caller_value ri (unat r)) s"
    using RegsInfo_Get_below_total [OF ri(2), of r s] ri(3) assms(5) by (simp add: caller_value_def)
  moreover have "caller_value ri (unat r) = rs ! unat r"
    using ri(4) assms(1,5) by (simp add: caller_value_def fields)
  ultimately show ?thesis using ri by auto
qed

theorem RegsInfo_Get_after_overwrites_witness:
  "\<exists>ri. overwrite_regs [(1, 7), (0, 8)] (RegsInfo_new [10, 11, 12 :: u32] (replicate 64 0)) = Ok () ri
    \<and> RegsInfo_Get ri 1 () = Ok 11 () \<and> regs ri = [8, 7, 12]"
  using RegsInfo_Get_after_overwrites
    [of "[10, 11, 12 :: u32]" "replicate 64 0" "[(1, 7), (0, 8)]" 1 "()"]
  by simp

end
