(* ===== verification/Dwarf_Op.thy ===== *)
theory Dwarf_Op
  imports Dwarf_Op_Table Regs_Info
begin

text \<open>
  \<^verbatim>\<open>libunwindstack/DwarfOp.cpp\<close>, the stack machine for DWARF expressions: \<^verbatim>\<open>Decode\<close>, the operation
  handlers and \<^verbatim>\<open>Eval\<close>. The type parameter is \<^verbatim>\<open>AddressType\<close>. What a \<^verbatim>\<open>DwarfOp\<close> points to and never
  changes (the memory behind the \<^verbatim>\<open>DwarfMemory\<close>, the regular memory, the registers) is the
  environment; what it changes is its state. The front of \<^verbatim>\<open>stack_\<close> is the head of the list.
\<close>

section \<open>State\<close>

datatype DwarfErrorCode =
    DWARF_ERROR_NONE | DWARF_ERROR_MEMORY_INVALID | DWARF_ERROR_ILLEGAL_VALUE
  | DWARF_ERROR_ILLEGAL_STATE | DWARF_ERROR_STACK_INDEX_NOT_VALID | DWARF_ERROR_NOT_IMPLEMENTED
  | DWARF_ERROR_TOO_MANY_ITERATIONS | DWARF_ERROR_CFA_NOT_DEFINED
  | DWARF_ERROR_UNSUPPORTED_VERSION | DWARF_ERROR_NO_FDES

record DwarfErrorData =
  err_code :: DwarfErrorCode
  err_address :: u64

record 'w op_env =
  op_rd :: reader
  regular_memory :: reader
  op_regs_info :: "'w regs_info"

record 'w dwarf_op =
  op_memory :: dwarf_memory
  dex_pc_set :: bool
  is_register :: bool
  last_error :: DwarfErrorData
  cur_op :: u8
  operands :: "'w list"
  op_stack :: "'w list"

type_synonym 'a op_handler = "'a word op_env \<Rightarrow> 'a word dwarf_op \<Rightarrow> (unit, 'a word dwarf_op) outcome"

abbreviation op_offset :: "'a::len word dwarf_op \<Rightarrow> u64" where
  "op_offset s \<equiv> cur_offset (op_memory s)"

definition addr_size :: "'a::len itself \<Rightarrow> nat" where
  "addr_size _ = LENGTH('a) div 8"

definition set_code :: "DwarfErrorCode \<Rightarrow> 'a::len word dwarf_op \<Rightarrow> 'a word dwarf_op" where
  "set_code c s = s\<lparr>last_error := (last_error s)\<lparr>err_code := c\<rparr>\<rparr>"

definition memory_invalid :: "u64 \<Rightarrow> 'a::len word dwarf_op \<Rightarrow> 'a word dwarf_op" where
  "memory_invalid a s =
     s\<lparr>last_error := \<lparr>err_code = DWARF_ERROR_MEMORY_INVALID, err_address = a\<rparr>\<rparr>"

definition set_op_offset :: "u64 \<Rightarrow> 'a::len word dwarf_op \<Rightarrow> 'a word dwarf_op" where
  "set_op_offset a s = s\<lparr>op_memory := (op_memory s)\<lparr>cur_offset := a\<rparr>\<rparr>"

text \<open>An operation of the \<^verbatim>\<open>DwarfMemory\<close> whose failure is reported at its cursor.\<close>

definition on_memory ::
  "(dwarf_memory \<Rightarrow> ('v, dwarf_memory) outcome) \<Rightarrow> 'a::len word dwarf_op \<Rightarrow> ('v, 'a word dwarf_op) outcome" where
  "on_memory f s =
     map_state (\<lambda>m. s\<lparr>op_memory := m\<rparr>) (\<lambda>m. memory_invalid (cur_offset m) (s\<lparr>op_memory := m\<rparr>))
       (f (op_memory s))"

text \<open>\<^verbatim>\<open>StackPop\<close>, \<^verbatim>\<open>StackAt\<close>, \<^verbatim>\<open>OperandAt\<close>: outside the container is undefined.\<close>

definition StackPop :: "'a::len word dwarf_op \<Rightarrow> ('a word, 'a word dwarf_op) outcome" where
  "StackPop s = (case op_stack s of [] \<Rightarrow> Undef UB_Bounds | v # vs \<Rightarrow> Ok v (s\<lparr>op_stack := vs\<rparr>))"

definition StackAt :: "nat \<Rightarrow> 'a::len word dwarf_op \<Rightarrow> ('a word, 'a word dwarf_op) outcome" where
  "StackAt i s = (if i < length (op_stack s) then Ok (op_stack s ! i) s else Undef UB_Bounds)"

definition OperandAt :: "nat \<Rightarrow> 'a::len word dwarf_op \<Rightarrow> ('a word, 'a word dwarf_op) outcome" where
  "OperandAt i s = (if i < length (operands s) then Ok (operands s ! i) s else Undef UB_Bounds)"

definition push_front :: "'a::len word \<Rightarrow> 'a word dwarf_op \<Rightarrow> 'a word dwarf_op" where
  "push_front v s = s\<lparr>op_stack := v # op_stack s\<rparr>"

definition set_stack :: "nat \<Rightarrow> 'a::len word \<Rightarrow> 'a word dwarf_op \<Rightarrow> (unit, 'a word dwarf_op) outcome" where
  "set_stack i v s =
     (if i < length (op_stack s) then Ok () (s\<lparr>op_stack := (op_stack s)[i := v]\<rparr>) else Undef UB_Bounds)"

definition bool_to_dwarf_bool :: "bool \<Rightarrow> 'a::len word" where
  "bool_to_dwarf_bool value = (if value then 1 else 0)"

text \<open>The smallest value of \<^verbatim>\<open>SignedType\<close>, whose negation overflows.\<close>

definition signed_min :: "'a::len word" where
  "signed_min = push_bit (LENGTH('a) - 1) 1"

section \<open>Handlers\<close>

definition op_deref :: "'a::len op_handler" where
  "op_deref env s =
     bind_out (StackPop s) (\<lambda>addr s.
       case ReadFully (regular_memory env) (ucast addr) (addr_size TYPE('a)) of
         None \<Rightarrow> Fail (memory_invalid (ucast addr) s)
       | Some bs \<Rightarrow> Ok () (push_front (le_word bs) s))"

definition op_deref_size :: "'a::len op_handler" where
  "op_deref_size env s =
     bind_out (OperandAt 0 s) (\<lambda>bytes_to_read s.
       if addr_size TYPE('a) < unat bytes_to_read \<or> bytes_to_read = 0
       then Fail (set_code DWARF_ERROR_ILLEGAL_VALUE s)
       else bind_out (StackPop s) (\<lambda>addr s.
         case ReadFully (regular_memory env) (ucast addr) (unat bytes_to_read) of
           None \<Rightarrow> Fail (memory_invalid (ucast addr) s)
         | Some bs \<Rightarrow> Ok () (push_front (le_word bs) s)))"

definition op_push :: "'a::len op_handler" where
  "op_push env s = Ok () (fold push_front (operands s) s)"

definition op_dup :: "'a::len op_handler" where
  "op_dup env s = bind_out (StackAt 0 s) (\<lambda>v s. Ok () (push_front v s))"

definition op_drop :: "'a::len op_handler" where
  "op_drop env s = bind_out (StackPop s) (\<lambda>_ s. Ok () s)"

definition op_over :: "'a::len op_handler" where
  "op_over env s = bind_out (StackAt 1 s) (\<lambda>v s. Ok () (push_front v s))"

definition op_pick :: "'a::len op_handler" where
  "op_pick env s =
     bind_out (OperandAt 0 s) (\<lambda>index s.
       if length (op_stack s) \<le> unat index then Fail (set_code DWARF_ERROR_STACK_INDEX_NOT_VALID s)
       else bind_out (StackAt (unat index) s) (\<lambda>v s. Ok () (push_front v s)))"

definition op_swap :: "'a::len op_handler" where
  "op_swap env s =
     bind_out (StackAt 0 s) (\<lambda>old_value s.
       bind_out (StackAt 1 s) (\<lambda>v1 s.
         bind_out (set_stack 0 v1 s) (\<lambda>_ s. set_stack 1 old_value s)))"

definition op_rot :: "'a::len op_handler" where
  "op_rot env s =
     bind_out (StackAt 0 s) (\<lambda>top s.
       bind_out (StackAt 1 s) (\<lambda>v1 s.
         bind_out (set_stack 0 v1 s) (\<lambda>_ s.
           bind_out (StackAt 2 s) (\<lambda>v2 s.
             bind_out (set_stack 1 v2 s) (\<lambda>_ s. set_stack 2 top s)))))"

definition op_abs :: "'a::len op_handler" where
  "op_abs env s =
     bind_out (StackAt 0 s) (\<lambda>v s.
       if sint v < 0
       then if v = signed_min then Undef UB_Signed_Overflow else set_stack 0 (- v) s
       else set_stack 0 v s)"

text \<open>The operations that pop the top and combine it into the element below.\<close>

definition binary_op ::
  "('a::len word \<Rightarrow> 'a word \<Rightarrow> 'a word dwarf_op \<Rightarrow> ('a word, 'a word dwarf_op) outcome) \<Rightarrow> 'a op_handler" where
  "binary_op f env s =
     bind_out (StackPop s) (\<lambda>top s.
       bind_out (StackAt 0 s) (\<lambda>below s.
         bind_out (f below top s) (\<lambda>v s. set_stack 0 v s)))"

definition op_and :: "'a::len op_handler" where
  "op_and = binary_op (\<lambda>below top. Ok (below AND top))"

definition op_div :: "'a::len op_handler" where
  "op_div env s =
     bind_out (StackPop s) (\<lambda>top s.
       if top = 0 then Fail (set_code DWARF_ERROR_ILLEGAL_VALUE s)
       else bind_out (StackAt 0 s) (\<lambda>dividend s.
         if dividend = signed_min \<and> top = - 1 then Undef UB_Signed_Overflow
         else set_stack 0 (word_of_int (sint dividend sdiv sint top)) s))"

definition op_minus :: "'a::len op_handler" where
  "op_minus = binary_op (\<lambda>below top. Ok (below - top))"

definition op_mod :: "'a::len op_handler" where
  "op_mod env s =
     bind_out (StackPop s) (\<lambda>top s.
       if top = 0 then Fail (set_code DWARF_ERROR_ILLEGAL_VALUE s)
       else bind_out (StackAt 0 s) (\<lambda>below s. set_stack 0 (below mod top) s))"

definition op_mul :: "'a::len op_handler" where
  "op_mul = binary_op (\<lambda>below top. Ok (below * top))"

definition op_neg :: "'a::len op_handler" where
  "op_neg env s =
     bind_out (StackAt 0 s) (\<lambda>v s.
       if v = signed_min then Undef UB_Signed_Overflow else set_stack 0 (- v) s)"

definition op_not :: "'a::len op_handler" where
  "op_not env s = bind_out (StackAt 0 s) (\<lambda>v s. set_stack 0 (NOT v) s)"

definition op_or :: "'a::len op_handler" where
  "op_or = binary_op (\<lambda>below top. Ok (below OR top))"

definition op_plus :: "'a::len op_handler" where
  "op_plus = binary_op (\<lambda>below top. Ok (below + top))"

definition op_plus_uconst :: "'a::len op_handler" where
  "op_plus_uconst env s =
     bind_out (StackAt 0 s) (\<lambda>v s. bind_out (OperandAt 0 s) (\<lambda>c s. set_stack 0 (v + c) s))"

definition op_shl :: "'a::len op_handler" where
  "op_shl = binary_op (\<lambda>below top s.
     if LENGTH('a) \<le> unat top then Undef UB_Shift else Ok (push_bit (unat top) below) s)"

definition op_shr :: "'a::len op_handler" where
  "op_shr = binary_op (\<lambda>below top s.
     if LENGTH('a) \<le> unat top then Undef UB_Shift else Ok (drop_bit (unat top) below) s)"

definition op_shra :: "'a::len op_handler" where
  "op_shra = binary_op (\<lambda>below top s.
     if LENGTH('a) \<le> unat top then Undef UB_Shift else Ok (signed_drop_bit (unat top) below) s)"

definition op_xor :: "'a::len op_handler" where
  "op_xor = binary_op (\<lambda>below top. Ok (below XOR top))"

definition branch_offset :: "'a::len word \<Rightarrow> u64" where
  "branch_offset operand = scast (ucast operand :: u16)"

definition op_bra :: "'a::len op_handler" where
  "op_bra env s =
     bind_out (StackPop s) (\<lambda>top s.
       if top = 0 then Ok () s
       else bind_out (OperandAt 0 s) (\<lambda>off s.
         Ok () (set_op_offset (op_offset s + branch_offset off) s)))"

definition op_eq :: "'a::len op_handler" where
  "op_eq = binary_op (\<lambda>below top. Ok (bool_to_dwarf_bool (below = top)))"

definition op_ge :: "'a::len op_handler" where
  "op_ge = binary_op (\<lambda>below top. Ok (bool_to_dwarf_bool (top \<le> below)))"

definition op_gt :: "'a::len op_handler" where
  "op_gt = binary_op (\<lambda>below top. Ok (bool_to_dwarf_bool (top < below)))"

definition op_le :: "'a::len op_handler" where
  "op_le = binary_op (\<lambda>below top. Ok (bool_to_dwarf_bool (below \<le> top)))"

definition op_lt :: "'a::len op_handler" where
  "op_lt = binary_op (\<lambda>below top. Ok (bool_to_dwarf_bool (below < top)))"

definition op_ne :: "'a::len op_handler" where
  "op_ne = binary_op (\<lambda>below top. Ok (bool_to_dwarf_bool (below \<noteq> top)))"

definition op_skip :: "'a::len op_handler" where
  "op_skip env s =
     bind_out (OperandAt 0 s) (\<lambda>off s. Ok () (set_op_offset (op_offset s + branch_offset off) s))"

definition op_lit :: "'a::len op_handler" where
  "op_lit env s = Ok () (push_front (ucast (cur_op s) - 0x30) s)"

definition op_reg :: "'a::len op_handler" where
  "op_reg env s = Ok () (push_front (ucast (cur_op s) - 0x50) (s\<lparr>is_register := True\<rparr>))"

definition op_regx :: "'a::len op_handler" where
  "op_regx env s =
     bind_out (OperandAt 0 (s\<lparr>is_register := True\<rparr>)) (\<lambda>reg s. Ok () (push_front reg s))"

definition op_breg :: "'a::len op_handler" where
  "op_breg env s =
     (let reg = ucast (cur_op s) - 0x70 :: u16
      in if RegsInfo_Total (op_regs_info env) \<le> reg then Fail (set_code DWARF_ERROR_ILLEGAL_VALUE s)
         else bind_out (RegsInfo_Get (op_regs_info env) (ucast reg) s) (\<lambda>v s.
           bind_out (OperandAt 0 s) (\<lambda>off s. Ok () (push_front (v + off) s))))"

definition op_bregx :: "'a::len op_handler" where
  "op_bregx env s =
     bind_out (OperandAt 0 s) (\<lambda>reg s.
       if unat (RegsInfo_Total (op_regs_info env)) \<le> unat reg
       then Fail (set_code DWARF_ERROR_ILLEGAL_VALUE s)
       else bind_out (RegsInfo_Get (op_regs_info env) (ucast reg) s) (\<lambda>v s.
         bind_out (OperandAt 1 s) (\<lambda>off s. Ok () (push_front (v + off) s))))"

definition op_nop :: "'a::len op_handler" where
  "op_nop env s = Ok () s"

definition op_not_implemented :: "'a::len op_handler" where
  "op_not_implemented env s = Fail (set_code DWARF_ERROR_NOT_IMPLEMENTED s)"

section \<open>Decode and Eval\<close>

text \<open>\<open>None\<close> is the null pointer of the \<^verbatim>\<open>OP_ILLEGAL\<close> entry.\<close>

fun kOpHandleFuncList :: "DwarfOpHandleFunc \<Rightarrow> ('a::len op_handler) option" where
  "kOpHandleFuncList OP_ILLEGAL = None"
| "kOpHandleFuncList OP_DEREF = Some op_deref"
| "kOpHandleFuncList OP_DEREF_SIZE = Some op_deref_size"
| "kOpHandleFuncList OP_PUSH = Some op_push"
| "kOpHandleFuncList OP_DUP = Some op_dup"
| "kOpHandleFuncList OP_DROP = Some op_drop"
| "kOpHandleFuncList OP_OVER = Some op_over"
| "kOpHandleFuncList OP_PICK = Some op_pick"
| "kOpHandleFuncList OP_SWAP = Some op_swap"
| "kOpHandleFuncList OP_ROT = Some op_rot"
| "kOpHandleFuncList OP_ABS = Some op_abs"
| "kOpHandleFuncList OP_AND = Some op_and"
| "kOpHandleFuncList OP_DIV = Some op_div"
| "kOpHandleFuncList OP_MINUS = Some op_minus"
| "kOpHandleFuncList OP_MOD = Some op_mod"
| "kOpHandleFuncList OP_MUL = Some op_mul"
| "kOpHandleFuncList OP_NEG = Some op_neg"
| "kOpHandleFuncList OP_NOT = Some op_not"
| "kOpHandleFuncList OP_OR = Some op_or"
| "kOpHandleFuncList OP_PLUS = Some op_plus"
| "kOpHandleFuncList OP_PLUS_UCONST = Some op_plus_uconst"
| "kOpHandleFuncList OP_SHL = Some op_shl"
| "kOpHandleFuncList OP_SHR = Some op_shr"
| "kOpHandleFuncList OP_SHRA = Some op_shra"
| "kOpHandleFuncList OP_XOR = Some op_xor"
| "kOpHandleFuncList OP_BRA = Some op_bra"
| "kOpHandleFuncList OP_EQ = Some op_eq"
| "kOpHandleFuncList OP_GE = Some op_ge"
| "kOpHandleFuncList OP_GT = Some op_gt"
| "kOpHandleFuncList OP_LE = Some op_le"
| "kOpHandleFuncList OP_LT = Some op_lt"
| "kOpHandleFuncList OP_NE = Some op_ne"
| "kOpHandleFuncList OP_SKIP = Some op_skip"
| "kOpHandleFuncList OP_LIT = Some op_lit"
| "kOpHandleFuncList OP_REG = Some op_reg"
| "kOpHandleFuncList OP_REGX = Some op_regx"
| "kOpHandleFuncList OP_BREG = Some op_breg"
| "kOpHandleFuncList OP_BREGX = Some op_bregx"
| "kOpHandleFuncList OP_NOP = Some op_nop"
| "kOpHandleFuncList OP_NOT_IMPLEMENTED = Some op_not_implemented"

text \<open>The loop of \<^verbatim>\<open>Decode\<close> over the operand encodings of a row.\<close>

fun read_operands :: "'a::len word op_env \<Rightarrow> u8 list \<Rightarrow> 'a word dwarf_op \<Rightarrow> (unit, 'a word dwarf_op) outcome" where
  "read_operands env [] s = Ok () s"
| "read_operands env (e # es) s =
     bind_out (on_memory (ReadEncodedValue (addr_size TYPE('a)) (op_rd env) e) s) (\<lambda>v s.
       read_operands env es (s\<lparr>operands := operands s @ [ucast v]\<rparr>))"

definition Decode :: "'a::len op_handler" where
  "Decode env s =
     bind_out (on_memory (ReadBytes (op_rd env) 1) (set_code DWARF_ERROR_NONE s)) (\<lambda>bs s.
       let s = s\<lparr>cur_op := hd bs\<rparr>; op = op_lookup (cur_op s)
       in if handle_func op = OP_ILLEGAL then Fail (set_code DWARF_ERROR_ILLEGAL_VALUE s)
          else if length (op_stack s) < num_required_stack_values op
          then Fail (set_code DWARF_ERROR_STACK_INDEX_NOT_VALID s)
          else bind_out (read_operands env (take (num_operands op) (op_operands op)) (s\<lparr>operands := []\<rparr>))
            (\<lambda>_ s. case kOpHandleFuncList (handle_func op) of
               None \<Rightarrow> Undef UB_Null
             | Some handler \<Rightarrow> handler env s))"

lemma count_up_decreases:
  fixes i :: u32
  assumes "i \<noteq> 1000"
  shows "unat (999 - i) < unat (1000 - i)"
  using measure_unat [of "1000 - i"] assms by (simp add: diff_diff_eq)

text \<open>The \<^verbatim>\<open>while\<close> loop of \<^verbatim>\<open>Eval\<close>; \<open>iterations\<close> is the \<^verbatim>\<open>uint32_t\<close> of the code.\<close>

function eval_loop ::
  "'a::len word op_env \<Rightarrow> u64 \<Rightarrow> u32 \<Rightarrow> 'a word dwarf_op \<Rightarrow> (unit, 'a word dwarf_op) outcome" where
  "eval_loop env end iterations s =
     (if op_offset s < end then
        bind_out (Decode env s) (\<lambda>_ s.
          if iterations = 1000 then Fail (set_code DWARF_ERROR_TOO_MANY_ITERATIONS s)
          else eval_loop env end (iterations + 1) s)
      else Ok () s)"
  by pat_completeness auto
termination
  by (relation "measure (\<lambda>(env, end, iterations, s). unat (1000 - iterations))")
    (simp_all add: count_up_decreases)

declare eval_loop.simps [simp del]

definition Eval :: "u64 \<Rightarrow> u64 \<Rightarrow> 'a::len op_handler" where
  "Eval start end env s =
     (let s = set_op_offset start (s\<lparr>is_register := False, op_stack := [], dex_pc_set := False\<rparr>)
      in if \<not> op_offset s < end then Ok () s
         else bind_out (Decode env s) (\<lambda>_ s.
           if cur_op s = 0x0c \<and> operands s = [] then Undef UB_Bounds
           else
             let check_for_drop = (cur_op s = 0x0c \<and> last (operands s) = 0x31584544)
             in if \<not> op_offset s < end then Ok () s
                else bind_out (Decode env s) (\<lambda>_ s.
                  let s = (if check_for_drop \<and> cur_op s = 0x13 then s\<lparr>dex_pc_set := True\<rparr> else s)
                  in eval_loop env end 2 s)))"

text \<open>A new \<^verbatim>\<open>DwarfOp\<close>; \<^verbatim>\<open>cur_op_\<close> is uninitialised.\<close>

definition DwarfOp_new :: "u8 \<Rightarrow> 'a::len word dwarf_op" where
  "DwarfOp_new uninit =
     \<lparr>op_memory = DwarfMemory_new, dex_pc_set = False, is_register = False,
      last_error = \<lparr>err_code = DWARF_ERROR_NONE, err_address = 0\<rparr>, cur_op = uninit, operands = [],
      op_stack = []\<rparr>"

section \<open>Which undefined behaviours can occur\<close>

text \<open>
  An outcome is contained when it is neither an abort, nor an access outside a container, nor a
  call through a null pointer. What remains undefined is a shift by at least the width and a
  signed overflow.
\<close>

definition contained :: "('v, 's) outcome \<Rightarrow> bool" where
  "contained r \<longleftrightarrow> r \<noteq> Abort \<and> r \<noteq> Undef UB_Bounds \<and> r \<noteq> Undef UB_Null"

named_theorems contained_intros \<open>operations that stay inside their containers\<close>

lemma contained_simps [simp]:
  "contained (Ok v s)" "contained (Fail s)" "contained (Undef UB_Shift)"
  "contained (Undef UB_Signed_Overflow)" "\<not> contained Abort" "\<not> contained (Undef UB_Bounds)"
  "\<not> contained (Undef UB_Null)"
  by (simp_all add: contained_def)

lemma contained_bind [contained_intros]:
  "contained r \<Longrightarrow> (\<And>v s. r = Ok v s \<Longrightarrow> contained (f v s)) \<Longrightarrow> contained (bind_out r f)"
  by (cases r) (auto simp: contained_def)

lemma contained_map_state [contained_intros]: "contained r \<Longrightarrow> contained (map_state f g r)"
  by (cases r) (auto simp: contained_def)

lemma contained_if [contained_intros]:
  "(b \<Longrightarrow> contained r) \<Longrightarrow> (\<not> b \<Longrightarrow> contained q) \<Longrightarrow> contained (if b then r else q)"
  by simp

lemma contained_ReadBytes [contained_intros]: "contained (ReadBytes rd n s)"
  by (simp add: ReadBytes_def split: option.split)

lemma contained_leb_loop [contained_intros]: "contained (leb_loop rd v shift s)"
proof (induction rd v shift s rule: leb_loop.induct)
  case (1 rd v shift s)
  show ?case
    by (subst leb_loop.simps) (auto simp: Let_def intro!: contained_intros 1)
qed

lemma contained_ReadULEB128 [contained_intros]: "contained (ReadULEB128 rd s)"
  by (auto simp: ReadULEB128_def intro!: contained_intros)

lemma contained_ReadSLEB128 [contained_intros]: "contained (ReadSLEB128 rd s)"
  by (auto simp: ReadSLEB128_def intro!: contained_intros)

lemma contained_ReadSigned [contained_intros]: "contained (ReadSigned n rd s)"
  by (auto simp: ReadSigned_def intro!: contained_intros)

lemma contained_ReadFormat [contained_intros]: "contained (ReadFormat asz rd e s)"
  unfolding ReadFormat_def by (intro contained_intros) simp_all

lemma contained_Adjust [contained_intros]: "contained (AdjustEncodedValue (e AND 0x70) v s)"
  by (simp add: AdjustEncodedValue_base split: option.split)

lemma contained_ReadEncodedValue [contained_intros]: "contained (ReadEncodedValue asz rd e s)"
  unfolding ReadEncodedValue_def Let_def by (intro contained_intros) simp_all

lemma contained_read_operands [contained_intros]: "contained (read_operands env es s)"
proof (induction env es s rule: read_operands.induct)
  case (1 env s)
  then show ?case by simp
next
  case (2 env e es s)
  then show ?case
    by (auto simp: on_memory_def intro!: contained_intros)
qed

text \<open>How many stack elements and operands a handler reads unconditionally.\<close>

fun handler_needs :: "DwarfOpHandleFunc \<Rightarrow> nat \<times> nat" where
  "handler_needs h =
     (if h \<in> {OP_DEREF, OP_DUP, OP_DROP, OP_ABS, OP_NEG, OP_NOT} then (1, 0)
      else if h \<in> {OP_OVER, OP_SWAP, OP_AND, OP_DIV, OP_MINUS, OP_MOD, OP_MUL, OP_OR, OP_PLUS, OP_SHL,
        OP_SHR, OP_SHRA, OP_XOR, OP_EQ, OP_GE, OP_GT, OP_LE, OP_LT, OP_NE} then (2, 0)
      else if h = OP_ROT then (3, 0)
      else if h \<in> {OP_DEREF_SIZE, OP_PLUS_UCONST, OP_BRA} then (1, 1)
      else if h \<in> {OP_PICK, OP_SKIP, OP_REGX, OP_BREG} then (0, 1)
      else if h = OP_BREGX then (0, 2)
      else (0, 0))"

definition row_ok :: "OpCallback \<Rightarrow> bool" where
  "row_ok op \<longleftrightarrow>
     fst (handler_needs (handle_func op)) \<le> num_required_stack_values op
     \<and> snd (handler_needs (handle_func op)) \<le> num_operands op
     \<and> num_operands op \<le> length (op_operands op)"

lemma kCallbackTable_ok: "list_all row_ok kCallbackTable"
  by code_simp

lemma op_lookup_ok: "row_ok (op_lookup op)"
  using kCallbackTable_ok op_lookup_in_table by (auto simp: list_all_iff)

lemmas stack_access_defs =
  StackPop_def StackAt_def OperandAt_def set_stack_def push_front_def binary_op_def

lemmas op_handler_defs =
  op_deref_def op_deref_size_def op_push_def op_dup_def op_drop_def op_over_def op_pick_def
  op_swap_def op_rot_def op_abs_def op_and_def op_div_def op_minus_def op_mod_def op_mul_def
  op_neg_def op_not_def op_or_def op_plus_def op_plus_uconst_def op_shl_def op_shr_def op_shra_def
  op_xor_def op_bra_def op_eq_def op_ge_def op_gt_def op_le_def op_lt_def op_ne_def op_skip_def
  op_lit_def op_reg_def op_regx_def op_breg_def op_bregx_def op_nop_def op_not_implemented_def

lemma stack_cases:
  "Suc 0 \<le> length xs \<Longrightarrow> \<exists>a ys. xs = a # ys"
  "2 \<le> length xs \<Longrightarrow> \<exists>a b ys. xs = a # b # ys"
  "3 \<le> length xs \<Longrightarrow> \<exists>a b c ys. xs = a # b # c # ys"
  by (auto simp: Suc_le_length_iff numeral_2_eq_2 numeral_3_eq_3)

lemma RegsInfo_Get_state: "RegsInfo_Get ri r s = Ok v t \<Longrightarrow> t = s"
  by (auto simp: RegsInfo_Get_def RegsInfo_IsSaved_def split: if_splits)

lemma contained_Get:
  fixes r :: "'b::len word"
  assumes "regs_info_ok ri" and "unat r < unat (RegsInfo_Total ri)"
  shows "contained (RegsInfo_Get ri (ucast r) s)"
proof -
  have len: "unat r < length (regs ri)" "length (regs ri) \<le> 64"
    using assms by (auto simp: RegsInfo_Total_def regs_info_ok_def MAX_REGISTERS_def unat_of_nat)
  have "unat (of_nat (unat r) :: u32) < length (regs ri)"
    using len by (simp only: unat_of_nat) simp
  from RegsInfo_Get_below_total [OF assms(1) this, of s] show ?thesis by simp
qed

lemma contained_handler:
  assumes "kOpHandleFuncList h = Some handler" and "regs_info_ok (op_regs_info env)"
    and "fst (handler_needs h) \<le> length (op_stack s)" and "snd (handler_needs h) \<le> length (operands s)"
  shows "contained (handler env s)"
proof (cases h)
  case OP_BREG
  with assms show ?thesis
    by (auto simp: op_breg_def OperandAt_def Let_def word_le_nat_alt
        intro!: contained_bind contained_Get dest!: RegsInfo_Get_state)
next
  case OP_BREGX
  with assms show ?thesis
    by (auto simp: op_bregx_def OperandAt_def intro!: contained_bind contained_Get
        dest!: RegsInfo_Get_state split: if_splits)
qed (use assms in \<open>auto dest!: stack_cases simp: op_handler_defs stack_access_defs Let_def
       split: option.split\<close>)

lemma read_operands_result:
  "read_operands env es s = Ok u t \<Longrightarrow>
   length (operands t) = length (operands s) + length es \<and> op_stack t = op_stack s
   \<and> cur_op t = cur_op s \<and> is_register t = is_register s \<and> dex_pc_set t = dex_pc_set s
   \<and> last_error t = last_error s"
proof (induction env es s rule: read_operands.induct)
  case (1 env s)
  then show ?case by simp
next
  case (2 env e es s)
  then obtain v s' where r: "on_memory (ReadEncodedValue (addr_size TYPE('a)) (op_rd env) e) s = Ok v s'"
    and t: "read_operands env es (s'\<lparr>operands := operands s' @ [ucast v]\<rparr>) = Ok u t"
    by (auto simp: bind_out_Ok_iff)
  from r have "\<exists>m. s' = s\<lparr>op_memory := m\<rparr>"
    by (auto simp: on_memory_def)
  with 2(1) [OF r t] show ?case by auto
qed

lemma contained_Decode:
  assumes "regs_info_ok (op_regs_info env)"
  shows "contained (Decode env s)"
proof -
  have body: "contained (bind_out (read_operands env (take (num_operands op) (op_operands op)) s')
      (\<lambda>_ s. case kOpHandleFuncList (handle_func op) of None \<Rightarrow> Undef UB_Null
         | Some handler \<Rightarrow> handler env s))"
    if op: "row_ok op" "handle_func op \<noteq> OP_ILLEGAL"
      "num_required_stack_values op \<le> length (op_stack s')" for op and s' :: "'a word dwarf_op"
  proof (rule contained_bind [OF contained_read_operands])
    fix u t
    assume t: "read_operands env (take (num_operands op) (op_operands op)) s' = Ok u t"
    obtain handler :: "'a op_handler" where h: "kOpHandleFuncList (handle_func op) = Some handler"
      using op(2) by (cases "handle_func op") auto
    have "contained (handler env t)"
      using op read_operands_result [OF t]
      by (intro contained_handler [OF h assms]) (auto simp: row_ok_def simp del: handler_needs.simps)
    with h show "contained (case kOpHandleFuncList (handle_func op) of None \<Rightarrow> Undef UB_Null
         | Some handler \<Rightarrow> handler env t)" by simp
  qed
  show ?thesis
    unfolding Decode_def Let_def on_memory_def
  proof (rule contained_bind [OF contained_map_state [OF contained_ReadBytes]], goal_cases)
    case (1 bs t)
    show ?case
      by (simp add: body [OF op_lookup_ok] not_less)
  qed
qed

lemma contained_eval_loop:
  assumes "regs_info_ok (op_regs_info env)"
  shows "contained (eval_loop env end iterations s)"
  using assms
proof (induction env "end" iterations s rule: eval_loop.induct)
  case (1 env "end" iterations s)
  show ?case
    by (subst eval_loop.simps) (auto intro!: contained_bind contained_Decode 1)
qed

text \<open>A \<^verbatim>\<open>const4u\<close> row has an operand, so \<^verbatim>\<open>operands_.back()\<close> in \<^verbatim>\<open>Eval\<close> is defined.\<close>

lemma op_lookup_0c: "op_lookup 0x0c = op_row ''DW_OP_const4u'' OP_PUSH 0 1 [DW_EH_PE_udata4]"
  by code_simp

lemma fold_push_front: "fold push_front vs s = s\<lparr>op_stack := rev vs @ op_stack s\<rparr>"
  by (induction vs arbitrary: s) (auto simp: push_front_def)

text \<open>What no handler changes, and what its result says of the error.\<close>

lemma handler_Ok:
  assumes "kOpHandleFuncList h = Some handler" and "handler env s = Ok u t"
  shows "cur_op t = cur_op s \<and> operands t = operands s \<and> dex_pc_set t = dex_pc_set s
    \<and> last_error t = last_error s"
  using assms
  by (cases h)
    (auto simp: op_handler_defs stack_access_defs fold_push_front Let_def set_op_offset_def
      bind_out_Ok_iff dest!: RegsInfo_Get_state split: option.splits list.splits if_splits)

lemma bind_out_Fail_iff:
  "bind_out r f = Fail t \<longleftrightarrow> r = Fail t \<or> (\<exists>v s. r = Ok v s \<and> f v s = Fail t)"
  by (cases r) auto

lemma RegsInfo_Get_no_Fail [simp]: "RegsInfo_Get ri r s \<noteq> Fail t"
  by (auto simp: RegsInfo_Get_def RegsInfo_IsSaved_def split: if_splits)

lemma handler_Fail:
  assumes "kOpHandleFuncList h = Some handler" and "handler env s = Fail t"
  shows "err_code (last_error t) \<noteq> DWARF_ERROR_NONE"
  using assms
  by (cases h)
    (auto simp: op_handler_defs stack_access_defs Let_def set_code_def memory_invalid_def
      bind_out_Fail_iff split: option.splits list.splits if_splits)

lemma Decode_Ok:
  assumes "Decode env s = Ok u t"
  shows "err_code (last_error t) = DWARF_ERROR_NONE" and "dex_pc_set t = dex_pc_set s"
    and "handle_func (op_lookup (cur_op t)) \<noteq> OP_ILLEGAL"
    and "length (operands t) = num_operands (op_lookup (cur_op t))"
proof -
  obtain bs s1 where s1: "on_memory (ReadBytes (op_rd env) 1) (set_code DWARF_ERROR_NONE s) = Ok bs s1"
    and rest: "(let s = s1\<lparr>cur_op := hd bs\<rparr>; op = op_lookup (cur_op s)
       in if handle_func op = OP_ILLEGAL then Fail (set_code DWARF_ERROR_ILLEGAL_VALUE s)
          else if length (op_stack s) < num_required_stack_values op
          then Fail (set_code DWARF_ERROR_STACK_INDEX_NOT_VALID s)
          else bind_out (read_operands env (take (num_operands op) (op_operands op)) (s\<lparr>operands := []\<rparr>))
            (\<lambda>_ s. case kOpHandleFuncList (handle_func op) of
               None \<Rightarrow> Undef UB_Null | Some handler \<Rightarrow> handler env s)) = Ok u t"
    using assms unfolding Decode_def by (auto simp: bind_out_Ok_iff)
  define op where "op = op_lookup (hd bs)"
  from rest obtain s2 where legal: "handle_func op \<noteq> OP_ILLEGAL"
    and s2: "read_operands env (take (num_operands op) (op_operands op))
               (s1\<lparr>cur_op := hd bs, operands := []\<rparr>) = Ok () s2"
    and t: "(case kOpHandleFuncList (handle_func op) of
               None \<Rightarrow> Undef UB_Null | Some handler \<Rightarrow> handler env s2) = Ok u t"
    by (auto simp: Let_def op_def bind_out_Ok_iff split: if_splits)
  from t obtain handler :: "'a op_handler" where h: "kOpHandleFuncList (handle_func op) = Some handler"
      "handler env s2 = Ok u t"
    by (auto split: option.splits)
  have s1': "last_error s1 = last_error (set_code DWARF_ERROR_NONE s)" "dex_pc_set s1 = dex_pc_set s"
    using s1 by (auto simp: on_memory_def set_code_def)
  have "num_operands op \<le> length (op_operands op)"
    using op_lookup_ok [of "hd bs"] by (simp add: row_ok_def op_def)
  then show "err_code (last_error t) = DWARF_ERROR_NONE" and "dex_pc_set t = dex_pc_set s"
    and "handle_func (op_lookup (cur_op t)) \<noteq> OP_ILLEGAL"
    and "length (operands t) = num_operands (op_lookup (cur_op t))"
    using handler_Ok [OF h] read_operands_result [OF s2] legal s1'
    by (auto simp: op_def set_code_def)
qed

lemma read_operands_Fail:
  "read_operands env es s = Fail t \<Longrightarrow> err_code (last_error t) = DWARF_ERROR_MEMORY_INVALID"
proof (induction env es s rule: read_operands.induct)
  case (1 env s)
  then show ?case by simp
next
  case (2 env e es s)
  then show ?case
    by (cases "ReadEncodedValue (addr_size TYPE('a)) (op_rd env) e (op_memory s)")
      (auto simp: on_memory_def memory_invalid_def)
qed

lemma Decode_Fail: "Decode env s = Fail t \<Longrightarrow> err_code (last_error t) \<noteq> DWARF_ERROR_NONE"
  unfolding Decode_def Let_def on_memory_def
  by (cases "ReadBytes (op_rd env) 1 (op_memory (set_code DWARF_ERROR_NONE s))")
    (auto simp: bind_out_Fail_iff memory_invalid_def set_code_def
      dest!: read_operands_Fail dest: handler_Fail split: if_splits option.splits)

section \<open>Eval as a bounded number of steps\<close>

text \<open>One pass through the loop: there is input left and \<^verbatim>\<open>Decode\<close> succeeds.\<close>

inductive op_step :: "'a::len word op_env \<Rightarrow> u64 \<Rightarrow> 'a word dwarf_op \<Rightarrow> 'a word dwarf_op \<Rightarrow> bool" for env "end" where
  step: "op_offset s < end \<Longrightarrow> Decode env s = Ok u t \<Longrightarrow> op_step env end s t"

inductive_simps op_step_iff: "op_step env end s t"

definition eval_init :: "u64 \<Rightarrow> 'a::len word dwarf_op \<Rightarrow> 'a word dwarf_op" where
  "eval_init start s =
     set_op_offset start (s\<lparr>is_register := False, op_stack := [], dex_pc_set := False\<rparr>)"

text \<open>The dex pc mark is write-only: it influences no step.\<close>

abbreviation mark :: "bool \<Rightarrow> 'a::len word dwarf_op \<Rightarrow> 'a word dwarf_op" where
  "mark b s \<equiv> s\<lparr>dex_pc_set := b\<rparr>"

lemma mark_commute:
  "(mark b s)\<lparr>op_memory := m\<rparr> = mark b (s\<lparr>op_memory := m\<rparr>)"
  "(mark b s)\<lparr>operands := os\<rparr> = mark b (s\<lparr>operands := os\<rparr>)"
  "(mark b s)\<lparr>cur_op := c\<rparr> = mark b (s\<lparr>cur_op := c\<rparr>)"
  "(mark b s)\<lparr>last_error := e\<rparr> = mark b (s\<lparr>last_error := e\<rparr>)"
  by simp_all

lemma handler_mark:
  assumes "kOpHandleFuncList h = Some handler"
  shows "handler env (mark b s) = map_state (mark b) (mark b) (handler env s)"
  using assms
  by (cases h)
    (auto simp: op_handler_defs stack_access_defs fold_push_front Let_def set_op_offset_def set_code_def
      memory_invalid_def RegsInfo_Get_def RegsInfo_IsSaved_def split: option.splits list.splits)

lemma read_operands_mark:
  "read_operands env es (mark b s) = map_state (mark b) (mark b) (read_operands env es s)"
proof (induction env es s rule: read_operands.induct)
  case (1 env s)
  then show ?case by simp
next
  case (2 env e es s)
  show ?case
  proof (cases "ReadEncodedValue (addr_size TYPE('a)) (op_rd env) e (op_memory s)")
    case (Ok v m)
    then have "on_memory (ReadEncodedValue (addr_size TYPE('a)) (op_rd env) e) s =
        Ok v (s\<lparr>op_memory := m\<rparr>)"
      by (simp add: on_memory_def)
    from 2 [OF this] Ok show ?thesis by (simp add: on_memory_def mark_commute)
  qed (simp_all add: on_memory_def memory_invalid_def)
qed

lemma Decode_mark: "Decode env (mark b s) = map_state (mark b) (mark b) (Decode env s)"
proof -
  have run: "(bind_out (map_state (mark b) (mark b) (read_operands env es s')) (\<lambda>_ s.
        case kOpHandleFuncList h of None \<Rightarrow> Undef UB_Null | Some handler \<Rightarrow> handler env s)) =
      map_state (mark b) (mark b) (bind_out (read_operands env es s') (\<lambda>_ s.
        case kOpHandleFuncList h of None \<Rightarrow> Undef UB_Null | Some handler \<Rightarrow> handler env s))"
    for h es and s' :: "'a word dwarf_op"
    by (cases "read_operands env es s'") (auto simp: handler_mark split: option.split)
  show ?thesis
  proof (cases "ReadBytes (op_rd env) 1 (op_memory s)")
    case (Ok bs m)
    with run show ?thesis
      by (simp add: Decode_def on_memory_def set_code_def Let_def mark_commute read_operands_mark)
  qed (simp_all add: Decode_def on_memory_def set_code_def memory_invalid_def)
qed

lemma eval_loop_mark:
  "eval_loop env end iterations (mark b s) =
     map_state (mark b) (mark b) (eval_loop env end iterations s)"
proof (induction env "end" iterations s rule: eval_loop.induct)
  case (1 env "end" iterations s)
  show ?case
  proof (cases "op_offset s < end")
    case True
    then show ?thesis
      by (subst (1 2) eval_loop.simps)
        (cases "Decode env s"; auto simp: Decode_mark set_code_def 1)
  next
    case False
    then show ?thesis by (subst (1 2) eval_loop.simps) simp
  qed
qed

lemma op_steps_Suc:
  "(op_step env end ^^ Suc k) s t \<longleftrightarrow>
     op_offset s < end \<and> (\<exists>s'. Decode env s = Ok () s' \<and> (op_step env end ^^ k) s' t)"
proof -
  have "(op_step env end ^^ Suc k) s t \<longleftrightarrow> (op_step env end OO op_step env end ^^ k) s t"
    by (simp add: relpowp_commute)
  then show ?thesis by (auto simp: op_step_iff relcompp_apply)
qed

lemma bounded_steps_Suc:
  "(\<exists>k \<le> Suc n. (op_step env end ^^ k) s t) \<longleftrightarrow>
     s = t \<or> op_offset s < end \<and>
       (\<exists>s'. Decode env s = Ok () s' \<and> (\<exists>k \<le> n. (op_step env end ^^ k) s' t))"
  unfolding less_Suc_eq_le [symmetric] Ex_less_Suc2 op_steps_Suc by auto

lemma iterations_left:
  fixes i :: u32
  assumes "i \<noteq> 1000"
  shows "unat (1000 - i) = Suc (unat (999 - i))"
  using unat_minus_one [of "1000 - i"] count_up_decreases [OF assms] assms by simp

lemma eval_loop_Ok:
  "eval_loop env end iterations s = Ok () t \<longleftrightarrow>
     (\<exists>k \<le> unat (1000 - iterations). (op_step env end ^^ k) s t) \<and> \<not> op_offset t < end"
proof (induction env "end" iterations s rule: eval_loop.induct)
  case (1 env "end" iterations s)
  have stop: "(\<exists>k \<le> n. (op_step env end ^^ k) s t) \<longleftrightarrow> s = t" if "\<not> op_offset s < end" for n
    using that by (cases n) (auto simp: bounded_steps_Suc)
  show ?case
  proof (cases "op_offset s < end \<and> iterations \<noteq> 1000")
    case True
    then show ?thesis
      using 1 by (subst eval_loop.simps)
        (cases "Decode env s"; auto simp: iterations_left bounded_steps_Suc add.commute)
  next
    case False
    then show ?thesis
      by (subst eval_loop.simps) (auto simp: stop bind_out_Ok_iff)
  qed
qed

lemma eval_loop_too_many:
  assumes "(op_step env end ^^ Suc (unat (1000 - iterations))) s t"
  shows "eval_loop env end iterations s = Fail (set_code DWARF_ERROR_TOO_MANY_ITERATIONS t)"
  using assms
proof (induction env "end" iterations s rule: eval_loop.induct)
  case (1 env "end" iterations s)
  obtain s' where s': "op_offset s < end" "Decode env s = Ok () s'"
      "(op_step env end ^^ unat (1000 - iterations)) s' t"
    using 1(2) by (auto simp only: op_steps_Suc)
  show ?case
  proof (cases "iterations = 1000")
    case True
    with s' show ?thesis by (subst eval_loop.simps) simp
  next
    case False
    with s' 1(1) [OF s'(1,2) False] show ?thesis
      by (subst eval_loop.simps) (simp add: iterations_left del: relpowp.simps(2))
  qed
qed

text \<open>The first two operations are \<^verbatim>\<open>DW_OP_const4u "DEX1"\<close> and \<^verbatim>\<open>DW_OP_drop\<close>.\<close>

definition dex_pattern :: "'a::len word op_env \<Rightarrow> u64 \<Rightarrow> 'a word dwarf_op \<Rightarrow> bool" where
  "dex_pattern env end s0 \<longleftrightarrow>
     (\<exists>s1 s2. op_step env end s0 s1 \<and> op_step env end s1 s2 \<and> cur_op s1 = 0x0c
        \<and> last (operands s1) = 0x31584544 \<and> cur_op s2 = 0x13)"

lemma const4u_has_operand: "Decode env s = Ok u t \<Longrightarrow> cur_op t = 0x0c \<Longrightarrow> operands t \<noteq> []"
  using Decode_Ok(4) [of env s u t] by (auto simp: op_lookup_0c op_row_def)

lemma Eval_unfold:
  "Eval start end env s =
     (let s0 = eval_init start s
      in if \<not> op_offset s0 < end then Ok () s0
         else bind_out (Decode env s0) (\<lambda>_ s1.
           if \<not> op_offset s1 < end then Ok () s1
           else bind_out (Decode env s1) (\<lambda>_ s2.
             eval_loop env end 2 (mark (dex_pattern env end s0) s2))))"
proof -
  let ?s0 = "eval_init start s"
  have init: "dex_pc_set ?s0 = False"
    by (simp add: eval_init_def set_op_offset_def)
  have pattern: "(if cur_op s1 = 0x0c \<and> last (operands s1) = 0x31584544 \<and> cur_op s2 = 0x13
        then mark True s2 else s2) = mark (dex_pattern env end ?s0) s2"
    if "op_offset ?s0 < end" "Decode env ?s0 = Ok () s1" "op_offset s1 < end" "Decode env s1 = Ok () s2"
    for s1 s2
    using that Decode_Ok(2) [OF that(2)] Decode_Ok(2) [OF that(4)] init
    by (auto simp: dex_pattern_def op_step_iff)
  show ?thesis
    unfolding Eval_def Let_def eval_init_def [symmetric]
    by (cases "Decode env ?s0")
      (auto simp: const4u_has_operand pattern intro!: bind_out_cong)
qed

lemma Eval_Ok_steps:
  "Eval start end env s = Ok () t \<longleftrightarrow>
     (\<exists>k t'. k \<le> 1000 \<and> (op_step env end ^^ k) (eval_init start s) t' \<and> \<not> op_offset t' < end
        \<and> t = mark (dex_pattern env end (eval_init start s)) t')"
proof -
  let ?s0 = "eval_init start s" and ?d = "dex_pattern env end (eval_init start s)"
  have clear: "dex_pc_set ?s0 = False"
    by (simp add: eval_init_def set_op_offset_def)
  define R where "R s2 t' \<longleftrightarrow> (\<exists>k \<le> 998. (op_step env end ^^ k) s2 t')" for s2 t'
  have steps: "(\<exists>k \<le> 1000. (op_step env end ^^ k) ?s0 t') \<longleftrightarrow>
      ?s0 = t' \<or> op_offset ?s0 < end \<and> (\<exists>s1. Decode env ?s0 = Ok () s1 \<and>
        (s1 = t' \<or> op_offset s1 < end \<and> (\<exists>s2. Decode env s1 = Ok () s2 \<and> R s2 t')))" for t'
    using bounded_steps_Suc [of 999 env "end" ?s0 t'] bounded_steps_Suc [of 998 env "end" _ t']
    by (simp add: R_def)
  have loop: "eval_loop env end 2 (mark ?d s2) = Ok () t \<longleftrightarrow>
      (\<exists>t'. R s2 t' \<and> \<not> op_offset t' < end \<and> t = mark ?d t')" for s2
    by (auto simp: eval_loop_mark eval_loop_Ok R_def)
  have done0: "\<not> op_offset ?s0 < end \<Longrightarrow> mark ?d ?s0 = ?s0"
    using clear by (simp add: dex_pattern_def op_step_iff)
  have done1: "Decode env ?s0 = Ok () s1 \<Longrightarrow> \<not> op_offset s1 < end \<Longrightarrow> mark ?d s1 = s1" for s1
    using Decode_Ok(2) [of env ?s0 "()" s1] clear by (auto simp: dex_pattern_def op_step_iff)
  have "Eval start end env s = Ok () t \<longleftrightarrow>
      (\<exists>t'. (\<exists>k \<le> 1000. (op_step env end ^^ k) ?s0 t') \<and> \<not> op_offset t' < end \<and> t = mark ?d t')"
  proof (cases "op_offset ?s0 < end")
    case False
    then show ?thesis
      unfolding steps using done0 by (auto simp: Eval_unfold)
  next
    case True
    show ?thesis
    proof (cases "Decode env ?s0")
      case (Ok u s1)
      with True show ?thesis
        unfolding steps using done1 [of s1]
        by (cases "op_offset s1 < end") (auto simp: Eval_unfold bind_out_Ok_iff loop)
    qed (use True in \<open>auto simp: Eval_unfold steps\<close>)
  qed
  then show ?thesis by blast
qed

section \<open>Properties\<close>

text \<open>A machine with four registers of 64 bits and the given expression bytes.\<close>

definition sample_env :: "u8 list \<Rightarrow> 64 word op_env" where
  "sample_env bs =
     \<lparr>op_rd = list_reader bs, regular_memory = list_reader [1, 2, 3, 4, 5, 6, 7, 8],
      op_regs_info = RegsInfo_new [0x100, 0x200, 0x300, 0] (replicate 64 0)\<rparr>"

lemma sample_env_regs: "regs_info_ok (op_regs_info (sample_env bs))"
  by (simp add: sample_env_def regs_info_ok_new)

text \<open>
  C29. Whatever bytes the expression holds, whatever the memories return, \<^verbatim>\<open>Eval\<close> neither accesses a
  stack or operand slot that does not exist, nor reads a register out of range, nor calls a missing
  handler, nor aborts.
\<close>

theorem Eval_contained:
  assumes "regs_info_ok (op_regs_info env)"
  shows "contained (Eval start end env s)"
  unfolding Eval_unfold Let_def
  by (intro contained_if contained_bind contained_Decode contained_eval_loop assms contained_simps)

theorem Eval_contained_witness:
  "contained (Eval 0 3 (sample_env [0x70, 0x08, 0x06]) (DwarfOp_new 0))"
  by (rule Eval_contained [OF sample_env_regs])

text \<open>
  \<^verbatim>\<open>Eval\<close> returns true exactly when at most 1000 consecutive successful decodes take the cursor
  from \<^verbatim>\<open>start\<close> to \<^verbatim>\<open>end\<close> or beyond; its result is the state they reach, with the dex pc mark set
  exactly when the first two operations are the dex pc pattern.
\<close>

theorem Eval_true_iff:
  "Eval start end env s = Ok () t \<longleftrightarrow>
     (\<exists>k t'. k \<le> 1000 \<and> (op_step env end ^^ k) (eval_init start s) t' \<and> \<not> op_offset t' < end
        \<and> t = mark (dex_pattern env end (eval_init start s)) t')"
  by (rule Eval_Ok_steps)

text \<open>
  An expression that keeps the machine busy for 1001 operations, as a backward branch can, ends
  with \<^verbatim>\<open>DWARF_ERROR_TOO_MANY_ITERATIONS\<close>.
\<close>

theorem Eval_too_many_iterations:
  assumes "(op_step env end ^^ 1001) (eval_init start s) t"
  shows "Eval start end env s =
    Fail (set_code DWARF_ERROR_TOO_MANY_ITERATIONS (mark (dex_pattern env end (eval_init start s)) t))"
proof -
  let ?s0 = "eval_init start s"
  have n: "1001 = Suc (Suc 999)" "999 = Suc (unat (1000 - 2 :: u32))" by simp_all
  from assms obtain s1 s2 where s1: "op_offset ?s0 < end" "Decode env ?s0 = Ok () s1"
    and s2: "op_offset s1 < end" "Decode env s1 = Ok () s2" "(op_step env end ^^ 999) s2 t"
    unfolding n(1) op_steps_Suc by blast
  from eval_loop_too_many [OF s2(3) [unfolded n(2)]] s1 s2(1,2) show ?thesis
    by (simp add: Eval_unfold Let_def eval_loop_mark set_code_def)
qed

lemma self_loop: "op_step env end s s \<Longrightarrow> (op_step env end ^^ k) s s"
  by (induction k) auto

lemma skip_row: "op_lookup 0x2f = op_row ''DW_OP_skip'' OP_SKIP 0 1 [DW_EH_PE_sdata2]"
  by code_simp

text \<open>The expression \<^verbatim>\<open>DW_OP_skip -3\<close> jumps to itself.\<close>

lemma skip_loop:
  fixes s :: "64 word dwarf_op"
  assumes "op_offset s = 0"
  shows "Decode (sample_env [0x2f, 0xfd, 0xff]) s =
    Ok () (s\<lparr>last_error := (last_error s)\<lparr>err_code := DWARF_ERROR_NONE\<rparr>, cur_op := 0x2f,
             operands := [- 3]\<rparr>)"
proof -
  let ?m = "op_memory s"
  have read: "ReadFully (list_reader [0x2f, 0xfd, 0xff]) 0 1 = Some [0x2f]"
      "ReadFully (list_reader [0x2f, 0xfd, 0xff]) 1 2 = Some [0xfd, 0xff]"
    by code_simp+
  have val: "(signed_take_bit 15 (le_word [0xfd, 0xff]) :: u64) = - 3"
    by (simp add: le_word_def)
  have op: "ReadBytes (list_reader [0x2f, 0xfd, 0xff]) 1 ?m = Ok [0x2f] (?m\<lparr>cur_offset := 1\<rparr>)"
    using assms read by (simp add: ReadBytes_def)
  have arg: "ReadEncodedValue 8 (list_reader [0x2f, 0xfd, 0xff]) DW_EH_PE_sdata2 (?m\<lparr>cur_offset := 1\<rparr>) =
      Ok (- 3) (?m\<lparr>cur_offset := 3\<rparr>)"
    using read val
    by (simp add: ReadEncodedValue_def ReadFormat_def ReadSigned_def ReadBytes_def AdjustEncodedValue_def)
  have jump: "branch_offset (- 3 :: u64) = - 3"
    by (simp add: branch_offset_def)
  have again: "?m\<lparr>cur_offset := 0\<rparr> = ?m"
    using assms by simp
  show ?thesis
    using op arg again
    by (simp add: Decode_def on_memory_def sample_env_def skip_row op_row_def addr_size_def op_skip_def
        OperandAt_def set_op_offset_def set_code_def jump)
qed

theorem Eval_too_many_iterations_witness:
  "\<exists>t. Eval 0 3 (sample_env [0x2f, 0xfd, 0xff]) (DwarfOp_new 0) = Fail t
     \<and> err_code (last_error t) = DWARF_ERROR_TOO_MANY_ITERATIONS"
proof -
  let ?env = "sample_env [0x2f, 0xfd, 0xff]"
  let ?s0 = "eval_init 0 (DwarfOp_new 0) :: 64 word dwarf_op"
  obtain s1 where s1: "Decode ?env ?s0 = Ok () s1" "op_offset s1 = 0" "Decode ?env s1 = Ok () s1"
    using skip_loop [of ?s0] skip_loop
    by (simp add: eval_init_def set_op_offset_def DwarfOp_new_def DwarfMemory_new_def)
  have "op_step ?env 3 s1 s1"
    using s1 by (simp add: op_step_iff)
  then have "(op_step ?env 3 ^^ Suc 1000) ?s0 s1"
    unfolding op_steps_Suc using s1(1) self_loop
    by (auto simp: eval_init_def set_op_offset_def)
  then have "(op_step ?env 3 ^^ 1001) ?s0 s1" by simp
  from Eval_too_many_iterations [OF this] show ?thesis
    by (simp add: set_code_def)
qed

lemma eval_loop_Fail:
  "eval_loop env end iterations s = Fail t \<Longrightarrow> err_code (last_error t) \<noteq> DWARF_ERROR_NONE"
proof (induction env "end" iterations s rule: eval_loop.induct)
  case (1 env "end" iterations s)
  from 1(2) show ?case
    by (subst (asm) eval_loop.simps)
      (auto simp: bind_out_Fail_iff set_code_def dest: Decode_Fail 1(1) split: if_splits)
qed

text \<open>
  When \<^verbatim>\<open>Eval\<close> returns false, \<^verbatim>\<open>last_error\<close> names an error: a failure is never reported as
  \<^verbatim>\<open>DWARF_ERROR_NONE\<close>.
\<close>

theorem Eval_reports_error:
  assumes "Eval start end env s = Fail t"
  shows "err_code (last_error t) \<noteq> DWARF_ERROR_NONE"
  using assms unfolding Eval_unfold Let_def
  by (auto simp: bind_out_Fail_iff split: if_splits dest: Decode_Fail eval_loop_Fail)

lemma illegal_byte:
  "Eval 0 1 (sample_env [0x00]) (DwarfOp_new 0) =
     Fail (set_code DWARF_ERROR_ILLEGAL_VALUE (set_op_offset 1 (DwarfOp_new 0)))"
proof -
  have read: "ReadFully (list_reader [0]) 0 1 = Some [0]" and row: "handle_func (op_lookup 0) = OP_ILLEGAL"
    by code_simp+
  from read have "ReadBytes (list_reader [0]) 1 DwarfMemory_new = Ok [0] (DwarfMemory_new\<lparr>cur_offset := 1\<rparr>)"
    by (simp add: ReadBytes_def DwarfMemory_new_def)
  with row show ?thesis
    by (simp add: Eval_def Decode_def on_memory_def sample_env_def DwarfOp_new_def set_op_offset_def
        DwarfMemory_new_def set_code_def)
qed

theorem Eval_reports_error_witness:
  "err_code (last_error (set_code DWARF_ERROR_ILLEGAL_VALUE (set_op_offset 1 (DwarfOp_new 0 :: 64 word dwarf_op))))
     \<noteq> DWARF_ERROR_NONE"
  by (rule Eval_reports_error [OF illegal_byte])

end
