(* ===== verification/Dwarf_Expr.thy ===== *)
theory Dwarf_Expr
  imports Dwarf_Op
begin

text \<open>
  A functional specification of DWARF expressions: their abstract syntax, their value, and their
  encoding as bytes. The theorems show that \<^verbatim>\<open>DwarfOp::Eval\<close> computes the value of every encoded
  expression.
\<close>

section \<open>Expressions\<close>

datatype binop =
  Plus | Minus | Mul | And | Or | Xor | Div | Mod | Shl | Shr | Shra | Eq | Ge | Gt | Le | Lt | Ne

datatype unop = Neg | Not | Abs | Deref | DerefSize nat | PlusUconst u64

text \<open>\<open>Breg r off\<close> is the value of register \<open>r\<close> plus the signed \<open>off\<close>.\<close>

datatype expr = Lit nat | Const u64 | Sconst u64 | Breg nat u64 | Unary unop expr | Binary binop expr expr

fun binop_value :: "binop \<Rightarrow> 'a::len word \<Rightarrow> 'a word \<Rightarrow> 'a word option" where
  "binop_value Plus x y = Some (x + y)"
| "binop_value Minus x y = Some (x - y)"
| "binop_value Mul x y = Some (x * y)"
| "binop_value And x y = Some (x AND y)"
| "binop_value Or x y = Some (x OR y)"
| "binop_value Xor x y = Some (x XOR y)"
| "binop_value Div x y =
     (if y = 0 \<or> x = signed_min \<and> y = - 1 then None else Some (word_of_int (sint x sdiv sint y)))"
| "binop_value Mod x y = (if y = 0 then None else Some (x mod y))"
| "binop_value Shl x y = (if unat y < LENGTH('a) then Some (push_bit (unat y) x) else None)"
| "binop_value Shr x y = (if unat y < LENGTH('a) then Some (drop_bit (unat y) x) else None)"
| "binop_value Shra x y = (if unat y < LENGTH('a) then Some (signed_drop_bit (unat y) x) else None)"
| "binop_value Eq x y = Some (if x = y then 1 else 0)"
| "binop_value Ge x y = Some (if y \<le> x then 1 else 0)"
| "binop_value Gt x y = Some (if y < x then 1 else 0)"
| "binop_value Le x y = Some (if x \<le> y then 1 else 0)"
| "binop_value Lt x y = Some (if x < y then 1 else 0)"
| "binop_value Ne x y = Some (if x \<noteq> y then 1 else 0)"

fun unop_value :: "reader \<Rightarrow> unop \<Rightarrow> 'a::len word \<Rightarrow> 'a word option" where
  "unop_value mem Neg x = (if x = signed_min then None else Some (- x))"
| "unop_value mem Not x = Some (NOT x)"
| "unop_value mem Abs x =
     (if 0 \<le> sint x then Some x else if x = signed_min then None else Some (- x))"
| "unop_value mem Deref x = map_option le_word (ReadFully mem (ucast x) (addr_size TYPE('a)))"
| "unop_value mem (DerefSize n) x =
     (if 0 < n \<and> n \<le> addr_size TYPE('a) then map_option le_word (ReadFully mem (ucast x) n) else None)"
| "unop_value mem (PlusUconst c) x = Some (x + ucast c)"

fun expr_value :: "'a::len word op_env \<Rightarrow> expr \<Rightarrow> 'a word option" where
  "expr_value env (Lit n) = Some (of_nat n)"
| "expr_value env (Const c) = Some (ucast c)"
| "expr_value env (Sconst c) = Some (ucast c)"
| "expr_value env (Breg r off) =
     (if r < length (regs (op_regs_info env)) then Some (caller_value (op_regs_info env) r + ucast off)
      else None)"
| "expr_value env (Unary u e) = Option.bind (expr_value env e) (unop_value (regular_memory env) u)"
| "expr_value env (Binary b e e') =
     Option.bind (expr_value env e) (\<lambda>x. Option.bind (expr_value env e') (binop_value b x))"

section \<open>Encoding\<close>

fun binop_code :: "binop \<Rightarrow> u8" where
  "binop_code Plus = 0x22" | "binop_code Minus = 0x1c" | "binop_code Mul = 0x1e"
| "binop_code And = 0x1a" | "binop_code Or = 0x21" | "binop_code Xor = 0x27"
| "binop_code Div = 0x1b" | "binop_code Mod = 0x1d" | "binop_code Shl = 0x24"
| "binop_code Shr = 0x25" | "binop_code Shra = 0x26" | "binop_code Eq = 0x29"
| "binop_code Ge = 0x2a" | "binop_code Gt = 0x2b" | "binop_code Le = 0x2c"
| "binop_code Lt = 0x2d" | "binop_code Ne = 0x2e"

fun unop_bytes :: "unop \<Rightarrow> u8 list" where
  "unop_bytes Neg = [0x1f]"
| "unop_bytes Not = [0x20]"
| "unop_bytes Abs = [0x19]"
| "unop_bytes Deref = [0x06]"
| "unop_bytes (DerefSize n) = [0x94, of_nat n]"
| "unop_bytes (PlusUconst c) = 0x23 # uleb_encode (unat c)"

fun expr_bytes :: "expr \<Rightarrow> u8 list" where
  "expr_bytes (Lit n) = [0x30 + of_nat n]"
| "expr_bytes (Const c) = 0x10 # uleb_encode (unat c)"
| "expr_bytes (Sconst c) = 0x11 # sleb_encode (sint c)"
| "expr_bytes (Breg r off) = (0x70 + of_nat r) # sleb_encode (sint off)"
| "expr_bytes (Unary u e) = expr_bytes e @ unop_bytes u"
| "expr_bytes (Binary b e e') = expr_bytes e @ expr_bytes e' @ [binop_code b]"

text \<open>The literals and registers that have a one byte operation, and the signed numbers whose
  encoding \<^verbatim>\<open>ReadSLEB128\<close> decodes.\<close>

fun expr_ok :: "expr \<Rightarrow> bool" where
  "expr_ok (Lit n) \<longleftrightarrow> n < 32"
| "expr_ok (Const c) \<longleftrightarrow> True"
| "expr_ok (Sconst c) \<longleftrightarrow> - (2 ^ 62) \<le> sint c"
| "expr_ok (Breg r off) \<longleftrightarrow> r < 32 \<and> - (2 ^ 62) \<le> sint off"
| "expr_ok (Unary u e) \<longleftrightarrow> expr_ok e \<and> (\<forall>n. u = DerefSize n \<longrightarrow> n < 256)"
| "expr_ok (Binary b e e') \<longleftrightarrow> expr_ok e \<and> expr_ok e'"

fun expr_ops :: "expr \<Rightarrow> nat" where
  "expr_ops (Unary u e) = Suc (expr_ops e)"
| "expr_ops (Binary b e e') = Suc (expr_ops e + expr_ops e')"
| "expr_ops _ = 1"

section \<open>Decoding one operation\<close>

definition op_is :: "u8 \<Rightarrow> DwarfOpHandleFunc \<Rightarrow> nat \<Rightarrow> u8 list \<Rightarrow> bool" where
  "op_is b h required es \<longleftrightarrow>
     (let op = op_lookup b in
      handle_func op = h \<and> num_required_stack_values op = required
      \<and> take (num_operands op) (op_operands op) = es)"

lemma lit_rows: "\<forall>n < 32. op_is (0x30 + of_nat n) OP_LIT 0 []"
  by code_simp

lemma breg_rows: "\<forall>n < 32. op_is (0x70 + of_nat n) OP_BREG 0 [DW_EH_PE_sleb128]"
  by code_simp

lemma const_rows:
  "op_is 0x10 OP_PUSH 0 [DW_EH_PE_uleb128]" "op_is 0x11 OP_PUSH 0 [DW_EH_PE_sleb128]"
  by code_simp+

lemma unop_rows:
  "op_is 0x1f OP_NEG 1 []" "op_is 0x20 OP_NOT 1 []" "op_is 0x19 OP_ABS 1 []" "op_is 0x06 OP_DEREF 1 []"
  "op_is 0x94 OP_DEREF_SIZE 1 [DW_EH_PE_udata1]" "op_is 0x23 OP_PLUS_UCONST 1 [DW_EH_PE_uleb128]"
  by code_simp+

fun binop_func :: "binop \<Rightarrow> DwarfOpHandleFunc" where
  "binop_func Plus = OP_PLUS" | "binop_func Minus = OP_MINUS" | "binop_func Mul = OP_MUL"
| "binop_func And = OP_AND" | "binop_func Or = OP_OR" | "binop_func Xor = OP_XOR"
| "binop_func Div = OP_DIV" | "binop_func Mod = OP_MOD" | "binop_func Shl = OP_SHL"
| "binop_func Shr = OP_SHR" | "binop_func Shra = OP_SHRA" | "binop_func Eq = OP_EQ"
| "binop_func Ge = OP_GE" | "binop_func Gt = OP_GT" | "binop_func Le = OP_LE"
| "binop_func Lt = OP_LT" | "binop_func Ne = OP_NE"

lemma binop_rows: "op_is (binop_code b) (binop_func b) 2 []"
  by (cases b; simp only: binop_code.simps binop_func.simps; code_simp)

definition decode_start :: "u8 \<Rightarrow> 'a::len word dwarf_op \<Rightarrow> 'a word dwarf_op" where
  "decode_start b s =
     (set_op_offset (op_offset s + 1) (set_code DWARF_ERROR_NONE s))\<lparr>cur_op := b, operands := []\<rparr>"

lemma decode_start_simps [simp]:
  "op_stack (decode_start b s) = op_stack s" "is_register (decode_start b s) = is_register s"
  "op_offset (decode_start b s) = op_offset s + 1" "operands (decode_start b s) = []"
  "cur_op (decode_start b s) = b"
  by (simp_all add: decode_start_def set_op_offset_def set_code_def)

lemma set_op_offset_simps [simp]:
  "op_stack (set_op_offset a s) = op_stack s" "is_register (set_op_offset a s) = is_register s"
  "op_offset (set_op_offset a s) = a" "operands (set_op_offset a s) = operands s"
  "cur_op (set_op_offset a s) = cur_op s"
  by (simp_all add: set_op_offset_def)

lemma Decode_op:
  assumes "flat_memory (op_rd env) m" and "m (op_offset s) = Some b" and "op_is b h required es"
    and "kOpHandleFuncList h = Some handler" and "required \<le> length (op_stack s)"
    and "read_operands env es (decode_start b s) = Ok u s'"
  shows "Decode env s = handler env s'"
proof -
  have "ReadBytes (op_rd env) 1 (op_memory s) = Ok [b] ((op_memory s)\<lparr>cur_offset := op_offset s + 1\<rparr>)"
    using flat_memory.ReadBytes1_at [OF assms(1,2)] by simp
  moreover have "h \<noteq> OP_ILLEGAL"
    using assms(4) by auto
  ultimately show ?thesis
    using assms(3-6)
    by (simp add: Decode_def on_memory_def op_is_def Let_def decode_start_def set_op_offset_def
        set_code_def not_less)
qed

section \<open>Reading operands\<close>

lemma read_operands_one:
  fixes s :: "'a::len word dwarf_op"
  assumes "flat_memory (op_rd env) m" and "operand_form (addr_size TYPE('a)) e v bs" and "bytes_at m (op_offset s) bs"
  shows "read_operands env [e] s =
    Ok () (set_op_offset (op_offset s + of_nat (length bs)) (s\<lparr>operands := operands s @ [ucast v]\<rparr>))"
  using ReadEncodedValue_operand [OF assms] by (simp add: on_memory_def set_op_offset_def)

section \<open>The handlers against the specification\<close>

lemma binop_handler:
  assumes "binop_value b x y = Some v" and "op_stack s = y # x # st"
  shows "\<exists>handler. kOpHandleFuncList (binop_func b) = Some handler
    \<and> handler env s = Ok () (s\<lparr>op_stack := v # st\<rparr>)"
  using assms
  by (cases b)
    (auto simp: op_handler_defs stack_access_defs bool_to_dwarf_bool_def not_less split: if_splits)

lemma unop_handler_plain:
  assumes "unop_value (regular_memory env) u x = Some v" and "op_stack s = x # st"
  shows "u = Neg \<Longrightarrow> op_neg env s = Ok () (s\<lparr>op_stack := v # st\<rparr>)"
    and "u = Not \<Longrightarrow> op_not env s = Ok () (s\<lparr>op_stack := v # st\<rparr>)"
    and "u = Abs \<Longrightarrow> op_abs env s = Ok () (s\<lparr>op_stack := v # st\<rparr>)"
    and "u = Deref \<Longrightarrow> op_deref env s = Ok () (s\<lparr>op_stack := v # st\<rparr>)"
  using assms by (auto simp: op_handler_defs stack_access_defs split: if_splits)

lemma deref_size_operand:
  assumes "n \<le> addr_size TYPE('a::len)" and "n < 256"
  shows "unat (ucast (ucast (of_nat n :: u8) :: u64) :: 'a word) = n"
proof -
  have "n \<le> LENGTH('a)"
    using assms(1) by (simp add: addr_size_def)
  also have "LENGTH('a) < 2 ^ LENGTH('a)" by (rule less_exp)
  finally have n: "unat (of_nat n :: 'a word) = n"
    by (simp add: unat_of_nat)
  have "unat (of_nat n :: u8) = n" "unat (of_nat n :: u64) = n"
    using assms(2) by (simp_all add: unat_of_nat)
  then show ?thesis
    using n by (metis of_nat_unat)
qed

lemma unop_handler_operand:
  assumes "unop_value (regular_memory env) u x = Some v" and "op_stack s = x # st"
  shows "u = DerefSize n \<Longrightarrow> n < 256 \<Longrightarrow> operands s = [ucast (ucast (of_nat n :: u8) :: u64)] \<Longrightarrow>
      op_deref_size env s = Ok () (s\<lparr>op_stack := v # st\<rparr>)"
    and "u = PlusUconst c \<Longrightarrow> operands s = [ucast c] \<Longrightarrow>
      op_plus_uconst env s = Ok () (s\<lparr>op_stack := v # st\<rparr>)"
proof -
  assume u: "u = DerefSize n" and n: "n < 256" and "operands s = [ucast (ucast (of_nat n :: u8) :: u64)]"
  moreover have size: "0 < n" "n \<le> addr_size TYPE('a)"
    using assms(1) u by (auto split: if_splits)
  moreover have "ucast (ucast (of_nat n :: u8) :: u64) \<noteq> (0 :: 'a word)"
    using deref_size_operand [OF size(2) n] size(1) by auto
  ultimately show "op_deref_size env s = Ok () (s\<lparr>op_stack := v # st\<rparr>)"
    using assms deref_size_operand [OF size(2) n]
    by (auto simp: op_deref_size_def stack_access_defs)
next
  assume "u = PlusUconst c" "operands s = [ucast c]"
  with assms show "op_plus_uconst env s = Ok () (s\<lparr>op_stack := v # st\<rparr>)"
    by (auto simp: op_plus_uconst_def stack_access_defs)
qed

lemma lit_value: "n < 32 \<Longrightarrow> (ucast (0x30 + of_nat n :: u8) :: 'a::len word) - 0x30 = of_nat n"
proof -
  assume "n < 32"
  then have "unat (0x30 + of_nat n :: u8) = 0x30 + n"
    by (simp add: unat_word_ariths unat_of_nat)
  then have "(ucast (0x30 + of_nat n :: u8) :: 'a word) = of_nat (0x30 + n)"
    by (metis of_nat_unat)
  then show ?thesis by simp
qed

lemma breg_handler:
  assumes ok: "regs_info_ok (op_regs_info env)" and r: "r < length (regs (op_regs_info env))" "r < 32"
    and s: "cur_op s = 0x70 + of_nat r" "operands s = [off]"
  shows "op_breg env s =
    Ok () (s\<lparr>op_stack := (caller_value (op_regs_info env) r + off) # op_stack s\<rparr>)"
proof -
  have "\<forall>r < 32. (ucast (0x70 + of_nat r :: u8) - 0x70 :: u16) = of_nat r"
    by code_simp
  with r(2) have reg: "(ucast (0x70 + of_nat r :: u8) - 0x70 :: u16) = of_nat r" by blast
  have len: "length (regs (op_regs_info env)) \<le> 64"
    using ok by (simp add: regs_info_ok_def MAX_REGISTERS_def)
  have "\<not> RegsInfo_Total (op_regs_info env) \<le> of_nat r"
    using r len by (simp add: RegsInfo_Total_def word_le_nat_alt unat_of_nat)
  moreover have "unat (ucast (of_nat r :: u16) :: u32) = r"
    using r by (simp add: unsigned_ucast_eq take_bit_nat_eq_self unat_of_nat)
  ultimately show ?thesis
    using RegsInfo_Get_below_total [OF ok, of "ucast (of_nat r :: u16)" s] r(1) s
    by (simp add: op_breg_def reg stack_access_defs caller_value_def)
qed

section \<open>Encoded expressions run to their value\<close>

text \<open>In \<open>k\<close> operations the machine consumes \<open>n\<close> bytes and its stack becomes \<open>st\<close>.\<close>

definition runs_to :: "'a::len word op_env \<Rightarrow> u64 \<Rightarrow> nat \<Rightarrow> nat \<Rightarrow> 'a word dwarf_op \<Rightarrow> 'a word dwarf_op \<Rightarrow> 'a word list \<Rightarrow> bool"
where
  "runs_to env end k n s t st \<longleftrightarrow>
     (op_step env end ^^ k) s t \<and> op_stack t = st \<and> op_offset t = op_offset s + of_nat n
     \<and> is_register t = is_register s"

lemma runs_to_trans:
  "runs_to env end k n s t st \<Longrightarrow> runs_to env end k' n' t t' st' \<Longrightarrow>
   runs_to env end (k + k') (n + n') s t' st'"
  by (auto simp: runs_to_def relpowp_add relcompp_apply add.assoc)

lemma runs_to_1:
  "runs_to env end 1 n s t st \<longleftrightarrow>
     op_offset s < end \<and> Decode env s = Ok () t \<and> op_stack t = st
     \<and> op_offset t = op_offset s + of_nat n \<and> is_register t = is_register s"
  using op_steps_Suc [of 0 env "end" s t] by (auto simp: runs_to_def)

lemma runs_to_plain:
  assumes "flat_memory (op_rd env) m" and "bytes_at m (op_offset s) [b]" and "op_is b h required []"
    and "kOpHandleFuncList h = Some handler" and "required \<le> length (op_stack s)"
    and "op_offset s < end"
    and "handler env (decode_start b s) = Ok () ((decode_start b s)\<lparr>op_stack := st\<rparr>)"
  shows "\<exists>t. runs_to env end 1 1 s t st"
proof -
  have "Decode env s = Ok () ((decode_start b s)\<lparr>op_stack := st\<rparr>)"
    using Decode_op [OF assms(1) _ assms(3-5)] assms(2,7) by simp
  with assms(6) show ?thesis
    unfolding runs_to_1 by simp
qed

lemma runs_to_operand:
  fixes s :: "'a::len word dwarf_op"
  assumes mem: "flat_memory (op_rd env) m" and at: "bytes_at m (op_offset s) (b # bs)"
    and "op_is b h required [e]" and "operand_form (addr_size TYPE('a)) e v bs"
    and "kOpHandleFuncList h = Some handler" and "required \<le> length (op_stack s)"
    and "op_offset s < end"
    and run: "\<And>s'. op_stack s' = op_stack s \<Longrightarrow> operands s' = [ucast v] \<Longrightarrow> cur_op s' = b \<Longrightarrow>
           handler env s' = Ok () (s'\<lparr>op_stack := st\<rparr>)"
    and n: "n = Suc (length bs)"
  shows "\<exists>t. runs_to env end 1 n s t st"
proof -
  let ?s = "set_op_offset (op_offset s + 1 + of_nat (length bs)) ((decode_start b s)\<lparr>operands := [ucast v]\<rparr>)"
  have "read_operands env [e] (decode_start b s) = Ok () ?s"
    using read_operands_one [OF mem assms(4), of "decode_start b s"] at by simp
  from Decode_op [OF mem _ assms(3,5,6) this] at have "Decode env s = handler env ?s" by simp
  also have "\<dots> = Ok () (?s\<lparr>op_stack := st\<rparr>)"
    by (rule run) simp_all
  finally show ?thesis
    using assms(7) n unfolding runs_to_1 by (simp add: add.assoc)
qed

lemma expr_bytes_nonempty: "expr_bytes e \<noteq> []"
  by (induction e) auto

lemma unop_bytes_nonempty: "unop_bytes u \<noteq> []"
  by (cases u) auto

text \<open>A cursor that has \<open>n\<close> bytes left before \<open>end\<close>.\<close>

definition bytes_left :: "u64 \<Rightarrow> u64 \<Rightarrow> nat \<Rightarrow> bool" where
  "bytes_left a end n \<longleftrightarrow> unat a + n \<le> unat end"

lemma bytes_left_less: "bytes_left a end n \<Longrightarrow> 0 < n \<Longrightarrow> a < end"
  by (simp add: bytes_left_def word_less_nat_alt)

lemma bytes_left_add: "bytes_left a end (n + k) \<Longrightarrow> bytes_left (a + of_nat n) end k"
  using unat_add_of_nat [of a n] unat_bound [of "end"] by (simp add: bytes_left_def)

lemma stack_op_runs:
  assumes mem: "flat_memory (op_rd env) m" and at: "bytes_at m (op_offset s) [b]"
    and row: "op_is b h required []" and h: "kOpHandleFuncList h = Some handler"
    and st: "op_stack s = xs @ st" "length xs = required" and less: "op_offset s < end"
    and run: "\<And>s'. op_stack s' = xs @ st \<Longrightarrow> handler env s' = Ok () (s'\<lparr>op_stack := v # st\<rparr>)"
  shows "\<exists>t. runs_to env end 1 (length [b]) s t (v # st)"
  using runs_to_plain [OF mem at row h _ less] run [of "decode_start b s"] st by simp

lemma unop_runs:
  assumes mem: "flat_memory (op_rd env) m" and at: "bytes_at m (op_offset s) (unop_bytes u)"
    and v: "unop_value (regular_memory env) u x = Some v" and st: "op_stack s = x # st"
    and size: "\<forall>n. u = DerefSize n \<longrightarrow> n < 256" and less: "op_offset s < end"
  shows "\<exists>t. runs_to env end 1 (length (unop_bytes u)) s t (v # st)"
proof -
  have one: "op_stack s = [x] @ st" "length [x] = 1" using st by simp_all
  note run = stack_op_runs [OF mem _ _ _ one less, where v = v]
  note plain = unop_handler_plain [OF v]
  show ?thesis
  proof (cases u)
    case Neg
    then show ?thesis using run [OF _ unop_rows(1)] at plain(1) by simp
  next
    case Not
    then show ?thesis using run [OF _ unop_rows(2)] at plain(2) by simp
  next
    case Abs
    then show ?thesis using run [OF _ unop_rows(3)] at plain(3) by simp
  next
    case Deref
    then show ?thesis using run [OF _ unop_rows(4)] at plain(4) by simp
  next
    case (DerefSize n)
    show ?thesis
      unfolding DerefSize unop_bytes.simps
      by (rule runs_to_operand [OF mem _ unop_rows(5) _ _ _ less, where v = "ucast (of_nat n :: u8)"
            and handler = op_deref_size and bs = "[of_nat n]"])
        (use at st DerefSize size unop_handler_operand(1) [OF v _ DerefSize] in
          \<open>auto simp: operand_form_byte\<close>)
  next
    case (PlusUconst c)
    show ?thesis
      unfolding PlusUconst unop_bytes.simps
      by (rule runs_to_operand [OF mem _ unop_rows(6) _ _ _ less, where v = c
            and handler = op_plus_uconst])
        (use at st PlusUconst unop_handler_operand(2) [OF v _ PlusUconst] in
          \<open>auto simp: operand_form_def\<close>)
  qed
qed

lemma binop_runs:
  assumes mem: "flat_memory (op_rd env) m" and at: "bytes_at m (op_offset s) [binop_code b]"
    and v: "binop_value b x y = Some v" and st: "op_stack s = y # x # st" and less: "op_offset s < end"
  shows "\<exists>t. runs_to env end 1 (length [binop_code b]) s t (v # st)"
proof -
  obtain handler :: "'a op_handler" where h: "kOpHandleFuncList (binop_func b) = Some handler"
    using binop_handler [OF v st, of env] by blast
  have two: "op_stack s = [y, x] @ st" "length [y, x] = 2" using st by simp_all
  show ?thesis
    by (rule stack_op_runs [OF mem at binop_rows h two less])
      (use binop_handler [OF v, of _ st env] h in auto)
qed

lemma lit_runs:
  assumes "flat_memory (op_rd env) m" and "n < 32" and "op_offset s < end"
    and "bytes_at m (op_offset s) (expr_bytes (Lit n))"
  shows "\<exists>t. runs_to env end 1 (length (expr_bytes (Lit n))) s t (of_nat n # op_stack s)"
proof -
  have "\<exists>t. runs_to env end 1 1 s t (of_nat n # op_stack s)"
    by (rule runs_to_plain [OF assms(1), where b = "0x30 + of_nat n" and handler = op_lit])
      (use assms(2-) lit_rows in \<open>auto simp: op_lit_def push_front_def lit_value\<close>)
  then show ?thesis by simp
qed

lemma breg_runs:
  assumes "flat_memory (op_rd env) m" and "regs_info_ok (op_regs_info env)"
    and r: "r < length (regs (op_regs_info env))" "r < 32" and "- (2 ^ 62) \<le> sint off"
    and "op_offset s < end" and "bytes_at m (op_offset s) (expr_bytes (Breg r off))"
  shows "\<exists>t. runs_to env end 1 (length (expr_bytes (Breg r off))) s t
    ((caller_value (op_regs_info env) r + ucast off) # op_stack s)"
  by (rule runs_to_operand [OF assms(1), where b = "0x70 + of_nat r" and v = off and handler = op_breg
        and e = DW_EH_PE_sleb128 and h = OP_BREG and required = 0])
    (use assms(5-) r breg_rows breg_handler [OF assms(2) r] in \<open>auto simp: operand_form_def\<close>)

lemma expr_runs:
  assumes "flat_memory (op_rd env) m" and "regs_info_ok (op_regs_info env)"
    and "expr_ok e" and "expr_value env e = Some v"
    and "bytes_at m (op_offset s) (expr_bytes e)" and "bytes_left (op_offset s) end (length (expr_bytes e))"
  shows "\<exists>t. runs_to env end (expr_ops e) (length (expr_bytes e)) s t (v # op_stack s)"
  using assms(3-)
proof (induction e arbitrary: s v)
  case (Lit n)
  then show ?case
    using lit_runs [OF assms(1), of n s "end"] bytes_left_less by auto
next
  case (Const c)
  have "\<exists>t. runs_to env end 1 (length (expr_bytes (Const c))) s t (v # op_stack s)"
    by (rule runs_to_operand [OF assms(1) _ const_rows(1), where v = c and handler = op_push])
      (use Const bytes_left_less in \<open>auto simp: operand_form_def op_push_def push_front_def\<close>)
  then show ?case by simp
next
  case (Sconst c)
  have "\<exists>t. runs_to env end 1 (length (expr_bytes (Sconst c))) s t (v # op_stack s)"
    by (rule runs_to_operand [OF assms(1) _ const_rows(2), where v = c and handler = op_push])
      (use Sconst bytes_left_less in \<open>auto simp: operand_form_def op_push_def push_front_def\<close>)
  then show ?case by simp
next
  case (Breg r off)
  then show ?case
    using breg_runs [OF assms(1,2), of r off s "end"] bytes_left_less
    by (auto split: if_splits)
next
  case (Unary u e)
  then obtain x where x: "expr_value env e = Some x" "unop_value (regular_memory env) u x = Some v"
    by (auto simp: bind_eq_Some_conv)
  have left: "bytes_left (op_offset s) end (length (expr_bytes e) + length (unop_bytes u))"
    using Unary.prems(4) by simp
  then obtain t where t: "runs_to env end (expr_ops e) (length (expr_bytes e)) s t (x # op_stack s)"
    using Unary.IH [of x s] Unary.prems x(1) by (auto simp: bytes_left_def)
  then obtain t' where "runs_to env end 1 (length (unop_bytes u)) t t' (v # op_stack s)"
    using unop_runs [OF assms(1) _ x(2), of t "op_stack s" "end"] Unary.prems
      bytes_left_less [OF bytes_left_add [OF left]] by (auto simp: unop_bytes_nonempty runs_to_def)
  from runs_to_trans [OF t this] show ?case by auto
next
  case (Binary b e e')
  then obtain x y where xy: "expr_value env e = Some x" "expr_value env e' = Some y"
    and v: "binop_value b x y = Some v"
    by (auto simp: bind_eq_Some_conv)
  have left: "bytes_left (op_offset s) end (length (expr_bytes e) + (length (expr_bytes e') + 1))"
    using Binary.prems(4) by simp
  then obtain t where t: "runs_to env end (expr_ops e) (length (expr_bytes e)) s t (x # op_stack s)"
    using Binary.IH(1) [of x s] Binary.prems xy by (auto simp: bytes_left_def)
  note left' = bytes_left_add [OF left]
  obtain t2 where t2: "runs_to env end (expr_ops e') (length (expr_bytes e')) t t2 (y # x # op_stack s)"
    using Binary.IH(2) [of y t] Binary.prems xy t left' by (auto simp: bytes_left_def runs_to_def)
  from runs_to_trans [OF t t2] obtain t3 where "runs_to env end 1 (length [binop_code b]) t2 t3 (v # op_stack s)"
    using binop_runs [OF assms(1) _ v, of t2 "op_stack s" "end"] Binary.prems(3)
      bytes_left_less [OF bytes_left_add [OF left']] t by (auto simp: runs_to_def add.assoc)
  from runs_to_trans [OF runs_to_trans [OF t t2] this] show ?case by (auto simp: add.assoc)
qed

section \<open>Properties\<close>


text \<open>Register 1 minus 4 plus 8, shifted left by 2.\<close>

definition sample_expr :: expr where
  "sample_expr = Binary Shl (Unary (PlusUconst 8) (Breg 1 (- 4))) (Lit 2)"


text \<open>What a binary operation does when it has no value.\<close>

definition binop_failure :: "binop \<Rightarrow> 'a::len word \<Rightarrow> 'a word dwarf_op \<Rightarrow> (unit, 'a word dwarf_op) outcome" where
  "binop_failure b y s =
     (if b \<in> {Shl, Shr, Shra} then Undef UB_Shift
      else if y = 0 then Fail (set_code DWARF_ERROR_ILLEGAL_VALUE s)
      else Undef UB_Signed_Overflow)"

text \<open>
  Decoding a binary operation replaces the two top elements by its value. Division by zero is
  reported as \<^verbatim>\<open>DWARF_ERROR_ILLEGAL_VALUE\<close>; a shift by at least the width and the division of the
  smallest signed value by -1 are undefined in C++, and the code does not exclude them.
\<close>

theorem Decode_binary_operation:
  assumes "flat_memory (op_rd env) m" and "bytes_at m (op_offset s) [binop_code b]"
    and "op_stack s = y # x # st"
  shows "Decode env s =
    (let s' = decode_start (binop_code b) s
     in case binop_value b x y of
          Some v \<Rightarrow> Ok () (s'\<lparr>op_stack := v # st\<rparr>)
        | None \<Rightarrow> binop_failure b y (s'\<lparr>op_stack := x # st\<rparr>))"
proof -
  let ?s = "decode_start (binop_code b) s"
  have st: "op_stack ?s = y # x # st" using assms(3) by simp
  obtain handler :: "'a op_handler" where h: "kOpHandleFuncList (binop_func b) = Some handler"
    by (cases b) auto
  have "Decode env s = handler env ?s"
    using Decode_op [OF assms(1) _ binop_rows h, of s "()" ?s] assms(2,3) by simp
  also have "\<dots> = (case binop_value b x y of Some v \<Rightarrow> Ok () (?s\<lparr>op_stack := v # st\<rparr>)
        | None \<Rightarrow> binop_failure b y (?s\<lparr>op_stack := x # st\<rparr>))"
  proof (cases "binop_value b x y")
    case (Some v)
    with binop_handler [OF Some st, of env] h show ?thesis by auto
  next
    case None
    with h st show ?thesis
      by (cases b)
        (auto simp: op_handler_defs stack_access_defs binop_failure_def set_code_def not_less
          split: if_splits)
  qed
  finally show ?thesis by (simp add: Let_def)
qed

theorem Decode_binary_operation_witness:
  "Decode (sample_env [0x1b]) ((DwarfOp_new 0)\<lparr>op_stack := [- 1, 2 ^ 63]\<rparr>) = Undef UB_Signed_Overflow
   \<and> Decode (sample_env [0x24]) ((DwarfOp_new 0)\<lparr>op_stack := [64, 1]\<rparr>) = Undef UB_Shift
   \<and> (\<exists>t. Decode (sample_env [0x2d]) ((DwarfOp_new 0)\<lparr>op_stack := [1, - 1]\<rparr>) = Ok () t
        \<and> op_stack t = [0])"
proof -
  have mem: "flat_memory (op_rd (sample_env bs)) (list_content bs)" for bs
    using buffer_mem.flat_memory_axioms by (simp add: sample_env_def)
  have at: "bytes_at (list_content [b]) (op_offset ((DwarfOp_new 0)\<lparr>op_stack := st\<rparr>)) [b]"
    for b and st :: "64 word list"
    using bytes_at_list_buffer [of "[b]"] by (simp add: DwarfOp_new_def DwarfMemory_new_def)
  have "Decode (sample_env [binop_code b]) ((DwarfOp_new 0)\<lparr>op_stack := [y, x]\<rparr>) =
     (let s' = decode_start (binop_code b) ((DwarfOp_new 0)\<lparr>op_stack := [y, x]\<rparr>)
      in case binop_value b x y of
           Some v \<Rightarrow> Ok () (s'\<lparr>op_stack := [v]\<rparr>)
         | None \<Rightarrow> binop_failure b y (s'\<lparr>op_stack := [x]\<rparr>))" for b and x y :: "64 word"
    by (rule Decode_binary_operation [OF mem at]) simp
  from this [of Div] this [of Shl] this [of Lt] show ?thesis
    by (simp add: binop_failure_def signed_min_def)
qed

definition dex_marker :: "u8 list" where
  "dex_marker = [0x0c, 0x44, 0x45, 0x58, 0x31, 0x13]"

lemma dex_rows: "op_is 0x0c OP_PUSH 0 [DW_EH_PE_udata4]" "op_is 0x13 OP_DROP 1 []"
  by code_simp+

lemma dex_marker_steps:
  fixes s :: "'a::len word dwarf_op"
  assumes mem: "flat_memory (op_rd env) m" and at: "bytes_at m (op_offset s) dex_marker"
    and left: "bytes_left (op_offset s) end 6"
  shows "\<exists>s1 s2. op_step env end s s1 \<and> op_step env end s1 s2 \<and> cur_op s1 = 0x0c
    \<and> last (operands s1) = 0x31584544 \<and> cur_op s2 = 0x13
    \<and> op_stack s2 = op_stack s \<and> op_offset s2 = op_offset s + 6 \<and> is_register s2 = is_register s"
proof -
  let ?bs = "[0x44, 0x45, 0x58, 0x31] :: u8 list" and ?v = "0x31584544 :: u64"
  have form: "operand_form (addr_size TYPE('a)) DW_EH_PE_udata4 ?v ?bs"
    by (simp add: operand_form_def GetEncodedSize_def format_value_def)
  have word: "(ucast ?v :: 'a word) = 0x31584544"
  proof -
    have "unat ?v = 0x31584544" by simp
    then have "(ucast ?v :: 'a word) = of_nat 0x31584544" by (metis of_nat_unat)
    then show ?thesis by (simp only: of_nat_numeral)
  qed
  let ?s1 = "set_op_offset (op_offset s + 5) ((decode_start 0x0c s)\<lparr>operands := [ucast ?v]\<rparr>)"
  let ?s2 = "?s1\<lparr>op_stack := ucast ?v # op_stack s\<rparr>"
  have "read_operands env [DW_EH_PE_udata4] (decode_start 0x0c s) = Ok () ?s1"
    using read_operands_one [OF mem form, of "decode_start 0x0c s"] at by (simp add: dex_marker_def add.commute)
  from Decode_op [OF mem _ dex_rows(1) _ _ this, of op_push] at
  have "Decode env s = Ok () ?s2"
    by (simp add: dex_marker_def op_push_def push_front_def)
  moreover have "Decode env ?s2 = Ok () ((decode_start 0x13 ?s2)\<lparr>op_stack := op_stack s\<rparr>)"
    using Decode_op [OF mem _ dex_rows(2), of ?s2 op_drop "()" "decode_start 0x13 ?s2"] at
    by (simp add: dex_marker_def op_drop_def StackPop_def add.assoc)
  moreover have "op_offset s < end" "op_offset s + 5 < end"
    using bytes_left_less [OF left] bytes_left_less [OF bytes_left_add [of "op_offset s" "end" 5 1]] left
    by simp_all
  ultimately show ?thesis
    using word
    by (intro exI [of _ ?s2] exI [of _ "(decode_start 0x13 ?s2)\<lparr>op_stack := op_stack s\<rparr>"] conjI)
      (simp_all add: op_step_iff add.assoc)
qed

text \<open>
  An expression behind the marker \<^verbatim>\<open>DW_OP_const4u "DEX1", DW_OP_drop\<close> is recognised as a dex pc,
  and the marker leaves no trace on the stack.
\<close>

theorem Eval_recognises_dex_pc:
  assumes "flat_memory (op_rd env) m" and "regs_info_ok (op_regs_info env)"
    and "expr_ok e" and "expr_value env e = Some v" and "expr_ops e \<le> 998"
    and "bytes_at m start (dex_marker @ expr_bytes e)" and "unat start + 6 + length (expr_bytes e) < 2 ^ 64"
  shows "\<exists>t. Eval start (start + 6 + of_nat (length (expr_bytes e))) env s = Ok () t
    \<and> dex_pc_set t \<and> op_stack t = [v] \<and> \<not> is_register t"
proof -
  let ?n = "length (expr_bytes e)"
  let ?fin = "start + 6 + of_nat ?n" and ?s0 = "eval_init start s"
  have init: "op_offset ?s0 = start" "op_stack ?s0 = []" "\<not> is_register ?s0"
    by (simp_all add: eval_init_def)
  have left: "bytes_left start ?fin (6 + ?n)"
    using assms(7) unat_add_of_nat [of start "6 + ?n"] by (simp add: bytes_left_def add.assoc)
  obtain s1 s2 where s2: "op_step env ?fin ?s0 s1" "op_step env ?fin s1 s2" "cur_op s1 = 0x0c"
      "last (operands s1) = 0x31584544" "cur_op s2 = 0x13" "op_stack s2 = []" "op_offset s2 = start + 6"
      "\<not> is_register s2"
    using dex_marker_steps [OF assms(1), of ?s0 ?fin] left assms(6) init by (auto simp: bytes_left_def)
  have "bytes_at m (start + 6) (expr_bytes e)"
    using assms(6) by (simp add: dex_marker_def add.commute)
  with bytes_left_add [OF left] s2
  obtain t where t: "runs_to env ?fin (expr_ops e) ?n s2 t [v]"
    using expr_runs [OF assms(1-4), of s2 ?fin] by auto
  then have "(op_step env ?fin ^^ Suc (Suc (expr_ops e))) ?s0 t" "\<not> op_offset t < ?fin"
    using s2(1,2,7) by (auto simp: runs_to_def intro: relpowp_Suc_I2 simp del: relpowp.simps(2))
  moreover have "Suc (Suc (expr_ops e)) \<le> 1000" using assms(5) by simp
  ultimately have "Eval start ?fin env s = Ok () (mark (dex_pattern env ?fin ?s0) t)"
    unfolding Eval_Ok_steps by blast
  moreover have "dex_pattern env ?fin ?s0"
    unfolding dex_pattern_def using s2 by blast
  ultimately show ?thesis using t s2 by (simp add: runs_to_def)
qed

theorem Eval_recognises_dex_pc_witness:
  "\<exists>t. Eval 0 8 (sample_env (dex_marker @ [0x72, 0x00])) (DwarfOp_new 0) = Ok () t
     \<and> dex_pc_set t \<and> op_stack t = [0x300] \<and> \<not> is_register t"
proof -
  let ?bs = "dex_marker @ [0x72, 0x00]"
  have zero: "sleb_encode 0 = [0]"
    by (simp add: sleb_encode.simps)
  have val: "expr_value (sample_env ?bs) (Breg 2 0) = Some 0x300"
    by (simp add: sample_env_def RegsInfo_new_def caller_value_def)
  have "flat_memory (op_rd (sample_env ?bs)) (list_content ?bs)"
    using buffer_mem.flat_memory_axioms by (simp add: sample_env_def)
  from Eval_recognises_dex_pc [OF this sample_env_regs _ val, of 0 "DwarfOp_new 0"]
  show ?thesis
    using bytes_at_list_buffer [of ?bs] by (simp add: zero dex_marker_def del: bytes_at_Cons bytes_at_append)
qed

end
