(* ===== verification/Dwarf_Cfa_Table.thy ===== *)
theory Dwarf_Cfa_Table
  imports Dwarf_Memory
begin

text \<open>
  The data of \<^verbatim>\<open>libunwindstack/DwarfCfa.h\<close> and \<^verbatim>\<open>DwarfCfa.cpp\<close>: \<^verbatim>\<open>DwarfCfaInfo::kTable\<close>, and of
  \<^verbatim>\<open>DwarfStructs.h\<close>, \<^verbatim>\<open>DwarfLocation.h\<close> and \<^verbatim>\<open>Arch.h\<close>: CIE, FDE, register locations.
  The initialiser of \<^verbatim>\<open>kTable\<close> has 63 rows for 64 elements; C++ fills the last one with zeros.
\<close>

section \<open>Instruction table\<close>

datatype DisplayType =
    DWARF_DISPLAY_NONE | DWARF_DISPLAY_REGISTER | DWARF_DISPLAY_NUMBER | DWARF_DISPLAY_SIGNED_NUMBER
  | DWARF_DISPLAY_EVAL_BLOCK | DWARF_DISPLAY_ADDRESS | DWARF_DISPLAY_SET_LOC
  | DWARF_DISPLAY_ADVANCE_LOC

record DwarfCfaInfo =
  cfa_name :: string
  supported_version :: nat
  cfa_num_operands :: nat
  cfa_operand_encodings :: "u8 list"
  display_operands :: "DisplayType list"

definition cfa_row ::
  "string \<Rightarrow> nat \<Rightarrow> nat \<Rightarrow> u8 list \<Rightarrow> DisplayType list \<Rightarrow> DwarfCfaInfo" where
  "cfa_row name version n encodings display =
     \<lparr>cfa_name = name, supported_version = version, cfa_num_operands = n,
      cfa_operand_encodings = take 2 (encodings @ [0, 0]),
      display_operands = take 2 (display @ [DWARF_DISPLAY_NONE, DWARF_DISPLAY_NONE])\<rparr>"

definition kTable_00 :: "DwarfCfaInfo list" where
  "kTable_00 = [
     cfa_row ''DW_CFA_nop'' 2 0 [] [],
     cfa_row ''DW_CFA_set_loc'' 2 1 [DW_EH_PE_absptr] [DWARF_DISPLAY_SET_LOC],
     cfa_row ''DW_CFA_advance_loc1'' 2 1 [DW_EH_PE_udata1] [DWARF_DISPLAY_ADVANCE_LOC],
     cfa_row ''DW_CFA_advance_loc2'' 2 1 [DW_EH_PE_udata2] [DWARF_DISPLAY_ADVANCE_LOC],
     cfa_row ''DW_CFA_advance_loc4'' 2 1 [DW_EH_PE_udata4] [DWARF_DISPLAY_ADVANCE_LOC],
     cfa_row ''DW_CFA_offset_extended'' 2 2 [DW_EH_PE_uleb128, DW_EH_PE_uleb128] [DWARF_DISPLAY_REGISTER, DWARF_DISPLAY_NUMBER],
     cfa_row ''DW_CFA_restore_extended'' 2 1 [DW_EH_PE_uleb128] [DWARF_DISPLAY_REGISTER],
     cfa_row ''DW_CFA_undefined'' 2 1 [DW_EH_PE_uleb128] [DWARF_DISPLAY_REGISTER],
     cfa_row ''DW_CFA_same_value'' 2 1 [DW_EH_PE_uleb128] [DWARF_DISPLAY_REGISTER],
     cfa_row ''DW_CFA_register'' 2 2 [DW_EH_PE_uleb128, DW_EH_PE_uleb128] [DWARF_DISPLAY_REGISTER, DWARF_DISPLAY_REGISTER],
     cfa_row ''DW_CFA_remember_state'' 2 0 [] [],
     cfa_row ''DW_CFA_restore_state'' 2 0 [] [],
     cfa_row ''DW_CFA_def_cfa'' 2 2 [DW_EH_PE_uleb128, DW_EH_PE_uleb128] [DWARF_DISPLAY_REGISTER, DWARF_DISPLAY_NUMBER],
     cfa_row ''DW_CFA_def_cfa_register'' 2 1 [DW_EH_PE_uleb128] [DWARF_DISPLAY_REGISTER],
     cfa_row ''DW_CFA_def_cfa_offset'' 2 1 [DW_EH_PE_uleb128] [DWARF_DISPLAY_NUMBER],
     cfa_row ''DW_CFA_def_cfa_expression'' 2 1 [DW_EH_PE_block] [DWARF_DISPLAY_EVAL_BLOCK]]"

definition kTable_10 :: "DwarfCfaInfo list" where
  "kTable_10 = [
     cfa_row ''DW_CFA_expression'' 2 2 [DW_EH_PE_uleb128, DW_EH_PE_block] [DWARF_DISPLAY_REGISTER, DWARF_DISPLAY_EVAL_BLOCK],
     cfa_row ''DW_CFA_offset_extended_sf'' 2 2 [DW_EH_PE_uleb128, DW_EH_PE_sleb128] [DWARF_DISPLAY_REGISTER, DWARF_DISPLAY_SIGNED_NUMBER],
     cfa_row ''DW_CFA_def_cfa_sf'' 2 2 [DW_EH_PE_uleb128, DW_EH_PE_sleb128] [DWARF_DISPLAY_REGISTER, DWARF_DISPLAY_SIGNED_NUMBER],
     cfa_row ''DW_CFA_def_cfa_offset_sf'' 2 1 [DW_EH_PE_sleb128] [DWARF_DISPLAY_SIGNED_NUMBER],
     cfa_row ''DW_CFA_val_offset'' 2 2 [DW_EH_PE_uleb128, DW_EH_PE_uleb128] [DWARF_DISPLAY_REGISTER, DWARF_DISPLAY_NUMBER],
     cfa_row ''DW_CFA_val_offset_sf'' 2 2 [DW_EH_PE_uleb128, DW_EH_PE_sleb128] [DWARF_DISPLAY_REGISTER, DWARF_DISPLAY_SIGNED_NUMBER],
     cfa_row ''DW_CFA_val_expression'' 2 2 [DW_EH_PE_uleb128, DW_EH_PE_block] [DWARF_DISPLAY_REGISTER, DWARF_DISPLAY_EVAL_BLOCK],
     cfa_row '''' 0 0 [] [],
     cfa_row '''' 0 0 [] [],
     cfa_row '''' 0 0 [] [],
     cfa_row '''' 0 0 [] [],
     cfa_row '''' 0 0 [] [],
     cfa_row '''' 0 0 [] [],
     cfa_row '''' 0 0 [] [],
     cfa_row '''' 0 0 [] [],
     cfa_row '''' 0 0 [] [],
     cfa_row '''' 0 0 [] [],
     cfa_row '''' 0 0 [] [],
     cfa_row '''' 0 0 [] [],
     cfa_row '''' 0 0 [] [],
     cfa_row '''' 0 0 [] [],
     cfa_row '''' 0 0 [] [],
     cfa_row '''' 0 0 [] [],
     cfa_row '''' 0 0 [] [],
     cfa_row '''' 0 0 [] [],
     cfa_row '''' 0 0 [] [],
     cfa_row '''' 0 0 [] [],
     cfa_row '''' 0 0 [] [],
     cfa_row '''' 0 0 [] []]"

definition kTable_2d :: "DwarfCfaInfo list" where
  "kTable_2d = [
     cfa_row ''DW_CFA_AARCH64_negate_ra_state'' 3 0 [] [],
     cfa_row ''DW_CFA_GNU_args_size'' 2 1 [DW_EH_PE_uleb128] [DWARF_DISPLAY_NUMBER],
     cfa_row ''DW_CFA_GNU_negative_offset_extended'' 2 2 [DW_EH_PE_uleb128, DW_EH_PE_uleb128] [DWARF_DISPLAY_REGISTER, DWARF_DISPLAY_NUMBER],
     cfa_row '''' 0 0 [] [],
     cfa_row '''' 0 0 [] [],
     cfa_row '''' 0 0 [] [],
     cfa_row '''' 0 0 [] [],
     cfa_row '''' 0 0 [] [],
     cfa_row '''' 0 0 [] [],
     cfa_row '''' 0 0 [] [],
     cfa_row '''' 0 0 [] [],
     cfa_row '''' 0 0 [] [],
     cfa_row '''' 0 0 [] [],
     cfa_row '''' 0 0 [] [],
     cfa_row '''' 0 0 [] [],
     cfa_row '''' 0 0 [] [],
     cfa_row '''' 0 0 [] [],
     cfa_row '''' 0 0 [] []]"

definition kTable :: "DwarfCfaInfo list" where
  "kTable = kTable_00 @ kTable_10 @ kTable_2d @ [cfa_row [] 0 0 [] []]"

lemma length_kTable: "length kTable = 64"
  by (simp add: kTable_def kTable_00_def kTable_10_def kTable_2d_def)

section \<open>Frame description and register locations\<close>

datatype ArchEnum =
  ARCH_UNKNOWN | ARCH_ARM | ARCH_ARM64 | ARCH_X86 | ARCH_X86_64 | ARCH_MIPS | ARCH_MIPS64 | ARCH_RISCV64

text \<open>\<^verbatim>\<open>data_alignment_factor\<close> is an \<^verbatim>\<open>int64_t\<close>, kept as its bits.\<close>

record DwarfCie =
  cie_version :: u8
  fde_address_encoding :: u8
  lsda_encoding :: u8
  segment_size :: u8
  augmentation_string :: "u8 list"
  personality_handler :: u64
  cie_instructions_offset :: u64
  cie_instructions_end :: u64
  code_alignment_factor :: u64
  data_alignment_factor :: u64
  return_address_register :: u64
  is_signal_frame :: bool

record DwarfFde =
  cie_offset :: u64
  cfa_instructions_offset :: u64
  cfa_instructions_end :: u64
  fde_pc_start :: u64
  fde_pc_end :: u64
  lsda_address :: u64
  fde_cie :: DwarfCie

definition CFA_REG :: u32 where
  "CFA_REG = 0xffff"

definition ARM64_PREG_RA_SIGN_STATE :: u32 where
  "ARM64_PREG_RA_SIGN_STATE = 34"

datatype DwarfLocationEnum =
    DWARF_LOCATION_INVALID | DWARF_LOCATION_UNDEFINED | DWARF_LOCATION_OFFSET
  | DWARF_LOCATION_VAL_OFFSET | DWARF_LOCATION_REGISTER | DWARF_LOCATION_EXPRESSION
  | DWARF_LOCATION_VAL_EXPRESSION | DWARF_LOCATION_PSEUDO_REGISTER

text \<open>\<open>Location t v0 v1\<close> is a \<^verbatim>\<open>DwarfLocation\<close> with its two \<^verbatim>\<open>values\<close>.\<close>

datatype DwarfLocation = Location (loc_type: DwarfLocationEnum) (loc_value0: u64) (loc_value1: u64)

record DwarfLocations =
  loc_map :: "u32 \<rightharpoonup> DwarfLocation"
  loc_pc_start :: u64
  loc_pc_end :: u64

end
