(* ===== verification/Dwarf_Cfa.thy ===== *)
theory Dwarf_Cfa
  imports Dwarf_Cfa_Table Dwarf_Op
begin

text \<open>
  \<^verbatim>\<open>libunwindstack/DwarfCfa.cpp\<close>: the interpreter for call frame instructions. What a \<^verbatim>\<open>DwarfCfa\<close>
  points to and does not change is the environment (\<^verbatim>\<open>memory_\<close>'s data, \<^verbatim>\<open>fde_\<close>, \<^verbatim>\<open>arch_\<close>,
  \<^verbatim>\<open>cie_loc_regs_\<close>, \<open>None\<close> for the null pointer). The output parameter \<^verbatim>\<open>loc_regs\<close> is part of the
  state. Log messages are not modelled.
\<close>

section \<open>State\<close>

record cfa_env =
  cfa_rd :: reader
  cfa_fde :: DwarfFde
  cfa_arch :: ArchEnum
  cie_loc_regs :: "(u32 \<rightharpoonup> DwarfLocation) option"

record 'w dwarf_cfa =
  cfa_memory :: dwarf_memory
  cfa_error :: DwarfErrorData
  cfa_cur_pc :: "'w"
  cfa_operands :: "'w list"
  loc_reg_state :: "DwarfLocations list"
  loc_regs :: DwarfLocations

type_synonym 'a cfa_handler = "cfa_env \<Rightarrow> 'a word dwarf_cfa \<Rightarrow> (unit, 'a word dwarf_cfa) outcome"

abbreviation cfa_offset_of :: "'a::len word dwarf_cfa \<Rightarrow> u64" where
  "cfa_offset_of s \<equiv> cur_offset (cfa_memory s)"

definition cfa_fail :: "DwarfErrorCode \<Rightarrow> 'a::len word dwarf_cfa \<Rightarrow> (unit, 'a word dwarf_cfa) outcome" where
  "cfa_fail c s = Fail (s\<lparr>cfa_error := (cfa_error s)\<lparr>err_code := c\<rparr>\<rparr>)"

definition on_cfa_memory ::
  "(dwarf_memory \<Rightarrow> ('v, dwarf_memory) outcome) \<Rightarrow> 'a::len word dwarf_cfa \<Rightarrow> ('v, 'a word dwarf_cfa) outcome" where
  "on_cfa_memory f s =
     map_state (\<lambda>m. s\<lparr>cfa_memory := m\<rparr>)
       (\<lambda>m. s\<lparr>cfa_memory := m,
             cfa_error := \<lparr>err_code = DWARF_ERROR_MEMORY_INVALID, err_address = cur_offset m\<rparr>\<rparr>)
       (f (cfa_memory s))"

definition cfa_operand :: "nat \<Rightarrow> 'a::len word dwarf_cfa \<Rightarrow> ('a word, 'a word dwarf_cfa) outcome" where
  "cfa_operand i s = (if i < length (cfa_operands s) then Ok (cfa_operands s ! i) s else Undef UB_Bounds)"

text \<open>\<^verbatim>\<open>(*loc_regs)[reg] = loc\<close> and \<^verbatim>\<open>loc_regs->erase(reg)\<close>; the key is a \<^verbatim>\<open>uint32_t\<close>.\<close>

definition put_loc :: "u32 \<Rightarrow> DwarfLocation \<Rightarrow> 'a::len word dwarf_cfa \<Rightarrow> 'a word dwarf_cfa" where
  "put_loc reg l s = s\<lparr>loc_regs := (loc_regs s)\<lparr>loc_map := (loc_map (loc_regs s))(reg \<mapsto> l)\<rparr>\<rparr>"

definition erase_loc :: "u32 \<Rightarrow> 'a::len word dwarf_cfa \<Rightarrow> 'a word dwarf_cfa" where
  "erase_loc reg s = s\<lparr>loc_regs := (loc_regs s)\<lparr>loc_map := (loc_map (loc_regs s))(reg := None)\<rparr>\<rparr>"

text \<open>
  \<^verbatim>\<open>SignedType x = static_cast<SignedType>(v) * data_alignment_factor\<close>, then
  \<^verbatim>\<open>static_cast<uint64_t>(x)\<close>. The product is an \<^verbatim>\<open>int64_t\<close> and must not overflow.
\<close>

definition factored ::
  "cfa_env \<Rightarrow> 'a::len word \<Rightarrow> 'a word dwarf_cfa \<Rightarrow> (u64, 'a word dwarf_cfa) outcome" where
  "factored env v s =
     (let p = sint v * sint (data_alignment_factor (fde_cie (cfa_fde env)))
      in if - (2 ^ 63) \<le> p \<and> p < 2 ^ 63 then Ok (scast (word_of_int p :: 'a word)) s
         else Undef UB_Signed_Overflow)"

section \<open>Handlers\<close>

definition cfa_nop :: "'a::len cfa_handler" where
  "cfa_nop env s = Ok () s"

definition cfa_set_loc :: "'a::len cfa_handler" where
  "cfa_set_loc env s = bind_out (cfa_operand 0 s) (\<lambda>new_pc s. Ok () (s\<lparr>cfa_cur_pc := new_pc\<rparr>))"

definition advance_pc :: "cfa_env \<Rightarrow> u64 \<Rightarrow> 'a::len word dwarf_cfa \<Rightarrow> 'a word dwarf_cfa" where
  "advance_pc env delta s =
     s\<lparr>cfa_cur_pc := cfa_cur_pc s + ucast (delta * code_alignment_factor (fde_cie (cfa_fde env)))\<rparr>"

definition cfa_advance_loc :: "'a::len cfa_handler" where
  "cfa_advance_loc env s = bind_out (cfa_operand 0 s) (\<lambda>d s. Ok () (advance_pc env (ucast d) s))"

definition cfa_offset :: "'a::len cfa_handler" where
  "cfa_offset env s =
     bind_out (cfa_operand 0 s) (\<lambda>reg s. bind_out (cfa_operand 1 s) (\<lambda>v s.
       Ok () (put_loc (ucast reg) (Location DWARF_LOCATION_OFFSET (ucast v) 0) s)))"

definition restore_reg :: "u32 \<Rightarrow> 'a::len cfa_handler" where
  "restore_reg reg env s =
     (case cie_loc_regs env of
        None \<Rightarrow> cfa_fail DWARF_ERROR_ILLEGAL_STATE s
      | Some cie \<Rightarrow> (case cie reg of
          None \<Rightarrow> Ok () (erase_loc reg s)
        | Some l \<Rightarrow> Ok () (put_loc reg l s)))"

definition cfa_restore :: "'a::len cfa_handler" where
  "cfa_restore env s = bind_out (cfa_operand 0 s) (\<lambda>reg s. restore_reg (ucast reg) env s)"

definition cfa_undefined :: "'a::len cfa_handler" where
  "cfa_undefined env s =
     bind_out (cfa_operand 0 s) (\<lambda>reg s.
       Ok () (put_loc (ucast reg) (Location DWARF_LOCATION_UNDEFINED 0 0) s))"

definition cfa_same_value :: "'a::len cfa_handler" where
  "cfa_same_value env s = bind_out (cfa_operand 0 s) (\<lambda>reg s. Ok () (erase_loc (ucast reg) s))"

definition cfa_register :: "'a::len cfa_handler" where
  "cfa_register env s =
     bind_out (cfa_operand 0 s) (\<lambda>reg s. bind_out (cfa_operand 1 s) (\<lambda>reg_dst s.
       Ok () (put_loc (ucast reg) (Location DWARF_LOCATION_REGISTER (ucast reg_dst) 0) s)))"

text \<open>The remembered \<^verbatim>\<open>DwarfLocations\<close> include the pc range.\<close>

definition cfa_remember_state :: "'a::len cfa_handler" where
  "cfa_remember_state env s = Ok () (s\<lparr>loc_reg_state := loc_regs s # loc_reg_state s\<rparr>)"

definition cfa_restore_state :: "'a::len cfa_handler" where
  "cfa_restore_state env s =
     (case loc_reg_state s of
        [] \<Rightarrow> Ok () s
      | saved # rest \<Rightarrow> Ok () (s\<lparr>loc_regs := saved, loc_reg_state := rest\<rparr>))"

definition cfa_def_cfa :: "'a::len cfa_handler" where
  "cfa_def_cfa env s =
     bind_out (cfa_operand 0 s) (\<lambda>reg s. bind_out (cfa_operand 1 s) (\<lambda>off s.
       Ok () (put_loc CFA_REG (Location DWARF_LOCATION_REGISTER (ucast reg) (ucast off)) s)))"

text \<open>Changing one of the \<^verbatim>\<open>values\<close> of a CFA location that is a register.\<close>

definition change_cfa :: "(DwarfLocation \<Rightarrow> DwarfLocation) \<Rightarrow> 'a::len word dwarf_cfa \<Rightarrow> (unit, 'a word dwarf_cfa) outcome" where
  "change_cfa f s =
     (case loc_map (loc_regs s) CFA_REG of
        None \<Rightarrow> cfa_fail DWARF_ERROR_ILLEGAL_STATE s
      | Some l \<Rightarrow> if loc_type l \<noteq> DWARF_LOCATION_REGISTER then cfa_fail DWARF_ERROR_ILLEGAL_STATE s
                 else Ok () (put_loc CFA_REG (f l) s))"

definition set_value0 :: "u64 \<Rightarrow> DwarfLocation \<Rightarrow> DwarfLocation" where
  "set_value0 v l = Location (loc_type l) v (loc_value1 l)"

definition set_value1 :: "u64 \<Rightarrow> DwarfLocation \<Rightarrow> DwarfLocation" where
  "set_value1 v l = Location (loc_type l) (loc_value0 l) v"

definition cfa_is_register :: "'a::len word dwarf_cfa \<Rightarrow> bool" where
  "cfa_is_register s =
     (case loc_map (loc_regs s) CFA_REG of
        None \<Rightarrow> False | Some l \<Rightarrow> loc_type l = DWARF_LOCATION_REGISTER)"

definition cfa_def_cfa_register :: "'a::len cfa_handler" where
  "cfa_def_cfa_register env s =
     (if \<not> cfa_is_register s then cfa_fail DWARF_ERROR_ILLEGAL_STATE s
      else bind_out (cfa_operand 0 s) (\<lambda>reg s. change_cfa (set_value0 (ucast reg)) s))"

definition cfa_def_cfa_offset :: "'a::len cfa_handler" where
  "cfa_def_cfa_offset env s =
     (if \<not> cfa_is_register s then cfa_fail DWARF_ERROR_ILLEGAL_STATE s
      else bind_out (cfa_operand 0 s) (\<lambda>off s. change_cfa (set_value1 (ucast off)) s))"

definition cfa_def_cfa_expression :: "'a::len cfa_handler" where
  "cfa_def_cfa_expression env s =
     bind_out (cfa_operand 0 s) (\<lambda>len s.
       Ok () (put_loc CFA_REG (Location DWARF_LOCATION_VAL_EXPRESSION (ucast len) (cfa_offset_of s)) s))"

definition cfa_expression :: "'a::len cfa_handler" where
  "cfa_expression env s =
     bind_out (cfa_operand 0 s) (\<lambda>reg s. bind_out (cfa_operand 1 s) (\<lambda>len s.
       Ok () (put_loc (ucast reg) (Location DWARF_LOCATION_EXPRESSION (ucast len) (cfa_offset_of s)) s)))"

definition cfa_offset_extended_sf :: "'a::len cfa_handler" where
  "cfa_offset_extended_sf env s =
     bind_out (cfa_operand 0 s) (\<lambda>reg s. bind_out (cfa_operand 1 s) (\<lambda>v s.
       bind_out (factored env v s) (\<lambda>off s.
         Ok () (put_loc (ucast reg) (Location DWARF_LOCATION_OFFSET off 0) s))))"

definition cfa_def_cfa_sf :: "'a::len cfa_handler" where
  "cfa_def_cfa_sf env s =
     bind_out (cfa_operand 1 s) (\<lambda>v s. bind_out (factored env v s) (\<lambda>off s.
       bind_out (cfa_operand 0 s) (\<lambda>reg s.
         Ok () (put_loc CFA_REG (Location DWARF_LOCATION_REGISTER (ucast reg) off) s))))"

definition cfa_def_cfa_offset_sf :: "'a::len cfa_handler" where
  "cfa_def_cfa_offset_sf env s =
     (if \<not> cfa_is_register s then cfa_fail DWARF_ERROR_ILLEGAL_STATE s
      else bind_out (cfa_operand 0 s) (\<lambda>v s.
        bind_out (factored env v s) (\<lambda>off s. change_cfa (set_value1 off) s)))"

definition cfa_val_offset :: "'a::len cfa_handler" where
  "cfa_val_offset env s =
     bind_out (cfa_operand 0 s) (\<lambda>reg s. bind_out (cfa_operand 1 s) (\<lambda>v s.
       bind_out (factored env v s) (\<lambda>off s.
         Ok () (put_loc (ucast reg) (Location DWARF_LOCATION_VAL_OFFSET off 0) s))))"

definition cfa_val_offset_sf :: "'a::len cfa_handler" where
  "cfa_val_offset_sf env s =
     bind_out (cfa_operand 0 s) (\<lambda>reg s. bind_out (cfa_operand 1 s) (\<lambda>v s.
       bind_out (factored env v s) (\<lambda>off s.
         Ok () (put_loc (ucast reg) (Location DWARF_LOCATION_VAL_OFFSET off 0) s))))"

definition cfa_val_expression :: "'a::len cfa_handler" where
  "cfa_val_expression env s =
     bind_out (cfa_operand 0 s) (\<lambda>reg s. bind_out (cfa_operand 1 s) (\<lambda>len s.
       Ok () (put_loc (ucast reg) (Location DWARF_LOCATION_VAL_EXPRESSION (ucast len) (cfa_offset_of s)) s)))"

definition cfa_gnu_negative_offset_extended :: "'a::len cfa_handler" where
  "cfa_gnu_negative_offset_extended env s =
     bind_out (cfa_operand 0 s) (\<lambda>reg s. bind_out (cfa_operand 1 s) (\<lambda>v s.
       if v = signed_min then Undef UB_Signed_Overflow
       else Ok () (put_loc (ucast reg) (Location DWARF_LOCATION_OFFSET (scast (- v)) 0) s)))"

definition cfa_aarch64_negate_ra_state :: "'a::len cfa_handler" where
  "cfa_aarch64_negate_ra_state env s =
     (if cfa_arch env \<noteq> ARCH_ARM64 then cfa_fail DWARF_ERROR_ILLEGAL_VALUE s
      else case loc_map (loc_regs s) ARM64_PREG_RA_SIGN_STATE of
        None \<Rightarrow> Ok () (put_loc ARM64_PREG_RA_SIGN_STATE (Location DWARF_LOCATION_PSEUDO_REGISTER 1 0) s)
      | Some l \<Rightarrow> Ok () (put_loc ARM64_PREG_RA_SIGN_STATE (set_value0 (loc_value0 l XOR 1) l) s))"

section \<open>The interpreter loop\<close>

text \<open>\<^verbatim>\<open>kCallbackTable\<close> of \<^verbatim>\<open>DwarfCfa.h\<close>; \<open>None\<close> is a null pointer.\<close>

definition cfa_callbacks :: "'a::len cfa_handler option list" where
  "cfa_callbacks =
     [Some cfa_nop, Some cfa_set_loc, Some cfa_advance_loc, Some cfa_advance_loc,
      Some cfa_advance_loc, Some cfa_offset, Some cfa_restore, Some cfa_undefined,
      Some cfa_same_value, Some cfa_register, Some cfa_remember_state, Some cfa_restore_state,
      Some cfa_def_cfa, Some cfa_def_cfa_register, Some cfa_def_cfa_offset,
      Some cfa_def_cfa_expression, Some cfa_expression, Some cfa_offset_extended_sf,
      Some cfa_def_cfa_sf, Some cfa_def_cfa_offset_sf, Some cfa_val_offset, Some cfa_val_offset_sf,
      Some cfa_val_expression]
     @ replicate 22 None
     @ [Some cfa_aarch64_negate_ra_state, Some cfa_nop, Some cfa_gnu_negative_offset_extended]
     @ replicate 16 None"

text \<open>The operand loop of an instruction without operands in its opcode.\<close>

fun read_cfa_operands :: "cfa_env \<Rightarrow> u8 list \<Rightarrow> 'a::len word dwarf_cfa \<Rightarrow> (unit, 'a word dwarf_cfa) outcome" where
  "read_cfa_operands env [] s = Ok () s"
| "read_cfa_operands env (e # es) s =
     (if e = DW_EH_PE_block then
        bind_out (on_cfa_memory (ReadULEB128 (cfa_rd env)) s) (\<lambda>block_length s.
          read_cfa_operands env es
            (s\<lparr>cfa_operands := cfa_operands s @ [ucast block_length],
               cfa_memory := (cfa_memory s)\<lparr>cur_offset := cfa_offset_of s + block_length\<rparr>\<rparr>))
      else
        bind_out (on_cfa_memory (ReadEncodedValue (addr_size TYPE('a)) (cfa_rd env) e) s) (\<lambda>v s.
          read_cfa_operands env es (s\<lparr>cfa_operands := cfa_operands s @ [ucast v]\<rparr>)))"

text \<open>The four cases of the \<^verbatim>\<open>switch\<close> on the two high bits of the opcode.\<close>

definition cfa_switch :: "u8 \<Rightarrow> 'a::len cfa_handler" where
  "cfa_switch cfa_value env s =
     (let cfa_low = cfa_value AND 0x3f; high = drop_bit 6 cfa_value
      in if high = 1 then Ok () (advance_pc env (ucast cfa_low) s)
         else if high = 2 then
           bind_out (on_cfa_memory (ReadULEB128 (cfa_rd env)) s) (\<lambda>offset s.
             bind_out (factored env (ucast offset) s) (\<lambda>off s.
               Ok () (put_loc (ucast cfa_low) (Location DWARF_LOCATION_OFFSET off 0) s)))
         else if high = 3 then restore_reg (ucast cfa_low) env s
         else case cfa_callbacks ! unat cfa_low of
           None \<Rightarrow> cfa_fail DWARF_ERROR_ILLEGAL_VALUE s
         | Some handler \<Rightarrow>
             let cfa = kTable ! unat cfa_low
             in bind_out
                  (read_cfa_operands env (take (cfa_num_operands cfa) (cfa_operand_encodings cfa)) s)
                  (\<lambda>_ s. handler env s))"

text \<open>One pass through the loop behind its two exits.\<close>

definition cfa_instruction :: "'a::len cfa_handler" where
  "cfa_instruction env s =
     bind_out (on_cfa_memory (ReadBytes (cfa_rd env) 1)
         (s\<lparr>loc_regs := (loc_regs s)\<lparr>loc_pc_start := ucast (cfa_cur_pc s)\<rparr>, cfa_operands := []\<rparr>))
       (\<lambda>bs s. cfa_switch (hd bs) env s)"

definition set_pc_end :: "u64 \<Rightarrow> 'a::len word dwarf_cfa \<Rightarrow> 'a word dwarf_cfa" where
  "set_pc_end a s = s\<lparr>loc_regs := (loc_regs s)\<lparr>loc_pc_end := a\<rparr>\<rparr>"

text \<open>The \<^verbatim>\<open>while (true)\<close>; \<open>None\<close> is a loop that does not end.\<close>

partial_function (option) cfa_loop ::
  "cfa_env \<Rightarrow> u64 \<Rightarrow> u64 \<Rightarrow> 'a::len word dwarf_cfa \<Rightarrow> (unit, 'a word dwarf_cfa) outcome option" where
  "cfa_loop env pc end_offset s =
     (if pc < ucast (cfa_cur_pc s) then Some (Ok () (set_pc_end (ucast (cfa_cur_pc s)) s))
      else if end_offset \<le> cfa_offset_of s
      then Some (Ok () (set_pc_end (fde_pc_end (cfa_fde env)) s))
      else case cfa_instruction env s of
          Ok _ t \<Rightarrow> cfa_loop env pc end_offset t
        | Fail t \<Rightarrow> Some (Fail t)
        | Abort \<Rightarrow> Some Abort
        | Undef k \<Rightarrow> Some (Undef k))"

declare cfa_loop.simps [code]

definition cfa_start :: "u64 \<Rightarrow> cfa_env \<Rightarrow> 'a::len word dwarf_cfa \<Rightarrow> 'a word dwarf_cfa" where
  "cfa_start start_offset env s =
     (let m = loc_map (loc_regs s)
      in s\<lparr>cfa_error := \<lparr>err_code = DWARF_ERROR_NONE, err_address = 0\<rparr>,
           cfa_memory := (cfa_memory s)\<lparr>cur_offset := start_offset\<rparr>,
           cfa_cur_pc := ucast (fde_pc_start (cfa_fde env)),
           loc_regs := (loc_regs s)
             \<lparr>loc_map := (case cie_loc_regs env of None \<Rightarrow> m | Some cie \<Rightarrow> m ++ cie),
              loc_pc_start := ucast (ucast (fde_pc_start (cfa_fde env)) :: 'a word)\<rparr>\<rparr>)"

definition GetLocationInfo ::
  "u64 \<Rightarrow> u64 \<Rightarrow> u64 \<Rightarrow> cfa_env \<Rightarrow> 'a::len word dwarf_cfa \<Rightarrow> (unit, 'a word dwarf_cfa) outcome option" where
  "GetLocationInfo pc start_offset end_offset env s =
     cfa_loop env pc end_offset (cfa_start start_offset env s)"

end
