(* ===== verification/Cfi_Refine.thy ===== *)
theory Cfi_Refine
  imports Cfi_Spec
begin

text \<open>
  \<^verbatim>\<open>DwarfCfa::GetLocationInfo\<close> refines the specification of call frame information: the interpreter
  loop, run on encoded instructions, goes through the rows the specification gives.
\<close>

section \<open>Decoding\<close>

lemma table_operands:
  "map (\<lambda>cfa. take (cfa_num_operands cfa) (cfa_operand_encodings cfa)) kTable =
     [[], [DW_EH_PE_absptr], [DW_EH_PE_udata1], [DW_EH_PE_udata2], [DW_EH_PE_udata4],
      [DW_EH_PE_uleb128, DW_EH_PE_uleb128], [DW_EH_PE_uleb128], [DW_EH_PE_uleb128],
      [DW_EH_PE_uleb128], [DW_EH_PE_uleb128, DW_EH_PE_uleb128], [], [],
      [DW_EH_PE_uleb128, DW_EH_PE_uleb128], [DW_EH_PE_uleb128], [DW_EH_PE_uleb128],
      [DW_EH_PE_block], [DW_EH_PE_uleb128, DW_EH_PE_block], [DW_EH_PE_uleb128, DW_EH_PE_sleb128],
      [DW_EH_PE_uleb128, DW_EH_PE_sleb128], [DW_EH_PE_sleb128],
      [DW_EH_PE_uleb128, DW_EH_PE_uleb128], [DW_EH_PE_uleb128, DW_EH_PE_sleb128],
      [DW_EH_PE_uleb128, DW_EH_PE_block]] @ replicate 22 [] @
     [[], [DW_EH_PE_uleb128], [DW_EH_PE_uleb128, DW_EH_PE_uleb128]] @ replicate 16 []"
  (is "_ = ?es")
  by code_simp

lemma kTable_operands:
  assumes "insn_parts i = Some (opcode, os)"
  shows "opcode < 64"
    and "take (cfa_num_operands (kTable ! opcode)) (cfa_operand_encodings (kTable ! opcode)) =
      map operand_encoding os"
proof -
  show 64: "opcode < 64"
    using assms by (cases i) auto
  then have "take (cfa_num_operands (kTable ! opcode)) (cfa_operand_encodings (kTable ! opcode)) =
      map (\<lambda>cfa. take (cfa_num_operands cfa) (cfa_operand_encodings cfa)) kTable ! opcode"
    by (simp add: length_kTable)
  also have "\<dots> = map operand_encoding os"
    unfolding table_operands using assms by (cases i) (auto simp: nth_append)
  finally show "take (cfa_num_operands (kTable ! opcode)) (cfa_operand_encodings (kTable ! opcode)) =
      map operand_encoding os" .
qed

lemma opcode_bits:
  assumes "n < 64"
  shows "drop_bit 6 (of_nat n :: u8) = 0" and "unat ((of_nat n :: u8) AND 0x3f) = n"
    and "drop_bit 6 (of_nat (0x40 + n) :: u8) = 1" and "(of_nat (0x40 + n) :: u8) AND 0x3f = of_nat n"
    and "drop_bit 6 (of_nat (0x80 + n) :: u8) = 2" and "(of_nat (0x80 + n) :: u8) AND 0x3f = of_nat n"
    and "drop_bit 6 (of_nat (0xc0 + n) :: u8) = 3" and "(of_nat (0xc0 + n) :: u8) AND 0x3f = of_nat n"
proof -
  have "\<forall>n < 64. drop_bit 6 (of_nat n :: u8) = 0 \<and> unat ((of_nat n :: u8) AND 0x3f) = n
      \<and> drop_bit 6 (of_nat (0x40 + n) :: u8) = 1 \<and> (of_nat (0x40 + n) :: u8) AND 0x3f = of_nat n
      \<and> drop_bit 6 (of_nat (0x80 + n) :: u8) = 2 \<and> (of_nat (0x80 + n) :: u8) AND 0x3f = of_nat n
      \<and> drop_bit 6 (of_nat (0xc0 + n) :: u8) = 3 \<and> (of_nat (0xc0 + n) :: u8) AND 0x3f = of_nat n"
    by code_simp
  with assms show "drop_bit 6 (of_nat n :: u8) = 0" and "unat ((of_nat n :: u8) AND 0x3f) = n"
    and "drop_bit 6 (of_nat (0x40 + n) :: u8) = 1" and "(of_nat (0x40 + n) :: u8) AND 0x3f = of_nat n"
    and "drop_bit 6 (of_nat (0x80 + n) :: u8) = 2" and "(of_nat (0x80 + n) :: u8) AND 0x3f = of_nat n"
    and "drop_bit 6 (of_nat (0xc0 + n) :: u8) = 3" and "(of_nat (0xc0 + n) :: u8) AND 0x3f = of_nat n"
    by blast+
qed

lemma ucast_of_nat_byte: "n < 64 \<Longrightarrow> (ucast (of_nat n :: u8) :: 'a::len word) = of_nat n"
proof -
  assume "n < 64"
  then have "unat (of_nat n :: u8) = n" by (simp add: unat_of_nat)
  then show ?thesis by (metis of_nat_unat)
qed

section \<open>Reading operands\<close>

lemma operand_form_operand:
  assumes "operand_ok x" and "0 < asz" and "\<And>bs. x \<noteq> Block bs"
  shows "operand_form asz (operand_encoding x) (operand_value asz x) (operand_bytes asz x)"
proof (cases x)
  case (U1 v)
  then show ?thesis by (simp add: operand_form_byte)
next
  case (U2 v)
  have "unat v < 65536" using unat_bound [of v] by simp
  then have "of_nat (unat v mod 256 ^ 2) = (ucast v :: u64)" by simp
  with U2 show ?thesis
    by (auto simp: operand_form_def GetEncodedSize_def format_value_def le_nat_to_le
        simp flip: length_0_conv)
next
  case (U4 v)
  have "unat v < 4294967296" using unat_bound [of v] by simp
  then have "of_nat (unat v mod 256 ^ 4) = (ucast v :: u64)" by simp
  with U4 show ?thesis
    by (auto simp: operand_form_def GetEncodedSize_def format_value_def le_nat_to_le
        simp flip: length_0_conv)
next
  case (Addr v)
  with assms(2) show ?thesis
    by (auto simp: operand_form_def GetEncodedSize_def format_value_def le_nat_to_le
        simp flip: length_0_conv)
qed (use assms in \<open>auto simp: operand_form_def\<close>)

text \<open>The state once the opcode and operands of \<open>n\<close> bytes are read.\<close>

definition cfa_fetch :: "nat \<Rightarrow> 'a::len word list \<Rightarrow> 'a word dwarf_cfa \<Rightarrow> 'a word dwarf_cfa" where
  "cfa_fetch n vs s =
     s\<lparr>cfa_operands := cfa_operands s @ vs,
       cfa_memory := (cfa_memory s)\<lparr>cur_offset := cfa_offset_of s + of_nat n\<rparr>\<rparr>"

lemma cfa_fetch_fetch [simp]: "cfa_fetch n vs (cfa_fetch k ws s) = cfa_fetch (k + n) (ws @ vs) s"
  by (simp add: cfa_fetch_def add.assoc)

lemma cfa_fetch_offset [simp]: "cfa_offset_of (cfa_fetch n vs s) = cfa_offset_of s + of_nat n"
  by (simp add: cfa_fetch_def)

lemma cfa_fetch_0 [simp]: "cfa_fetch 0 [] s = s"
  by (simp add: cfa_fetch_def)

lemma memory_operands_commute:
  "s\<lparr>cfa_memory := m, cfa_operands := vs\<rparr> = s\<lparr>cfa_operands := vs, cfa_memory := m\<rparr>"
  by simp

lemma read_cfa_operand:
  fixes s :: "'a::len word dwarf_cfa"
  assumes mem: "flat_memory (cfa_rd env) m" and asz: "0 < addr_size TYPE('a)" and ok: "operand_ok x"
    and at: "bytes_at m (cfa_offset_of s) (operand_bytes (addr_size TYPE('a)) x)"
  shows "read_cfa_operands env (operand_encoding x # es) s =
    read_cfa_operands env es (cfa_fetch (length (operand_bytes (addr_size TYPE('a)) x))
      [ucast (operand_value (addr_size TYPE('a)) x)] s)"
proof (cases "\<exists>bs. x = Block bs")
  case True
  then obtain bs where x: "x = Block bs" by blast
  let ?n = "length (uleb_encode (length bs))"
  have len: "unat (of_nat (length bs) :: u64) = length bs"
    using ok x by (simp add: unat_of_nat)
  have "ReadULEB128 (cfa_rd env) (cfa_memory s) =
      Ok (of_nat (length bs)) ((cfa_memory s)\<lparr>cur_offset := cfa_offset_of s + of_nat ?n\<rparr>)"
    using flat_memory.ReadULEB128_at [OF mem, of "cfa_memory s" "of_nat (length bs)"] at x len by simp
  then show ?thesis
    using x by (simp add: on_cfa_memory_def cfa_fetch_def add.assoc)
next
  case False
  then have "operand_encoding x \<noteq> DW_EH_PE_block" by (cases x) auto
  moreover have "operand_form (addr_size TYPE('a)) (operand_encoding x) (operand_value (addr_size TYPE('a)) x)
      (operand_bytes (addr_size TYPE('a)) x)"
    using False ok asz by (intro operand_form_operand) auto
  ultimately show ?thesis
    using ReadEncodedValue_operand [OF mem _ at]
    by (simp add: on_cfa_memory_def cfa_fetch_def memory_operands_commute)
qed

lemma read_cfa_operands_all:
  fixes s :: "'a::len word dwarf_cfa"
  assumes "flat_memory (cfa_rd env) m" and "0 < addr_size TYPE('a)" and "list_all operand_ok xs"
    and "bytes_at m (cfa_offset_of s) (concat (map (operand_bytes (addr_size TYPE('a))) xs))"
  shows "read_cfa_operands env (map operand_encoding xs) s =
    Ok () (cfa_fetch (length (concat (map (operand_bytes (addr_size TYPE('a))) xs)))
      (map (ucast \<circ> operand_value (addr_size TYPE('a))) xs) s)"
  using assms(3-)
proof (induction xs arbitrary: s)
  case Nil
  then show ?case by simp
next
  case (Cons x xs)
  then show ?case
    using read_cfa_operand [OF assms(1,2), of x s "map operand_encoding xs"] by simp
qed

section \<open>One instruction\<close>

definition cfa_begin :: "'a::len word dwarf_cfa \<Rightarrow> 'a word dwarf_cfa" where
  "cfa_begin s =
     s\<lparr>loc_regs := (loc_regs s)\<lparr>loc_pc_start := ucast (cfa_cur_pc s)\<rparr>, cfa_operands := []\<rparr>"

text \<open>The outcome \<open>r\<close> of an interpreter step agrees with the specified effect \<open>e\<close>.\<close>

definition agrees :: "'a::len word cfi option \<Rightarrow> u64 \<Rightarrow> (unit, 'a word dwarf_cfa) outcome \<Rightarrow> bool" where
  "agrees e pos r \<longleftrightarrow>
     (case e of
        Some c \<Rightarrow> (\<exists>t. r = Ok () t \<and> cfi_of t = c \<and> cfa_offset_of t = pos)
      | None \<Rightarrow> (\<forall>u t. r \<noteq> Ok u t))"

lemma agrees_simps [simp]:
  "agrees (Some c) pos (Ok () t) \<longleftrightarrow> cfi_of t = c \<and> cfa_offset_of t = pos"
  "agrees None pos (Fail t)" "agrees None pos (Undef k)" "\<not> agrees None pos (Ok u t)"
  by (auto simp: agrees_def)

lemma cfi_of_fetch [simp]: "cfi_of (cfa_fetch n vs (cfa_begin s)) = cfi_of s"
  by (simp add: cfi_of_def cfa_fetch_def cfa_begin_def)

lemma fetch_simps [simp]:
  "cfa_operands (cfa_fetch n vs (cfa_begin s)) = vs"
  "loc_map (loc_regs (cfa_fetch n vs (cfa_begin s))) = loc_map (loc_regs s)"
  "cfa_offset_of (cfa_begin s) = cfa_offset_of s"
  "loc_reg_state (cfa_fetch n vs (cfa_begin s)) = loc_reg_state s"
  "cfa_cur_pc (cfa_fetch n vs (cfa_begin s)) = cfa_cur_pc s"
  by (simp_all add: cfa_fetch_def cfa_begin_def)

lemma cfi_of_put [simp]: "cfi_of (put_loc r l s) = set_rule r l (cfi_of s)"
  and offset_put [simp]: "cfa_offset_of (put_loc r l s) = cfa_offset_of s"
  and cfi_of_erase [simp]: "cfi_of (erase_loc r s) = no_rule r (cfi_of s)"
  and offset_erase [simp]: "cfa_offset_of (erase_loc r s) = cfa_offset_of s"
  and cfi_of_advance [simp]: "cfi_of (advance_pc env d s) = advance env d (cfi_of s)"
  and offset_advance [simp]: "cfa_offset_of (advance_pc env d s) = cfa_offset_of s"
  by (simp_all add: cfi_of_def put_loc_def erase_loc_def advance_pc_def set_rule_def no_rule_def
      advance_def)

lemma rules_cfi_of [simp]: "rules (cfi_of s) = loc_map (loc_regs s)"
  and remembered_cfi_of [simp]: "remembered (cfi_of s) = map loc_map (loc_reg_state s)"
  and location_cfi_of [simp]: "location (cfi_of s) = cfa_cur_pc s"
  by (simp_all add: cfi_of_def)

lemma factored_scaled:
  "factored env v s = (case scaled env v of Some x \<Rightarrow> Ok x s | None \<Rightarrow> Undef UB_Signed_Overflow)"
  by (simp add: factored_def scaled_def Let_def)

lemma restore_agrees: "agrees (initial_rule env r (cfi_of s)) (cfa_offset_of s) (restore_reg r env s)"
  by (auto simp: initial_rule_def restore_reg_def cfa_fail_def set_rule_def no_rule_def
      split: option.split)

lemma change_cfa_agrees:
  "\<not> cfa_is_register s \<Longrightarrow> cfa_rule (cfi_of s) = None"
  "cfa_is_register s \<Longrightarrow> \<exists>r n. cfa_rule (cfi_of s) = Some (r, n)
     \<and> (\<forall>v. change_cfa (set_value0 v) s =
            Ok () (put_loc CFA_REG (Location DWARF_LOCATION_REGISTER v n) s))
     \<and> (\<forall>v. change_cfa (set_value1 v) s =
            Ok () (put_loc CFA_REG (Location DWARF_LOCATION_REGISTER r v) s))"
  by (auto simp: cfa_is_register_def cfa_rule_def change_cfa_def set_value0_def set_value1_def
      split: option.splits DwarfLocation.splits DwarfLocationEnum.splits)

lemmas cfa_handler_defs =
  cfa_nop_def cfa_set_loc_def cfa_advance_loc_def cfa_offset_def cfa_restore_def cfa_undefined_def
  cfa_same_value_def cfa_register_def cfa_remember_state_def cfa_restore_state_def cfa_def_cfa_def
  cfa_def_cfa_register_def cfa_def_cfa_offset_def cfa_def_cfa_expression_def cfa_expression_def
  cfa_offset_extended_sf_def cfa_def_cfa_sf_def cfa_def_cfa_offset_sf_def cfa_val_offset_def
  cfa_val_offset_sf_def cfa_val_expression_def cfa_gnu_negative_offset_extended_def
  cfa_aarch64_negate_ra_state_def

text \<open>The handler of an opcode.\<close>

definition insn_handler :: "nat \<Rightarrow> 'a::len cfa_handler" where
  "insn_handler opcode = the (cfa_callbacks ! opcode)"

lemma cfa_callback:
  "insn_parts i = Some (opcode, os) \<Longrightarrow> cfa_callbacks ! opcode = Some (insn_handler opcode)"
  by (cases i) (auto simp: insn_handler_def cfa_callbacks_def nth_append)

lemma insn_handlers:
  "insn_handler 0x00 = cfa_nop" "insn_handler 0x01 = cfa_set_loc" "insn_handler 0x02 = cfa_advance_loc"
  "insn_handler 0x03 = cfa_advance_loc" "insn_handler 0x04 = cfa_advance_loc"
  "insn_handler 0x05 = cfa_offset" "insn_handler 0x06 = cfa_restore" "insn_handler 0x07 = cfa_undefined"
  "insn_handler 0x08 = cfa_same_value" "insn_handler 0x09 = cfa_register"
  "insn_handler 0x0a = cfa_remember_state" "insn_handler 0x0b = cfa_restore_state"
  "insn_handler 0x0c = cfa_def_cfa" "insn_handler 0x0d = cfa_def_cfa_register"
  "insn_handler 0x0e = cfa_def_cfa_offset" "insn_handler 0x0f = cfa_def_cfa_expression"
  "insn_handler 0x10 = cfa_expression" "insn_handler 0x11 = cfa_offset_extended_sf"
  "insn_handler 0x12 = cfa_def_cfa_sf" "insn_handler 0x13 = cfa_def_cfa_offset_sf"
  "insn_handler 0x14 = cfa_val_offset" "insn_handler 0x15 = cfa_val_offset_sf"
  "insn_handler 0x16 = cfa_val_expression" "insn_handler 0x2d = cfa_aarch64_negate_ra_state"
  "insn_handler 0x2e = cfa_nop" "insn_handler 0x2f = cfa_gnu_negative_offset_extended"
  by (simp_all add: insn_handler_def cfa_callbacks_def nth_append)

lemma insn_handlers_1: "insn_handler (Suc 0) = cfa_set_loc"
  using insn_handlers(2) by simp

lemma handler_agrees:
  fixes s :: "'a::len word dwarf_cfa"
  assumes "insn_parts i = Some (opcode, os)"
    and "cfa_operands s = map (ucast \<circ> operand_value (addr_size TYPE('a))) os"
  shows "agrees (insn_effect env (cfa_offset_of s) i (cfi_of s)) (cfa_offset_of s)
    (insn_handler opcode env s)"
  using assms
proof (cases i)
  case (RestoreExtended r)
  with assms show ?thesis
    using restore_agrees [of env _ s] by (auto simp: insn_handlers cfa_restore_def cfa_operand_def)
next
  case (DefCfaRegister r)
  with assms show ?thesis
    using change_cfa_agrees [of s]
    by (cases "cfa_is_register s")
      (auto simp: insn_handlers cfa_def_cfa_register_def cfa_operand_def cfa_fail_def set_cfa_def)
next
  case (DefCfaOffset n)
  with assms show ?thesis
    using change_cfa_agrees [of s]
    by (cases "cfa_is_register s")
      (auto simp: insn_handlers cfa_def_cfa_offset_def cfa_operand_def cfa_fail_def set_cfa_def)
next
  case (DefCfaOffsetSf n)
  with assms show ?thesis
    using change_cfa_agrees [of s]
    by (cases "cfa_is_register s")
      (auto simp: insn_handlers cfa_def_cfa_offset_sf_def cfa_operand_def cfa_fail_def set_cfa_def
        factored_scaled split: option.split)
next
  case RestoreState
  with assms show ?thesis
    by (auto simp: insn_handlers cfa_restore_state_def cfi_of_def split: list.split)
next
  case RememberState
  with assms show ?thesis
    by (auto simp: insn_handlers cfa_remember_state_def cfi_of_def)
next
  case (SetLoc a)
  let ?x = "unat a mod 256 ^ addr_size TYPE('a)"
  have "?x < 2 ^ 64"
    using le_less_trans [OF mod_less_eq_dividend unat_bound [of a]] by simp
  then have "unat (of_nat ?x :: u64) = ?x" by (simp add: unat_of_nat)
  then have "(ucast (of_nat ?x :: u64) :: 'a word) = of_nat ?x" by (metis of_nat_unat)
  with SetLoc assms show ?thesis
    by (auto simp: insn_handlers_1 cfa_set_loc_def cfa_operand_def cfi_of_def)
qed (auto simp: insn_handlers insn_handlers_1 cfa_handler_defs cfa_operand_def factored_scaled
      set_cfa_def cfa_fail_def set_value0_def
    split: option.split DwarfLocation.split)

lemma insn_bytes_parts:
  "insn_parts i = Some (opcode, os) \<Longrightarrow>
   insn_bytes asz i = of_nat opcode # concat (map (operand_bytes asz) os)"
  "insn_parts i = Some (opcode, os) \<Longrightarrow> insn_ok i \<longleftrightarrow> list_all operand_ok os"
  by (cases i; auto)+

lemma cfa_instruction_at:
  assumes "flat_memory (cfa_rd env) m" and "m (cfa_offset_of s) = Some b"
  shows "cfa_instruction env s = cfa_switch b env (cfa_fetch 1 [] (cfa_begin s))"
proof -
  have "ReadBytes (cfa_rd env) (Suc 0) (cfa_memory s) =
      Ok [b] ((cfa_memory s)\<lparr>cur_offset := cfa_offset_of s + 1\<rparr>)"
    using flat_memory.ReadBytes1_at [OF assms] .
  then show ?thesis
    by (simp add: cfa_instruction_def on_cfa_memory_def cfa_fetch_def cfa_begin_def)
qed

lemma primary_agrees:
  fixes s :: "'a::len word dwarf_cfa"
  assumes mem: "flat_memory (cfa_rd env) m" and "insn_parts i = None" and ok: "insn_ok i"
    and at: "bytes_at m (cfa_offset_of s) (insn_bytes asz i)"
  shows "agrees (insn_effect env (cfa_offset_of s + of_nat (length (insn_bytes asz i))) i (cfi_of s))
    (cfa_offset_of s + of_nat (length (insn_bytes asz i))) (cfa_instruction env s)"
  using assms(2)
proof (cases i)
  case (Advance n)
  with ok at show ?thesis
    by (simp add: cfa_instruction_at [OF mem] cfa_switch_def opcode_bits ucast_of_nat_byte
        del: of_nat_add)
next
  case (Restore r)
  with ok at show ?thesis
    using restore_agrees [of env "of_nat r" "cfa_fetch 1 [] (cfa_begin s)"]
    by (simp add: cfa_instruction_at [OF mem] cfa_switch_def opcode_bits ucast_of_nat_byte
        del: of_nat_add)
next
  case (Offset r n)
  let ?s = "cfa_fetch 1 [] (cfa_begin s)"
  have "on_cfa_memory (ReadULEB128 (cfa_rd env)) ?s = Ok n (cfa_fetch (length (uleb_encode (unat n))) [] ?s)"
    using flat_memory.ReadULEB128_at [OF mem, of "cfa_memory ?s" n] at Offset
    by (simp add: on_cfa_memory_def cfa_fetch_def cfa_begin_def)
  with ok at Offset show ?thesis
    by (simp add: cfa_instruction_at [OF mem] cfa_switch_def opcode_bits ucast_of_nat_byte factored_scaled
        del: of_nat_add split: option.split)
qed auto

lemma cfa_instruction_parts:
  fixes s :: "'a::len word dwarf_cfa"
  defines "asz \<equiv> addr_size TYPE('a)"
  assumes mem: "flat_memory (cfa_rd env) m" and asz: "0 < addr_size TYPE('a)" and ok: "insn_ok i"
    and at: "bytes_at m (cfa_offset_of s) (insn_bytes asz i)" and i: "insn_parts i = Some (opcode, os)"
  shows "cfa_instruction env s =
    insn_handler opcode env (cfa_fetch (length (insn_bytes asz i))
      (map (ucast \<circ> operand_value asz) os) (cfa_begin s))"
proof -
  note bytes = insn_bytes_parts(1) [OF i, of asz]
  have "cfa_instruction env s = cfa_switch (of_nat opcode) env (cfa_fetch 1 [] (cfa_begin s))"
    using cfa_instruction_at [OF mem, of s] at bytes by simp
  then show ?thesis
    using read_cfa_operands_all [OF mem asz, of os "cfa_fetch 1 [] (cfa_begin s)"] at bytes ok
      insn_bytes_parts(2) [OF i] kTable_operands [OF i] cfa_callback [OF i, where 'a = 'a]
    by (simp add: cfa_switch_def opcode_bits asz_def)
qed

lemma insn_agrees:
  fixes s :: "'a::len word dwarf_cfa"
  defines "asz \<equiv> addr_size TYPE('a)"
  assumes mem: "flat_memory (cfa_rd env) m" and asz: "0 < addr_size TYPE('a)" and ok: "insn_ok i"
    and at: "bytes_at m (cfa_offset_of s) (insn_bytes asz i)"
  shows "agrees (insn_effect env (cfa_offset_of s + of_nat (length (insn_bytes asz i))) i (cfi_of s))
    (cfa_offset_of s + of_nat (length (insn_bytes asz i))) (cfa_instruction env s)"
proof (cases "insn_parts i")
  case None
  with mem ok at show ?thesis by (intro primary_agrees)
next
  case (Some p)
  obtain opcode os where i: "insn_parts i = Some (opcode, os)"
    using Some by (cases p) auto
  show ?thesis
    using cfa_instruction_parts [OF mem asz ok at [unfolded asz_def] i]
      handler_agrees [OF i, of "cfa_fetch (length (insn_bytes asz i))
        (map (ucast \<circ> operand_value asz) os) (cfa_begin s)" env] by (simp add: asz_def)
qed

section \<open>The loop\<close>

lemma cfa_loop_row:
  fixes s :: "'a::len word dwarf_cfa"
  defines "asz \<equiv> addr_size TYPE('a)"
  assumes mem: "flat_memory (cfa_rd env) m" and asz: "0 < addr_size TYPE('a)"
    and "list_all insn_ok is"
    and "bytes_at m (cfa_offset_of s) (concat (map (insn_bytes asz) is))"
    and "unat (cfa_offset_of s) + length (concat (map (insn_bytes asz) is)) = unat end_offset"
  shows "\<exists>r. cfa_loop env pc end_offset s = Some r \<and>
    (case cfi_row env pc (cfa_offset_of s) is (cfi_of s) of
       Some (c, pc_end) \<Rightarrow> \<exists>t. r = Ok () t \<and> cfi_of t = c \<and> loc_pc_end (loc_regs t) = pc_end
     | None \<Rightarrow> \<forall>u t. r \<noteq> Ok u t)"
  using assms(4-)
proof (induction "is" arbitrary: s)
  case Nil
  then have "end_offset \<le> cfa_offset_of s" by (simp add: word_le_nat_alt)
  then show ?case
    by (subst cfa_loop.simps) (auto simp: set_pc_end_def cfi_of_def)
next
  case (Cons i "is")
  let ?n = "length (insn_bytes asz i)" and ?pos = "cfa_offset_of s + of_nat (length (insn_bytes asz i))"
  have nonempty: "0 < length (insn_bytes asz i)"
    by (cases i) auto
  have pos: "unat ?pos = unat (cfa_offset_of s) + ?n"
    using Cons.prems(3) unat_bound [of end_offset] by (intro unat_add_of_nat) simp
  show ?case
  proof (cases "pc < ucast (cfa_cur_pc s)")
    case True
    then show ?thesis
      by (subst cfa_loop.simps) (auto simp: set_pc_end_def cfi_of_def)
  next
    case False
    have more: "\<not> end_offset \<le> cfa_offset_of s"
      using Cons.prems(3) nonempty unfolding word_le_nat_alt list.map concat.simps length_append
      by linarith
    have step: "agrees (insn_effect env ?pos i (cfi_of s)) ?pos (cfa_instruction env s)"
      unfolding asz_def using Cons.prems
      by (intro insn_agrees [OF mem asz]) (simp_all add: asz_def)
    show ?thesis
    proof (cases "insn_effect env ?pos i (cfi_of s)")
      case None
      with step False more show ?thesis
        by (subst cfa_loop.simps)
          (cases "cfa_instruction env s"; auto simp: agrees_def asz_def)
    next
      case (Some c)
      then obtain t where t: "cfa_instruction env s = Ok () t" "cfi_of t = c" "cfa_offset_of t = ?pos"
        using step by (auto simp: agrees_def)
      have "cfa_loop env pc end_offset s = cfa_loop env pc end_offset t"
        using False more t by (subst cfa_loop.simps) simp
      with Cons.IH [of t] Cons.prems t pos Some False show ?thesis
        by (simp add: asz_def)
    qed
  qed
qed

section \<open>Properties\<close>

text \<open>The row before the first instruction: the rules of the CIE over those already there.\<close>

definition initial_row :: "cfa_env \<Rightarrow> 'a::len word dwarf_cfa \<Rightarrow> 'a word cfi" where
  "initial_row env s =
     \<lparr>rules = (case cie_loc_regs env of
        None \<Rightarrow> loc_map (loc_regs s) | Some cie \<Rightarrow> loc_map (loc_regs s) ++ cie),
      location = ucast (fde_pc_start (cfa_fde env)),
      remembered = map loc_map (loc_reg_state s)\<rparr>"


text \<open>A function at 0x1000 that pushes the frame pointer and makes it the frame register.\<close>

definition prologue :: "insn list" where
  "prologue = [Advance 1, DefCfaOffset 16, Offset 6 2, Advance 3, DefCfaRegister 6, Advance 4, DefCfa 7 8]"

definition prologue_bytes :: "u8 list" where
  "prologue_bytes = [0x41, 0x0e, 0x10, 0x86, 0x02, 0x43, 0x0d, 0x06, 0x44, 0x0c, 0x07, 0x08]"

definition sample_fde :: DwarfFde where
  "sample_fde =
     \<lparr>cie_offset = 0, cfa_instructions_offset = 0, cfa_instructions_end = 12, fde_pc_start = 0x1000,
      fde_pc_end = 0x1020, lsda_address = 0,
      fde_cie = \<lparr>cie_version = 1, fde_address_encoding = 0x1b, lsda_encoding = 0, segment_size = 0,
        augmentation_string = [], personality_handler = 0, cie_instructions_offset = 0,
        cie_instructions_end = 0, code_alignment_factor = 1, data_alignment_factor = - 8,
        return_address_register = 16, is_signal_frame = False\<rparr>\<rparr>"

definition sample_cfa_env :: "u8 list \<Rightarrow> cfa_env" where
  "sample_cfa_env bs =
     \<lparr>cfa_rd = list_reader bs, cfa_fde = sample_fde, cfa_arch = ARCH_X86_64,
      cie_loc_regs = Some [CFA_REG \<mapsto> Location DWARF_LOCATION_REGISTER 7 8,
        16 \<mapsto> Location DWARF_LOCATION_OFFSET (- 8) 0]\<rparr>"

definition DwarfCfa_new :: "'a::len word dwarf_cfa" where
  "DwarfCfa_new =
     \<lparr>cfa_memory = DwarfMemory_new, cfa_error = \<lparr>err_code = DWARF_ERROR_NONE, err_address = 0\<rparr>,
      cfa_cur_pc = 0, cfa_operands = [], loc_reg_state = [],
      loc_regs = \<lparr>loc_map = Map.empty, loc_pc_start = 0, loc_pc_end = 0\<rparr>\<rparr>"


end
