(* ===== verification/Cfa_Safety.thy ===== *)
theory Cfa_Safety
  imports Cfi_Refine
begin

text \<open>
  What \<^verbatim>\<open>DwarfCfa::GetLocationInfo\<close> does on arbitrary bytes: it stays inside its containers, it may
  not end, and the pc range it reports may be too wide.
\<close>

section \<open>Containment\<close>

lemma contained_on_cfa_memory: "contained (f (cfa_memory s)) \<Longrightarrow> contained (on_cfa_memory f s)"
  by (simp add: on_cfa_memory_def contained_map_state)

lemma contained_read_cfa_operands: "contained (read_cfa_operands env es s)"
proof (induction env es s rule: read_cfa_operands.induct)
  case (1 env s)
  then show ?case by simp
next
  case (2 env e es s)
  then show ?case
    by (auto intro!: contained_bind contained_on_cfa_memory contained_ReadULEB128
        contained_ReadEncodedValue)
qed

lemma read_cfa_operands_length:
  "read_cfa_operands env es s = Ok () t \<Longrightarrow> length (cfa_operands t) = length (cfa_operands s) + length es"
proof (induction es arbitrary: s)
  case Nil
  then show ?case by simp
next
  case (Cons e es)
  from Cons.prems show ?case
    by (auto simp: bind_out_Ok_iff on_cfa_memory_def dest!: Cons.IH split: if_splits)
qed

lemma contained_factored [simp]: "contained (factored env v s)"
  by (simp add: factored_def Let_def)

lemma factored_state: "factored env v s = Ok x t \<Longrightarrow> t = s"
  by (auto simp: factored_def Let_def split: if_splits)

lemma contained_cfa_fail [simp]: "contained (cfa_fail c s)"
  by (simp add: cfa_fail_def)

lemma contained_restore [simp]: "contained (restore_reg r env s)"
  by (simp add: restore_reg_def split: option.split)

lemma contained_change [simp]: "contained (change_cfa f s)"
  by (simp add: change_cfa_def split: option.split)

text \<open>Every handler finds the operands its row of the table announces.\<close>

lemma callbacks_contained:
  "list_all2 (\<lambda>cb es. \<forall>handler env s. cb = Some handler \<longrightarrow> length es \<le> length (cfa_operands s) \<longrightarrow>
       contained (handler env s))
     (cfa_callbacks :: 'a::len cfa_handler option list)
     (map (\<lambda>cfa. take (cfa_num_operands cfa) (cfa_operand_encodings cfa)) kTable)"
proof -
  have rep: "list_all2 P (replicate n x) (replicate n y) \<longleftrightarrow> n = 0 \<or> P x y" for P n x y
    by (auto simp: list_all2_conv_all_nth)
  show ?thesis
    unfolding cfa_callbacks_def table_operands
    by (auto simp: list_all2_append rep cfa_handler_defs cfa_operand_def
        intro!: contained_bind dest!: factored_state split: option.split list.split)
qed

lemma contained_switch:
  fixes s :: "'a::len word dwarf_cfa"
  shows "contained (cfa_switch b env s)"
proof -
  let ?es = "\<lambda>k. take (cfa_num_operands (kTable ! k)) (cfa_operand_encodings (kTable ! k))"
  have handler: "contained (handler env t)"
    if "cfa_callbacks ! k = Some handler" "read_cfa_operands env (?es k) s = Ok () t" "k < 64"
    for k handler t
    using list_all2_nthD2 [OF callbacks_contained [where 'a = 'a], of k] that read_cfa_operands_length [OF that(2)]
    by (simp add: length_kTable)
  have run: "contained (bind_out (read_cfa_operands env (?es k) s) (\<lambda>_ s. handler env s))"
    if "cfa_callbacks ! k = Some handler" "k < 64" for k handler
    by (rule contained_bind [OF contained_read_cfa_operands]) (use that handler in auto)
  have low: "unat (b AND 0x3f) < 64"
  proof -
    have "\<forall>b :: u8. unat (b AND 0x3f) < 64" by code_simp
    then show ?thesis by blast
  qed
  have offset: "contained (bind_out (on_cfa_memory (ReadULEB128 (cfa_rd env)) s) (\<lambda>offset s.
      bind_out (factored env (ucast offset) s) (\<lambda>off s. Ok () (put_loc r (l off) s))))" for r l
    by (intro contained_bind contained_on_cfa_memory contained_ReadULEB128) simp_all
  show ?thesis
    unfolding cfa_switch_def Let_def using run [OF _ low] offset
    by (simp split: option.split)
qed

lemma contained_instruction: "contained (cfa_instruction env s)"
  unfolding cfa_instruction_def
  by (intro contained_bind contained_on_cfa_memory contained_ReadBytes contained_switch)

lemma contained_cfa_loop: "cfa_loop env pc end_offset s = Some r \<Longrightarrow> contained r"
proof (rule cfa_loop.raw_induct [where P = "\<lambda>env pc end_offset s r. contained r", rotated])
  fix loop :: "cfa_env \<Rightarrow> u64 \<Rightarrow> u64 \<Rightarrow> 'a word dwarf_cfa \<Rightarrow> (unit, 'a word dwarf_cfa) outcome option"
    and env pc end_offset s r
  assume IH: "\<And>env pc end_offset s r. loop env pc end_offset s = Some r \<Longrightarrow> contained r"
    and body: "(if pc < ucast (cfa_cur_pc s) then Some (Ok () (set_pc_end (ucast (cfa_cur_pc s)) s))
      else if end_offset \<le> cfa_offset_of s then Some (Ok () (set_pc_end (fde_pc_end (cfa_fde env)) s))
      else case cfa_instruction env s of
          Ok _ t \<Rightarrow> loop env pc end_offset t
        | Fail t \<Rightarrow> Some (Fail t) | Abort \<Rightarrow> Some Abort | Undef k \<Rightarrow> Some (Undef k)) = Some r"
  from body have "r = cfa_instruction env s \<or> (\<exists>v t. r = Ok v t) \<or> (\<exists>t. loop env pc end_offset t = Some r)"
    by (auto split: if_splits outcome.splits)
  then show "contained r"
    using contained_instruction IH by auto
qed

section \<open>A loop without end\<close>

text \<open>
  \<^verbatim>\<open>DW_CFA_def_cfa_expression\<close> with a block length of 2^64 - 11: the eleven bytes of the instruction
  are read, the block is skipped, and the cursor is back where it was.
\<close>

definition endless_bytes :: "u8 list" where
  "endless_bytes = 0x0f # uleb_encode 0xfffffffffffffff5"

lemma cfa_loop_stuck:
  fixes s :: "'a::len word dwarf_cfa"
  assumes stay: "\<And>s. Q s \<Longrightarrow> \<not> pc < ucast (cfa_cur_pc s) \<and> \<not> end_offset \<le> cfa_offset_of s
      \<and> (\<exists>t. cfa_instruction env s = Ok () t \<and> Q t)"
    and "Q s"
  shows "cfa_loop env pc end_offset s = None"
proof -
  have "env' = env \<longrightarrow> pc' = pc \<longrightarrow> e' = end_offset \<longrightarrow> \<not> Q s"
    if "cfa_loop env' pc' e' s = Some r" for env' pc' e' r and s :: "'a word dwarf_cfa"
    using that
  proof (rule cfa_loop.raw_induct [where P = "\<lambda>env' pc' e' s r.
        env' = env \<longrightarrow> pc' = pc \<longrightarrow> e' = end_offset \<longrightarrow> \<not> Q s", rotated])
    fix loop :: "cfa_env \<Rightarrow> u64 \<Rightarrow> u64 \<Rightarrow> 'a word dwarf_cfa \<Rightarrow> (unit, 'a word dwarf_cfa) outcome option"
      and env' pc' e' s r
    assume "\<And>env' pc' e' s r. loop env' pc' e' s = Some r \<Longrightarrow>
        env' = env \<longrightarrow> pc' = pc \<longrightarrow> e' = end_offset \<longrightarrow> \<not> Q s"
      and "(if pc' < ucast (cfa_cur_pc s) then Some (Ok () (set_pc_end (ucast (cfa_cur_pc s)) s))
        else if e' \<le> cfa_offset_of s then Some (Ok () (set_pc_end (fde_pc_end (cfa_fde env')) s))
        else case cfa_instruction env' s of
            Ok _ t \<Rightarrow> loop env' pc' e' t
          | Fail t \<Rightarrow> Some (Fail t) | Abort \<Rightarrow> Some Abort | Undef k \<Rightarrow> Some (Undef k)) = Some r"
    then show "env' = env \<longrightarrow> pc' = pc \<longrightarrow> e' = end_offset \<longrightarrow> \<not> Q s"
      using stay [of s] by auto
  qed
  with assms(2) show ?thesis by (cases "cfa_loop env pc end_offset s") auto
qed

lemma endless_step:
  fixes s :: "64 word dwarf_cfa"
  assumes mem: "flat_memory (cfa_rd env) m" and at: "bytes_at m (cfa_offset_of s) endless_bytes"
  shows "\<exists>t. cfa_instruction env s = Ok () t \<and> cfa_offset_of t = cfa_offset_of s \<and> cfa_cur_pc t = cfa_cur_pc s"
proof -
  let ?v = "0xfffffffffffffff5 :: u64" and ?s = "cfa_fetch 1 [] (cfa_begin s)"
  have len: "length (uleb_encode 0xfffffffffffffff5) = 10"
    by (simp add: uleb_encode.simps)
  have "ReadULEB128 (cfa_rd env) (cfa_memory ?s) =
      Ok ?v ((cfa_memory ?s)\<lparr>cur_offset := cfa_offset_of s + 11\<rparr>)"
    using flat_memory.ReadULEB128_at [OF mem, of "cfa_memory ?s" ?v] at len
    by (simp add: endless_bytes_def cfa_fetch_def add.assoc)
  then have read: "read_cfa_operands env [DW_EH_PE_block] ?s =
      Ok () (cfa_fetch 0 [?v] (cfa_begin s))"
    by (simp add: on_cfa_memory_def cfa_fetch_def add.assoc)
  have row: "take (cfa_num_operands (kTable ! 15)) (cfa_operand_encodings (kTable ! 15)) = [DW_EH_PE_block]"
    using kTable_operands(2) [of "DefCfaExpression []"] by simp
  have "cfa_instruction env s = cfa_switch 0x0f env ?s"
    using cfa_instruction_at [OF mem, of s] at by (simp add: endless_bytes_def)
  also have "\<dots> = cfa_def_cfa_expression env (cfa_fetch 0 [?v] (cfa_begin s))"
    using cfa_callback [of "DefCfaExpression []", where 'a = 64] read row
    by (simp add: cfa_switch_def insn_handlers)
  finally show ?thesis
    by (simp add: cfa_def_cfa_expression_def cfa_operand_def put_loc_def)
qed

section \<open>Properties\<close>

text \<open>
  C30. Whatever the instruction bytes are, \<^verbatim>\<open>GetLocationInfo\<close>, when it returns, has neither accessed an
  operand that was not read nor called a missing handler, and it never aborts.
\<close>

theorem GetLocationInfo_contained:
  assumes "GetLocationInfo pc start end_offset env s = Some r"
  shows "contained r"
  using assms unfolding GetLocationInfo_def by (rule contained_cfa_loop)

theorem GetLocationInfo_contained_witness:
  "\<exists>r. GetLocationInfo 0x1000 0 1 (sample_cfa_env [0x17]) (DwarfCfa_new :: 64 word dwarf_cfa) = Some r
     \<and> contained r"
proof -
  let ?env = "sample_cfa_env [0x17]" and ?s = "cfa_start 0 (sample_cfa_env [0x17]) DwarfCfa_new :: 64 word dwarf_cfa"
  have mem: "flat_memory (cfa_rd ?env) (list_content [0x17])"
    using buffer_mem.flat_memory_axioms by (simp add: sample_cfa_env_def)
  have "list_content [0x17] (cfa_offset_of ?s) = Some 0x17"
    using bytes_at_list_buffer [of "[0x17]"] by (simp add: cfa_start_def Let_def)
  from cfa_instruction_at [OF mem this] obtain t where "cfa_instruction ?env ?s = Fail t"
    by (simp add: cfa_switch_def cfa_callbacks_def nth_append cfa_fail_def)
  then have "GetLocationInfo 0x1000 0 1 ?env DwarfCfa_new = Some (Fail t)"
    unfolding GetLocationInfo_def
    by (subst cfa_loop.simps) (simp add: cfa_start_def Let_def sample_cfa_env_def sample_fde_def)
  from this GetLocationInfo_contained [OF this] show ?thesis by blast
qed

lemma endless_witness_data:
  "flat_memory (cfa_rd (sample_cfa_env endless_bytes)) (list_content endless_bytes)"
  "bytes_at (list_content endless_bytes) 0 endless_bytes"
proof -
  show "flat_memory (cfa_rd (sample_cfa_env endless_bytes)) (list_content endless_bytes)"
    using buffer_mem.flat_memory_axioms by (simp add: sample_cfa_env_def)
  show "bytes_at (list_content endless_bytes) 0 endless_bytes"
    by (rule bytes_at_list_buffer) (simp add: endless_bytes_def uleb_encode.simps)
qed

text \<open>
  \<^verbatim>\<open>GetLocationInfo\<close> need not return: the block length of an expression is added to the cursor
  modulo 2^64, so that an instruction of eleven bytes can lead back to itself.
\<close>

theorem GetLocationInfo_endless:
  fixes s :: "64 word dwarf_cfa"
  assumes "flat_memory (cfa_rd env) m" and "bytes_at m start endless_bytes"
    and "start < end_offset" and "fde_pc_start (cfa_fde env) \<le> pc"
  shows "GetLocationInfo pc start end_offset env s = None"
  unfolding GetLocationInfo_def
proof (rule cfa_loop_stuck [where Q = "\<lambda>t. cfa_offset_of t = start \<and> cfa_cur_pc t = fde_pc_start (cfa_fde env)"])
  fix t :: "64 word dwarf_cfa"
  assume t: "cfa_offset_of t = start \<and> cfa_cur_pc t = fde_pc_start (cfa_fde env)"
  with endless_step [OF assms(1), of t] assms
  show "\<not> pc < ucast (cfa_cur_pc t) \<and> \<not> end_offset \<le> cfa_offset_of t
    \<and> (\<exists>t'. cfa_instruction env t = Ok () t' \<and> cfa_offset_of t' = start
          \<and> cfa_cur_pc t' = fde_pc_start (cfa_fde env))"
    by auto
qed (simp add: cfa_start_def Let_def)

theorem GetLocationInfo_endless_witness:
  "GetLocationInfo 0x1000 0 11 (sample_cfa_env endless_bytes) (DwarfCfa_new :: 64 word dwarf_cfa) = None"
  by (rule GetLocationInfo_endless [OF endless_witness_data])
    (simp_all add: sample_cfa_env_def sample_fde_def)

section \<open>The reported range\<close>

text \<open>
  \<^verbatim>\<open>remember_state\<close> at 0x1000, a change of the CFA for 0x1004 to 0x1008, and \<^verbatim>\<open>restore_state\<close> as the
  last instruction.
\<close>

definition restore_last :: "insn list" where
  "restore_last = [RememberState, Advance 4, DefCfaOffset 16, Advance 4, RestoreState]"

definition restore_last_bytes :: "u8 list" where
  "restore_last_bytes = [0x0a, 0x44, 0x0e, 0x10, 0x44, 0x0b]"

abbreviation restore_last_env :: cfa_env where
  "restore_last_env \<equiv> sample_cfa_env restore_last_bytes"

lemma restore_last_steps:
  fixes s :: "64 word dwarf_cfa"
  shows "cfa_offset_of s = 0 \<Longrightarrow>
      cfa_instruction restore_last_env s = cfa_remember_state restore_last_env (cfa_fetch 1 [] (cfa_begin s))"
    and "cfa_offset_of s = 1 \<or> cfa_offset_of s = 4 \<Longrightarrow>
      cfa_instruction restore_last_env s = Ok () (advance_pc restore_last_env 4 (cfa_fetch 1 [] (cfa_begin s)))"
    and "cfa_offset_of s = 2 \<Longrightarrow>
      cfa_instruction restore_last_env s = cfa_def_cfa_offset restore_last_env (cfa_fetch (Suc (Suc 0)) [16] (cfa_begin s))"
    and "cfa_offset_of s = 5 \<Longrightarrow>
      cfa_instruction restore_last_env s = cfa_restore_state restore_last_env (cfa_fetch 1 [] (cfa_begin s))"
proof -
  have mem: "flat_memory (cfa_rd restore_last_env) (list_content restore_last_bytes)"
    using buffer_mem.flat_memory_axioms by (simp add: sample_cfa_env_def)
  have at: "bytes_at (list_content restore_last_bytes) 0 restore_last_bytes"
    by (rule bytes_at_list_buffer) (simp add: restore_last_bytes_def)
  have asz: "addr_size TYPE(64) = 8" by (simp add: addr_size_def)
  note step = cfa_instruction_parts [OF mem, of _ s, unfolded asz]
  show "cfa_instruction restore_last_env s = cfa_remember_state restore_last_env (cfa_fetch 1 [] (cfa_begin s))"
    if "cfa_offset_of s = 0"
    using step [of RememberState "0x0a" "[]"] that at
    by (simp add: insn_handlers restore_last_bytes_def)
  show "cfa_instruction restore_last_env s = Ok () (advance_pc restore_last_env 4 (cfa_fetch 1 [] (cfa_begin s)))"
    if "cfa_offset_of s = 1 \<or> cfa_offset_of s = 4"
    using cfa_instruction_at [OF mem, of s "0x44"] that at
    by (auto simp: cfa_switch_def restore_last_bytes_def)
  show "cfa_instruction restore_last_env s = cfa_def_cfa_offset restore_last_env (cfa_fetch (Suc (Suc 0)) [16] (cfa_begin s))"
    if "cfa_offset_of s = 2"
    using step [of "DefCfaOffset 16" "0x0e" "[Uleb 16]"] that at
    by (simp add: insn_handlers restore_last_bytes_def uleb_encode.simps)
  show "cfa_instruction restore_last_env s = cfa_restore_state restore_last_env (cfa_fetch 1 [] (cfa_begin s))"
    if "cfa_offset_of s = 5"
    using step [of RestoreState "0x0b" "[]"] that at
    by (simp add: insn_handlers restore_last_bytes_def)
qed

text \<open>
  The pc range \<^verbatim>\<open>GetLocationInfo\<close> reports with the locations can contain addresses that have
  other locations: \<^verbatim>\<open>cfa_restore_state\<close> restores the \<^verbatim>\<open>pc_start\<close> of the remembered state along with
  its registers, and nothing resets it when it is the last instruction. Here the range reported for
  0x1010 contains 0x1005, where the CFA is another one.
\<close>

theorem GetLocationInfo_stale_range:
  "\<exists>(t :: 64 word dwarf_cfa) (t' :: 64 word dwarf_cfa).
     GetLocationInfo 0x1010 0 6 restore_last_env DwarfCfa_new = Some (Ok () t)
     \<and> GetLocationInfo 0x1005 0 6 restore_last_env DwarfCfa_new = Some (Ok () t')
     \<and> loc_pc_start (loc_regs t) \<le> 0x1005 \<and> 0x1005 < loc_pc_end (loc_regs t)
     \<and> loc_map (loc_regs t) CFA_REG = Some (Location DWARF_LOCATION_REGISTER 7 8)
     \<and> loc_map (loc_regs t') CFA_REG = Some (Location DWARF_LOCATION_REGISTER 7 16)"
proof -
  note eval = restore_last_steps cfa_fetch_def cfa_begin_def cfa_remember_state_def advance_pc_def
    cfa_def_cfa_offset_def cfa_is_register_def cfa_operand_def change_cfa_def set_value1_def
    put_loc_def cfa_restore_state_def set_pc_end_def
  let ?s = "cfa_start 0 restore_last_env (DwarfCfa_new :: 64 word dwarf_cfa)"
  have start: "cfa_offset_of ?s = 0" "cfa_cur_pc ?s = 0x1000" "loc_pc_start (loc_regs ?s) = 0x1000"
      "loc_map (loc_regs ?s) CFA_REG = Some (Location DWARF_LOCATION_REGISTER 7 8)"
      "loc_reg_state ?s = []"
    by (simp_all add: cfa_start_def Let_def sample_cfa_env_def sample_fde_def DwarfCfa_new_def CFA_REG_def)
  have more: "\<not> (6 :: u64) \<le> 1" by (simp add: word_le_nat_alt)
  have env: "code_alignment_factor (fde_cie (cfa_fde restore_last_env)) = 1"
      "fde_pc_end (cfa_fde restore_last_env) = 0x1020"
    by (simp_all add: sample_cfa_env_def sample_fde_def)
  have "\<exists>t. cfa_loop restore_last_env 0x1010 6 ?s = Some (Ok () t)
      \<and> loc_pc_start (loc_regs t) \<le> 0x1005 \<and> 0x1005 < loc_pc_end (loc_regs t)
      \<and> loc_map (loc_regs t) CFA_REG = Some (Location DWARF_LOCATION_REGISTER 7 8)"
    by (subst cfa_loop.simps, simp add: start env eval more)+
  moreover have "\<exists>t. cfa_loop restore_last_env 0x1005 6 ?s = Some (Ok () t)
      \<and> loc_map (loc_regs t) CFA_REG = Some (Location DWARF_LOCATION_REGISTER 7 16)"
    by (subst cfa_loop.simps, simp add: start env eval more)+
  ultimately show ?thesis
    unfolding GetLocationInfo_def by blast
qed

end
