(* ===== verification/Arm_Exidx.thy ===== *)
theory Arm_Exidx
  imports Memory_Model
begin

text \<open>
  \<^verbatim>\<open>libunwindstack/ArmExidx.cpp\<close>: the unwind instructions of the ARM exception tables.
  \<^verbatim>\<open>regs_\<close> points to the 16 registers of a \<^verbatim>\<open>RegsArm\<close>; \<^verbatim>\<open>data_\<close> is the queue of unwind bytes. The
  bookkeeping for the log (\<^verbatim>\<open>log_cfa_offset_\<close>, \<^verbatim>\<open>log_regs_\<close>) is part of the state, the printed text is
  not modelled. \<^verbatim>\<open>int32_t\<close> members are kept as their bits.
\<close>

section \<open>State\<close>

datatype ArmStatus =
    ARM_STATUS_NONE | ARM_STATUS_NO_UNWIND | ARM_STATUS_FINISH | ARM_STATUS_RESERVED
  | ARM_STATUS_SPARE | ARM_STATUS_TRUNCATED | ARM_STATUS_READ_FAILED | ARM_STATUS_MALFORMED
  | ARM_STATUS_INVALID_ALIGNMENT | ARM_STATUS_INVALID_PERSONALITY

abbreviation ARM_OP_FINISH :: u8 where "ARM_OP_FINISH \<equiv> 0xb0"
abbreviation ARM_REG_SP :: nat where "ARM_REG_SP \<equiv> 13"
abbreviation ARM_REG_R14 :: nat where "ARM_REG_R14 \<equiv> 14"
abbreviation ARM_REG_PC :: nat where "ARM_REG_PC \<equiv> 15"
abbreviation LOG_CFA_REG :: u8 where "LOG_CFA_REG \<equiv> 64"

datatype ArmLogType = ARM_LOG_NONE | ARM_LOG_FULL | ARM_LOG_BY_REG

record arm_exidx =
  arm_regs :: "u32 list"
  arm_cfa :: u32
  arm_data :: "u8 list"
  arm_status :: ArmStatus
  arm_status_address :: u64
  log_type :: ArmLogType
  log_skip_execution :: bool
  pc_set :: bool
  log_cfa_offset :: u32
  log_regs :: "(u8, u32) omap"

type_synonym arm_outcome = "(unit, arm_exidx) outcome"

definition arm_fail :: "ArmStatus \<Rightarrow> arm_exidx \<Rightarrow> ('v, arm_exidx) outcome" where
  "arm_fail st s = Fail (s\<lparr>arm_status := st\<rparr>)"

definition arm_read_failed :: "u32 \<Rightarrow> arm_exidx \<Rightarrow> ('v, arm_exidx) outcome" where
  "arm_read_failed a s =
     Fail (s\<lparr>arm_status := ARM_STATUS_READ_FAILED, arm_status_address := ucast a\<rparr>)"

definition add_cfa :: "u32 \<Rightarrow> arm_exidx \<Rightarrow> arm_outcome" where
  "add_cfa n s = Ok () (s\<lparr>arm_cfa := arm_cfa s + n\<rparr>)"

section \<open>ExtractEntryData\<close>

definition push_data :: "u8 list \<Rightarrow> arm_exidx \<Rightarrow> arm_exidx" where
  "push_data bs s = s\<lparr>arm_data := arm_data s @ bs\<rparr>"

text \<open>Byte \<open>k\<close> of a word, as \<^verbatim>\<open>(data >> 8 * k) & 0xff\<close> takes it.\<close>

definition word_byte :: "nat \<Rightarrow> u32 \<Rightarrow> u8" where
  "word_byte k w = ucast (drop_bit (8 * k) w AND 0xff)"

definition read_elf_word :: "reader \<Rightarrow> u32 \<Rightarrow> arm_exidx \<Rightarrow> (u32, arm_exidx) outcome" where
  "read_elf_word elf a s =
     (case Read32 elf (ucast a) of None \<Rightarrow> arm_read_failed a s | Some w \<Rightarrow> Ok w s)"

text \<open>The loop over the additional table words.\<close>

fun read_table_words :: "reader \<Rightarrow> nat \<Rightarrow> u32 \<Rightarrow> arm_exidx \<Rightarrow> arm_outcome" where
  "read_table_words elf 0 addr s = Ok () s"
| "read_table_words elf (Suc n) addr s =
     bind_out (read_elf_word elf addr s) (\<lambda>w s.
       read_table_words elf n (addr + 4)
         (push_data [word_byte 3 w, word_byte 2 w, word_byte 1 w, word_byte 0 w] s))"

text \<open>\<^verbatim>\<open>data_.back()\<close> of an empty queue is undefined.\<close>

definition append_finish :: "arm_exidx \<Rightarrow> arm_outcome" where
  "append_finish s =
     (if arm_data s = [] then Undef UB_Bounds
      else Ok () (if last (arm_data s) \<noteq> ARM_OP_FINISH then push_data [ARM_OP_FINISH] s else s))"

text \<open>From the address of the unwind data on; the result is the number of table words and their address.\<close>

definition extract_header :: "reader \<Rightarrow> u32 \<Rightarrow> arm_exidx \<Rightarrow> (nat \<times> u32, arm_exidx) outcome" where
  "extract_header elf addr s =
     bind_out (read_elf_word elf addr s) (\<lambda>data s.
       if bit data 31 then
         let personality = drop_bit 24 data AND 0xf;
             low = push_data [word_byte 1 data, word_byte 0 data]
         in if personality = 0 then Ok (0, addr) (low (push_data [word_byte 2 data] s))
            else if personality = 1 \<or> personality = 2 then Ok (unat (word_byte 2 data), addr + 4) (low s)
            else arm_fail ARM_STATUS_INVALID_PERSONALITY s
       else
         bind_out (read_elf_word elf (addr + 4) s) (\<lambda>data s.
           Ok (unat (word_byte 3 data), addr + 4 + 4)
             (push_data [word_byte 2 data, word_byte 1 data, word_byte 0 data] s)))"

definition ExtractEntryData :: "reader \<Rightarrow> u32 \<Rightarrow> arm_exidx \<Rightarrow> arm_outcome" where
  "ExtractEntryData elf entry_offset s =
     (let s = s\<lparr>arm_data := [], arm_status := ARM_STATUS_NONE\<rparr>
      in if bit entry_offset 0 then arm_fail ARM_STATUS_INVALID_ALIGNMENT s
         else bind_out (read_elf_word elf (entry_offset + 4) s) (\<lambda>data s.
           if data = 1 then arm_fail ARM_STATUS_NO_UNWIND s
           else if bit data 31 then
             if drop_bit 24 data AND 0xf \<noteq> 0 then arm_fail ARM_STATUS_INVALID_PERSONALITY s
             else
               let s = push_data [word_byte 2 data, word_byte 1 data, word_byte 0 data] s
               in Ok () (if word_byte 0 data \<noteq> ARM_OP_FINISH then push_data [ARM_OP_FINISH] s else s)
           else
             let signed_data = signed_drop_bit 1 (push_bit 1 data)
             in bind_out (extract_header elf (entry_offset + 4 + signed_data) s) (\<lambda>(n, addr) s.
                  if 5 < n then arm_fail ARM_STATUS_MALFORMED s
                  else bind_out (read_table_words elf n addr s) (\<lambda>_. append_finish))))"

section \<open>Log bookkeeping\<close>

definition log_put :: "nat \<Rightarrow> u32 \<Rightarrow> arm_exidx \<Rightarrow> arm_exidx" where
  "log_put reg v s = s\<lparr>log_regs := omap_put (of_nat reg) v (log_regs s)\<rparr>"

text \<open>Signed 32-bit addition, undefined when it overflows.\<close>

definition sadd32 :: "u32 \<Rightarrow> u32 \<Rightarrow> (u32, 's) outcome \<Rightarrow> 's \<Rightarrow> (u32, 's) outcome" where
  "sadd32 a b ub s =
     (if - (2 ^ 31) \<le> sint a + sint b \<and> sint a + sint b < 2 ^ 31 then Ok (a + b) s else ub)"

fun adjust_entries :: "u32 \<Rightarrow> (u8, u32) omap \<Rightarrow> arm_exidx \<Rightarrow> ((u8, u32) omap, arm_exidx) outcome" where
  "adjust_entries offset [] s = Ok [] s"
| "adjust_entries offset ((k, v) # xs) s =
     (if LOG_CFA_REG \<le> k then Ok ((k, v) # xs) s
      else bind_out (sadd32 v offset (Undef UB_Signed_Overflow) s) (\<lambda>v s.
        bind_out (adjust_entries offset xs s) (\<lambda>xs s. Ok ((k, v) # xs) s)))"

definition AdjustRegisters :: "u32 \<Rightarrow> arm_exidx \<Rightarrow> arm_outcome" where
  "AdjustRegisters offset s =
     bind_out (adjust_entries offset (log_regs s) s) (\<lambda>xs s. Ok () (s\<lparr>log_regs := xs\<rparr>))"

text \<open>
  The shape all instructions share: with logging on, the bookkeeping for \<^verbatim>\<open>ARM_LOG_BY_REG\<close>, then
  \<open>always\<close> for both log types, then the execution unless it is to be skipped.
\<close>

definition arm_logged ::
  "(arm_exidx \<Rightarrow> arm_outcome) \<Rightarrow> (arm_exidx \<Rightarrow> arm_outcome) \<Rightarrow> (arm_exidx \<Rightarrow> arm_outcome) \<Rightarrow> arm_exidx \<Rightarrow>
   arm_outcome" where
  "arm_logged by_reg always exec s =
     (if log_type s = ARM_LOG_NONE then exec s
      else bind_out (if log_type s = ARM_LOG_FULL then Ok () s else by_reg s) (\<lambda>_ s.
        bind_out (always s) (\<lambda>_ s. if log_skip_execution s then Ok () s else exec s)))"

definition no_log :: "arm_exidx \<Rightarrow> arm_outcome" where
  "no_log s = Ok () s"

text \<open>The registers of a mask and the bookkeeping of a pop: offsets count down from the total.\<close>

definition mask_regs :: "nat \<Rightarrow> nat \<Rightarrow> 'a::len word \<Rightarrow> nat list" where
  "mask_regs lo hi m = filter (bit m) [lo ..< hi]"

fun log_pops :: "nat list \<Rightarrow> u32 \<Rightarrow> arm_exidx \<Rightarrow> arm_exidx" where
  "log_pops [] off s = s"
| "log_pops (r # rs) off s = log_pops rs (off - 4) (log_put r off s)"

definition log_pop :: "nat list \<Rightarrow> arm_exidx \<Rightarrow> arm_outcome" where
  "log_pop rs s =
     (let off = 4 * of_nat (length rs)
      in Ok () (log_pops rs off (s\<lparr>log_cfa_offset := log_cfa_offset s + off\<rparr>)))"

section \<open>Popping registers\<close>

text \<open>
  \<^verbatim>\<open>process_memory_->Read32(cfa_, &(*regs_)[reg])\<close>: a short read fails but has overwritten the first
  bytes of the register.
\<close>

definition overlay :: "u8 list \<Rightarrow> u32 \<Rightarrow> u32" where
  "overlay bs old = le_word (bs @ drop (length bs) (to_le 4 (unat old)))"

definition pop_reg :: "reader \<Rightarrow> nat \<Rightarrow> arm_exidx \<Rightarrow> arm_outcome" where
  "pop_reg mem r s =
     (if length (arm_regs s) \<le> r then Undef UB_Bounds
      else
        let bs = mem (ucast (arm_cfa s)) 4;
            s' = s\<lparr>arm_regs := (arm_regs s)[r := overlay bs (arm_regs s ! r)]\<rparr>
        in if length bs = 4 then Ok () (s'\<lparr>arm_cfa := arm_cfa s + 4\<rparr>)
           else arm_read_failed (arm_cfa s) s')"

fun pop_regs :: "reader \<Rightarrow> nat list \<Rightarrow> arm_exidx \<Rightarrow> arm_outcome" where
  "pop_regs mem [] s = Ok () s"
| "pop_regs mem (r # rs) s = bind_out (pop_reg mem r s) (\<lambda>_. pop_regs mem rs)"

definition cfa_from_reg :: "nat \<Rightarrow> arm_exidx \<Rightarrow> arm_outcome" where
  "cfa_from_reg r s =
     (if r < length (arm_regs s) then Ok () (s\<lparr>arm_cfa := arm_regs s ! r\<rparr>) else Undef UB_Bounds)"

section \<open>Instructions\<close>

definition GetByte :: "arm_exidx \<Rightarrow> (u8, arm_exidx) outcome" where
  "GetByte s =
     (case arm_data s of
        [] \<Rightarrow> arm_fail ARM_STATUS_TRUNCATED s
      | b # bs \<Rightarrow> Ok b (s\<lparr>arm_data := bs\<rparr>))"

text \<open>\<^verbatim>\<open>CHECK\<close>.\<close>

definition check :: "bool \<Rightarrow> arm_outcome \<Rightarrow> arm_outcome" where
  "check b r = (if b then r else Abort)"

definition DecodePrefix_10_00 :: "reader \<Rightarrow> u8 \<Rightarrow> arm_exidx \<Rightarrow> arm_outcome" where
  "DecodePrefix_10_00 mem byte s = check (drop_bit 4 byte = 8)
     (bind_out (GetByte s) (\<lambda>byte' s.
        let registers = push_bit 8 (ucast (byte AND 0xf)) OR ucast byte' :: u16
        in if registers = 0 then arm_fail ARM_STATUS_NO_UNWIND s
           else
             let registers = push_bit 4 registers; rs = mask_regs 4 16 registers
             in arm_logged (log_pop rs) no_log
                  (\<lambda>s. bind_out (pop_regs mem rs s) (\<lambda>_ s.
                     bind_out (if bit registers ARM_REG_SP then cfa_from_reg ARM_REG_SP s else Ok () s)
                       (\<lambda>_ s. Ok () (if bit registers ARM_REG_PC then s\<lparr>pc_set := True\<rparr> else s)))) s))"

definition DecodePrefix_10_01 :: "u8 \<Rightarrow> arm_exidx \<Rightarrow> arm_outcome" where
  "DecodePrefix_10_01 byte s = check (drop_bit 4 byte = 9)
     (let bits = byte AND 0xf
      in if bits = 13 \<or> bits = 15 then arm_fail ARM_STATUS_RESERVED s
         else arm_logged (\<lambda>s. Ok () (log_put (unat LOG_CFA_REG) (ucast bits) s)) no_log
                (cfa_from_reg (unat bits)) s)"

definition log_pop_r4 :: "u8 \<Rightarrow> arm_exidx \<Rightarrow> arm_outcome" where
  "log_pop_r4 byte s =
     (let end_reg = unat (byte AND 7) + 4;
          off = 4 * of_nat (end_reg - 3) + (if bit byte 3 then 4 else 0)
      in Ok () (log_pops ([4 ..< Suc end_reg] @ (if bit byte 3 then [14] else [])) off
           (s\<lparr>log_cfa_offset := log_cfa_offset s + off\<rparr>)))"

definition DecodePrefix_10_10 :: "reader \<Rightarrow> u8 \<Rightarrow> arm_exidx \<Rightarrow> arm_outcome" where
  "DecodePrefix_10_10 mem byte s = check (drop_bit 4 byte = 0xa)
     (arm_logged (log_pop_r4 byte) no_log
        (\<lambda>s. bind_out (pop_regs mem [4 ..< Suc (4 + unat (byte AND 7))] s) (\<lambda>_ s.
           if bit byte 3 then pop_reg mem ARM_REG_R14 s else Ok () s)) s)"

definition DecodePrefix_10_11_0000 :: "arm_exidx \<Rightarrow> arm_outcome" where
  "DecodePrefix_10_11_0000 s = arm_fail ARM_STATUS_FINISH s"

definition DecodePrefix_10_11_0001 :: "reader \<Rightarrow> arm_exidx \<Rightarrow> arm_outcome" where
  "DecodePrefix_10_11_0001 mem s =
     bind_out (GetByte s) (\<lambda>byte s.
       if byte = 0 then arm_fail ARM_STATUS_SPARE s
       else if drop_bit 4 byte \<noteq> 0 then arm_fail ARM_STATUS_SPARE s
       else arm_logged (log_pop (mask_regs 0 4 byte)) no_log (pop_regs mem (mask_regs 0 4 byte)) s)"

text \<open>
  The ULEB128 loop works on \<^verbatim>\<open>int\<close>: the shift is undefined when the amount is 32 or more, or when the
  result does not fit in 32 bits.
\<close>

function arm_uleb :: "u32 \<Rightarrow> nat \<Rightarrow> arm_exidx \<Rightarrow> (u32, arm_exidx) outcome" where
  "arm_uleb result shift s =
     bind_out (GetByte s) (\<lambda>byte s.
       if 32 \<le> shift \<or> 2 ^ 32 \<le> unat (byte AND 0x7f) * 2 ^ shift then Undef UB_Shift
       else
         let result = result OR push_bit shift (ucast (byte AND 0x7f))
         in if bit byte 7 then arm_uleb result (shift + 7) s else Ok result s)"
  by pat_completeness auto
termination
  by (relation "measure (\<lambda>(result, shift, s). 32 - shift)") auto

declare arm_uleb.simps [simp del]

definition DecodePrefix_10_11_0010 :: "arm_exidx \<Rightarrow> arm_outcome" where
  "DecodePrefix_10_11_0010 s =
     bind_out (arm_uleb 0 0 s) (\<lambda>result s.
       let off = 0x204 + push_bit 2 result
       in arm_logged
            (\<lambda>s. bind_out (sadd32 (log_cfa_offset s) off (Undef UB_Signed_Overflow) s)
               (\<lambda>v s. Ok () (s\<lparr>log_cfa_offset := v\<rparr>)))
            (AdjustRegisters off) (add_cfa off) s)"

definition DecodePrefix_10_11_0011 :: "arm_exidx \<Rightarrow> arm_outcome" where
  "DecodePrefix_10_11_0011 s =
     bind_out (GetByte s) (\<lambda>byte s.
       arm_logged no_log no_log (add_cfa (ucast (byte AND 0xf) * 8 + 12)) s)"

definition DecodePrefix_10_11_01nn :: "arm_exidx \<Rightarrow> arm_outcome" where
  "DecodePrefix_10_11_01nn s = arm_fail ARM_STATUS_SPARE s"

definition DecodePrefix_10_11_1nnn :: "u8 \<Rightarrow> arm_exidx \<Rightarrow> arm_outcome" where
  "DecodePrefix_10_11_1nnn byte s = check (byte AND NOT 7 = 0xb8)
     (arm_logged no_log no_log (add_cfa (ucast (byte AND 7) * 8 + 12)) s)"

definition DecodePrefix_10 :: "reader \<Rightarrow> u8 \<Rightarrow> arm_exidx \<Rightarrow> arm_outcome" where
  "DecodePrefix_10 mem byte s = check (drop_bit 6 byte = 2)
     (let k = drop_bit 4 byte AND 3; n = byte AND 0xf
      in if k = 0 then DecodePrefix_10_00 mem byte s
         else if k = 1 then DecodePrefix_10_01 byte s
         else if k = 2 then DecodePrefix_10_10 mem byte s
         else if n = 0 then DecodePrefix_10_11_0000 s
         else if n = 1 then DecodePrefix_10_11_0001 mem s
         else if n = 2 then DecodePrefix_10_11_0010 s
         else if n = 3 then DecodePrefix_10_11_0011 s
         else if bit byte 3 then DecodePrefix_10_11_1nnn byte s
         else DecodePrefix_10_11_01nn s)"

definition DecodePrefix_11_000 :: "u8 \<Rightarrow> arm_exidx \<Rightarrow> arm_outcome" where
  "DecodePrefix_11_000 byte s = check (byte AND NOT 7 = 0xc0)
     (let bits = byte AND 7
      in if bits = 6 then
           bind_out (GetByte s) (\<lambda>byte s.
             arm_logged no_log no_log (add_cfa (ucast (byte AND 0xf) * 8 + 8)) s)
         else if bits = 7 then
           bind_out (GetByte s) (\<lambda>byte s.
             if byte = 0 then arm_fail ARM_STATUS_SPARE s
             else if drop_bit 4 byte = 0 then
               arm_logged no_log no_log (add_cfa (of_nat (length (mask_regs 0 8 byte)) * 4)) s
             else arm_fail ARM_STATUS_SPARE s)
         else arm_logged no_log no_log (add_cfa (ucast (byte AND 7) * 8 + 8)) s)"

definition DecodePrefix_11_001 :: "u8 \<Rightarrow> arm_exidx \<Rightarrow> arm_outcome" where
  "DecodePrefix_11_001 byte s = check (byte AND NOT 7 = 0xc8)
     (let bits = byte AND 7
      in if bits = 0 \<or> bits = 1 then
           bind_out (GetByte s) (\<lambda>byte s.
             arm_logged no_log no_log (add_cfa (ucast (byte AND 0xf) * 8 + 8)) s)
         else arm_fail ARM_STATUS_SPARE s)"

definition DecodePrefix_11_010 :: "u8 \<Rightarrow> arm_exidx \<Rightarrow> arm_outcome" where
  "DecodePrefix_11_010 byte s = check (byte AND NOT 7 = 0xd0)
     (arm_logged no_log no_log (add_cfa (ucast (byte AND 7) * 8 + 8)) s)"

definition DecodePrefix_11 :: "u8 \<Rightarrow> arm_exidx \<Rightarrow> arm_outcome" where
  "DecodePrefix_11 byte s = check (drop_bit 6 byte = 3)
     (let k = drop_bit 3 byte AND 7
      in if k = 0 then DecodePrefix_11_000 byte s
         else if k = 1 then DecodePrefix_11_001 byte s
         else if k = 2 then DecodePrefix_11_010 byte s
         else arm_fail ARM_STATUS_SPARE s)"

definition vsp_delta :: "u8 \<Rightarrow> u32" where
  "vsp_delta byte = push_bit 2 (ucast (byte AND 0x3f)) + 4"

definition ArmExidx_Decode :: "reader \<Rightarrow> arm_exidx \<Rightarrow> arm_outcome" where
  "ArmExidx_Decode mem s =
     bind_out (GetByte (s\<lparr>arm_status := ARM_STATUS_NONE\<rparr>)) (\<lambda>byte s.
       let k = drop_bit 6 byte; off = vsp_delta byte
       in if k = 0 then
            arm_logged
              (\<lambda>s. bind_out (sadd32 (log_cfa_offset s) off (Undef UB_Signed_Overflow) s)
                 (\<lambda>v s. Ok () (s\<lparr>log_cfa_offset := v\<rparr>)))
              (AdjustRegisters off) (add_cfa off) s
          else if k = 1 then
            arm_logged (\<lambda>s. Ok () (s\<lparr>log_cfa_offset := log_cfa_offset s - off\<rparr>))
              (AdjustRegisters (- off)) (add_cfa (- off)) s
          else if k = 2 then DecodePrefix_10 mem byte s
          else DecodePrefix_11 byte s)"

text \<open>\<^verbatim>\<open>while (Decode());\<close> The value \<open>None\<close> is a loop that never ends.\<close>

partial_function (option) arm_eval_loop :: "reader \<Rightarrow> arm_exidx \<Rightarrow> arm_outcome option" where
  "arm_eval_loop mem s =
     (case ArmExidx_Decode mem s of Ok _ t \<Rightarrow> arm_eval_loop mem t | r \<Rightarrow> Some r)"

definition ArmExidx_Eval :: "reader \<Rightarrow> arm_exidx \<Rightarrow> arm_outcome option" where
  "ArmExidx_Eval mem s =
     map_option (\<lambda>r. case r of
         Fail t \<Rightarrow> if arm_status t = ARM_STATUS_FINISH then Ok () t else Fail t
       | _ \<Rightarrow> r) (arm_eval_loop mem (s\<lparr>pc_set := False\<rparr>))"

section \<open>What every operation keeps\<close>

text \<open>
  The register file keeps its size and the queue never grows; nothing aborts or leaves its
  container.
\<close>

definition arm_inv :: "arm_exidx \<Rightarrow> arm_exidx \<Rightarrow> bool" where
  "arm_inv s t \<longleftrightarrow>
     length (arm_regs t) = length (arm_regs s) \<and> length (arm_data t) \<le> length (arm_data s)"

fun keeps :: "arm_exidx \<Rightarrow> ('v, arm_exidx) outcome \<Rightarrow> bool" where
  "keeps s (Ok v t) \<longleftrightarrow> arm_inv s t"
| "keeps s (Fail t) \<longleftrightarrow> arm_inv s t"
| "keeps s Abort \<longleftrightarrow> False"
| "keeps s (Undef k) \<longleftrightarrow> k = UB_Shift \<or> k = UB_Signed_Overflow"

named_theorems keeps_intros \<open>operations that keep the invariant\<close>

lemma arm_inv_refl [simp]: "arm_inv s s"
  by (simp add: arm_inv_def)

lemma arm_inv_trans: "arm_inv s t \<Longrightarrow> arm_inv t u \<Longrightarrow> arm_inv s u"
  by (simp add: arm_inv_def)

lemma keeps_trans: "arm_inv s t \<Longrightarrow> keeps t r \<Longrightarrow> keeps s r"
  by (cases r) (auto intro: arm_inv_trans)

lemma keeps_bind [keeps_intros]:
  "keeps s r \<Longrightarrow> (\<And>v t. r = Ok v t \<Longrightarrow> arm_inv s t \<Longrightarrow> keeps t (f v t)) \<Longrightarrow> keeps s (bind_out r f)"
  by (cases r) (auto intro: keeps_trans)

lemma keeps_if [keeps_intros]:
  "(b \<Longrightarrow> keeps s r) \<Longrightarrow> (\<not> b \<Longrightarrow> keeps s q) \<Longrightarrow> keeps s (if b then r else q)"
  by simp

lemma keeps_fail [keeps_intros]: "keeps s (arm_fail st s)"
  and keeps_read_failed [keeps_intros]: "keeps s (arm_read_failed a s)"
  and keeps_add_cfa [keeps_intros]: "keeps s (add_cfa n s)"
  and keeps_no_log [keeps_intros]: "keeps s (no_log s)"
  by (simp_all add: arm_fail_def arm_read_failed_def add_cfa_def no_log_def arm_inv_def)

lemma keeps_GetByte [keeps_intros]: "keeps s (GetByte s)"
  by (simp add: GetByte_def arm_inv_def keeps_fail split: list.split)

lemma keeps_check [keeps_intros]: "b \<Longrightarrow> keeps s r \<Longrightarrow> keeps s (check b r)"
  by (simp add: check_def)

lemma keeps_logged [keeps_intros]:
  assumes "\<And>t. arm_inv s t \<Longrightarrow> keeps t (by_reg t)" and "\<And>t. arm_inv s t \<Longrightarrow> keeps t (always t)"
    and "\<And>t. arm_inv s t \<Longrightarrow> keeps t (exec t)"
  shows "keeps s (arm_logged by_reg always exec s)"
  unfolding arm_logged_def
  by (intro keeps_intros assms) (auto intro: arm_inv_trans)

lemma log_pops_inv: "arm_inv s (log_pops rs off s)"
  by (induction rs off s rule: log_pops.induct) (auto simp: arm_inv_def log_put_def)

lemma log_pops_cfa_inv: "arm_inv s (log_pops rs off (s\<lparr>log_cfa_offset := x\<rparr>))"
  by (rule arm_inv_trans [OF _ log_pops_inv]) (simp add: arm_inv_def)

lemma keeps_log_pop [keeps_intros]: "keeps s (log_pop rs s)"
  unfolding log_pop_def Let_def keeps.simps by (rule log_pops_cfa_inv)

lemma keeps_log_pop_r4 [keeps_intros]: "keeps s (log_pop_r4 byte s)"
  unfolding log_pop_r4_def Let_def keeps.simps by (rule log_pops_cfa_inv)

lemma keeps_sadd32 [keeps_intros]: "keeps s (sadd32 a b (Undef UB_Signed_Overflow) s)"
  by (simp add: sadd32_def)

lemma keeps_adjust [keeps_intros]: "keeps s (adjust_entries off xs s)"
  by (induction off xs s rule: adjust_entries.induct) (auto intro!: keeps_bind keeps_sadd32)

lemma keeps_AdjustRegisters [keeps_intros]: "keeps s (AdjustRegisters off s)"
  unfolding AdjustRegisters_def by (intro keeps_intros) (simp add: arm_inv_def)

lemma keeps_pop_reg [keeps_intros]: "r < length (arm_regs s) \<Longrightarrow> keeps s (pop_reg mem r s)"
  by (auto simp: pop_reg_def Let_def arm_read_failed_def arm_inv_def)

lemma keeps_pop_regs [keeps_intros]:
  "\<forall>r \<in> set rs. r < length (arm_regs s) \<Longrightarrow> keeps s (pop_regs mem rs s)"
proof (induction mem rs s rule: pop_regs.induct)
  case (1 mem s)
  then show ?case by simp
next
  case (2 mem r rs s)
  show ?case
    using 2(2) unfolding pop_regs.simps
    by (intro keeps_bind keeps_pop_reg 2(1)) (auto simp: arm_inv_def)
qed

lemma keeps_cfa_from_reg [keeps_intros]: "r < length (arm_regs s) \<Longrightarrow> keeps s (cfa_from_reg r s)"
  by (simp add: cfa_from_reg_def arm_inv_def)

lemma keeps_arm_uleb [keeps_intros]: "keeps s (arm_uleb result shift s)"
proof (induction result shift s rule: arm_uleb.induct)
  case (1 result shift s)
  show ?case
    by (subst arm_uleb.simps) (auto simp: Let_def intro!: keeps_bind keeps_GetByte 1)
qed

lemma mask_regs_bounds: "r \<in> set (mask_regs lo hi m) \<longleftrightarrow> lo \<le> r \<and> r < hi \<and> bit m r"
  by (auto simp: mask_regs_def)

text \<open>The fields of a byte as numbers, and the byte patterns the decoder distinguishes.\<close>

lemma byte_fields:
  fixes b :: u8
  shows "unat (drop_bit 6 b) = unat b div 64" "unat (drop_bit 4 b) = unat b div 16"
   "unat (drop_bit 3 b) = unat b div 8"
   "unat (drop_bit 4 b AND 3) = unat b div 16 mod 4" "unat (drop_bit 3 b AND 7) = unat b div 8 mod 8"
   "unat (b AND 7) = unat b mod 8" "unat (b AND 0xf) = unat b mod 16"
   "unat (b AND 0x3f) = unat b mod 64"  "unat (b AND 0x7f) = unat b mod 128"
   "bit b 3 = (odd (unat b div 8))" "bit b 7 = (128 \<le> unat b)"
   "unat (b AND NOT 7) = unat b div 8 * 8"
proof -
  have m: "w AND 3 = take_bit 2 w" "w AND 7 = take_bit 3 w" "w AND 0xf = take_bit 4 w" "w AND 0x3f = take_bit 6 w"
    "w AND 0x7f = take_bit 7 w" for w :: u8
    by (simp_all add: take_bit_eq_mask mask_eq_exp_minus_1)
  show "unat (drop_bit 6 b) = unat b div 64" "unat (drop_bit 4 b) = unat b div 16"
   "unat (drop_bit 3 b) = unat b div 8"
   "unat (drop_bit 4 b AND 3) = unat b div 16 mod 4" "unat (drop_bit 3 b AND 7) = unat b div 8 mod 8"
   "unat (b AND 7) = unat b mod 8" "unat (b AND 0xf) = unat b mod 16"
   "unat (b AND 0x3f) = unat b mod 64"  "unat (b AND 0x7f) = unat b mod 128"
    by (simp_all add: m unat_drop_bit_eq unsigned_take_bit_eq drop_bit_eq_div take_bit_eq_mod unat_div_distrib unat_mod_distrib)
  show "bit b 3 = (odd (unat b div 8))"
    using bit_iff_odd[of "unat b" 3] by (simp add: bit_unsigned_iff)
  show "bit b 7 = (128 \<le> unat b)"
  proof (cases "128 \<le> unat b")
    case True
    then have "unat b div 128 = 1"
      using unsigned_less [of b, where ?'a = nat] by (intro div_nat_eqI) simp_all
    then show ?thesis
      using bit_iff_odd [of "unat b" 7] True by (simp add: bit_unsigned_iff)
  next
    case False
    then show ?thesis
      using bit_iff_odd [of "unat b" 7] by (simp add: bit_unsigned_iff)
  qed
  have seven: "(7 :: u8) = mask 3"
    by (simp add: mask_eq_exp_minus_1)
  have eq: "b AND NOT 7 = push_bit 3 (drop_bit 3 b)"
    unfolding seven by (rule bit_word_eqI) (auto simp: bit_simps)
  have "unat (b AND NOT 7) = take_bit 8 (8 * (unat b div 8))"
    unfolding eq unsigned_push_bit_eq
    by (simp add: unat_drop_bit_eq drop_bit_eq_div push_bit_eq_mult unat_div_distrib mult.commute)
  also have "\<dots> = 8 * (unat b div 8)"
    using unsigned_less [of b, where ?'a = nat] by (intro take_bit_nat_eq_self) (simp add: mult.commute le_less_trans [OF div_times_less_eq_dividend])
  finally show "unat (b AND NOT 7) = unat b div 8 * 8"
    by simp
qed

lemma byte_patterns:
  fixes b :: u8
  shows "drop_bit 6 b = 2 \<Longrightarrow> drop_bit 4 b AND 3 = 0 \<Longrightarrow> drop_bit 4 b = 8"
    and "drop_bit 6 b = 2 \<Longrightarrow> drop_bit 4 b AND 3 = 1 \<Longrightarrow> drop_bit 4 b = 9"
    and "drop_bit 6 b = 2 \<Longrightarrow> drop_bit 4 b AND 3 = 2 \<Longrightarrow> drop_bit 4 b = 0xa"
    and "drop_bit 6 b = 2 \<Longrightarrow> drop_bit 4 b AND 3 \<noteq> 0 \<Longrightarrow> drop_bit 4 b AND 3 \<noteq> 1 \<Longrightarrow>
      drop_bit 4 b AND 3 \<noteq> 2 \<Longrightarrow> bit b 3 \<Longrightarrow> b AND NOT 7 = 0xb8"
    and "drop_bit 6 b = 3 \<Longrightarrow> drop_bit 3 b AND 7 = 0 \<Longrightarrow> b AND NOT 7 = 0xc0"
    and "drop_bit 6 b = 3 \<Longrightarrow> drop_bit 3 b AND 7 = 1 \<Longrightarrow> b AND NOT 7 = 0xc8"
    and "drop_bit 6 b = 3 \<Longrightarrow> drop_bit 3 b AND 7 = 2 \<Longrightarrow> b AND NOT 7 = 0xd0"
    and "drop_bit 6 b \<noteq> 0 \<Longrightarrow> drop_bit 6 b \<noteq> 1 \<Longrightarrow> drop_bit 6 b \<noteq> 2 \<Longrightarrow> drop_bit 6 b = 3"
    and "unat (b AND 7) < 8" and "unat (b AND 0xf) < 16"
proof -
  define p where "p = unat b div 8"
  have div: "unat b div 16 = p div 2" "unat b div 64 = p div 8" and bound: "p < 32"
    using unsigned_less [of b, where ?'a = nat] by (simp_all add: p_def div_mult2_eq [symmetric])
  note eqs = word_unat_eq_iff byte_fields div p_def [symmetric]
  have parts: "p div 2 = 4 * (p div 8) + p div 2 mod 4" "p = 8 * (p div 8) + p mod 8"
    "p = 2 * (p div 2) + p mod 2" "p div 2 mod 4 < 4" "p div 8 < 4"
    using bound mult_div_mod_eq [of 4 "p div 2"] by (simp_all add: div_mult2_eq [symmetric])
  show "drop_bit 6 b = 2 \<Longrightarrow> drop_bit 4 b AND 3 = 0 \<Longrightarrow> drop_bit 4 b = 8"
    and "drop_bit 6 b = 2 \<Longrightarrow> drop_bit 4 b AND 3 = 1 \<Longrightarrow> drop_bit 4 b = 9"
    and "drop_bit 6 b = 2 \<Longrightarrow> drop_bit 4 b AND 3 = 2 \<Longrightarrow> drop_bit 4 b = 0xa"
    and "drop_bit 6 b = 2 \<Longrightarrow> drop_bit 4 b AND 3 \<noteq> 0 \<Longrightarrow> drop_bit 4 b AND 3 \<noteq> 1 \<Longrightarrow>
      drop_bit 4 b AND 3 \<noteq> 2 \<Longrightarrow> bit b 3 \<Longrightarrow> b AND NOT 7 = 0xb8"
    and "drop_bit 6 b = 3 \<Longrightarrow> drop_bit 3 b AND 7 = 0 \<Longrightarrow> b AND NOT 7 = 0xc0"
    and "drop_bit 6 b = 3 \<Longrightarrow> drop_bit 3 b AND 7 = 1 \<Longrightarrow> b AND NOT 7 = 0xc8"
    and "drop_bit 6 b = 3 \<Longrightarrow> drop_bit 3 b AND 7 = 2 \<Longrightarrow> b AND NOT 7 = 0xd0"
    and "drop_bit 6 b \<noteq> 0 \<Longrightarrow> drop_bit 6 b \<noteq> 1 \<Longrightarrow> drop_bit 6 b \<noteq> 2 \<Longrightarrow> drop_bit 6 b = 3"
    unfolding eqs odd_iff_mod_2_eq_one using bound parts by (simp; linarith)+
  show "unat (b AND 7) < 8" and "unat (b AND 0xf) < 16"
    by (simp_all add: byte_fields)
qed

lemma keeps_log_put [keeps_intros]: "keeps s (Ok () (log_put r v s))"
  by (simp add: log_put_def arm_inv_def)

lemma arm_inv_regs: "arm_inv s t \<Longrightarrow> length (arm_regs t) = length (arm_regs s)"
  by (simp add: arm_inv_def)

lemma keeps_10_00 [keeps_intros]:
  assumes "length (arm_regs s) = 16" and "drop_bit 4 byte = 8"
  shows "keeps s (DecodePrefix_10_00 mem byte s)"
  unfolding DecodePrefix_10_00_def Let_def
  by (intro keeps_intros assms ballI)
    (use assms in \<open>auto simp: arm_inv_def mask_regs_bounds\<close>)

lemma keeps_10_01 [keeps_intros]:
  assumes "length (arm_regs s) = 16" and "drop_bit 4 byte = 9"
  shows "keeps s (DecodePrefix_10_01 byte s)"
  unfolding DecodePrefix_10_01_def Let_def
  by (intro keeps_intros assms) (use assms byte_patterns(10) [of byte] in \<open>auto simp: arm_inv_def\<close>)

lemma keeps_10_10 [keeps_intros]:
  assumes "length (arm_regs s) = 16" and "drop_bit 4 byte = 0xa"
  shows "keeps s (DecodePrefix_10_10 mem byte s)"
  unfolding DecodePrefix_10_10_def
  by (intro keeps_intros assms ballI)
    (use assms byte_patterns(9) [of byte] in \<open>auto simp: arm_inv_def\<close>)

lemma keeps_10_11_0000 [keeps_intros]: "keeps s (DecodePrefix_10_11_0000 s)"
  and keeps_10_11_01nn [keeps_intros]: "keeps s (DecodePrefix_10_11_01nn s)"
  unfolding DecodePrefix_10_11_0000_def DecodePrefix_10_11_01nn_def by (intro keeps_intros)+

lemma keeps_10_11_0001 [keeps_intros]:
  assumes "length (arm_regs s) = 16"
  shows "keeps s (DecodePrefix_10_11_0001 mem s)"
  unfolding DecodePrefix_10_11_0001_def
  by (intro keeps_intros ballI) (use assms in \<open>auto simp: arm_inv_def mask_regs_bounds\<close>)

lemma keeps_10_11_0010 [keeps_intros]: "keeps s (DecodePrefix_10_11_0010 s)"
  unfolding DecodePrefix_10_11_0010_def Let_def
  by (intro keeps_intros) (simp_all add: arm_inv_def)

lemma keeps_10_11_0011 [keeps_intros]: "keeps s (DecodePrefix_10_11_0011 s)"
  unfolding DecodePrefix_10_11_0011_def by (intro keeps_intros)

lemma keeps_10_11_1nnn [keeps_intros]:
  "byte AND NOT 7 = 0xb8 \<Longrightarrow> keeps s (DecodePrefix_10_11_1nnn byte s)"
  unfolding DecodePrefix_10_11_1nnn_def by (intro keeps_intros)

lemma keeps_10 [keeps_intros]:
  assumes "length (arm_regs s) = 16" and "drop_bit 6 byte = 2"
  shows "keeps s (DecodePrefix_10 mem byte s)"
  unfolding DecodePrefix_10_def Let_def
  by (intro keeps_intros assms) (use assms byte_patterns in blast)+

lemma keeps_11_000 [keeps_intros]: "byte AND NOT 7 = 0xc0 \<Longrightarrow> keeps s (DecodePrefix_11_000 byte s)"
  unfolding DecodePrefix_11_000_def Let_def by (intro keeps_intros)

lemma keeps_11_001 [keeps_intros]: "byte AND NOT 7 = 0xc8 \<Longrightarrow> keeps s (DecodePrefix_11_001 byte s)"
  unfolding DecodePrefix_11_001_def Let_def by (intro keeps_intros)

lemma keeps_11_010 [keeps_intros]: "byte AND NOT 7 = 0xd0 \<Longrightarrow> keeps s (DecodePrefix_11_010 byte s)"
  unfolding DecodePrefix_11_010_def by (intro keeps_intros)

lemma keeps_11 [keeps_intros]:
  assumes "drop_bit 6 byte = 3"
  shows "keeps s (DecodePrefix_11 byte s)"
  unfolding DecodePrefix_11_def Let_def
  by (intro keeps_intros assms) (use assms byte_patterns in blast)+

text \<open>After the first byte has been taken, the rest of an instruction keeps the invariant.\<close>

lemma keeps_Decode:
  assumes "length (arm_regs s) = 16"
  shows "keeps s (ArmExidx_Decode mem s)"
  unfolding ArmExidx_Decode_def Let_def
  apply (rule keeps_bind)
   apply (rule keeps_trans [OF _ keeps_GetByte])
   apply (simp add: arm_inv_def)
  apply (intro keeps_intros)
  by (use assms byte_patterns in \<open>auto simp: arm_inv_def\<close>)


lemma Decode_consumes:
  assumes "length (arm_regs s) = 16" and "ArmExidx_Decode mem s = Ok v t"
  shows "length (arm_regs t) = 16 \<and> length (arm_data t) < length (arm_data s)"
proof (cases "arm_data s")
  case Nil
  then show ?thesis
    using assms(2) by (simp add: ArmExidx_Decode_def GetByte_def arm_fail_def)
next
  case (Cons b bs)
  let ?s = "s\<lparr>arm_status := ARM_STATUS_NONE, arm_data := bs\<rparr>"
  have "keeps ?s (ArmExidx_Decode mem s)"
    unfolding ArmExidx_Decode_def Let_def GetByte_def using Cons
    by (simp, intro conjI impI keeps_intros) (use assms byte_patterns in \<open>auto simp: arm_inv_def\<close>)
  then show ?thesis
    using assms Cons by (simp add: arm_inv_def)
qed

lemma arm_eval_loop_returns:
  assumes "length (arm_regs s) = 16"
  shows "\<exists>r. arm_eval_loop mem s = Some r \<and> keeps s r \<and> (\<forall>v t. r \<noteq> Ok v t)"
  using assms
proof (induction "length (arm_data s)" arbitrary: s rule: less_induct)
  case less
  have keeps: "keeps s (ArmExidx_Decode mem s)"
    using less(2) by (rule keeps_Decode)
  show ?case
  proof (cases "ArmExidx_Decode mem s")
    case (Ok v t)
    then show ?thesis
      using less(1) [of t] Decode_consumes [OF less(2) Ok] keeps
      by (subst arm_eval_loop.simps) (auto intro: keeps_trans)
  qed (use keeps in \<open>simp_all add: arm_eval_loop.simps [of mem s]\<close>)
qed

lemma ArmExidx_Eval_keeps:
  assumes "length (arm_regs s) = 16"
  shows "\<exists>r. ArmExidx_Eval mem s = Some r \<and> keeps s r \<and>
     (\<forall>t. r = Ok () t \<longrightarrow> arm_status t = ARM_STATUS_FINISH) \<and>
     (\<forall>t. r = Fail t \<longrightarrow> arm_status t \<noteq> ARM_STATUS_FINISH)"
proof -
  obtain r where r: "arm_eval_loop mem (s\<lparr>pc_set := False\<rparr>) = Some r"
      "keeps (s\<lparr>pc_set := False\<rparr>) r" "\<And>v t. r \<noteq> Ok v t"
    using arm_eval_loop_returns [of "s\<lparr>pc_set := False\<rparr>" mem] assms by auto
  from r(2) have "keeps s r"
    by (rule keeps_trans [rotated]) (simp add: arm_inv_def)
  with r(1,3) show ?thesis
    by (cases r) (auto simp: ArmExidx_Eval_def)
qed

text \<open>
  C31. Whatever bytes the unwind table holds, the evaluation of an entry returns: it ends, keeps the
  sixteen registers, leaves no container and trips no \<^verbatim>\<open>CHECK\<close>; it returns true exactly with the
  status \<^verbatim>\<open>ARM_STATUS_FINISH\<close>. The remaining undefined behaviours are an over-long ULEB128 and, with
  logging on, signed overflow of the bookkeeping.
\<close>

theorem ArmExidx_Eval_returns:
  assumes "length (arm_regs s) = 16"
  shows "\<exists>r. ArmExidx_Eval mem s = Some r \<and> keeps s r \<and>
     (\<forall>t. r = Ok () t \<longrightarrow> arm_status t = ARM_STATUS_FINISH) \<and>
     (\<forall>t. r = Fail t \<longrightarrow> arm_status t \<noteq> ARM_STATUS_FINISH)"
  using assms by (rule ArmExidx_Eval_keeps)


text \<open>An entry that pops below its stack and has no finish instruction.\<close>

definition plain_arm :: "u8 list \<Rightarrow> arm_exidx" where
  "plain_arm bs = \<lparr>arm_regs = replicate 16 0, arm_cfa = 0x1000, arm_data = bs, arm_status = ARM_STATUS_NONE,
     arm_status_address = 0, log_type = ARM_LOG_NONE, log_skip_execution = False, pc_set = False,
     log_cfa_offset = 0, log_regs = []\<rparr>"

theorem ArmExidx_Eval_returns_witness:
  "\<exists>r. ArmExidx_Eval (\<lambda>a n. []) (plain_arm [0x01, 0xa9]) = Some r \<and> keeps (plain_arm [0x01, 0xa9]) r \<and>
     (\<forall>t. r = Ok () t \<longrightarrow> arm_status t = ARM_STATUS_FINISH) \<and>
     (\<forall>t. r = Fail t \<longrightarrow> arm_status t \<noteq> ARM_STATUS_FINISH)"
  by (rule ArmExidx_Eval_returns) (simp add: plain_arm_def)

end
