(* ===== verification/Ehabi_Spec.thy ===== *)
theory Ehabi_Spec
  imports Arm_Exidx
begin

text \<open>
  The Exception Handling ABI for the ARM architecture, as arithmetic on numbers: the bytes of a table
  entry, the unwind instructions by the nibbles of their first byte, their effect on the registers and
  the virtual stack pointer in closed form.
\<close>

section \<open>Table entries\<close>

definition prel31 :: "u32 \<Rightarrow> int" where
  "prel31 w = (let v = uint w mod 2 ^ 31 in if v < 2 ^ 30 then v else v - 2 ^ 31)"

definition be_bytes :: "u32 \<Rightarrow> u8 list" where
  "be_bytes w = rev (to_le 4 (unat w))"

fun table_words :: "reader \<Rightarrow> u32 \<Rightarrow> nat \<Rightarrow> u8 list option" where
  "table_words elf a 0 = Some []"
| "table_words elf a (Suc n) =
     (case Read32 elf (ucast a) of
        None \<Rightarrow> None
      | Some w \<Rightarrow> map_option (\<lambda>bs. be_bytes w @ bs) (table_words elf (a + 4) n))"

definition personality :: "u32 \<Rightarrow> nat" where
  "personality w = unat w div 2 ^ 24 mod 16"

text \<open>\<open>with_table n a bs\<close>: the bytes \<open>bs\<close> followed by \<open>n\<close> table words at \<open>a\<close>, at most five.\<close>

definition with_table :: "reader \<Rightarrow> u8 \<Rightarrow> u32 \<Rightarrow> u8 list \<Rightarrow> u8 list option" where
  "with_table elf n a bs =
     (if 5 < unat n then None else map_option (\<lambda>ws. bs @ ws) (table_words elf a (unat n)))"

definition handler_data :: "reader \<Rightarrow> u32 \<Rightarrow> u8 list option" where
  "handler_data elf a =
     (case Read32 elf (ucast a) of
        None \<Rightarrow> None
      | Some h \<Rightarrow>
          if 2 ^ 31 \<le> unat h then
            if personality h = 0 then Some (drop 1 (be_bytes h))
            else if personality h \<le> 2 then with_table elf (be_bytes h ! 1) (a + 4) (drop 2 (be_bytes h))
            else None
          else
            case Read32 elf (ucast (a + 4)) of
              None \<Rightarrow> None
            | Some g \<Rightarrow> with_table elf (be_bytes g ! 0) (a + 8) (drop 1 (be_bytes g)))"

definition entry_ops :: "reader \<Rightarrow> u32 \<Rightarrow> u8 list option" where
  "entry_ops elf e =
     (if odd (unat e) then None
      else
        case Read32 elf (ucast (e + 4)) of
          None \<Rightarrow> None
        | Some w \<Rightarrow>
            if w = 1 then None
            else if 2 ^ 31 \<le> unat w then
              if personality w = 0 then Some (drop 1 (be_bytes w)) else None
            else handler_data elf (e + 4 + of_int (prel31 w)))"

text \<open>The instructions closed by a finish.\<close>

definition finished :: "u8 list \<Rightarrow> u8 list" where
  "finished bs = bs @ (if last bs = 0xb0 then [] else [0xb0])"

section \<open>Instructions\<close>

datatype ehabi_inst =
    Move_Vsp int | Pop "nat list" | Set_Vsp nat | Finish | Refuse | Reserved | Spare | Undefined

definition mask_list :: "nat \<Rightarrow> nat \<Rightarrow> nat \<Rightarrow> nat list" where
  "mask_list lo n m = filter (\<lambda>r. odd (m div 2 ^ (r - lo))) [lo ..< lo + n]"

text \<open>A ULEB128 of at most five bytes and 32 bits; the first component counts the bytes before.\<close>

fun ehabi_uleb :: "nat \<Rightarrow> u8 list \<Rightarrow> (nat option \<times> u8 list) option" where
  "ehabi_uleb i [] = None"
| "ehabi_uleb i (b # bs) =
     (if 5 \<le> i \<or> (i = 4 \<and> 16 \<le> unat b mod 128) then Some (None, bs)
      else if unat b < 128 then Some (Some (unat b), bs)
      else map_option (\<lambda>(v, r). (map_option (\<lambda>v. unat b mod 128 + 128 * v) v, r)) (ehabi_uleb (i + 1) bs))"

definition second_byte :: "(nat \<Rightarrow> ehabi_inst) \<Rightarrow> u8 list \<Rightarrow> (ehabi_inst \<times> u8 list) option" where
  "second_byte f bs = (case bs of [] \<Rightarrow> None | c # cs \<Rightarrow> Some (f (unat c), cs))"

definition pop_under_mask :: "nat \<Rightarrow> nat \<Rightarrow> ehabi_inst" where
  "pop_under_mask hi c =
     (if 256 * hi + c = 0 then Refuse else Pop (mask_list 4 12 (256 * hi + c)))"

definition low_mask :: "(nat \<Rightarrow> ehabi_inst) \<Rightarrow> nat \<Rightarrow> ehabi_inst" where
  "low_mask f c = (if c = 0 \<or> 16 \<le> c then Spare else f c)"

definition vfp_pop :: "nat \<Rightarrow> nat \<Rightarrow> ehabi_inst" where
  "vfp_pop pad count = Move_Vsp (8 * int count + int pad)"

definition nibbles_B :: "nat \<Rightarrow> u8 list \<Rightarrow> (ehabi_inst \<times> u8 list) option" where
  "nibbles_B l bs =
     (if l = 0 then Some (Finish, bs)
      else if l = 1 then second_byte (low_mask (\<lambda>c. Pop (mask_list 0 4 c))) bs
      else if l = 2 then
        map_option (\<lambda>(v, r). (case v of None \<Rightarrow> Undefined | Some v \<Rightarrow> Move_Vsp (0x204 + 4 * int v), r))
          (ehabi_uleb 0 bs)
      else if l = 3 then second_byte (\<lambda>c. vfp_pop 4 (c mod 16 + 1)) bs
      else if l < 8 then Some (Spare, bs)
      else Some (vfp_pop 4 (l - 8 + 1), bs))"

definition nibbles_C :: "nat \<Rightarrow> u8 list \<Rightarrow> (ehabi_inst \<times> u8 list) option" where
  "nibbles_C l bs =
     (if l < 6 then Some (vfp_pop 0 (l + 1), bs)
      else if l = 6 then second_byte (\<lambda>c. vfp_pop 0 (c mod 16 + 1)) bs
      else if l = 7 then second_byte (low_mask (\<lambda>c. Move_Vsp (4 * int (length (mask_list 0 4 c))))) bs
      else if l < 10 then second_byte (\<lambda>c. vfp_pop 0 (c mod 16 + 1)) bs
      else Some (Spare, bs))"

text \<open>The instruction at the head of the bytes and the bytes after it; \<open>None\<close> when it is cut off.\<close>

definition ehabi_next :: "u8 list \<Rightarrow> (ehabi_inst \<times> u8 list) option" where
  "ehabi_next bytes =
     (case bytes of
        [] \<Rightarrow> None
      | b # bs \<Rightarrow>
          let h = unat b div 16; l = unat b mod 16; x = int (unat b mod 64)
          in if h < 4 then Some (Move_Vsp (4 * x + 4), bs)
             else if h < 8 then Some (Move_Vsp (- (4 * x + 4)), bs)
             else if h = 8 then second_byte (pop_under_mask l) bs
             else if h = 9 then Some (if l = 13 \<or> l = 15 then Reserved else Set_Vsp l, bs)
             else if h = 10 then
               Some (Pop ([4 ..< 5 + l mod 8] @ (if 8 \<le> l then [14] else [])), bs)
             else if h = 11 then nibbles_B l bs
             else if h = 12 then nibbles_C l bs
             else Some (if h = 13 \<and> l < 8 then vfp_pop 0 (l + 1) else Spare, bs))"

section \<open>Execution\<close>

record ehabi_state =
  e_regs :: "u32 list"
  e_vsp :: u32
  e_pc_set :: bool

definition stack_word :: "reader \<Rightarrow> u32 \<Rightarrow> nat \<Rightarrow> u32 option" where
  "stack_word mem vsp i = Read32 mem (ucast (vsp + 4 * of_nat i))"

text \<open>
  A pop: register \<open>r\<close> of the list gets the word at \<open>4 * k\<close> above the stack pointer, where \<open>k\<close> is the
  number of popped registers below it; popping \<open>sp\<close> sets the stack pointer.
\<close>

definition popped :: "reader \<Rightarrow> nat list \<Rightarrow> u32 \<Rightarrow> u32 list \<Rightarrow> u32 list" where
  "popped mem rs vsp regs =
     map (\<lambda>r. if r \<in> set rs then the (stack_word mem vsp (length (filter (\<lambda>q. q < r) rs)))
              else regs ! r) [0 ..< length regs]"

definition pop_readable :: "reader \<Rightarrow> u32 \<Rightarrow> nat \<Rightarrow> bool" where
  "pop_readable mem vsp n \<longleftrightarrow> list_all (\<lambda>i. stack_word mem vsp i \<noteq> None) [0 ..< n]"

datatype ehabi_result = Next ehabi_state | Stop ArmStatus | Bad

definition ehabi_pop :: "reader \<Rightarrow> nat list \<Rightarrow> ehabi_state \<Rightarrow> ehabi_result" where
  "ehabi_pop mem rs e =
     (let regs = popped mem rs (e_vsp e) (e_regs e)
      in if pop_readable mem (e_vsp e) (length rs) then
           Next \<lparr>e_regs = regs,
                 e_vsp = (if 13 \<in> set rs then regs ! 13 else e_vsp e + 4 * of_nat (length rs)),
                 e_pc_set = (e_pc_set e \<or> 15 \<in> set rs)\<rparr>
         else Stop ARM_STATUS_READ_FAILED)"

fun ehabi_exec :: "reader \<Rightarrow> ehabi_inst \<Rightarrow> ehabi_state \<Rightarrow> ehabi_result" where
  "ehabi_exec mem (Move_Vsp d) e = Next (e\<lparr>e_vsp := e_vsp e + of_int d\<rparr>)"
| "ehabi_exec mem (Pop rs) e = ehabi_pop mem rs e"
| "ehabi_exec mem (Set_Vsp r) e = Next (e\<lparr>e_vsp := e_regs e ! r\<rparr>)"
| "ehabi_exec mem Finish e = Stop ARM_STATUS_FINISH"
| "ehabi_exec mem Refuse e = Stop ARM_STATUS_NO_UNWIND"
| "ehabi_exec mem Reserved e = Stop ARM_STATUS_RESERVED"
| "ehabi_exec mem Spare e = Stop ARM_STATUS_SPARE"
| "ehabi_exec mem Undefined e = Bad"

section \<open>A whole entry\<close>

lemma ehabi_uleb_shorter: "ehabi_uleb i bs = Some (v, r) \<Longrightarrow> length r < length bs"
  by (induction i bs arbitrary: v r rule: ehabi_uleb.induct) (fastforce split: if_splits)+

lemma second_byte_shorter: "second_byte f bs = Some (i, r) \<Longrightarrow> length r < length bs"
  by (auto simp: second_byte_def split: list.splits)

lemma ehabi_next_shorter: "ehabi_next bs = Some (i, r) \<Longrightarrow> length r < length bs"
  by (auto simp: ehabi_next_def nibbles_B_def nibbles_C_def Let_def split: list.splits if_splits
      dest!: second_byte_shorter ehabi_uleb_shorter)

text \<open>
  The status and the state at the end of the instructions; the status \<open>None\<close> stands for an operand
  outside the ABI.
\<close>

function ehabi_run :: "reader \<Rightarrow> u8 list \<Rightarrow> ehabi_state \<Rightarrow> ArmStatus option \<times> ehabi_state" where
  "ehabi_run mem bs e =
     (case ehabi_next bs of
        None \<Rightarrow> (Some ARM_STATUS_TRUNCATED, e)
      | Some (i, rest) \<Rightarrow>
          (case ehabi_exec mem i e of
             Next e' \<Rightarrow> ehabi_run mem rest e'
           | Stop st \<Rightarrow> (Some st, e)
           | Bad \<Rightarrow> (None, e)))"
  by pat_completeness auto
termination
  by (relation "measure (\<lambda>(mem, bs, e). length bs)") (auto dest: ehabi_next_shorter)

declare ehabi_run.simps [simp del]

end
