(* ===== verification/Arm_Ehabi.thy ===== *)
theory Arm_Ehabi
  imports Ehabi_Spec
begin

text \<open>
  That \<^verbatim>\<open>ArmExidx::Decode\<close>, \<^verbatim>\<open>ArmExidx::Eval\<close> and \<^verbatim>\<open>ArmExidx::ExtractEntryData\<close> compute what the ARM EHABI
  prescribes.
\<close>

section \<open>Pops\<close>

definition ehabi_abs :: "arm_exidx \<Rightarrow> ehabi_state" where
  "ehabi_abs s = \<lparr>e_regs = arm_regs s, e_vsp = arm_cfa s, e_pc_set = pc_set s\<rparr>"

lemma overlay_whole: "length bs = 4 \<Longrightarrow> overlay bs old = le_word bs"
  by (simp add: overlay_def)

lemma pop_reg_Read32:
  assumes "r < length (arm_regs s)"
  shows "\<lbrakk>Read32 mem (ucast (arm_cfa s)) = Some w\<rbrakk> \<Longrightarrow>
      pop_reg mem r s = Ok () (s\<lparr>arm_regs := (arm_regs s)[r := w], arm_cfa := arm_cfa s + 4\<rparr>)"
    and "Read32 mem (ucast (arm_cfa s)) = None \<Longrightarrow>
      \<exists>t. pop_reg mem r s = Fail t \<and> arm_status t = ARM_STATUS_READ_FAILED"
  using assms
  by (auto simp: pop_reg_def Let_def overlay_whole Read32_def ReadFully_def arm_read_failed_def
      split: if_splits)

lemma stack_word_Suc: "stack_word mem vsp (Suc i) = stack_word mem (vsp + 4) i"
  by (simp add: stack_word_def algebra_simps)

lemma stack_word_0: "stack_word mem vsp 0 = Read32 mem (ucast vsp)"
  by (simp add: stack_word_def)

lemma pop_readable_Suc:
  "pop_readable mem vsp (Suc n) \<longleftrightarrow> Read32 mem (ucast vsp) \<noteq> None \<and> pop_readable mem (vsp + 4) n"
proof -
  have "[0 ..< Suc n] = 0 # map Suc [0 ..< n]"
    by (simp add: map_Suc_upt upt_conv_Cons del: upt_Suc)
  then show ?thesis
    by (simp add: pop_readable_def stack_word_0 stack_word_Suc list.pred_map comp_def del: upt_Suc)
qed

lemma popped_Cons:
  assumes "sorted_wrt (<) (r # rs)" and "r < length regs" and "Read32 mem (ucast vsp) = Some w"
  shows "popped mem rs (vsp + 4) (regs[r := w]) = popped mem (r # rs) vsp regs"
proof -
  have none: "filter (\<lambda>q. q < r) rs = []"
    using assms(1) by (auto simp: filter_empty_conv)
  show ?thesis
    using assms none
    by (auto simp: popped_def stack_word_Suc [symmetric] stack_word_0)
qed

lemma pop_regs_popped:
  assumes "sorted_wrt (<) rs" and "\<forall>r \<in> set rs. r < length (arm_regs s)"
  shows "pop_readable mem (arm_cfa s) (length rs) \<Longrightarrow>
      pop_regs mem rs s = Ok () (s\<lparr>arm_regs := popped mem rs (arm_cfa s) (arm_regs s),
        arm_cfa := arm_cfa s + 4 * of_nat (length rs)\<rparr>)"
    and "\<not> pop_readable mem (arm_cfa s) (length rs) \<Longrightarrow>
      \<exists>t. pop_regs mem rs s = Fail t \<and> arm_status t = ARM_STATUS_READ_FAILED"
  using assms
proof (induction rs arbitrary: s)
  case Nil
  {
    case 1
    then show ?case by (simp add: popped_def map_nth)
  next
    case 2
    then show ?case by (simp add: pop_readable_def)
  }
next
  case (Cons r rs)
  {
    case 1
    then obtain w where w: "Read32 mem (ucast (arm_cfa s)) = Some w"
      and rest: "pop_readable mem (arm_cfa s + 4) (length rs)"
      by (auto simp: pop_readable_Suc)
    with 1 Cons(1) [of "s\<lparr>arm_regs := (arm_regs s)[r := w], arm_cfa := arm_cfa s + 4\<rparr>"]
    show ?case
      by (simp add: pop_reg_Read32 popped_Cons algebra_simps)
  next
    case 2
    show ?case
    proof (cases "Read32 mem (ucast (arm_cfa s))")
      case None
      with 2 pop_reg_Read32(2) [of r s mem] show ?thesis by auto
    next
      case (Some w)
      with 2 Cons(2) [of "s\<lparr>arm_regs := (arm_regs s)[r := w], arm_cfa := arm_cfa s + 4\<rparr>"]
      show ?thesis
        by (auto simp: pop_reg_Read32 pop_readable_Suc)
    qed
  }
qed


section \<open>One instruction\<close>

text \<open>The outcome of decoding in \<open>s\<close> is the effect of the next instruction on the abstract state.\<close>

definition matches ::
  "reader \<Rightarrow> arm_exidx \<Rightarrow> (ehabi_inst \<times> u8 list) option \<Rightarrow> arm_outcome \<Rightarrow> bool" where
  "matches mem s nxt r =
     (case nxt of
        None \<Rightarrow> \<exists>t. r = Fail t \<and> arm_status t = ARM_STATUS_TRUNCATED \<and> ehabi_abs t = ehabi_abs s
      | Some (i, rest) \<Rightarrow>
          (case ehabi_exec mem i (ehabi_abs s) of
             Next e \<Rightarrow> \<exists>t. r = Ok () t \<and> ehabi_abs t = e \<and> arm_data t = rest \<and> log_type t = log_type s
           | Stop st \<Rightarrow> \<exists>t. r = Fail t \<and> arm_status t = st \<and>
               (st \<noteq> ARM_STATUS_READ_FAILED \<longrightarrow> ehabi_abs t = ehabi_abs s)
           | Bad \<Rightarrow> r = Undef UB_Shift))"

named_theorems matching \<open>parts of the decoder that match the specification\<close>

lemma matches_cong:
  "ehabi_abs s = ehabi_abs s' \<Longrightarrow> log_type s = log_type s' \<Longrightarrow> matches mem s = matches mem s'"
  by (intro ext) (simp only: matches_def)

lemma matches_SomeE:
  assumes "matches mem s (Some (i, rest)) r"
  obtains (nxt) t where "r = Ok () t" "ehabi_exec mem i (ehabi_abs s) = Next (ehabi_abs t)"
      "arm_data t = rest" "log_type t = log_type s"
  | (stop) t where "r = Fail t" "ehabi_exec mem i (ehabi_abs s) = Stop (arm_status t)"
      "arm_status t \<noteq> ARM_STATUS_READ_FAILED \<Longrightarrow> ehabi_abs t = ehabi_abs s"
  | (bad) "r = Undef UB_Shift" "ehabi_exec mem i (ehabi_abs s) = Bad"
  using assms unfolding matches_def by (cases "ehabi_exec mem i (ehabi_abs s)") auto

lemma matches_NoneE:
  assumes "matches mem s None r"
  obtains t where "r = Fail t" "arm_status t = ARM_STATUS_TRUNCATED" "ehabi_abs t = ehabi_abs s"
  using assms unfolding matches_def by auto

lemma matches_second_byte [matching]:
  assumes "\<And>c cs. arm_data s = c # cs \<Longrightarrow>
    matches mem (s\<lparr>arm_data := cs\<rparr>) (Some (f (unat c), cs)) (g c (s\<lparr>arm_data := cs\<rparr>))"
  shows "matches mem s (second_byte f (arm_data s)) (bind_out (GetByte s) g)"
proof (cases "arm_data s")
  case Nil
  then show ?thesis
    by (simp add: matches_def second_byte_def GetByte_def arm_fail_def ehabi_abs_def)
next
  case (Cons c cs)
  have "matches mem (s\<lparr>arm_data := cs\<rparr>) = matches mem s"
    by (rule matches_cong) (simp_all add: ehabi_abs_def)
  then show ?thesis
    using assms [OF Cons] Cons by (simp add: second_byte_def GetByte_def)
qed

lemma matches_move [matching]:
  "log_type s = ARM_LOG_NONE \<Longrightarrow> d' = of_int d \<Longrightarrow> arm_data s = rest \<Longrightarrow>
    matches mem s (Some (Move_Vsp d, rest)) (arm_logged by_reg always (add_cfa d') s)"
  by (simp add: matches_def arm_logged_def add_cfa_def ehabi_abs_def)

lemma matches_fail [matching]:
  "matches mem s (Some (Finish, rest)) (arm_fail ARM_STATUS_FINISH s)"
  "matches mem s (Some (Refuse, rest)) (arm_fail ARM_STATUS_NO_UNWIND s)"
  "matches mem s (Some (Reserved, rest)) (arm_fail ARM_STATUS_RESERVED s)"
  "matches mem s (Some (Spare, rest)) (arm_fail ARM_STATUS_SPARE s)"
  by (simp_all add: matches_def arm_fail_def ehabi_abs_def)

lemma matches_set_vsp [matching]:
  "log_type s = ARM_LOG_NONE \<Longrightarrow> r < length (arm_regs s) \<Longrightarrow> arm_data s = rest \<Longrightarrow>
    matches mem s (Some (Set_Vsp r, rest)) (arm_logged by_reg always (cfa_from_reg r) s)"
  by (simp add: matches_def arm_logged_def cfa_from_reg_def ehabi_abs_def)

lemma matches_pop [matching]:
  assumes "log_type s = ARM_LOG_NONE" and "sorted_wrt (<) rs" and "\<forall>r \<in> set rs. r < length (arm_regs s)"
    and "13 \<notin> set rs" and "15 \<notin> set rs" and "arm_data s = rest"
  shows "matches mem s (Some (Pop rs, rest)) (arm_logged by_reg always (pop_regs mem rs) s)"
  using pop_regs_popped [OF assms(2,3), of mem] assms
  by (auto simp: matches_def arm_logged_def ehabi_abs_def ehabi_pop_def Let_def)

lemma pop_regs_append:
  "pop_regs mem (xs @ ys) = (\<lambda>s. bind_out (pop_regs mem xs s) (\<lambda>_. pop_regs mem ys))"
proof (induction xs)
  case (Cons r xs)
  then show ?case
    by (intro ext) (simp add: bind_out_assoc)
qed (simp add: fun_eq_iff)

lemma pop_regs_single: "pop_regs mem [r] s = pop_reg mem r s"
  by (cases "pop_reg mem r s") simp_all

lemma matches_pop_sp_pc:
  assumes "log_type s = ARM_LOG_NONE" and "sorted_wrt (<) rs" and "\<forall>r \<in> set rs. r < length (arm_regs s)"
    and "arm_data s = rest"
  shows "matches mem s (Some (Pop rs, rest))
    (arm_logged by_reg always
      (\<lambda>s. bind_out (pop_regs mem rs s) (\<lambda>_ s.
         bind_out (if 13 \<in> set rs then cfa_from_reg 13 s else Ok () s)
           (\<lambda>_ s. Ok () (if 15 \<in> set rs then s\<lparr>pc_set := True\<rparr> else s)))) s)"
proof (cases "pop_readable mem (arm_cfa s) (length rs)")
  case True
  then show ?thesis
    using pop_regs_popped(1) [OF assms(2,3) True] assms
    by (auto simp: matches_def arm_logged_def ehabi_abs_def ehabi_pop_def Let_def cfa_from_reg_def
        popped_def)
next
  case False
  then show ?thesis
    using pop_regs_popped(2) [OF assms(2,3) False] assms
    by (auto simp: matches_def arm_logged_def ehabi_abs_def ehabi_pop_def Let_def)
qed

lemma ucast_of_nat: "ucast (b :: u8) = (of_nat (unat b) :: 'a::len word)"
  by simp

lemma vfp_words:
  "ucast (b AND 0xf) * 8 + 12 = (of_int (8 * int (unat b mod 16 + 1) + int 4) :: u32)"
  "ucast (b AND 0xf) * 8 + 8 = (of_int (8 * int (unat b mod 16 + 1) + int 0) :: u32)"
  "ucast (b AND 7) * 8 + 12 = (of_int (8 * int (unat b mod 8 + 1) + int 4) :: u32)"
  "ucast (b AND 7) * 8 + 8 = (of_int (8 * int (unat b mod 8 + 1) + int 0) :: u32)"
  for b :: u8
  unfolding ucast_of_nat byte_fields by (simp_all add: algebra_simps)

lemma mask_list_sorted: "sorted_wrt (<) (mask_list lo n m)"
  by (simp add: mask_list_def sorted_wrt_filter)

lemma mask_list_bounds: "r \<in> set (mask_list lo n m) \<Longrightarrow> lo \<le> r \<and> r < lo + n"
  by (auto simp: mask_list_def)

lemma mask_regs_low: "mask_regs 0 n (b :: u8) = mask_list 0 n (unat b)"
  by (simp add: mask_regs_def mask_list_def bit_iff_odd [symmetric] bit_unsigned_iff)


lemma mask_16:
  fixes b c :: u8
  defines "m \<equiv> push_bit 8 (ucast (b AND 0xf)) OR ucast c :: u16"
  shows "unat m = 256 * (unat b mod 16) + unat c"
    and "mask_regs 4 16 (push_bit 4 m) = mask_list 4 12 (256 * (unat b mod 16) + unat c)"
proof -
  have "m = push_bit 8 (ucast (b AND 0xf)) + ucast c"
    unfolding m_def by (rule disjunctive_add_eq_or [symmetric], rule bit_word_eqI)
      (auto simp: bit_simps dest: bit_imp_le_length)
  also have "\<dots> = of_nat (256 * (unat b mod 16) + unat c)"
    unfolding ucast_of_nat byte_fields push_bit_eq_mult by (simp add: mult.commute)
  finally have m: "m = of_nat (256 * (unat b mod 16) + unat c)" .
  have "256 * (unat b mod 16) + unat c < 2 ^ 16"
    using unsigned_less [of c, where ?'a = nat] mod_less_divisor [of 16 "unat b"] by simp
  then show *: "unat m = 256 * (unat b mod 16) + unat c"
    by (intro of_nat_inverse [OF m [symmetric]]) simp
  show "mask_regs 4 16 (push_bit 4 m) = mask_list 4 12 (256 * (unat b mod 16) + unat c)"
    unfolding * [symmetric] mask_regs_def mask_list_def
    by (rule filter_cong) (auto simp: bit_simps bit_iff_odd [symmetric])
qed


lemma nibble_bit3: "odd (n div 8) \<longleftrightarrow> 8 \<le> n mod 16" for n :: nat
proof -
  have "n = 8 * (2 * (n div 16)) + n mod 16"
    by simp
  then have "n div 8 = 2 * (n div 16) + n mod 16 div 8"
    by (metis div_mult_self4 zero_neq_numeral)
  then have "odd (n div 8) \<longleftrightarrow> odd (n mod 16 div 8)"
    by simp
  moreover have "n mod 16 div 8 = (if 8 \<le> n mod 16 then 1 else 0)"
    by (auto intro!: div_nat_eqI)
  ultimately show ?thesis
    by simp
qed

lemma matches_10_00:
  assumes "log_type s = ARM_LOG_NONE" and "length (arm_regs s) = 16" and "unat byte div 16 = 8"
  shows "matches mem s (second_byte (pop_under_mask (unat byte mod 16)) (arm_data s))
    (DecodePrefix_10_00 mem byte s)"
proof -
  have check: "drop_bit 4 byte = 8"
    using assms(3) by (simp add: word_unat_eq_iff byte_fields)
  have zero: "(push_bit 8 (ucast (byte AND 0xf)) OR ucast c :: u16) = 0 \<longleftrightarrow>
      256 * (unat byte mod 16) + unat c = 0" for c :: u8
    unfolding word_unat_eq_iff mask_16(1) by simp
  show ?thesis
    unfolding DecodePrefix_10_00_def check_def if_P [OF check] Let_def zero mask_16(2)
  proof (rule matches_second_byte, goal_cases)
    case (1 c cs)
    let ?m = "256 * (unat byte mod 16) + unat c"
    let ?rs = "mask_list 4 12 ?m"
    let ?w = "push_bit 4 (push_bit 8 (ucast (byte AND 0xf)) OR ucast c) :: u16"
    have bits: "bit ?w r \<longleftrightarrow> r \<in> set ?rs" if "4 \<le> r" "r < 16" for r
      unfolding mask_16(2) [symmetric] mask_regs_bounds using that by simp
    have sp: "bit ?w 13 \<longleftrightarrow> 13 \<in> set ?rs" and pc: "bit ?w 15 \<longleftrightarrow> 15 \<in> set ?rs"
      by (rule bits; simp)+
    have bounds: "\<forall>r \<in> set ?rs. r < length (arm_regs (s\<lparr>arm_data := cs\<rparr>))"
      using assms(2) mask_list_bounds by fastforce
    show ?case
    proof (cases "?m = 0")
      case True
      show ?thesis
        unfolding pop_under_mask_def if_P [OF True] by (rule matches_fail)
    next
      case False
      show ?thesis
        unfolding pop_under_mask_def if_not_P [OF False] sp pc
        by (intro matches_pop_sp_pc mask_list_sorted bounds) (simp_all add: assms)
    qed
  qed
qed

lemma matches_10_01:
  assumes "log_type s = ARM_LOG_NONE" and "length (arm_regs s) = 16" and "unat byte div 16 = 9"
    and "l = unat byte mod 16"
  shows "matches mem s (Some (if l = 13 \<or> l = 15 then Reserved else Set_Vsp l, arm_data s))
    (DecodePrefix_10_01 byte s)"
proof -
  have check: "drop_bit 4 byte = 9"
    using assms(3) by (simp add: word_unat_eq_iff byte_fields)
  show ?thesis
    unfolding DecodePrefix_10_01_def check_def if_P [OF check] Let_def
    using assms by (auto simp: word_unat_eq_iff byte_fields matches_fail matches_set_vsp)
qed

lemma matches_10_10:
  assumes "log_type s = ARM_LOG_NONE" and "length (arm_regs s) = 16" and "unat byte div 16 = 10"
    and "l = unat byte mod 16"
  shows "matches mem s (Some (Pop ([4 ..< 5 + l mod 8] @ (if 8 \<le> l then [14] else [])), arm_data s))
    (DecodePrefix_10_10 mem byte s)"
proof -
  have check: "drop_bit 4 byte = 0xa"
    using assms(3) by (simp add: word_unat_eq_iff byte_fields)
  have low: "unat (byte AND 7) = l mod 8"
    using assms(4) by (simp add: byte_fields mod_mod_cancel)
  have bit: "bit byte 3 \<longleftrightarrow> 8 \<le> l"
    using assms(4) by (simp add: byte_fields nibble_bit3)
  let ?rs = "[4 ..< 5 + l mod 8] @ (if 8 \<le> l then [14] else [])"
  have exec: "(\<lambda>s. bind_out (pop_regs mem [4 ..< Suc (4 + l mod 8)] s)
      (\<lambda>_ s. if 8 \<le> l then pop_reg mem 14 s else Ok () s)) = pop_regs mem ?rs"
  proof (intro ext)
    fix t
    show "bind_out (pop_regs mem [4 ..< Suc (4 + l mod 8)] t)
      (\<lambda>_ s. if 8 \<le> l then pop_reg mem 14 s else Ok () s) = pop_regs mem ?rs t"
      by (cases "pop_regs mem [4 ..< 5 + l mod 8] t") (auto simp: pop_regs_append pop_regs_single simp del: upt_Suc pop_regs.simps(2))
  qed
  have "l mod 8 < 8"
    by simp
  then show ?thesis
    unfolding DecodePrefix_10_10_def check_def if_P [OF check] low bit exec
    using assms by (intro matches_pop) (auto simp: sorted_wrt_append simp del: upt_Suc)
qed


lemma or_push_bit_add:
  fixes r d :: "'a::len word"
  assumes "unat r < 2 ^ k"
  shows "r OR push_bit k d = r + push_bit k d"
proof -
  have "take_bit k r = r"
    using assms by (simp add: word_unat_eq_iff unsigned_take_bit_eq take_bit_nat_eq_self)
  then have "bit r n \<Longrightarrow> n < k" for n
    by (metis bit_take_bit_iff)
  then have "r AND push_bit k d = 0"
    by (intro bit_word_eqI) (auto simp: bit_simps dest: leD)
  then show ?thesis
    by (simp add: disjunctive_add_eq_or)
qed

lemma uleb_digit_bound: "32 \<le> 7 * i \<or> 2 ^ 32 \<le> d * 2 ^ (7 * i) \<longleftrightarrow> 5 \<le> i \<or> (i = 4 \<and> 16 \<le> d)"
  if "d < 128" for i d :: nat
proof -
  consider "i \<le> 3" | "i = 4" | "5 \<le> i"
    by linarith
  then show ?thesis
  proof cases
    case 1
    then have "d * 2 ^ (7 * i) \<le> 127 * 2 ^ 21"
      using that by (intro mult_mono power_increasing) simp_all
    with 1 show ?thesis by simp
  qed simp_all
qed

lemma unat_of_nat_le: "unat (of_nat n :: 'a::len word) \<le> n"
  by (simp add: unsigned_of_nat)

lemma arm_uleb_step:
  fixes b :: u8
  defines "d \<equiv> unat b mod 128"
  assumes "unat r < 2 ^ (7 * i)" and "arm_data s = b # bs"
  shows "arm_uleb r (7 * i) s =
      (if 5 \<le> i \<or> (i = 4 \<and> 16 \<le> d) then Undef UB_Shift
       else if 128 \<le> unat b then arm_uleb (r + of_nat (d * 2 ^ (7 * i))) (7 * i + 7) (s\<lparr>arm_data := bs\<rparr>)
       else Ok (r + of_nat (d * 2 ^ (7 * i))) (s\<lparr>arm_data := bs\<rparr>))"
    and "unat (r + of_nat (d * 2 ^ (7 * i))) < 2 ^ (7 * (i + 1))"
proof -
  let ?r = "r OR push_bit (7 * i) (ucast (b AND 0x7f))"
  have d: "d < 128" "unat (b AND 0x7f) = d"
    by (simp_all add: d_def byte_fields)
  have bit7: "bit b 7 \<longleftrightarrow> 128 \<le> unat b"
    by (simp add: byte_fields)
  have "?r = r + push_bit (7 * i) (ucast (b AND 0x7f))"
    by (rule or_push_bit_add [OF assms(2)])
  then have r: "?r = r + of_nat (d * 2 ^ (7 * i))"
    unfolding ucast_of_nat d push_bit_eq_mult by simp
  have "arm_uleb r (7 * i) s =
      (if 5 \<le> i \<or> (i = 4 \<and> 16 \<le> d) then Undef UB_Shift
       else if 128 \<le> unat b then arm_uleb ?r (7 * i + 7) (s\<lparr>arm_data := bs\<rparr>)
       else Ok ?r (s\<lparr>arm_data := bs\<rparr>))"
    by (subst arm_uleb.simps)
      (simp only: GetByte_def assms(3) list.case bind_out.simps d(2)
        uleb_digit_bound [OF d(1)] Let_def bit7)
  then show "arm_uleb r (7 * i) s =
      (if 5 \<le> i \<or> (i = 4 \<and> 16 \<le> d) then Undef UB_Shift
       else if 128 \<le> unat b then arm_uleb (r + of_nat (d * 2 ^ (7 * i))) (7 * i + 7) (s\<lparr>arm_data := bs\<rparr>)
       else Ok (r + of_nat (d * 2 ^ (7 * i))) (s\<lparr>arm_data := bs\<rparr>))"
    unfolding r .
  have "d * 2 ^ (7 * i) \<le> 127 * 2 ^ (7 * i)"
    using d(1) by (intro mult_right_mono) simp_all
  moreover have "unat (r + of_nat (d * 2 ^ (7 * i))) \<le> unat r + d * 2 ^ (7 * i)"
    using unat_of_nat_le [of "unat r + d * 2 ^ (7 * i)", where 'a = 32] by simp
  moreover have "(2 :: nat) ^ (7 * (i + 1)) = 128 * 2 ^ (7 * i)"
    by (simp add: power_add)
  ultimately show "unat (r + of_nat (d * 2 ^ (7 * i))) < 2 ^ (7 * (i + 1))"
    using assms(2) by linarith
qed

text \<open>The loop adds the digits at their positions, as long as they fit.\<close>

lemma arm_uleb_value:
  assumes "unat r < 2 ^ (7 * i)"
  shows "case ehabi_uleb i (arm_data s) of
      None \<Rightarrow> \<exists>t. arm_uleb r (7 * i) s = Fail t \<and> arm_status t = ARM_STATUS_TRUNCATED \<and>
        ehabi_abs t = ehabi_abs s
    | Some (None, rest) \<Rightarrow> arm_uleb r (7 * i) s = Undef UB_Shift
    | Some (Some v, rest) \<Rightarrow>
        arm_uleb r (7 * i) s = Ok (r + of_nat (v * 2 ^ (7 * i))) (s\<lparr>arm_data := rest\<rparr>)"
  using assms
proof (induction "arm_data s" arbitrary: i r s)
  case Nil
  then show ?case
    by (simp add: arm_uleb.simps [of r _ s] GetByte_def arm_fail_def ehabi_abs_def)
next
  case (Cons b bs)
  define d where "d = unat b mod 128"
  define r' where "r' = r + of_nat (d * 2 ^ (7 * i))"
  note data = Cons(2) [symmetric]
  note step = arm_uleb_step(1) [OF Cons(3) data, folded d_def, folded r'_def]
  note IH = Cons(1) [of "s\<lparr>arm_data := bs\<rparr>" r' "i + 1", OF _ arm_uleb_step(2) [OF Cons(3) data, folded d_def,
    folded r'_def], simplified distrib_left mult_1_right]
  have abs: "ehabi_abs (s\<lparr>arm_data := bs\<rparr>) = ehabi_abs s"
    by (simp add: ehabi_abs_def)
  consider "5 \<le> i \<or> (i = 4 \<and> 16 \<le> d)" | "\<not> (5 \<le> i \<or> (i = 4 \<and> 16 \<le> d))" "unat b < 128"
    | "\<not> (5 \<le> i \<or> (i = 4 \<and> 16 \<le> d))" "128 \<le> unat b"
    by linarith
  then show ?case
  proof cases
    case 1
    then show ?thesis
      using step data by (simp add: d_def)
  next
    case 2
    then show ?thesis
      using step data by (auto simp: d_def r'_def)
  next
    case 3
    have sum: "r' + of_nat (v * 2 ^ (7 * i + 7)) = r + of_nat ((d + 128 * v) * 2 ^ (7 * i))" for v
      unfolding r'_def by (simp add: power_add algebra_simps)
    show ?thesis
    proof (cases "ehabi_uleb (i + 1) bs")
      case None
      then show ?thesis
        using IH step 3 data abs by (auto simp: d_def)
    next
      case (Some p)
      then obtain v rest where "ehabi_uleb (i + 1) bs = Some (v, rest)"
        by (cases p) simp
      then show ?thesis
        using IH step sum 3 data by (cases v) (auto simp: d_def)
    qed
  qed
qed

lemma spare_byte:
  fixes c :: u8
  shows "c = 0 \<longleftrightarrow> unat c = 0" and "drop_bit 4 c = 0 \<longleftrightarrow> unat c < 16"
  by (auto simp: word_unat_eq_iff byte_fields div_eq_0_iff)

lemma matches_10_11_0001:
  assumes "log_type s = ARM_LOG_NONE" and "length (arm_regs s) = 16"
  shows "matches mem s (second_byte (low_mask (\<lambda>c. Pop (mask_list 0 4 c))) (arm_data s))
    (DecodePrefix_10_11_0001 mem s)"
  unfolding DecodePrefix_10_11_0001_def mask_regs_low spare_byte(2)
proof (rule matches_second_byte, goal_cases)
  case (1 c cs)
  have "matches mem (s\<lparr>arm_data := cs\<rparr>) (Some (Pop (mask_list 0 4 (unat c)), cs))
      (arm_logged (log_pop (mask_list 0 4 (unat c))) no_log (pop_regs mem (mask_list 0 4 (unat c)))
        (s\<lparr>arm_data := cs\<rparr>))"
    by (rule matches_pop)
      (use assms in \<open>auto simp: mask_list_sorted dest: mask_list_bounds\<close>)
  then show ?case
    by (auto simp: low_mask_def matches_fail spare_byte(1))
qed

lemma matches_10_11_0010:
  assumes "log_type s = ARM_LOG_NONE"
  shows "matches mem s
    (map_option (\<lambda>(v, r). (case v of None \<Rightarrow> Undefined | Some v \<Rightarrow> Move_Vsp (0x204 + 4 * int v), r))
      (ehabi_uleb 0 (arm_data s))) (DecodePrefix_10_11_0010 s)"
proof (cases "ehabi_uleb 0 (arm_data s)")
  case None
  then show ?thesis
    using arm_uleb_value [of 0 0 s] by (auto simp: DecodePrefix_10_11_0010_def matches_def)
next
  case (Some p)
  then obtain v rest where p: "ehabi_uleb 0 (arm_data s) = Some (v, rest)"
    by (cases p) simp
  show ?thesis
  proof (cases v)
    case None
    with p show ?thesis
      using arm_uleb_value [of 0 0 s] by (simp add: DecodePrefix_10_11_0010_def matches_def)
  next
    case (Some n)
    with p have "arm_uleb 0 0 s = Ok (of_nat n) (s\<lparr>arm_data := rest\<rparr>)"
      using arm_uleb_value [of 0 0 s] by simp
    with p Some assms show ?thesis
      by (simp add: DecodePrefix_10_11_0010_def Let_def matches_def arm_logged_def add_cfa_def
          ehabi_abs_def push_bit_eq_mult algebra_simps)
  qed
qed

lemma matches_vfp_second:
  assumes "log_type s = ARM_LOG_NONE" and "pad = 0 \<or> pad = 4"
  shows "matches mem s (second_byte (\<lambda>c. vfp_pop pad (c mod 16 + 1)) (arm_data s))
    (bind_out (GetByte s) (\<lambda>byte s.
      arm_logged no_log no_log (add_cfa (ucast (byte AND 0xf) * 8 + (if pad = 0 then 8 else 12))) s))"
  using assms unfolding vfp_pop_def
  by (intro matches_second_byte matches_move) (auto simp: vfp_words simp del: of_int_add)

lemma matches_10_11_1nnn:
  assumes "log_type s = ARM_LOG_NONE" and "byte AND NOT 7 = 0xb8"
  shows "matches mem s (Some (vfp_pop 4 (unat byte mod 8 + 1), arm_data s))
    (DecodePrefix_10_11_1nnn byte s)"
  unfolding DecodePrefix_10_11_1nnn_def check_def if_P [OF assms(2)] vfp_pop_def
  by (rule matches_move [OF assms(1) vfp_words(3) refl])


lemma byte_nibbles:
  fixes b :: u8
  assumes "h = unat b div 16" and "l = unat b mod 16"
  shows "unat b div 64 = h div 4" and "unat b div 8 = 2 * h + l div 8" and "unat b mod 8 = l mod 8"
    and "h < 16" and "l < 16"
proof -
  show "unat b div 64 = h div 4"
    unfolding assms by (simp add: div_mult2_eq [symmetric])
  have "unat b = 8 * (2 * h) + l"
    unfolding assms by simp
  then show "unat b div 8 = 2 * h + l div 8"
    by (metis div_mult_self4 zero_neq_numeral)
  show "unat b mod 8 = l mod 8"
    unfolding assms by (simp add: mod_mod_cancel)
  show "h < 16" "l < 16"
    using unsigned_less [of b, where ?'a = nat] unfolding assms by simp_all
qed

lemma matches_10:
  assumes "log_type s = ARM_LOG_NONE" and "length (arm_regs s) = 16"
    and "h = unat byte div 16" and "l = unat byte mod 16" and "8 \<le> h" and "h < 12"
  shows "matches mem s
    (if h = 8 then second_byte (pop_under_mask l) (arm_data s)
     else if h = 9 then Some (if l = 13 \<or> l = 15 then Reserved else Set_Vsp l, arm_data s)
     else if h = 10 then Some (Pop ([4 ..< 5 + l mod 8] @ (if 8 \<le> l then [14] else [])), arm_data s)
     else nibbles_B l (arm_data s)) (DecodePrefix_10 mem byte s)"
proof -
  note nib = byte_nibbles [OF assms(3,4)]
  have check: "drop_bit 6 byte = 2"
    using assms(5,6) unfolding word_unat_eq_iff byte_fields nib(1) by auto
  have k: "drop_bit 4 byte AND 3 = of_nat j \<longleftrightarrow> h = 8 + j" if "j < 4" for j
  proof -
    have "h mod 4 = h - 8"
      using assms(5,6) by (auto simp: mod_if)
    then show ?thesis
      using that assms(3,5,6) unfolding word_unat_eq_iff byte_fields
      by (auto simp: unsigned_of_nat take_bit_nat_eq_self)
  qed
  consider "h = 8" | "h = 9" | "h = 10" | "h = 11"
    using assms(5,6) by linarith
  then show ?thesis
  proof cases
    case 4
    have n: "byte AND 0xf = of_nat j \<longleftrightarrow> l = j" if "j < 16" for j
      using that assms(4) unfolding word_unat_eq_iff byte_fields
      by (auto simp: unsigned_of_nat take_bit_nat_eq_self)
    have "bit byte 3 \<longleftrightarrow> 8 \<le> l"
      using assms(4) by (simp add: byte_fields nibble_bit3)
    moreover have "matches mem s (Some (vfp_pop 4 (l - 8 + 1), arm_data s)) (DecodePrefix_10_11_1nnn byte s)"
      if "8 \<le> l"
    proof -
      have "byte AND NOT 7 = 0xb8" "unat byte mod 8 = l - 8"
        using that nib(2,3,5) 4 unfolding word_unat_eq_iff byte_fields
        by (auto simp: div_nat_eqI mod_if)
      then show ?thesis
        using matches_10_11_1nnn [OF assms(1)] by metis
    qed
    ultimately show ?thesis
      using assms(1,2) 4 k [of 0] k [of 1] k [of 2] n [of 0] n [of 1] n [of 2] n [of 3]
        matches_vfp_second [of s 4 mem]
      by (simp add: DecodePrefix_10_def check_def check Let_def nibbles_B_def matches_fail
          DecodePrefix_10_11_0000_def DecodePrefix_10_11_01nn_def DecodePrefix_10_11_0011_def
          matches_10_11_0001 matches_10_11_0010)
  next
    case 2
    then have "DecodePrefix_10 mem byte s = DecodePrefix_10_01 byte s"
      using k [of 0] k [of 1] by (simp add: DecodePrefix_10_def check_def check)
    with 2 show ?thesis
      using matches_10_01 [OF assms(1,2) _ assms(4), of mem] assms(3) by (simp split del: if_split)
  qed (use assms k [of 0] k [of 1] k [of 2] in
      \<open>simp_all add: DecodePrefix_10_def check_def check Let_def matches_10_00 matches_10_10\<close>)
qed


lemma mask_list_widen: "n < 16 \<Longrightarrow> mask_list 0 8 n = mask_list 0 4 n"
proof -
  assume "n < 16"
  then have "n div 2 ^ r = 0" if "4 \<le> r" for r
    using that power_increasing [of 4 r "2::nat"] by (simp add: div_eq_0_iff)
  then have "filter (\<lambda>r. odd (n div 2 ^ r)) [4 ..< 8] = []"
    unfolding filter_empty_conv set_upt by simp
  moreover have "[0 ..< 8] = [0 ..< 4] @ [4 ..< 8 :: nat]"
    using upt_add_eq_append [of 0 4 4] by simp
  ultimately show ?thesis
    by (simp add: mask_list_def)
qed

lemma matches_11_000:
  assumes "log_type s = ARM_LOG_NONE" and "byte AND NOT 7 = 0xc0" and "l = unat byte mod 8"
  shows "matches mem s (nibbles_C l (arm_data s)) (DecodePrefix_11_000 byte s)"
proof -
  have bits: "byte AND 7 = of_nat j \<longleftrightarrow> l = j" if "j < 8" for j
    using that assms(3) unfolding word_unat_eq_iff byte_fields
    by (auto simp: unsigned_of_nat take_bit_nat_eq_self)
  have l: "l < 8"
    using assms(3) by simp
  have wcgr: "matches mem s (second_byte (low_mask (\<lambda>c. Move_Vsp (4 * int (length (mask_list 0 4 c))))) (arm_data s))
      (bind_out (GetByte s) (\<lambda>byte s.
         if byte = 0 then arm_fail ARM_STATUS_SPARE s
         else if unat byte < 16 then
           arm_logged no_log no_log (add_cfa (of_nat (length (mask_list 0 8 (unat byte))) * 4)) s
         else arm_fail ARM_STATUS_SPARE s))"
  proof (rule matches_second_byte, goal_cases)
    case (1 c cs)
    show ?case
      using assms(1) by (auto simp: low_mask_def matches_fail spare_byte(1) mask_list_widen intro!: matches_move)
  qed
  have wr: "matches mem s (Some (vfp_pop 0 (l + 1), arm_data s))
      (arm_logged no_log no_log (add_cfa (ucast (byte AND 7) * 8 + 8)) s)"
    unfolding vfp_pop_def assms(3) by (rule matches_move [OF assms(1) vfp_words(4) refl])
  show ?thesis
    unfolding DecodePrefix_11_000_def check_def if_P [OF assms(2)] Let_def nibbles_C_def mask_regs_low
      spare_byte(2)
    using bits [of 6] bits [of 7] l wcgr wr matches_vfp_second [OF assms(1), of 0 mem]
    by simp
qed

lemma matches_11_001:
  assumes "log_type s = ARM_LOG_NONE" and "byte AND NOT 7 = 0xc8" and "l = 8 + unat byte mod 8"
  shows "matches mem s (nibbles_C l (arm_data s)) (DecodePrefix_11_001 byte s)"
proof -
  have bits: "byte AND 7 = of_nat j \<longleftrightarrow> l = 8 + j" if "j < 8" for j
    using that assms(3) unfolding word_unat_eq_iff byte_fields
    by (auto simp: unsigned_of_nat take_bit_nat_eq_self)
  show ?thesis
    unfolding DecodePrefix_11_001_def check_def if_P [OF assms(2)] Let_def nibbles_C_def
    using bits [of 0] bits [of 1] assms(3) matches_vfp_second [OF assms(1), of 0 mem]
    by (auto simp: matches_fail)
qed

lemma matches_11_010:
  assumes "log_type s = ARM_LOG_NONE" and "byte AND NOT 7 = 0xd0"
  shows "matches mem s (Some (vfp_pop 0 (unat byte mod 8 + 1), arm_data s)) (DecodePrefix_11_010 byte s)"
  unfolding DecodePrefix_11_010_def check_def if_P [OF assms(2)] vfp_pop_def
  by (rule matches_move [OF assms(1) vfp_words(4) refl])


lemma matches_11:
  assumes "log_type s = ARM_LOG_NONE"
    and "h = unat byte div 16" and "l = unat byte mod 16" and "12 \<le> h"
  shows "matches mem s
    (if h = 12 then nibbles_C l (arm_data s)
     else Some (if h = 13 \<and> l < 8 then vfp_pop 0 (l + 1) else Spare, arm_data s))
    (DecodePrefix_11 byte s)"
proof -
  note nib = byte_nibbles [OF assms(2,3)]
  have check: "drop_bit 6 byte = 3"
    using assms(4) nib(4) unfolding word_unat_eq_iff byte_fields nib(1) by (auto intro!: div_nat_eqI)
  have k: "drop_bit 3 byte AND 7 = of_nat j \<longleftrightarrow> 2 * h + l div 8 = 24 + j" if "j < 8" for j
  proof -
    have "2 * h + l div 8 < 32"
      using nib(4,5) by linarith
    then have "(2 * h + l div 8) mod 8 = 2 * h + l div 8 - 24"
      using assms(4) by (simp add: mod_if)
    then show ?thesis
      using that assms(4) unfolding word_unat_eq_iff byte_fields nib(2)
      by (auto simp: unsigned_of_nat take_bit_nat_eq_self)
  qed
  have pat: "byte AND NOT 7 = of_nat (n * 8)" if "unat byte div 8 = n" for n
  proof -
    have "byte AND NOT 7 = of_nat (unat (byte AND NOT 7))"
      by simp
    then show ?thesis
      by (simp only: byte_fields that)
  qed
  note def = DecodePrefix_11_def check_def check Let_def
  have l8: "l div 8 = (if l < 8 then 0 else 1)" "l mod 8 = (if l < 8 then l else l - 8)"
    using nib(5) by (auto intro!: div_nat_eqI simp: mod_if)
  consider "h = 12" "l < 8" | "h = 12" "8 \<le> l" | "h = 13" "l < 8" | "h = 13" "8 \<le> l" | "14 \<le> h"
    using assms(4) by linarith
  then show ?thesis
  proof cases
    case 1
    then show ?thesis
      using k [of 0] pat [of 24] nib l8 matches_11_000 [OF assms(1), of byte l mem] by (simp add: def)
  next
    case 2
    then show ?thesis
      using k [of 0] k [of 1] pat [of 25] nib l8 matches_11_001 [OF assms(1), of byte l mem]
      by (simp add: def)
  next
    case 3
    then show ?thesis
      using k [of 0] k [of 1] k [of 2] pat [of 26] nib l8 matches_11_010 [OF assms(1), of byte mem]
      by (simp add: def)
  qed (use k [of 0] k [of 1] k [of 2] nib l8 in \<open>simp_all add: def matches_fail\<close>)
qed

text \<open>One call of \<^verbatim>\<open>Decode\<close> executes the next instruction.\<close>

lemma Decode_matches:
  assumes "log_type s = ARM_LOG_NONE" and "length (arm_regs s) = 16"
  shows "matches mem s (ehabi_next (arm_data s)) (ArmExidx_Decode mem s)"
proof (cases "arm_data s")
  case Nil
  then show ?thesis
    by (simp add: ehabi_next_def ArmExidx_Decode_def GetByte_def arm_fail_def matches_def ehabi_abs_def)
next
  case (Cons b bs)
  define s0 where "s0 = s\<lparr>arm_status := ARM_STATUS_NONE, arm_data := bs\<rparr>"
  have s0: "log_type s0 = ARM_LOG_NONE" "length (arm_regs s0) = 16" "arm_data s0 = bs"
    using assms by (simp_all add: s0_def)
  define h l where "h = unat b div 16" and "l = unat b mod 16"
  note nib = byte_nibbles [OF h_def l_def]
  have k: "drop_bit 6 b = of_nat j \<longleftrightarrow> h div 4 = j" if "j < 4" for j
    using that unfolding word_unat_eq_iff byte_fields nib(1) by (auto simp: unsigned_of_nat take_bit_nat_eq_self)
  have off: "vsp_delta b = of_int (4 * int (unat b mod 64) + 4)"
    unfolding vsp_delta_def ucast_of_nat byte_fields by (simp add: push_bit_eq_mult)
  have next_eq: "ehabi_next (b # bs) =
     (if h < 4 then Some (Move_Vsp (4 * int (unat b mod 64) + 4), bs)
      else if h < 8 then Some (Move_Vsp (- (4 * int (unat b mod 64) + 4)), bs)
      else if h < 12 then
        (if h = 8 then second_byte (pop_under_mask l) bs
         else if h = 9 then Some (if l = 13 \<or> l = 15 then Reserved else Set_Vsp l, bs)
         else if h = 10 then Some (Pop ([4 ..< 5 + l mod 8] @ (if 8 \<le> l then [14] else [])), bs)
         else nibbles_B l bs)
      else
        (if h = 12 then nibbles_C l bs
         else Some (if h = 13 \<and> l < 8 then vfp_pop 0 (l + 1) else Spare, bs)))"
    unfolding ehabi_next_def Let_def h_def l_def by auto
  have "matches mem s0 (ehabi_next (b # bs)) (ArmExidx_Decode mem s)"
  proof -
    note def = ArmExidx_Decode_def GetByte_def Cons s0_def [symmetric] Let_def
    consider "h < 4" | "4 \<le> h" "h < 8" | "8 \<le> h" "h < 12" | "12 \<le> h"
      by linarith
    then show ?thesis
    proof cases
      case 1
      then show ?thesis
        using k [of 0] s0 by (simp add: next_eq def div_eq_0_iff) (rule matches_move; simp add: off)
    next
      case 2
      then have "h div 4 = 1"
        by (intro div_nat_eqI) simp_all
      with 2 show ?thesis
        using k [of 0] k [of 1] s0 by (simp add: next_eq def) (rule matches_move; simp add: off)
    next
      case 3
      then have "h div 4 = 2"
        by (intro div_nat_eqI) simp_all
      with 3 show ?thesis
        using k [of 0] k [of 1] k [of 2] matches_10 [OF s0(1,2) h_def l_def, of mem, unfolded s0(3)]
        by (simp add: next_eq def split del: if_split)
    next
      case 4
      then have "h div 4 = 3"
        using nib(4) by (intro div_nat_eqI) simp_all
      with 4 show ?thesis
        using k [of 0] k [of 1] k [of 2] matches_11 [OF s0(1) h_def l_def, of mem, unfolded s0(3)]
        by (simp add: next_eq def split del: if_split)
    qed
  qed
  then show ?thesis
    using matches_cong [of s0 s mem] assms Cons by (simp add: s0_def ehabi_abs_def)
qed


section \<open>A whole entry\<close>

definition run_matches :: "ArmStatus option \<times> ehabi_state \<Rightarrow> arm_outcome option \<Rightarrow> bool" where
  "run_matches q r =
     (case q of
        (None, e) \<Rightarrow> r = Some (Undef UB_Shift)
      | (Some st, e) \<Rightarrow> \<exists>t. r = Some (if st = ARM_STATUS_FINISH then Ok () t else Fail t) \<and>
          arm_status t = st \<and> (st \<noteq> ARM_STATUS_READ_FAILED \<longrightarrow> ehabi_abs t = e))"

lemma arm_eval_loop_runs:
  assumes "log_type s = ARM_LOG_NONE" and "length (arm_regs s) = 16"
  shows "case ehabi_run mem (arm_data s) (ehabi_abs s) of
      (None, e) \<Rightarrow> arm_eval_loop mem s = Some (Undef UB_Shift)
    | (Some st, e) \<Rightarrow> \<exists>t. arm_eval_loop mem s = Some (Fail t) \<and> arm_status t = st \<and>
        (st \<noteq> ARM_STATUS_READ_FAILED \<longrightarrow> ehabi_abs t = e)"
  using assms
proof (induction "length (arm_data s)" arbitrary: s rule: less_induct)
  case less
  note step = Decode_matches [OF less(2,3), of mem]
  note loop = arm_eval_loop.simps [of mem s] and run = ehabi_run.simps [of mem "arm_data s"]
  show ?case
  proof (cases "ehabi_next (arm_data s)")
    case None
    with step show ?thesis
      by (auto simp: loop run elim: matches_NoneE)
  next
    case (Some p)
    then obtain i rest where nxt: "ehabi_next (arm_data s) = Some (i, rest)"
      by (cases p) simp
    from step [unfolded nxt] show ?thesis
    proof (cases rule: matches_SomeE)
      case (nxt t)
      have t: "length (arm_regs t) = 16" "length (arm_data t) < length (arm_data s)"
        using Decode_consumes [OF less(3) nxt(1)] by simp_all
      have "arm_eval_loop mem s = arm_eval_loop mem t"
        using nxt by (simp add: loop)
      then show ?thesis
        using less(1) [of t] t nxt \<open>ehabi_next _ = Some (i, rest)\<close> less(2) by (simp only: run) simp
    qed (use nxt in \<open>auto simp: loop run\<close>)
  qed
qed

lemma ArmExidx_Eval_runs:
  assumes "log_type s = ARM_LOG_NONE" and "length (arm_regs s) = 16"
  shows "run_matches
    (ehabi_run mem (arm_data s) \<lparr>e_regs = arm_regs s, e_vsp = arm_cfa s, e_pc_set = False\<rparr>)
    (ArmExidx_Eval mem s)"
  using arm_eval_loop_runs [of "s\<lparr>pc_set := False\<rparr>" mem] assms
  by (auto simp: run_matches_def ArmExidx_Eval_def ehabi_abs_def split: prod.splits option.splits)

text \<open>
  C3. \<^verbatim>\<open>ArmExidx::Eval\<close> executes the unwind instructions of the ARM EHABI: it returns true exactly when
  they run up to a finish instruction, and then the registers, the virtual stack pointer and the flag
  for a popped \<^verbatim>\<open>pc\<close> are those the ABI prescribes, each popped register holding the word at its
  position above the stack pointer; otherwise the status names the instruction that stopped it.
\<close>

theorem ArmExidx_Eval_runs_ehabi:
  assumes "log_type s = ARM_LOG_NONE" and "length (arm_regs s) = 16"
  shows "run_matches
    (ehabi_run mem (arm_data s) \<lparr>e_regs = arm_regs s, e_vsp = arm_cfa s, e_pc_set = False\<rparr>)
    (ArmExidx_Eval mem s)"
  using assms by (rule ArmExidx_Eval_runs)


section \<open>The bytes of an entry\<close>

lemma be_bytes_word_byte:
  "be_bytes w = [word_byte 3 w, word_byte 2 w, word_byte 1 w, word_byte 0 w]"
proof -
  have "word_byte k w = of_nat (unat w div 256 ^ k)" if "8 * k < 32" for k
  proof -
    have "drop_bit (8 * k) w AND 0xff = take_bit 8 (drop_bit (8 * k) w)"
      by (simp add: take_bit_eq_mask mask_eq_exp_minus_1)
    then have "word_byte k w = of_nat (drop_bit (8 * k) (unat w))"
      unfolding word_byte_def word_unat_eq_iff
      by (simp only: unsigned_ucast_eq unsigned_take_bit_eq unat_drop_bit_eq unsigned_of_nat) simp
    then show ?thesis
      by (simp add: drop_bit_eq_div power_mult)
  qed
  note byte = this
  have four: "(4 :: nat) = Suc (Suc (Suc (Suc 0)))"
    by simp
  have "to_le 4 n = [of_nat n, of_nat (n div 256), of_nat (n div 256 ^ 2), of_nat (n div 256 ^ 3)]" for n
    unfolding four by (simp add: div_mult2_eq [symmetric])
  then show ?thesis
    using byte [of 0] byte [of 1] byte [of 2] byte [of 3] by (simp add: be_bytes_def)
qed

lemma word_tests:
  fixes w :: u32
  shows "bit w 31 \<longleftrightarrow> 2 ^ 31 \<le> unat w" and "bit w 0 \<longleftrightarrow> odd (unat w)"
    and "drop_bit 24 w AND 0xf = of_nat (personality w)" and "personality w < 16"
proof -
  show "bit w 0 \<longleftrightarrow> odd (unat w)"
    using bit_iff_odd [of "unat w" 0] by (simp add: bit_unsigned_iff)
  have "bit w 31 \<longleftrightarrow> odd (unat w div 2 ^ 31)"
    using bit_iff_odd [of "unat w" 31] by (simp add: bit_unsigned_iff)
  also have "unat w div 2 ^ 31 = (if 2 ^ 31 \<le> unat w then 1 else 0)"
    using unsigned_less [of w, where ?'a = nat] by (auto intro!: div_nat_eqI)
  finally show "bit w 31 \<longleftrightarrow> 2 ^ 31 \<le> unat w"
    by simp
  have "drop_bit 24 w AND 0xf = take_bit 4 (drop_bit 24 w)"
    by (simp add: take_bit_eq_mask mask_eq_exp_minus_1)
  then have "unat (drop_bit 24 w AND 0xf) = personality w"
    by (simp add: personality_def unsigned_take_bit_eq unat_drop_bit_eq drop_bit_eq_div take_bit_eq_mod
        unat_div_distrib unat_mod_distrib)
  moreover have "drop_bit 24 w AND 0xf = of_nat (unat (drop_bit 24 w AND 0xf))"
    by simp
  ultimately show "drop_bit 24 w AND 0xf = of_nat (personality w)"
    by (simp only:)
qed (simp add: personality_def)

lemma prel31_word: "signed_drop_bit 1 (push_bit 1 w) = (of_int (prel31 w) :: u32)"
proof -
  have "signed_drop_bit 1 (push_bit 1 w) = signed_take_bit 30 w"
  proof (rule bit_word_eqI)
    fix n
    assume "n < LENGTH(32)"
    then consider "n < 30" | "n = 30" | "n = 31"
      by (auto simp: less_Suc_eq numeral_eq_Suc)
    then show "bit (signed_drop_bit 1 (push_bit 1 w)) n = bit (signed_take_bit 30 w) n"
      by cases (auto simp: bit_simps min_def bit_double_iff mult.commute [of w 2])
  qed
  also have "\<dots> = of_int (signed_take_bit 30 (uint w))"
    by (rule bit_word_eqI) (auto simp: bit_simps min_def)
  also have "signed_take_bit 30 (uint w) = prel31 w"
  proof -
    define v where "v = uint w mod 2 ^ 31"
    have v: "0 \<le> v" "v < 2 ^ 31"
      by (simp_all add: v_def)
    have "signed_take_bit 30 (uint w) = (v + 2 ^ 30) mod 2 ^ 31 - 2 ^ 30"
      by (simp add: signed_take_bit_eq_take_bit_shift take_bit_eq_mod v_def mod_add_left_eq)
    also have "\<dots> = (if v < 2 ^ 30 then v else v - 2 ^ 31)"
      using v mod_add_self2 [of "v - 2 ^ 30" "2 ^ 31"] by (auto simp: algebra_simps)
    finally show ?thesis
      by (simp add: prel31_def Let_def v_def)
  qed
  finally show ?thesis .
qed


lemma push_data_append: "push_data ys (push_data xs s) = push_data (xs @ ys) s"
  by (simp add: push_data_def)

lemma read_elf_word_eq:
  "read_elf_word elf a s =
     (case Read32 elf (ucast a) of None \<Rightarrow> arm_read_failed a s | Some w \<Rightarrow> Ok w s)"
  by (simp add: read_elf_word_def)

text \<open>A failure of the extraction: the status is one of its error codes, the rest is kept.\<close>

definition extract_fails :: "arm_exidx \<Rightarrow> ('v, arm_exidx) outcome \<Rightarrow> bool" where
  "extract_fails s r \<longleftrightarrow> (\<exists>t. r = Fail t \<and> ehabi_abs t = ehabi_abs s \<and>
     arm_status t \<in> {ARM_STATUS_NO_UNWIND, ARM_STATUS_READ_FAILED, ARM_STATUS_MALFORMED,
       ARM_STATUS_INVALID_ALIGNMENT, ARM_STATUS_INVALID_PERSONALITY})"

lemma extract_fails_simps [simp]:
  "extract_fails s (arm_read_failed a s)"
  "st \<in> {ARM_STATUS_NO_UNWIND, ARM_STATUS_MALFORMED, ARM_STATUS_INVALID_ALIGNMENT,
     ARM_STATUS_INVALID_PERSONALITY} \<Longrightarrow> extract_fails s (arm_fail st s)"
  by (auto simp: extract_fails_def arm_read_failed_def arm_fail_def ehabi_abs_def)

lemma extract_fails_push: "extract_fails (push_data bs s) r \<longleftrightarrow> extract_fails s r"
  by (simp add: extract_fails_def push_data_def ehabi_abs_def)

lemma extract_fails_bind: "extract_fails s r \<Longrightarrow> extract_fails s (bind_out r f)"
  by (auto simp: extract_fails_def)

lemma read_table_words_eq:
  "case table_words elf a n of
     None \<Rightarrow> extract_fails s (read_table_words elf n a s)
   | Some bs \<Rightarrow> read_table_words elf n a s = Ok () (push_data bs s)"
proof (induction elf a n arbitrary: s rule: table_words.induct)
  case (1 elf a)
  then show ?case by (simp add: push_data_def)
next
  case (2 elf a n)
  show ?case
  proof (cases "Read32 elf (ucast a)")
    case None
    then show ?thesis by (simp add: read_elf_word_eq extract_fails_bind)
  next
    case (Some w)
    then show ?thesis
      using 2 [OF Some, of "push_data (be_bytes w) s"]
      by (cases "table_words elf (a + 4) n")
        (simp_all add: read_elf_word_eq be_bytes_word_byte extract_fails_push push_data_append)
  qed
qed

lemma append_finish_eq:
  "arm_data s = [] \<Longrightarrow> bs \<noteq> [] \<Longrightarrow> append_finish (push_data bs s) = Ok () (push_data (finished bs) s)"
  by (simp add: append_finish_def push_data_def finished_def)

text \<open>The common end: read the table words after the bytes of the header and close the queue.\<close>

lemma extract_tail:
  assumes "arm_data s = []" and "bs \<noteq> []"
  shows "case with_table elf n a bs of
      None \<Rightarrow> extract_fails s
        (if 5 < unat n then arm_fail ARM_STATUS_MALFORMED (push_data bs s)
         else bind_out (read_table_words elf (unat n) a (push_data bs s)) (\<lambda>_. append_finish))
    | Some ops \<Rightarrow>
        (if 5 < unat n then arm_fail ARM_STATUS_MALFORMED (push_data bs s)
         else bind_out (read_table_words elf (unat n) a (push_data bs s)) (\<lambda>_. append_finish))
        = Ok () (push_data (finished ops) s)"
  using read_table_words_eq [where elf = elf and a = a and n = "unat n" and s = "push_data bs s"] assms
  by (cases "table_words elf a (unat n)")
    (auto simp: with_table_def extract_fails_push [where s = s and bs = bs, symmetric] push_data_append append_finish_eq
      intro: extract_fails_bind)


lemma personality_tests:
  fixes w :: u32
  shows "drop_bit 24 w AND 0xf = 0 \<longleftrightarrow> personality w = 0"
    and "drop_bit 24 w AND 0xf = 1 \<longleftrightarrow> personality w = 1"
    and "drop_bit 24 w AND 0xf = 2 \<longleftrightarrow> personality w = 2"
  using word_tests(4) [of w] unfolding word_tests(3) word_unat_eq_iff
  by (simp_all add: unsigned_of_nat take_bit_nat_eq_self)

definition extract_rest :: "reader \<Rightarrow> nat \<times> u32 \<Rightarrow> arm_exidx \<Rightarrow> arm_outcome" where
  "extract_rest elf = (\<lambda>(n, addr) s.
     if 5 < n then arm_fail ARM_STATUS_MALFORMED s
     else bind_out (read_table_words elf n addr s) (\<lambda>_. append_finish))"

definition extracts :: "arm_exidx \<Rightarrow> u8 list option \<Rightarrow> arm_outcome \<Rightarrow> bool" where
  "extracts s ops r =
     (case ops of None \<Rightarrow> extract_fails s r | Some bs \<Rightarrow> r = Ok () (push_data (finished bs) s))"

lemma extracts_simps:
  "extracts s None r \<longleftrightarrow> extract_fails s r"
  "extracts s (Some bs) r \<longleftrightarrow> r = Ok () (push_data (finished bs) s)"
  by (simp_all add: extracts_def)

lemma extracts_table:
  assumes "arm_data s = []" and "bs \<noteq> []"
  shows "extracts s (with_table elf n a bs) (extract_rest elf (unat n, a) (push_data bs s))"
  using extract_tail [OF assms, where elf = elf and n = n and a = a]
  by (simp add: extracts_def extract_rest_def)

lemma extracts_header:
  assumes "arm_data s = []"
  shows "extracts s (handler_data elf a) (bind_out (extract_header elf a s) (extract_rest elf))"
proof (cases "Read32 elf (ucast a)")
  case None
  then show ?thesis
    by (simp add: handler_data_def extract_header_def read_elf_word_eq extracts_def extract_fails_bind)
next
  case (Some h)
  note def = handler_data_def extract_header_def read_elf_word_eq Some Let_def word_tests(1)
    personality_tests be_bytes_word_byte push_data_append
  show ?thesis
  proof (cases "2 ^ 31 \<le> unat h")
    case True
    consider "personality h = 0" | "personality h = 1 \<or> personality h = 2" | "2 < personality h"
      by linarith
    then show ?thesis
    proof cases
      case 1
      with True assms show ?thesis
        by (simp add: def extracts_simps extract_rest_def append_finish_eq)
    next
      case 2
      with True show ?thesis
        using extracts_table [OF assms, of "[word_byte 1 h, word_byte 0 h]" elf "word_byte 2 h" "a + 4"]
        by (auto simp: def)
    next
      case 3
      with True show ?thesis
        by (simp add: def extracts_simps extract_fails_bind)
    qed
  next
    case False
    then show ?thesis
    proof (cases "Read32 elf (ucast (a + 4))")
      case None
      with False show ?thesis
        by (simp add: def extracts_def extract_fails_bind)
    next
      case (Some g)
      with False show ?thesis
        using extracts_table [OF assms, of "[word_byte 2 g, word_byte 1 g, word_byte 0 g]" elf
            "word_byte 3 g" "a + 8"]
        by (simp add: def add.assoc)
    qed
  qed
qed


lemma table_words_length: "table_words elf a n = Some bs \<Longrightarrow> length bs = 4 * n"
  by (induction elf a n arbitrary: bs rule: table_words.induct)
    (auto simp: be_bytes_def split: option.splits)

lemma with_table_bounds:
  "with_table elf n a bs = Some ops \<Longrightarrow> bs \<noteq> [] \<Longrightarrow> length bs \<le> 3 \<Longrightarrow> ops \<noteq> [] \<and> length ops \<le> 23"
  by (auto simp: with_table_def split: if_splits dest!: table_words_length)

lemma be_bytes_length [simp]: "length (be_bytes w) = 4"
  by (simp add: be_bytes_def)

lemma handler_data_bounds: "handler_data elf a = Some ops \<Longrightarrow> ops \<noteq> [] \<and> length ops \<le> 23"
  unfolding handler_data_def
  by (auto split: option.splits if_splits dest!: with_table_bounds arg_cong [of _ _ length])

lemma entry_ops_bounds: "entry_ops elf e = Some ops \<Longrightarrow> ops \<noteq> [] \<and> length ops \<le> 23"
  unfolding entry_ops_def
  by (auto split: option.splits if_splits dest!: handler_data_bounds arg_cong [of _ _ length])

lemma ExtractEntryData_finds:
  "extracts (s\<lparr>arm_data := [], arm_status := ARM_STATUS_NONE\<rparr>) (entry_ops elf e) (ExtractEntryData elf e s)" (is "extracts ?s _ _")
proof (cases "Read32 elf (ucast (e + 4))")
  case None
  then show ?thesis
    by (simp add: ExtractEntryData_def entry_ops_def word_tests Let_def read_elf_word_eq extracts_simps
        extract_fails_bind)
next
  case (Some w)
  then show ?thesis
    using extracts_header [of ?s elf "e + 4 + of_int (prel31 w)"]
    unfolding ExtractEntryData_def Let_def prel31_word extract_rest_def [symmetric]
    by (auto simp: entry_ops_def word_tests(1,2) personality_tests read_elf_word_eq extracts_simps
        be_bytes_word_byte finished_def push_data_append)
qed

text \<open>
  C32. \<^verbatim>\<open>ArmExidx::ExtractEntryData\<close> finds the unwind bytes of an entry in each of the table formats
  (inline, compact with personality 0, 1 or 2, generic), terminated by a finish instruction, at most 24
  of them; when there are none it fails with one of its error codes. It never takes the last byte of an
  empty queue and touches neither registers nor stack pointer.
\<close>

theorem ExtractEntryData_finds_ops:
  "extracts (s\<lparr>arm_data := [], arm_status := ARM_STATUS_NONE\<rparr>) (entry_ops elf e) (ExtractEntryData elf e s)
   \<and> (\<forall>t. ExtractEntryData elf e s = Ok () t \<longrightarrow>
        length (arm_data t) \<le> 24 \<and> arm_data t \<noteq> [] \<and> last (arm_data t) = ARM_OP_FINISH)"
proof -
  let ?s = "s\<lparr>arm_data := [], arm_status := ARM_STATUS_NONE\<rparr>"
  note * = ExtractEntryData_finds [of s elf e]
  have "length (arm_data t) \<le> 24 \<and> arm_data t \<noteq> [] \<and> last (arm_data t) = ARM_OP_FINISH"
    if "ExtractEntryData elf e s = Ok () t" for t
  proof -
    from * that obtain ops where ops: "entry_ops elf e = Some ops" and "t = push_data (finished ops) ?s"
      by (cases "entry_ops elf e") (auto simp: extracts_simps extract_fails_def)
    then show ?thesis
      using entry_ops_bounds [OF ops] by (auto simp: finished_def push_data_def)
  qed
  with * show ?thesis
    by blast
qed


section \<open>A sample entry\<close>

text \<open>\<^verbatim>\<open>pop {r4, r5, r14}\<close> after \<^verbatim>\<open>vsp = vsp + 8\<close>, then finish, on a stack of small words.\<close>

definition sample_arm_stack :: reader where
  "sample_arm_stack a n =
     (if 0x1000 \<le> a \<and> a < 0x1100 then take n (to_le 4 (unat a - 0x1000) @ [0, 0, 0, 0]) else [])"

lemma sample_run:
  "ehabi_run sample_arm_stack [0x01, 0xa9, 0xb0]
     \<lparr>e_regs = replicate 16 0, e_vsp = 0x1000, e_pc_set = False\<rparr> =
   (Some ARM_STATUS_FINISH,
    \<lparr>e_regs = [0, 0, 0, 0, 8, 12, 0, 0, 0, 0, 0, 0, 0, 0, 16, 0], e_vsp = 0x1014, e_pc_set = False\<rparr>)"
  by code_simp


theorem ArmExidx_Eval_runs_ehabi_witness:
  "\<exists>t. ArmExidx_Eval sample_arm_stack (plain_arm [0x01, 0xa9, 0xb0]) = Some (Ok () t) \<and>
     arm_regs t = [0, 0, 0, 0, 8, 12, 0, 0, 0, 0, 0, 0, 0, 0, 16, 0] \<and> arm_cfa t = 0x1014"
proof -
  let ?s = "plain_arm [0x01, 0xa9, 0xb0]"
  have "log_type ?s = ARM_LOG_NONE" and "length (arm_regs ?s) = 16" and data: "arm_data ?s = [0x01, 0xa9, 0xb0]"
    and regs: "arm_regs ?s = replicate 16 0" and cfa: "arm_cfa ?s = 0x1000"
    by (simp_all add: plain_arm_def)
  from ArmExidx_Eval_runs_ehabi [OF this(1,2), of sample_arm_stack] show ?thesis
    unfolding data regs cfa sample_run by (auto simp: run_matches_def ehabi_abs_def)
qed

definition sample_arm_elf :: reader where
  "sample_arm_elf a n = (if a = 4 then take n [0xb0, 0xa9, 0x01, 0x80] else [])"

theorem ExtractEntryData_finds_ops_witness:
  "\<exists>t. ExtractEntryData sample_arm_elf 0 (plain_arm []) = Ok () t \<and> arm_data t = [0x01, 0xa9, 0xb0] \<and>
     length (arm_data t) \<le> 24 \<and> last (arm_data t) = ARM_OP_FINISH"
proof -
  have "Read32 sample_arm_elf 4 = Some 0x8001a9b0"
    by (simp add: Read32_def ReadFully_def sample_arm_elf_def le_word_def)
  then have "entry_ops sample_arm_elf 0 = Some [0x01, 0xa9, 0xb0]"
    by (simp add: entry_ops_def personality_def be_bytes_word_byte word_byte_def)
  then show ?thesis
    using ExtractEntryData_finds_ops [of "plain_arm []" sample_arm_elf 0]
    by (simp add: extracts_simps finished_def push_data_def plain_arm_def)
qed

end
