(* ===== verification/Arm_Log.thy ===== *)
theory Arm_Log
  imports Arm_Ehabi
begin

text \<open>
  Logging without execution (\<^verbatim>\<open>set_log\<close> with \<^verbatim>\<open>set_log_skip_execution\<close>): decoding an entry for display
  leaves the registers, the stack pointer and the flag for the \<^verbatim>\<open>pc\<close> as they were.
\<close>

definition displaying :: "arm_exidx \<Rightarrow> bool" where
  "displaying s \<longleftrightarrow> log_type s \<noteq> ARM_LOG_NONE \<and> log_skip_execution s"

definition same_machine :: "arm_exidx \<Rightarrow> arm_exidx \<Rightarrow> bool" where
  "same_machine s t \<longleftrightarrow> ehabi_abs t = ehabi_abs s \<and> log_type t = log_type s \<and>
     log_skip_execution t = log_skip_execution s"

fun quiet :: "arm_exidx \<Rightarrow> ('v, arm_exidx) outcome \<Rightarrow> bool" where
  "quiet s (Ok v t) \<longleftrightarrow> same_machine s t"
| "quiet s (Fail t) \<longleftrightarrow> same_machine s t"
| "quiet s _ \<longleftrightarrow> True"

named_theorems quiet_intros \<open>operations that leave the machine as it is\<close>

lemmas same_machine_defs = same_machine_def ehabi_abs_def

lemma same_machine_trans: "same_machine s t \<Longrightarrow> same_machine t u \<Longrightarrow> same_machine s u"
  by (simp add: same_machine_def)

lemma displaying_same: "same_machine s t \<Longrightarrow> displaying s \<Longrightarrow> displaying t"
  by (simp add: same_machine_def displaying_def)

lemma quiet_trans: "same_machine s t \<Longrightarrow> quiet t r \<Longrightarrow> quiet s r"
  by (cases r) (auto intro: same_machine_trans)

lemma quiet_bind [quiet_intros]:
  "quiet s r \<Longrightarrow> (\<And>v t. r = Ok v t \<Longrightarrow> same_machine s t \<Longrightarrow> quiet t (f v t)) \<Longrightarrow>
    quiet s (bind_out r f)"
  by (cases r) (auto intro: quiet_trans)

lemma quiet_if [quiet_intros]:
  "(b \<Longrightarrow> quiet s r) \<Longrightarrow> (\<not> b \<Longrightarrow> quiet s q) \<Longrightarrow> quiet s (if b then r else q)"
  by simp

lemma quiet_check [quiet_intros]: "quiet s r \<Longrightarrow> quiet s (check b r)"
  by (simp add: check_def)

lemma quiet_basic [quiet_intros]:
  "quiet s (arm_fail st s)" "quiet s (GetByte s)" "quiet s (no_log s)"
  "quiet s (Ok () (log_put r v s))" "quiet s (sadd32 a b (Undef k) s)"
  by (auto simp: arm_fail_def GetByte_def no_log_def log_put_def sadd32_def same_machine_defs
      split: list.splits)

lemma same_machine_log_pops: "same_machine s (log_pops rs off (s\<lparr>log_cfa_offset := x\<rparr>))"
proof -
  have "same_machine t (log_pops rs off t)" for t
    by (induction rs off t rule: log_pops.induct) (simp_all add: log_put_def same_machine_defs)
  then show ?thesis
    by (rule same_machine_trans [rotated]) (simp add: same_machine_defs)
qed

lemma quiet_log_pop [quiet_intros]: "quiet s (log_pop rs s)" "quiet s (log_pop_r4 byte s)"
  unfolding log_pop_def log_pop_r4_def Let_def quiet.simps by (rule same_machine_log_pops)+

lemma quiet_adjust: "quiet s (adjust_entries off xs s)"
  by (induction off xs s rule: adjust_entries.induct)
    (auto intro!: quiet_bind quiet_basic simp: same_machine_def)

lemma quiet_AdjustRegisters [quiet_intros]: "quiet s (AdjustRegisters off s)"
  unfolding AdjustRegisters_def
  by (intro quiet_bind quiet_adjust) (simp add: same_machine_defs)

text \<open>The execution part of an instruction is not reached.\<close>

lemma quiet_logged [quiet_intros]:
  assumes "displaying s" and "\<And>t. quiet t (by_reg t)" and "\<And>t. quiet t (always t)"
  shows "quiet s (arm_logged by_reg always exec s)"
proof -
  have "quiet t (if log_skip_execution t then Ok () t else exec t)" if "same_machine s t" for t
    using assms(1) displaying_same [OF that] by (simp add: displaying_def same_machine_def)
  moreover have "quiet s (if log_type s = ARM_LOG_FULL then Ok () s else by_reg s)"
    by (simp add: assms same_machine_def)
  ultimately show ?thesis
    using assms(1) unfolding arm_logged_def
    by (auto simp: displaying_def intro!: quiet_bind assms(3) elim!: meta_mp intro: same_machine_trans)
qed

lemma quiet_arm_uleb [quiet_intros]: "quiet s (arm_uleb result shift s)"
proof (induction result shift s rule: arm_uleb.induct)
  case (1 result shift s)
  show ?case
    by (subst arm_uleb.simps) (auto simp: Let_def same_machine_def intro!: quiet_bind quiet_basic 1)
qed


lemma quiet_DecodePrefix_10 [quiet_intros]:
  assumes "displaying s"
  shows "quiet s (DecodePrefix_10 mem byte s)"
  unfolding DecodePrefix_10_def DecodePrefix_10_00_def DecodePrefix_10_01_def DecodePrefix_10_10_def
    DecodePrefix_10_11_0000_def DecodePrefix_10_11_0001_def DecodePrefix_10_11_0010_def
    DecodePrefix_10_11_0011_def DecodePrefix_10_11_01nn_def DecodePrefix_10_11_1nnn_def Let_def
  by (intro quiet_intros) (use assms in \<open>auto simp: same_machine_defs displaying_def\<close>)

lemma quiet_DecodePrefix_11 [quiet_intros]:
  assumes "displaying s"
  shows "quiet s (DecodePrefix_11 byte s)"
  unfolding DecodePrefix_11_def DecodePrefix_11_000_def DecodePrefix_11_001_def DecodePrefix_11_010_def
    Let_def
  by (intro quiet_intros) (use assms displaying_same in auto)

lemma quiet_Decode:
  assumes "displaying s"
  shows "quiet s (ArmExidx_Decode mem s)"
proof -
  let ?s = "s\<lparr>arm_status := ARM_STATUS_NONE\<rparr>"
  have "same_machine s ?s" and "displaying ?s"
    using assms by (simp_all add: same_machine_defs displaying_def)
  moreover have "quiet ?s (ArmExidx_Decode mem s)"
    unfolding ArmExidx_Decode_def Let_def
    by (intro quiet_intros) (use assms in \<open>auto simp: same_machine_defs displaying_def\<close>)
  ultimately show ?thesis
    by (blast intro: quiet_trans)
qed

lemma quiet_eval_loop:
  assumes "displaying s" and "length (arm_regs s) = 16"
  shows "\<exists>r. arm_eval_loop mem s = Some r \<and> quiet s r"
  using assms
proof (induction "length (arm_data s)" arbitrary: s rule: less_induct)
  case less
  note quiet = quiet_Decode [OF less(2), of mem]
  show ?case
  proof (cases "ArmExidx_Decode mem s")
    case (Ok v t)
    then show ?thesis
      using less(1) [of t] Decode_consumes [OF less(3) Ok] quiet displaying_same less(2)
      by (subst arm_eval_loop.simps) (auto intro: quiet_trans)
  qed (use quiet in \<open>simp_all add: arm_eval_loop.simps [of mem s]\<close>)
qed

text \<open>
  Displaying an entry (logging on, execution skipped) returns and leaves the registers and the
  stack pointer of the frame as they are, whatever the bytes; the flag for a popped \<^verbatim>\<open>pc\<close> is clear.
\<close>

theorem ArmExidx_Eval_display:
  assumes "log_type s \<noteq> ARM_LOG_NONE" and "log_skip_execution s" and "length (arm_regs s) = 16"
  shows "\<exists>r. ArmExidx_Eval mem s = Some r \<and>
    (\<forall>t. r = Ok () t \<or> r = Fail t \<longrightarrow>
       arm_regs t = arm_regs s \<and> arm_cfa t = arm_cfa s \<and> \<not> pc_set t)"
proof -
  let ?s = "s\<lparr>pc_set := False\<rparr>"
  obtain r where r: "arm_eval_loop mem ?s = Some r" "quiet ?s r"
    using quiet_eval_loop [of ?s mem] assms by (auto simp: displaying_def)
  then show ?thesis
    by (cases r) (auto simp: ArmExidx_Eval_def same_machine_defs split: if_splits)
qed

theorem ArmExidx_Eval_display_witness:
  "\<exists>r. ArmExidx_Eval sample_arm_stack
      (plain_arm [0x01, 0xa9, 0xb0]\<lparr>log_type := ARM_LOG_BY_REG, log_skip_execution := True\<rparr>) = Some r \<and>
    (\<forall>t. r = Ok () t \<or> r = Fail t \<longrightarrow>
       arm_regs t = replicate 16 0 \<and> arm_cfa t = 0x1000 \<and> \<not> pc_set t)"
  using ArmExidx_Eval_display [of "plain_arm [0x01, 0xa9, 0xb0]\<lparr>log_type := ARM_LOG_BY_REG,
    log_skip_execution := True\<rparr>" sample_arm_stack]
  by (simp add: plain_arm_def)

end
