(* ===== verification/Fde_Index.thy ===== *)
theory Fde_Index
  imports Unwind_Prelude "HOL-Library.Product_Lexorder"
begin

text \<open>
  The binary search table of \<^verbatim>\<open>DwarfSectionImpl::BuildFdeIndex\<close> (\<^verbatim>\<open>libunwindstack/DwarfSection.cpp\<close>)
  over the list of FDEs the section holds, and the lookup \<^verbatim>\<open>GetFdeFromPc\<close> makes in it.
\<close>

record FdeInfo =
  fi_start :: u64
  fi_end :: u64
  fi_offset :: u64

text \<open>The comparison of the first \<^verbatim>\<open>std::sort\<close>: by \<^verbatim>\<open>pc_end\<close>, then by offset. Offsets are distinct.\<close>

definition sort_fdes :: "FdeInfo list \<Rightarrow> FdeInfo list" where
  "sort_fdes fdes = sort_key (\<lambda>f. (fi_end f, fi_offset f)) fdes"

text \<open>The backwards loop; \<open>i\<close> counts the entries still to visit, \<open>acc\<close> is what it has pushed.\<close>

fun fill_gaps :: "FdeInfo list \<Rightarrow> nat \<Rightarrow> FdeInfo \<Rightarrow> FdeInfo list \<Rightarrow> FdeInfo list" where
  "fill_gaps fdes 0 filling acc = acc"
| "fill_gaps fdes (Suc i) filling acc =
     (let cur = fdes ! i;
          prev_pc_end = (if 0 < i then fi_end (fdes ! (i - 1)) else 0);
          acc = (if prev_pc_end < fi_start cur \<and> fi_start filling < fi_start cur
                 then acc @ [\<lparr>fi_start = fi_start filling, fi_end = fi_start cur,
                              fi_offset = fi_offset filling\<rparr>]
                 else acc);
          filling = (if fi_start cur < fi_start filling then cur else filling)
      in fill_gaps fdes i filling acc)"

definition fde_index_of :: "FdeInfo list \<Rightarrow> (u64 \<times> u64) list" where
  "fde_index_of fdes =
     (let fdes = sort_fdes fdes;
          fdes = (if fdes = [] then fdes else fdes @ fill_gaps fdes (length fdes) (last fdes) []);
          index = map (\<lambda>f. (fi_end f, fi_offset f)) fdes
      in if sorted index then index else sort index)"

text \<open>\<^verbatim>\<open>std::upper_bound\<close> on the sorted table.\<close>

definition index_upper_bound :: "u64 \<Rightarrow> (u64 \<times> u64) list \<Rightarrow> u64 option" where
  "index_upper_bound pc index = map_option snd (find (\<lambda>e. pc < fst e) index)"

definition covers :: "FdeInfo \<Rightarrow> u64 \<Rightarrow> bool" where
  "covers f pc \<longleftrightarrow> fi_start f \<le> pc \<and> pc < fi_end f"

section \<open>What the loop pushes\<close>

text \<open>The entry with the least start among those from \<open>i\<close> on, the latest of several.\<close>

fun filling_at :: "FdeInfo list \<Rightarrow> nat \<Rightarrow> FdeInfo \<Rightarrow> FdeInfo list" where
  "filling_at fdes 0 filling = []"
| "filling_at fdes (Suc i) filling =
     filling_at fdes i (if fi_start (fdes ! i) < fi_start filling then fdes ! i else filling) @ [filling]"

definition has_gap :: "FdeInfo list \<Rightarrow> nat \<Rightarrow> FdeInfo \<Rightarrow> bool" where
  "has_gap fdes i filling \<longleftrightarrow>
     (if 0 < i then fi_end (fdes ! (i - 1)) else 0) < fi_start (fdes ! i) \<and>
     fi_start filling < fi_start (fdes ! i)"

definition fill_entry :: "FdeInfo list \<Rightarrow> nat \<Rightarrow> FdeInfo \<Rightarrow> FdeInfo" where
  "fill_entry fdes i filling =
     \<lparr>fi_start = fi_start filling, fi_end = fi_start (fdes ! i), fi_offset = fi_offset filling\<rparr>"

lemma length_filling_at [simp]: "length (filling_at fdes n f) = n"
  by (induction fdes n f rule: filling_at.induct) auto

lemma set_fill_gaps:
  "set (fill_gaps fdes n f acc) =
     set acc \<union> (\<lambda>i. fill_entry fdes i (filling_at fdes n f ! i)) ` {i. i < n \<and> has_gap fdes i (filling_at fdes n f ! i)}"
proof (induction n arbitrary: f acc)
  case 0
  then show ?case by simp
next
  case (Suc i)
  let ?g = "if fi_start (fdes ! i) < fi_start f then fdes ! i else f"
  let ?F = "filling_at fdes (Suc i) f"
  have step: "fill_gaps fdes (Suc i) f acc =
      fill_gaps fdes i ?g (acc @ (if has_gap fdes i f then [fill_entry fdes i f] else []))"
    by (simp add: Let_def has_gap_def fill_entry_def)
  let ?G = "filling_at fdes i ?g"
  have F: "?F ! i = f" "k < i \<Longrightarrow> ?F ! k = ?G ! k" for k
    by (simp_all add: nth_append)
  have "{k. k < Suc i \<and> has_gap fdes k (?F ! k)} =
      {k. k < i \<and> has_gap fdes k (?G ! k)} \<union> (if has_gap fdes i f then {i} else {})"
    using F by (auto simp: less_Suc_eq simp del: filling_at.simps)
  then have "(\<lambda>k. fill_entry fdes k (?F ! k)) ` {k. k < Suc i \<and> has_gap fdes k (?F ! k)} =
      (\<lambda>k. fill_entry fdes k (?G ! k)) ` {k. k < i \<and> has_gap fdes k (?G ! k)}
      \<union> (if has_gap fdes i f then {fill_entry fdes i f} else {})"
    using F by (auto simp del: filling_at.simps)
  then show ?case
    unfolding step Suc by auto
qed

text \<open>The filling at \<open>i\<close> is one of the entries above \<open>i\<close>, or the starting one, and none starts below it.\<close>

lemma filling_at_min:
  assumes "i < n" and "n \<le> length fdes"
  shows "(filling_at fdes n f ! i = f \<or> (\<exists>k. i < k \<and> k < n \<and> filling_at fdes n f ! i = fdes ! k))
     \<and> fi_start (filling_at fdes n f ! i) \<le> fi_start f
     \<and> (\<forall>k. i < k \<and> k < n \<longrightarrow> fi_start (filling_at fdes n f ! i) \<le> fi_start (fdes ! k))"
  using assms
proof (induction fdes n f rule: filling_at.induct)
  case (1 fdes filling)
  then show ?case by simp
next
  case (2 fdes n filling)
  let ?g = "if fi_start (fdes ! n) < fi_start filling then fdes ! n else filling"
  show ?case
  proof (cases "i = n")
    case True
    then show ?thesis by (auto simp: nth_append)
  next
    case False
    with 2(2) have "i < n" by simp
    with 2 have IH: "(filling_at fdes n ?g ! i = ?g \<or> (\<exists>k. i < k \<and> k < n \<and> filling_at fdes n ?g ! i = fdes ! k))
       \<and> fi_start (filling_at fdes n ?g ! i) \<le> fi_start ?g
       \<and> (\<forall>k. i < k \<and> k < n \<longrightarrow> fi_start (filling_at fdes n ?g ! i) \<le> fi_start (fdes ! k))"
      by simp
    have "filling_at fdes (Suc n) filling ! i = filling_at fdes n ?g ! i"
      using \<open>i < n\<close> by (simp add: nth_append)
    then show ?thesis
      using IH \<open>i < n\<close> by (auto simp: less_Suc_eq split: if_splits)
  qed
qed


section \<open>The table finds an FDE that covers the pc\<close>

text \<open>
  The first entry of a sorted table with an end above the pc: it is in the table, and no entry has
  an end between.
\<close>

lemma index_upper_bound_least:
  assumes "sorted index"
  shows "index_upper_bound pc index = None \<Longrightarrow> \<forall>e \<in> set index. fst e \<le> pc"
    and "index_upper_bound pc index = Some off \<Longrightarrow>
      \<exists>e \<in> set index. snd e = off \<and> pc < fst e \<and> (\<forall>e' \<in> set index. pc < fst e' \<longrightarrow> e \<le> e')"
  using assms
proof (induction index)
  case Nil
  { case 1 then show ?case by simp next case 2 then show ?case by (simp add: index_upper_bound_def) }
next
  case (Cons x xs)
  {
    case 1
    then show ?case
      using Cons(1) by (auto simp: index_upper_bound_def split: if_splits)
  next
    case 2
    show ?case
    proof (cases "pc < fst x")
      case True
      with 2 show ?thesis
        by (auto simp: index_upper_bound_def intro!: bexI [of _ x])
    next
      case False
      with 2 Cons(2) show ?thesis
        by (auto simp: index_upper_bound_def)
    qed
  }
qed

definition fde_list_ok :: "FdeInfo list \<Rightarrow> bool" where
  "fde_list_ok fdes \<longleftrightarrow> (\<forall>f \<in> set fdes. fi_start f < fi_end f) \<and> distinct (map fi_offset fdes)"

text \<open>The entries of the table: those of the FDEs and those of the gaps.\<close>

lemma sorted_fde_index_of: "sorted (fde_index_of fdes)"
  by (simp add: fde_index_of_def Let_def)

abbreviation index_entry :: "FdeInfo \<Rightarrow> u64 \<times> u64" where
  "index_entry f \<equiv> (fi_end f, fi_offset f)"

lemma set_fde_index_of:
  fixes fdes :: "FdeInfo list"
  defines "s \<equiv> sort_fdes fdes"
  shows "set (fde_index_of fdes) = index_entry ` set s \<union>
    (\<lambda>i. (fi_start (s ! i), fi_offset (filling_at s (length s) (last s) ! i))) `
      {i. i < length s \<and> has_gap s i (filling_at s (length s) (last s) ! i)}"
proof -
  have "set (fde_index_of fdes) = index_entry ` (set s \<union>
      (if s = [] then {} else set (fill_gaps s (length s) (last s) [])))"
    by (auto simp: fde_index_of_def Let_def s_def)
  then show ?thesis
    by (cases "s = []") (simp_all add: set_fill_gaps fill_entry_def image_Un image_image)
qed


lemma sort_fdes_ends:
  assumes "i \<le> j" and "j < length (sort_fdes fdes)"
  shows "index_entry (sort_fdes fdes ! i) \<le> index_entry (sort_fdes fdes ! j)"
    and "fi_end (sort_fdes fdes ! i) \<le> fi_end (sort_fdes fdes ! j)"
proof -
  have "sorted (map index_entry (sort_fdes fdes))"
    by (simp add: sort_fdes_def)
  then show *: "index_entry (sort_fdes fdes ! i) \<le> index_entry (sort_fdes fdes ! j)"
    using assms sorted_nth_mono [of "map index_entry (sort_fdes fdes)" i j] by simp
  then show "fi_end (sort_fdes fdes ! i) \<le> fi_end (sort_fdes fdes ! j)"
    by (auto simp: less_eq_prod_def)
qed

lemma set_sort_fdes [simp]: "set (sort_fdes fdes) = set fdes"
  by (simp add: sort_fdes_def)

text \<open>A gap is filled with an entry that stands above it.\<close>

lemma gap_filling:
  assumes "i < length s" and "has_gap s i (filling_at s (length s) (last s) ! i)"
  shows "\<exists>k. i < k \<and> k < length s \<and> filling_at s (length s) (last s) ! i = s ! k"
proof -
  have "s \<noteq> []" using assms(1) by auto
  then have last: "last s = s ! (length s - 1)" by (rule last_conv_nth)
  from filling_at_min [OF assms(1) order_refl, of "last s"] consider
    "filling_at s (length s) (last s) ! i = last s"
    | k where "i < k" "k < length s" "filling_at s (length s) (last s) ! i = s ! k"
    by blast
  then show ?thesis
  proof cases
    case 1
    then have "i \<noteq> length s - 1"
      using assms(2) last by (auto simp: has_gap_def)
    with 1 last assms(1) show ?thesis by (intro exI [of _ "length s - 1"]) auto
  qed blast
qed

text \<open>An entry of the table names an FDE that ends no earlier.\<close>

lemma index_entry_sound:
  assumes ok: "fde_list_ok fdes" and e: "e \<in> set (fde_index_of fdes)"
  shows "\<exists>g \<in> set fdes. snd e = fi_offset g \<and> fst e \<le> fi_end g"
proof -
  let ?s = "sort_fdes fdes"
  from e consider f where "f \<in> set fdes" "e = index_entry f"
    | i where "i < length ?s" "has_gap ?s i (filling_at ?s (length ?s) (last ?s) ! i)"
      "e = (fi_start (?s ! i), fi_offset (filling_at ?s (length ?s) (last ?s) ! i))"
    unfolding set_fde_index_of by auto
  then show ?thesis
  proof cases
    case (2 i)
    then obtain k where k: "i < k" "k < length ?s" "filling_at ?s (length ?s) (last ?s) ! i = ?s ! k"
      using gap_filling by blast
    have "fi_start (?s ! i) < fi_end (?s ! i)"
      using ok nth_mem [OF 2(1)] by (simp add: fde_list_ok_def)
    also have "fi_end (?s ! i) \<le> fi_end (?s ! k)"
      using sort_fdes_ends(2) [of i k] k by simp
    finally show ?thesis
      using 2 k nth_mem [OF k(2)] by auto
  qed auto
qed

text \<open>The first entry above the pc, by the first FDE that ends above the pc.\<close>

lemma first_entry_above:
  fixes fdes :: "FdeInfo list"
  defines "s \<equiv> sort_fdes fdes"
  defines "F \<equiv> filling_at s (length s) (last s)"
  assumes ok: "fde_list_ok fdes"
    and i: "i < length s" "pc < fi_end (s ! i)" "\<And>k. k < i \<Longrightarrow> fi_end (s ! k) \<le> pc"
    and e: "e \<in> set (fde_index_of fdes)" "pc < fst e"
  shows "index_entry (s ! i) \<le> e \<or> (e = (fi_start (s ! i), fi_offset (F ! i)) \<and> pc < fi_start (s ! i))"
proof -
  have ends: "fi_end (s ! j) \<le> fi_end (s ! k)" "index_entry (s ! j) \<le> index_entry (s ! k)"
    if "j \<le> k" "k < length s" for j k
    using sort_fdes_ends that unfolding s_def by blast+
  from e(1) consider k where "k < length s" "e = index_entry (s ! k)"
    | k where "k < length s" "has_gap s k (F ! k)" "e = (fi_start (s ! k), fi_offset (F ! k))"
    unfolding set_fde_index_of s_def F_def by (auto simp: set_conv_nth)
  then show ?thesis
  proof cases
    case (1 k)
    then have "i \<le> k" using i(3) [of k] e(2) by fastforce
    then show ?thesis using ends(2) 1 by auto
  next
    case (2 k)
    have "fi_start (s ! k) < fi_end (s ! k)"
      using ok nth_mem [OF 2(1)] by (simp add: fde_list_ok_def s_def)
    then have "i \<le> k" using i(3) [of k] 2(3) e(2) by fastforce
    show ?thesis
    proof (cases "k = i")
      case True
      then show ?thesis using 2 e(2) by auto
    next
      case False
      with \<open>i \<le> k\<close> have "fi_end (s ! i) \<le> fi_end (s ! (k - 1))"
        using ends(1) [of i "k - 1"] 2(1) by simp
      also have "\<dots> < fi_start (s ! k)"
        using 2(2) False \<open>i \<le> k\<close> by (auto simp: has_gap_def split: if_splits)
      finally show ?thesis
        using 2(3) by (auto simp: less_eq_prod_def)
    qed
  qed
qed


lemma gap_below:
  assumes "\<And>k. k < i \<Longrightarrow> fi_end (s ! k) \<le> pc" and "pc < fi_start (s ! i)" and "fi_start f \<le> pc"
  shows "has_gap s i f"
proof -
  have "(if 0 < i then fi_end (s ! (i - 1)) else 0) \<le> pc"
    using assms(1) [of "i - 1"] by simp
  then show ?thesis
    using assms(2,3) by (simp add: has_gap_def le_less_trans)
qed

lemma first_end_above:
  fixes s :: "FdeInfo list"
  assumes "pc < fi_end (s ! j)"
  obtains i where "i \<le> j" "pc < fi_end (s ! i)" "\<And>k. k < i \<Longrightarrow> fi_end (s ! k) \<le> pc"
proof
  show "(LEAST i. pc < fi_end (s ! i)) \<le> j" by (rule Least_le, rule assms)
  show "pc < fi_end (s ! (LEAST i. pc < fi_end (s ! i)))" by (rule LeastI, rule assms)
  show "fi_end (s ! k) \<le> pc" if "k < (LEAST i. pc < fi_end (s ! i))" for k
    using not_less_Least [OF that] by (simp add: not_less)
qed

text \<open>The entry \<^verbatim>\<open>std::upper_bound\<close> finds, when some entry of the table ends above the pc.\<close>

lemma upper_bound_entry:
  assumes "x \<in> set (fde_index_of fdes)" and "pc < fst x"
  obtains e where "index_upper_bound pc (fde_index_of fdes) = Some (snd e)" "e \<in> set (fde_index_of fdes)" "pc < fst e"
    "\<And>e'. e' \<in> set (fde_index_of fdes) \<Longrightarrow> pc < fst e' \<Longrightarrow> e \<le> e'"
  using index_upper_bound_least [OF sorted_fde_index_of, of pc fdes] assms
  by (cases "index_upper_bound pc (fde_index_of fdes)") fastforce+

text \<open>
  If an FDE covers the pc, the entry found is the first FDE that ends above the pc, or the one that
  fills the gap before it.
\<close>

lemma index_finds:
  assumes ok: "fde_list_ok fdes" and f: "f \<in> set fdes" "covers f pc"
  shows "\<exists>g \<in> set fdes. index_upper_bound pc (fde_index_of fdes) = Some (fi_offset g) \<and> covers g pc"
proof -
  define s where "s = sort_fdes fdes"
  define F where "F = filling_at s (length s) (last s)"
  obtain j where j: "j < length s" "s ! j = f"
    using f(1) by (metis in_set_conv_nth s_def set_sort_fdes)
  with f(2) obtain i where i: "i \<le> j" "pc < fi_end (s ! i)" "\<And>k. k < i \<Longrightarrow> fi_end (s ! k) \<le> pc"
    using first_end_above [of pc s j] by (auto simp: covers_def)
  have len: "i < length s"
    using i(1) j(1) by simp
  have si: "s ! i \<in> set fdes" "fi_start (s ! i) < fi_end (s ! i)"
    using nth_mem [OF len] ok by (simp_all add: s_def fde_list_ok_def)
  have mem: "index_entry (s ! i) \<in> set (fde_index_of fdes)"
    using si(1) unfolding set_fde_index_of by simp
  then obtain e where e: "index_upper_bound pc (fde_index_of fdes) = Some (snd e)" "e \<in> set (fde_index_of fdes)" "pc < fst e"
    and least: "\<And>e'. e' \<in> set (fde_index_of fdes) \<Longrightarrow> pc < fst e' \<Longrightarrow> e \<le> e'"
    using upper_bound_entry i(2) by (metis fst_conv)
  note above = first_entry_above [OF ok, folded s_def, folded F_def, OF len i(2,3) e(2,3)]
  show ?thesis
  proof (cases "fi_start (s ! i) \<le> pc")
    case True
    then have "e = index_entry (s ! i)"
      using above least [OF mem] i(2) by (auto intro: antisym)
    then show ?thesis
      using e(1) si(1) True i(2) by (auto simp: covers_def)
  next
    case False
    then have "i < j"
      using i(1) j f(2) by (cases "i = j") (auto simp: covers_def)
    then have start: "fi_start (F ! i) \<le> pc"
      using filling_at_min [OF len order_refl, of "last s"] j f(2) unfolding F_def covers_def by fastforce
    have gap: "has_gap s i (F ! i)"
      using gap_below [OF i(3) _ start] False by (simp add: not_le)
    then have "(fi_start (s ! i), fi_offset (F ! i)) \<in> set (fde_index_of fdes)"
      unfolding set_fde_index_of using len by (auto simp: s_def F_def)
    then have "fst e \<le> fi_start (s ! i)"
      using least False by (fastforce simp: less_eq_prod_def not_le)
    with above si(2) have "e = (fi_start (s ! i), fi_offset (F ! i))"
      by (auto simp: less_eq_prod_def not_le)
    moreover obtain k where k: "i < k" "k < length s" "F ! i = s ! k"
      using gap_filling [OF len] gap unfolding F_def by blast
    moreover have "fi_end (s ! i) \<le> fi_end (s ! k)"
      using sort_fdes_ends(2) [of i k] k by (simp add: s_def)
    ultimately show ?thesis
      using e(1) start nth_mem [OF k(2)] i(2) less_le_trans
      by (intro bexI [of _ "s ! k"]) (auto simp: covers_def s_def)
  qed
qed

lemma index_sound:
  assumes ok: "fde_list_ok fdes" and "index_upper_bound pc (fde_index_of fdes) = Some off"
  shows "\<exists>g \<in> set fdes. fi_offset g = off \<and> pc < fi_end g"
  using index_upper_bound_least(2) [OF sorted_fde_index_of assms(2)] index_entry_sound [OF ok]
  by fastforce

end
