(* ===== verification/Dwarf_Section.thy ===== *)
theory Dwarf_Section
  imports Dwarf_Cfa Fde_Index
begin

text \<open>
  \<^verbatim>\<open>libunwindstack/DwarfSection.cpp\<close>: reading the CIEs and FDEs of \<^verbatim>\<open>.eh_frame\<close> and \<^verbatim>\<open>.debug_frame\<close>, their
  caches and the index of FDEs by pc. The virtual functions that \<^verbatim>\<open>DwarfEhFrame\<close> and \<^verbatim>\<open>DwarfDebugFrame\<close>
  override are cases of the kind of section. A null pointer returned by an operation is \<open>Fail\<close>.
\<close>

section \<open>State\<close>

datatype section_kind = Eh_Frame | Debug_Frame

text \<open>What does not change after \<^verbatim>\<open>Init\<close>; \<open>sec_asz\<close> is \<^verbatim>\<open>sizeof(AddressType)\<close>.\<close>

record section_env =
  sec_kind :: section_kind
  sec_rd :: reader
  sec_asz :: nat
  section_bias :: u64
  entries_offset :: u64
  entries_end :: u64
  sec_pc_offset :: u64

record section_cursor =
  sec_memory :: dwarf_memory
  sec_error :: DwarfErrorData

record dwarf_section =
  sec_cursor :: section_cursor
  fde_entries :: "u64 \<rightharpoonup> DwarfFde"
  cie_entries :: "u64 \<rightharpoonup> DwarfCie"
  fde_index :: "(u64 \<times> u64) list"

definition cie32_value :: "section_env \<Rightarrow> u32" where
  "cie32_value env = (case sec_kind env of Eh_Frame \<Rightarrow> 0 | Debug_Frame \<Rightarrow> - 1)"

definition cie64_value :: "section_env \<Rightarrow> u64" where
  "cie64_value env = (case sec_kind env of Eh_Frame \<Rightarrow> 0 | Debug_Frame \<Rightarrow> - 1)"

abbreviation sec_offset :: "section_cursor \<Rightarrow> u64" where
  "sec_offset c \<equiv> cur_offset (sec_memory c)"

definition set_sec_offset :: "u64 \<Rightarrow> section_cursor \<Rightarrow> section_cursor" where
  "set_sec_offset a c = c\<lparr>sec_memory := (sec_memory c)\<lparr>cur_offset := a\<rparr>\<rparr>"

definition set_sec_pc_offset :: "u64 \<Rightarrow> section_cursor \<Rightarrow> section_cursor" where
  "set_sec_pc_offset a c = c\<lparr>sec_memory := (sec_memory c)\<lparr>pc_offset := a\<rparr>\<rparr>"

definition set_sec_data_offset :: "u64 \<Rightarrow> section_cursor \<Rightarrow> section_cursor" where
  "set_sec_data_offset a c = c\<lparr>sec_memory := (sec_memory c)\<lparr>data_offset := a\<rparr>\<rparr>"

definition GetCieOffsetFromFde32 :: "section_env \<Rightarrow> u32 \<Rightarrow> section_cursor \<Rightarrow> u64" where
  "GetCieOffsetFromFde32 env pointer c =
     (case sec_kind env of
        Eh_Frame \<Rightarrow> sec_offset c - ucast pointer - 4
      | Debug_Frame \<Rightarrow> entries_offset env + ucast pointer)"

definition GetCieOffsetFromFde64 :: "section_env \<Rightarrow> u64 \<Rightarrow> section_cursor \<Rightarrow> u64" where
  "GetCieOffsetFromFde64 env pointer c =
     (case sec_kind env of
        Eh_Frame \<Rightarrow> sec_offset c - pointer - 8
      | Debug_Frame \<Rightarrow> entries_offset env + pointer)"

definition AdjustPcFromFde :: "section_env \<Rightarrow> u64 \<Rightarrow> section_cursor \<Rightarrow> u64" where
  "AdjustPcFromFde env pc c =
     (case sec_kind env of Eh_Frame \<Rightarrow> pc + sec_offset c - 4 | Debug_Frame \<Rightarrow> pc)"

section \<open>Reading with error reporting\<close>

definition on_section ::
  "(dwarf_memory \<Rightarrow> ('v, dwarf_memory) outcome) \<Rightarrow> section_cursor \<Rightarrow> ('v, section_cursor) outcome" where
  "on_section f c =
     map_state (\<lambda>m. c\<lparr>sec_memory := m\<rparr>)
       (\<lambda>m. c\<lparr>sec_memory := m,
             sec_error := \<lparr>err_code = DWARF_ERROR_MEMORY_INVALID, err_address = cur_offset m\<rparr>\<rparr>)
       (f (sec_memory c))"

definition sec_fail :: "DwarfErrorCode \<Rightarrow> section_cursor \<Rightarrow> ('v, section_cursor) outcome" where
  "sec_fail code c = Fail (c\<lparr>sec_error := (sec_error c)\<lparr>err_code := code\<rparr>\<rparr>)"

definition sec_bytes :: "section_env \<Rightarrow> nat \<Rightarrow> section_cursor \<Rightarrow> (u8 list, section_cursor) outcome" where
  "sec_bytes env n = on_section (ReadBytes (sec_rd env) n)"

definition sec_byte :: "section_env \<Rightarrow> section_cursor \<Rightarrow> (u8, section_cursor) outcome" where
  "sec_byte env c = bind_out (sec_bytes env 1 c) (\<lambda>bs. Ok (hd bs))"

definition sec_encoded :: "section_env \<Rightarrow> u8 \<Rightarrow> section_cursor \<Rightarrow> (u64, section_cursor) outcome" where
  "sec_encoded env e = on_section (ReadEncodedValue (sec_asz env) (sec_rd env) e)"

section \<open>CIEs\<close>

definition DwarfCie_new :: DwarfCie where
  "DwarfCie_new =
     \<lparr>cie_version = 0, fde_address_encoding = 0, lsda_encoding = 0, segment_size = 0, augmentation_string = [],
      personality_handler = 0, cie_instructions_offset = 0, cie_instructions_end = 0,
      code_alignment_factor = 0, data_alignment_factor = 0, return_address_register = 0,
      is_signal_frame = False\<rparr>"

text \<open>
  The length of an entry, 32 bits or 64 bits behind the escape value: whether it is 64-bit and the end
  of the entry.
\<close>

definition read_length :: "section_env \<Rightarrow> section_cursor \<Rightarrow> (bool \<times> u64, section_cursor) outcome" where
  "read_length env c =
     bind_out (sec_bytes env 4 c) (\<lambda>bs c.
       if (le_word bs :: u32) = - 1
       then bind_out (sec_bytes env 8 c) (\<lambda>bs c. Ok (True, sec_offset c + le_word bs) c)
       else Ok (False, sec_offset c + ucast (le_word bs :: u32)) c)"

definition FillInCieHeader :: "section_env \<Rightarrow> section_cursor \<Rightarrow> (DwarfCie, section_cursor) outcome" where
  "FillInCieHeader env c =
     (let cie = DwarfCie_new\<lparr>lsda_encoding := DW_EH_PE_omit\<rparr>
      in bind_out (read_length env c) (\<lambda>(is64, fin) c.
        if is64 then
          let cie = cie\<lparr>cie_instructions_end := fin, fde_address_encoding := DW_EH_PE_udata8\<rparr>
          in bind_out (sec_bytes env 8 c) (\<lambda>bs c.
               if le_word bs \<noteq> cie64_value env then sec_fail DWARF_ERROR_ILLEGAL_VALUE c else Ok cie c)
        else
          let cie = cie\<lparr>cie_instructions_end := fin, fde_address_encoding := DW_EH_PE_udata4\<rparr>
          in bind_out (sec_bytes env 4 c) (\<lambda>bs c.
               if le_word bs \<noteq> cie32_value env then sec_fail DWARF_ERROR_ILLEGAL_VALUE c else Ok cie c)))"

text \<open>
  The augmentation string, its terminating NUL included. Growing a \<^verbatim>\<open>std::vector<char>\<close> beyond
  \<^verbatim>\<open>max_size()\<close>, the largest \<^verbatim>\<open>ptrdiff_t\<close>, terminates the program.
\<close>

definition vector_max :: int where
  "vector_max = 2 ^ 63 - 1"

function read_augmentation :: "section_env \<Rightarrow> u8 list \<Rightarrow> section_cursor \<Rightarrow> (u8 list, section_cursor) outcome" where
  "read_augmentation env acc c =
     bind_out (sec_byte env c) (\<lambda>b c.
       if vector_max \<le> int (length acc) then Abort
       else if b = 0 then Ok (acc @ [b]) c else read_augmentation env (acc @ [b]) c)"
  by pat_completeness auto
termination
  by (relation "measure (\<lambda>(env, acc, c). nat (vector_max - int (length acc)))") auto

declare read_augmentation.simps [simp del]

text \<open>The characters after \<^verbatim>\<open>z\<close>.\<close>

fun read_aug_data :: "section_env \<Rightarrow> u8 list \<Rightarrow> DwarfCie \<Rightarrow> section_cursor \<Rightarrow> (DwarfCie, section_cursor) outcome" where
  "read_aug_data env [] cie c = Ok cie c"
| "read_aug_data env (ch # chs) cie c =
     (if ch = 0x4c then
        bind_out (sec_byte env c) (\<lambda>b c. read_aug_data env chs (cie\<lparr>lsda_encoding := b\<rparr>) c)
      else if ch = 0x50 then
        bind_out (sec_byte env c) (\<lambda>encoding c.
          bind_out (sec_encoded env encoding (set_sec_pc_offset (sec_pc_offset env) c)) (\<lambda>v c.
            read_aug_data env chs (cie\<lparr>personality_handler := v\<rparr>) c))
      else if ch = 0x52 then
        bind_out (sec_byte env c) (\<lambda>b c. read_aug_data env chs (cie\<lparr>fde_address_encoding := b\<rparr>) c)
      else if ch = 0x53 then read_aug_data env chs (cie\<lparr>is_signal_frame := True\<rparr>) c
      else read_aug_data env chs cie c)"

definition read_address_size :: "section_env \<Rightarrow> DwarfCie \<Rightarrow> section_cursor \<Rightarrow> (DwarfCie, section_cursor) outcome" where
  "read_address_size env cie c =
     (if cie_version cie = 4 \<or> cie_version cie = 5 then
        bind_out (sec_byte env c) (\<lambda>address_size c.
          bind_out (sec_byte env c) (\<lambda>seg c.
            Ok (cie\<lparr>fde_address_encoding := (if address_size = 8 then DW_EH_PE_udata8 else DW_EH_PE_udata4),
                    segment_size := seg\<rparr>) c))
      else Ok cie c)"

definition read_return_register :: "section_env \<Rightarrow> DwarfCie \<Rightarrow> section_cursor \<Rightarrow> (DwarfCie, section_cursor) outcome" where
  "read_return_register env cie c =
     (if cie_version cie = 1
      then bind_out (sec_byte env c) (\<lambda>b c. Ok (cie\<lparr>return_address_register := ucast b\<rparr>) c)
      else bind_out (on_section (ReadULEB128 (sec_rd env)) c) (\<lambda>v c. Ok (cie\<lparr>return_address_register := v\<rparr>) c))"

definition FillInCie :: "section_env \<Rightarrow> DwarfCie \<Rightarrow> section_cursor \<Rightarrow> (DwarfCie, section_cursor) outcome" where
  "FillInCie env cie c =
     bind_out (sec_byte env c) (\<lambda>version c.
       if version \<notin> {1, 3, 4, 5} then sec_fail DWARF_ERROR_UNSUPPORTED_VERSION c
       else bind_out (read_augmentation env [] c) (\<lambda>aug c.
         bind_out (read_address_size env (cie\<lparr>cie_version := version, augmentation_string := aug\<rparr>) c) (\<lambda>cie c.
         bind_out (on_section (ReadULEB128 (sec_rd env)) c) (\<lambda>caf c.
         bind_out (on_section (ReadSLEB128 (sec_rd env)) c) (\<lambda>daf c.
         bind_out (read_return_register env
           (cie\<lparr>code_alignment_factor := caf, data_alignment_factor := daf\<rparr>) c) (\<lambda>cie c.
           if hd aug \<noteq> 0x7a then Ok (cie\<lparr>cie_instructions_offset := sec_offset c\<rparr>) c
           else bind_out (on_section (ReadULEB128 (sec_rd env)) c) (\<lambda>aug_length c.
             read_aug_data env (tl aug) (cie\<lparr>cie_instructions_offset := sec_offset c + aug_length\<rparr>) c)))))))"

text \<open>An operation of the cursor as an operation of the section.\<close>

definition at_cursor ::
  "(section_cursor \<Rightarrow> ('v, section_cursor) outcome) \<Rightarrow> dwarf_section \<Rightarrow> ('v, dwarf_section) outcome" where
  "at_cursor f s = map_state (\<lambda>c. s\<lparr>sec_cursor := c\<rparr>) (\<lambda>c. s\<lparr>sec_cursor := c\<rparr>) (f (sec_cursor s))"

definition parse_cie :: "section_env \<Rightarrow> u64 \<Rightarrow> section_cursor \<Rightarrow> (DwarfCie, section_cursor) outcome" where
  "parse_cie env offset c =
     bind_out (FillInCieHeader env (set_sec_offset offset (set_sec_data_offset (entries_offset env) c)))
       (\<lambda>cie. FillInCie env cie)"

definition GetCieFromOffset :: "section_env \<Rightarrow> u64 \<Rightarrow> dwarf_section \<Rightarrow> (DwarfCie, dwarf_section) outcome" where
  "GetCieFromOffset env offset s =
     (case cie_entries s offset of
        Some cie \<Rightarrow> Ok cie s
      | None \<Rightarrow> bind_out (at_cursor (parse_cie env offset) s) (\<lambda>cie s.
          Ok cie (s\<lparr>cie_entries := (cie_entries s)(offset \<mapsto> cie)\<rparr>)))"

section \<open>FDEs\<close>

definition DwarfFde_new :: DwarfFde where
  "DwarfFde_new =
     \<lparr>cie_offset = 0, cfa_instructions_offset = 0, cfa_instructions_end = 0, fde_pc_start = 0, fde_pc_end = 0,
      lsda_address = 0, fde_cie = DwarfCie_new\<rparr>"

definition FillInFdeHeader :: "section_env \<Rightarrow> section_cursor \<Rightarrow> (DwarfFde, section_cursor) outcome" where
  "FillInFdeHeader env c =
     bind_out (read_length env c) (\<lambda>(is64, fin) c.
       if is64 then
         bind_out (sec_bytes env 8 c) (\<lambda>bs c.
           if le_word bs = cie64_value env then sec_fail DWARF_ERROR_ILLEGAL_VALUE c
           else Ok (DwarfFde_new\<lparr>cfa_instructions_end := fin,
                  cie_offset := GetCieOffsetFromFde64 env (le_word bs) c\<rparr>) c)
       else
         bind_out (sec_bytes env 4 c) (\<lambda>bs c.
           if le_word bs = cie32_value env then sec_fail DWARF_ERROR_ILLEGAL_VALUE c
           else Ok (DwarfFde_new\<lparr>cfa_instructions_end := fin,
                  cie_offset := GetCieOffsetFromFde32 env (le_word bs) c\<rparr>) c))"

text \<open>\<^verbatim>\<open>FillInFde\<close> after the CIE has been found: the address range and the augmentation data.\<close>

definition fde_range :: "section_env \<Rightarrow> u64 \<Rightarrow> DwarfCie \<Rightarrow> DwarfFde \<Rightarrow> section_cursor \<Rightarrow> (DwarfFde, section_cursor) outcome" where
  "fde_range env start cie fde c =
     (let c = set_sec_pc_offset (section_bias env) (set_sec_offset (start + ucast (segment_size cie)) c);
          enc = fde_address_encoding cie
      in bind_out (map_state (\<lambda>c. c) (set_sec_pc_offset 0) (sec_encoded env enc c)) (\<lambda>v c.
           let pc_start = AdjustPcFromFde env v c
           in bind_out (sec_encoded env enc (set_sec_pc_offset 0 c)) (\<lambda>len c.
               Ok (fde\<lparr>fde_pc_start := pc_start, fde_pc_end := len + pc_start\<rparr>) c)))"

definition fde_augmentation :: "section_env \<Rightarrow> DwarfCie \<Rightarrow> DwarfFde \<Rightarrow> section_cursor \<Rightarrow> (DwarfFde, section_cursor) outcome" where
  "fde_augmentation env cie fde c =
     (if augmentation_string cie \<noteq> [] \<and> hd (augmentation_string cie) = 0x7a then
        bind_out (on_section (ReadULEB128 (sec_rd env)) c) (\<lambda>aug_length c.
          let after = sec_offset c + aug_length
          in bind_out (sec_encoded env (lsda_encoding cie) (set_sec_pc_offset (sec_pc_offset env) c)) (\<lambda>v c.
               Ok (fde\<lparr>lsda_address := v, cfa_instructions_offset := after\<rparr>) (set_sec_offset after c)))
      else Ok (fde\<lparr>cfa_instructions_offset := sec_offset c\<rparr>) c)"

definition FillInFde :: "section_env \<Rightarrow> DwarfFde \<Rightarrow> dwarf_section \<Rightarrow> (DwarfFde, dwarf_section) outcome" where
  "FillInFde env fde s =
     (let start = sec_offset (sec_cursor s)
      in bind_out (GetCieFromOffset env (cie_offset fde) s) (\<lambda>cie.
           at_cursor (\<lambda>c. bind_out (fde_range env start cie (fde\<lparr>fde_cie := cie\<rparr>) c) (fde_augmentation env cie))))"

definition GetFdeFromOffset :: "section_env \<Rightarrow> u64 \<Rightarrow> dwarf_section \<Rightarrow> (DwarfFde, dwarf_section) outcome" where
  "GetFdeFromOffset env offset s =
     (case fde_entries s offset of
        Some fde \<Rightarrow> Ok fde s
      | None \<Rightarrow>
          bind_out (at_cursor (\<lambda>c. FillInFdeHeader env (set_sec_offset offset (set_sec_data_offset (entries_offset env) c))) s)
            (\<lambda>fde s. bind_out (FillInFde env fde s) (\<lambda>fde s.
               Ok fde (s\<lparr>fde_entries := (fde_entries s)(offset \<mapsto> fde)\<rparr>))))"

section \<open>The index\<close>

text \<open>
  \<^verbatim>\<open>GetNextCieOrFde\<close>: the offset of the entry after this one, and the FDE if this is one. The first
  reads tell a CIE (\<open>None\<close>) from an FDE (its CIE's offset).
\<close>

definition read_entry :: "section_env \<Rightarrow> section_cursor \<Rightarrow> (bool \<times> u64 \<times> u64 option, section_cursor) outcome" where
  "read_entry env c =
     bind_out (read_length env c) (\<lambda>(is64, next_entries_offset) c.
       if is64 then
         bind_out (sec_bytes env 8 c) (\<lambda>bs c.
           Ok (True, next_entries_offset, if le_word bs = cie64_value env then None
                else Some (GetCieOffsetFromFde64 env (le_word bs) c)) c)
       else
         bind_out (sec_bytes env 4 c) (\<lambda>bs c.
           Ok (False, next_entries_offset, if le_word bs = cie32_value env then None
                else Some (GetCieOffsetFromFde32 env (le_word bs) c)) c))"

definition GetNextCieOrFde ::
  "section_env \<Rightarrow> u64 \<Rightarrow> dwarf_section \<Rightarrow> (u64 \<times> DwarfFde option, dwarf_section) outcome" where
  "GetNextCieOrFde env start_offset s =
     bind_out (at_cursor (\<lambda>c. read_entry env (set_sec_offset start_offset (set_sec_data_offset (entries_offset env) c))) s)
       (\<lambda>(is64, next_entries_offset, pointer) s.
         case pointer of
           None \<Rightarrow>
             (case cie_entries s start_offset of
                Some cie \<Rightarrow> Ok (next_entries_offset, None) s
              | None \<Rightarrow>
                  bind_out (at_cursor (FillInCie env (DwarfCie_new\<lparr>lsda_encoding := DW_EH_PE_omit,
                      cie_instructions_end := next_entries_offset,
                      fde_address_encoding := (if is64 then DW_EH_PE_udata8 else DW_EH_PE_udata4)\<rparr>)) s)
                    (\<lambda>cie s. Ok (next_entries_offset, None)
                       (s\<lparr>cie_entries := (cie_entries s)(start_offset \<mapsto> cie)\<rparr>)))
         | Some off \<Rightarrow>
             bind_out (FillInFde env (DwarfFde_new\<lparr>cfa_instructions_end := next_entries_offset, cie_offset := off\<rparr>) s)
               (\<lambda>fde s. Ok (next_entries_offset, Some fde) s))"

text \<open>The loop of \<^verbatim>\<open>BuildFdeIndex\<close>; it stops at the first entry that cannot be read or jumps back.\<close>

definition note_fde :: "u64 \<Rightarrow> DwarfFde option \<Rightarrow> FdeInfo list \<Rightarrow> FdeInfo list" where
  "note_fde offset fde fdes =
     (case fde of
        None \<Rightarrow> fdes
      | Some f \<Rightarrow> if fde_pc_start f < fde_pc_end f
          then fdes @ [\<lparr>fi_start = fde_pc_start f, fi_end = fde_pc_end f, fi_offset = offset\<rparr>] else fdes)"

function scan_fdes :: "section_env \<Rightarrow> u64 \<Rightarrow> FdeInfo list \<Rightarrow> dwarf_section \<Rightarrow> (FdeInfo list, dwarf_section) outcome" where
  "scan_fdes env offset fdes s =
     (if entries_end env \<le> offset then Ok fdes s
      else case GetNextCieOrFde env offset s of
          Ok (next_offset, fde) t \<Rightarrow>
            if next_offset \<le> offset then Ok (note_fde offset fde fdes) t
            else scan_fdes env next_offset (note_fde offset fde fdes) t
        | Fail t \<Rightarrow> Ok fdes t
        | Abort \<Rightarrow> Abort
        | Undef k \<Rightarrow> Undef k)"
  by pat_completeness auto
termination
proof (relation "measure (\<lambda>(env, offset, fdes, s). 2 ^ 64 - unat offset)", goal_cases)
  case (2 env offset fdes s p t next_offset fde)
  then have "unat offset < unat next_offset"
    by (simp add: word_less_nat_alt not_le)
  moreover have "unat next_offset < 2 ^ 64"
    using unsigned_less [of next_offset, where ?'a = nat] by simp
  ultimately show ?case by simp
qed simp

declare scan_fdes.simps [simp del]

definition BuildFdeIndex :: "section_env \<Rightarrow> dwarf_section \<Rightarrow> (unit, dwarf_section) outcome" where
  "BuildFdeIndex env s =
     bind_out (scan_fdes env (entries_offset env) [] s) (\<lambda>fdes s. Ok () (s\<lparr>fde_index := fde_index_of fdes\<rparr>))"

definition GetFdeFromPc :: "section_env \<Rightarrow> u64 \<Rightarrow> dwarf_section \<Rightarrow> (DwarfFde, dwarf_section) outcome" where
  "GetFdeFromPc env pc s =
     bind_out (if fde_index s = [] then BuildFdeIndex env s else Ok () s) (\<lambda>_ s.
       case index_upper_bound pc (fde_index s) of
         None \<Rightarrow> Fail s
       | Some fde_offset \<Rightarrow> bind_out (GetFdeFromOffset env fde_offset s) (\<lambda>fde s.
           if fde_pc_start fde \<le> pc then Ok fde s else Fail s))"

fun collect_fdes :: "section_env \<Rightarrow> u64 list \<Rightarrow> dwarf_section \<Rightarrow> (DwarfFde option list, dwarf_section) outcome" where
  "collect_fdes env [] s = Ok [] s"
| "collect_fdes env (off # offs) s =
     (case GetFdeFromOffset env off s of
        Ok fde t \<Rightarrow> bind_out (collect_fdes env offs t) (\<lambda>fs u. Ok (Some fde # fs) u)
      | Fail t \<Rightarrow> bind_out (collect_fdes env offs t) (\<lambda>fs u. Ok (None # fs) u)
      | Abort \<Rightarrow> Abort
      | Undef k \<Rightarrow> Undef k)"

definition GetFdes :: "section_env \<Rightarrow> dwarf_section \<Rightarrow> (DwarfFde option list, dwarf_section) outcome" where
  "GetFdes env s =
     bind_out (if fde_index s = [] then BuildFdeIndex env s else Ok () s) (\<lambda>_ s.
       collect_fdes env (map snd (fde_index s)) s)"

text \<open>\<^verbatim>\<open>Init\<close>: the environment and the cursor it leaves.\<close>

definition section_Init :: "u64 \<Rightarrow> u64 \<Rightarrow> u64 \<Rightarrow> section_env \<Rightarrow> dwarf_section \<Rightarrow> section_env \<times> dwarf_section" where
  "section_Init offset sz bias env s =
     (env\<lparr>section_bias := bias, entries_offset := offset, entries_end := offset + sz, sec_pc_offset := offset\<rparr>,
      s\<lparr>sec_cursor := (sec_cursor s)\<lparr>sec_memory := (sec_memory (sec_cursor s))
         \<lparr>func_offset := - 1, text_offset := - 1, cur_offset := offset\<rparr>\<rparr>\<rparr>)"

end
