(* ===== verification/Section_Cache.thy ===== *)
theory Section_Cache
  imports Dwarf_Section
begin

text \<open>
  The caches of a DWARF section are transparent: what an operation returns for an offset is what a fresh
  section reads there. The cursor is relevant only for its position and its base offsets; the base for
  pc-relative values is always set before it is used.
\<close>

section \<open>Reading depends on the position and the bases only\<close>

definition base :: "dwarf_memory \<Rightarrow> u64 \<times> u64 \<times> u64" where
  "base m = (data_offset m, func_offset m, text_offset m)"

definition same_view :: "section_cursor \<Rightarrow> section_cursor \<Rightarrow> bool" where
  "same_view c d \<longleftrightarrow> sec_offset c = sec_offset d \<and> base (sec_memory c) = base (sec_memory d)"

fun agree :: "('v, section_cursor) outcome \<Rightarrow> ('v, section_cursor) outcome \<Rightarrow> bool" where
  "agree (Ok v c) (Ok w d) \<longleftrightarrow> v = w \<and> same_view c d"
| "agree (Fail c) (Fail d) \<longleftrightarrow> True"
| "agree Abort Abort \<longleftrightarrow> True"
| "agree (Undef k) (Undef l) \<longleftrightarrow> k = l"
| "agree _ _ \<longleftrightarrow> False"

named_theorems agree_intros \<open>operations that depend on the view only\<close>

lemma same_view_refl [simp]: "same_view c c"
  by (simp add: same_view_def)

lemma agree_bind [agree_intros]:
  "agree r q \<Longrightarrow> (\<And>v c d. same_view c d \<Longrightarrow> agree (f v c) (g v d)) \<Longrightarrow> agree (bind_out r f) (bind_out q g)"
  by (cases r; cases q) auto

lemma agree_Ok [agree_intros]: "v = w \<Longrightarrow> same_view c d \<Longrightarrow> agree (Ok v c) (Ok w d)"
  by simp

lemma agree_sec_fail [agree_intros]: "agree (sec_fail k c) (sec_fail k d)"
  by (simp add: sec_fail_def)

lemma agree_if [agree_intros]:
  "b = b' \<Longrightarrow> (b \<Longrightarrow> agree r q) \<Longrightarrow> (\<not> b \<Longrightarrow> agree r' q') \<Longrightarrow> agree (if b then r else r') (if b' then q else q')"
  by simp

lemma agree_Abort [agree_intros]: "agree Abort Abort"
  by simp

definition pc_free :: "(dwarf_memory \<Rightarrow> ('v, dwarf_memory) outcome) \<Rightarrow> bool" where
  "pc_free f \<longleftrightarrow> (\<forall>m p. f (m\<lparr>pc_offset := p\<rparr>) = map_state (pc_offset_update (\<lambda>_. p)) (pc_offset_update (\<lambda>_. p)) (f m))"

lemma map_state_bind:
  "map_state h h (bind_out r f) = bind_out (map_state h h r) g"
  if "\<And>v s. r = Ok v s \<Longrightarrow> map_state h h (f v s) = g v (h s)"
  using that by (cases r) auto

lemma pc_free_ReadBytes: "pc_free (ReadBytes rd n)"
  by (simp add: pc_free_def ReadBytes_def split: option.split)

lemma pc_free_leb_loop:
  "leb_loop rd v sh (m\<lparr>pc_offset := p\<rparr>) =
   map_state (pc_offset_update (\<lambda>_. p)) (pc_offset_update (\<lambda>_. p)) (leb_loop rd v sh m)"
proof (induction rd v sh m rule: leb_loop.induct)
  case (1 rd v sh m)
  show ?case
    unfolding leb_loop.simps [of rd v sh]
    using pc_free_ReadBytes [of rd 1, unfolded pc_free_def, rule_format, where m = m and p = p] 1
    by (cases "ReadBytes rd 1 m") (auto simp: Let_def)
qed

lemma pc_free_ReadULEB128: "pc_free (ReadULEB128 rd)"
  unfolding pc_free_def ReadULEB128_def pc_free_leb_loop
proof (intro allI)
  fix m p
  show "bind_out (map_state (pc_offset_update (\<lambda>_. p)) (pc_offset_update (\<lambda>_. p)) (leb_loop rd 0 0 m))
      (\<lambda>(cur_value, shift, byte) s. Ok cur_value s) =
    map_state (pc_offset_update (\<lambda>_. p)) (pc_offset_update (\<lambda>_. p))
      (bind_out (leb_loop rd 0 0 m) (\<lambda>(cur_value, shift, byte) s. Ok cur_value s))"
    by (cases "leb_loop rd 0 0 m") (auto split: prod.splits)
qed

lemma pc_free_ReadSLEB128: "pc_free (ReadSLEB128 rd)"
  unfolding pc_free_def ReadSLEB128_def pc_free_leb_loop
proof (intro allI)
  fix m p
  show "bind_out (map_state (pc_offset_update (\<lambda>_. p)) (pc_offset_update (\<lambda>_. p)) (leb_loop rd 0 0 m))
      (\<lambda>(cur_value, shift, byte) s.
         if byte AND 0x40 \<noteq> 0 then if 64 \<le> shift then Undef UB_Shift else Ok (cur_value OR push_bit shift (- 1)) s
         else Ok cur_value s) =
    map_state (pc_offset_update (\<lambda>_. p)) (pc_offset_update (\<lambda>_. p))
      (bind_out (leb_loop rd 0 0 m) (\<lambda>(cur_value, shift, byte) s.
         if byte AND 0x40 \<noteq> 0 then if 64 \<le> shift then Undef UB_Shift else Ok (cur_value OR push_bit shift (- 1)) s
         else Ok cur_value s))"
    by (cases "leb_loop rd 0 0 m") (auto split: prod.splits)
qed

lemma agree_on_section:
  assumes "pc_free f" and "same_view c d"
  shows "agree (on_section f c) (on_section f d)"
proof -
  have "sec_memory d = (sec_memory c)\<lparr>pc_offset := pc_offset (sec_memory d)\<rparr>"
    using assms(2) by (simp add: same_view_def base_def)
  then have "f (sec_memory d) = map_state (pc_offset_update (\<lambda>_. pc_offset (sec_memory d)))
      (pc_offset_update (\<lambda>_. pc_offset (sec_memory d))) (f (sec_memory c))"
    using assms(1) unfolding pc_free_def by metis
  then show ?thesis
    by (cases "f (sec_memory c)") (auto simp: on_section_def same_view_def base_def)
qed

lemma agree_on_section_same:
  "sec_memory c = sec_memory d \<Longrightarrow> agree (on_section f c) (on_section f d)"
  by (cases "f (sec_memory c)") (auto simp: on_section_def same_view_def)

lemma agree_sec_bytes [agree_intros]: "same_view c d \<Longrightarrow> agree (sec_bytes env n c) (sec_bytes env n d)"
  unfolding sec_bytes_def by (rule agree_on_section [OF pc_free_ReadBytes])

lemma agree_leb [agree_intros]:
  "same_view c d \<Longrightarrow> agree (on_section (ReadULEB128 rd) c) (on_section (ReadULEB128 rd) d)"
  "same_view c d \<Longrightarrow> agree (on_section (ReadSLEB128 rd) c) (on_section (ReadSLEB128 rd) d)"
  by (simp_all add: agree_on_section pc_free_ReadULEB128 pc_free_ReadSLEB128)

lemma agree_sec_byte [agree_intros]: "same_view c d \<Longrightarrow> agree (sec_byte env c) (sec_byte env d)"
  unfolding sec_byte_def by (intro agree_intros) simp_all

text \<open>An encoded value is read after the pc base has been set.\<close>

lemma agree_sec_encoded [agree_intros]:
  "same_view c d \<Longrightarrow> agree (sec_encoded env e (set_sec_pc_offset p c)) (sec_encoded env e (set_sec_pc_offset p d))"
  unfolding sec_encoded_def
  by (rule agree_on_section_same) (simp add: set_sec_pc_offset_def same_view_def base_def)


lemma same_view_set [agree_intros]:
  "a = b \<Longrightarrow> base (sec_memory c) = base (sec_memory d) \<Longrightarrow> same_view (set_sec_offset a c) (set_sec_offset b d)"
  by (simp add: same_view_def set_sec_offset_def base_def)

lemma same_view_D:
  "same_view c d \<Longrightarrow> sec_offset c = sec_offset d" "same_view c d \<Longrightarrow> base (sec_memory c) = base (sec_memory d)"
  by (simp_all add: same_view_def)

lemma same_view_pointers:
  assumes "same_view c d"
  shows "GetCieOffsetFromFde32 env p c = GetCieOffsetFromFde32 env p d"
    and "GetCieOffsetFromFde64 env q c = GetCieOffsetFromFde64 env q d"
    and "AdjustPcFromFde env q c = AdjustPcFromFde env q d"
  using assms
  by (simp_all add: GetCieOffsetFromFde32_def GetCieOffsetFromFde64_def AdjustPcFromFde_def same_view_def
      split: section_kind.split)

lemma agree_map_fail [agree_intros]:
  "agree r q \<Longrightarrow> agree (map_state (\<lambda>c. c) h r) (map_state (\<lambda>c. c) h q)"
  by (cases r; cases q) auto

lemma agree_read_length [agree_intros]: "same_view c d \<Longrightarrow> agree (read_length env c) (read_length env d)"
  unfolding read_length_def by (intro agree_intros) (simp_all add: same_view_D)

lemma agree_FillInCieHeader [agree_intros]:
  "same_view c d \<Longrightarrow> agree (FillInCieHeader env c) (FillInCieHeader env d)"
  unfolding FillInCieHeader_def Let_def case_prod_beta by (intro agree_intros) simp_all

lemma agree_read_augmentation [agree_intros]:
  "same_view c d \<Longrightarrow> agree (read_augmentation env acc c) (read_augmentation env acc d)"
proof (induction env acc c arbitrary: d rule: read_augmentation.induct)
  case (1 env acc c)
  note byte = agree_sec_byte [OF 1(2), of env]
  show ?case
  proof (cases "sec_byte env c")
    case (Ok b c')
    with byte obtain d' where d: "sec_byte env d = Ok b d'" "same_view c' d'"
      by (cases "sec_byte env d") auto
    show ?thesis
      using 1(1) [OF Ok] d by (subst (1 2) read_augmentation.simps) (auto simp: Ok)
  qed (use byte in \<open>cases "sec_byte env d"; subst (1 2) read_augmentation.simps; auto\<close>)+
qed

lemma agree_read_aug_data [agree_intros]:
  "cie = cie' \<Longrightarrow> same_view c d \<Longrightarrow> agree (read_aug_data env chs cie c) (read_aug_data env chs cie' d)"
proof (induction chs arbitrary: cie cie' c d)
  case Nil
  then show ?case by simp
next
  case (Cons ch chs)
  show ?case
    using Cons(2,3) unfolding read_aug_data.simps by (intro agree_intros Cons(1)) simp_all
qed

lemma agree_FillInCie [agree_intros]: "same_view c d \<Longrightarrow> agree (FillInCie env cie c) (FillInCie env cie d)"
  unfolding FillInCie_def read_address_size_def read_return_register_def
  by (intro agree_intros) (simp_all add: same_view_D)

lemma agree_FillInFdeHeader [agree_intros]:
  "same_view c d \<Longrightarrow> agree (FillInFdeHeader env c) (FillInFdeHeader env d)"
  unfolding FillInFdeHeader_def case_prod_beta
  by (intro agree_intros) (simp_all add: same_view_pointers)

lemma agree_read_entry [agree_intros]: "same_view c d \<Longrightarrow> agree (read_entry env c) (read_entry env d)"
  unfolding read_entry_def case_prod_beta
  by (intro agree_intros) (simp_all add: same_view_pointers)

lemma agree_fde_range [agree_intros]:
  "base (sec_memory c) = base (sec_memory d) \<Longrightarrow> agree (fde_range env st cie fde c) (fde_range env st cie fde d)"
  unfolding fde_range_def Let_def by (intro agree_intros) (simp_all add: same_view_pointers)

lemma agree_fde_augmentation [agree_intros]:
  "same_view c d \<Longrightarrow> agree (fde_augmentation env cie fde c) (fde_augmentation env cie fde d)"
  unfolding fde_augmentation_def Let_def by (intro agree_intros) (simp_all add: same_view_D)


section \<open>The bases stay\<close>

abbreviation same_base :: "dwarf_memory \<Rightarrow> dwarf_memory \<Rightarrow> bool" where
  "same_base m n \<equiv> base n = base m"

lemma base_cur_offset [simp]: "base (m\<lparr>cur_offset := a\<rparr>) = base m" "base (m\<lparr>pc_offset := a\<rparr>) = base m"
  by (simp_all add: base_def)

text \<open>Reading moves the cursor and nothing else.\<close>

definition moved :: "dwarf_memory \<Rightarrow> dwarf_memory \<Rightarrow> bool" where
  "moved m n \<longleftrightarrow> n\<lparr>cur_offset := 0\<rparr> = m\<lparr>cur_offset := 0\<rparr>"

lemma moved_refl [simp]: "moved m m" "moved m (n\<lparr>cur_offset := a\<rparr>) = moved m n" "moved (m\<lparr>cur_offset := a\<rparr>) n = moved m n"
  by (simp_all add: moved_def)

lemma moved_trans: "moved m n \<Longrightarrow> moved n k \<Longrightarrow> moved m k"
  by (simp add: moved_def)

lemma moved_base: "moved m n \<Longrightarrow> same_base m n"
  by (cases m; cases n) (simp add: moved_def base_def)

lemma moved_set: "moved m n \<Longrightarrow> n\<lparr>cur_offset := a\<rparr> = m\<lparr>cur_offset := a\<rparr>"
  by (cases m; cases n) (simp add: moved_def)

lemma moved_ReadBytes: "moved m n \<Longrightarrow> out_states (moved m) (ReadBytes rd k n)"
  by (simp add: ReadBytes_def split: option.split)

lemma moved_leb_loop: "moved m n \<Longrightarrow> out_states (moved m) (leb_loop rd v sh n)"
proof (induction rd v sh n rule: leb_loop.induct)
  case (1 rd v sh n)
  show ?case
    by (subst leb_loop.simps, rule out_states_bind [OF moved_ReadBytes [OF 1(2)]])
      (use 1(1) in \<open>auto simp: Let_def\<close>)
qed

lemma moved_LEB:
  "moved m n \<Longrightarrow> out_states (moved m) (ReadULEB128 rd n)"
  "moved m n \<Longrightarrow> out_states (moved m) (ReadSLEB128 rd n)"
  unfolding ReadULEB128_def ReadSLEB128_def
  by (rule out_states_bind [OF moved_leb_loop]; auto)+

lemma moved_ReadFormat: "moved m n \<Longrightarrow> out_states (moved m) (ReadFormat asz rd e n)"
  unfolding ReadFormat_def ReadSigned_def
  by (auto intro!: out_states_bind [OF moved_ReadBytes] moved_LEB)

lemma moved_ReadEncodedValue: "out_states (moved m) (ReadEncodedValue asz rd e m)"
  unfolding ReadEncodedValue_def Let_def
  by (auto intro!: out_states_bind [OF moved_ReadBytes] out_states_bind [OF moved_ReadFormat]
      simp: AdjustEncodedValue_def)

text \<open>The same for the operations of the section's cursor.\<close>

fun cursor_kept :: "section_cursor \<Rightarrow> ('v, section_cursor) outcome \<Rightarrow> bool" where
  "cursor_kept c (Ok v d) \<longleftrightarrow> same_base (sec_memory c) (sec_memory d)"
| "cursor_kept c (Fail d) \<longleftrightarrow> same_base (sec_memory c) (sec_memory d)"
| "cursor_kept c _ \<longleftrightarrow> True"

named_theorems kept_intros \<open>operations that keep the bases of the cursor\<close>

lemma kept_bind [kept_intros]:
  "cursor_kept c r \<Longrightarrow>
    (\<And>v d. r = Ok v d \<Longrightarrow> same_base (sec_memory c) (sec_memory d) \<Longrightarrow> cursor_kept c (f v d)) \<Longrightarrow>
    cursor_kept c (bind_out r f)"
  by (cases r) auto

lemma kept_if [kept_intros]: "(b \<Longrightarrow> cursor_kept c r) \<Longrightarrow> (\<not> b \<Longrightarrow> cursor_kept c q) \<Longrightarrow> cursor_kept c (if b then r else q)"
  by simp

lemma kept_map_fail [kept_intros]:
  "cursor_kept c r \<Longrightarrow> cursor_kept c (map_state (\<lambda>c. c) (set_sec_pc_offset p) r)"
  by (cases r) (simp_all add: set_sec_pc_offset_def)

lemma kept_on_section:
  assumes "\<And>m. out_states (moved m) (f m)" and "same_base (sec_memory c) (sec_memory d)"
  shows "cursor_kept c (on_section f d)"
  using assms(1) [of "sec_memory d"] assms(2) moved_base
  by (cases "f (sec_memory d)") (fastforce simp: on_section_def)+

lemma kept_basic [kept_intros]:
  assumes "same_base (sec_memory c) (sec_memory d)"
  shows "cursor_kept c (sec_bytes env n d)" "cursor_kept c (on_section (ReadULEB128 rd) d)"
    "cursor_kept c (on_section (ReadSLEB128 rd) d)" "cursor_kept c (sec_encoded env e d)"
    "cursor_kept c (sec_fail k d)" "cursor_kept c (sec_byte env d)"
  using assms unfolding sec_bytes_def sec_encoded_def sec_byte_def
  by (auto intro!: kept_on_section moved_ReadBytes moved_LEB moved_ReadEncodedValue kept_bind
      simp: sec_fail_def)

lemma base_set [simp]:
  "base (sec_memory (set_sec_offset a c)) = base (sec_memory c)"
  "base (sec_memory (set_sec_pc_offset a c)) = base (sec_memory c)"
  by (simp_all add: set_sec_offset_def set_sec_pc_offset_def)

lemma kept_read_length [kept_intros]:
  "same_base (sec_memory c) (sec_memory d) \<Longrightarrow> cursor_kept c (read_length env d)"
  unfolding read_length_def by (intro kept_intros) simp_all

lemma kept_FillInCieHeader [kept_intros]:
  "same_base (sec_memory c) (sec_memory d) \<Longrightarrow> cursor_kept c (FillInCieHeader env d)"
  unfolding FillInCieHeader_def Let_def case_prod_beta by (intro kept_intros) simp_all

lemma kept_read_augmentation [kept_intros]:
  "same_base (sec_memory c) (sec_memory d) \<Longrightarrow> cursor_kept c (read_augmentation env acc d)"
proof (induction env acc d rule: read_augmentation.induct)
  case (1 env acc d)
  show ?case
    by (subst read_augmentation.simps, rule kept_bind [OF kept_basic(6) [OF 1(2)]]) (use 1(1) in auto)
qed

lemma kept_read_aug_data [kept_intros]:
  "same_base (sec_memory c) (sec_memory d) \<Longrightarrow> cursor_kept c (read_aug_data env chs cie d)"
proof (induction chs arbitrary: cie d)
  case (Cons ch chs)
  show ?case
    using Cons(2) unfolding read_aug_data.simps by (intro kept_intros Cons(1)) simp_all
qed simp

lemma kept_FillInCie [kept_intros]:
  "same_base (sec_memory c) (sec_memory d) \<Longrightarrow> cursor_kept c (FillInCie env cie d)"
  unfolding FillInCie_def read_address_size_def read_return_register_def by (intro kept_intros) simp_all

lemma kept_FillInFdeHeader [kept_intros]:
  "same_base (sec_memory c) (sec_memory d) \<Longrightarrow> cursor_kept c (FillInFdeHeader env d)"
  unfolding FillInFdeHeader_def case_prod_beta by (intro kept_intros) simp_all

lemma kept_read_entry [kept_intros]:
  "same_base (sec_memory c) (sec_memory d) \<Longrightarrow> cursor_kept c (read_entry env d)"
  unfolding read_entry_def case_prod_beta by (intro kept_intros) simp_all

lemma kept_fde_range [kept_intros]:
  "same_base (sec_memory c) (sec_memory d) \<Longrightarrow> cursor_kept c (fde_range env st cie fde d)"
  unfolding fde_range_def Let_def by (intro kept_intros) simp_all

lemma kept_fde_augmentation [kept_intros]:
  "same_base (sec_memory c) (sec_memory d) \<Longrightarrow> cursor_kept c (fde_augmentation env cie fde d)"
  unfolding fde_augmentation_def Let_def by (intro kept_intros) simp_all


section \<open>Transparent caches\<close>

definition new_section :: dwarf_section where
  "new_section = \<lparr>sec_cursor = \<lparr>sec_memory = DwarfMemory_new, sec_error = \<lparr>err_code = DWARF_ERROR_NONE, err_address = 0\<rparr>\<rparr>,
     fde_entries = Map.empty, cie_entries = Map.empty, fde_index = []\<rparr>"

text \<open>What a fresh section reads at an offset.\<close>

definition read_cie :: "section_env \<Rightarrow> u64 \<Rightarrow> (DwarfCie, unit) outcome" where
  "read_cie env off = result_of (GetCieFromOffset env off new_section)"

definition read_fde :: "section_env \<Rightarrow> u64 \<Rightarrow> (DwarfFde, unit) outcome" where
  "read_fde env off = result_of (GetFdeFromOffset env off new_section)"

text \<open>\<^verbatim>\<open>Init\<close> clears the function and the text base and nothing sets them.\<close>

definition bases_clear :: "section_cursor \<Rightarrow> bool" where
  "bases_clear c \<longleftrightarrow> func_offset (sec_memory c) = - 1 \<and> text_offset (sec_memory c) = - 1"

definition cache_ok :: "section_env \<Rightarrow> dwarf_section \<Rightarrow> bool" where
  "cache_ok env s \<longleftrightarrow> bases_clear (sec_cursor s)
     \<and> (\<forall>off cie. cie_entries s off = Some cie \<longrightarrow> read_cie env off = Ok cie ())
     \<and> (\<forall>off fde. fde_entries s off = Some fde \<longrightarrow> read_fde env off = Ok fde ())"

lemma result_agree: "agree r q \<Longrightarrow> result_of r = result_of q"
  by (cases r; cases q) auto

lemma out_states_at_cursor:
  "out_states P (at_cursor f s) = out_states (\<lambda>c. P (s\<lparr>sec_cursor := c\<rparr>)) (f (sec_cursor s))"
  by (cases "f (sec_cursor s)") (simp_all add: at_cursor_def)

lemma cursor_kept_states:
  "cursor_kept c r \<longleftrightarrow> out_states (\<lambda>d. same_base (sec_memory c) (sec_memory d)) r"
  by (cases r) simp_all

lemma result_at_cursor [simp]: "result_of (at_cursor f s) = result_of (f (sec_cursor s))"
  by (simp add: at_cursor_def)

definition at_entries :: "section_env \<Rightarrow> u64 \<Rightarrow> section_cursor \<Rightarrow> section_cursor" where
  "at_entries env off c = set_sec_offset off (set_sec_data_offset (entries_offset env) c)"

definition section_base :: "section_env \<Rightarrow> section_cursor \<Rightarrow> bool" where
  "section_base env c \<longleftrightarrow> base (sec_memory c) = (entries_offset env, - 1, - 1)"

lemma at_entries_base: "bases_clear c \<Longrightarrow> section_base env (at_entries env off c)"
  by (simp add: at_entries_def section_base_def bases_clear_def set_sec_data_offset_def set_sec_offset_def base_def)

lemma same_view_at_entries:
  "bases_clear c \<Longrightarrow> bases_clear d \<Longrightarrow> same_view (at_entries env off c) (at_entries env off d)"
  by (simp add: same_view_def at_entries_def bases_clear_def set_sec_data_offset_def set_sec_offset_def base_def)

lemma section_base_clear: "section_base env c \<Longrightarrow> bases_clear c"
  by (simp add: section_base_def bases_clear_def base_def)

lemma bases_clear_new: "bases_clear (sec_cursor new_section)"
  by (simp add: new_section_def bases_clear_def DwarfMemory_new_def)

lemma parse_cie_kept: "bases_clear c \<Longrightarrow> out_states (section_base env) (parse_cie env off c)"
proof -
  assume "bases_clear c"
  then have base: "section_base env (at_entries env off c)"
    by (rule at_entries_base)
  have "cursor_kept (at_entries env off c) (parse_cie env off c)"
    unfolding parse_cie_def at_entries_def [symmetric] by (intro kept_intros) simp_all
  then show ?thesis
    using base by (auto simp: cursor_kept_states section_base_def elim: out_states_mono)
qed

lemma agree_parse_cie: "bases_clear c \<Longrightarrow> bases_clear d \<Longrightarrow> agree (parse_cie env off c) (parse_cie env off d)"
  unfolding parse_cie_def at_entries_def [symmetric] by (intro agree_intros) (simp_all add: same_view_at_entries)

lemma read_cie_parse: "bases_clear c \<Longrightarrow> read_cie env off = result_of (parse_cie env off c)"
  using result_agree [OF agree_parse_cie [OF bases_clear_new]]
  by (simp add: read_cie_def GetCieFromOffset_def result_bind_Ok new_section_def) (cases "parse_cie env off c"; simp)

text \<open>Looking up a CIE, in the cache or not.\<close>

lemma GetCieFromOffset_reads:
  assumes "cache_ok env s"
  shows "result_of (GetCieFromOffset env off s) = read_cie env off"
    and "out_states (cache_ok env) (GetCieFromOffset env off s)"
    and "section_base env (sec_cursor s) \<Longrightarrow> out_states (\<lambda>t. section_base env (sec_cursor t)) (GetCieFromOffset env off s)"
proof -
  have clear: "bases_clear (sec_cursor s)"
    using assms by (simp add: cache_ok_def)
  note read = read_cie_parse [OF clear, of env off]
  note kept = parse_cie_kept [OF clear, of env off]
  show "result_of (GetCieFromOffset env off s) = read_cie env off"
  proof (cases "cie_entries s off")
    case None
    then show ?thesis
      using read by (cases "parse_cie env off (sec_cursor s)") (simp_all add: GetCieFromOffset_def at_cursor_def)
  next
    case (Some cie)
    then show ?thesis
      using assms by (simp add: GetCieFromOffset_def cache_ok_def)
  qed
  show "out_states (cache_ok env) (GetCieFromOffset env off s)"
    using assms read kept
    by (cases "parse_cie env off (sec_cursor s)")
      (auto simp: GetCieFromOffset_def cache_ok_def at_cursor_def section_base_clear split: option.split)
  show "section_base env (sec_cursor s) \<Longrightarrow> out_states (\<lambda>t. section_base env (sec_cursor t)) (GetCieFromOffset env off s)"
    using kept
    by (cases "parse_cie env off (sec_cursor s)") (auto simp: GetCieFromOffset_def at_cursor_def split: option.split)
qed


text \<open>The part of an FDE behind its header, on the values a fresh section reads.\<close>

definition ref_cursor :: "section_env \<Rightarrow> section_cursor" where
  "ref_cursor env = at_entries env 0 (sec_cursor new_section)"

definition fde_body :: "section_env \<Rightarrow> u64 \<Rightarrow> DwarfFde \<Rightarrow> (DwarfFde, unit) outcome" where
  "fde_body env start fde =
     bind_out (read_cie env (cie_offset fde)) (\<lambda>cie _.
       result_of (bind_out (fde_range env start cie (fde\<lparr>fde_cie := cie\<rparr>) (ref_cursor env)) (fde_augmentation env cie)))"

lemma agree_fde_tail:
  assumes "section_base env c" and "section_base env d"
  shows "agree (bind_out (fde_range env start cie fde c) (fde_augmentation env cie))
    (bind_out (fde_range env start cie fde d) (fde_augmentation env cie))"
  using assms by (intro agree_intros) (simp_all add: section_base_def)

lemma kept_fde_tail:
  assumes "section_base env c"
  shows "out_states (section_base env) (bind_out (fde_range env start cie fde c) (fde_augmentation env cie))"
proof -
  have "cursor_kept c (bind_out (fde_range env start cie fde c) (fde_augmentation env cie))"
    by (intro kept_intros) simp_all
  then show ?thesis
    using assms by (auto simp: cursor_kept_states section_base_def elim: out_states_mono)
qed

lemma cache_ok_cursor: "cache_ok env s \<Longrightarrow> bases_clear c \<Longrightarrow> cache_ok env (s\<lparr>sec_cursor := c\<rparr>)"
  by (simp add: cache_ok_def)

lemma FillInFde_reads:
  assumes ok: "cache_ok env s" and base: "section_base env (sec_cursor s)"
  shows "result_of (FillInFde env fde s) = fde_body env (sec_offset (sec_cursor s)) fde"
    and "out_states (cache_ok env) (FillInFde env fde s)"
proof -
  note cie = GetCieFromOffset_reads [OF ok, of "cie_offset fde"]
  have ref: "section_base env (ref_cursor env)"
    unfolding ref_cursor_def by (rule at_entries_base [OF bases_clear_new])
  let ?tail = "\<lambda>cie. \<lambda>c. bind_out (fde_range env (sec_offset (sec_cursor s)) cie (fde\<lparr>fde_cie := cie\<rparr>) c) (fde_augmentation env cie)"
  show "result_of (FillInFde env fde s) = fde_body env (sec_offset (sec_cursor s)) fde"
  proof (cases "GetCieFromOffset env (cie_offset fde) s")
    case (Ok v t)
    then have "section_base env (sec_cursor t)"
      using cie(3) [OF base] by simp
    from result_agree [OF agree_fde_tail [OF this ref]] Ok cie(1) show ?thesis
      by (simp add: FillInFde_def fde_body_def flip: cie(1))
  qed (simp_all add: FillInFde_def fde_body_def flip: cie(1))
  show "out_states (cache_ok env) (FillInFde env fde s)"
    unfolding FillInFde_def Let_def
  proof (rule out_states_bind [OF cie(2)])
    fix v t
    assume t: "GetCieFromOffset env (cie_offset fde) s = Ok v t" "cache_ok env t"
    then have "section_base env (sec_cursor t)"
      using cie(3) [OF base] by simp
    then show "out_states (cache_ok env) (at_cursor (?tail v) t)"
      unfolding out_states_at_cursor
      by (rule out_states_mono [OF kept_fde_tail]) (rule cache_ok_cursor [OF t(2) section_base_clear])
  qed
qed

text \<open>The header of an entry at an offset, from any cursor.\<close>

lemma agree_header:
  assumes "bases_clear c" and "bases_clear d"
  shows "agree (FillInFdeHeader env (at_entries env off c)) (FillInFdeHeader env (at_entries env off d))"
  using assms by (intro agree_intros) (simp add: same_view_at_entries)

lemma header_base:
  assumes "bases_clear c"
  shows "out_states (section_base env) (FillInFdeHeader env (at_entries env off c))"
    and "out_states (section_base env) (read_entry env (at_entries env off c))"
proof -
  note base = at_entries_base [OF assms, of env off]
  have "cursor_kept (at_entries env off c) (FillInFdeHeader env (at_entries env off c))"
    and "cursor_kept (at_entries env off c) (read_entry env (at_entries env off c))"
    by (intro kept_intros; simp)+
  then show "out_states (section_base env) (FillInFdeHeader env (at_entries env off c))"
    and "out_states (section_base env) (read_entry env (at_entries env off c))"
    using base by (auto simp: cursor_kept_states section_base_def elim!: out_states_mono)
qed

lemma cache_ok_new: "cache_ok env new_section"
  using bases_clear_new by (simp add: cache_ok_def) (simp add: new_section_def)

lemma GetFdeFromOffset_uncached:
  assumes ok: "cache_ok env s" and none: "fde_entries s off = None"
  shows "result_of (GetFdeFromOffset env off s) =
    (case FillInFdeHeader env (at_entries env off (sec_cursor s)) of
       Ok fde c \<Rightarrow> fde_body env (sec_offset c) fde
     | Fail c \<Rightarrow> Fail () | Abort \<Rightarrow> Abort | Undef k \<Rightarrow> Undef k)"
proof (cases "FillInFdeHeader env (at_entries env off (sec_cursor s))")
  case (Ok fde c)
  have clear: "bases_clear (sec_cursor s)"
    using ok by (simp add: cache_ok_def)
  have base: "section_base env c"
    using header_base(1) [OF clear, of env off] Ok by simp
  note fill = FillInFde_reads(1) [OF cache_ok_cursor [OF ok section_base_clear [OF base]], of fde]
  have "result_of (GetFdeFromOffset env off s) = result_of (FillInFde env fde (s\<lparr>sec_cursor := c\<rparr>))"
    unfolding GetFdeFromOffset_def at_entries_def [symmetric] none option.case
    by (simp add: at_cursor_def Ok result_bind_Ok)
       (cases "FillInFde env fde (s\<lparr>sec_cursor := c\<rparr>)"; simp)
  with fill base Ok show ?thesis by simp
qed (simp_all add: GetFdeFromOffset_def at_entries_def [symmetric] none at_cursor_def)


lemma read_fde_header:
  assumes "bases_clear c"
  shows "read_fde env off =
    (case FillInFdeHeader env (at_entries env off c) of
       Ok fde d \<Rightarrow> fde_body env (sec_offset d) fde
     | Fail d \<Rightarrow> Fail () | Abort \<Rightarrow> Abort | Undef k \<Rightarrow> Undef k)"
proof -
  have "fde_entries new_section off = None"
    by (simp add: new_section_def)
  from GetFdeFromOffset_uncached [OF cache_ok_new this] agree_header [OF bases_clear_new assms, of env off]
  show ?thesis
    unfolding read_fde_def
    by (cases "FillInFdeHeader env (at_entries env off (sec_cursor new_section))";
        cases "FillInFdeHeader env (at_entries env off c)") (auto simp: same_view_def)
qed

lemma GetFdeFromOffset_reads:
  assumes ok: "cache_ok env s"
  shows "result_of (GetFdeFromOffset env off s) = read_fde env off"
    and "out_states (cache_ok env) (GetFdeFromOffset env off s)"
proof -
  have clear: "bases_clear (sec_cursor s)"
    using ok by (simp add: cache_ok_def)
  show res: "result_of (GetFdeFromOffset env off s) = read_fde env off"
  proof (cases "fde_entries s off")
    case None
    then show ?thesis
      using GetFdeFromOffset_uncached [OF ok] read_fde_header [OF clear] by simp
  next
    case (Some fde)
    then show ?thesis
      using ok by (simp add: GetFdeFromOffset_def cache_ok_def)
  qed
  show "out_states (cache_ok env) (GetFdeFromOffset env off s)"
  proof (cases "fde_entries s off")
    case None
    let ?head = "FillInFdeHeader env (at_entries env off (sec_cursor s))"
    have head: "out_states (section_base env) ?head"
      by (rule header_base(1) [OF clear])
    show ?thesis
    proof (cases ?head)
      case (Ok fde c)
      then have base: "section_base env c"
        using head by simp
      let ?s = "s\<lparr>sec_cursor := c\<rparr>"
      have fill: "out_states (cache_ok env) (FillInFde env fde ?s)"
        using FillInFde_reads(2) [OF cache_ok_cursor [OF ok section_base_clear [OF base]]] base by simp
      have eq: "GetFdeFromOffset env off s = bind_out (FillInFde env fde ?s)
          (\<lambda>fde s. Ok fde (s\<lparr>fde_entries := (fde_entries s)(off \<mapsto> fde)\<rparr>))"
        using None Ok by (simp add: GetFdeFromOffset_def at_entries_def [symmetric] at_cursor_def)
      show ?thesis
        using fill res unfolding eq
        by (cases "FillInFde env fde ?s") (auto simp: cache_ok_def)
    qed (use head None ok in \<open>simp_all add: GetFdeFromOffset_def at_entries_def [symmetric] at_cursor_def
        cache_ok_cursor section_base_clear\<close>)
  next
    case (Some fde)
    then show ?thesis
      using ok by (simp add: GetFdeFromOffset_def)
  qed
qed

section \<open>Scanning the section\<close>

lemma read_entry_header:
  "read_entry env c = Ok (is64, fin, Some p) d \<Longrightarrow>
     FillInFdeHeader env c = Ok (DwarfFde_new\<lparr>cfa_instructions_end := fin, cie_offset := p\<rparr>) d"
  "read_entry env c = Ok (is64, fin, None) d \<Longrightarrow>
     FillInCieHeader env c = Ok (DwarfCie_new\<lparr>lsda_encoding := DW_EH_PE_omit, cie_instructions_end := fin,
       fde_address_encoding := (if is64 then DW_EH_PE_udata8 else DW_EH_PE_udata4)\<rparr>) d"
  unfolding read_entry_def FillInFdeHeader_def FillInCieHeader_def Let_def
  by (auto elim!: bind_out_OkE split: if_splits)

text \<open>The scan reads every entry as a lookup by its offset does, whatever is in the caches.\<close>

definition next_entry ::
  "section_env \<Rightarrow> u64 \<Rightarrow> (bool \<times> u64 \<times> u64 option, section_cursor) outcome \<Rightarrow> (u64 \<times> DwarfFde option, unit) outcome" where
  "next_entry env off entry =
     (case entry of
        Ok (is64, fin, ptr) c \<Rightarrow>
          (case ptr of
             None \<Rightarrow> bind_out (read_cie env off) (\<lambda>_ _. Ok (fin, None) ())
           | Some q \<Rightarrow> bind_out (fde_body env (sec_offset c) (DwarfFde_new\<lparr>cfa_instructions_end := fin, cie_offset := q\<rparr>))
               (\<lambda>fde _. Ok (fin, Some fde) ()))
      | Fail c \<Rightarrow> Fail () | Abort \<Rightarrow> Abort | Undef k \<Rightarrow> Undef k)"

lemma GetNextCieOrFde_entry:
  assumes ok: "cache_ok env s"
  shows "out_states (cache_ok env) (GetNextCieOrFde env off s)"
    and "result_of (GetNextCieOrFde env off s) = next_entry env off (read_entry env (at_entries env off (sec_cursor s)))"
proof -
  have clear: "bases_clear (sec_cursor s)"
    using ok by (simp add: cache_ok_def)
  let ?entry = "read_entry env (at_entries env off (sec_cursor s))"
  have entry: "out_states (section_base env) ?entry"
    by (rule header_base(2) [OF clear])
  note def = GetNextCieOrFde_def at_entries_def [symmetric] at_cursor_def next_entry_def
  have "out_states (cache_ok env) (GetNextCieOrFde env off s) \<and>
    result_of (GetNextCieOrFde env off s) = next_entry env off ?entry"
  proof (cases ?entry)
    case (Ok p c)
    obtain is64 fin ptr where p: "p = (is64, fin, ptr)" by (cases p)
    have base: "section_base env c"
      using entry Ok by simp
    have ok': "cache_ok env (s\<lparr>sec_cursor := c\<rparr>)"
      by (rule cache_ok_cursor [OF ok section_base_clear [OF base]])
    show ?thesis
    proof (cases ptr)
      case None
      let ?cie = "DwarfCie_new\<lparr>lsda_encoding := DW_EH_PE_omit, cie_instructions_end := fin,
        fde_address_encoding := (if is64 then DW_EH_PE_udata8 else DW_EH_PE_udata4)\<rparr>"
      have parse: "parse_cie env off (sec_cursor s) = FillInCie env ?cie c"
        using read_entry_header(2) [OF Ok [unfolded p None]]
        by (simp add: parse_cie_def at_entries_def [symmetric])
      note read = read_cie_parse [OF clear, of env off, unfolded parse]
        and kept = parse_cie_kept [OF clear, of env off, unfolded parse]
      show ?thesis
      proof (cases "cie_entries s off")
        case none: None
        then show ?thesis
          using Ok p None ok' read kept
          by (cases "FillInCie env ?cie c") (auto simp: def cache_ok_def section_base_clear)
      next
        case (Some cie)
        then have "read_cie env off = Ok cie ()"
          using ok by (simp add: cache_ok_def)
        then show ?thesis
          using Ok p None Some ok' by (simp add: def)
      qed
    next
      case (Some q)
      let ?fde = "DwarfFde_new\<lparr>cfa_instructions_end := fin, cie_offset := q\<rparr>"
      have "section_base env (sec_cursor (s\<lparr>sec_cursor := c\<rparr>))"
        using base by simp
      note fill = FillInFde_reads [OF ok' this, of ?fde]
      have "fde_body env (sec_offset c) ?fde = result_of (FillInFde env ?fde (s\<lparr>sec_cursor := c\<rparr>))"
        using fill(1) by simp
      then show ?thesis
        using Ok p Some fill(2)
        by (cases "FillInFde env ?fde (s\<lparr>sec_cursor := c\<rparr>)") (simp_all add: def)
    qed
  qed (use entry ok in \<open>simp_all add: def cache_ok_cursor section_base_clear\<close>)
  then show "out_states (cache_ok env) (GetNextCieOrFde env off s)"
    and "result_of (GetNextCieOrFde env off s) = next_entry env off ?entry"
    by blast+
qed

lemma GetNextCieOrFde_reads:
  assumes ok: "cache_ok env s"
  shows "result_of (GetNextCieOrFde env off s) = result_of (GetNextCieOrFde env off new_section)"
    and "GetNextCieOrFde env off s = Ok (nxt, Some fde) t \<Longrightarrow> read_fde env off = Ok fde ()"
proof -
  have clear: "bases_clear (sec_cursor s)"
    using ok by (simp add: cache_ok_def)
  have "agree (read_entry env (at_entries env off (sec_cursor s)))
      (read_entry env (at_entries env off (sec_cursor new_section)))"
    by (intro agree_intros same_view_at_entries clear bases_clear_new)
  then show "result_of (GetNextCieOrFde env off s) = result_of (GetNextCieOrFde env off new_section)"
    unfolding GetNextCieOrFde_entry(2) [OF ok] GetNextCieOrFde_entry(2) [OF cache_ok_new]
    by (cases "read_entry env (at_entries env off (sec_cursor s))";
        cases "read_entry env (at_entries env off (sec_cursor new_section))")
      (auto simp: next_entry_def same_view_def split: prod.split option.split)
  assume "GetNextCieOrFde env off s = Ok (nxt, Some fde) t"
  then have nxt: "next_entry env off (read_entry env (at_entries env off (sec_cursor s))) = Ok (nxt, Some fde) ()"
    using GetNextCieOrFde_entry(2) [OF ok, of off] by simp
  then obtain is64 q c where entry: "read_entry env (at_entries env off (sec_cursor s)) = Ok (is64, nxt, Some q) c"
    and body: "fde_body env (sec_offset c) (DwarfFde_new\<lparr>cfa_instructions_end := nxt, cie_offset := q\<rparr>) = Ok fde ()"
    by (auto simp: next_entry_def elim!: bind_out_OkE split: outcome.splits prod.splits option.splits)
  show "read_fde env off = Ok fde ()"
    using read_fde_header [OF clear, of env off] read_entry_header(1) [OF entry] body by simp
qed

end
