(* ===== verification/Section_Lookup.thy ===== *)
theory Section_Lookup
  imports Section_Cache
begin

text \<open>
  Looking up an FDE by pc in a DWARF section, whatever operations the section has served before.
\<close>

section \<open>The list of FDEs\<close>

lemma scan_fdes_reads:
  assumes "cache_ok env s" and "cache_ok env t"
  shows "out_states (cache_ok env) (scan_fdes env off fdes s)"
    and "result_of (scan_fdes env off fdes s) = result_of (scan_fdes env off fdes t)"
proof -
  have "out_states (cache_ok env) (scan_fdes env off fdes s)
     \<and> result_of (scan_fdes env off fdes s) = result_of (scan_fdes env off fdes t)"
    using assms
  proof (induction env off fdes s arbitrary: t rule: scan_fdes.induct)
    case (1 env off fdes s)
    note entry = GetNextCieOrFde_entry(1) [OF 1(2), of off] GetNextCieOrFde_entry(1) [OF 1(3), of off]
      trans [OF GetNextCieOrFde_reads(1) [OF 1(2), of off] GetNextCieOrFde_reads(1) [OF 1(3), of off, symmetric]]
    note unfold = scan_fdes.simps [of env off fdes s] scan_fdes.simps [of env off fdes t]
    show ?case
    proof (cases "GetNextCieOrFde env off s")
      case (Ok p u)
      with entry obtain v where v: "GetNextCieOrFde env off t = Ok p v" "cache_ok env u" "cache_ok env v"
        by (cases "GetNextCieOrFde env off t") auto
      obtain nxt fde where p: "p = (nxt, fde)" by (cases p)
      show ?thesis
        using Ok v 1(2,3) 1(1) [OF _ Ok p [symmetric] _ v(2,3)] by (simp add: unfold p)
    qed (use entry 1(2,3) in \<open>cases "GetNextCieOrFde env off t"; simp add: unfold\<close>)+
  qed
  then show "out_states (cache_ok env) (scan_fdes env off fdes s)"
    and "result_of (scan_fdes env off fdes s) = result_of (scan_fdes env off fdes t)"
    by blast+
qed

lemma scan_fdes_not_Fail: "scan_fdes env off fdes s \<noteq> Fail t"
proof (induction env off fdes s rule: scan_fdes.induct)
  case (1 env off fdes s)
  then show ?case
    by (subst scan_fdes.simps) (simp split: outcome.split prod.split)
qed

text \<open>The list has the range of every FDE as a lookup by its offset reads it.\<close>

definition fde_info_of :: "section_env \<Rightarrow> FdeInfo \<Rightarrow> bool" where
  "fde_info_of env f \<longleftrightarrow> (\<exists>fde. read_fde env (fi_offset f) = Ok fde () \<and> fde_pc_start fde = fi_start f \<and> fde_pc_end fde = fi_end f)"

definition fdes_below :: "section_env \<Rightarrow> u64 \<Rightarrow> FdeInfo list \<Rightarrow> bool" where
  "fdes_below env off fdes \<longleftrightarrow> fde_list_ok fdes \<and> (\<forall>f \<in> set fdes. fde_info_of env f \<and> fi_offset f < off)"

lemma note_fde_below:
  assumes "fdes_below env off fdes" and "\<And>f. fde = Some f \<Longrightarrow> read_fde env off = Ok f ()"
  shows "fde_list_ok (note_fde off fde fdes)" "\<forall>f \<in> set (note_fde off fde fdes). fde_info_of env f"
    and "off < nxt \<Longrightarrow> fdes_below env nxt (note_fde off fde fdes)"
  using assms
  by (auto simp: note_fde_def fdes_below_def fde_list_ok_def fde_info_of_def split: option.split)

lemma scan_fdes_list:
  assumes "cache_ok env s" and "fdes_below env off fdes" and "scan_fdes env off fdes s = Ok res t"
  shows "fde_list_ok res \<and> (\<forall>f \<in> set res. fde_info_of env f)"
  using assms
proof (induction env off fdes s rule: scan_fdes.induct)
  case (1 env off fdes s)
  note below = 1(3) [unfolded fdes_below_def]
  show ?case
  proof (cases "entries_end env \<le> off")
    case True
    with 1(4) below show ?thesis by (simp add: scan_fdes.simps [of env off])
  next
    case False
    show ?thesis
    proof (cases "GetNextCieOrFde env off s")
      case (Ok p u)
      obtain nxt fde where p: "p = (nxt, fde)" by (cases p)
      have "cache_ok env u"
        using GetNextCieOrFde_entry(1) [OF 1(2), of off] Ok by simp
      have "\<And>f. fde = Some f \<Longrightarrow> read_fde env off = Ok f ()"
        using GetNextCieOrFde_reads(2) [OF 1(2)] Ok p by blast
      note noted = note_fde_below [where fde = fde, OF 1(3) this]
      show ?thesis
        using 1(1) [OF False Ok p [symmetric]] 1(4) Ok p False noted \<open>cache_ok env u\<close>
        by (cases "nxt \<le> off") (simp_all add: scan_fdes.simps [of env off] not_le)
    qed (use 1(4) below False in \<open>simp_all add: scan_fdes.simps [of env off]\<close>)
  qed
qed

section \<open>The states of a section\<close>

definition section_fdes :: "section_env \<Rightarrow> (FdeInfo list, unit) outcome" where
  "section_fdes env = result_of (scan_fdes env (entries_offset env) [] new_section)"

lemma section_fdes_ok:
  assumes "section_fdes env = Ok fdes ()"
  shows "fde_list_ok fdes" and "f \<in> set fdes \<Longrightarrow> fde_info_of env f"
proof -
  from assms obtain t where "scan_fdes env (entries_offset env) [] new_section = Ok fdes t"
    unfolding section_fdes_def by (cases "scan_fdes env (entries_offset env) [] new_section") auto
  from scan_fdes_list [OF cache_ok_new _ this] show "fde_list_ok fdes" "f \<in> set fdes \<Longrightarrow> fde_info_of env f"
    by (simp_all add: fdes_below_def fde_list_ok_def)
qed

definition index_ok :: "section_env \<Rightarrow> dwarf_section \<Rightarrow> bool" where
  "index_ok env s \<longleftrightarrow> fde_index s = [] \<or> (\<exists>fdes. section_fdes env = Ok fdes () \<and> fde_index s = fde_index_of fdes)"

definition sec_ok :: "section_env \<Rightarrow> dwarf_section \<Rightarrow> bool" where
  "sec_ok env s \<longleftrightarrow> cache_ok env s \<and> index_ok env s"

lemma BuildFdeIndex_ok:
  assumes "cache_ok env s"
  shows "out_states (sec_ok env) (BuildFdeIndex env s)"
    and "section_fdes env = Ok fdes () \<Longrightarrow> \<exists>t. BuildFdeIndex env s = Ok () t \<and> fde_index t = fde_index_of fdes"
proof -
  let ?scan = "scan_fdes env (entries_offset env) [] s"
  have res: "result_of ?scan = section_fdes env"
    using scan_fdes_reads(2) [OF assms cache_ok_new] by (simp add: section_fdes_def)
  have states: "out_states (cache_ok env) ?scan"
    by (rule scan_fdes_reads(1) [OF assms cache_ok_new])
  show "out_states (sec_ok env) (BuildFdeIndex env s)"
    using res [symmetric] states scan_fdes_not_Fail
    by (cases ?scan) (auto simp: BuildFdeIndex_def sec_ok_def index_ok_def cache_ok_def)
  show "\<exists>t. BuildFdeIndex env s = Ok () t \<and> fde_index t = fde_index_of fdes" if "section_fdes env = Ok fdes ()"
    using res that by (cases ?scan) (auto simp: BuildFdeIndex_def)
qed

text \<open>The index as \<^verbatim>\<open>GetFdeFromPc\<close> and \<^verbatim>\<open>GetFdes\<close> have it, built when it is empty.\<close>

definition with_index :: "section_env \<Rightarrow> dwarf_section \<Rightarrow> (unit, dwarf_section) outcome" where
  "with_index env s = (if fde_index s = [] then BuildFdeIndex env s else Ok () s)"

lemma with_index_ok:
  assumes "sec_ok env s"
  shows "out_states (sec_ok env) (with_index env s)"
    and "section_fdes env = Ok fdes () \<Longrightarrow> \<exists>t. with_index env s = Ok () t \<and> sec_ok env t \<and> fde_index t = fde_index_of fdes"
proof -
  have ok: "cache_ok env s" using assms by (simp add: sec_ok_def)
  show "out_states (sec_ok env) (with_index env s)"
    using BuildFdeIndex_ok(1) [OF ok] assms by (simp add: with_index_def)
  show "\<exists>t. with_index env s = Ok () t \<and> sec_ok env t \<and> fde_index t = fde_index_of fdes"
    if "section_fdes env = Ok fdes ()"
    using BuildFdeIndex_ok [OF ok] assms that
    by (fastforce simp: with_index_def sec_ok_def index_ok_def)
qed

text \<open>No operation but the building of the index touches the index.\<close>

lemma at_cursor_index: "out_states (\<lambda>t. fde_index t = fde_index s) (at_cursor f s)"
  by (cases "f (sec_cursor s)") (simp_all add: at_cursor_def)

lemma GetCieFromOffset_index: "out_states (\<lambda>t. fde_index t = fde_index s) (GetCieFromOffset env off s)"
  using at_cursor_index [of s "parse_cie env off"]
  by (cases "at_cursor (parse_cie env off) s") (simp_all add: GetCieFromOffset_def split: option.split)

lemma FillInFde_index: "out_states (\<lambda>t. fde_index t = fde_index s) (FillInFde env fde s)"
  unfolding FillInFde_def Let_def
proof (rule out_states_bind [OF GetCieFromOffset_index])
  fix v and t :: dwarf_section
  assume "fde_index t = fde_index s"
  then show "out_states (\<lambda>t. fde_index t = fde_index s)
      (at_cursor (\<lambda>c. bind_out (fde_range env (sec_offset (sec_cursor s)) v (fde\<lparr>fde_cie := v\<rparr>) c) (fde_augmentation env v)) t)"
    using at_cursor_index [of t] by metis
qed

lemma GetFdeFromOffset_index: "out_states (\<lambda>t. fde_index t = fde_index s) (GetFdeFromOffset env off s)"
  unfolding GetFdeFromOffset_def
  by (cases "fde_entries s off")
    (auto intro!: out_states_bind [OF at_cursor_index] out_states_bind
      out_states_mono [OF FillInFde_index])

lemma index_ok_cong: "fde_index t = fde_index s \<Longrightarrow> index_ok env t = index_ok env s"
  by (simp add: index_ok_def)

lemma sec_ok_offset_lookups:
  assumes "sec_ok env s"
  shows "out_states (sec_ok env) (GetCieFromOffset env off s)"
    and "out_states (sec_ok env) (GetFdeFromOffset env off s)"
proof -
  have s: "cache_ok env s" "index_ok env s"
    using assms by (simp_all add: sec_ok_def)
  show "out_states (sec_ok env) (GetCieFromOffset env off s)"
    by (rule out_states_mono [OF out_states_conj [OF GetCieFromOffset_reads(2) [OF s(1)] GetCieFromOffset_index]])
      (simp add: sec_ok_def s(2) index_ok_cong [of _ s])
  show "out_states (sec_ok env) (GetFdeFromOffset env off s)"
    by (rule out_states_mono [OF out_states_conj [OF GetFdeFromOffset_reads(2) [OF s(1)] GetFdeFromOffset_index]])
      (simp add: sec_ok_def s(2) index_ok_cong [of _ s])
qed

lemma sec_ok_GetFdeFromPc: "sec_ok env s \<Longrightarrow> out_states (sec_ok env) (GetFdeFromPc env pc s)"
  unfolding GetFdeFromPc_def with_index_def [symmetric]
  by (rule out_states_bind [OF with_index_ok(1)])
    (auto split: option.split intro!: out_states_bind [OF sec_ok_offset_lookups(2)])

lemma sec_ok_collect_fdes: "sec_ok env s \<Longrightarrow> out_states (sec_ok env) (collect_fdes env offs s)"
proof (induction offs arbitrary: s)
  case (Cons off offs)
  with sec_ok_offset_lookups(2) [of env s off] show ?case
    by (cases "GetFdeFromOffset env off s") (auto intro!: out_states_bind)
qed simp

lemma sec_ok_GetFdes: "sec_ok env s \<Longrightarrow> out_states (sec_ok env) (GetFdes env s)"
  unfolding GetFdes_def with_index_def [symmetric]
  by (rule out_states_bind [OF with_index_ok(1)]) (auto intro: sec_ok_collect_fdes)

text \<open>
  The states a section can be in: what \<^verbatim>\<open>Init\<close> leaves, and any sequence of lookups, whether they succeed
  or not. Evaluating call frame instructions and expressions moves the cursor the lookups share, and
  keeps its bases.
\<close>

inductive section_reaches :: "section_env \<Rightarrow> dwarf_section \<Rightarrow> bool" for env where
  start: "section_reaches env new_section"
| cie: "section_reaches env s \<Longrightarrow> state_of (GetCieFromOffset env off s) = Some t \<Longrightarrow> section_reaches env t"
| fde: "section_reaches env s \<Longrightarrow> state_of (GetFdeFromOffset env off s) = Some t \<Longrightarrow> section_reaches env t"
| pc: "section_reaches env s \<Longrightarrow> state_of (GetFdeFromPc env pc s) = Some t \<Longrightarrow> section_reaches env t"
| fdes: "section_reaches env s \<Longrightarrow> state_of (GetFdes env s) = Some t \<Longrightarrow> section_reaches env t"
| eval: "section_reaches env s \<Longrightarrow> bases_clear c \<Longrightarrow> section_reaches env (s\<lparr>sec_cursor := c\<rparr>)"

lemma section_reaches_ok: "section_reaches env s \<Longrightarrow> sec_ok env s"
proof (induction rule: section_reaches.induct)
  case start
  show ?case
    using cache_ok_new [of env] by (simp add: sec_ok_def index_ok_def new_section_def)
next
  case (eval s c)
  then show ?case
    by (simp add: sec_ok_def index_ok_def cache_ok_cursor)
qed (blast intro: out_states_state_of sec_ok_offset_lookups sec_ok_GetFdeFromPc sec_ok_GetFdes)+

lemma GetFdeFromPc_lookup:
  assumes "section_reaches env s" and "section_fdes env = Ok fdes ()"
  shows "case result_of (GetFdeFromPc env pc s) of
      Ok fde _ \<Rightarrow> \<exists>f \<in> set fdes. covers f pc \<and> read_fde env (fi_offset f) = Ok fde ()
        \<and> fde_pc_start fde \<le> pc \<and> pc < fde_pc_end fde
    | Fail _ \<Rightarrow> \<not> (\<exists>f \<in> set fdes. covers f pc)
    | _ \<Rightarrow> False"
proof -
  note list_ok = section_fdes_ok [OF assms(2)]
  obtain t where t: "with_index env s = Ok () t" "sec_ok env t" "fde_index t = fde_index_of fdes"
    using with_index_ok(2) [OF section_reaches_ok [OF assms(1)] assms(2)] by blast
  have cache: "cache_ok env t" using t(2) by (simp add: sec_ok_def)
  note unfold = GetFdeFromPc_def with_index_def [symmetric] t(1,3)
  show ?thesis
  proof (cases "index_upper_bound pc (fde_index_of fdes)")
    case None
    then have "\<not> (\<exists>f \<in> set fdes. covers f pc)"
      using index_finds [OF list_ok(1)] by fastforce
    with None show ?thesis by (simp add: unfold)
  next
    case (Some off)
    obtain g where g: "g \<in> set fdes" "fi_offset g = off" "pc < fi_end g"
      using index_sound [OF list_ok(1) Some] by blast
    from list_ok(2) [OF g(1)] obtain fde where fde: "read_fde env off = Ok fde ()"
      "fde_pc_start fde = fi_start g" "fde_pc_end fde = fi_end g"
      unfolding fde_info_of_def g(2) by blast
    then obtain u where u: "GetFdeFromOffset env off t = Ok fde u"
      using GetFdeFromOffset_reads(1) [OF cache, of off] by (cases "GetFdeFromOffset env off t") auto
    have "covers g pc" if f: "f \<in> set fdes" "covers f pc" for f
    proof -
      obtain h where "h \<in> set fdes" "fi_offset h = off" "covers h pc"
        using index_finds [OF list_ok(1) f] Some by auto
      then show ?thesis
        using g(1,2) list_ok(1) by (metis fde_list_ok_def inj_onD distinct_map)
    qed
    then show ?thesis
      using Some u fde g by (auto simp: unfold covers_def)
  qed
qed

section \<open>Properties\<close>

text \<open>
  C28. The caches of a DWARF section are transparent: in every state a sequence of lookups can lead to,
  looking up a CIE or an FDE by offset returns what a fresh section parses there, with the same
  failures, and scanning for the FDEs lists the same FDEs.
\<close>

theorem section_caches_transparent:
  assumes "section_reaches env s"
  shows "result_of (GetCieFromOffset env off s) = result_of (GetCieFromOffset env off new_section)
    \<and> result_of (GetFdeFromOffset env off s) = result_of (GetFdeFromOffset env off new_section)
    \<and> result_of (scan_fdes env off [] s) = result_of (scan_fdes env off [] new_section)"
proof -
  have "cache_ok env s"
    using section_reaches_ok [OF assms] by (simp add: sec_ok_def)
  then show ?thesis
    using GetCieFromOffset_reads(1) GetFdeFromOffset_reads(1) scan_fdes_reads(2) [OF _ cache_ok_new] cache_ok_new
    by metis
qed

text \<open>An \<^verbatim>\<open>.eh_frame\<close> with one CIE and one FDE for the code from \<open>0x25\<close> to \<open>0x45\<close>.\<close>

definition eh_frame_example :: "u8 list" where
  "eh_frame_example =
     [9, 0, 0, 0, 0, 0, 0, 0, 1, 0, 1, 4, 16,
      12, 0, 0, 0, 17, 0, 0, 0, 0x10, 0, 0, 0, 0x20, 0, 0, 0]"

definition section_example :: section_env where
  "section_example = \<lparr>sec_kind = Eh_Frame, sec_rd = (\<lambda>a n. take n (drop (unat a) eh_frame_example)), sec_asz = 4,
     section_bias = 0, entries_offset = 0, entries_end = 29, sec_pc_offset = 0\<rparr>"

definition used_section :: dwarf_section where
  "used_section = the (state_of (GetFdeFromPc section_example 0x33 new_section))"

lemma used_section_reached: "section_reaches section_example used_section"
proof -
  have "state_of (GetFdeFromPc section_example 0x33 new_section) \<noteq> None"
    by code_simp
  then show ?thesis
    unfolding used_section_def by (intro section_reaches.pc [OF section_reaches.start, of _ "0x33"]) simp
qed

lemma section_caches_transparent_witness:
  "cie_entries used_section 0 \<noteq> None
   \<and> result_of (GetCieFromOffset section_example 0 used_section) = result_of (GetCieFromOffset section_example 0 new_section)"
proof
  show "cie_entries used_section 0 \<noteq> None"
    by code_simp
  show "result_of (GetCieFromOffset section_example 0 used_section) = result_of (GetCieFromOffset section_example 0 new_section)"
    using section_caches_transparent [OF used_section_reached, of 0] by blast
qed

text \<open>
  C6. Looking up a pc in a DWARF section finds an FDE that covers it exactly if the section holds one, for
  overlapping and nested FDEs too, in every state of the caches; it returns the FDE as it stands in the
  section.
\<close>

theorem GetFdeFromPc_finds:
  assumes "section_reaches env s" and "section_fdes env = Ok fdes ()"
  shows "case result_of (GetFdeFromPc env pc s) of
      Ok fde _ \<Rightarrow> \<exists>f \<in> set fdes. covers f pc \<and> read_fde env (fi_offset f) = Ok fde ()
        \<and> fde_pc_start fde \<le> pc \<and> pc < fde_pc_end fde
    | Fail _ \<Rightarrow> \<not> (\<exists>f \<in> set fdes. covers f pc)
    | _ \<Rightarrow> False"
  by (rule GetFdeFromPc_lookup [OF assms])

lemma GetFdeFromPc_finds_witness:
  "\<exists>fde. result_of (GetFdeFromPc section_example 0x44 used_section) = Ok fde () \<and> fde_pc_start fde \<le> 0x44 \<and> 0x44 < fde_pc_end fde"
proof -
  have "section_fdes section_example = Ok [\<lparr>fi_start = 0x25, fi_end = 0x45, fi_offset = 13\<rparr>] ()"
    by code_simp
  from GetFdeFromPc_finds [OF used_section_reached this, of "0x44"] show ?thesis
    by (cases "result_of (GetFdeFromPc section_example 0x44 used_section)") (auto simp: covers_def)
qed

end
