(* ===== verification/Machine_Regs.thy ===== *)
theory Machine_Regs
  imports Dwarf_Cfa
begin

text \<open>
  \<^verbatim>\<open>libunwindstack/Regs*.cpp\<close> and \<^verbatim>\<open>include/unwindstack/Regs.h\<close>: the registers of a frame, one class per
  architecture. The model keeps the architecture as a field; the type parameter is \<^verbatim>\<open>AddressType\<close>.
  Reading registers from a process is a system call and is not modelled.
\<close>

section \<open>State\<close>

text \<open>
  \<^verbatim>\<open>pseudo_regs_\<close> (one element, \<^verbatim>\<open>RA_SIGN_STATE\<close>) and \<^verbatim>\<open>pac_mask_\<close> belong to \<^verbatim>\<open>RegsArm64\<close>.
  \<open>clear_pac_bits\<close> is \<^verbatim>\<open>__bionic_clear_pac_bits\<close>, the identity where bionic is not the C library.
\<close>

record 'w mregs =
  mr_arch :: ArchEnum
  mr_regs :: "'w list"
  mr_dex_pc :: u64
  mr_ra_sign_state :: u64
  mr_pac_mask :: u64
  clear_pac_bits :: "u64 \<Rightarrow> u64"

fun total_regs_of :: "ArchEnum \<Rightarrow> nat" where
  "total_regs_of ARCH_ARM = 16"
| "total_regs_of ARCH_ARM64 = 34"
| "total_regs_of ARCH_X86 = 16"
| "total_regs_of ARCH_X86_64 = 17"
| "total_regs_of ARCH_MIPS = 33"
| "total_regs_of ARCH_MIPS64 = 33"
| "total_regs_of ARCH_RISCV64 = 32"
| "total_regs_of ARCH_UNKNOWN = 0"

fun pc_reg :: "ArchEnum \<Rightarrow> nat" where
  "pc_reg ARCH_ARM = 15"
| "pc_reg ARCH_ARM64 = 32"
| "pc_reg ARCH_X86 = 8"
| "pc_reg ARCH_X86_64 = 16"
| "pc_reg ARCH_MIPS = 32"
| "pc_reg ARCH_MIPS64 = 32"
| "pc_reg _ = 0"

fun sp_reg :: "ArchEnum \<Rightarrow> nat" where
  "sp_reg ARCH_ARM = 13"
| "sp_reg ARCH_ARM64 = 31"
| "sp_reg ARCH_X86 = 4"
| "sp_reg ARCH_X86_64 = 7"
| "sp_reg ARCH_MIPS = 29"
| "sp_reg ARCH_MIPS64 = 29"
| "sp_reg ARCH_RISCV64 = 2"
| "sp_reg ARCH_UNKNOWN = 0"

text \<open>The register that holds the return address on entry, where the architecture has one.\<close>

fun lr_reg :: "ArchEnum \<Rightarrow> nat option" where
  "lr_reg ARCH_ARM = Some 14"
| "lr_reg ARCH_ARM64 = Some 30"
| "lr_reg ARCH_MIPS = Some 31"
| "lr_reg ARCH_MIPS64 = Some 31"
| "lr_reg ARCH_RISCV64 = Some 1"
| "lr_reg _ = None"

fun ArchIs32Bit :: "ArchEnum \<Rightarrow> bool" where
  "ArchIs32Bit ARCH_ARM = True"
| "ArchIs32Bit ARCH_X86 = True"
| "ArchIs32Bit ARCH_MIPS = True"
| "ArchIs32Bit _ = False"

text \<open>What the constructors establish: one register per index, words of the size of the architecture.\<close>

definition mregs_ok :: "'a::len word mregs \<Rightarrow> bool" where
  "mregs_ok r \<longleftrightarrow> mr_arch r \<noteq> ARCH_UNKNOWN \<and> length (mr_regs r) = total_regs_of (mr_arch r) \<and>
     LENGTH('a) = (if ArchIs32Bit (mr_arch r) then 32 else 64)"

section \<open>Accessors\<close>

abbreviation total_regs :: "'a::len word mregs \<Rightarrow> nat" where
  "total_regs r \<equiv> length (mr_regs r)"

definition regs_pc :: "'a::len word mregs \<Rightarrow> u64" where
  "regs_pc r = ucast (mr_regs r ! pc_reg (mr_arch r))"

definition regs_sp :: "'a::len word mregs \<Rightarrow> u64" where
  "regs_sp r = ucast (mr_regs r ! sp_reg (mr_arch r))"

definition put_reg :: "nat \<Rightarrow> 'a::len word \<Rightarrow> 'a word mregs \<Rightarrow> 'a word mregs" where
  "put_reg i v r = r\<lparr>mr_regs := (mr_regs r)[i := v]\<rparr>"

definition strip_pac :: "'a::len word mregs \<Rightarrow> u64 \<Rightarrow> u64" where
  "strip_pac r pc = (if mr_pac_mask r \<noteq> 0 then pc AND NOT (mr_pac_mask r) else clear_pac_bits r pc)"

definition IsRASigned :: "'a::len word mregs \<Rightarrow> bool" where
  "IsRASigned r = (mr_ra_sign_state r \<noteq> 0)"

definition set_pc :: "u64 \<Rightarrow> 'a::len word mregs \<Rightarrow> 'a word mregs" where
  "set_pc pc r =
     (let pc = (if mr_arch r = ARCH_ARM64 \<and> pc \<noteq> 0 \<and> IsRASigned r then strip_pac r pc else pc)
      in put_reg (pc_reg (mr_arch r)) (ucast pc) r)"

definition set_sp :: "u64 \<Rightarrow> 'a::len word mregs \<Rightarrow> 'a word mregs" where
  "set_sp sp r = put_reg (sp_reg (mr_arch r)) (ucast sp) r"

definition set_dex_pc :: "u64 \<Rightarrow> 'a::len word mregs \<Rightarrow> 'a word mregs" where
  "set_dex_pc pc r = r\<lparr>mr_dex_pc := pc\<rparr>"

definition fallback_pc :: "'a::len word mregs \<Rightarrow> 'a word mregs" where
  "fallback_pc r =
     (if mr_arch r = ARCH_ARM64 then put_reg 32 (ucast (strip_pac r (ucast (mr_regs r ! 32)))) r else r)"

text \<open>The identifier is a \<^verbatim>\<open>uint16_t\<close>. Only \<^verbatim>\<open>RegsArm64\<close> has pseudo registers.\<close>

definition SetPseudoRegister :: "u16 \<Rightarrow> u64 \<Rightarrow> 'a::len word mregs \<Rightarrow> (unit, 'a word mregs) outcome" where
  "SetPseudoRegister i v r =
     (if mr_arch r = ARCH_ARM64 \<and> 34 \<le> i \<and> i < 35 then Ok () (r\<lparr>mr_ra_sign_state := v\<rparr>) else Fail r)"

definition GetPseudoRegister :: "u16 \<Rightarrow> 'a::len word mregs \<Rightarrow> u64 option" where
  "GetPseudoRegister i r =
     (if mr_arch r = ARCH_ARM64 \<and> 34 \<le> i \<and> i < 35 then Some (mr_ra_sign_state r) else None)"

definition ResetPseudoRegisters :: "'a::len word mregs \<Rightarrow> 'a word mregs" where
  "ResetPseudoRegisters r = (if mr_arch r = ARCH_ARM64 then r\<lparr>mr_ra_sign_state := 0\<rparr> else r)"

text \<open>
  \<^verbatim>\<open>SetPcFromReturnAddress\<close>: from the return address register, or from the top of the stack on x86.
  It says false when the pc would not change.
\<close>

definition SetPcFromReturnAddress :: "reader \<Rightarrow> 'a::len word mregs \<Rightarrow> (unit, 'a word mregs) outcome" where
  "SetPcFromReturnAddress mem r =
     (let pc = mr_regs r ! pc_reg (mr_arch r)
      in case lr_reg (mr_arch r) of
           Some lr \<Rightarrow>
             if pc = mr_regs r ! lr then Fail r
             else Ok () (put_reg (pc_reg (mr_arch r)) (mr_regs r ! lr) r)
         | None \<Rightarrow>
             case ReadFully mem (regs_sp r) (addr_size TYPE('a)) of
               None \<Rightarrow> Fail r
             | Some bs \<Rightarrow>
                 if le_word bs = pc then Fail r
                 else Ok () (put_reg (pc_reg (mr_arch r)) (le_word bs) r))"

section \<open>Signal frames\<close>

text \<open>The words in a byte sequence; a read into the register array overwrites the bytes it got.\<close>

fun le_words :: "nat \<Rightarrow> nat \<Rightarrow> u8 list \<Rightarrow> 'a::len word list" where
  "le_words k 0 bs = []"
| "le_words k (Suc n) bs = le_word (take k bs) # le_words k n (drop k bs)"

definition overlay_regs :: "u8 list \<Rightarrow> 'a::len word list \<Rightarrow> 'a word list" where
  "overlay_regs bs rs =
     (let k = addr_size TYPE('a)
      in le_words k (length rs) (bs @ drop (length bs) (concat (map (\<lambda>w. to_le k (unat w)) rs))))"

definition read_regs :: "reader \<Rightarrow> u64 \<Rightarrow> nat \<Rightarrow> 'a::len word mregs \<Rightarrow> (unit, 'a word mregs) outcome" where
  "read_regs mem a n r =
     (let k = addr_size TYPE('a); bs = mem a (k * n); r' = r\<lparr>mr_regs := overlay_regs bs (mr_regs r)\<rparr>
      in if length bs = k * n then Ok () r' else Fail r')"

definition fail_unless :: "bool \<Rightarrow> (unit, 'a::len word mregs) outcome \<Rightarrow> 'a word mregs \<Rightarrow> (unit, 'a word mregs) outcome" where
  "fail_unless b out r = (if b then out else Fail r)"

definition RegsArm64_StepIfSignalHandler ::
  "reader \<Rightarrow> u64 \<Rightarrow> reader \<Rightarrow> u64 mregs \<Rightarrow> (unit, u64 mregs) outcome" where
  "RegsArm64_StepIfSignalHandler elf off mem r =
     fail_unless (Read64 elf off = Some 0xd4000001d2801168)
       (read_regs mem (mr_regs r ! 31 + 0x80 + 0xb0 + 0x08) 34 r) r"

definition RegsRiscv64_StepIfSignalHandler ::
  "reader \<Rightarrow> u64 \<Rightarrow> reader \<Rightarrow> u64 mregs \<Rightarrow> (unit, u64 mregs) outcome" where
  "RegsRiscv64_StepIfSignalHandler elf off mem r =
     fail_unless (ReadFully elf off 8 = Some [0x93, 0x08, 0xb0, 0x08, 0x73, 0x00, 0x00, 0x00])
       (read_regs mem (mr_regs r ! 2 + 0x80 + 0xb0 + 0x00) 32 r) r"

text \<open>The offset of the saved registers of an ARM signal frame, 0 when it is none.\<close>

definition arm_signal_offset :: "u32 \<Rightarrow> reader \<Rightarrow> u64 \<Rightarrow> u64 option" where
  "arm_signal_offset insn mem sp =
     (if insn = 0xe3a07077 \<or> insn = 0xef900077 \<or> insn = 0xdf002777 then
        map_option (\<lambda>data. if data = 0x5ac3c35a then sp + 0x14 + 0xc else sp + 0xc) (Read32 mem sp)
      else if insn = 0xe3a070ad \<or> insn = 0xef9000ad \<or> insn = 0xdf0027ad then
        map_option (\<lambda>data. if ucast data = sp + 8 then sp + 8 + 0x80 + 0x14 + 0xc
                          else sp + 0x80 + 0x14 + 0xc) (Read32 mem sp)
      else Some 0)"

definition RegsArm_StepIfSignalHandler ::
  "reader \<Rightarrow> u64 \<Rightarrow> reader \<Rightarrow> u32 mregs \<Rightarrow> (unit, u32 mregs) outcome" where
  "RegsArm_StepIfSignalHandler elf off mem r =
     (case Read32 elf off of
        None \<Rightarrow> Fail r
      | Some insn \<Rightarrow> (case arm_signal_offset insn mem (ucast (mr_regs r ! 13)) of
          None \<Rightarrow> Fail r
        | Some a \<Rightarrow> if a = 0 then Fail r else read_regs mem a 16 r))"

text \<open>\<^verbatim>\<open>x86_mcontext_t\<close>: 19 words, \<^verbatim>\<open>edi\<close> at index 4 up to \<^verbatim>\<open>eip\<close> at index 14.\<close>

definition put_regs :: "(nat \<times> 'a::len word) list \<Rightarrow> 'a word mregs \<Rightarrow> 'a word mregs" where
  "put_regs ws r = fold (\<lambda>(i, v). put_reg i v) ws r"

definition x86_SetFromUcontext :: "u32 list \<Rightarrow> u32 mregs \<Rightarrow> u32 mregs" where
  "x86_SetFromUcontext ctx =
     put_regs [(7, ctx ! 4), (6, ctx ! 5), (5, ctx ! 6), (4, ctx ! 7), (3, ctx ! 8), (2, ctx ! 9),
       (1, ctx ! 10), (0, ctx ! 11), (8, ctx ! 14)]"

definition RegsX86_StepIfSignalHandler ::
  "reader \<Rightarrow> u64 \<Rightarrow> reader \<Rightarrow> u32 mregs \<Rightarrow> (unit, u32 mregs) outcome" where
  "RegsX86_StepIfSignalHandler elf off mem r =
     (case Read64 elf off of
        None \<Rightarrow> Fail r
      | Some data \<Rightarrow>
          if data = 0x80cd00000077b858 then
            (case ReadFully mem (ucast (mr_regs r ! 4 + 4)) 76 of
               None \<Rightarrow> Fail r
             | Some bs \<Rightarrow>
                 let ctx = le_words 4 19 bs
                 in Ok () (put_regs [(5, ctx ! 6), (4, ctx ! 7), (3, ctx ! 8), (2, ctx ! 9), (1, ctx ! 10),
                      (0, ctx ! 11), (8, ctx ! 14)] r))
          else if data AND 0x00ffffffffffffff = 0x0080cd000000adb8 then
            (case Read32 mem (ucast (mr_regs r ! 4 + 8)) of
               None \<Rightarrow> Fail r
             | Some ptr \<Rightarrow> (case ReadFully mem (ucast (ptr + 0x14)) 76 of
                 None \<Rightarrow> Fail r
               | Some bs \<Rightarrow> Ok () (x86_SetFromUcontext (le_words 4 19 bs) r)))
          else Fail r)"

text \<open>\<^verbatim>\<open>x86_64_mcontext_t\<close>: 23 words, \<^verbatim>\<open>r8\<close> at index 0.\<close>

definition x86_64_SetFromUcontext :: "u64 list \<Rightarrow> u64 mregs \<Rightarrow> u64 mregs" where
  "x86_64_SetFromUcontext ctx =
     put_regs (map (\<lambda>i. (8 + i, ctx ! i)) [0 ..< 8] @
       [(5, ctx ! 8), (4, ctx ! 9), (6, ctx ! 10), (3, ctx ! 11), (1, ctx ! 12), (0, ctx ! 13), (2, ctx ! 14),
        (7, ctx ! 15), (16, ctx ! 16)])"

definition RegsX86_64_StepIfSignalHandler ::
  "reader \<Rightarrow> u64 \<Rightarrow> reader \<Rightarrow> u64 mregs \<Rightarrow> (unit, u64 mregs) outcome" where
  "RegsX86_64_StepIfSignalHandler elf off mem r =
     (if Read64 elf off \<noteq> Some 0x0f0000000fc0c748 then Fail r
      else if ReadFully elf (off + 8) 1 \<noteq> Some [0x05] then Fail r
      else case ReadFully mem (mr_regs r ! 7 + 0x28) 184 of
        None \<Rightarrow> Fail r
      | Some bs \<Rightarrow> Ok () (x86_64_SetFromUcontext (le_words 8 23 bs) r))"

definition RegsMips_StepIfSignalHandler ::
  "reader \<Rightarrow> u64 \<Rightarrow> reader \<Rightarrow> u32 mregs \<Rightarrow> (unit, u32 mregs) outcome" where
  "RegsMips_StepIfSignalHandler elf off mem r =
     (case Read64 elf off of
        None \<Rightarrow> Fail r
      | Some data \<Rightarrow>
          if data = 0x0000000c24021061 \<or> data = 0x0000000c24021017 then
            let frame = (if data = 0x0000000c24021061 then 24 + 128 + 24 + 8 else 24 + 8)
            in case ReadFully mem (ucast (mr_regs r ! 29) + frame) 264 of
                 None \<Rightarrow> Fail r
               | Some bs \<Rightarrow>
                   let values = le_words 8 33 bs :: u64 list
                   in Ok () (put_regs ((32, ucast (values ! 0)) #
                        map (\<lambda>i. (i, ucast (values ! (1 + i)))) [0 ..< 32]) r)
          else Fail r)"

text \<open>
  \<^verbatim>\<open>RegsMips64\<close> calls \<^verbatim>\<open>Memory::Read\<close>, not \<^verbatim>\<open>ReadFully\<close>: any number of bytes but none is taken for a
  success, and \<^verbatim>\<open>data\<close> is compared though bytes of it may not have been read (\<open>junk\<close>).
\<close>

definition RegsMips64_StepIfSignalHandler ::
  "u64 \<Rightarrow> reader \<Rightarrow> u64 \<Rightarrow> reader \<Rightarrow> u64 mregs \<Rightarrow> (unit, u64 mregs) outcome" where
  "RegsMips64_StepIfSignalHandler junk elf off mem r =
     (let bs = elf off 8; data = (le_word (bs @ drop (length bs) (to_le 8 (unat junk))) :: u64)
      in if bs = [] \<or> data \<noteq> 0x0000000c2402145b then Fail r
         else
           let sp = mr_regs r ! 29; bs = mem (sp + 24 + 128 + 40) (8 * 32);
               r' = r\<lparr>mr_regs := overlay_regs bs (mr_regs r)\<rparr>
           in if bs = [] then Fail r'
              else
                let bs = mem (sp + 24 + 128 + 40 + 576) 8;
                    old = to_le 8 (unat (mr_regs r' ! 32))
                in if bs = [] then Fail r'
                   else Ok () (put_reg 32 (le_word (bs @ drop (length bs) old)) r'))"

section \<open>The size of a call instruction\<close>

text \<open>\<open>elf\<close> is \<open>None\<close> for an invalid ELF file, else its load bias and its memory.\<close>

definition GetPcAdjustment :: "u64 \<Rightarrow> (u64 \<times> reader) option \<Rightarrow> ArchEnum \<Rightarrow> u64" where
  "GetPcAdjustment rel_pc elf arch =
     (case arch of
        ARCH_ARM \<Rightarrow>
          (case elf of
             None \<Rightarrow> 2
           | Some (load_bias, mem) \<Rightarrow>
               if rel_pc < load_bias then (if rel_pc < 2 then 0 else 2)
               else
                 let adjusted_rel_pc = rel_pc - load_bias
                 in if adjusted_rel_pc < 5 then (if adjusted_rel_pc < 2 then 0 else 2)
                    else if bit adjusted_rel_pc 0 then
                      (case Read32 mem (adjusted_rel_pc - 5) of
                         None \<Rightarrow> 2
                       | Some v \<Rightarrow> if v AND 0xe000f000 \<noteq> 0xe000f000 then 2 else 4)
                    else 4)
      | ARCH_ARM64 \<Rightarrow> if rel_pc < 4 then 0 else 4
      | ARCH_RISCV64 \<Rightarrow> if rel_pc < 4 then 0 else 4
      | ARCH_MIPS \<Rightarrow> if rel_pc < 8 then 0 else 8
      | ARCH_MIPS64 \<Rightarrow> if rel_pc < 8 then 0 else 8
      | ARCH_X86 \<Rightarrow> if rel_pc = 0 then 0 else 1
      | ARCH_X86_64 \<Rightarrow> if rel_pc = 0 then 0 else 1
      | ARCH_UNKNOWN \<Rightarrow> 0)"

section \<open>The shape of the register file\<close>

named_theorems regs_ok \<open>operations that keep the shape of the register file\<close>

lemma special_regs_below_total:
  assumes "arch \<noteq> ARCH_UNKNOWN"
  shows "pc_reg arch < total_regs_of arch" "sp_reg arch < total_regs_of arch"
    "lr_reg arch = Some i \<Longrightarrow> i < total_regs_of arch"
  using assms by (cases arch; auto)+

lemma mregs_ok_updates [regs_ok]:
  assumes "mregs_ok r"
  shows "mregs_ok (put_reg i v r)" "mregs_ok (r\<lparr>mr_dex_pc := a\<rparr>)" "mregs_ok (r\<lparr>mr_ra_sign_state := a\<rparr>)"
    "length vs = length (mr_regs r) \<Longrightarrow> mregs_ok (r\<lparr>mr_regs := vs\<rparr>)"
  using assms by (simp_all add: mregs_ok_def put_reg_def)

lemma mregs_ok_accessors [regs_ok]:
  assumes "mregs_ok r"
  shows "mregs_ok (set_pc a r)" "mregs_ok (set_sp a r)" "mregs_ok (set_dex_pc a r)" "mregs_ok (fallback_pc r)"
    "mregs_ok (ResetPseudoRegisters r)"
  using assms
  by (simp_all add: set_pc_def set_sp_def set_dex_pc_def fallback_pc_def ResetPseudoRegisters_def Let_def regs_ok)

lemma mregs_ok_put_regs [regs_ok]: "mregs_ok r \<Longrightarrow> mregs_ok (put_regs ws r)"
  unfolding put_regs_def by (induction ws arbitrary: r) (auto simp: regs_ok)

lemma length_le_words [simp]: "length (le_words k n bs) = n"
  by (induction k n bs rule: le_words.induct) simp_all

lemma length_overlay_regs [simp]: "length (overlay_regs bs rs) = length rs"
  by (simp add: overlay_regs_def Let_def)

lemma read_regs_ok [regs_ok]: "mregs_ok r \<Longrightarrow> out_states mregs_ok (read_regs mem a n r)"
  by (simp add: read_regs_def Let_def regs_ok)

lemmas handler_defs =
  RegsArm64_StepIfSignalHandler_def RegsRiscv64_StepIfSignalHandler_def RegsArm_StepIfSignalHandler_def
  RegsX86_StepIfSignalHandler_def RegsX86_64_StepIfSignalHandler_def RegsMips_StepIfSignalHandler_def
  RegsMips64_StepIfSignalHandler_def x86_SetFromUcontext_def x86_64_SetFromUcontext_def fail_unless_def Let_def

section \<open>Reading registers back\<close>

text \<open>The bytes of a sequence of registers in memory.\<close>

definition words_bytes :: "'a::len word list \<Rightarrow> u8 list" where
  "words_bytes ws = concat (map (\<lambda>w. to_le (addr_size TYPE('a)) (unat w)) ws)"

lemma length_words_bytes [simp]:
  fixes ws :: "'a::len word list"
  shows "length (words_bytes ws) = addr_size TYPE('a) * length ws"
  by (induction ws) (simp_all add: words_bytes_def)

lemma le_words_bytes:
  fixes ws :: "'a::len word list"
  assumes "LENGTH('a) \<le> 8 * addr_size TYPE('a)"
  shows "le_words (addr_size TYPE('a)) (length ws) (words_bytes ws @ bs) = ws"
  using assms by (induction ws) (simp_all add: words_bytes_def le_word_to_le)

lemma overlay_regs_words:
  fixes ws rs :: "'a::len word list"
  assumes "LENGTH('a) \<le> 8 * addr_size TYPE('a)" and "length ws = length rs"
  shows "overlay_regs (words_bytes ws) rs = ws"
  using le_words_bytes [OF assms(1), of ws] assms(2)
  by (simp add: overlay_regs_def Let_def)

lemma flat_read_bytes_at: "bytes_at m a bs \<Longrightarrow> flat_read m a (length bs) = bs"
  by (induction bs arbitrary: a) auto

lemma ReadFully_bytes_at: "bytes_at m a bs \<Longrightarrow> n = length bs \<Longrightarrow> ReadFully (flat_read m) a n = Some bs"
  by (simp add: ReadFully_def flat_read_bytes_at)

lemma read_regs_restores:
  fixes rs :: "'a::len word list"
  assumes "LENGTH('a) \<le> 8 * addr_size TYPE('a)" and "bytes_at m a (words_bytes rs)"
    and "length rs = n" and "n = length (mr_regs r)"
  shows "read_regs (flat_read m) a n r = Ok () (r\<lparr>mr_regs := rs\<rparr>)"
proof -
  have "flat_read m a (addr_size TYPE('a) * n) = words_bytes rs"
    using flat_read_bytes_at [OF assms(2)] assms(3) by simp
  then show ?thesis
    using overlay_regs_words [OF assms(1), of rs "mr_regs r"] assms(3,4) by (simp add: read_regs_def)
qed

section \<open>Signal frames of the 64-bit architectures\<close>

text \<open>
  The return trampoline of a signal handler, the distance of the machine context from the stack
  pointer, and the words of the machine context for given register values (\<open>rest\<close>: what follows them).
\<close>

fun sigreturn_code :: "ArchEnum \<Rightarrow> u8 list" where
  "sigreturn_code ARCH_ARM64 = [0x68, 0x11, 0x80, 0xd2, 0x01, 0x00, 0x00, 0xd4]"
| "sigreturn_code ARCH_RISCV64 = [0x93, 0x08, 0xb0, 0x08, 0x73, 0x00, 0x00, 0x00]"
| "sigreturn_code ARCH_X86_64 = [0x48, 0xc7, 0xc0, 0x0f, 0x00, 0x00, 0x00, 0x0f, 0x05]"
| "sigreturn_code _ = []"

fun mcontext_offset :: "ArchEnum \<Rightarrow> u64" where
  "mcontext_offset ARCH_ARM64 = 0x138"
| "mcontext_offset ARCH_RISCV64 = 0x130"
| "mcontext_offset ARCH_X86_64 = 0x28"
| "mcontext_offset _ = 0"

fun mcontext_words :: "ArchEnum \<Rightarrow> u64 list \<Rightarrow> u64 list \<Rightarrow> u64 list" where
  "mcontext_words ARCH_X86_64 rs rest =
     map ((!) rs) [8, 9, 10, 11, 12, 13, 14, 15, 5, 4, 6, 3, 1, 0, 2, 7, 16] @ rest"
| "mcontext_words arch rs rest = rs @ rest"

fun mcontext_rest :: "ArchEnum \<Rightarrow> nat" where
  "mcontext_rest ARCH_X86_64 = 6"
| "mcontext_rest _ = 0"

text \<open>The virtual function, for the three architectures.\<close>

fun StepIfSignalHandler64 :: "ArchEnum \<Rightarrow> reader \<Rightarrow> u64 \<Rightarrow> reader \<Rightarrow> u64 mregs \<Rightarrow> (unit, u64 mregs) outcome" where
  "StepIfSignalHandler64 ARCH_ARM64 = RegsArm64_StepIfSignalHandler"
| "StepIfSignalHandler64 ARCH_RISCV64 = RegsRiscv64_StepIfSignalHandler"
| "StepIfSignalHandler64 ARCH_X86_64 = RegsX86_64_StepIfSignalHandler"
| "StepIfSignalHandler64 _ = (\<lambda>elf off mem r. Fail r)"

lemma addr_size_u64 [simp]: "addr_size TYPE(64) = 8"
  by (simp add: addr_size_def)

lemma list_eq_upt: "length xs = n \<Longrightarrow> map ((!) xs) [0 ..< n] = xs"
  by (metis map_nth)

lemma x86_64_SetFromUcontext_mcontext:
  assumes "length rs = 17" and "length (mr_regs r) = 17"
  shows "x86_64_SetFromUcontext (mcontext_words ARCH_X86_64 rs rest) r = r\<lparr>mr_regs := rs\<rparr>"
proof -
  have "x86_64_SetFromUcontext (mcontext_words ARCH_X86_64 rs rest) r = r\<lparr>mr_regs := map ((!) rs) [0 ..< 17]\<rparr>"
    using assms(2)
    by (auto simp: x86_64_SetFromUcontext_def put_regs_def put_reg_def nth_append upt_rec numeral_eq_Suc
        length_Suc_conv)
  then show ?thesis
    using list_eq_upt [OF assms(1)] by simp
qed

lemma trampoline_reads:
  "bytes_at m a (sigreturn_code ARCH_ARM64) \<Longrightarrow> Read64 (flat_read m) a = Some 0xd4000001d2801168"
  "bytes_at m a (sigreturn_code ARCH_RISCV64) \<Longrightarrow> ReadFully (flat_read m) a 8 = Some (sigreturn_code ARCH_RISCV64)"
  "bytes_at m a (sigreturn_code ARCH_X86_64) \<Longrightarrow>
    Read64 (flat_read m) a = Some 0x0f0000000fc0c748 \<and> ReadFully (flat_read m) (a + 8) 1 = Some [0x05]"
proof -
  assume "bytes_at m a (sigreturn_code ARCH_ARM64)"
  from ReadFully_bytes_at [OF this, of 8] show "Read64 (flat_read m) a = Some 0xd4000001d2801168"
    by (simp add: Read64_def le_word_def)
next
  assume "bytes_at m a (sigreturn_code ARCH_RISCV64)"
  from ReadFully_bytes_at [OF this, of 8] show "ReadFully (flat_read m) a 8 = Some (sigreturn_code ARCH_RISCV64)"
    by simp
next
  assume "bytes_at m a (sigreturn_code ARCH_X86_64)"
  then have "bytes_at m a [0x48, 0xc7, 0xc0, 0x0f, 0x00, 0x00, 0x00, 0x0f]" "bytes_at m (a + 8) [0x05]"
    by (simp_all add: add.commute)
  from ReadFully_bytes_at [OF this(1), of 8] ReadFully_bytes_at [OF this(2), of 1]
  show "Read64 (flat_read m) a = Some 0x0f0000000fc0c748 \<and> ReadFully (flat_read m) (a + 8) 1 = Some [0x05]"
    by (simp add: Read64_def le_word_def)
qed

text \<open>A memory that holds some bytes at an address and nothing else.\<close>

definition bytes_memory :: "u64 \<Rightarrow> u8 list \<Rightarrow> u64 \<Rightarrow> u8 option" where
  "bytes_memory a bs x = list_content bs (x - a)"

lemma bytes_at_bytes_memory: "length bs < 2 ^ 64 \<Longrightarrow> bytes_at (bytes_memory a bs) a bs"
  using bytes_at_list_buffer by (simp add: bytes_at_def bytes_memory_def)

section \<open>Properties\<close>


text \<open>
  C38. Unwinding through a signal handler: with the trampoline at the pc and a machine context on the
  stack that holds some register values, \<^verbatim>\<open>StepIfSignalHandler\<close> succeeds and the registers are those
  values, each in its place, on arm64, riscv64 and x86_64.
\<close>

theorem StepIfSignalHandler_restores:
  assumes arch: "mr_arch r \<in> {ARCH_ARM64, ARCH_RISCV64, ARCH_X86_64}" and ok: "mregs_ok r"
    and code: "bytes_at elf off (sigreturn_code (mr_arch r))"
    and rs: "length rs = total_regs_of (mr_arch r)" and rest: "length rest = mcontext_rest (mr_arch r)"
    and frame: "bytes_at mem (regs_sp r + mcontext_offset (mr_arch r)) (words_bytes (mcontext_words (mr_arch r) rs rest))"
  shows "StepIfSignalHandler64 (mr_arch r) (flat_read elf) off (flat_read mem) r = Ok () (r\<lparr>mr_regs := rs\<rparr>)"
proof -
  have total: "length (mr_regs r) = total_regs_of (mr_arch r)"
    using ok by (simp add: mregs_ok_def)
  from arch consider "mr_arch r = ARCH_ARM64" | "mr_arch r = ARCH_RISCV64" | "mr_arch r = ARCH_X86_64"
    by blast
  then show ?thesis
  proof cases
    case 1
    then show ?thesis
      using trampoline_reads(1) [of elf off] code rs rest frame total
      by (simp add: RegsArm64_StepIfSignalHandler_def fail_unless_def regs_sp_def read_regs_restores add.assoc)
  next
    case 2
    then show ?thesis
      using trampoline_reads(2) [of elf off] code rs rest frame total
      by (simp add: RegsRiscv64_StepIfSignalHandler_def fail_unless_def regs_sp_def read_regs_restores add.assoc)
  next
    case 3
    let ?ws = "mcontext_words ARCH_X86_64 rs rest"
    have ws: "length ?ws = 23"
      using rest 3 by simp
    have "ReadFully (flat_read mem) (mr_regs r ! 7 + 0x28) 184 = Some (words_bytes ?ws)"
      using ReadFully_bytes_at [OF frame, of 184] ws 3 by (simp add: regs_sp_def del: mcontext_words.simps)
    moreover have "le_words 8 23 (words_bytes ?ws) = ?ws"
      using le_words_bytes [of ?ws "[]"] ws by (simp del: mcontext_words.simps)
    ultimately show ?thesis
      using 3 code trampoline_reads(3) [of elf off] x86_64_SetFromUcontext_mcontext [of rs r rest] rs total
      by (simp add: RegsX86_64_StepIfSignalHandler_def del: mcontext_words.simps)
  qed
qed

text \<open>Registers of an architecture, all zero.\<close>

definition zero_regs :: "ArchEnum \<Rightarrow> 'a::len word mregs" where
  "zero_regs arch = \<lparr>mr_arch = arch, mr_regs = replicate (total_regs_of arch) 0, mr_dex_pc = 0,
     mr_ra_sign_state = 0, mr_pac_mask = 0, clear_pac_bits = (\<lambda>a. a)\<rparr>"

lemma zero_regs_ok:
  "mregs_ok (zero_regs ARCH_ARM64 :: u64 mregs)" "mregs_ok (zero_regs ARCH_X86_64 :: u64 mregs)"
  "mregs_ok (zero_regs ARCH_X86 :: u32 mregs)"
  by (simp_all add: zero_regs_def mregs_ok_def)


lemma StepIfSignalHandler_restores_witness:
  "StepIfSignalHandler64 ARCH_X86_64 (flat_read (bytes_memory 0x100 (sigreturn_code ARCH_X86_64))) 0x100
     (flat_read (bytes_memory 0x28 (words_bytes (mcontext_words ARCH_X86_64 (map of_nat [1 ..< 18]) (replicate 6 0)))))
     (zero_regs ARCH_X86_64) = Ok () ((zero_regs ARCH_X86_64)\<lparr>mr_regs := (map of_nat [1 ..< 18])\<rparr>)"
proof -
  let ?words = "mcontext_words ARCH_X86_64 (map of_nat [1 ..< 18]) (replicate 6 0)"
  have regs: "mr_arch (zero_regs ARCH_X86_64 :: u64 mregs) = ARCH_X86_64" "regs_sp (zero_regs ARCH_X86_64 :: u64 mregs) = 0"
    by (simp_all add: zero_regs_def regs_sp_def)
  have "bytes_at (bytes_memory 0x28 (words_bytes ?words)) 0x28 (words_bytes ?words)"
    "bytes_at (bytes_memory 0x100 (sigreturn_code ARCH_X86_64)) 0x100 (sigreturn_code ARCH_X86_64)"
    by (intro bytes_at_bytes_memory; simp)+
  then show ?thesis
    using StepIfSignalHandler_restores [of "zero_regs ARCH_X86_64" _ _ "map of_nat [1 ..< 18]" "replicate 6 0", unfolded regs]
    by (simp add: zero_regs_ok del: mcontext_words.simps sigreturn_code.simps upt_rec_numeral StepIfSignalHandler64.simps)
qed

text \<open>
  On x86 the frame of a handler installed without \<^verbatim>\<open>SA_SIGINFO\<close> is restored only in part: EDI and ESI
  keep the values they have in the handler, whatever the frame holds; the path for \<^verbatim>\<open>SA_SIGINFO\<close> sets
  all nine.
\<close>

theorem RegsX86_restore_keeps_edi_esi:
  assumes "Read64 elf off = Some 0x80cd00000077b858"
    and "RegsX86_StepIfSignalHandler elf off mem r = Ok () t" and "length (mr_regs r) = 16"
  shows "mr_regs t ! 7 = mr_regs r ! 7 \<and> mr_regs t ! 6 = mr_regs r ! 6
    \<and> (\<forall>ctx. mr_regs (x86_SetFromUcontext ctx r) ! 7 = ctx ! 4 \<and> mr_regs (x86_SetFromUcontext ctx r) ! 6 = ctx ! 5)"
  using assms
  by (auto simp: RegsX86_StepIfSignalHandler_def x86_SetFromUcontext_def put_regs_def put_reg_def Let_def
      split: option.splits)

text \<open>A stack with a signal number and a machine context whose words are 1 to 19.\<close>

definition sigcontext_memory :: "u64 \<Rightarrow> u8 option" where
  "sigcontext_memory = bytes_memory 4 (words_bytes (map of_nat [1 ..< 20] :: u32 list))"

lemma RegsX86_restore_keeps_edi_esi_witness:
  "\<exists>t. RegsX86_StepIfSignalHandler (flat_read (bytes_memory 0 (to_le 8 0x80cd00000077b858))) 0
      (flat_read sigcontext_memory) (zero_regs ARCH_X86) = Ok () t \<and> mr_regs t ! 7 = 0 \<and> mr_regs t ! 8 = 15"
proof -
  have code: "Read64 (flat_read (bytes_memory 0 (to_le 8 0x80cd00000077b858))) 0 = Some 0x80cd00000077b858"
    using ReadFully_bytes_at [OF bytes_at_bytes_memory, of "to_le 8 0x80cd00000077b858" 8 0]
    by (simp add: Read64_def le_word_def le_nat_to_le)
  have "ReadFully (flat_read sigcontext_memory) 4 76 = Some (words_bytes (map of_nat [1 ..< 20] :: u32 list))"
    unfolding sigcontext_memory_def by (rule ReadFully_bytes_at [OF bytes_at_bytes_memory]) (simp_all add: addr_size_def)
  moreover have "le_words 4 19 (words_bytes (map of_nat [1 ..< 20] :: u32 list)) = (map of_nat [1 ..< 20] :: u32 list)"
    using le_words_bytes [of "map of_nat [1 ..< 20] :: u32 list" "[]"] by (simp add: addr_size_def del: upt_rec_numeral)
  ultimately obtain t where t: "RegsX86_StepIfSignalHandler (flat_read (bytes_memory 0 (to_le 8 0x80cd00000077b858))) 0
      (flat_read sigcontext_memory) (zero_regs ARCH_X86) = Ok () t" and "mr_regs t ! 8 = 15"
    using code by (simp add: RegsX86_StepIfSignalHandler_def zero_regs_def put_regs_def put_reg_def Let_def
        del: upt_rec_numeral)
  moreover have "mr_regs t ! 7 = 0"
    using RegsX86_restore_keeps_edi_esi [OF code t] by (simp add: zero_regs_def)
  ultimately show ?thesis by blast
qed

text \<open>
  The adjustment that takes a return address back into its call instruction is at most 8 and never more than
  the relative pc, so the subtraction does not wrap; the only exception is ARM code with an invalid
  ELF file and a relative pc below 2.
\<close>

theorem GetPcAdjustment_bounds:
  "GetPcAdjustment rel_pc elf arch \<le> 8 \<and>
   (GetPcAdjustment rel_pc elf arch \<le> rel_pc \<longleftrightarrow> \<not> (arch = ARCH_ARM \<and> elf = None \<and> rel_pc < 2))"
proof (cases "arch = ARCH_ARM \<and> elf \<noteq> None")
  case False
  then show ?thesis
    by (cases arch; cases elf)
      (auto simp: GetPcAdjustment_def not_less not_le word_less_nat_alt word_le_nat_alt Suc_le_eq unat_gt_0)
next
  case True
  then obtain bias mem where elf: "elf = Some (bias, mem)" and arch: "arch = ARCH_ARM" by auto
  have "rel_pc - bias \<le> rel_pc" if "\<not> rel_pc < bias"
    using that by (simp add: not_less word_sub_le)
  then show ?thesis
    unfolding GetPcAdjustment_def elf arch
    by (auto simp: Let_def not_less word_le_nat_alt word_less_nat_alt split: option.split)
qed

end
