(* ===== verification/Binary_Search.thy ===== *)
theory Binary_Search
  imports Unwind_Prelude
begin

text \<open>
  The binary search that \<^verbatim>\<open>DwarfEhFrameWithHdr::GetFdeOffsetFromPc\<close>, \<^verbatim>\<open>ElfInterfaceArm::FindEntry\<close>,
  \<^verbatim>\<open>Maps::Find\<close> and \<^verbatim>\<open>Symbols::BinarySearch\<close> share, and the contract of the tables they search. The index type
  and the way the middle is computed are parameters; looking at an entry can fail and can change a cache.
\<close>

text \<open>Where the address searched for lies with respect to an entry.\<close>

datatype side = Here | Below | Above

text \<open>\<open>Found i\<close>: the loop returned at entry \<open>i\<close>; \<open>Bound j\<close>: it ended with \<^verbatim>\<open>last = j\<close>.\<close>

datatype 'i position = Found 'i | Bound 'i

partial_function (option) search_loop ::
  "('i::len word \<Rightarrow> 'i word \<Rightarrow> 'i word) \<Rightarrow> ('i word \<Rightarrow> 's \<Rightarrow> (side, 's) outcome) \<Rightarrow> 'i word \<Rightarrow> 'i word \<Rightarrow> 's \<Rightarrow>
    ('i word position, 's) outcome option" where
  "search_loop mid probe first lim s =
     (if first < lim then
        let current = mid first lim
        in case probe current s of
             Ok Here t \<Rightarrow> Some (Ok (Found current) t)
           | Ok Below t \<Rightarrow> search_loop mid probe first current t
           | Ok Above t \<Rightarrow> search_loop mid probe (current + 1) lim t
           | Fail t \<Rightarrow> Some (Fail t)
           | Abort \<Rightarrow> Some Abort
           | Undef k \<Rightarrow> Some (Undef k)
      else Some (Ok (Bound lim) s))"

declare search_loop.simps [code]

lemma search_loop_step:
  "first < lim \<Longrightarrow> search_loop mid probe first lim s =
    (case probe (mid first lim) s of
       Ok Here t \<Rightarrow> Some (Ok (Found (mid first lim)) t)
     | Ok Below t \<Rightarrow> search_loop mid probe first (mid first lim) t
     | Ok Above t \<Rightarrow> search_loop mid probe (mid first lim + 1) lim t
     | Fail t \<Rightarrow> Some (Fail t)
     | Abort \<Rightarrow> Some Abort
     | Undef k \<Rightarrow> Some (Undef k))"
  by (subst search_loop.simps) (simp add: Let_def)

definition side_of :: "'k::linorder \<Rightarrow> 'k \<Rightarrow> side" where
  "side_of target key = (if target = key then Here else if target < key then Below else Above)"

lemma side_of_Below [simp]:
  "side_of target key = Below \<longleftrightarrow> target < key"
  "Below = side_of target key \<longleftrightarrow> target < key"
  by (auto simp: side_of_def)

lemma side_of_Above [simp]:
  "side_of target key = Above \<longleftrightarrow> key < target"
  "Above = side_of target key \<longleftrightarrow> key < target"
  by (auto simp: side_of_def)

lemma side_of_Here [simp]:
  "side_of target key = Here \<longleftrightarrow> target = key"
  "Here = side_of target key \<longleftrightarrow> target = key"
  by (auto simp: side_of_def)

text \<open>
  \<^verbatim>\<open>(first + last) / 2\<close> is in the range if its ends are below \<open>2 ^ 63\<close>; \<^verbatim>\<open>first + (last - first) / 2\<close> always is.
\<close>

definition half_sum :: "u64 \<Rightarrow> u64 \<Rightarrow> u64" where
  "half_sum first lim = (first + lim) div 2"

definition half_way :: "u32 \<Rightarrow> u32 \<Rightarrow> u32" where
  "half_way first lim = first + (lim - first) div 2"

abbreviation max_half :: u64 where
  "max_half \<equiv> 0x7fffffffffffffff"

lemma half_sum_between:
  assumes "first < lim" and "lim \<le> max_half"
  shows "first \<le> half_sum first lim \<and> half_sum first lim < lim"
proof -
  have less: "unat first < unat lim" "unat lim \<le> unat max_half"
    using assms by (simp_all only: word_less_nat_alt word_le_nat_alt)
  then have "unat (first + lim) = unat first + unat lim"
    by (simp add: unat_word_ariths)
  then have mid: "unat (half_sum first lim) = (unat first + unat lim) div 2"
    by (simp add: unat_div half_sum_def)
  show ?thesis
    using less(1) unfolding word_le_nat_alt word_less_nat_alt mid by auto
qed

lemma half_way_between:
  assumes "first < lim"
  shows "first \<le> half_way first lim \<and> half_way first lim < lim"
proof -
  have less: "unat first < unat lim" "unat lim < 2 ^ 32"
    using assms unat_bound [of lim] by (simp_all add: word_less_nat_alt)
  have "unat ((lim - first) div 2) = (unat lim - unat first) div 2"
    using assms by (simp add: unat_div unat_sub)
  then have mid: "unat (half_way first lim) = unat first + (unat lim - unat first) div 2"
    using less by (simp add: half_way_def unat_word_ariths)
  show ?thesis
    using less(1) unfolding word_le_nat_alt word_less_nat_alt mid by auto
qed

text \<open>An operation that returns.\<close>

fun defined :: "('v, 's) outcome \<Rightarrow> bool" where
  "defined (Ok v s) \<longleftrightarrow> True"
| "defined (Fail s) \<longleftrightarrow> True"
| "defined _ \<longleftrightarrow> False"

lemma search_defined:
  assumes "\<And>i t. defined (probe i t)" and "search_loop mid probe first lim s = Some r"
  shows "defined r"
proof -
  let ?P = "\<lambda>mid probe first lim s r. (\<forall>i t. defined (probe i t)) \<longrightarrow> defined r"
  have "?P mid probe first lim s r"
  proof (rule search_loop.raw_induct [where P = ?P, OF _ assms(2)])
    fix loop mid probe first lim s r
    assume IH: "\<And>mid probe first lim s r. loop mid probe first lim s = Some r \<Longrightarrow> ?P mid probe first lim s r"
      and run: "(if first < lim then
        let current = mid first lim
        in case probe current s of
             Ok Here t \<Rightarrow> Some (Ok (Found current) t)
           | Ok Below t \<Rightarrow> loop mid probe first current t
           | Ok Above t \<Rightarrow> loop mid probe (current + 1) lim t
           | Fail t \<Rightarrow> Some (Fail t)
           | Abort \<Rightarrow> Some Abort
           | Undef k \<Rightarrow> Some (Undef k)
      else Some (Ok (Bound lim) s)) = Some r"
    show "?P mid probe first lim s r"
    proof
      assume probe: "\<forall>i t. defined (probe i t)"
      show "defined r"
        using run IH probe probe [rule_format, of "mid first lim" s]
        by (cases "probe (mid first lim) s") (auto simp: Let_def split: if_splits side.splits)
    qed
  qed
  with assms(1) show ?thesis by blast
qed

text \<open>A readable table whose entries are in the order of the addresses, and what the search finds in it.\<close>

definition ordered_table :: "('i::len word \<Rightarrow> side option) \<Rightarrow> 'i word \<Rightarrow> bool" where
  "ordered_table entry count \<longleftrightarrow> (\<forall>i < count. entry i \<noteq> None) \<and>
     (\<forall>j < count. \<forall>i < j. entry i = Some Below \<longrightarrow> entry j = Some Below) \<and>
     (\<forall>j < count. \<forall>i < j. entry j = Some Above \<longrightarrow> entry i = Some Above)"

lemma ordered_tableI:
  assumes entry: "\<And>i. i < count \<Longrightarrow> entry i = Some (f i)"
    and below: "\<And>i j. i < j \<Longrightarrow> j < count \<Longrightarrow> f i = Below \<Longrightarrow> f j = Below"
    and above: "\<And>i j. i < j \<Longrightarrow> j < count \<Longrightarrow> f j = Above \<Longrightarrow> f i = Above"
  shows "ordered_table entry count"
  unfolding ordered_table_def
proof (intro conjI allI impI)
  fix i j
  assume ij: "j < count" "i < j"
  note eq = entry [OF ij(1)] entry [OF order_less_trans [OF ij(2,1)]]
  show "entry i = Some Below \<Longrightarrow> entry j = Some Below" "entry j = Some Above \<Longrightarrow> entry i = Some Above"
    unfolding eq using below [OF ij(2,1)] above [OF ij(2,1)] by simp_all
qed (simp add: entry)

fun at_position :: "('i::len word \<Rightarrow> side option) \<Rightarrow> 'i word \<Rightarrow> 'i word position \<Rightarrow> bool" where
  "at_position entry count (Found i) \<longleftrightarrow> i < count \<and> entry i = Some Here"
| "at_position entry count (Bound j) \<longleftrightarrow> j \<le> count \<and> (\<forall>i < j. entry i = Some Above) \<and>
     (\<forall>i < count. j \<le> i \<longrightarrow> entry i = Some Below)"

text \<open>Tables whose entries have a key each, in ascending order.\<close>

definition keyed_table :: "('i::len word \<Rightarrow> 'k::linorder) \<Rightarrow> 'k \<Rightarrow> 'i word \<Rightarrow> ('i word \<Rightarrow> side option) \<Rightarrow> bool" where
  "keyed_table key target count entry \<longleftrightarrow>
     (\<forall>i < count. entry i = Some (side_of target (key i))) \<and> (\<forall>j < count. \<forall>i < j. key i \<le> key j)"

text \<open>The last entry whose key is not above the target.\<close>

definition last_upto :: "('i::len word \<Rightarrow> 'k::linorder) \<Rightarrow> 'i word \<Rightarrow> 'k \<Rightarrow> 'i word \<Rightarrow> bool" where
  "last_upto key count target i \<longleftrightarrow> i < count \<and> key i \<le> target \<and>
     (\<forall>j < count. key j \<le> target \<longrightarrow> key j \<le> key i)"

lemma keyed_table_ordered:
  assumes "keyed_table key target count entry"
  shows "ordered_table entry count"
proof (rule ordered_tableI [where f = "\<lambda>i. side_of target (key i)"])
  fix i j
  assume "i < j" "j < count"
  then have le: "key i \<le> key j" using assms by (simp add: keyed_table_def)
  show "side_of target (key i) = Below \<Longrightarrow> side_of target (key j) = Below"
    "side_of target (key j) = Above \<Longrightarrow> side_of target (key i) = Above"
    using le by auto
qed (use assms in \<open>simp add: keyed_table_def\<close>)

lemma position_Found:
  "keyed_table key target count entry \<Longrightarrow> at_position entry count (Found i) \<Longrightarrow>
    i < count \<and> last_upto key count target i"
  by (auto simp: keyed_table_def last_upto_def)

lemma position_Bound:
  assumes keyed: "keyed_table key target count entry" and pos: "at_position entry count (Bound j)"
  shows "if j = 0 then \<forall>i < count. target < key i else j - 1 < count \<and> last_upto key count target (j - 1)"
proof -
  have side: "entry i = Some (side_of target (key i))" if "i < count" for i
    using keyed that by (simp add: keyed_table_def)
  have j: "j \<le> count" using pos by simp
  have above: "key i < target" if "i < j" for i
    using pos side [of i] that order_less_le_trans [OF that j] by simp
  have below: "target < key i" if "i < count" "j \<le> i" for i
    using pos side [of i] that by simp
  have "last_upto key count target (j - 1)" if "j \<noteq> 0"
  proof -
    have u: "unat (j - 1) = unat j - 1" "0 < unat j"
      using that by (simp add: unat_minus_one) (metis that unat_eq_zero gr0I)
    have prev: "j - 1 < j" "i < j \<Longrightarrow> i = j - 1 \<or> i < j - 1" for i
      using u by (auto simp: word_less_nat_alt word_unat_eq_iff)
    have le_prev: "key i \<le> key (j - 1)" if "i < j - 1" for i
      using keyed that order_less_le_trans [OF prev(1) j] by (simp add: keyed_table_def)
    have "key i \<le> key (j - 1)" if "i < count" "key i \<le> target" for i
    proof -
      have "i < j" using below [OF that(1)] that(2) by (meson leD leI)
      then show ?thesis
        using prev(2) [of i] le_prev [of i] by auto
    qed
    then show ?thesis
      using above [OF prev(1)] order_less_le_trans [OF prev(1) j] by (simp add: last_upto_def)
  qed
  then show ?thesis
    using below by (auto simp: last_upto_def)
qed

text \<open>
  A table of at most \<open>max_count\<close> entries: \<open>entry i\<close> is where the address searched for lies with respect to entry \<open>i\<close>, \<open>None\<close> if the entry cannot be
  read. Looking at an entry in a state that satisfies the invariant gives that side, or does not
  return true.
\<close>

locale probed_table =
  fixes mid :: "'i::len word \<Rightarrow> 'i word \<Rightarrow> 'i word"
    and max_count :: "'i word"
    and probe :: "'i word \<Rightarrow> 's \<Rightarrow> (side, 's) outcome"
    and inv :: "'s \<Rightarrow> bool"
    and entry :: "'i word \<Rightarrow> side option"
  assumes mid_between: "first < lim \<Longrightarrow> lim \<le> max_count \<Longrightarrow> first \<le> mid first lim \<and> mid first lim < lim"
    and probe_some: "inv s \<Longrightarrow> i < max_count \<Longrightarrow> entry i = Some d \<Longrightarrow> \<exists>t. probe i s = Ok d t \<and> inv t"
    and probe_none: "inv s \<Longrightarrow> i < max_count \<Longrightarrow> entry i = None \<Longrightarrow> out_states inv (probe i s) \<and> (\<forall>d t. probe i s \<noteq> Ok d t)"
begin

lemma probe_states: "inv s \<Longrightarrow> i < max_count \<Longrightarrow> out_states inv (probe i s)"
  by (cases "entry i") (use probe_some probe_none in fastforce)+

lemma mid_unat:
  assumes "first < lim" and "lim \<le> max_count"
  shows "unat first < unat lim" "unat (mid first lim) < unat lim" "unat first \<le> unat (mid first lim)"
    "unat (mid first lim + 1) = unat (mid first lim) + 1"
proof -
  note between = mid_between [OF assms]
  then show lt: "unat first < unat lim" "unat (mid first lim) < unat lim" "unat first \<le> unat (mid first lim)"
    using assms(1) by (simp_all add: word_less_nat_alt word_le_nat_alt)
  have "unat (mid first lim) + 1 < 2 ^ LENGTH('i)"
    using lt(2) unat_bound [of lim] by linarith
  then show "unat (mid first lim + 1) = unat (mid first lim) + 1"
    by (simp add: unat_word_ariths)
qed

text \<open>The loop ends, whatever the entries are.\<close>

lemma search_returns:
  "inv s \<Longrightarrow> lim \<le> max_count \<Longrightarrow> \<exists>r. search_loop mid probe first lim s = Some r \<and> out_states inv r"
proof (induction "unat lim - unat first" arbitrary: first lim s rule: less_induct)
  case less
  show ?case
  proof (cases "first < lim")
    case False
    then show ?thesis
      using less.prems by (subst search_loop.simps) simp
  next
    case True
    let ?mid = "mid first lim"
    note lt = mid_unat [OF True less.prems(2)]
    have lm: "?mid < max_count"
      using mid_between [OF True less.prems(2)] less.prems(2) by (meson order_less_le_trans)
    then have le: "?mid \<le> max_count" by (rule less_imp_le)
    note states = probe_states [OF less.prems(1) lm]
    show ?thesis
    proof (cases "probe ?mid s")
      case (Ok d t)
      then have t: "inv t" using states by simp
      note below = less.hyps [of ?mid first t] and above = less.hyps [of lim "?mid + 1" t]
      show ?thesis
        using below above t Ok True lt le less.prems(2)
        by (subst search_loop.simps) (cases d; simp)
    qed (use states True in \<open>subst search_loop.simps, simp\<close>)+
  qed
qed

text \<open>The loop returns at an entry only after looking at it, and it looks only at entries below its bound.\<close>

lemma search_found:
  assumes "search_loop mid probe first lim s = Some (Ok (Found i) t)" and "inv s" and "lim \<le> max_count"
  shows "\<exists>u. inv u \<and> probe i u = Ok Here t \<and> i < lim"
  using assms
proof (induction "unat lim - unat first" arbitrary: first lim s rule: less_induct)
  case less
  show ?case
  proof (cases "first < lim")
    case False
    then show ?thesis
      using less.prems(1) by (subst (asm) search_loop.simps) simp
  next
    case True
    let ?mid = "mid first lim"
    note lt = mid_unat [OF True less.prems(3)] and between = mid_between [OF True less.prems(3)]
    have lm: "?mid < max_count"
      using between less.prems(3) by (meson order_less_le_trans)
    then have le: "?mid \<le> max_count" by (rule less_imp_le)
    note run = less.prems(1) [unfolded search_loop_step [OF True]]
    obtain d u where u: "probe ?mid s = Ok d u"
      using run True by (cases "probe ?mid s") auto
    then have "inv u" using probe_states [OF less.prems(2) lm] by simp
    show ?thesis
    proof (cases d)
      case Here
      with run u True less.prems(2) between show ?thesis by auto
    next
      case Below
      then have "search_loop mid probe first ?mid u = Some (Ok (Found i) t)"
        using run u True by simp
      from less.hyps [OF _ this \<open>inv u\<close> le] show ?thesis
        using lt between by (meson diff_less_mono order_less_trans)
    next
      case Above
      then have "search_loop mid probe (?mid + 1) lim u = Some (Ok (Found i) t)"
        using run u True by simp
      from less.hyps [OF _ this \<open>inv u\<close> less.prems(3)] show ?thesis
        using lt by simp
    qed
  qed
qed

text \<open>
  In an ordered table the loop stops at an entry that is \<open>Here\<close> or, if there is none, at the boundary
  between the entries below and above.
\<close>

lemma search_position_range:
  assumes "inv s" and "count \<le> max_count" and ordered: "ordered_table entry count" and "first \<le> lim" and "lim \<le> count"
    and "\<forall>i < first. entry i = Some Above" and "\<forall>i < count. lim \<le> i \<longrightarrow> entry i = Some Below"
  shows "\<exists>p t. search_loop mid probe first lim s = Some (Ok p t) \<and> inv t \<and> at_position entry count p"
  using assms(1,2,4-)
proof (induction "unat lim - unat first" arbitrary: first lim s rule: less_induct)
  case less
  show ?case
  proof (cases "first < lim")
    case False
    then have "first = lim" using less.prems(3) by simp
    with less.prems show ?thesis
      by (subst search_loop.simps) auto
  next
    case True
    let ?mid = "mid first lim"
    have "lim \<le> max_count" using less.prems(2,4) by (rule order_trans [rotated])
    note mid = mid_between [OF True this] and lt = mid_unat [OF True this]
    have mid_count: "?mid < count" using mid less.prems(4) by (meson order_less_le_trans)
    then obtain d where d: "entry ?mid = Some d"
      using ordered by (auto simp: ordered_table_def)
    obtain t where t: "probe ?mid s = Ok d t" "inv t"
      using probe_some [OF less.prems(1) _ d] mid \<open>lim \<le> max_count\<close> by (meson order_less_le_trans)
    show ?thesis
    proof (cases d)
      case Here
      with t d mid_count True show ?thesis
        by (subst search_loop.simps) simp
    next
      case Below
      have "\<forall>i < count. ?mid \<le> i \<longrightarrow> entry i = Some Below"
        using ordered d Below by (auto simp: ordered_table_def order_le_less)
      then have "\<exists>p u. search_loop mid probe first ?mid t = Some (Ok p u) \<and> inv u \<and> at_position entry count p"
        using less.prems lt mid t(2) mid_count by (intro less.hyps) auto
      with t(1) Below True show ?thesis
        by (subst search_loop.simps) simp
    next
      case Above
      have step: "?mid + 1 \<le> lim" "i < ?mid + 1 \<Longrightarrow> i \<le> ?mid" for i
        using lt by (simp_all add: word_le_nat_alt word_less_nat_alt)
      have "entry i = Some Above" if "i \<le> ?mid" for i
        using ordered d Above mid_count that unfolding ordered_table_def order_le_less [of i] by blast
      then have "\<forall>i < ?mid + 1. entry i = Some Above"
        using step(2) by blast
      then have "\<exists>p u. search_loop mid probe (?mid + 1) lim t = Some (Ok p u) \<and> inv u \<and> at_position entry count p"
        using less.prems lt t(2) step(1) by (intro less.hyps) auto
      with t(1) Above True show ?thesis
        by (subst search_loop.simps) simp
    qed
  qed
qed

lemma search_position:
  "inv s \<Longrightarrow> count \<le> max_count \<Longrightarrow> ordered_table entry count \<Longrightarrow>
    \<exists>p t. search_loop mid probe 0 count s = Some (Ok p t) \<and> inv t \<and> at_position entry count p"
  by (rule search_position_range) auto

end

end
