(* ===== verification/Eh_Frame_Hdr.thy ===== *)
theory Eh_Frame_Hdr
  imports Section_Lookup Binary_Search
begin

text \<open>
  \<^verbatim>\<open>libunwindstack/DwarfEhFrameWithHdr.cpp\<close>: an \<^verbatim>\<open>.eh_frame\<close> section with the binary search table of \<^verbatim>\<open>.eh_frame_hdr\<close>.
\<close>

section \<open>State\<close>

record HdrFdeInfo =
  info_pc :: u64
  info_offset :: u64

text \<open>What \<^verbatim>\<open>Init\<close> reads; \<open>hdr_sec\<close> is set by \<^verbatim>\<open>EhFrameInit\<close>.\<close>

record hdr_env =
  hdr_sec :: section_env
  table_encoding :: u8
  table_entry_size :: nat
  hdr_entries_offset :: u64
  hdr_entries_data_offset :: u64
  hdr_section_bias :: u64
  fde_count :: u64

record hdr_section =
  hs_section :: dwarf_section
  fde_info :: "u64 \<rightharpoonup> HdrFdeInfo"

definition IsEncodingRelative :: "u8 \<Rightarrow> bool" where
  "IsEncodingRelative encoding \<longleftrightarrow> (let e = drop_bit 4 encoding in 0 < e \<and> e \<le> 0x40)"

text \<open>A value stored in an \<^verbatim>\<open>AddressType\<close>.\<close>

definition to_address :: "section_env \<Rightarrow> u64 \<Rightarrow> u64" where
  "to_address env v = take_bit (8 * sec_asz env) v"

definition on_hs :: "(dwarf_section \<Rightarrow> ('v, dwarf_section) outcome) \<Rightarrow> hdr_section \<Rightarrow> ('v, hdr_section) outcome" where
  "on_hs f hs = map_state (\<lambda>s. hs\<lparr>hs_section := s\<rparr>) (\<lambda>s. hs\<lparr>hs_section := s\<rparr>) (f (hs_section hs))"

section \<open>Reading the header\<close>

definition hdr_Init :: "u64 \<Rightarrow> u64 \<Rightarrow> section_env \<Rightarrow> section_cursor \<Rightarrow> (hdr_env, section_cursor) outcome" where
  "hdr_Init offset bias env c =
     (let m = (sec_memory c)\<lparr>func_offset := - 1, text_offset := - 1, data_offset := offset, cur_offset := offset\<rparr>;
          c = c\<lparr>sec_memory := m\<rparr>
      in bind_out (sec_bytes env 4 c) (\<lambda>bs c.
           if bs ! 0 \<noteq> 1 then sec_fail DWARF_ERROR_UNSUPPORTED_VERSION c
           else
             let entry_size = GetEncodedSize (sec_asz env) (bs ! 3)
             in if entry_size = 0 then sec_fail DWARF_ERROR_ILLEGAL_VALUE c
                else bind_out (sec_encoded env (bs ! 1) (set_sec_pc_offset (sec_offset c) c)) (\<lambda>ptr_offset c.
                  bind_out (sec_encoded env (bs ! 2) (set_sec_pc_offset (sec_offset c) c)) (\<lambda>n c.
                    if n = 0 then sec_fail DWARF_ERROR_NO_FDES c
                    else Ok \<lparr>hdr_sec = env, table_encoding = bs ! 3, table_entry_size = entry_size,
                           hdr_entries_offset = sec_offset c, hdr_entries_data_offset = offset,
                           hdr_section_bias = bias, fde_count = n\<rparr> c))))"

definition EhFrameInit :: "u64 \<Rightarrow> u64 \<Rightarrow> u64 \<Rightarrow> hdr_env \<Rightarrow> dwarf_section \<Rightarrow> hdr_env \<times> dwarf_section" where
  "EhFrameInit offset sz bias env s =
     (let (sec, s) = section_Init offset sz bias (hdr_sec env) s in (env\<lparr>hdr_sec := sec\<rparr>, s))"

section \<open>The table\<close>

definition at_table :: "hdr_env \<Rightarrow> u64 \<Rightarrow> section_cursor \<Rightarrow> section_cursor" where
  "at_table env index c =
     set_sec_pc_offset 0 (set_sec_offset (hdr_entries_offset env + 2 * index * of_nat (table_entry_size env))
       (set_sec_data_offset (hdr_entries_data_offset env) c))"

definition read_fde_info :: "hdr_env \<Rightarrow> u64 \<Rightarrow> section_cursor \<Rightarrow> (HdrFdeInfo, section_cursor) outcome" where
  "read_fde_info env index c =
     bind_out (sec_encoded (hdr_sec env) (table_encoding env) (at_table env index c)) (\<lambda>v c.
       bind_out (sec_encoded (hdr_sec env) (table_encoding env) c) (\<lambda>off c.
         Ok \<lparr>info_pc = to_address (hdr_sec env)
               (if IsEncodingRelative (table_encoding env) then v + hdr_section_bias env else v),
             info_offset = off\<rparr> c))"

definition GetFdeInfoFromIndex :: "hdr_env \<Rightarrow> u64 \<Rightarrow> hdr_section \<Rightarrow> (HdrFdeInfo, hdr_section) outcome" where
  "GetFdeInfoFromIndex env index hs =
     (case fde_info hs index of
        Some info \<Rightarrow> Ok info hs
      | None \<Rightarrow> bind_out (on_hs (at_cursor (read_fde_info env index)) hs) (\<lambda>info hs.
          Ok info (hs\<lparr>fde_info := (fde_info hs)(index \<mapsto> info)\<rparr>)))"

definition hdr_probe :: "hdr_env \<Rightarrow> u64 \<Rightarrow> u64 \<Rightarrow> hdr_section \<Rightarrow> (side, hdr_section) outcome" where
  "hdr_probe env pc index hs =
     bind_out (GetFdeInfoFromIndex env index hs) (\<lambda>info hs. Ok (side_of pc (info_pc info)) hs)"

text \<open>\<open>None\<close>: the search does not return.\<close>

definition GetFdeOffsetFromPc :: "hdr_env \<Rightarrow> u64 \<Rightarrow> hdr_section \<Rightarrow> (u64, hdr_section) outcome option" where
  "GetFdeOffsetFromPc env pc hs =
     (if fde_count env = 0 then Some (Fail hs)
      else map_option (\<lambda>r. bind_out r (\<lambda>p hs.
             case p of
               Found i \<Rightarrow> bind_out (GetFdeInfoFromIndex env i hs) (\<lambda>info hs. Ok (info_offset info) hs)
             | Bound j \<Rightarrow>
                 if j \<noteq> 0 then bind_out (GetFdeInfoFromIndex env (j - 1) hs) (\<lambda>info hs. Ok (info_offset info) hs)
                 else Fail hs))
           (search_loop half_sum (hdr_probe env pc) 0 (fde_count env) hs))"

definition hdr_GetFdeFromPc :: "hdr_env \<Rightarrow> u64 \<Rightarrow> hdr_section \<Rightarrow> (DwarfFde, hdr_section) outcome option" where
  "hdr_GetFdeFromPc env pc hs =
     map_option (\<lambda>r. bind_out r (\<lambda>fde_offset hs.
       bind_out (on_hs (GetFdeFromOffset (hdr_sec env) fde_offset) hs) (\<lambda>fde hs.
         bind_out (if fde_pc_start fde = fde_pc_end fde then on_hs (GetFdeFromPc (hdr_sec env) pc) hs else Ok fde hs)
           (\<lambda>fde hs.
             if pc < fde_pc_end fde then Ok fde hs
             else on_hs (at_cursor (sec_fail DWARF_ERROR_ILLEGAL_STATE)) hs))))
       (GetFdeOffsetFromPc env pc hs)"

text \<open>\<^verbatim>\<open>GetFdes\<close>, with the number of entries still to visit.\<close>

fun hdr_collect :: "hdr_env \<Rightarrow> nat \<Rightarrow> u64 \<Rightarrow> hdr_section \<Rightarrow> (DwarfFde list, hdr_section) outcome" where
  "hdr_collect env 0 i hs = Ok [] hs"
| "hdr_collect env (Suc n) i hs =
     (case bind_out (GetFdeInfoFromIndex env i hs) (\<lambda>info hs. on_hs (GetFdeFromOffset (hdr_sec env) (info_offset info)) hs) of
        Ok fde hs \<Rightarrow>
          (case (if fde_pc_start fde = fde_pc_end fde then on_hs (GetFdeFromPc (hdr_sec env) (fde_pc_start fde)) hs else Fail hs) of
             Ok fde' hs \<Rightarrow> bind_out (hdr_collect env n (i + 1) hs) (\<lambda>fdes hs. Ok (fde' # fdes) hs)
           | Fail hs \<Rightarrow> bind_out (hdr_collect env n (i + 1) hs) (\<lambda>fdes hs. Ok (fde # fdes) hs)
           | Abort \<Rightarrow> Abort
           | Undef k \<Rightarrow> Undef k)
      | Fail hs \<Rightarrow> Ok [] hs
      | Abort \<Rightarrow> Abort
      | Undef k \<Rightarrow> Undef k)"

definition hdr_GetFdes :: "hdr_env \<Rightarrow> hdr_section \<Rightarrow> (DwarfFde list, hdr_section) outcome" where
  "hdr_GetFdes env hs = hdr_collect env (unat (fde_count env)) 0 hs"

end
