(* ===== verification/Dwarf_Eval.thy ===== *)
theory Dwarf_Eval
  imports Machine_Regs Eh_Frame_Hdr
begin

text \<open>
  \<^verbatim>\<open>libunwindstack/DwarfSection.cpp\<close>: evaluating the register locations of a row (\<^verbatim>\<open>EvalExpression\<close>,
  \<^verbatim>\<open>EvalRegister\<close>, \<^verbatim>\<open>Eval\<close>), finding the row for a pc (\<^verbatim>\<open>GetCfaLocationInfo\<close>) and \<^verbatim>\<open>Step\<close>, which
  unwinds one frame.
\<close>

section \<open>Register locations\<close>

text \<open>
  What \<^verbatim>\<open>Eval\<close> only reads: the memory of the section, the memory of the process, the value of
  \<^verbatim>\<open>DwarfOp::cur_op_\<close> and of \<^verbatim>\<open>RegsInfo::saved_regs\<close> before they are set.
\<close>

record 'w eval_env =
  ev_section :: reader
  ev_memory :: reader
  ev_cur_op :: u8
  ev_saved_regs :: "'w list"

text \<open>
  \<^verbatim>\<open>EvalInfo\<close>. The register vector is the one of \<open>ei_regs_info\<close>; \<open>ei_regs\<close> is the rest of the \<^verbatim>\<open>Regs\<close>
  object. The cursor is the one of the section.
\<close>

record 'w eval_info =
  ei_cfa :: "'w"
  return_address_undefined :: bool
  ei_regs_info :: "'w regs_info"
  ei_regs :: "'w mregs"
  ei_cursor :: section_cursor

definition EvalExpression ::
  "'a::len word eval_env \<Rightarrow> DwarfLocation \<Rightarrow> 'a word regs_info \<Rightarrow> section_cursor \<Rightarrow> ('a word \<times> bool, section_cursor) outcome" where
  "EvalExpression env loc ri c =
     (let op_env = \<lparr>op_rd = ev_section env, regular_memory = ev_memory env, op_regs_info = ri\<rparr>;
          op = (DwarfOp_new (ev_cur_op env))\<lparr>op_memory := sec_memory c\<rparr>;
          end = loc_value1 loc; start = end - loc_value0 loc
      in case Eval start end op_env op of
           Ok _ op \<Rightarrow>
             let c = c\<lparr>sec_memory := op_memory op\<rparr>
             in if op_stack op = [] then sec_fail DWARF_ERROR_ILLEGAL_STATE c
                else if is_register op then sec_fail DWARF_ERROR_NOT_IMPLEMENTED c
                else Ok (op_stack op ! 0, dex_pc_set op) c
         | Fail op \<Rightarrow> Fail (c\<lparr>sec_memory := op_memory op, sec_error := last_error op\<rparr>)
         | Abort \<Rightarrow> Abort
         | Undef k \<Rightarrow> Undef k)"

definition ei_fail :: "DwarfErrorCode \<Rightarrow> 'a::len word eval_info \<Rightarrow> (unit, 'a word eval_info) outcome" where
  "ei_fail code st = Fail (st\<lparr>ei_cursor := (ei_cursor st)\<lparr>sec_error := (sec_error (ei_cursor st))\<lparr>err_code := code\<rparr>\<rparr>\<rparr>)"

definition store_reg :: "nat \<Rightarrow> 'a::len word \<Rightarrow> 'a word eval_info \<Rightarrow> 'a word eval_info" where
  "store_reg i v st = st\<lparr>ei_regs_info := regs_store i v (ei_regs_info st)\<rparr>"

text \<open>\<^verbatim>\<open>ReadFully\<close> into a register: a failed read leaves the bytes it got in the register.\<close>

definition read_into_reg :: "'a::len word eval_env \<Rightarrow> nat \<Rightarrow> u64 \<Rightarrow> 'a word eval_info \<Rightarrow> (unit, 'a word eval_info) outcome" where
  "read_into_reg env i addr st =
     (let k = addr_size TYPE('a); bs = ev_memory env addr k
      in if length bs = k then Ok () (store_reg i (le_word bs) st)
         else
           let old = to_le k (unat (regs (ei_regs_info st) ! i));
               st = store_reg i (le_word (bs @ drop (length bs) old)) st
           in Fail (st\<lparr>ei_cursor := (ei_cursor st)\<lparr>sec_error := \<lparr>err_code = DWARF_ERROR_MEMORY_INVALID, err_address = addr\<rparr>\<rparr>\<rparr>))"

text \<open>An expression, evaluated with the cursor of the section and the registers of the frame.\<close>

definition eval_info_expression ::
  "'a::len word eval_env \<Rightarrow> DwarfLocation \<Rightarrow> 'a word eval_info \<Rightarrow> ('a word \<times> bool, 'a word eval_info) outcome" where
  "eval_info_expression env loc st =
     map_state (\<lambda>c. st\<lparr>ei_cursor := c\<rparr>) (\<lambda>c. st\<lparr>ei_cursor := c\<rparr>) (EvalExpression env loc (ei_regs_info st) (ei_cursor st))"

text \<open>\<open>i\<close> is the register \<^verbatim>\<open>reg_ptr\<close> points to.\<close>

definition EvalRegister ::
  "'a::len word eval_env \<Rightarrow> DwarfCie \<Rightarrow> DwarfLocation \<Rightarrow> u32 \<Rightarrow> nat \<Rightarrow> 'a word eval_info \<Rightarrow> (unit, 'a word eval_info) outcome" where
  "EvalRegister env cie loc reg i st =
     (case loc_type loc of
        DWARF_LOCATION_OFFSET \<Rightarrow> read_into_reg env i (ucast (ei_cfa st) + loc_value0 loc) st
      | DWARF_LOCATION_VAL_OFFSET \<Rightarrow> Ok () (store_reg i (ucast (ucast (ei_cfa st) + loc_value0 loc)) st)
      | DWARF_LOCATION_REGISTER \<Rightarrow>
          let cur_reg = ucast (loc_value0 loc) :: u32
          in if ucast (RegsInfo_Total (ei_regs_info st)) \<le> cur_reg then ei_fail DWARF_ERROR_ILLEGAL_VALUE st
             else bind_out (RegsInfo_Get (ei_regs_info st) cur_reg st) (\<lambda>v st.
               Ok () (store_reg i (ucast (ucast v + loc_value1 loc)) st))
      | DWARF_LOCATION_EXPRESSION \<Rightarrow>
          bind_out (eval_info_expression env loc st) (\<lambda>(v, is_dex_pc) st. read_into_reg env i (ucast v) st)
      | DWARF_LOCATION_VAL_EXPRESSION \<Rightarrow>
          bind_out (eval_info_expression env loc st) (\<lambda>(v, is_dex_pc) st.
            let st = store_reg i v st
            in Ok () (if is_dex_pc then st\<lparr>ei_regs := set_dex_pc (ucast v) (ei_regs st)\<rparr> else st))
      | DWARF_LOCATION_UNDEFINED \<Rightarrow>
          Ok () (if ucast reg = return_address_register cie then st\<lparr>return_address_undefined := True\<rparr> else st)
      | DWARF_LOCATION_PSEUDO_REGISTER \<Rightarrow> ei_fail DWARF_ERROR_ILLEGAL_VALUE st
      | DWARF_LOCATION_INVALID \<Rightarrow> Ok () st)"

text \<open>The body of the loop over the locations, and the loop in the order the map is iterated.\<close>

definition eval_entry ::
  "'a::len word eval_env \<Rightarrow> DwarfCie \<Rightarrow> u32 \<Rightarrow> DwarfLocation \<Rightarrow> 'a word eval_info \<Rightarrow> (unit, 'a word eval_info) outcome" where
  "eval_entry env cie reg loc st =
     (if reg = CFA_REG then Ok () st
      else if ucast (RegsInfo_Total (ei_regs_info st)) \<le> reg then
        if loc_type loc \<noteq> DWARF_LOCATION_PSEUDO_REGISTER then Ok () st
        else case SetPseudoRegister (ucast reg) (loc_value0 loc) (ei_regs st) of
            Ok _ r \<Rightarrow> Ok () (st\<lparr>ei_regs := r\<rparr>)
          | _ \<Rightarrow> ei_fail DWARF_ERROR_ILLEGAL_VALUE st
      else
        case RegsInfo_Save reg (ei_regs_info st) of
          Ok i ri \<Rightarrow> EvalRegister env cie loc reg i (st\<lparr>ei_regs_info := ri\<rparr>)
        | Fail ri \<Rightarrow> Fail (st\<lparr>ei_regs_info := ri\<rparr>)
        | Abort \<Rightarrow> Abort
        | Undef k \<Rightarrow> Undef k)"

fun eval_entries ::
  "'a::len word eval_env \<Rightarrow> DwarfCie \<Rightarrow> (u32 \<times> DwarfLocation) list \<Rightarrow> 'a word eval_info \<Rightarrow> (unit, 'a word eval_info) outcome" where
  "eval_entries env cie [] st = Ok () st"
| "eval_entries env cie ((reg, loc) # locs) st =
     bind_out (eval_entry env cie reg loc st) (\<lambda>_ st. eval_entries env cie locs st)"

text \<open>The canonical frame address.\<close>

definition eval_cfa ::
  "'a::len word eval_env \<Rightarrow> DwarfLocation \<Rightarrow> 'a word eval_info \<Rightarrow> (unit, 'a word eval_info) outcome" where
  "eval_cfa env loc st =
     (case loc_type loc of
        DWARF_LOCATION_REGISTER \<Rightarrow>
          if of_nat (length (regs (ei_regs_info st))) \<le> loc_value0 loc then ei_fail DWARF_ERROR_ILLEGAL_VALUE st
          else Ok () (st\<lparr>ei_cfa := ucast (ucast (regs (ei_regs_info st) ! unat (loc_value0 loc)) + loc_value1 loc)\<rparr>)
      | DWARF_LOCATION_VAL_EXPRESSION \<Rightarrow>
          bind_out (eval_info_expression env loc st) (\<lambda>(v, _) st. Ok () (st\<lparr>ei_cfa := v\<rparr>))
      | _ \<Rightarrow> ei_fail DWARF_ERROR_ILLEGAL_VALUE st)"

text \<open>The registers as the caller of \<^verbatim>\<open>Eval\<close> finds them.\<close>

definition ei_mregs :: "'a::len word eval_info \<Rightarrow> 'a word mregs" where
  "ei_mregs st = (ei_regs st)\<lparr>mr_regs := regs (ei_regs_info st)\<rparr>"

type_synonym 'w frame = "'w mregs \<times> section_cursor"

definition start_info :: "'a::len word eval_env \<Rightarrow> 'a word frame \<Rightarrow> 'a word eval_info" where
  "start_info env f =
     (let r = ResetPseudoRegisters (set_dex_pc 0 (fst f))
      in \<lparr>ei_cfa = 0, return_address_undefined = False, ei_regs_info = RegsInfo_new (mr_regs r) (ev_saved_regs env),
          ei_regs = r, ei_cursor = snd f\<rparr>)"

definition frame_of :: "'a::len word eval_info \<Rightarrow> 'a word frame" where
  "frame_of st = (ei_mregs st, ei_cursor st)"

text \<open>The return address, the end of the stack and the stack pointer.\<close>

definition finish_eval :: "DwarfCie \<Rightarrow> 'a::len word eval_info \<Rightarrow> bool \<times> 'a word mregs" where
  "finish_eval cie st =
     (let r = ei_mregs st;
          r = (if return_address_undefined st then set_pc 0 r
               else set_pc (ucast (mr_regs r ! unat (return_address_register cie))) r)
      in (regs_pc r = 0 \<and> \<not> is_signal_frame cie, set_sp (ucast (ei_cfa st)) r))"

definition section_Eval ::
  "'a::len word eval_env \<Rightarrow> DwarfCie \<Rightarrow> (u32 \<times> DwarfLocation) list \<Rightarrow> 'a word frame \<Rightarrow> (bool, 'a word frame) outcome" where
  "section_Eval env cie locs f =
     (let (r, c) = f
      in if of_nat (length (mr_regs r)) \<le> return_address_register cie
         then map_state (\<lambda>c. (r, c)) (\<lambda>c. (r, c)) (sec_fail DWARF_ERROR_ILLEGAL_VALUE c)
         else case map_of locs CFA_REG of
             None \<Rightarrow> map_state (\<lambda>c. (r, c)) (\<lambda>c. (r, c)) (sec_fail DWARF_ERROR_CFA_NOT_DEFINED c)
           | Some loc \<Rightarrow>
               (case bind_out (eval_cfa env loc (start_info env f)) (\<lambda>_. eval_entries env cie locs) of
                  Ok _ st \<Rightarrow> (let (finished, r) = finish_eval cie st in Ok finished (r, ei_cursor st))
                | Fail st \<Rightarrow> Fail (frame_of st)
                | Abort \<Rightarrow> Abort
                | Undef k \<Rightarrow> Undef k))"

section \<open>The row for a pc\<close>

text \<open>
  The section with the locations it keeps: those of the CIEs by offset, and the rows by the end of their range with
  their CIE. A \<^verbatim>\<open>DwarfEhFrameWithHdr\<close> also has its search table and the cached entries of it.
\<close>

record unwind_section =
  us_section :: dwarf_section
  us_hdr :: "(hdr_env \<times> (u64 \<rightharpoonup> HdrFdeInfo)) option"
  cie_rows :: "u64 \<rightharpoonup> DwarfLocations"
  loc_rows :: "(u64, DwarfLocations \<times> DwarfCie) omap"

definition us_memory :: "dwarf_memory \<Rightarrow> unwind_section \<Rightarrow> unwind_section" where
  "us_memory m us = us\<lparr>us_section := (us_section us)\<lparr>sec_cursor := (sec_cursor (us_section us))\<lparr>sec_memory := m\<rparr>\<rparr>\<rparr>"

definition us_error :: "DwarfErrorData \<Rightarrow> unwind_section \<Rightarrow> unwind_section" where
  "us_error e us = us\<lparr>us_section := (us_section us)\<lparr>sec_cursor := (sec_cursor (us_section us))\<lparr>sec_error := e\<rparr>\<rparr>\<rparr>"

definition us_code :: "DwarfErrorCode \<Rightarrow> unwind_section \<Rightarrow> unwind_section" where
  "us_code code us = us_error ((sec_error (sec_cursor (us_section us)))\<lparr>err_code := code\<rparr>) us"

text \<open>A \<^verbatim>\<open>DwarfCfa\<close> on the cursor of the section; its members without initialiser are set before they are read.\<close>

definition new_cfa :: "dwarf_memory \<Rightarrow> 'a::len word dwarf_cfa" where
  "new_cfa m =
     \<lparr>cfa_memory = m, cfa_error = \<lparr>err_code = DWARF_ERROR_NONE, err_address = 0\<rparr>, cfa_cur_pc = 0, cfa_operands = [],
      loc_reg_state = [], loc_regs = \<lparr>loc_map = Map.empty, loc_pc_start = 0, loc_pc_end = 0\<rparr>\<rparr>"

text \<open>One call of \<^verbatim>\<open>GetLocationInfo\<close> and the error it leaves; \<open>None\<close>: the call does not return.\<close>

definition run_cfa ::
  "u64 \<Rightarrow> u64 \<Rightarrow> u64 \<Rightarrow> cfa_env \<Rightarrow> 'a::len word dwarf_cfa \<Rightarrow> unwind_section \<Rightarrow>
    ('a word dwarf_cfa, unwind_section) outcome option" where
  "run_cfa pc start fin cenv s us =
     map_option (\<lambda>r. case r of
         Ok _ s \<Rightarrow> Ok s (us_memory (cfa_memory s) us)
       | Fail s \<Rightarrow> Fail (us_error (cfa_error s) (us_memory (cfa_memory s) us))
       | Abort \<Rightarrow> Abort
       | Undef k \<Rightarrow> Undef k) (GetLocationInfo pc start fin cenv s)"

definition GetCfaLocationInfo ::
  "'a::len itself \<Rightarrow> section_env \<Rightarrow> u64 \<Rightarrow> DwarfFde \<Rightarrow> ArchEnum \<Rightarrow> unwind_section \<Rightarrow>
    (DwarfLocations, unwind_section) outcome option" where
  "GetCfaLocationInfo ty env pc fde arch us =
     (let cenv = \<lparr>cfa_rd = sec_rd env, cfa_fde = fde, cfa_arch = arch, cie_loc_regs = None\<rparr>;
          cfa = new_cfa (sec_memory (sec_cursor (us_section us))) :: 'a word dwarf_cfa;
          fde_row = (\<lambda>row (cfa :: 'a word dwarf_cfa) us.
            map_option (\<lambda>r. bind_out r (\<lambda>cfa us. Ok (loc_regs cfa) us))
              (run_cfa pc (cfa_instructions_offset fde) (cfa_instructions_end fde)
                (cenv\<lparr>cie_loc_regs := Some (loc_map row)\<rparr>) cfa us))
      in case cie_rows us (cie_offset fde) of
           Some row \<Rightarrow> fde_row row cfa us
         | None \<Rightarrow>
             (case run_cfa pc (cie_instructions_offset (fde_cie fde)) (cie_instructions_end (fde_cie fde)) cenv cfa us of
                None \<Rightarrow> None
              | Some (Ok cfa us) \<Rightarrow>
                  fde_row (loc_regs cfa) cfa (us\<lparr>cie_rows := (cie_rows us)(cie_offset fde \<mapsto> loc_regs cfa)\<rparr>)
              | Some (Fail us) \<Rightarrow> Some (Fail us)
              | Some Abort \<Rightarrow> Some Abort
              | Some (Undef k) \<Rightarrow> Some (Undef k)))"

section \<open>Step\<close>

text \<open>A call that may not return, followed by another.\<close>

fun bind_opt :: "('v, 's) outcome option \<Rightarrow> ('v \<Rightarrow> 's \<Rightarrow> ('w, 's) outcome option) \<Rightarrow> ('w, 's) outcome option" where
  "bind_opt None f = None"
| "bind_opt (Some (Ok v s)) f = f v s"
| "bind_opt (Some (Fail s)) f = Some (Fail s)"
| "bind_opt (Some Abort) f = Some Abort"
| "bind_opt (Some (Undef k)) f = Some (Undef k)"

definition on_us :: "(dwarf_section \<Rightarrow> ('v, dwarf_section) outcome) \<Rightarrow> unwind_section \<Rightarrow> ('v, unwind_section) outcome" where
  "on_us f us = map_state (\<lambda>s. us\<lparr>us_section := s\<rparr>) (\<lambda>s. us\<lparr>us_section := s\<rparr>) (f (us_section us))"

text \<open>The virtual function \<^verbatim>\<open>GetFdeFromPc\<close>.\<close>

definition us_GetFdeFromPc :: "section_env \<Rightarrow> u64 \<Rightarrow> unwind_section \<Rightarrow> (DwarfFde, unwind_section) outcome option" where
  "us_GetFdeFromPc env pc us =
     (case us_hdr us of
        None \<Rightarrow> Some (on_us (GetFdeFromPc env pc) us)
      | Some (henv, info) \<Rightarrow>
          let close = (\<lambda>hs. us\<lparr>us_section := hs_section hs, us_hdr := Some (henv, fde_info hs)\<rparr>)
          in map_option (map_state close close)
               (hdr_GetFdeFromPc (henv\<lparr>hdr_sec := env\<rparr>) pc \<lparr>hs_section = us_section us, fde_info = info\<rparr>))"

text \<open>The row of an FDE, stored under the end of its range; an entry that is already there stays and is used.\<close>

definition compute_row ::
  "'a::len itself \<Rightarrow> section_env \<Rightarrow> u64 \<Rightarrow> ArchEnum \<Rightarrow> unwind_section \<Rightarrow>
    (DwarfLocations \<times> DwarfCie, unwind_section) outcome option" where
  "compute_row ty env pc arch us =
     bind_opt (map_option (map_state (\<lambda>us. us) (us_code DWARF_ERROR_ILLEGAL_STATE))
         (us_GetFdeFromPc env pc (us_code DWARF_ERROR_NONE us))) (\<lambda>fde us.
       bind_opt (GetCfaLocationInfo ty env pc fde arch us) (\<lambda>row us.
         let rows = fst (omap_emplace (loc_pc_end row) (row, fde_cie fde) (loc_rows us))
         in Some (Ok (the (map_of rows (loc_pc_end row))) (us\<lparr>loc_rows := rows\<rparr>))))"

definition find_row ::
  "'a::len itself \<Rightarrow> section_env \<Rightarrow> u64 \<Rightarrow> ArchEnum \<Rightarrow> unwind_section \<Rightarrow>
    (DwarfLocations \<times> DwarfCie, unwind_section) outcome option" where
  "find_row ty env pc arch us =
     (case omap_upper_bound pc (loc_rows us) of
        Some (_, row) \<Rightarrow> if pc < loc_pc_start (fst row) then compute_row ty env pc arch us else Some (Ok row us)
      | None \<Rightarrow> compute_row ty env pc arch us)"

text \<open>
  \<open>order\<close> is the iteration order of the \<^verbatim>\<open>std::unordered_map\<close>. The state is the registers, the section and
  \<^verbatim>\<open>*is_signal_frame\<close>, which is set before the locations are evaluated; the result is \<^verbatim>\<open>*finished\<close>, which is only set on success.
\<close>

type_synonym 'a step_state = "'a mregs \<times> unwind_section \<times> bool"

definition section_Step ::
  "section_env \<Rightarrow> 'a::len word eval_env \<Rightarrow> ((u32 \<rightharpoonup> DwarfLocation) \<Rightarrow> (u32 \<times> DwarfLocation) list) \<Rightarrow> u64 \<Rightarrow>
    'a word step_state \<Rightarrow> (bool, 'a word step_state) outcome option" where
  "section_Step env eenv order pc st =
     (let (r, us, sig) = st; keep = (\<lambda>us. (r, us, sig))
      in bind_opt (map_option (map_state keep keep) (find_row TYPE('a) env pc (mr_arch r) us))
          (\<lambda>(row, cie) (r, us, _).
            let close = (\<lambda>(r, c). (r, us\<lparr>us_section := (us_section us)\<lparr>sec_cursor := c\<rparr>\<rparr>, is_signal_frame cie))
            in Some (map_state close close
                 (section_Eval eenv cie (order (loc_map row)) (r, sec_cursor (us_section us))))))"

end
