(* ===== verification/Caller_Frame.thy ===== *)
theory Caller_Frame
  imports Dwarf_Eval
begin

text \<open>
  The registers of the calling frame: a specification of what the register locations of a row mean, and
  the proof that \<^verbatim>\<open>DwarfSectionImpl::Eval\<close> computes it in whatever order the locations are visited.
\<close>

section \<open>Expressions depend on the caller's registers only\<close>

text \<open>Two register files that give the same values, one with some registers overwritten already.\<close>

definition same_regs :: "'a::len word regs_info \<Rightarrow> 'a word regs_info \<Rightarrow> bool" where
  "same_regs ri ri' \<longleftrightarrow> regs_info_ok ri \<and> regs_info_ok ri' \<and> length (regs ri) = length (regs ri') \<and>
     (\<forall>i < length (regs ri). caller_value ri i = caller_value ri' i)"

lemma same_regs_Get:
  assumes "same_regs ri ri'" and "unat reg < length (regs ri)"
  shows "RegsInfo_Get ri reg s = RegsInfo_Get ri' reg s"
  using assms RegsInfo_Get_below_total [of ri reg s] RegsInfo_Get_below_total [of ri' reg s]
  by (simp add: same_regs_def caller_value_def)

lemma same_regs_Total: "same_regs ri ri' \<Longrightarrow> RegsInfo_Total ri = RegsInfo_Total ri'"
  by (simp add: same_regs_def RegsInfo_Total_def)

lemma Total_less:
  fixes reg :: "'b::len word"
  assumes "same_regs ri ri'" and "unat reg < unat (RegsInfo_Total ri)"
  shows "unat (ucast reg :: u32) < length (regs ri)"
proof -
  have "unat reg < length (regs ri)" "length (regs ri) \<le> 64"
    using assms by (auto simp: RegsInfo_Total_def same_regs_def regs_info_ok_def MAX_REGISTERS_def unat_of_nat)
  moreover have "unat (ucast reg :: u32) \<le> unat reg"
    by (simp add: unsigned_ucast_eq take_bit_nat_less_eq_self)
  ultimately show ?thesis by simp
qed

lemma handler_same_regs:
  assumes "kOpHandleFuncList h = Some handler" and "same_regs ri ri'"
  shows "handler \<lparr>op_rd = rd, regular_memory = mem, op_regs_info = ri\<rparr> s =
    handler \<lparr>op_rd = rd, regular_memory = mem, op_regs_info = ri'\<rparr> s"
proof (cases h)
  case OP_BREG
  with assms show ?thesis
    by (auto simp: op_breg_def Let_def word_le_nat_alt not_le same_regs_Total
        intro!: bind_out_cong same_regs_Get [OF assms(2) Total_less [OF assms(2)]])
next
  case OP_BREGX
  with assms show ?thesis
    by (auto simp: op_bregx_def Let_def not_le same_regs_Total
        intro!: bind_out_cong same_regs_Get [OF assms(2) Total_less [OF assms(2)]])
qed (use assms(1) in \<open>auto simp: op_handler_defs binary_op_def cong: if_cong\<close>)

text \<open>The environment of an expression, as a function of the register file.\<close>

abbreviation expr_env :: "reader \<Rightarrow> reader \<Rightarrow> 'w regs_info \<Rightarrow> 'w op_env" where
  "expr_env rd mem ri \<equiv> \<lparr>op_rd = rd, regular_memory = mem, op_regs_info = ri\<rparr>"

lemma read_operands_same_regs: "read_operands (expr_env rd mem ri) es s = read_operands (expr_env rd mem ri') es s"
  by (induction es arbitrary: s) auto

lemma Decode_same_regs:
  assumes "same_regs ri ri'"
  shows "Decode (expr_env rd mem ri) s = Decode (expr_env rd mem ri') s"
  unfolding Decode_def Let_def read_operands_same_regs [of rd mem ri _ _ ri']
  using handler_same_regs [OF _ assms]
  by (auto intro!: bind_out_cong split: option.split)

lemma eval_loop_same_regs:
  assumes "same_regs ri ri'"
  shows "eval_loop (expr_env rd mem ri) fin n s = eval_loop (expr_env rd mem ri') fin n s"
proof (induction "expr_env rd mem ri" fin n s rule: eval_loop.induct)
  case (1 fin n s)
  then show ?case
    by (subst (1 2) eval_loop.simps) (auto simp: Decode_same_regs [OF assms] intro!: bind_out_cong)
qed

lemma Eval_same_regs:
  "same_regs ri ri' \<Longrightarrow> Eval start fin (expr_env rd mem ri) s = Eval start fin (expr_env rd mem ri') s"
  unfolding Eval_def Let_def
  by (auto simp: Decode_same_regs eval_loop_same_regs intro!: bind_out_cong)

text \<open>Evaluating an expression moves the cursor and nothing else.\<close>

abbreviation op_moved :: "dwarf_memory \<Rightarrow> 'a::len word dwarf_op \<Rightarrow> bool" where
  "op_moved m s \<equiv> moved m (op_memory s)"

lemma on_memory_moved:
  assumes "\<And>n. out_states (moved n) (f n)" and "op_moved m s"
  shows "out_states (op_moved m) (on_memory f s)"
  using assms(1) [of "op_memory s"] assms(2)
  by (cases "f (op_memory s)") (auto simp: on_memory_def memory_invalid_def intro: moved_trans)

lemma read_operands_moved: "op_moved m s \<Longrightarrow> out_states (op_moved m) (read_operands env es s)"
  by (induction env es s rule: read_operands.induct)
    (auto intro!: out_states_bind on_memory_moved moved_ReadEncodedValue)

lemma handler_moved:
  assumes "kOpHandleFuncList h = Some handler" and "op_moved m s"
  shows "out_states (op_moved m) (handler env s)"
proof (cases "handler env s")
  case (Ok u t)
  with assms show ?thesis
    by (cases h)
      (auto simp: op_handler_defs stack_access_defs fold_push_front Let_def set_op_offset_def bind_out_Ok_iff
        dest!: RegsInfo_Get_state split: if_splits option.splits list.splits)
next
  case (Fail t)
  with assms show ?thesis
    by (cases h)
      (auto simp: op_handler_defs stack_access_defs Let_def bind_out_Fail_iff set_code_def memory_invalid_def
        dest!: RegsInfo_Get_state split: if_splits option.splits list.splits)
qed simp_all

lemma Decode_moved:
  fixes s :: "'a::len word dwarf_op"
  shows "op_moved m s \<Longrightarrow> out_states (op_moved m) (Decode env s)"
  unfolding Decode_def Let_def
proof (rule out_states_bind [OF on_memory_moved [OF moved_ReadBytes]], goal_cases)
  case (3 bs t)
  have "out_states (op_moved m) (bind_out (read_operands env es u) (\<lambda>_ s. case kOpHandleFuncList h of
      None \<Rightarrow> Undef UB_Null | Some handler \<Rightarrow> handler env s))" if "op_moved m u" for es h and u :: "'a word dwarf_op"
    by (rule out_states_bind [OF read_operands_moved [OF that]]) (auto split: option.split dest: handler_moved)
  with 3 show ?case
    by (simp add: set_code_def)
qed (simp_all add: set_code_def)

lemma eval_loop_moved: "op_moved m s \<Longrightarrow> out_states (op_moved m) (eval_loop env fin n s)"
proof (induction env fin n s rule: eval_loop.induct)
  case (1 env fin n s)
  show ?case
    by (subst eval_loop.simps) (auto intro!: out_states_bind Decode_moved 1 simp: set_code_def)
qed

lemma Eval_moved: "op_moved m s \<Longrightarrow> out_states (op_moved m) (Eval start fin env s)"
  unfolding Eval_def Let_def
  by (auto intro!: out_states_bind Decode_moved eval_loop_moved simp: set_op_offset_def)

section \<open>The registers of the calling frame\<close>

text \<open>
  The specification: what each location gives, computed from the registers and the cursor the
  evaluation starts with.
\<close>

definition expression_value :: "'a::len word eval_env \<Rightarrow> section_cursor \<Rightarrow> 'a word list \<Rightarrow> DwarfLocation \<Rightarrow> 'a word option" where
  "expression_value env c old loc =
     (case EvalExpression env loc (RegsInfo_new old (ev_saved_regs env)) c of Ok (v, _) _ \<Rightarrow> Some v | _ \<Rightarrow> None)"

definition word_at :: "'a::len word eval_env \<Rightarrow> u64 \<Rightarrow> 'a word option" where
  "word_at env a = map_option le_word (ReadFully (ev_memory env) a (addr_size TYPE('a)))"

definition rule_value ::
  "'a::len word eval_env \<Rightarrow> section_cursor \<Rightarrow> 'a word list \<Rightarrow> 'a word \<Rightarrow> nat \<Rightarrow> DwarfLocation \<Rightarrow> 'a word option" where
  "rule_value env c old cfa i loc =
     (case loc_type loc of
        DWARF_LOCATION_OFFSET \<Rightarrow> word_at env (ucast cfa + loc_value0 loc)
      | DWARF_LOCATION_VAL_OFFSET \<Rightarrow> Some (ucast (ucast cfa + loc_value0 loc))
      | DWARF_LOCATION_REGISTER \<Rightarrow>
          let r = unat (ucast (loc_value0 loc) :: u32)
          in if r < length old then Some (ucast (ucast (old ! r) + loc_value1 loc)) else None
      | DWARF_LOCATION_EXPRESSION \<Rightarrow> Option.bind (expression_value env c old loc) (\<lambda>v. word_at env (ucast v))
      | DWARF_LOCATION_VAL_EXPRESSION \<Rightarrow> expression_value env c old loc
      | DWARF_LOCATION_PSEUDO_REGISTER \<Rightarrow> None
      | _ \<Rightarrow> Some (old ! i))"

text \<open>The state in the middle of the loop, after some of the registers.\<close>

definition eval_inv ::
  "section_cursor \<Rightarrow> 'a::len word list \<Rightarrow> 'a word \<Rightarrow> nat set \<Rightarrow> 'a word eval_info \<Rightarrow> bool" where
  "eval_inv c old cfa done st \<longleftrightarrow>
     regs_info_ok (ei_regs_info st) \<and> length (regs (ei_regs_info st)) = length old \<and>
     (\<forall>i < length old. caller_value (ei_regs_info st) i = old ! i) \<and>
     (\<forall>i < length old. bit (saved_reg_map (ei_regs_info st)) i \<longleftrightarrow> i \<in> done) \<and>
     ei_cfa st = cfa \<and> moved (sec_memory c) (sec_memory (ei_cursor st))"

lemma eval_inv_same_regs:
  assumes "eval_inv c old cfa done st" and "length (ev_saved_regs env) = 64"
  shows "same_regs (ei_regs_info st) (RegsInfo_new old (ev_saved_regs env))"
  using assms
  by (auto simp: eval_inv_def same_regs_def regs_info_ok_def RegsInfo_new_def caller_value_def MAX_REGISTERS_def)

text \<open>An expression in the middle of the loop has the value it has at its start.\<close>

lemma eval_info_expression_value:
  assumes inv: "eval_inv c old cfa done st" and saved: "length (ev_saved_regs env) = 64"
  shows "(\<exists>d c'. eval_info_expression env loc st = Ok (v, d) (st\<lparr>ei_cursor := c'\<rparr>) \<and> moved (sec_memory c) (sec_memory c')) \<longleftrightarrow>
      expression_value env c old loc = Some v"
    and "eval_info_expression env loc st = Ok (v, d) st' \<Longrightarrow>
      expression_value env c old loc = Some v \<and>
      (\<exists>c'. st' = st\<lparr>ei_cursor := c'\<rparr> \<and> moved (sec_memory c) (sec_memory c'))"
proof -
  let ?op = "\<lambda>c. (DwarfOp_new (ev_cur_op env))\<lparr>op_memory := sec_memory c\<rparr> :: 'a word dwarf_op"
  let ?fin = "loc_value1 loc" and ?start = "loc_value1 loc - loc_value0 loc"
  let ?ri = "RegsInfo_new old (ev_saved_regs env)"
  have moved: "moved (sec_memory c) (sec_memory (ei_cursor st))"
    using inv by (simp add: eval_inv_def)
  have eq: "Eval ?start ?fin (expr_env (ev_section env) (ev_memory env) (ei_regs_info st)) (?op (ei_cursor st)) =
      Eval ?start ?fin (expr_env (ev_section env) (ev_memory env) ?ri) (?op c)"
    unfolding Eval_same_regs [OF eval_inv_same_regs [OF inv saved]]
    using moved_set [OF moved] by (simp add: Eval_def set_op_offset_def)
  have end_moved: "out_states (op_moved (sec_memory c))
      (Eval ?start ?fin (expr_env (ev_section env) (ev_memory env) ?ri) (?op c))"
    by (rule Eval_moved) simp
  show *: "expression_value env c old loc = Some v \<and>
      (\<exists>c'. st' = st\<lparr>ei_cursor := c'\<rparr> \<and> moved (sec_memory c) (sec_memory c'))"
    if "eval_info_expression env loc st = Ok (v, d) st'" for v d st'
    using that end_moved
    by (cases "Eval ?start ?fin (expr_env (ev_section env) (ev_memory env) ?ri) (?op c)")
      (auto simp: eval_info_expression_def expression_value_def EvalExpression_def eq Let_def sec_fail_def split: if_splits)
  show "(\<exists>d c'. eval_info_expression env loc st = Ok (v, d) (st\<lparr>ei_cursor := c'\<rparr>) \<and> moved (sec_memory c) (sec_memory c')) \<longleftrightarrow>
      expression_value env c old loc = Some v"
    using end_moved
    by (cases "Eval ?start ?fin (expr_env (ev_section env) (ev_memory env) ?ri) (?op c)")
      (auto simp: eval_info_expression_def expression_value_def EvalExpression_def eq Let_def sec_fail_def split: if_splits)
qed

lemma caller_value_store: "bit (saved_reg_map ri) i \<Longrightarrow> caller_value (regs_store i v ri) j = caller_value ri j"
  by (cases "i = j") (auto simp: caller_value_def regs_store_def)

lemma eval_inv_store:
  assumes "eval_inv c old cfa done st" and "i \<in> done" and "i < length old"
  shows "eval_inv c old cfa done (store_reg i v st)"
proof -
  have "bit (saved_reg_map (ei_regs_info st)) i"
    using assms by (simp add: eval_inv_def)
  with assms(1) show ?thesis
    by (simp add: eval_inv_def store_reg_def caller_value_store regs_info_ok_store) (simp add: regs_store_def)
qed

lemma eval_inv_cursor:
  "eval_inv c old cfa done st \<Longrightarrow> moved (sec_memory c) (sec_memory c') \<Longrightarrow> eval_inv c old cfa done (st\<lparr>ei_cursor := c'\<rparr>)"
  by (simp add: eval_inv_def)

text \<open>What one location changes: register \<open>i\<close> becomes \<open>v\<close>.\<close>

definition reg_set ::
  "section_cursor \<Rightarrow> 'a::len word list \<Rightarrow> 'a word \<Rightarrow> nat set \<Rightarrow> nat \<Rightarrow> 'a word \<Rightarrow> bool \<Rightarrow> 'a word eval_info \<Rightarrow> 'a word eval_info \<Rightarrow> bool" where
  "reg_set c old cfa done i v und st st' \<longleftrightarrow>
     eval_inv c old cfa done st' \<and> regs (ei_regs_info st') = (regs (ei_regs_info st))[i := v] \<and>
     return_address_undefined st' = (return_address_undefined st \<or> und) \<and>
     (ei_regs st')\<lparr>mr_dex_pc := 0\<rparr> = (ei_regs st)\<lparr>mr_dex_pc := 0\<rparr>"

lemma reg_set_regs:
  assumes "reg_set c old cfa done i v und st st'"
  shows "mr_arch (ei_regs st') = mr_arch (ei_regs st)" "mr_ra_sign_state (ei_regs st') = mr_ra_sign_state (ei_regs st)"
proof -
  have eq: "(ei_regs st')\<lparr>mr_dex_pc := 0\<rparr> = (ei_regs st)\<lparr>mr_dex_pc := 0\<rparr>"
    using assms by (simp add: reg_set_def)
  show "mr_arch (ei_regs st') = mr_arch (ei_regs st)" "mr_ra_sign_state (ei_regs st') = mr_ra_sign_state (ei_regs st)"
    using arg_cong [OF eq, of mr_arch] arg_cong [OF eq, of mr_ra_sign_state] by simp_all
qed

lemma reg_set_store:
  assumes "eval_inv c old cfa done st" and "i \<in> done" and "i < length old" and "moved (sec_memory c) (sec_memory c')"
  shows "reg_set c old cfa done i v False st (store_reg i v (st\<lparr>ei_cursor := c'\<rparr>))"
    and "reg_set c old cfa done i v False st
      (store_reg i v (st\<lparr>ei_cursor := c'\<rparr>)\<lparr>ei_regs := set_dex_pc d (ei_regs st)\<rparr>)"
    and "reg_set c old cfa done i v False st (store_reg i v st)"
  using eval_inv_store [OF assms(1-3)] eval_inv_store [OF eval_inv_cursor [OF assms(1,4)] assms(2,3)]
  by (simp_all add: reg_set_def store_reg_def regs_store_def set_dex_pc_def eval_inv_def)

lemma read_into_reg_word:
  "read_into_reg env i a st = Ok () st' \<longleftrightarrow> (\<exists>v. word_at env a = Some v \<and> st' = store_reg i v st)"
  by (auto simp: read_into_reg_def word_at_def ReadFully_def Let_def)

lemma EvalRegister_value:
  assumes inv: "eval_inv c old cfa done st" and saved: "length (ev_saved_regs env) = 64"
    and i: "i \<in> done" "i < length old" "regs (ei_regs_info st) ! i = old ! i"
  shows "EvalRegister env cie loc reg i st = Ok () st' \<Longrightarrow>
      \<exists>v. rule_value env c old cfa i loc = Some v \<and>
        reg_set c old cfa done i v (loc_type loc = DWARF_LOCATION_UNDEFINED \<and> ucast reg = return_address_register cie) st st'"
    and "rule_value env c old cfa i loc = Some v \<Longrightarrow> \<exists>st'. EvalRegister env cie loc reg i st = Ok () st'"
proof -
  have cfa: "ei_cfa st = cfa" and moved: "moved (sec_memory c) (sec_memory (ei_cursor st))"
    and len: "length (regs (ei_regs_info st)) = length old" and ok: "regs_info_ok (ei_regs_info st)"
    using inv by (simp_all add: eval_inv_def)
  have total: "ucast (RegsInfo_Total (ei_regs_info st)) \<le> (r :: u32) \<longleftrightarrow> length old \<le> unat r" for r
    using ok len
    by (simp add: RegsInfo_Total_def regs_info_ok_def MAX_REGISTERS_def word_le_nat_alt unsigned_ucast_eq unat_of_nat
        take_bit_nat_eq_self)
  have get: "RegsInfo_Get (ei_regs_info st) r st = Ok (old ! unat r) st" if "unat r < length old" for r
    using RegsInfo_Get_below_total [OF ok, of r st] that inv len
    by (simp add: eval_inv_def flip: caller_value_def)
  note expr = eval_info_expression_value [OF inv saved, of loc]
  note sets = reg_set_store [OF inv i(1,2)]
  have same: "regs (ei_regs_info st) = (regs (ei_regs_info st))[i := old ! i]"
    using i(3) by (metis list_update_id)
  have keep: "reg_set c old cfa done i (old ! i) False st st"
    "reg_set c old cfa done i (old ! i) True st (st\<lparr>return_address_undefined := True\<rparr>)"
    using same inv by (auto simp: reg_set_def eval_inv_def)
  show "\<exists>v. rule_value env c old cfa i loc = Some v \<and>
        reg_set c old cfa done i v (loc_type loc = DWARF_LOCATION_UNDEFINED \<and> ucast reg = return_address_register cie) st st'"
    if eval: "EvalRegister env cie loc reg i st = Ok () st'"
  proof (cases "loc_type loc")
    case DWARF_LOCATION_EXPRESSION
    then obtain v d u where v: "eval_info_expression env loc st = Ok (v, d) u" "read_into_reg env i (ucast v) u = Ok () st'"
      using eval by (auto simp: EvalRegister_def bind_out_Ok_iff)
    with expr(2) DWARF_LOCATION_EXPRESSION show ?thesis
      by (fastforce simp: rule_value_def read_into_reg_word intro: sets)
  next
    case DWARF_LOCATION_VAL_EXPRESSION
    then obtain v d u where v: "eval_info_expression env loc st = Ok (v, d) u"
      "st' = (if d then store_reg i v u\<lparr>ei_regs := set_dex_pc (ucast v) (ei_regs u)\<rparr> else store_reg i v u)"
      using eval by (auto simp: EvalRegister_def bind_out_Ok_iff Let_def store_reg_def)
    from expr(2) [OF v(1)] obtain c' where "expression_value env c old loc = Some v" "u = st\<lparr>ei_cursor := c'\<rparr>"
      "moved (sec_memory c) (sec_memory c')" by blast
    with v(2) sets DWARF_LOCATION_VAL_EXPRESSION show ?thesis
      by (auto simp: rule_value_def)
  qed (use eval sets(3) [OF moved] keep in \<open>auto simp: EvalRegister_def rule_value_def read_into_reg_word cfa total get not_le Let_def
      ei_fail_def split: if_splits\<close>)
  show "\<exists>st'. EvalRegister env cie loc reg i st = Ok () st'" if "rule_value env c old cfa i loc = Some v"
    using that expr(1)
    by (cases "loc_type loc")
      (fastforce simp: EvalRegister_def rule_value_def read_into_reg_word cfa total get not_le Let_def bind_out_Ok_iff
        Option.bind_eq_Some_conv split: if_splits)+
qed

text \<open>One entry of the map: a register of the frame, or a pseudo register.\<close>

lemma eval_inv_Total:
  assumes "eval_inv c old cfa done st"
  shows "ucast (RegsInfo_Total (ei_regs_info st)) \<le> (reg :: u32) \<longleftrightarrow> length old \<le> unat reg"
  using assms
  by (simp add: eval_inv_def RegsInfo_Total_def regs_info_ok_def MAX_REGISTERS_def word_le_nat_alt unsigned_ucast_eq
      unat_of_nat take_bit_nat_eq_self)

lemma eval_inv_Save:
  assumes inv: "eval_inv c old cfa done st" and reg: "unat reg < length old" "unat reg \<notin> done"
  obtains ri where "RegsInfo_Save reg (ei_regs_info st) = Ok (unat reg) ri"
    "eval_inv c old cfa (insert (unat reg) done) (st\<lparr>ei_regs_info := ri\<rparr>)"
    "regs ri = regs (ei_regs_info st)" "regs ri ! unat reg = old ! unat reg"
proof
  let ?ri = "ei_regs_info st"
  have ok: "regs_info_ok ?ri" and len: "length (regs ?ri) = length old" and "length old \<le> 64"
    using inv by (simp_all add: eval_inv_def regs_info_ok_def MAX_REGISTERS_def)
  let ?ri' = "?ri\<lparr>saved_reg_map := saved_reg_map ?ri OR push_bit (unat reg) 1,
        saved_regs := (saved_regs ?ri)[unat reg := regs ?ri ! unat reg]\<rparr>"
  show "RegsInfo_Save reg ?ri = Ok (unat reg) ?ri'"
    using RegsInfo_Save_in_bounds [OF ok] reg(1) len by simp
  have live: "regs ?ri ! unat reg = old ! unat reg"
    using inv reg by (auto simp: eval_inv_def caller_value_def)
  show "regs ?ri' = regs ?ri" "regs ?ri' ! unat reg = old ! unat reg"
    using live by simp_all
  have "length (saved_regs ?ri) = 64"
    using ok by (simp add: regs_info_ok_def MAX_REGISTERS_def)
  then show "eval_inv c old cfa (insert (unat reg) done) (st\<lparr>ei_regs_info := ?ri'\<rparr>)"
    using inv reg \<open>length old \<le> 64\<close> bit_or_push_bit [of _ "saved_reg_map ?ri" "unat reg"]
    by (auto simp: eval_inv_def regs_info_ok_def caller_value_def nth_list_update)
qed

lemma eval_entry_register:
  assumes inv: "eval_inv c old cfa done st" and saved: "length (ev_saved_regs env) = 64"
    and reg: "unat reg < length old" "unat reg \<notin> done"
  shows "eval_entry env cie reg loc st = Ok () st' \<Longrightarrow>
      \<exists>v. rule_value env c old cfa (unat reg) loc = Some v \<and>
        reg_set c old cfa (insert (unat reg) done) (unat reg) v
          (loc_type loc = DWARF_LOCATION_UNDEFINED \<and> ucast reg = return_address_register cie) st st'"
    and "rule_value env c old cfa (unat reg) loc = Some v \<Longrightarrow> \<exists>st'. eval_entry env cie reg loc st = Ok () st'"
proof -
  have len: "length old \<le> 64"
    using inv by (simp add: eval_inv_def regs_info_ok_def MAX_REGISTERS_def)
  then have "reg \<noteq> CFA_REG"
    using reg(1) by (auto simp: CFA_REG_def)
  moreover obtain ri where ri: "RegsInfo_Save reg (ei_regs_info st) = Ok (unat reg) ri"
    "eval_inv c old cfa (insert (unat reg) done) (st\<lparr>ei_regs_info := ri\<rparr>)"
    "regs ri = regs (ei_regs_info st)" "regs ri ! unat reg = old ! unat reg"
    by (rule eval_inv_Save [OF inv reg])
  ultimately have eq: "eval_entry env cie reg loc st = EvalRegister env cie loc reg (unat reg) (st\<lparr>ei_regs_info := ri\<rparr>)"
    using reg(1) eval_inv_Total [OF inv] by (simp add: eval_entry_def)
  note step = EvalRegister_value [OF ri(2) saved, of "unat reg"]
  show "\<exists>v. rule_value env c old cfa (unat reg) loc = Some v \<and>
        reg_set c old cfa (insert (unat reg) done) (unat reg) v
          (loc_type loc = DWARF_LOCATION_UNDEFINED \<and> ucast reg = return_address_register cie) st st'"
    if "eval_entry env cie reg loc st = Ok () st'"
    using step(1) [of cie loc reg st'] that eq reg(1) ri(3,4) by (auto simp: reg_set_def)
  show "\<exists>st'. eval_entry env cie reg loc st = Ok () st'" if "rule_value env c old cfa (unat reg) loc = Some v"
    using step(2) [OF _ _ _ that] eq reg(1) ri(4) by simp
qed

text \<open>
  What the locations need to be evaluated. A pseudo register location is only made for the
  return address signing state, register 34.
\<close>

definition entry_ok ::
  "'a::len word eval_env \<Rightarrow> section_cursor \<Rightarrow> ArchEnum \<Rightarrow> 'a word list \<Rightarrow> 'a word \<Rightarrow> u32 \<Rightarrow> DwarfLocation \<Rightarrow> bool" where
  "entry_ok env c arch old cfa reg loc \<longleftrightarrow>
     (if unat reg < length old then rule_value env c old cfa (unat reg) loc \<noteq> None
      else loc_type loc = DWARF_LOCATION_PSEUDO_REGISTER \<longrightarrow> arch = ARCH_ARM64)"

definition pseudo_only :: "(u32 \<times> DwarfLocation) list \<Rightarrow> bool" where
  "pseudo_only locs \<longleftrightarrow> (\<forall>(reg, loc) \<in> set locs. loc_type loc = DWARF_LOCATION_PSEUDO_REGISTER \<longrightarrow> reg = 34)"

definition sign_state :: "DwarfLocation option \<Rightarrow> u64 \<Rightarrow> u64" where
  "sign_state loc s =
     (case loc of Some l \<Rightarrow> if loc_type l = DWARF_LOCATION_PSEUDO_REGISTER then loc_value0 l else s | None \<Rightarrow> s)"

definition undefined_ra :: "DwarfCie \<Rightarrow> (u32 \<rightharpoonup> DwarfLocation) \<Rightarrow> bool" where
  "undefined_ra cie m \<longleftrightarrow>
     (\<exists>reg loc. m reg = Some loc \<and> ucast reg = return_address_register cie \<and> loc_type loc = DWARF_LOCATION_UNDEFINED)"

definition apply_rules ::
  "'a::len word eval_env \<Rightarrow> section_cursor \<Rightarrow> 'a word list \<Rightarrow> 'a word \<Rightarrow> (u32 \<rightharpoonup> DwarfLocation) \<Rightarrow> 'a word list \<Rightarrow> 'a word list" where
  "apply_rules env c old cfa m rs =
     map (\<lambda>i. case m (of_nat i) of None \<Rightarrow> rs ! i | Some loc \<Rightarrow> the (rule_value env c old cfa i loc)) [0 ..< length old]"

text \<open>The state after some locations, against the state before.\<close>

definition entries_done ::
  "'a::len word eval_env \<Rightarrow> DwarfCie \<Rightarrow> section_cursor \<Rightarrow> 'a word list \<Rightarrow> 'a word \<Rightarrow> (u32 \<rightharpoonup> DwarfLocation) \<Rightarrow>
    'a word eval_info \<Rightarrow> 'a word eval_info \<Rightarrow> bool" where
  "entries_done env cie c old cfa m st st' \<longleftrightarrow>
     regs (ei_regs_info st') = apply_rules env c old cfa m (regs (ei_regs_info st)) \<and> ei_cfa st' = cfa \<and>
     return_address_undefined st' = (return_address_undefined st \<or> undefined_ra cie m) \<and>
     (ei_regs st')\<lparr>mr_dex_pc := 0\<rparr> =
       (ei_regs st)\<lparr>mr_dex_pc := 0, mr_ra_sign_state := sign_state (m 34) (mr_ra_sign_state (ei_regs st))\<rparr>"

lemma of_nat_eq_reg: "i < 64 \<Longrightarrow> (of_nat i :: u32) = reg \<longleftrightarrow> i = unat reg"
  by (auto simp: unat_of_nat)

lemma unat_ucast_u64: "unat (ucast (reg :: u32) :: u64) = unat reg"
  using unsigned_less [of reg, where ?'a = nat] by (simp add: unsigned_ucast_eq take_bit_nat_eq_self)

text \<open>A location for a register the frame does not have.\<close>

lemma eval_entry_other:
  assumes inv: "eval_inv c old cfa done st" and reg: "\<not> unat reg < length old"
    and pseudo: "loc_type loc = DWARF_LOCATION_PSEUDO_REGISTER \<longrightarrow> reg = 34"
  shows "eval_entry env cie reg loc st =
    (if entry_ok env c (mr_arch (ei_regs st)) old cfa reg loc
     then Ok () (if loc_type loc = DWARF_LOCATION_PSEUDO_REGISTER
       then st\<lparr>ei_regs := (ei_regs st)\<lparr>mr_ra_sign_state := loc_value0 loc\<rparr>\<rparr> else st)
     else ei_fail DWARF_ERROR_ILLEGAL_VALUE st)"
  using assms eval_inv_Total [OF inv, of reg]
  by (auto simp: eval_entry_def entry_ok_def SetPseudoRegister_def CFA_REG_def)

text \<open>Adding one location in front of the others.\<close>

lemma apply_rules_Cons:
  assumes "length old \<le> 64" and "m reg = None" and "length rs = length old"
    and "unat reg < length old \<Longrightarrow> rs' = rs[unat reg := the (rule_value env c old cfa (unat reg) loc)]"
    and "\<not> unat reg < length old \<Longrightarrow> rs' = rs"
  shows "apply_rules env c old cfa (m(reg \<mapsto> loc)) rs = apply_rules env c old cfa m rs'"
  unfolding apply_rules_def
proof (rule map_cong [OF refl])
  fix i assume "i \<in> set [0 ..< length old]"
  then have i: "i < length old" "i < 64" using assms(1) by auto
  show "(case (m(reg \<mapsto> loc)) (of_nat i) of None \<Rightarrow> rs ! i | Some loc \<Rightarrow> the (rule_value env c old cfa i loc)) =
      (case m (of_nat i) of None \<Rightarrow> rs' ! i | Some loc \<Rightarrow> the (rule_value env c old cfa i loc))"
    using assms(2-) i of_nat_eq_reg [OF i(2), of reg]
    by (cases "of_nat i = reg"; cases "unat reg < length old") (auto simp: nth_list_update split: option.split)
qed

lemma undefined_ra_Cons:
  "m reg = None \<Longrightarrow> undefined_ra cie (m(reg \<mapsto> loc)) \<longleftrightarrow>
    undefined_ra cie m \<or> (ucast reg = return_address_register cie \<and> loc_type loc = DWARF_LOCATION_UNDEFINED)"
  unfolding undefined_ra_def by (auto split: if_splits)

lemma entries_done_register:
  assumes inv: "eval_inv c old cfa done st" and reg: "unat reg < length old" and m: "m reg = None"
    and v: "rule_value env c old cfa (unat reg) loc = Some v"
    and st1: "reg_set c old cfa done' (unat reg) v
      (loc_type loc = DWARF_LOCATION_UNDEFINED \<and> ucast reg = return_address_register cie) st st1"
    and rest: "entries_done env cie c old cfa m st1 st'"
  shows "entries_done env cie c old cfa (m(reg \<mapsto> loc)) st st'"
proof -
  have "length old \<le> 64" "length (regs (ei_regs_info st)) = length old"
    using inv by (auto simp: eval_inv_def regs_info_ok_def MAX_REGISTERS_def)
  then have "apply_rules env c old cfa (m(reg \<mapsto> loc)) (regs (ei_regs_info st)) =
      apply_rules env c old cfa m (regs (ei_regs_info st1))"
    using apply_rules_Cons [of old m reg _ "regs (ei_regs_info st1)"] m reg v st1 by (simp add: reg_set_def)
  moreover have "sign_state ((m(reg \<mapsto> loc)) 34) x = sign_state (m 34) x" for x
    using v m by (auto simp: sign_state_def rule_value_def)
  moreover have "mr_ra_sign_state (ei_regs st1) = mr_ra_sign_state (ei_regs st)"
    by (rule reg_set_regs [OF st1])
  ultimately show ?thesis
    using rest st1 undefined_ra_Cons [of m reg cie loc] m
    by (auto simp: entries_done_def reg_set_def)
qed

lemma entries_done_other:
  assumes inv: "eval_inv c old cfa done st" and reg: "\<not> unat reg < length old" and m: "m reg = None"
    and ra: "unat (return_address_register cie) < length old"
    and pseudo: "loc_type loc = DWARF_LOCATION_PSEUDO_REGISTER \<longrightarrow> reg = 34"
    and st1: "st1 = (if loc_type loc = DWARF_LOCATION_PSEUDO_REGISTER
       then st\<lparr>ei_regs := (ei_regs st)\<lparr>mr_ra_sign_state := loc_value0 loc\<rparr>\<rparr> else st)"
    and rest: "entries_done env cie c old cfa m st1 st'"
  shows "entries_done env cie c old cfa (m(reg \<mapsto> loc)) st st'"
proof -
  have "length old \<le> 64" "length (regs (ei_regs_info st)) = length old"
    using inv by (auto simp: eval_inv_def regs_info_ok_def MAX_REGISTERS_def)
  then have "apply_rules env c old cfa (m(reg \<mapsto> loc)) (regs (ei_regs_info st)) =
      apply_rules env c old cfa m (regs (ei_regs_info st1))"
    using apply_rules_Cons [of old m reg "regs (ei_regs_info st)" "regs (ei_regs_info st1)"] m reg st1 by simp
  moreover have "sign_state ((m(reg \<mapsto> loc)) 34) (mr_ra_sign_state (ei_regs st)) =
      sign_state (m 34) (mr_ra_sign_state (ei_regs st1))"
    using m pseudo st1 by (auto simp: sign_state_def)
  moreover have "\<not> (ucast reg = return_address_register cie \<and> loc_type loc = DWARF_LOCATION_UNDEFINED)"
    using reg ra unat_ucast_u64 [of reg] by auto
  ultimately show ?thesis
    using rest st1 undefined_ra_Cons [of m reg cie loc] m
    by (auto simp: entries_done_def)
qed

lemma eval_entries_spec:
  assumes "eval_inv c old cfa done st" and saved: "length (ev_saved_regs env) = 64"
    and "distinct (map fst locs)" and "\<forall>p \<in> set locs. unat (fst p) \<notin> done" and "pseudo_only locs"
    and ra: "unat (return_address_register cie) < length old"
  shows "(\<forall>st'. eval_entries env cie locs st = Ok () st' \<longrightarrow> entries_done env cie c old cfa (map_of locs) st st') \<and>
    ((\<exists>st'. eval_entries env cie locs st = Ok () st') \<longleftrightarrow>
      (\<forall>(reg, loc) \<in> set locs. entry_ok env c (mr_arch (ei_regs st)) old cfa reg loc))"
  using assms(1,3-5)
proof (induction locs arbitrary: "done" st)
  case Nil
  then show ?case
    by (auto simp: entries_done_def apply_rules_def undefined_ra_def sign_state_def eval_inv_def intro: nth_equalityI)
next
  case (Cons p locs)
  obtain reg loc where p: "p = (reg, loc)" by (cases p)
  have pseudo: "loc_type loc = DWARF_LOCATION_PSEUDO_REGISTER \<longrightarrow> reg = 34" "pseudo_only locs"
    using Cons.prems(4) p by (auto simp: pseudo_only_def)
  have m: "map_of locs reg = None"
    using Cons.prems(2) p by (simp add: map_of_eq_None_iff)
  show ?case
  proof (cases "unat reg < length old")
    case True
    have fresh: "\<forall>q \<in> set locs. unat (fst q) \<notin> insert (unat reg) done"
      using Cons.prems(2,3) p by (auto simp: image_iff word_unat_eq_iff)
    have reg: "unat reg \<notin> done" using Cons.prems(3) p by simp
    note step = eval_entry_register [OF Cons.prems(1) saved True reg, where cie = cie and loc = loc]
    show ?thesis
    proof (cases "rule_value env c old cfa (unat reg) loc")
      case None
      then have "eval_entry env cie reg loc st \<noteq> Ok () st'" for st'
        using step(1) by auto
      with None p True show ?thesis
        by (auto simp: bind_out_Ok_iff entry_ok_def)
    next
      case (Some v)
      then obtain st1 where st1: "eval_entry env cie reg loc st = Ok () st1"
        "reg_set c old cfa (insert (unat reg) done) (unat reg) v
          (loc_type loc = DWARF_LOCATION_UNDEFINED \<and> ucast reg = return_address_register cie) st st1"
        using step by force
      then have "eval_inv c old cfa (insert (unat reg) done) st1" and "mr_arch (ei_regs st1) = mr_arch (ei_regs st)"
        using reg_set_regs [OF st1(2)] by (simp_all add: reg_set_def)
      with Cons.IH [OF _ _ fresh pseudo(2), of st1] Cons.prems(2) st1(1) p Some True
      show ?thesis
        using entries_done_register [where m = "map_of locs", OF Cons.prems(1) True m Some st1(2)]
        by (auto simp: entry_ok_def simp del: fun_upd_apply)
    qed
  next
    case False
    note step = eval_entry_other [OF Cons.prems(1) False pseudo(1), where env = env and cie = cie]
    define st1 where "st1 = (if loc_type loc = DWARF_LOCATION_PSEUDO_REGISTER
       then st\<lparr>ei_regs := (ei_regs st)\<lparr>mr_ra_sign_state := loc_value0 loc\<rparr>\<rparr> else st)"
    have "eval_inv c old cfa done st1" "mr_arch (ei_regs st1) = mr_arch (ei_regs st)"
      using Cons.prems(1) by (simp_all add: eval_inv_def st1_def)
    with Cons.IH [of "done" st1] Cons.prems(2,3) pseudo(2) p step [folded st1_def]
    show ?thesis
      using entries_done_other [where m = "map_of locs", OF Cons.prems(1) False m ra pseudo(1) st1_def]
      by (cases "entry_ok env c (mr_arch (ei_regs st)) old cfa reg loc") (auto simp: ei_fail_def simp del: fun_upd_apply)
  qed
qed

section \<open>The calling frame\<close>

definition cfa_value :: "'a::len word eval_env \<Rightarrow> section_cursor \<Rightarrow> 'a word list \<Rightarrow> DwarfLocation \<Rightarrow> 'a word option" where
  "cfa_value env c old loc =
     (case loc_type loc of
        DWARF_LOCATION_REGISTER \<Rightarrow>
          if unat (loc_value0 loc) < length old then Some (ucast (ucast (old ! unat (loc_value0 loc)) + loc_value1 loc))
          else None
      | DWARF_LOCATION_VAL_EXPRESSION \<Rightarrow> expression_value env c old loc
      | _ \<Rightarrow> None)"

text \<open>The registers of the caller, with no dex pc, and whether the caller is the last frame.\<close>

definition caller_frame ::
  "'a::len word eval_env \<Rightarrow> DwarfCie \<Rightarrow> (u32 \<rightharpoonup> DwarfLocation) \<Rightarrow> 'a word frame \<Rightarrow> (bool \<times> 'a word mregs) option" where
  "caller_frame env cie m f =
     (let (r, c) = f; old = mr_regs r; ra = unat (return_address_register cie)
      in case Option.bind (m CFA_REG) (cfa_value env c old) of
           None \<Rightarrow> None
         | Some cfa \<Rightarrow>
             if ra < length old \<and> (\<forall>reg \<in> dom m. entry_ok env c (mr_arch r) old cfa reg (the (m reg))) then
               let r0 = ResetPseudoRegisters (set_dex_pc 0 r);
                   r1 = r0\<lparr>mr_regs := apply_rules env c old cfa m old, mr_ra_sign_state := sign_state (m 34) (mr_ra_sign_state r0)\<rparr>;
                   r2 = set_pc (if undefined_ra cie m then 0 else ucast (mr_regs r1 ! ra)) r1
               in Some (regs_pc r2 = 0 \<and> \<not> is_signal_frame cie, set_sp (ucast cfa) r2)
             else None)"

lemma start_info_inv:
  assumes "mregs_ok r" and "length (ev_saved_regs env) = 64"
  shows "eval_inv c (mr_regs r) 0 {} (start_info env (r, c))"
proof -
  have "length (mr_regs r) \<le> 64"
    using assms(1) by (cases "mr_arch r") (auto simp: mregs_ok_def)
  with assms(2) show ?thesis
    by (simp add: start_info_def eval_inv_def Let_def ResetPseudoRegisters_def set_dex_pc_def regs_info_ok_def
        RegsInfo_new_def caller_value_def MAX_REGISTERS_def)
qed

lemma eval_cfa_value:
  assumes inv: "eval_inv c old x {} st" and saved: "length (ev_saved_regs env) = 64"
    and live: "regs (ei_regs_info st) = old"
  shows "eval_cfa env loc st = Ok () st' \<Longrightarrow>
      \<exists>cfa c'. cfa_value env c old loc = Some cfa \<and> st' = st\<lparr>ei_cursor := c', ei_cfa := cfa\<rparr> \<and> moved (sec_memory c) (sec_memory c')"
    and "cfa_value env c old loc = Some cfa \<Longrightarrow> \<exists>st'. eval_cfa env loc st = Ok () st'"
proof -
  note expr = eval_info_expression_value [OF inv saved, of loc]
  have len: "length old \<le> 64" "moved (sec_memory c) (sec_memory (ei_cursor st))"
    using inv by (auto simp: eval_inv_def regs_info_ok_def MAX_REGISTERS_def)
  then have total: "of_nat (length old) \<le> (a :: u64) \<longleftrightarrow> length old \<le> unat a" for a
    by (simp add: word_le_nat_alt unat_of_nat)
  show "\<exists>cfa c'. cfa_value env c old loc = Some cfa \<and> st' = st\<lparr>ei_cursor := c', ei_cfa := cfa\<rparr> \<and> moved (sec_memory c) (sec_memory c')"
    if eval: "eval_cfa env loc st = Ok () st'"
  proof (cases "loc_type loc")
    case DWARF_LOCATION_VAL_EXPRESSION
    then obtain v d u where v: "eval_info_expression env loc st = Ok (v, d) u" "st' = u\<lparr>ei_cfa := v\<rparr>"
      using eval by (auto simp: eval_cfa_def bind_out_Ok_iff)
    from expr(2) [OF v(1)] v(2) DWARF_LOCATION_VAL_EXPRESSION show ?thesis
      by (auto simp: cfa_value_def)
  next
    case DWARF_LOCATION_REGISTER
    with eval len(2) show ?thesis
      by (intro exI [of _ "ei_cfa st'"] exI [of _ "ei_cursor st"])
        (auto simp: eval_cfa_def cfa_value_def live total ei_fail_def not_le split: if_splits)
  qed (use eval in \<open>simp_all add: eval_cfa_def ei_fail_def\<close>)
  show "\<exists>st'. eval_cfa env loc st = Ok () st'" if "cfa_value env c old loc = Some cfa"
    using that expr(1)
    by (cases "loc_type loc") (fastforce simp: eval_cfa_def cfa_value_def live total not_le bind_out_Ok_iff split: if_splits)+
qed

lemma set_pc_dex: "set_pc a (r\<lparr>mr_dex_pc := d\<rparr>) = (set_pc a r)\<lparr>mr_dex_pc := d\<rparr>"
  by (simp add: set_pc_def put_reg_def IsRASigned_def strip_pac_def Let_def)

lemma finish_eval_frame:
  assumes "entries_done env cie c old cfa m st0 st" and "regs (ei_regs_info st0) = old" and "\<not> return_address_undefined st0"
    and "mr_dex_pc (ei_regs st0) = 0"
  defines "r1 \<equiv> (ei_regs st0)\<lparr>mr_regs := apply_rules env c old cfa m old,
      mr_ra_sign_state := sign_state (m 34) (mr_ra_sign_state (ei_regs st0))\<rparr>"
  defines "r2 \<equiv> set_pc (if undefined_ra cie m then 0 else ucast (mr_regs r1 ! unat (return_address_register cie))) r1"
  shows "\<exists>d. finish_eval cie st = (regs_pc r2 = 0 \<and> \<not> is_signal_frame cie, (set_sp (ucast cfa) r2)\<lparr>mr_dex_pc := d\<rparr>)"
proof -
  define d where "d = mr_dex_pc (ei_regs st)"
  have "ei_regs st = ((ei_regs st)\<lparr>mr_dex_pc := 0\<rparr>)\<lparr>mr_dex_pc := d\<rparr>"
    by (simp add: d_def)
  also have "(ei_regs st)\<lparr>mr_dex_pc := 0\<rparr> =
      (ei_regs st0)\<lparr>mr_dex_pc := 0, mr_ra_sign_state := sign_state (m 34) (mr_ra_sign_state (ei_regs st0))\<rparr>"
    using assms(1) by (simp add: entries_done_def)
  finally have "ei_mregs st = r1\<lparr>mr_dex_pc := d\<rparr>"
    using assms(1,2) by (intro mregs.equality) (simp_all add: ei_mregs_def r1_def entries_done_def)
  then have "finish_eval cie st = (regs_pc r2 = 0 \<and> \<not> is_signal_frame cie, (set_sp (ucast cfa) r2)\<lparr>mr_dex_pc := d\<rparr>)"
    using assms(1,3)
    by (simp add: finish_eval_def entries_done_def r2_def set_pc_dex Let_def regs_pc_def set_sp_def put_reg_def)
  then show ?thesis ..
qed

lemma ra_bound:
  assumes "mregs_ok r"
  shows "of_nat (length (mr_regs r)) \<le> return_address_register cie \<longleftrightarrow>
    \<not> unat (return_address_register cie) < length (mr_regs r)"
proof -
  have "length (mr_regs r) \<le> 64"
    using assms by (cases "mr_arch r") (auto simp: mregs_ok_def)
  then show ?thesis
    by (simp add: word_le_nat_alt unat_of_nat not_less)
qed

text \<open>The state the loop over the locations starts in.\<close>

lemma start_info_regs:
  "regs (ei_regs_info (start_info env (r, c))) = mr_regs r" "\<not> return_address_undefined (start_info env (r, c))"
  "ei_regs (start_info env (r, c)) = ResetPseudoRegisters (set_dex_pc 0 r)"
  "mr_dex_pc (ResetPseudoRegisters (set_dex_pc 0 r)) = 0" "mr_arch (ResetPseudoRegisters (set_dex_pc 0 r)) = mr_arch r"
  by (simp_all add: start_info_def Let_def RegsInfo_new_def ResetPseudoRegisters_def set_dex_pc_def)

lemma section_Eval_with_cfa:
  fixes r :: "'a::len word mregs"
  assumes ok: "mregs_ok r" and saved: "length (ev_saved_regs env) = 64"
    and locs: "distinct (map fst locs)" "pseudo_only locs" "map_of locs = m"
    and ra: "unat (return_address_register cie) < length (mr_regs r)"
    and x: "m CFA_REG = Some loc" "cfa_value env c (mr_regs r) loc = Some x"
  shows "case caller_frame env cie m (r, c) of
      Some (fin, r') \<Rightarrow> \<exists>d c'. section_Eval env cie locs (r, c) = Ok fin (r'\<lparr>mr_dex_pc := d\<rparr>, c')
    | None \<Rightarrow> \<forall>fin f. section_Eval env cie locs (r, c) \<noteq> Ok fin f"
proof -
  let ?st0 = "start_info env (r, c)"
  note inv0 = start_info_inv [OF ok saved, of c]
  obtain c' where c': "eval_cfa env loc ?st0 = Ok () (?st0\<lparr>ei_cursor := c', ei_cfa := x\<rparr>)" "moved (sec_memory c) (sec_memory c')"
    using eval_cfa_value [OF inv0 saved start_info_regs(1)] x(2) by (metis option.inject)
  let ?st1 = "?st0\<lparr>ei_cursor := c', ei_cfa := x\<rparr>"
  have inv1: "eval_inv c (mr_regs r) x {} ?st1"
    using inv0 c'(2) by (simp add: eval_inv_def)
  have "mr_arch (ei_regs ?st1) = mr_arch r"
    by (simp add: start_info_regs)
  note entries = eval_entries_spec [OF inv1 saved locs(1) _ locs(2) ra, unfolded this]
  have all: "(\<forall>reg \<in> dom m. entry_ok env c (mr_arch r) (mr_regs r) x reg (the (m reg))) \<longleftrightarrow>
      (\<forall>(reg, loc) \<in> set locs. entry_ok env c (mr_arch r) (mr_regs r) x reg loc)"
    using locs(1,3) by (force simp: dom_def)
  have eval: "section_Eval env cie locs (r, c) = (case eval_entries env cie locs ?st1 of
      Ok _ st \<Rightarrow> (let (finished, r) = finish_eval cie st in Ok finished (r, ei_cursor st))
    | Fail st \<Rightarrow> Fail (frame_of st) | Abort \<Rightarrow> Abort | Undef k \<Rightarrow> Undef k)"
    using ra x(1) locs(3) c'(1) ra_bound [OF ok, of cie] by (simp add: section_Eval_def)
  show ?thesis
  proof (cases "\<forall>(reg, loc) \<in> set locs. entry_ok env c (mr_arch r) (mr_regs r) x reg loc")
    case False
    then have "caller_frame env cie m (r, c) = None"
      using x all by (auto simp: caller_frame_def Let_def)
    moreover have "eval_entries env cie locs ?st1 \<noteq> Ok () st" for st
      using entries False by fastforce
    ultimately show ?thesis
      unfolding eval by (auto split: outcome.split)
  next
    case True
    then obtain st2 where st2: "eval_entries env cie locs ?st1 = Ok () st2"
      "entries_done env cie c (mr_regs r) x m ?st1 st2"
      using entries locs(3) by fastforce
    show ?thesis
      using finish_eval_frame [OF st2(2)] x ra all True unfolding eval st2(1)
      by (auto simp: start_info_regs caller_frame_def Let_def)
  qed
qed

lemma section_Eval_frame:
  fixes r :: "'a::len word mregs"
  assumes ok: "mregs_ok r" and saved: "length (ev_saved_regs env) = 64"
    and locs: "distinct (map fst locs)" "pseudo_only locs" "map_of locs = m"
  shows "case caller_frame env cie m (r, c) of
      Some (fin, r') \<Rightarrow> \<exists>d c'. section_Eval env cie locs (r, c) = Ok fin (r'\<lparr>mr_dex_pc := d\<rparr>, c')
    | None \<Rightarrow> \<forall>fin f. section_Eval env cie locs (r, c) \<noteq> Ok fin f"
proof (cases "unat (return_address_register cie) < length (mr_regs r) \<and>
    (\<exists>loc x. m CFA_REG = Some loc \<and> cfa_value env c (mr_regs r) loc = Some x)")
  case True
  then show ?thesis
    using section_Eval_with_cfa [OF ok saved locs] by blast
next
  case False
  note cfa = eval_cfa_value(1) [OF start_info_inv [OF ok saved, of c] saved start_info_regs(1)]
  from False have "caller_frame env cie m (r, c) = None"
    by (auto simp: caller_frame_def Let_def Option.bind_eq_Some_conv split: option.split)
  moreover have "section_Eval env cie locs (r, c) \<noteq> Ok fin f" for fin f
    using False locs(3) ra_bound [OF ok, of cie]
    by (auto simp: section_Eval_def sec_fail_def bind_out_Ok_iff dest: cfa split: option.splits outcome.splits)
  ultimately show ?thesis by simp
qed

text \<open>
  C4. Evaluating the register locations of a frame gives the registers of its caller: every register has the value
  its location names, computed from the registers, the memory and the frame address at the start, although
  registers are overwritten while others are still to be read; pc and sp are the return address and the frame
  address. The order in which the map of locations is iterated has no influence, nor has it on whether
  the evaluation succeeds. (The dex pc alone is the one of the last location that marks one.)
\<close>

theorem section_Eval_caller_frame:
  fixes r :: "'a::len word mregs"
  assumes ok: "mregs_ok r" and saved: "length (ev_saved_regs env) = 64"
    and locs: "distinct (map fst locs)" "pseudo_only locs" "map_of locs = m"
  shows "case caller_frame env cie m (r, c) of
      Some (fin, r') \<Rightarrow> \<exists>d c'. section_Eval env cie locs (r, c) = Ok fin (r'\<lparr>mr_dex_pc := d\<rparr>, c')
    | None \<Rightarrow> \<forall>fin f. section_Eval env cie locs (r, c) \<noteq> Ok fin f"
  by (rule section_Eval_frame [OF assms])

text \<open>A frame on x86-64 whose return address is at \<open>0x1008\<close> and whose \<^verbatim>\<open>rbp\<close> was \<^verbatim>\<open>rbx + 1\<close>.\<close>

definition frame_env_example :: "u64 eval_env" where
  "frame_env_example =
     \<lparr>ev_section = (\<lambda>_ _. []), ev_memory = flat_read (bytes_memory 0x1008 (to_le 8 0x4242)), ev_cur_op = 0,
      ev_saved_regs = replicate 64 0\<rparr>"

definition frame_regs_example :: "u64 mregs" where
  "frame_regs_example = put_reg 7 0x1000 (put_reg 3 5 (zero_regs ARCH_X86_64))"

definition frame_locs_example :: "(u32 \<times> DwarfLocation) list" where
  "frame_locs_example =
     [(6, Location DWARF_LOCATION_REGISTER 3 1), (CFA_REG, Location DWARF_LOCATION_REGISTER 7 16),
      (16, Location DWARF_LOCATION_OFFSET (- 8) 0)]"

definition frame_cie_example :: DwarfCie where
  "frame_cie_example = DwarfCie_new\<lparr>return_address_register := 16\<rparr>"

lemma section_Eval_caller_frame_witness:
  "\<exists>r c. section_Eval frame_env_example frame_cie_example frame_locs_example (frame_regs_example, sec_cursor new_section) = Ok False (r, c)
     \<and> mr_regs r ! 16 = 0x4242 \<and> mr_regs r ! 7 = 0x1010 \<and> mr_regs r ! 6 = 6"
proof -
  have word: "word_at frame_env_example 0x1008 = Some 0x4242"
    using ReadFully_bytes_at [OF bytes_at_bytes_memory, of "to_le 8 0x4242" 8 "0x1008"]
    by (simp add: word_at_def frame_env_example_def le_word_def le_nat_to_le)
  have "mregs_ok frame_regs_example"
    by (simp add: frame_regs_example_def regs_ok zero_regs_ok)
  note frame = section_Eval_caller_frame [OF this, of frame_env_example frame_locs_example "map_of frame_locs_example"
      frame_cie_example "sec_cursor new_section"]
  obtain r where r: "caller_frame frame_env_example frame_cie_example (map_of frame_locs_example)
      (frame_regs_example, sec_cursor new_section) = Some (False, r)"
    "mr_regs r ! 16 = 0x4242" "mr_regs r ! 7 = 0x1010" "mr_regs r ! 6 = 6"
    using word
    by (simp add: caller_frame_def frame_locs_example_def frame_regs_example_def zero_regs_def put_reg_def cfa_value_def CFA_REG_def
        entry_ok_def rule_value_def frame_cie_example_def DwarfCie_new_def undefined_ra_def apply_rules_def set_pc_def regs_pc_def
        set_sp_def Let_def ResetPseudoRegisters_def set_dex_pc_def)
  then show ?thesis
    using frame by (fastforce simp: frame_env_example_def frame_locs_example_def CFA_REG_def pseudo_only_def)
qed

end
