(* ===== verification/Dwarf_Step.thy ===== *)
theory Dwarf_Step
  imports Caller_Frame
begin

text \<open>
  Unwinding one frame with \<^verbatim>\<open>DwarfSection::Step\<close>: the lookup of the FDE, the row of the call frame table and the
  evaluation of its locations put together, and what the cache of rows does.
\<close>

text \<open>The entries of a map in some order.\<close>

definition iterates :: "('k \<Rightarrow> 'v option) \<Rightarrow> ('k \<times> 'v) list \<Rightarrow> bool" where
  "iterates m locs \<longleftrightarrow> distinct (map fst locs) \<and> map_of locs = m"

lemma compute_row_fde:
  assumes reach: "section_reaches env (us_section us)" and fdes: "section_fdes env = Ok fdes ()"
  shows "(\<exists>fde us1. on_us (GetFdeFromPc env pc) (us_code DWARF_ERROR_NONE us) = Ok fde us1 \<and> loc_rows us1 = loc_rows us
        \<and> cie_rows us1 = cie_rows us \<and> fde_pc_start fde \<le> pc \<and> pc < fde_pc_end fde
        \<and> (\<exists>g \<in> set fdes. covers g pc \<and> read_fde env (fi_offset g) = Ok fde ()))
     \<or> (\<exists>us1. on_us (GetFdeFromPc env pc) (us_code DWARF_ERROR_NONE us) = Fail us1 \<and> \<not> (\<exists>f \<in> set fdes. covers f pc))"
proof -
  let ?s = "us_section (us_code DWARF_ERROR_NONE us)"
  have "sec_ok env (us_section us)"
    by (rule section_reaches_ok [OF reach])
  then have "bases_clear ((sec_cursor (us_section us))\<lparr>sec_error := e\<rparr>)" for e
    by (simp add: sec_ok_def cache_ok_def bases_clear_def)
  from section_reaches.eval [OF reach this] have "section_reaches env ?s"
    by (simp add: us_code_def us_error_def)
  from GetFdeFromPc_lookup [OF this fdes, of pc] show ?thesis
    by (cases "GetFdeFromPc env pc ?s") (auto simp: on_us_def us_code_def us_error_def)
qed

section \<open>Properties\<close>


text \<open>
  Where no FDE of the section covers the pc and no cached row does, \<^verbatim>\<open>Step\<close> returns false with
  \<^verbatim>\<open>DWARF_ERROR_ILLEGAL_STATE\<close> and leaves the registers as they are.
\<close>

theorem Step_without_fde:
  fixes r :: "'a::len word mregs"
  assumes "section_reaches env (us_section us)" and "section_fdes env = Ok fdes ()"
    and "\<forall>f \<in> set fdes. \<not> covers f pc" and plain: "us_hdr us = None" and "\<forall>(k, row, cie) \<in> set (loc_rows us). pc < loc_pc_start row \<or> k \<le> pc"
  shows "\<exists>us'. section_Step env eenv order pc (r, us, sig) = Some (Fail (r, us', sig))
    \<and> err_code (sec_error (sec_cursor (us_section us'))) = DWARF_ERROR_ILLEGAL_STATE"
proof -
  from compute_row_fde [OF assms(1,2), of pc] assms(3) obtain us1 where
    us1: "on_us (GetFdeFromPc env pc) (us_code DWARF_ERROR_NONE us) = Fail us1"
    by blast
  have "find_row ty env pc arch us = compute_row ty env pc arch us" for ty :: "'a itself" and arch
  proof (cases "omap_upper_bound pc (loc_rows us)")
    case (Some e)
    obtain k row cie where e: "e = (k, row, cie)" by (cases e)
    then have "e \<in> set (loc_rows us)" "pc < k"
      using Some by (auto simp: omap_upper_bound_def find_Some_iff in_set_conv_nth)
    with assms(5) e Some show ?thesis
      by (auto simp: find_row_def)
  qed (simp add: find_row_def)
  then show ?thesis
    using us1 plain by (simp add: section_Step_def compute_row_def us_GetFdeFromPc_def us_code_def us_error_def)
qed

text \<open>
  An \<^verbatim>\<open>.eh_frame\<close> with two overlapping FDEs that end at the same address: one for \<open>0x60\<close> to \<open>0x80\<close> with a frame of 32 bytes, one
  for \<open>0x40\<close> to \<open>0x80\<close> with a frame of 16 bytes.
\<close>

definition overlap_bytes :: "u8 list" where
  "overlap_bytes =
     [14, 0, 0, 0, 0, 0, 0, 0, 1, 0, 1, 8, 16, 0x0c, 7, 8, 0x90, 0,
      14, 0, 0, 0, 22, 0, 0, 0, 70, 0, 0, 0, 32, 0, 0, 0, 0x0e, 32,
      14, 0, 0, 0, 40, 0, 0, 0, 20, 0, 0, 0, 64, 0, 0, 0, 0x0e, 16]"

definition overlap_env :: section_env where
  "overlap_env = \<lparr>sec_kind = Eh_Frame, sec_rd = (\<lambda>a n. take n (drop (unat a) overlap_bytes)), sec_asz = 8,
     section_bias = 0, entries_offset = 0, entries_end = 54, sec_pc_offset = 0\<rparr>"

definition overlap_eval :: "u64 eval_env" where
  "overlap_eval = \<lparr>ev_section = sec_rd overlap_env, ev_memory = (\<lambda>a n. take n (1 # replicate 7 0)), ev_cur_op = 0, ev_saved_regs = replicate 64 0\<rparr>"

definition small_order :: "(u32 \<rightharpoonup> DwarfLocation) \<Rightarrow> (u32 \<times> DwarfLocation) list" where
  "small_order m = List.map_filter (\<lambda>k. map_option (Pair k) (m k)) [CFA_REG, 16]"

definition new_us :: unwind_section where
  "new_us = \<lparr>us_section = new_section, us_hdr = None, cie_rows = Map.empty, loc_rows = []\<rparr>"

definition step_at :: "u64 \<Rightarrow> unwind_section \<Rightarrow> (bool, u64 step_state) outcome option" where
  "step_at pc us = section_Step overlap_env overlap_eval small_order pc (put_reg 7 16 (zero_regs ARCH_X86_64), us, False)"

definition us_of :: "(bool, u64 step_state) outcome option \<Rightarrow> unwind_section" where
  "us_of r = fst (snd (the (state_of (the r))))"

definition sp_of :: "(bool, u64 step_state) outcome option \<Rightarrow> u64" where
  "sp_of r = mr_regs (fst (the (state_of (the r)))) ! 7"


text \<open>
  The cache of rows can return the row of another FDE: it is indexed by the end of the range, and a new row does
  not replace one with the same end. In a section with two overlapping FDEs that end at the same address, the
  frame of a function at \<open>0x50\<close> is unwound with the stack pointer 32 in a fresh section and with 48 after an unwind step at
  \<open>0x70\<close>.
\<close>

theorem Step_row_collision:
  "map_option returns_true (step_at 0x50 new_us) = Some True \<and> sp_of (step_at 0x50 new_us) = 32 \<and>
   map_option returns_true (step_at 0x50 (us_of (step_at 0x70 new_us))) = Some True \<and>
   sp_of (step_at 0x50 (us_of (step_at 0x70 new_us))) = 48"
proof (intro conjI)
  show "map_option returns_true (step_at 0x50 new_us) = Some True" by code_simp
  show "sp_of (step_at 0x50 new_us) = 32" by code_simp
  show "map_option returns_true (step_at 0x50 (us_of (step_at 0x70 new_us))) = Some True" by code_simp
  show "sp_of (step_at 0x50 (us_of (step_at 0x70 new_us))) = 48" by code_simp
qed

lemma Step_without_fde_witness:
  "\<exists>us'. section_Step overlap_env overlap_eval small_order 0x90 (zero_regs ARCH_X86_64, new_us, False) = Some (Fail (zero_regs ARCH_X86_64, us', False))"
proof -
  have "section_reaches overlap_env (us_section new_us)"
    by (simp add: new_us_def section_reaches.start)
  moreover have "section_fdes overlap_env = Ok [\<lparr>fi_start = 0x60, fi_end = 0x80, fi_offset = 18\<rparr>, \<lparr>fi_start = 0x40, fi_end = 0x80, fi_offset = 36\<rparr>] ()"
    by code_simp
  ultimately show ?thesis
    using Step_without_fde [where pc = "0x90" and order = small_order and sig = False] by (fastforce simp: covers_def new_us_def)
qed


end
