(* ===== verification/Hdr_Search.thy ===== *)
theory Hdr_Search
  imports Eh_Frame_Hdr
begin

text \<open>
  The table of \<^verbatim>\<open>.eh_frame_hdr\<close>: its cache is transparent, the search ends and, in a sorted table, finds the entry
  of the function that contains the pc.
\<close>

section \<open>Transparent cache\<close>

text \<open>An entry as the memory holds it.\<close>

definition table_memory :: "hdr_env \<Rightarrow> u64 \<Rightarrow> dwarf_memory" where
  "table_memory env index =
     \<lparr>cur_offset = hdr_entries_offset env + 2 * index * of_nat (table_entry_size env), pc_offset = 0,
      data_offset = hdr_entries_data_offset env, func_offset = - 1, text_offset = - 1\<rparr>"

definition table_entry :: "hdr_env \<Rightarrow> u64 \<Rightarrow> (HdrFdeInfo, dwarf_memory) outcome" where
  "table_entry env index =
     bind_out (ReadEncodedValue (sec_asz (hdr_sec env)) (sec_rd (hdr_sec env)) (table_encoding env) (table_memory env index)) (\<lambda>v m.
       bind_out (ReadEncodedValue (sec_asz (hdr_sec env)) (sec_rd (hdr_sec env)) (table_encoding env) m) (\<lambda>off m.
         Ok \<lparr>info_pc = to_address (hdr_sec env)
               (if IsEncodingRelative (table_encoding env) then v + hdr_section_bias env else v),
             info_offset = off\<rparr> m))"

lemma on_section_memory: "map_state sec_memory sec_memory (on_section f c) = f (sec_memory c)"
  by (cases "f (sec_memory c)") (simp_all add: on_section_def)

lemma at_table_memory: "bases_clear c \<Longrightarrow> sec_memory (at_table env index c) = table_memory env index"
  by (cases "sec_memory c")
    (simp add: at_table_def table_memory_def set_sec_pc_offset_def set_sec_offset_def set_sec_data_offset_def bases_clear_def)

lemma read_fde_info_memory:
  assumes "bases_clear c"
  shows "map_state sec_memory sec_memory (read_fde_info env index c) = table_entry env index"
  unfolding read_fde_info_def table_entry_def sec_encoded_def
  by (simp add: on_section_memory at_table_memory assms map_state_bind [where h = sec_memory,
        where g = "\<lambda>v m. bind_out (ReadEncodedValue (sec_asz (hdr_sec env)) (sec_rd (hdr_sec env)) (table_encoding env) m) (\<lambda>off m.
         Ok \<lparr>info_pc = to_address (hdr_sec env)
               (if IsEncodingRelative (table_encoding env) then v + hdr_section_bias env else v),
             info_offset = off\<rparr> m)"]
      map_state_bind [where h = sec_memory])

definition hs_ok :: "hdr_env \<Rightarrow> hdr_section \<Rightarrow> bool" where
  "hs_ok env hs \<longleftrightarrow> sec_ok (hdr_sec env) (hs_section hs) \<and>
     (\<forall>i info. fde_info hs i = Some info \<longrightarrow> result_of (table_entry env i) = Ok info ())"

lemma table_entry_moved: "out_states (moved (table_memory env index)) (table_entry env index)"
  unfolding table_entry_def
  by (auto intro!: out_states_bind moved_ReadEncodedValue out_states_mono [OF moved_ReadEncodedValue]
      intro: moved_trans)

lemma out_states_map: "out_states P (map_state h h r) \<longleftrightarrow> out_states (\<lambda>s. P (h s)) r"
  by (cases r) simp_all

lemma read_fde_info_clear:
  assumes "bases_clear c"
  shows "out_states bases_clear (read_fde_info env index c)"
proof -
  have "out_states (\<lambda>d. moved (table_memory env index) (sec_memory d)) (read_fde_info env index c)"
    using table_entry_moved [of env index] unfolding read_fde_info_memory [OF assms, symmetric] out_states_map .
  then show ?thesis
    by (rule out_states_mono) (auto simp: bases_clear_def table_memory_def dest!: moved_base simp: base_def)
qed

lemma sec_ok_cursor: "sec_ok env s \<Longrightarrow> bases_clear c \<Longrightarrow> sec_ok env (s\<lparr>sec_cursor := c\<rparr>)"
  by (simp add: sec_ok_def index_ok_def cache_ok_cursor)

lemma GetFdeInfoFromIndex_reads:
  assumes ok: "hs_ok env hs"
  shows "result_of (GetFdeInfoFromIndex env i hs) = result_of (table_entry env i)"
    and "out_states (hs_ok env) (GetFdeInfoFromIndex env i hs)"
proof -
  let ?c = "sec_cursor (hs_section hs)" and ?r = "read_fde_info env i (sec_cursor (hs_section hs))"
  have clear: "bases_clear ?c"
    using ok by (simp add: hs_ok_def sec_ok_def cache_ok_def)
  have res: "result_of ?r = result_of (table_entry env i)"
    using read_fde_info_memory [OF clear, of env i] by (metis result_map_state)
  note states = read_fde_info_clear [OF clear, of env i]
  show "result_of (GetFdeInfoFromIndex env i hs) = result_of (table_entry env i)"
  proof (cases "fde_info hs i")
    case None
    then show ?thesis
      using res by (cases ?r) (simp_all add: GetFdeInfoFromIndex_def on_hs_def at_cursor_def)
  next
    case (Some info)
    then show ?thesis
      using ok by (simp add: GetFdeInfoFromIndex_def hs_ok_def)
  qed
  show "out_states (hs_ok env) (GetFdeInfoFromIndex env i hs)"
  proof (cases "fde_info hs i")
    case None
    then show ?thesis
      using res states ok
      by (cases ?r) (auto simp: GetFdeInfoFromIndex_def on_hs_def at_cursor_def hs_ok_def sec_ok_cursor)
  next
    case (Some info)
    then show ?thesis
      using ok by (simp add: GetFdeInfoFromIndex_def)
  qed
qed

section \<open>The search\<close>

definition table_side :: "hdr_env \<Rightarrow> u64 \<Rightarrow> u64 \<Rightarrow> side option" where
  "table_side env pc i =
     (case result_of (table_entry env i) of Ok info _ \<Rightarrow> Some (side_of pc (info_pc info)) | _ \<Rightarrow> None)"

interpretation hdr: probed_table half_sum max_half "hdr_probe env pc" "hs_ok env" "table_side env pc" for env pc
proof (unfold_locales, fact half_sum_between)
  fix s i d
  assume s: "hs_ok env s"
  note reads = GetFdeInfoFromIndex_reads [OF s, of i]
  show "table_side env pc i = Some d \<Longrightarrow> \<exists>t. hdr_probe env pc i s = Ok d t \<and> hs_ok env t"
    using reads by (cases "GetFdeInfoFromIndex env i s") (auto simp: table_side_def hdr_probe_def simp flip: reads(1))
  show "table_side env pc i = None \<Longrightarrow> out_states (hs_ok env) (hdr_probe env pc i s) \<and> (\<forall>d t. hdr_probe env pc i s \<noteq> Ok d t)"
    using reads by (cases "GetFdeInfoFromIndex env i s") (auto simp: table_side_def hdr_probe_def simp flip: reads(1))
qed

lemma GetFdeOffsetFromPc_states:
  assumes "hs_ok env hs" and "fde_count env \<le> max_half"
  shows "\<exists>r. GetFdeOffsetFromPc env pc hs = Some r \<and> out_states (hs_ok env) r"
proof -
  obtain r where r: "search_loop half_sum (hdr_probe env pc) 0 (fde_count env) hs = Some r" "out_states (hs_ok env) r"
    using hdr.search_returns [OF assms] by blast
  have "out_states (hs_ok env) (bind_out (GetFdeInfoFromIndex env i t) (\<lambda>info hs. Ok (info_offset info) hs))" if "hs_ok env t" for i t
    using GetFdeInfoFromIndex_reads(2) [OF that, of i] by (auto intro: out_states_bind)
  with r assms(1) show ?thesis
    by (auto simp: GetFdeOffsetFromPc_def intro!: out_states_bind split: position.split)
qed

lemma on_hs_states:
  assumes "hs_ok env hs" and "out_states (sec_ok (hdr_sec env)) (f (hs_section hs))"
  shows "out_states (hs_ok env) (on_hs f hs)"
  using assms by (cases "f (hs_section hs)") (auto simp: on_hs_def hs_ok_def)

lemma hdr_GetFdeFromPc_states:
  assumes "hs_ok env hs" and "fde_count env \<le> max_half"
  shows "\<exists>r. hdr_GetFdeFromPc env pc hs = Some r \<and> out_states (hs_ok env) r"
proof -
  obtain r where r: "GetFdeOffsetFromPc env pc hs = Some r" "out_states (hs_ok env) r"
    using GetFdeOffsetFromPc_states [OF assms] by blast
  have lookups: "out_states (hs_ok env) (on_hs (GetFdeFromOffset (hdr_sec env) off) t)"
    "out_states (hs_ok env) (on_hs (GetFdeFromPc (hdr_sec env) pc) t)"
    "out_states (hs_ok env) (on_hs (at_cursor (sec_fail k)) t)" if "hs_ok env t" for t off pc k
  proof -
    have "sec_ok (hdr_sec env) (hs_section t)" "bases_clear (sec_cursor (hs_section t))"
      using that by (auto simp: hs_ok_def sec_ok_def cache_ok_def)
    then show "out_states (hs_ok env) (on_hs (GetFdeFromOffset (hdr_sec env) off) t)"
      "out_states (hs_ok env) (on_hs (GetFdeFromPc (hdr_sec env) pc) t)"
      "out_states (hs_ok env) (on_hs (at_cursor (sec_fail k)) t)"
      using that by (auto intro!: on_hs_states sec_ok_offset_lookups sec_ok_GetFdeFromPc sec_ok_cursor
          simp: out_states_at_cursor sec_fail_def bases_clear_def)
  qed
  have "out_states (hs_ok env) (bind_out (on_hs (GetFdeFromOffset (hdr_sec env) off) t) (\<lambda>fde hs.
      bind_out (if fde_pc_start fde = fde_pc_end fde then on_hs (GetFdeFromPc (hdr_sec env) pc) hs else Ok fde hs)
        (\<lambda>fde hs. if pc < fde_pc_end fde then Ok fde hs
          else on_hs (at_cursor (sec_fail DWARF_ERROR_ILLEGAL_STATE)) hs)))" if "hs_ok env t" for t off
  proof (rule out_states_bind [OF lookups(1) [OF that]])
    fix fde t
    assume t: "hs_ok env t"
    have "out_states (hs_ok env) (if fde_pc_start fde = fde_pc_end fde then on_hs (GetFdeFromPc (hdr_sec env) pc) t else Ok fde t)"
      using t lookups(2) by simp
    then show "out_states (hs_ok env)
      (bind_out (if fde_pc_start fde = fde_pc_end fde then on_hs (GetFdeFromPc (hdr_sec env) pc) t else Ok fde t)
        (\<lambda>fde hs. if pc < fde_pc_end fde then Ok fde hs
          else on_hs (at_cursor (sec_fail DWARF_ERROR_ILLEGAL_STATE)) hs))"
      by (rule out_states_bind) (simp add: lookups(3))
  qed
  note tail = this
  show ?thesis
    unfolding hdr_GetFdeFromPc_def r(1) option.map
    by (intro exI conjI, rule refl, rule out_states_bind [OF r(2)], rule tail)
qed

text \<open>The states of the object: fresh, and after lookups.\<close>

inductive hdr_reaches :: "hdr_env \<Rightarrow> hdr_section \<Rightarrow> bool" for env where
  start: "section_reaches (hdr_sec env) s \<Longrightarrow> hdr_reaches env \<lparr>hs_section = s, fde_info = Map.empty\<rparr>"
| info: "hdr_reaches env hs \<Longrightarrow> state_of (GetFdeInfoFromIndex env i hs) = Some hs' \<Longrightarrow> hdr_reaches env hs'"
| pc: "hdr_reaches env hs \<Longrightarrow> fde_count env \<le> max_half \<Longrightarrow> hdr_GetFdeFromPc env pc hs = Some r \<Longrightarrow>
    state_of r = Some hs' \<Longrightarrow> hdr_reaches env hs'"

lemma hdr_reaches_ok: "hdr_reaches env hs \<Longrightarrow> hs_ok env hs"
proof (induction rule: hdr_reaches.induct)
  case (start s)
  then show ?case by (simp add: hs_ok_def section_reaches_ok)
next
  case (info hs i hs')
  show ?case
    by (rule out_states_state_of [OF GetFdeInfoFromIndex_reads(2) [OF info.IH] info.hyps(2)])
next
  case (pc hs pc r hs')
  have "out_states (hs_ok env) r"
    using hdr_GetFdeFromPc_states [OF pc.IH pc.hyps(2), of pc] pc.hyps(3) by simp
  then show ?case
    using pc.hyps(4) by (rule out_states_state_of)
qed

text \<open>A table sorted by pc: every entry can be read, and no pc is below the pc of an earlier entry.\<close>

definition sorted_hdr :: "hdr_env \<Rightarrow> (u64 \<Rightarrow> HdrFdeInfo) \<Rightarrow> bool" where
  "sorted_hdr env info \<longleftrightarrow>
     (\<forall>i < fde_count env. result_of (table_entry env i) = Ok (info i) ()) \<and>
     (\<forall>j < fde_count env. \<forall>i < j. info_pc (info i) \<le> info_pc (info j))"

lemma sorted_hdr_keyed:
  "sorted_hdr env info \<Longrightarrow> keyed_table (\<lambda>i. info_pc (info i)) pc (fde_count env) (table_side env pc)"
  by (auto simp: sorted_hdr_def keyed_table_def table_side_def)

lemma GetFdeInfo_in_table:
  assumes "sorted_hdr env info" and "hs_ok env hs" and "i < fde_count env"
  shows "\<exists>t. GetFdeInfoFromIndex env i hs = Ok (info i) t"
  using GetFdeInfoFromIndex_reads(1) [OF assms(2), of i] assms(1,3)
  by (cases "GetFdeInfoFromIndex env i hs") (auto simp: sorted_hdr_def)

lemma GetFdeOffsetFromPc_sorted:
  assumes ok: "hs_ok env hs" and small: "fde_count env \<le> max_half" and sorted: "sorted_hdr env info"
  shows "\<exists>r. GetFdeOffsetFromPc env pc hs = Some r \<and>
    (case result_of r of
       Ok off _ \<Rightarrow> \<exists>i. last_upto (\<lambda>i. info_pc (info i)) (fde_count env) pc i \<and> off = info_offset (info i)
     | Fail _ \<Rightarrow> \<forall>i < fde_count env. pc < info_pc (info i)
     | _ \<Rightarrow> False)"
proof (cases "fde_count env = 0")
  case True
  then show ?thesis by (simp add: GetFdeOffsetFromPc_def)
next
  case False
  note keyed = sorted_hdr_keyed [OF sorted, of pc]
  obtain p t where p: "search_loop half_sum (hdr_probe env pc) 0 (fde_count env) hs = Some (Ok p t)" "hs_ok env t"
    and pos: "at_position (table_side env pc) (fde_count env) p"
    using hdr.search_position [OF ok small keyed_table_ordered [OF keyed]] by blast
  note get = GetFdeInfo_in_table [OF sorted p(2)]
  show ?thesis
  proof (cases p)
    case (Found i)
    with position_Found [OF keyed] pos have "i < fde_count env" "last_upto (\<lambda>i. info_pc (info i)) (fde_count env) pc i"
      by auto
    with get p Found False show ?thesis
      by (fastforce simp: GetFdeOffsetFromPc_def)
  next
    case (Bound j)
    note bound = position_Bound [OF keyed pos [unfolded Bound]]
    show ?thesis
    proof (cases "j = 0")
      case True
      with bound p Bound False show ?thesis by (simp add: GetFdeOffsetFromPc_def)
    next
      case nz: False
      with bound get obtain u where "GetFdeInfoFromIndex env (j - 1) t = Ok (info (j - 1)) u" by auto
      with p Bound False nz bound show ?thesis
        by (auto simp: GetFdeOffsetFromPc_def)
    qed
  qed
qed

text \<open>
  A well-formed table: entry \<open>i\<close> holds the start and the offset of the FDE \<open>fde i\<close>, no FDE is empty, and the FDEs are
  disjoint and in ascending order.
\<close>

definition hdr_lists :: "hdr_env \<Rightarrow> (u64 \<Rightarrow> DwarfFde) \<Rightarrow> bool" where
  "hdr_lists env fde \<longleftrightarrow>
     (\<forall>i < fde_count env. fde_pc_start (fde i) < fde_pc_end (fde i) \<and>
        (\<exists>off. result_of (table_entry env i) = Ok \<lparr>info_pc = fde_pc_start (fde i), info_offset = off\<rparr> () \<and>
           read_fde (hdr_sec env) off = Ok (fde i) ())) \<and>
     (\<forall>j < fde_count env. \<forall>i < j. fde_pc_end (fde i) \<le> fde_pc_start (fde j))"

definition hdr_info :: "hdr_env \<Rightarrow> u64 \<Rightarrow> HdrFdeInfo" where
  "hdr_info env i = (case result_of (table_entry env i) of Ok info _ \<Rightarrow> info | _ \<Rightarrow> \<lparr>info_pc = 0, info_offset = 0\<rparr>)"

lemma hdr_lists_entry:
  assumes "hdr_lists env fde" and "i < fde_count env"
  shows "result_of (table_entry env i) = Ok (hdr_info env i) ()" "info_pc (hdr_info env i) = fde_pc_start (fde i)"
    "read_fde (hdr_sec env) (info_offset (hdr_info env i)) = Ok (fde i) ()" "fde_pc_start (fde i) < fde_pc_end (fde i)"
  using assms by (auto simp: hdr_lists_def hdr_info_def)

lemma hdr_lists_before:
  assumes "hdr_lists env fde" and "i < j" and "j < fde_count env"
  shows "fde_pc_end (fde i) \<le> fde_pc_start (fde j)" "fde_pc_start (fde i) < fde_pc_start (fde j)"
proof -
  show le: "fde_pc_end (fde i) \<le> fde_pc_start (fde j)"
    using assms by (auto simp: hdr_lists_def)
  have "i < fde_count env" using assms(2,3) by simp
  then show "fde_pc_start (fde i) < fde_pc_start (fde j)"
    using hdr_lists_entry(4) [OF assms(1)] le by (meson order_less_le_trans)
qed

lemma hdr_lists_sorted:
  assumes "hdr_lists env fde"
  shows "sorted_hdr env (hdr_info env)"
proof -
  have "info_pc (hdr_info env i) \<le> info_pc (hdr_info env j)" if "i < j" "j < fde_count env" for i j
    using hdr_lists_before(2) [OF assms that] hdr_lists_entry(2) [OF assms] that by (simp add: order_less_trans)
  then show ?thesis
    using hdr_lists_entry(1) [OF assms] by (simp add: sorted_hdr_def)
qed

text \<open>The FDE of the last entry not above the pc is the only one that can cover it.\<close>

lemma hdr_lists_cover:
  assumes lists: "hdr_lists env fde" and upto: "last_upto (\<lambda>i. info_pc (hdr_info env i)) (fde_count env) pc i"
    and k: "k < fde_count env" "fde_pc_start (fde k) \<le> pc" "pc < fde_pc_end (fde k)"
  shows "k = i"
proof -
  have i: "i < fde_count env" "fde_pc_start (fde i) \<le> pc" "fde_pc_start (fde k) \<le> fde_pc_start (fde i)"
    using upto k hdr_lists_entry(2) [OF lists] by (auto simp: last_upto_def)
  have "\<not> i < k" using hdr_lists_before(2) [OF lists _ k(1)] i(3) by (meson leD)
  moreover have "\<not> k < i"
    using hdr_lists_before(1) [OF lists _ i(1)] i(2) k(3) by (meson leD order_trans)
  ultimately show ?thesis by simp
qed

lemma hdr_GetFdeFromPc_lookup:
  assumes ok: "hs_ok env hs" and small: "fde_count env \<le> max_half" and lists: "hdr_lists env fde"
  shows "\<exists>r. hdr_GetFdeFromPc env pc hs = Some r \<and>
    (case result_of r of
       Ok f _ \<Rightarrow> \<exists>i < fde_count env. f = fde i \<and> fde_pc_start f \<le> pc \<and> pc < fde_pc_end f
     | Fail _ \<Rightarrow> \<forall>i < fde_count env. \<not> (fde_pc_start (fde i) \<le> pc \<and> pc < fde_pc_end (fde i))
     | _ \<Rightarrow> False)"
proof -
  note entry = hdr_lists_entry [OF lists]
  obtain r where r: "GetFdeOffsetFromPc env pc hs = Some r" "out_states (hs_ok env) r"
    using GetFdeOffsetFromPc_states [OF ok small] by blast
  have found: "case result_of r of
       Ok off _ \<Rightarrow> \<exists>i. last_upto (\<lambda>i. info_pc (hdr_info env i)) (fde_count env) pc i \<and> off = info_offset (hdr_info env i)
     | Fail _ \<Rightarrow> \<forall>i < fde_count env. pc < info_pc (hdr_info env i)
     | _ \<Rightarrow> False"
    using GetFdeOffsetFromPc_sorted [OF ok small hdr_lists_sorted [OF lists], of pc] r(1) by simp
  show ?thesis
  proof (cases r)
    case (Ok off t)
    then obtain i where i: "last_upto (\<lambda>i. info_pc (hdr_info env i)) (fde_count env) pc i" "off = info_offset (hdr_info env i)"
      using found by auto
    then have lt: "i < fde_count env" "fde_pc_start (fde i) \<le> pc"
      using entry(2) by (auto simp: last_upto_def)
    have "cache_ok (hdr_sec env) (hs_section t)"
      using r(2) Ok by (simp add: hs_ok_def sec_ok_def)
    from GetFdeFromOffset_reads(1) [OF this, of off] entry(3) [OF lt(1)]
    obtain u where u: "GetFdeFromOffset (hdr_sec env) off (hs_section t) = Ok (fde i) u"
      unfolding i(2) by (cases "GetFdeFromOffset (hdr_sec env) (info_offset (hdr_info env i)) (hs_section t)") auto
    have nonempty: "fde_pc_start (fde i) \<noteq> fde_pc_end (fde i)" using entry(4) [OF lt(1)] by simp
    have "\<not> (fde_pc_start (fde k) \<le> pc \<and> pc < fde_pc_end (fde k))" if "\<not> pc < fde_pc_end (fde i)" "k < fde_count env" for k
      using hdr_lists_cover [OF lists i(1) that(2)] that(1) by blast
    then show ?thesis
      using r(1) Ok u nonempty lt
      by (auto simp: hdr_GetFdeFromPc_def on_hs_def at_cursor_def sec_fail_def)
  next
    case (Fail t)
    then have "\<not> fde_pc_start (fde i) \<le> pc" if "i < fde_count env" for i
      using found that by (simp add: not_le flip: entry(2) [OF that])
    with Fail r(1) show ?thesis by (simp add: hdr_GetFdeFromPc_def)
  qed (use found in simp_all)
qed

section \<open>Properties\<close>

text \<open>
  C7. In a binary search table that lists its FDEs in order, looking up a pc returns the FDE that covers it
  exactly if there is one, in every state of the caches, and always ends.
\<close>

theorem hdr_GetFdeFromPc_finds:
  assumes "hdr_reaches env hs" and "fde_count env \<le> max_half" and "hdr_lists env fde"
  shows "\<exists>r. hdr_GetFdeFromPc env pc hs = Some r \<and>
    (case result_of r of
       Ok f _ \<Rightarrow> \<exists>i < fde_count env. f = fde i \<and> fde_pc_start f \<le> pc \<and> pc < fde_pc_end f
     | Fail _ \<Rightarrow> \<forall>i < fde_count env. \<not> (fde_pc_start (fde i) \<le> pc \<and> pc < fde_pc_end (fde i))
     | _ \<Rightarrow> False)"
  by (rule hdr_GetFdeFromPc_lookup [OF hdr_reaches_ok [OF assms(1)] assms(2,3)])

text \<open>The \<^verbatim>\<open>.eh_frame\<close> of the example in \<^verbatim>\<open>Section_Lookup\<close>, followed by its table.\<close>

definition hdr_example :: hdr_env where
  "hdr_example = \<lparr>hdr_sec = section_example\<lparr>sec_rd := (\<lambda>a n. take n (drop (unat a)
       (eh_frame_example @ [0x25, 0, 0, 0, 13, 0, 0, 0])))\<rparr>,
     table_encoding = 3, table_entry_size = 4, hdr_entries_offset = 29, hdr_entries_data_offset = 0,
     hdr_section_bias = 0, fde_count = 1\<rparr>"

definition fde_example :: DwarfFde where
  "fde_example = (case read_fde (hdr_sec hdr_example) 13 of Ok f _ \<Rightarrow> f)"

lemma hdr_example_lists: "hdr_lists hdr_example (\<lambda>_. fde_example)"
proof -
  have "fde_pc_start fde_example < fde_pc_end fde_example"
    "result_of (table_entry hdr_example 0) = Ok \<lparr>info_pc = fde_pc_start fde_example, info_offset = 13\<rparr> ()"
    "read_fde (hdr_sec hdr_example) 13 = Ok fde_example ()"
    by code_simp+
  moreover have "fde_count hdr_example = 1" by (simp add: hdr_example_def)
  moreover have "(i :: u64) < 1 \<longleftrightarrow> i = 0" for i by (simp add: word_less_nat_alt unat_eq_zero)
  ultimately show ?thesis by (auto simp: hdr_lists_def)
qed

lemma hdr_GetFdeFromPc_finds_witness:
  "\<exists>r. hdr_GetFdeFromPc hdr_example 0x44 \<lparr>hs_section = new_section, fde_info = Map.empty\<rparr> = Some r \<and>
    result_of r = Ok fde_example ()"
proof -
  have "fde_count hdr_example = 1" by (simp add: hdr_example_def)
  moreover have "fde_pc_start fde_example \<le> 0x44 \<and> 0x44 < fde_pc_end fde_example" by code_simp
  ultimately show ?thesis
    using hdr_GetFdeFromPc_finds [OF hdr_reaches.start [OF section_reaches.start] _ hdr_example_lists, of "0x44"]
    by (fastforce split: outcome.splits)
qed

end
