(* ===== verification/Elf_Types.thy ===== *)
theory Elf_Types
  imports Memory_Model
begin

text \<open>
  What the ELF code shares: \<^verbatim>\<open>ErrorData\<close> of \<^verbatim>\<open>include/unwindstack/Error.h\<close> and the structures of \<^verbatim>\<open>elf.h\<close> as the bytes of
  a file hold them. \<^verbatim>\<open>ElfTypes32\<close> and \<^verbatim>\<open>ElfTypes64\<close> are the two values of \<open>elf_class\<close>; a 32-bit field is
  zero-extended, and arithmetic that the code does in 32 bits is written out.
\<close>

section \<open>Errors\<close>

datatype ErrorCode =
    ERROR_NONE | ERROR_MEMORY_INVALID | ERROR_UNWIND_INFO | ERROR_UNSUPPORTED | ERROR_INVALID_MAP
  | ERROR_MAX_FRAMES_EXCEEDED | ERROR_REPEATED_FRAME | ERROR_INVALID_ELF | ERROR_THREAD_DOES_NOT_EXIST
  | ERROR_THREAD_TIMEOUT | ERROR_SYSTEM_CALL | ERROR_BAD_ARCH | ERROR_MAPS_PARSE | ERROR_INVALID_PARAMETER
  | ERROR_PTRACE_CALL

record ErrorData =
  ed_code :: ErrorCode
  ed_address :: u64

section \<open>Structures of an ELF file\<close>

lemma add_overflows_code [code]: "add_overflows a b \<longleftrightarrow> a + b < a"
proof -
  have "unat (a + b) = (if 2 ^ 64 \<le> unat a + unat b then unat a + unat b - 2 ^ 64 else unat a + unat b)"
    using unat_bound [of a] unat_bound [of b] by (simp add: unat_word_ariths mod_if)
  then show ?thesis
    using unat_bound [of b] by (auto simp: add_overflows_def word_less_nat_alt)
qed

datatype elf_class = Elf32 | Elf64

definition field :: "u8 list \<Rightarrow> nat \<Rightarrow> nat \<Rightarrow> 'a::len word" where
  "field bs off n = le_word (take n (drop off bs))"

text \<open>A value of the width of an address of the class.\<close>

definition wrap_class :: "elf_class \<Rightarrow> u64 \<Rightarrow> u64" where
  "wrap_class cls v = (case cls of Elf32 \<Rightarrow> take_bit 32 v | Elf64 \<Rightarrow> v)"

record Ehdr =
  e_phoff :: u64
  e_shoff :: u64
  e_phentsize :: u16
  e_phnum :: u16
  e_shentsize :: u16
  e_shnum :: u16
  e_shstrndx :: u16

definition sizeof_Ehdr :: "elf_class \<Rightarrow> nat" where
  "sizeof_Ehdr cls = (case cls of Elf32 \<Rightarrow> 52 | Elf64 \<Rightarrow> 64)"

definition parse_Ehdr :: "elf_class \<Rightarrow> u8 list \<Rightarrow> Ehdr" where
  "parse_Ehdr cls bs =
     (case cls of
        Elf32 \<Rightarrow> \<lparr>e_phoff = field bs 28 4, e_shoff = field bs 32 4, e_phentsize = field bs 42 2, e_phnum = field bs 44 2,
          e_shentsize = field bs 46 2, e_shnum = field bs 48 2, e_shstrndx = field bs 50 2\<rparr>
      | Elf64 \<Rightarrow> \<lparr>e_phoff = field bs 32 8, e_shoff = field bs 40 8, e_phentsize = field bs 54 2, e_phnum = field bs 56 2,
          e_shentsize = field bs 58 2, e_shnum = field bs 60 2, e_shstrndx = field bs 62 2\<rparr>)"

record Phdr =
  p_type :: u32
  p_flags :: u32
  p_offset :: u64
  p_vaddr :: u64
  p_filesz :: u64
  p_memsz :: u64

definition sizeof_Phdr :: "elf_class \<Rightarrow> nat" where
  "sizeof_Phdr cls = (case cls of Elf32 \<Rightarrow> 32 | Elf64 \<Rightarrow> 56)"

definition parse_Phdr :: "elf_class \<Rightarrow> u8 list \<Rightarrow> Phdr" where
  "parse_Phdr cls bs =
     (case cls of
        Elf32 \<Rightarrow> \<lparr>p_type = field bs 0 4, p_flags = field bs 24 4, p_offset = field bs 4 4, p_vaddr = field bs 8 4,
          p_filesz = field bs 16 4, p_memsz = field bs 20 4\<rparr>
      | Elf64 \<Rightarrow> \<lparr>p_type = field bs 0 4, p_flags = field bs 4 4, p_offset = field bs 8 8, p_vaddr = field bs 16 8,
          p_filesz = field bs 32 8, p_memsz = field bs 40 8\<rparr>)"

record Shdr =
  sh_name :: u32
  sh_type :: u32
  sh_addr :: u64
  sh_offset :: u64
  sh_size :: u64
  sh_link :: u32
  sh_entsize :: u64

definition sizeof_Shdr :: "elf_class \<Rightarrow> nat" where
  "sizeof_Shdr cls = (case cls of Elf32 \<Rightarrow> 40 | Elf64 \<Rightarrow> 64)"

definition parse_Shdr :: "elf_class \<Rightarrow> u8 list \<Rightarrow> Shdr" where
  "parse_Shdr cls bs =
     (case cls of
        Elf32 \<Rightarrow> \<lparr>sh_name = field bs 0 4, sh_type = field bs 4 4, sh_addr = field bs 12 4, sh_offset = field bs 16 4,
          sh_size = field bs 20 4, sh_link = field bs 24 4, sh_entsize = field bs 36 4\<rparr>
      | Elf64 \<Rightarrow> \<lparr>sh_name = field bs 0 4, sh_type = field bs 4 4, sh_addr = field bs 16 8, sh_offset = field bs 24 8,
          sh_size = field bs 32 8, sh_link = field bs 40 4, sh_entsize = field bs 56 8\<rparr>)"

record Sym =
  st_name :: u32
  st_info :: u8
  st_shndx :: u16
  st_value :: u64
  st_size :: u64

definition sizeof_Sym :: "elf_class \<Rightarrow> nat" where
  "sizeof_Sym cls = (case cls of Elf32 \<Rightarrow> 16 | Elf64 \<Rightarrow> 24)"

definition parse_Sym :: "elf_class \<Rightarrow> u8 list \<Rightarrow> Sym" where
  "parse_Sym cls bs =
     (case cls of
        Elf32 \<Rightarrow> \<lparr>st_name = field bs 0 4, st_info = field bs 12 1, st_shndx = field bs 14 2, st_value = field bs 4 4,
          st_size = field bs 8 4\<rparr>
      | Elf64 \<Rightarrow> \<lparr>st_name = field bs 0 4, st_info = field bs 4 1, st_shndx = field bs 6 2, st_value = field bs 8 8,
          st_size = field bs 16 8\<rparr>)"

record Dyn =
  d_tag :: u64
  d_val :: u64

definition sizeof_Dyn :: "elf_class \<Rightarrow> nat" where
  "sizeof_Dyn cls = (case cls of Elf32 \<Rightarrow> 8 | Elf64 \<Rightarrow> 16)"

definition parse_Dyn :: "elf_class \<Rightarrow> u8 list \<Rightarrow> Dyn" where
  "parse_Dyn cls bs =
     (case cls of
        Elf32 \<Rightarrow> \<lparr>d_tag = field bs 0 4, d_val = field bs 4 4\<rparr>
      | Elf64 \<Rightarrow> \<lparr>d_tag = field bs 0 8, d_val = field bs 8 8\<rparr>)"

record Nhdr =
  n_namesz :: u32
  n_descsz :: u32
  n_type :: u32

abbreviation sizeof_Nhdr :: nat where
  "sizeof_Nhdr \<equiv> 12"

definition parse_Nhdr :: "u8 list \<Rightarrow> Nhdr" where
  "parse_Nhdr bs = \<lparr>n_namesz = field bs 0 4, n_descsz = field bs 4 4, n_type = field bs 8 4\<rparr>"

definition read_struct :: "reader \<Rightarrow> u64 \<Rightarrow> nat \<Rightarrow> (u8 list \<Rightarrow> 'r) \<Rightarrow> 'r option" where
  "read_struct rd addr n parse = map_option parse (ReadFully rd addr n)"

abbreviation read_Ehdr :: "elf_class \<Rightarrow> reader \<Rightarrow> u64 \<Rightarrow> Ehdr option" where
  "read_Ehdr cls rd addr \<equiv> read_struct rd addr (sizeof_Ehdr cls) (parse_Ehdr cls)"

abbreviation read_Phdr :: "elf_class \<Rightarrow> reader \<Rightarrow> u64 \<Rightarrow> Phdr option" where
  "read_Phdr cls rd addr \<equiv> read_struct rd addr (sizeof_Phdr cls) (parse_Phdr cls)"

abbreviation read_Shdr :: "elf_class \<Rightarrow> reader \<Rightarrow> u64 \<Rightarrow> Shdr option" where
  "read_Shdr cls rd addr \<equiv> read_struct rd addr (sizeof_Shdr cls) (parse_Shdr cls)"

abbreviation read_Sym :: "elf_class \<Rightarrow> reader \<Rightarrow> u64 \<Rightarrow> Sym option" where
  "read_Sym cls rd addr \<equiv> read_struct rd addr (sizeof_Sym cls) (parse_Sym cls)"

abbreviation read_Dyn :: "elf_class \<Rightarrow> reader \<Rightarrow> u64 \<Rightarrow> Dyn option" where
  "read_Dyn cls rd addr \<equiv> read_struct rd addr (sizeof_Dyn cls) (parse_Dyn cls)"

end
