(* ===== verification/Symbols.thy ===== *)
theory Symbols
  imports Elf_Types Binary_Search "HOL-Library.Product_Lexorder"
begin

text \<open>
  \<^verbatim>\<open>libunwindstack/Symbols.cpp\<close>: looking up function names and global variables in the symbol tables of an ELF
  file, with a cache of the symbols read and a table of function indices sorted by address for files whose
  symbols are not sorted.
\<close>

section \<open>State\<close>

record SymInfo =
  si_size :: u32
  si_index :: u32
  si_name :: "u8 list option"

abbreviation kMaxSymbols :: u64 where
  "kMaxSymbols \<equiv> 1000000"

record symbols =
  sy_offset :: u64
  sy_count :: u64
  sy_entry_size :: u64
  sy_str_offset :: u64
  sy_str_end :: u64
  sy_cache :: "(u64, SymInfo) omap"
  sy_remap :: "u32 list option"
  sy_globals :: "u8 list \<rightharpoonup> u64 option"

definition Symbols_new :: "u64 \<Rightarrow> u64 \<Rightarrow> u64 \<Rightarrow> u64 \<Rightarrow> u64 \<Rightarrow> symbols" where
  "Symbols_new offset sz entry_size str_offset str_size =
     \<lparr>sy_offset = offset,
      sy_count = (if entry_size \<noteq> 0 then (if kMaxSymbols < sz div entry_size then kMaxSymbols else sz div entry_size) else 0),
      sy_entry_size = entry_size, sy_str_offset = str_offset,
      sy_str_end = (if add_overflows str_offset str_size then - 1 else str_offset + str_size),
      sy_cache = [], sy_remap = None, sy_globals = Map.empty\<rparr>"

definition Symbols_ClearCache :: "symbols \<Rightarrow> symbols" where
  "Symbols_ClearCache s = s\<lparr>sy_cache := [], sy_remap := None\<rparr>"

definition IsFunc :: "Sym \<Rightarrow> bool" where
  "IsFunc symb \<longleftrightarrow> st_shndx symb \<noteq> 0 \<and> st_info symb AND 0xf = 2"

text \<open>\<^verbatim>\<open>sym.st_value + sym.st_size\<close>, in 32 bits for \<^verbatim>\<open>Elf32_Sym\<close>.\<close>

definition sym_end :: "elf_class \<Rightarrow> Sym \<Rightarrow> u64" where
  "sym_end cls symb = wrap_class cls (st_value symb + st_size symb)"

section \<open>Searching\<close>

definition read_symbol :: "elf_class \<Rightarrow> reader \<Rightarrow> symbols \<Rightarrow> u32 \<Rightarrow> Sym option" where
  "read_symbol cls rd s symbol_index =
     (let offset = ucast symbol_index * sy_entry_size s
      in if add_overflows offset (sy_offset s) then None else read_Sym cls rd (offset + sy_offset s))"

text \<open>\<^verbatim>\<open>remap_.value()[i]\<close> with \<^verbatim>\<open>RemapIndices\<close>, else \<open>i\<close>.\<close>

definition symbol_index_at :: "bool \<Rightarrow> u32 \<Rightarrow> symbols \<Rightarrow> (u32, symbols) outcome" where
  "symbol_index_at remapped i s =
     (if \<not> remapped then Ok i s
      else case sy_remap s of
          None \<Rightarrow> Undef UB_Null
        | Some r \<Rightarrow> if unat i < length r then Ok (r ! unat i) s else Undef UB_Bounds)"

definition sym_side :: "elf_class \<Rightarrow> u64 \<Rightarrow> Sym \<Rightarrow> side" where
  "sym_side cls addr symb =
     (if addr < st_value symb then Below else if addr < sym_end cls symb then Here else Above)"

text \<open>The body of the search loop: read a symbol, enter it in the cache, compare.\<close>

definition sym_probe :: "elf_class \<Rightarrow> reader \<Rightarrow> bool \<Rightarrow> u64 \<Rightarrow> u32 \<Rightarrow> symbols \<Rightarrow> (side, symbols) outcome" where
  "sym_probe cls rd remapped addr current s =
     bind_out (symbol_index_at remapped current s) (\<lambda>symbol_index s.
       case read_symbol cls rd s symbol_index of
         None \<Rightarrow> Fail s
       | Some symb \<Rightarrow>
           Ok (sym_side cls addr symb)
             (s\<lparr>sy_cache := omap_put (sym_end cls symb)
                 \<lparr>si_size = ucast (st_size symb), si_index = current, si_name = None\<rparr> (sy_cache s)\<rparr>))"

definition symbol_count :: "bool \<Rightarrow> symbols \<Rightarrow> u32" where
  "symbol_count remapped s =
     (if remapped then (case sy_remap s of Some r \<Rightarrow> of_nat (length r) | None \<Rightarrow> 0) else ucast (sy_count s))"

text \<open>\<^verbatim>\<open>first\<close>: behind the last cached symbol that ends at or before \<open>addr\<close>.\<close>

definition first_index :: "u64 \<Rightarrow> symbols \<Rightarrow> u32" where
  "first_index addr s = (case omap_before addr (sy_cache s) of Some (k, info) \<Rightarrow> si_index info + 1 | None \<Rightarrow> 0)"

text \<open>
  The search and what it returns: the key of the \<^verbatim>\<open>Info\<close> and \<^verbatim>\<open>func_offset\<close>; \<open>None\<close> if it does not return. The symbol
  at the index found is read again where the code still has it in \<^verbatim>\<open>sym\<close>.
\<close>

definition search_symbols ::
  "elf_class \<Rightarrow> reader \<Rightarrow> bool \<Rightarrow> u64 \<Rightarrow> u32 \<Rightarrow> u32 \<Rightarrow> symbols \<Rightarrow> (u64 \<times> u64, symbols) outcome option" where
  "search_symbols cls rd remapped addr first lim s =
     map_option (\<lambda>r. bind_out r (\<lambda>p s.
       case p of
         Found i \<Rightarrow> bind_out (symbol_index_at remapped i s) (\<lambda>symbol_index s.
           case read_symbol cls rd s symbol_index of
             None \<Rightarrow> Fail s
           | Some symb \<Rightarrow> Ok (sym_end cls symb, addr - st_value symb) s)
       | Bound j \<Rightarrow> Fail s))
     (search_loop half_way (sym_probe cls rd remapped addr) first lim s)"

definition BinarySearch ::
  "elf_class \<Rightarrow> reader \<Rightarrow> bool \<Rightarrow> u64 \<Rightarrow> symbols \<Rightarrow> (u64 \<times> u64, symbols) outcome option" where
  "BinarySearch cls rd remapped addr s =
     (case omap_upper_bound addr (sy_cache s) of
        Some (k, info) \<Rightarrow>
          let sym_value = k - ucast (si_size info)
          in if sym_value \<le> addr then Some (Ok (k, addr - sym_value) s)
             else search_symbols cls rd remapped addr (first_index addr s) (si_index info) s
      | None \<Rightarrow> search_symbols cls rd remapped addr (first_index addr s) (symbol_count remapped s) s)"

section \<open>The table of function indices\<close>

text \<open>The symbols of one batch; \<open>None\<close> if the loop does not end.\<close>

partial_function (option) remap_batch ::
  "elf_class \<Rightarrow> u64 \<Rightarrow> u8 list \<Rightarrow> u64 \<Rightarrow> u64 \<Rightarrow> u64 list \<Rightarrow> u32 list \<Rightarrow> (u64 \<times> u64 list \<times> u32 list) option" where
  "remap_batch cls entry_size buffer offset symbol_idx addrs remap =
     (if offset \<le> of_nat (length buffer) - of_nat (sizeof_Sym cls) then
        let symb = parse_Sym cls (drop (unat offset) buffer)
        in remap_batch cls entry_size buffer (offset + entry_size) (symbol_idx + 1) (addrs @ [st_value symb])
             (if IsFunc symb \<and> st_size symb \<noteq> 0 then remap @ [ucast symbol_idx] else remap)
      else Some (symbol_idx, addrs, remap))"

declare remap_batch.simps [code]

partial_function (option) remap_loop ::
  "elf_class \<Rightarrow> reader \<Rightarrow> symbols \<Rightarrow> u64 \<Rightarrow> u64 list \<Rightarrow> u32 list \<Rightarrow> (u64 list \<times> u32 list) option" where
  "remap_loop cls rd s symbol_idx addrs remap =
     (if symbol_idx < sy_count s then
        let read_bytes = min 1024 ((sy_count s - symbol_idx) * sy_entry_size s); offset = symbol_idx * sy_entry_size s
        in if add_overflows offset (sy_offset s) then Some (addrs, remap)
           else
             let buffer = rd (offset + sy_offset s) (unat read_bytes)
             in if length buffer < sizeof_Sym cls then Some (addrs, remap)
                else Option.bind (remap_batch cls (sy_entry_size s) buffer 0 symbol_idx addrs remap)
                  (\<lambda>r. remap_loop cls rd s (fst r) (fst (snd r)) (snd (snd r)))
      else Some (addrs, remap))"

declare remap_loop.simps [code]

text \<open>\<^verbatim>\<open>std::unique\<close> with its predicate.\<close>

fun unique_by :: "('v \<Rightarrow> 'k) \<Rightarrow> 'v list \<Rightarrow> 'v list" where
  "unique_by f [] = []"
| "unique_by f [x] = [x]"
| "unique_by f (x # y # xs) = (if f x = f y then unique_by f (x # xs) else x # unique_by f (y # xs))"

definition sorted_remap :: "u64 list \<Rightarrow> u32 list \<Rightarrow> u32 list" where
  "sorted_remap addrs remap =
     unique_by (\<lambda>a. addrs ! unat a) (sort_key (\<lambda>a. (addrs ! unat a, a)) remap)"

definition BuildRemapTable :: "elf_class \<Rightarrow> reader \<Rightarrow> symbols \<Rightarrow> symbols option" where
  "BuildRemapTable cls rd s =
     map_option (\<lambda>(addrs, remap). s\<lparr>sy_remap := Some (sorted_remap addrs remap)\<rparr>) (remap_loop cls rd s 0 [] [])"

section \<open>Names\<close>

definition find_info :: "elf_class \<Rightarrow> reader \<Rightarrow> u64 \<Rightarrow> symbols \<Rightarrow> (u64 \<times> u64, symbols) outcome option" where
  "find_info cls rd addr s =
     (case sy_remap s of
        Some r \<Rightarrow> BinarySearch cls rd True addr s
      | None \<Rightarrow>
          Option.bind (BinarySearch cls rd False addr s) (\<lambda>r.
            case r of
              Fail s \<Rightarrow> Option.bind (BuildRemapTable cls rd s) (\<lambda>s. BinarySearch cls rd True addr (s\<lparr>sy_cache := []\<rparr>))
            | _ \<Rightarrow> Some r))"

definition read_name :: "reader \<Rightarrow> symbols \<Rightarrow> Sym \<Rightarrow> u8 list option" where
  "read_name rd s symb =
     (let str = sy_str_offset s + ucast (st_name symb)
      in if add_overflows (sy_str_offset s) (ucast (st_name symb)) \<or> sy_str_end s \<le> str then None
         else if \<not> IsFunc symb then None
         else ReadString rd str (unat (sy_str_end s - str)))"

definition cached_name :: "elf_class \<Rightarrow> reader \<Rightarrow> u64 \<Rightarrow> symbols \<Rightarrow> (u8 list, symbols) outcome" where
  "cached_name cls rd k s =
     (case map_of (sy_cache s) k of
        None \<Rightarrow> Undef UB_Null
      | Some info \<Rightarrow>
          (case si_name info of
             Some name \<Rightarrow> Ok name s
           | None \<Rightarrow>
               bind_out (symbol_index_at (sy_remap s \<noteq> None) (si_index info) s) (\<lambda>symbol_index s.
                 case Option.bind (read_symbol cls rd s symbol_index) (read_name rd s) of
                   None \<Rightarrow> Fail s
                 | Some name \<Rightarrow> Ok name (s\<lparr>sy_cache := omap_put k (info\<lparr>si_name := Some name\<rparr>) (sy_cache s)\<rparr>))))"

definition GetName :: "elf_class \<Rightarrow> reader \<Rightarrow> u64 \<Rightarrow> symbols \<Rightarrow> (u8 list \<times> u64, symbols) outcome option" where
  "GetName cls rd addr s =
     map_option (\<lambda>r. bind_out r (\<lambda>(k, func_offset) s.
       bind_out (cached_name cls rd k s) (\<lambda>name s. Ok (name, func_offset) s))) (find_info cls rd addr s)"

section \<open>Global variables\<close>

text \<open>\<open>Inl ()\<close>: malformed, give up; \<open>Inr\<close>: the value of the symbol, if there is one. The first argument is the number of symbols
  still to visit.\<close>

fun global_scan :: "nat \<Rightarrow> elf_class \<Rightarrow> reader \<Rightarrow> u8 list \<Rightarrow> u32 \<Rightarrow> symbols \<Rightarrow> unit + u64 option" where
  "global_scan 0 cls rd name i s = Inr None"
| "global_scan (Suc n) cls rd name i s =
     (case read_symbol cls rd s i of
        None \<Rightarrow> Inl ()
      | Some entry \<Rightarrow>
          if st_shndx entry \<noteq> 0 \<and> st_info entry AND 0xf = 1 \<and> drop_bit 4 (st_info entry) = 1 then
            let str_offset = sy_str_offset s + ucast (st_name entry)
            in if add_overflows (sy_str_offset s) (ucast (st_name entry)) then Inl ()
               else if str_offset < sy_str_end s \<and> ReadString rd str_offset (unat (sy_str_end s - str_offset)) = Some name
               then Inr (Some (st_value entry))
               else global_scan n cls rd name (i + 1) s
          else global_scan n cls rd name (i + 1) s)"

definition GetGlobal :: "elf_class \<Rightarrow> reader \<Rightarrow> u8 list \<Rightarrow> symbols \<Rightarrow> (u64, symbols) outcome" where
  "GetGlobal cls rd name s =
     (case sy_globals s name of
        Some (Some a) \<Rightarrow> Ok a s
      | Some None \<Rightarrow> Fail s
      | None \<Rightarrow>
          (case global_scan (unat (sy_count s)) cls rd name 0 s of
             Inl _ \<Rightarrow> Fail s
           | Inr (Some a) \<Rightarrow> Ok a (s\<lparr>sy_globals := (sy_globals s)(name \<mapsto> Some a)\<rparr>)
           | Inr None \<Rightarrow> Fail (s\<lparr>sy_globals := (sy_globals s)(name \<mapsto> None)\<rparr>)))"

end
