(* ===== verification/Symbol_Lookup.thy ===== *)
theory Symbol_Lookup
  imports Symbols
begin

text \<open>
  Looking up function names: the search ends, what it returns is a symbol that contains the address, the table
  of function indices is complete, and so the lookup finds the function that contains the address.
\<close>

section \<open>The table and the cache\<close>

text \<open>The symbol the search sees at an index.\<close>

definition sym_at :: "elf_class \<Rightarrow> reader \<Rightarrow> bool \<Rightarrow> symbols \<Rightarrow> u32 \<Rightarrow> Sym option" where
  "sym_at cls rd remapped s i =
     (case symbol_index_at remapped i s of Ok idx _ \<Rightarrow> read_symbol cls rd s idx | _ \<Rightarrow> None)"

lemma read_updates [simp]:
  "read_symbol cls rd (s\<lparr>sy_remap := r\<rparr>) = read_symbol cls rd s" "read_name rd (s\<lparr>sy_remap := r\<rparr>) = read_name rd s"
  "read_symbol cls rd (s\<lparr>sy_cache := c\<rparr>) = read_symbol cls rd s" "read_name rd (s\<lparr>sy_cache := c\<rparr>) = read_name rd s"
  "read_symbol cls rd (s\<lparr>sy_globals := g\<rparr>) = read_symbol cls rd s" "read_name rd (s\<lparr>sy_globals := g\<rparr>) = read_name rd s"
  by (simp_all add: read_symbol_def read_name_def fun_eq_iff Let_def)

text \<open>What does not change while the search runs.\<close>

definition same_table :: "symbols \<Rightarrow> symbols \<Rightarrow> bool" where
  "same_table s t \<longleftrightarrow> sy_offset t = sy_offset s \<and> sy_count t = sy_count s \<and> sy_entry_size t = sy_entry_size s \<and>
     sy_str_offset t = sy_str_offset s \<and> sy_str_end t = sy_str_end s \<and> sy_remap t = sy_remap s"

lemma same_table_simps [simp]:
  "same_table s s"
  "same_table s (t\<lparr>sy_cache := c\<rparr>) \<longleftrightarrow> same_table s t"
  by (simp_all add: same_table_def)

lemma same_table_reads:
  assumes "same_table s t"
  shows "read_symbol cls rd t = read_symbol cls rd s" "sym_at cls rd remapped t = sym_at cls rd remapped s"
    "read_name rd t = read_name rd s" "symbol_count remapped t = symbol_count remapped s"
proof -
  show read: "read_symbol cls rd t = read_symbol cls rd s" "read_name rd t = read_name rd s"
    "symbol_count remapped t = symbol_count remapped s"
    using assms by (auto simp: same_table_def read_symbol_def read_name_def symbol_count_def fun_eq_iff Let_def)
  show "sym_at cls rd remapped t = sym_at cls rd remapped s"
    using assms read by (auto simp: fun_eq_iff sym_at_def symbol_index_at_def same_table_def split: option.split)
qed

text \<open>An entry of the cache is the symbol at its index, and its name is the name of the symbol.\<close>

definition entry_ok :: "elf_class \<Rightarrow> reader \<Rightarrow> bool \<Rightarrow> symbols \<Rightarrow> u64 \<times> SymInfo \<Rightarrow> bool" where
  "entry_ok cls rd remapped s = (\<lambda>(k, info). si_index info < symbol_count remapped s \<and>
     (\<exists>symb. sym_at cls rd remapped s (si_index info) = Some symb \<and> k = sym_end cls symb \<and>
       si_size info = ucast (st_size symb) \<and>
       (\<forall>name. si_name info = Some name \<longrightarrow> read_name rd s symb = Some name)))"

definition sym_cache_ok :: "elf_class \<Rightarrow> reader \<Rightarrow> bool \<Rightarrow> symbols \<Rightarrow> bool" where
  "sym_cache_ok cls rd remapped s \<longleftrightarrow> omap_invar (sy_cache s) \<and> (\<forall>e \<in> set (sy_cache s). entry_ok cls rd remapped s e)"

lemma entry_ok_same: "same_table s t \<Longrightarrow> entry_ok cls rd remapped t = entry_ok cls rd remapped s"
  by (simp add: fun_eq_iff entry_ok_def same_table_reads)

lemma sym_cache_ok_put:
  assumes "sym_cache_ok cls rd remapped s" and "entry_ok cls rd remapped s (k, info)"
  shows "sym_cache_ok cls rd remapped (s\<lparr>sy_cache := omap_put k info (sy_cache s)\<rparr>)"
  using assms entry_ok_same [of s "s\<lparr>sy_cache := omap_put k info (sy_cache s)\<rparr>"]
  by (auto simp: sym_cache_ok_def omap_put_set omap_put_invar)

text \<open>The body of the loop.\<close>

lemma symbol_index_state: "symbol_index_at remapped i s = Ok idx t \<Longrightarrow> t = s"
  by (auto simp: symbol_index_at_def split: if_splits option.splits)

lemma sym_probe_some:
  assumes "sym_at cls rd remapped s i = Some symb"
  shows "sym_probe cls rd remapped addr i s =
    Ok (sym_side cls addr symb) (s\<lparr>sy_cache := omap_put (sym_end cls symb)
      \<lparr>si_size = ucast (st_size symb), si_index = i, si_name = None\<rparr> (sy_cache s)\<rparr>)"
  using assms
  by (auto simp: sym_at_def sym_probe_def dest: symbol_index_state split: outcome.splits)

lemma sym_probe_none:
  assumes "sym_at cls rd remapped s i = None"
  shows "out_states ((=) s) (sym_probe cls rd remapped addr i s) \<and> (\<forall>d t. sym_probe cls rd remapped addr i s \<noteq> Ok d t)"
  using assms
  by (cases "symbol_index_at remapped i s")
    (auto simp: sym_at_def sym_probe_def symbol_index_at_def split: outcome.splits if_splits option.splits)

definition sym_inv :: "elf_class \<Rightarrow> reader \<Rightarrow> bool \<Rightarrow> symbols \<Rightarrow> symbols \<Rightarrow> bool" where
  "sym_inv cls rd remapped s t \<longleftrightarrow> same_table s t \<and> sym_cache_ok cls rd remapped t"

interpretation sym: probed_table half_way "symbol_count remapped s" "sym_probe cls rd remapped addr" "sym_inv cls rd remapped s"
    "\<lambda>i. map_option (sym_side cls addr) (sym_at cls rd remapped s i)" for cls rd remapped addr s
proof (unfold_locales, rule half_way_between)
  fix t i d
  assume t: "sym_inv cls rd remapped s t"
  then have at: "sym_at cls rd remapped t = sym_at cls rd remapped s" "symbol_count remapped t = symbol_count remapped s"
    by (simp_all add: sym_inv_def same_table_reads [of s t])
  show "\<exists>u. sym_probe cls rd remapped addr i t = Ok d u \<and> sym_inv cls rd remapped s u"
    if "i < symbol_count remapped s" "map_option (sym_side cls addr) (sym_at cls rd remapped s i) = Some d"
    using that t at sym_probe_some [of cls rd remapped t i _ addr]
    by (auto simp: sym_inv_def entry_ok_def intro!: sym_cache_ok_put)
  show "out_states (sym_inv cls rd remapped s) (sym_probe cls rd remapped addr i t) \<and>
      (\<forall>d u. sym_probe cls rd remapped addr i t \<noteq> Ok d u)"
    if "i < symbol_count remapped s" "map_option (sym_side cls addr) (sym_at cls rd remapped s i) = None"
    using that t at sym_probe_none [of cls rd remapped t i addr] by (auto elim: out_states_mono)
qed simp

section \<open>What the search returns\<close>

definition contains :: "elf_class \<Rightarrow> Sym \<Rightarrow> u64 \<Rightarrow> bool" where
  "contains cls symb addr \<longleftrightarrow> st_value symb \<le> addr \<and> addr < sym_end cls symb"

lemma sym_side_Here [simp]: "sym_side cls addr symb = Here \<longleftrightarrow> contains cls symb addr"
  by (auto simp: sym_side_def contains_def)

text \<open>The index of an entry of the cache and the symbol there.\<close>

definition hit :: "elf_class \<Rightarrow> reader \<Rightarrow> bool \<Rightarrow> u64 \<Rightarrow> u64 \<times> u64 \<Rightarrow> symbols \<Rightarrow> bool" where
  "hit cls rd remapped addr v t \<longleftrightarrow> (\<exists>info symb. map_of (sy_cache t) (fst v) = Some info \<and>
     si_index info < symbol_count remapped t \<and> sym_at cls rd remapped t (si_index info) = Some symb \<and> contains cls symb addr \<and> fst v = sym_end cls symb \<and>
     snd v = addr - st_value symb)"

text \<open>Sizes fit the 32 bits of the cache, and no symbol wraps around the end of the address space.\<close>

definition sizes_ok :: "elf_class \<Rightarrow> reader \<Rightarrow> bool \<Rightarrow> symbols \<Rightarrow> bool" where
  "sizes_ok cls rd remapped s \<longleftrightarrow> (\<forall>i < symbol_count remapped s. \<forall>symb. sym_at cls rd remapped s i = Some symb \<longrightarrow>
     st_size symb < 2 ^ 32 \<and> sym_end cls symb = st_value symb + st_size symb)"

lemma cached_value:
  assumes "entry_ok cls rd remapped s (k, info)" and "sizes_ok cls rd remapped s"
  obtains symb where "si_index info < symbol_count remapped s" "sym_at cls rd remapped s (si_index info) = Some symb" "k = sym_end cls symb"
    "k - ucast (si_size info) = st_value symb"
proof -
  obtain symb where symb: "si_index info < symbol_count remapped s" "sym_at cls rd remapped s (si_index info) = Some symb"
    "k = sym_end cls symb" "si_size info = ucast (st_size symb)"
    using assms(1) by (auto simp: entry_ok_def)
  then have size: "st_size symb < 2 ^ 32" and sum: "sym_end cls symb = st_value symb + st_size symb"
    using assms(2) by (auto simp: sizes_ok_def)
  have "ucast (ucast (st_size symb) :: u32) = st_size symb"
    using size by (simp add: word_unat_eq_iff unsigned_ucast_eq unsigned_take_bit_eq take_bit_nat_eq_self word_less_nat_alt)
  with symb sum show ?thesis by (intro that) auto
qed

lemma omap_map_of: "omap_invar xs \<Longrightarrow> (k, v) \<in> set xs \<Longrightarrow> map_of xs k = Some v"
  by (rule map_of_is_SomeI) (auto simp: omap_invar_def strict_sorted_iff)

lemma search_symbols_hits:
  assumes "sym_cache_ok cls rd remapped s" and max: "lim \<le> symbol_count remapped s"
  shows "\<exists>r. search_symbols cls rd remapped addr first lim s = Some r \<and> out_states (sym_inv cls rd remapped s) r \<and>
    (\<forall>v t. r = Ok v t \<longrightarrow> hit cls rd remapped addr v t)"
proof -
  have inv: "sym_inv cls rd remapped s s" using assms by (simp add: sym_inv_def)
  obtain q where q: "search_loop half_way (sym_probe cls rd remapped addr) first lim s = Some q"
      "out_states (sym_inv cls rd remapped s) q"
    using sym.search_returns [OF inv max] by blast
  show ?thesis
  proof (cases "\<exists>i t. q = Ok (Found i) t")
    case False
    with q show ?thesis
      by (cases q) (auto simp: search_symbols_def split: position.splits)
  next
    case True
    then obtain i t where found: "q = Ok (Found i) t" by blast
    from sym.search_found [OF q(1) [unfolded found] inv max]
    obtain u where u: "sym_inv cls rd remapped s u" "sym_probe cls rd remapped addr i u = Ok Here t" "i < lim" by blast
    then obtain symb where symb: "sym_at cls rd remapped u i = Some symb"
      using sym_probe_none [of cls rd remapped u i addr] by (cases "sym_at cls rd remapped u i") auto
    have t: "same_table s t" "same_table u t" "sym_at cls rd remapped t i = Some symb" "contains cls symb addr"
      using u q(2) found sym_probe_some [OF symb, of addr] same_table_reads(2) [of s u cls rd remapped] symb
        same_table_reads(2) [of s t cls rd remapped]
      by (auto simp: sym_inv_def same_table_def)
    have cache: "map_of (sy_cache t) (sym_end cls symb) = Some \<lparr>si_size = ucast (st_size symb), si_index = i, si_name = None\<rparr>"
      using u sym_probe_some [OF symb, of addr]
      by (auto simp: sym_inv_def sym_cache_ok_def omap_put_set omap_put_invar intro!: omap_map_of)
    have "sym_at cls rd remapped s i = Some symb"
      using t(1,3) by (simp add: same_table_reads)
    moreover obtain idx where "symbol_index_at remapped i t = Ok idx t" "read_symbol cls rd t idx = Some symb"
      using t(3) symbol_index_state by (fastforce simp: sym_at_def split: outcome.splits)
    moreover have "i < symbol_count remapped t"
      using u(3) max same_table_reads(4) [OF t(1)] by (simp add: order_less_le_trans)
    ultimately show ?thesis
      using q found t cache by (auto simp: search_symbols_def hit_def)
  qed
qed

text \<open>
  The search ends; what it returns is a symbol that contains the address, either one of the cache or one with an
  index below the number of symbols.
\<close>

lemma BinarySearch_hits:
  assumes ok: "sym_cache_ok cls rd remapped s" and sizes: "sizes_ok cls rd remapped s"
  shows "\<exists>r. BinarySearch cls rd remapped addr s = Some r \<and> out_states (sym_inv cls rd remapped s) r \<and>
    (\<forall>v t. r = Ok v t \<longrightarrow> hit cls rd remapped addr v t)"
proof (cases "omap_upper_bound addr (sy_cache s)")
  case None
  then show ?thesis
    using search_symbols_hits [OF ok order_refl, of addr "first_index addr s"] by (simp add: BinarySearch_def)
next
  case (Some e)
  obtain k info where e: "e = (k, info)" by (cases e)
  have invar: "omap_invar (sy_cache s)" using ok by (simp add: sym_cache_ok_def)
  have k: "(k, info) \<in> set (sy_cache s)" "addr < k"
    using Some by (auto simp: e omap_upper_bound_Some [OF invar])
  then have "entry_ok cls rd remapped s (k, info)" using ok by (simp add: sym_cache_ok_def)
  then obtain symb where symb: "sym_at cls rd remapped s (si_index info) = Some symb" "k = sym_end cls symb"
    "k - ucast (si_size info) = st_value symb" "si_index info < symbol_count remapped s"
    using cached_value sizes by metis
  show ?thesis
  proof (cases "k - ucast (si_size info) \<le> addr")
    case True
    then have "hit cls rd remapped addr (k, addr - st_value symb) s"
      using symb k omap_map_of [OF invar k(1)] by (auto simp: hit_def contains_def)
    then show ?thesis
      using True Some e symb(3) ok by (simp add: BinarySearch_def Let_def sym_inv_def)
  next
    case False
    then show ?thesis
      using search_symbols_hits [OF ok less_imp_le [OF symb(4)], of addr "first_index addr s"] Some e
      by (simp add: BinarySearch_def Let_def)
  qed
qed

section \<open>Searching a sorted table\<close>

text \<open>The indices below the count have non-empty symbols in ascending order, disjoint from each other.\<close>

definition sorted_symbols :: "elf_class \<Rightarrow> reader \<Rightarrow> bool \<Rightarrow> symbols \<Rightarrow> (u32 \<Rightarrow> Sym) \<Rightarrow> bool" where
  "sorted_symbols cls rd remapped s symb \<longleftrightarrow>
     (\<forall>i < symbol_count remapped s. sym_at cls rd remapped s i = Some (symb i)) \<and>
     (\<forall>i < symbol_count remapped s. st_value (symb i) < sym_end cls (symb i)) \<and>
     (\<forall>j < symbol_count remapped s. \<forall>i < j. sym_end cls (symb i) \<le> st_value (symb j))"

lemma sorted_symbolsD:
  assumes "sorted_symbols cls rd remapped s symb" and "j < symbol_count remapped s"
  shows "sym_at cls rd remapped s j = Some (symb j)" "st_value (symb j) < sym_end cls (symb j)"
    "i < j \<Longrightarrow> sym_end cls (symb i) \<le> st_value (symb j)"
  using assms by (auto simp: sorted_symbols_def)

lemma sorted_symbols_sides:
  assumes sorted: "sorted_symbols cls rd remapped s symb" and ij: "i < j" "j < symbol_count remapped s"
  shows "sym_side cls addr (symb i) = Below \<Longrightarrow> sym_side cls addr (symb j) = Below"
    and "sym_side cls addr (symb j) = Above \<Longrightarrow> sym_side cls addr (symb i) = Above"
proof -
  have i: "i < symbol_count remapped s" using ij by (rule order_less_trans)
  have "st_value (symb i) < sym_end cls (symb i)" "sym_end cls (symb i) \<le> st_value (symb j)"
      "st_value (symb j) < sym_end cls (symb j)"
    using sorted_symbolsD [OF sorted i] sorted_symbolsD [OF sorted ij(2)] ij(1) by auto
  then show "sym_side cls addr (symb i) = Below \<Longrightarrow> sym_side cls addr (symb j) = Below"
    "sym_side cls addr (symb j) = Above \<Longrightarrow> sym_side cls addr (symb i) = Above"
    by (auto simp: sym_side_def split: if_splits)
qed

lemma sorted_symbols_ordered:
  assumes sorted: "sorted_symbols cls rd remapped s symb"
  shows "ordered_table (\<lambda>i. map_option (sym_side cls addr) (sym_at cls rd remapped s i)) (symbol_count remapped s)"
  by (rule ordered_tableI [where f = "\<lambda>i. sym_side cls addr (symb i)"])
    (auto simp: sorted_symbolsD(1) [OF sorted] dest: sorted_symbols_sides [OF sorted])

text \<open>The part of the table the cache leaves to search.\<close>

lemma cached_before:
  assumes ok: "sym_cache_ok cls rd remapped s" and sorted: "sorted_symbols cls rd remapped s symb"
  shows "first_index addr s \<le> symbol_count remapped s" "\<forall>i < first_index addr s. sym_side cls addr (symb i) = Above"
proof -
  have "first_index addr s \<le> symbol_count remapped s \<and> (\<forall>i < first_index addr s. sym_side cls addr (symb i) = Above)"
  proof (cases "omap_before addr (sy_cache s)")
    case None
    then show ?thesis by (simp add: first_index_def)
  next
    case (Some e)
    obtain k info where e: "e = (k, info)" by (cases e)
    have "entry_ok cls rd remapped s (k, info)" and k: "k \<le> addr"
      using ok omap_before_Some [OF Some [unfolded e]] by (auto simp: sym_cache_ok_def)
    then have idx: "si_index info < symbol_count remapped s" "k = sym_end cls (symb (si_index info))"
      using sorted_symbolsD(1) [OF sorted] by (auto simp: entry_ok_def)
    then have above: "sym_side cls addr (symb (si_index info)) = Above"
      using k sorted_symbolsD(2) [OF sorted idx(1)] by (auto simp: sym_side_def)
    have Suc: "unat (si_index info + 1) = unat (si_index info) + 1"
      using idx(1) unat_bound [of "symbol_count remapped s"] by (simp add: word_less_nat_alt unat_word_ariths)
    have "i = si_index info \<or> i < si_index info" if "i < si_index info + 1" for i
      using that Suc by (auto simp: word_less_nat_alt word_unat_eq_iff)
    then show ?thesis
      using Some e Suc idx(1) above sorted_symbols_sides(2) [OF sorted _ idx(1) above]
      by (auto simp: first_index_def word_le_nat_alt word_less_nat_alt)
  qed
  then show "first_index addr s \<le> symbol_count remapped s" "\<forall>i < first_index addr s. sym_side cls addr (symb i) = Above"
    by auto
qed

text \<open>The search finds the symbol that contains the address exactly if there is one.\<close>

definition finds :: "elf_class \<Rightarrow> reader \<Rightarrow> bool \<Rightarrow> u64 \<Rightarrow> symbols \<Rightarrow> (u32 \<Rightarrow> Sym) \<Rightarrow> (u64 \<times> u64, symbols) outcome option \<Rightarrow> bool" where
  "finds cls rd remapped addr s symb q \<longleftrightarrow> (\<exists>t. sym_inv cls rd remapped s t \<and>
     ((\<exists>v. q = Some (Ok v t) \<and> hit cls rd remapped addr v t) \<or>
      q = Some (Fail t) \<and> (\<forall>i < symbol_count remapped s. \<not> contains cls (symb i) addr)))"

lemma search_symbols_sorted:
  assumes ok: "sym_cache_ok cls rd remapped s" and sorted: "sorted_symbols cls rd remapped s symb"
    and range: "first \<le> lim" "lim \<le> symbol_count remapped s" "\<forall>i < first. sym_side cls addr (symb i) = Above"
    "\<forall>i < symbol_count remapped s. lim \<le> i \<longrightarrow> sym_side cls addr (symb i) = Below"
  shows "finds cls rd remapped addr s symb (search_symbols cls rd remapped addr first lim s)"
proof -
  let ?entry = "\<lambda>i. map_option (sym_side cls addr) (sym_at cls rd remapped s i)"
  note entry = sorted_symbolsD(1) [OF sorted]
  have inv: "sym_inv cls rd remapped s s" using ok by (simp add: sym_inv_def)
  have count: "i < symbol_count remapped s" if "i < first" for i
    using that range(1,2) by (meson order_less_le_trans)
  obtain p t where p: "search_loop half_way (sym_probe cls rd remapped addr) first lim s = Some (Ok p t)"
      "sym_inv cls rd remapped s t" "at_position ?entry (symbol_count remapped s) p"
    using sym.search_position_range [OF inv _ sorted_symbols_ordered [OF sorted] range(1,2), of addr] range(3,4) entry count
    by auto
  obtain r where r: "search_symbols cls rd remapped addr first lim s = Some r"
      "\<And>v t. r = Ok v t \<Longrightarrow> hit cls rd remapped addr v t"
    using search_symbols_hits [OF ok range(2), of addr first] by blast
  show ?thesis
  proof (cases p)
    case (Found i)
    then obtain y where y: "sym_at cls rd remapped s i = Some y"
      using p(3) by auto
    then have "sym_at cls rd remapped t i = Some y"
      using p(2) same_table_reads(2) [of s t] by (simp add: sym_inv_def)
    then obtain idx where "symbol_index_at remapped i t = Ok idx t" "read_symbol cls rd t idx = Some y"
      using symbol_index_state by (fastforce simp: sym_at_def split: outcome.splits)
    with p(1) Found have "search_symbols cls rd remapped addr first lim s = Some (Ok (sym_end cls y, addr - st_value y) t)"
      by (simp add: search_symbols_def)
    with r p(2) show ?thesis by (auto simp: finds_def)
  next
    case (Bound j)
    have "\<not> contains cls (symb i) addr" if "i < symbol_count remapped s" for i
    proof -
      have "?entry i = Some Above \<or> ?entry i = Some Below"
        using p(3) Bound that by (cases "i < j") auto
      then show ?thesis
        using entry [OF that] by (auto simp: contains_def sym_side_def split: if_splits)
    qed
    with p(1,2) Bound show ?thesis by (auto simp: finds_def search_symbols_def)
  qed
qed

lemma BinarySearch_sorted:
  assumes ok: "sym_cache_ok cls rd remapped s" and sizes: "sizes_ok cls rd remapped s"
    and sorted: "sorted_symbols cls rd remapped s symb"
  shows "finds cls rd remapped addr s symb (BinarySearch cls rd remapped addr s)"
proof (cases "omap_upper_bound addr (sy_cache s)")
  case None
  then show ?thesis
    using search_symbols_sorted [OF ok sorted cached_before(1) [OF ok sorted] _ cached_before(2) [OF ok sorted], of addr]
    by (auto simp: BinarySearch_def dest: leD)
next
  case (Some e)
  obtain k info where e: "e = (k, info)" by (cases e)
  have invar: "omap_invar (sy_cache s)" using ok by (simp add: sym_cache_ok_def)
  have k: "(k, info) \<in> set (sy_cache s)" "addr < k"
    using Some by (auto simp: e omap_upper_bound_Some [OF invar])
  then have "entry_ok cls rd remapped s (k, info)" using ok by (simp add: sym_cache_ok_def)
  then obtain y where y: "sym_at cls rd remapped s (si_index info) = Some y" "k - ucast (si_size info) = st_value y"
      "si_index info < symbol_count remapped s"
    using cached_value sizes by metis
  have idx: "si_index info < symbol_count remapped s" "y = symb (si_index info)"
    using y sorted_symbolsD(1) [OF sorted] by auto
  show ?thesis
  proof (cases "k - ucast (si_size info) \<le> addr")
    case True
    then have "BinarySearch cls rd remapped addr s = Some (Ok (k, addr - st_value y) s)"
      using Some e y by (simp add: BinarySearch_def Let_def)
    moreover have "\<exists>r. BinarySearch cls rd remapped addr s = Some r \<and> (\<forall>v t. r = Ok v t \<longrightarrow> hit cls rd remapped addr v t)"
      using BinarySearch_hits [OF ok sizes] by blast
    ultimately show ?thesis using ok by (auto simp: finds_def sym_inv_def)
  next
    case False
    then have below: "sym_side cls addr (symb (si_index info)) = Below"
      using y idx(2) by (auto simp: sym_side_def)
    have "\<forall>i < symbol_count remapped s. si_index info \<le> i \<longrightarrow> sym_side cls addr (symb i) = Below"
      using sorted_symbols_sides(1) [OF sorted _ _ below] below by (auto simp: order_le_less)
    moreover have "first_index addr s \<le> si_index info"
      using cached_before(2) [OF ok sorted, of addr] below by (metis not_le side.distinct(5))
    ultimately show ?thesis
      using search_symbols_sorted [OF ok sorted, of "first_index addr s" "si_index info" addr] idx(1)
        cached_before(2) [OF ok sorted, of addr] False Some e
      by (simp add: BinarySearch_def Let_def less_imp_le)
  qed
qed

end
