(* ===== verification/Symbol_Remap.thy ===== *)
theory Symbol_Remap
  imports Symbol_Lookup
begin

text \<open>
  The table \<^verbatim>\<open>BuildRemapTable\<close> builds: it lists a function symbol for every address at which one starts, in the
  order of the addresses.
\<close>

section \<open>Reading all symbols in batches\<close>

text \<open>The symbols of a table that can be read, by index.\<close>

definition symbol_table :: "elf_class \<Rightarrow> reader \<Rightarrow> symbols \<Rightarrow> (nat \<Rightarrow> Sym) \<Rightarrow> bool" where
  "symbol_table cls rd s tab \<longleftrightarrow> sy_count s \<le> kMaxSymbols \<and> sizeof_Sym cls \<le> unat (sy_entry_size s) \<and>
     unat (sy_count s) * unat (sy_entry_size s) < 2 ^ 64 \<and>
     (\<forall>i < unat (sy_count s). read_symbol cls rd s (of_nat i) = Some (tab i))"

definition is_function :: "Sym \<Rightarrow> bool" where
  "is_function symb \<longleftrightarrow> IsFunc symb \<and> st_size symb \<noteq> 0"

definition function_indices :: "(nat \<Rightarrow> Sym) \<Rightarrow> nat \<Rightarrow> u32 list" where
  "function_indices tab n = map of_nat (filter (\<lambda>i. is_function (tab i)) [0 ..< n])"

lemma function_indices_Suc:
  "function_indices tab (Suc n) = function_indices tab n @ (if is_function (tab n) then [of_nat n] else [])"
  by (simp add: function_indices_def)

lemma parse_Sym_take: "parse_Sym cls (take (sizeof_Sym cls) bs) = parse_Sym cls bs"
  by (cases cls) (simp_all add: parse_Sym_def sizeof_Sym_def field_def drop_take)

lemma sizeof_Sym_pos: "0 < sizeof_Sym cls" "sizeof_Sym cls \<le> 24"
  by (cases cls; simp add: sizeof_Sym_def)+

lemma of_nat_le_u64: "a < 2 ^ 64 \<Longrightarrow> b < 2 ^ 64 \<Longrightarrow> of_nat a \<le> (of_nat b :: u64) \<longleftrightarrow> a \<le> b"
  by (simp add: word_of_nat_less_eq_iff take_bit_nat_eq_self)

lemma unat_of_nat_u64: "a < 2 ^ 64 \<Longrightarrow> unat (of_nat a :: u64) = a"
  by (simp add: unsigned_of_nat take_bit_nat_eq_self)

lemma ucast_of_nat_u32: "ucast (of_nat m :: u64) = (of_nat m :: u32)"
  by (simp add: word_unat_eq_iff unsigned_ucast_eq unsigned_take_bit_eq unsigned_of_nat)

text \<open>A batch of \<open>n\<close> symbols from the one with index \<open>i\<close> on.\<close>

lemma remap_batch_run:
  assumes e: "0 < unat e" and size: "sizeof_Sym cls \<le> length buffer" "length buffer \<le> 1024"
    and n: "n = (length buffer - sizeof_Sym cls) div unat e + 1" and wrap: "n * unat e < 2 ^ 64"
    and tab: "\<And>j. j < n \<Longrightarrow> parse_Sym cls (drop (j * unat e) buffer) = tab (i + j)"
    and start: "k \<le> n"
  shows "remap_batch cls e buffer (of_nat (k * unat e)) (of_nat (i + k))
      (map (\<lambda>j. st_value (tab j)) [0 ..< i + k]) (function_indices tab (i + k)) =
    Some (of_nat (i + n), map (\<lambda>j. st_value (tab j)) [0 ..< i + n], function_indices tab (i + n))"
proof -
  have bound: "j * unat e < 2 ^ 64" if "j \<le> n" for j
    using that wrap by (meson le_less_trans mult_le_mono1)
  have limit: "(of_nat (length buffer) - of_nat (sizeof_Sym cls) :: u64) = of_nat (length buffer - sizeof_Sym cls)"
    using size by simp
  have cond: "of_nat (j * unat e) \<le> (of_nat (length buffer) - of_nat (sizeof_Sym cls) :: u64) \<longleftrightarrow> j < n" if "j \<le> n" for j
  proof -
    have "of_nat (j * unat e) \<le> (of_nat (length buffer - sizeof_Sym cls) :: u64) \<longleftrightarrow> j * unat e \<le> length buffer - sizeof_Sym cls"
      using size(2) by (intro of_nat_le_u64 bound [OF that]) simp
    then show ?thesis
      unfolding limit
      by (simp only: n Suc_eq_plus1 [symmetric] less_Suc_eq_le less_eq_div_iff_mult_less_eq [OF e])
  qed
  show ?thesis
    using start
proof (induction "n - k" arbitrary: k)
  case (0 k)
  then have "k = n" by simp
  with cond [of n] show ?case
    by (subst remap_batch.simps) simp
next
  case (Suc m k)
  then have k: "k < n" "m = n - Suc k" "Suc k \<le> n" by auto
  have "unat (of_nat (k * unat e) :: u64) = k * unat e"
    using bound [of k] k(1) by (intro unat_of_nat_u64) simp
  then have parse: "parse_Sym cls (drop (unat (of_nat (k * unat e) :: u64)) buffer) = tab (i + k)"
    using tab [OF k(1)] by simp
  have idx: "ucast (of_nat (i + k) :: u64) = (of_nat (i + k) :: u32)"
    by (rule ucast_of_nat_u32)
  have next_offset: "of_nat (k * unat e) + e = of_nat (Suc k * unat e)" by simp
  have go: "of_nat (k * unat e) \<le> (of_nat (length buffer) - of_nat (sizeof_Sym cls) :: u64)"
    using cond [of k] k by simp
  show ?case
    using Suc.hyps(1) [OF k(2,3)] go
    by (subst remap_batch.simps) (simp only: if_True Let_def parse idx next_offset; auto simp: function_indices_Suc is_function_def add_ac cong: if_cong)
  qed
qed

text \<open>The address of a symbol, and a batch of bytes from there on.\<close>

definition symbol_address :: "symbols \<Rightarrow> nat \<Rightarrow> u64" where
  "symbol_address s i = of_nat i * sy_entry_size s + sy_offset s"

lemma read_symbol_nat:
  assumes "symbol_table cls rd s tab" and "i < unat (sy_count s)"
  shows "\<not> add_overflows (of_nat i * sy_entry_size s) (sy_offset s)"
    "read_Sym cls rd (symbol_address s i) = Some (tab i)"
proof -
  have "unat (sy_count s) \<le> unat kMaxSymbols"
    using assms(1) by (simp only: symbol_table_def word_le_nat_alt)
  then have "i < 2 ^ 32" using assms(2) by simp
  then have "ucast (of_nat i :: u32) = (of_nat i :: u64)"
    by (simp add: word_unat_eq_iff unsigned_ucast_eq unsigned_of_nat take_bit_nat_eq_self)
  moreover have "read_symbol cls rd s (of_nat i) = Some (tab i)"
    using assms by (simp add: symbol_table_def)
  ultimately show "\<not> add_overflows (of_nat i * sy_entry_size s) (sy_offset s)"
    "read_Sym cls rd (symbol_address s i) = Some (tab i)"
    by (auto simp: read_symbol_def symbol_address_def Let_def split: if_splits)
qed

lemma symbol_address_add: "symbol_address s (i + j) = symbol_address s i + of_nat (j * unat (sy_entry_size s))"
  by (simp add: symbol_address_def algebra_simps)

lemma flat_read_within:
  assumes "o' + k \<le> length (flat_read content a n)"
  shows "take k (drop o' (flat_read content a n)) = flat_read content (a + of_nat o') k"
proof (rule flat_read_eqI [symmetric])
  fix i
  assume "i < length (take k (drop o' (flat_read content a n)))"
  then have i: "i < k" "o' + i < length (flat_read content a n)" using assms by auto
  from flat_read_nth [OF i(2)] show "content (a + of_nat o' + of_nat i) = Some (take k (drop o' (flat_read content a n)) ! i)"
    using i assms by (simp add: add.assoc)
qed (use assms in auto)

lemma batch_symbols:
  assumes tab: "symbol_table cls rd s tab" and flat: "flat_memory rd content" and i: "i < unat (sy_count s)"
    and j: "i + j < unat (sy_count s)" "j * unat (sy_entry_size s) + sizeof_Sym cls \<le> length (rd (symbol_address s i) n)"
  shows "parse_Sym cls (drop (j * unat (sy_entry_size s)) (rd (symbol_address s i) n)) = tab (i + j)"
proof -
  note rd = flat_memory.rd_flat [OF flat]
  have "read_Sym cls rd (symbol_address s (i + j)) = Some (tab (i + j))"
    by (rule read_symbol_nat(2) [OF tab j(1)])
  then have "parse_Sym cls (flat_read content (symbol_address s (i + j)) (sizeof_Sym cls)) = tab (i + j)"
    by (auto simp: read_struct_def ReadFully_def rd Let_def split: if_splits)
  then have "parse_Sym cls (take (sizeof_Sym cls) (drop (j * unat (sy_entry_size s)) (rd (symbol_address s i) n))) = tab (i + j)"
    using flat_read_within [OF j(2) [unfolded rd]] by (simp add: rd symbol_address_add)
  then show ?thesis by (simp add: parse_Sym_take)
qed

lemma batch_length:
  assumes tab: "symbol_table cls rd s tab" and flat: "flat_memory rd content" and i: "i < unat (sy_count s)"
    and n: "sizeof_Sym cls \<le> n"
  shows "sizeof_Sym cls \<le> length (rd (symbol_address s i) n)" "length (rd (symbol_address s i) n) \<le> n"
proof -
  note rd = flat_memory.rd_flat [OF flat]
  have "length (flat_read content (symbol_address s i) (sizeof_Sym cls)) = sizeof_Sym cls"
    using read_symbol_nat(2) [OF tab i] by (auto simp: read_struct_def ReadFully_def rd Let_def split: if_splits)
  then have "length (take (sizeof_Sym cls) (rd (symbol_address s i) n)) = sizeof_Sym cls"
    using flat_read_take [OF n] by (simp add: rd)
  then show "sizeof_Sym cls \<le> length (rd (symbol_address s i) n)" by simp
  show "length (rd (symbol_address s i) n) \<le> n" by (simp add: rd length_flat_read)
qed

text \<open>The sizes of a batch.\<close>

lemma batch_bytes:
  assumes tab: "symbol_table cls rd s tab" and i: "i < unat (sy_count s)"
  shows "unat (min 1024 ((sy_count s - of_nat i) * sy_entry_size s)) =
      min 1024 ((unat (sy_count s) - i) * unat (sy_entry_size s))"
proof -
  let ?c = "unat (sy_count s)" and ?e = "unat (sy_entry_size s)"
  have "(?c - i) * ?e \<le> ?c * ?e" by simp
  then have wrap: "(?c - i) * ?e < 2 ^ 64" using tab unfolding symbol_table_def by linarith
  have "(sy_count s - of_nat i) * sy_entry_size s = of_nat ((?c - i) * ?e)"
    using i by (simp add: of_nat_diff)
  then have "unat ((sy_count s - of_nat i) * sy_entry_size s) = (?c - i) * ?e"
    using unat_of_nat_u64 [OF wrap] by simp
  then show ?thesis
    by (auto simp: min_def word_le_nat_alt)
qed

lemma remap_loop_lists:
  assumes tab: "symbol_table cls rd s tab" and flat: "flat_memory rd content"
  shows "i \<le> unat (sy_count s) \<Longrightarrow>
    remap_loop cls rd s (of_nat i) (map (\<lambda>j. st_value (tab j)) [0 ..< i]) (function_indices tab i) =
    Some (map (\<lambda>j. st_value (tab j)) [0 ..< unat (sy_count s)], function_indices tab (unat (sy_count s)))"
proof (induction "unat (sy_count s) - i" arbitrary: i rule: less_induct)
  case less
  let ?c = "unat (sy_count s)" and ?e = "unat (sy_entry_size s)" and ?sz = "sizeof_Sym cls"
  have c: "?c < 2 ^ 64" using unat_bound [of "sy_count s"] by simp
  show ?case
  proof (cases "i < ?c")
    case False
    then have "i = ?c" using less.prems by simp
    then show ?thesis by (subst remap_loop.simps) simp
  next
    case True
    let ?rb = "min 1024 ((?c - i) * ?e)"
    let ?buffer = "rd (symbol_address s i) ?rb"
    let ?n = "(length ?buffer - ?sz) div ?e + 1"
    have e: "?sz \<le> ?e" "?c * ?e < 2 ^ 64" using tab by (auto simp: symbol_table_def)
    have "1 * ?e \<le> (?c - i) * ?e" using True by (intro mult_right_mono) auto
    then have rb: "?sz \<le> ?rb" using e(1) sizeof_Sym_pos(2) [of cls] by linarith
    note len = batch_length [OF tab flat True rb]
    have e0: "0 < ?e" using e(1) sizeof_Sym_pos(1) [of cls] by linarith
    have "length ?buffer - ?sz < (?c - i) * ?e"
      using len sizeof_Sym_pos(1) [of cls] by linarith
    then have "(length ?buffer - ?sz) div ?e < ?c - i"
      using e0 by (simp add: less_mult_imp_div_less)
    then have n: "i + ?n \<le> ?c" "0 < ?n" by simp_all
    have "?n * ?e \<le> ?c * ?e" using n(1) by (intro mult_right_mono) auto
    then have wrap: "?n * ?e < 2 ^ 64" using e(2) by linarith
    have parse: "parse_Sym cls (drop (j * ?e) ?buffer) = tab (i + j)" if "j < ?n" for j
    proof (rule batch_symbols [OF tab flat True])
      show "i + j < ?c" using that n(1) by linarith
      have "j \<le> (length ?buffer - ?sz) div ?e" using that by simp
      then have "j * ?e \<le> length ?buffer - ?sz"
        by (simp only: less_eq_div_iff_mult_less_eq [OF e0])
      then show "j * ?e + ?sz \<le> length ?buffer" using len(1) by linarith
    qed
    have batch: "remap_batch cls (sy_entry_size s) ?buffer 0 (of_nat i)
        (map (\<lambda>j. st_value (tab j)) [0 ..< i]) (function_indices tab i) =
      Some (of_nat (i + ?n), map (\<lambda>j. st_value (tab j)) [0 ..< i + ?n], function_indices tab (i + ?n))"
      using remap_batch_run [OF e0 len(1) _ refl wrap parse, where k = 0] len(2) by simp
    have go: "of_nat i < sy_count s"
      using True c unat_of_nat_u64 [of i] by (simp add: word_less_nat_alt)
    have rec: "remap_loop cls rd s (of_nat (i + ?n)) (map (\<lambda>j. st_value (tab j)) [0 ..< i + ?n]) (function_indices tab (i + ?n)) =
      Some (map (\<lambda>j. st_value (tab j)) [0 ..< ?c], function_indices tab ?c)"
      using n True by (intro less.hyps) linarith+
    have "\<not> length ?buffer < ?sz" using len(1) by simp
    then show ?thesis
      using read_symbol_nat(1) [OF tab True]
      by (subst remap_loop.simps)
        (simp only: go if_True if_False Let_def batch_bytes [OF tab True] symbol_address_def [symmetric] batch Option.bind.bind_lunit
          option.sel fst_conv snd_conv rec)
  qed
qed

section \<open>Sorting the indices\<close>

lemma unique_by_hd: "xs \<noteq> [] \<Longrightarrow> \<exists>ys. unique_by f xs = hd xs # ys"
  by (induction f xs rule: unique_by.induct) auto

lemma unique_by_set: "set (unique_by f xs) \<subseteq> set xs" "f ` set (unique_by f xs) = f ` set xs"
  by (induction f xs rule: unique_by.induct) auto

lemma unique_by_sorted:
  fixes f :: "'v \<Rightarrow> 'k::linorder"
  shows "sorted (map f xs) \<Longrightarrow> sorted_wrt (<) (map f (unique_by f xs))"
proof (induction f xs rule: unique_by.induct)
  case (3 f x y xs)
  show ?case
  proof (cases "f x = f y")
    case False
    have "f x < f z" if z: "z \<in> set (unique_by f (y # xs))" for z
    proof -
      have "z = y \<or> z \<in> set xs" using z unique_by_set(1) [of f "y # xs"] by auto
      moreover have "f x \<le> f y" "\<forall>z \<in> set xs. f y \<le> f z" using 3(3) by auto
      ultimately show ?thesis using False by (metis order_le_less order_le_less_trans order_less_le_trans)
    qed
    with 3 False show ?thesis by auto
  qed (use 3 in auto)
qed auto

lemma sorted_remap_facts:
  fixes addrs :: "u64 list" and remap :: "u32 list"
  defines "key \<equiv> \<lambda>a. addrs ! unat a"
  shows "sorted_wrt (<) (map key (sorted_remap addrs remap))" "set (sorted_remap addrs remap) \<subseteq> set remap"
    "key ` set (sorted_remap addrs remap) = key ` set remap"
proof -
  let ?xs = "sort_key (\<lambda>a. (key a, a)) remap"
  have r: "sorted_remap addrs remap = unique_by key ?xs"
    by (simp add: sorted_remap_def key_def)
  have "sorted (map (\<lambda>a. (key a, a)) ?xs)" by (rule sorted_sort_key)
  then have "sorted (map fst (map (\<lambda>a. (key a, a)) ?xs))"
    by (rule sorted_map_mono) (auto simp: mono_on_def less_eq_prod_def order_le_less)
  then have "sorted (map key ?xs)" by (simp add: comp_def)
  then show "sorted_wrt (<) (map key (sorted_remap addrs remap))"
    unfolding r by (rule unique_by_sorted)
  show "set (sorted_remap addrs remap) \<subseteq> set remap" "key ` set (sorted_remap addrs remap) = key ` set remap"
    unfolding r using unique_by_set [of key ?xs] by simp_all
qed

section \<open>The remapped table is sorted and complete\<close>

text \<open>
  What the search relies on: sizes that fit 32 bits, no symbol that wraps around the address space, no empty function, and two
  functions are disjoint or have the same address and size.
\<close>

definition symbols_ok :: "elf_class \<Rightarrow> (nat \<Rightarrow> Sym) \<Rightarrow> nat \<Rightarrow> bool" where
  "symbols_ok cls tab n \<longleftrightarrow>
     (\<forall>i < n. st_size (tab i) < 2 ^ 32 \<and> sym_end cls (tab i) = st_value (tab i) + st_size (tab i) \<and>
        (is_function (tab i) \<longrightarrow> st_value (tab i) < sym_end cls (tab i))) \<and>
     (\<forall>i < n. \<forall>j < n. is_function (tab i) \<and> is_function (tab j) \<longrightarrow>
        st_value (tab i) = st_value (tab j) \<and> st_size (tab i) = st_size (tab j) \<or>
        sym_end cls (tab i) \<le> st_value (tab j) \<or> sym_end cls (tab j) \<le> st_value (tab i))"

lemma symbols_okD:
  assumes "symbols_ok cls tab n" and "i < n"
  shows "st_size (tab i) < 2 ^ 32" "sym_end cls (tab i) = st_value (tab i) + st_size (tab i)"
    "is_function (tab i) \<Longrightarrow> st_value (tab i) < sym_end cls (tab i)"
    "is_function (tab i) \<Longrightarrow> j < n \<Longrightarrow> is_function (tab j) \<Longrightarrow>
      st_value (tab i) = st_value (tab j) \<and> st_size (tab i) = st_size (tab j) \<or>
      sym_end cls (tab i) \<le> st_value (tab j) \<or> sym_end cls (tab j) \<le> st_value (tab i)"
  using assms unfolding symbols_ok_def by blast+

definition remap_of :: "(nat \<Rightarrow> Sym) \<Rightarrow> nat \<Rightarrow> u32 list" where
  "remap_of tab n = sorted_remap (map (\<lambda>j. st_value (tab j)) [0 ..< n]) (function_indices tab n)"

lemma BuildRemapTable_remap:
  assumes "symbol_table cls rd s tab" and "flat_memory rd content"
  shows "BuildRemapTable cls rd s = Some (s\<lparr>sy_remap := Some (remap_of tab (unat (sy_count s)))\<rparr>)"
  using remap_loop_lists [OF assms, of 0] by (simp add: BuildRemapTable_def remap_of_def function_indices_def)

lemma remap_of_members:
  assumes n: "n \<le> 1000000"
  shows "a \<in> set (remap_of tab n) \<Longrightarrow> unat a < n \<and> is_function (tab (unat a))"
    and "i < n \<Longrightarrow> is_function (tab i) \<Longrightarrow> \<exists>a \<in> set (remap_of tab n). st_value (tab (unat a)) = st_value (tab i)"
    and "sorted_wrt (\<lambda>a b. st_value (tab (unat a)) < st_value (tab (unat b))) (remap_of tab n)"
proof -
  let ?addrs = "map (\<lambda>j. st_value (tab j)) [0 ..< n]"
  note facts = sorted_remap_facts [of ?addrs "function_indices tab n", folded remap_of_def]
  have of_nat: "unat (of_nat i :: u32) = i" if "i < n" for i
    using that n by (simp add: unsigned_of_nat take_bit_nat_eq_self)
  have idx: "unat a < n \<and> is_function (tab (unat a))" if "a \<in> set (function_indices tab n)" for a
    using that of_nat by (auto simp: function_indices_def)
  show member: "a \<in> set (remap_of tab n) \<Longrightarrow> unat a < n \<and> is_function (tab (unat a))" for a
    using facts(2) idx by blast
  show "\<exists>a \<in> set (remap_of tab n). st_value (tab (unat a)) = st_value (tab i)" if i: "i < n" "is_function (tab i)" for i
  proof -
    have "of_nat i \<in> set (function_indices tab n)" using i by (simp add: function_indices_def)
    then have "?addrs ! unat (of_nat i :: u32) \<in> (\<lambda>a. ?addrs ! unat a) ` set (remap_of tab n)"
      unfolding facts(3) by blast
    then show ?thesis using member of_nat [OF i(1)] i(1) by force
  qed
  have "sorted_wrt (\<lambda>a b. ?addrs ! unat a < ?addrs ! unat b) (remap_of tab n)"
    using facts(1) by (simp add: sorted_wrt_map)
  then show "sorted_wrt (\<lambda>a b. st_value (tab (unat a)) < st_value (tab (unat b))) (remap_of tab n)"
    by (rule sorted_wrt_mono_rel [rotated]) (use member in simp)
qed

lemma remap_of_length: "length (remap_of tab n) \<le> n"
proof -
  have "length (unique_by f xs) \<le> length xs" for f :: "u32 \<Rightarrow> u64" and xs
    by (induction f xs rule: unique_by.induct) auto
  then have "length (remap_of tab n) \<le> length (sort_key (\<lambda>a. (map (\<lambda>j. st_value (tab j)) [0 ..< n] ! unat a, a)) (function_indices tab n))"
    unfolding remap_of_def sorted_remap_def .
  also have "\<dots> = length (function_indices tab n)" by simp
  also have "\<dots> \<le> length [0 ..< n]"
    unfolding function_indices_def length_map by (rule length_filter_le)
  finally show ?thesis by simp
qed

text \<open>The states of a symbol table: its constants, the remap table if it exists, and the cache.\<close>

definition names_ok :: "elf_class \<Rightarrow> reader \<Rightarrow> (nat \<Rightarrow> Sym) \<Rightarrow> symbols \<Rightarrow> bool" where
  "names_ok cls rd tab s \<longleftrightarrow> symbol_table cls rd s tab \<and>
     (\<forall>r. sy_remap s = Some r \<longrightarrow> r = remap_of tab (unat (sy_count s))) \<and>
     sym_cache_ok cls rd (sy_remap s \<noteq> None) s"

lemma names_ok_count: "names_ok cls rd tab s \<Longrightarrow> unat (sy_count s) \<le> 1000000"
  using word_le_nat_alt [of "sy_count s" kMaxSymbols] by (simp add: names_ok_def symbol_table_def)

lemma symbol_table_at:
  assumes "symbol_table cls rd s tab" and "unat a < unat (sy_count s)"
  shows "read_symbol cls rd s a = Some (tab (unat a))"
proof -
  have "read_symbol cls rd s (of_nat (unat a)) = Some (tab (unat a))"
    using assms unfolding symbol_table_def by blast
  then show ?thesis by simp
qed

lemma direct_at:
  assumes ok: "names_ok cls rd tab s" and i: "i < symbol_count False s"
  shows "unat i < unat (sy_count s)" "sym_at cls rd False s i = Some (tab (unat i))"
proof -
  have "unat (symbol_count False s) = unat (sy_count s)"
    using names_ok_count [OF ok]
    by (simp add: symbol_count_def unsigned_ucast_eq unsigned_take_bit_eq take_bit_nat_eq_self)
  then show *: "unat i < unat (sy_count s)" using i by (simp add: word_less_nat_alt)
  then show "sym_at cls rd False s i = Some (tab (unat i))"
    using ok symbol_table_at [OF _ *] by (simp add: sym_at_def symbol_index_at_def names_ok_def)
qed

lemma remapped_at:
  assumes ok: "names_ok cls rd tab s" and remap: "sy_remap s \<noteq> None"
  defines "r \<equiv> remap_of tab (unat (sy_count s))"
  shows "unat (symbol_count True s) = length r"
    "i < symbol_count True s \<Longrightarrow> r ! unat i \<in> set r \<and> sym_at cls rd True s i = Some (tab (unat (r ! unat i)))"
proof -
  have r: "sy_remap s = Some r" using ok remap by (auto simp: names_ok_def r_def)
  have n: "length r \<le> unat (sy_count s)" unfolding r_def by (rule remap_of_length)
  then show count: "unat (symbol_count True s) = length r"
    using r names_ok_count [OF ok] by (simp add: symbol_count_def unsigned_of_nat take_bit_nat_eq_self)
  assume "i < symbol_count True s"
  then have i: "unat i < length r" using count by (simp add: word_less_nat_alt)
  then have mem: "r ! unat i \<in> set r" by simp
  then have "unat (r ! unat i) < unat (sy_count s)"
    using remap_of_members(1) [OF names_ok_count [OF ok]] by (simp add: r_def)
  then show "r ! unat i \<in> set r \<and> sym_at cls rd True s i = Some (tab (unat (r ! unat i)))"
    using mem r i ok symbol_table_at [of cls rd s tab] by (simp add: sym_at_def symbol_index_at_def names_ok_def)
qed

lemma remapped_sorted:
  assumes ok: "names_ok cls rd tab s" and remap: "sy_remap s \<noteq> None" and syms: "symbols_ok cls tab (unat (sy_count s))"
  defines "r \<equiv> remap_of tab (unat (sy_count s))"
  shows "sorted_symbols cls rd True s (\<lambda>i. tab (unat (r ! unat i)))"
proof -
  note at = remapped_at [OF ok remap, folded r_def]
  note member = remap_of_members [where tab = tab, OF names_ok_count [OF ok], folded r_def]
  have fn: "unat (r ! unat i) < unat (sy_count s)" "is_function (tab (unat (r ! unat i)))" if "i < symbol_count True s" for i
    using at(2) [OF that] member(1) by auto
  have "sym_end cls (tab (unat (r ! unat i))) \<le> st_value (tab (unat (r ! unat j)))"
    if ij: "i < j" "j < symbol_count True s" for i j
  proof -
    have i: "i < symbol_count True s" using ij by (rule order_less_trans)
    have "st_value (tab (unat (r ! unat i))) < st_value (tab (unat (r ! unat j)))"
      using sorted_wrt_nth_less [OF member(3), of "unat i" "unat j"] ij at(1) by (simp add: word_less_nat_alt)
    moreover have "st_value (tab (unat (r ! unat j))) < sym_end cls (tab (unat (r ! unat j)))"
      using symbols_okD(3) [OF syms] fn [OF ij(2)] by blast
    ultimately show ?thesis
      using symbols_okD(4) [OF syms fn [OF i] fn [OF ij(2)]] by auto
  qed
  then show ?thesis
    using at(2) symbols_okD(3) [OF syms] fn by (simp add: sorted_symbols_def)
qed

text \<open>Every function that contains an address is represented.\<close>

lemma remapped_complete:
  assumes ok: "names_ok cls rd tab s" and remap: "sy_remap s \<noteq> None" and syms: "symbols_ok cls tab (unat (sy_count s))"
    and i: "i < unat (sy_count s)" "is_function (tab i)" "contains cls (tab i) addr"
  defines "r \<equiv> remap_of tab (unat (sy_count s))"
  shows "\<exists>k < symbol_count True s. contains cls (tab (unat (r ! unat k))) addr"
proof -
  note at = remapped_at [OF ok remap, folded r_def]
  note member = remap_of_members [where tab = tab, OF names_ok_count [OF ok], folded r_def]
  obtain a where a: "a \<in> set r" "st_value (tab (unat a)) = st_value (tab i)"
    using member(2) [OF i(1,2)] by blast
  have fn: "unat a < unat (sy_count s)" "is_function (tab (unat a))" using member(1) [OF a(1)] by auto
  have "st_value (tab i) < sym_end cls (tab i)" "st_value (tab i) < sym_end cls (tab (unat a))"
    using symbols_okD(3) [OF syms] i fn a(2) by metis+
  then have "st_size (tab (unat a)) = st_size (tab i)"
    using symbols_okD(4) [OF syms i(1,2) fn] a(2) by auto
  then have "sym_end cls (tab (unat a)) = sym_end cls (tab i)"
    using symbols_okD(2) [OF syms] i(1) fn(1) a(2) by simp
  then have hit: "contains cls (tab (unat a)) addr" using i(3) a(2) by (simp add: contains_def)
  obtain k where k: "k < length r" "r ! k = a" using a(1) by (auto simp: in_set_conv_nth)
  have "k < 2 ^ 32"
    using k(1) at(1) unat_bound [of "symbol_count True s"] by simp
  then have "unat (of_nat k :: u32) = k" by (simp add: unsigned_of_nat take_bit_nat_eq_self)
  then show ?thesis
    using k at(1) hit by (intro exI [of _ "of_nat k"]) (simp add: word_less_nat_alt)
qed

end
