(* ===== verification/Symbol_Names.thy ===== *)
theory Symbol_Names
  imports Symbol_Remap
begin

text \<open>
  \<^verbatim>\<open>Symbols::GetName\<close> in every state of its caches: it finds the function that contains an address, whether the
  symbols of the file are sorted or not.
\<close>

section \<open>Finding the entry\<close>

lemma names_ok_sizes:
  assumes ok: "names_ok cls rd tab s" and syms: "symbols_ok cls tab (unat (sy_count s))" and b: "b \<longrightarrow> sy_remap s \<noteq> None"
    and at: "i < symbol_count b s" "sym_at cls rd b s i = Some symb"
  shows "\<exists>k < unat (sy_count s). symb = tab k"
proof (cases b)
  case False
  then show ?thesis using direct_at [OF ok, of i] at by auto
next
  case True
  then show ?thesis
    using remapped_at(2) [OF ok, of i] b at remap_of_members(1) [OF names_ok_count [OF ok]] by fastforce
qed

lemma names_sizes_ok:
  assumes "names_ok cls rd tab s" and "symbols_ok cls tab (unat (sy_count s))" and "b \<longrightarrow> sy_remap s \<noteq> None"
  shows "sizes_ok cls rd b s"
  using names_ok_sizes [OF assms] symbols_okD(1,2) [OF assms(2)] unfolding sizes_ok_def by blast

lemma names_ok_inv:
  assumes "names_ok cls rd tab s" and "sym_inv cls rd (sy_remap s \<noteq> None) s t"
  shows "names_ok cls rd tab t" "sy_remap t = sy_remap s" "sy_count t = sy_count s" "read_name rd t = read_name rd s"
  using assms same_table_reads [of s t]
  by (auto simp: names_ok_def sym_inv_def symbol_table_def same_table_def)

lemma direct_defined:
  assumes "BinarySearch cls rd False addr s = Some r"
  shows "defined r"
proof -
  have probe: "defined (sym_probe cls rd False addr i t)" for i t
    by (simp add: sym_probe_def symbol_index_at_def split: option.split)
  have tail: "defined (bind_out q (\<lambda>p t. case p of
      Found i \<Rightarrow> bind_out (symbol_index_at False i t) (\<lambda>idx t. case read_symbol cls rd t idx of
        None \<Rightarrow> Fail t | Some symb \<Rightarrow> Ok (sym_end cls symb, addr - st_value symb) t)
    | Bound j \<Rightarrow> Fail t))" if "defined q" for q
    using that by (cases q) (auto simp: symbol_index_at_def split: position.split option.split)
  have "defined r" if run: "search_symbols cls rd False addr first lim s = Some r" for first lim
  proof -
    obtain q where q: "search_loop half_way (sym_probe cls rd False addr) first lim s = Some q"
      using run by (auto simp: search_symbols_def)
    have "defined q" by (rule search_defined [OF _ q]) (rule probe)
    from tail [OF this] run q show ?thesis by (simp add: search_symbols_def)
  qed
  then show ?thesis
    using assms by (auto simp: BinarySearch_def Let_def split: option.splits prod.splits if_splits)
qed

text \<open>Which functions contain the address.\<close>

definition functions_at :: "elf_class \<Rightarrow> (nat \<Rightarrow> Sym) \<Rightarrow> nat \<Rightarrow> u64 \<Rightarrow> nat set" where
  "functions_at cls tab n addr = {i. i < n \<and> is_function (tab i) \<and> contains cls (tab i) addr}"

lemma remapped_finds:
  assumes ok: "names_ok cls rd tab s" and syms: "symbols_ok cls tab (unat (sy_count s))" and remap: "sy_remap s \<noteq> None"
  shows "\<exists>t. sym_inv cls rd True s t \<and>
    ((\<exists>v. BinarySearch cls rd True addr s = Some (Ok v t) \<and> hit cls rd True addr v t) \<or>
     BinarySearch cls rd True addr s = Some (Fail t) \<and> functions_at cls tab (unat (sy_count s)) addr = {})"
proof -
  have "sym_cache_ok cls rd True s" using ok remap by (simp add: names_ok_def)
  from BinarySearch_sorted [OF this names_sizes_ok [OF ok syms] remapped_sorted [OF ok remap syms], of addr]
  show ?thesis
    using remap remapped_complete [OF ok remap syms, of _ addr] unfolding finds_def functions_at_def by blast
qed

lemma find_info_finds:
  assumes ok: "names_ok cls rd tab s" and syms: "symbols_ok cls tab (unat (sy_count s))" and flat: "flat_memory rd content"
  shows "\<exists>t. names_ok cls rd tab t \<and> sy_count t = sy_count s \<and> read_name rd t = read_name rd s \<and>
    ((\<exists>v. find_info cls rd addr s = Some (Ok v t) \<and> hit cls rd (sy_remap t \<noteq> None) addr v t) \<or>
     find_info cls rd addr s = Some (Fail t) \<and> functions_at cls tab (unat (sy_count s)) addr = {})"
proof (cases "sy_remap s")
  case (Some r)
  then have "sy_remap s \<noteq> None" by simp
  from remapped_finds [OF ok syms this, of addr] show ?thesis
    using names_ok_inv [OF ok] Some by (auto simp: find_info_def)
next
  case None
  have cache: "sym_cache_ok cls rd False s" using ok None by (simp add: names_ok_def)
  obtain r where r: "BinarySearch cls rd False addr s = Some r" "out_states (sym_inv cls rd False s) r"
      "\<And>v t. r = Ok v t \<Longrightarrow> hit cls rd False addr v t"
    using BinarySearch_hits [OF cache names_sizes_ok [OF ok syms], of addr] by auto
  show ?thesis
  proof (cases r)
    case (Ok v t)
    then show ?thesis
      using r names_ok_inv [OF ok, of t] None by (auto simp: find_info_def)
  next
    case (Fail t)
    then have t: "names_ok cls rd tab t" "sy_remap t = None" "sy_count t = sy_count s" "read_name rd t = read_name rd s"
      using r(2) names_ok_inv [OF ok, of t] None by auto
    let ?u = "t\<lparr>sy_remap := Some (remap_of tab (unat (sy_count t))), sy_cache := []\<rparr>"
    have build: "BuildRemapTable cls rd t = Some (t\<lparr>sy_remap := Some (remap_of tab (unat (sy_count t)))\<rparr>)"
      using t(1) by (intro BuildRemapTable_remap [OF _ flat]) (simp add: names_ok_def)
    have "symbol_table cls rd ?u tab"
      using t(1) by (simp add: names_ok_def symbol_table_def)
    then have u: "names_ok cls rd tab ?u"
      by (simp add: names_ok_def sym_cache_ok_def omap_invar_def)
    have "sy_remap ?u \<noteq> None" "symbols_ok cls tab (unat (sy_count ?u))" using syms t(3) by simp_all
    from remapped_finds [OF u this(2,1), of addr] obtain w where w: "sym_inv cls rd True ?u w"
      "(\<exists>v. BinarySearch cls rd True addr ?u = Some (Ok v w) \<and> hit cls rd True addr v w) \<or>
       BinarySearch cls rd True addr ?u = Some (Fail w) \<and> functions_at cls tab (unat (sy_count s)) addr = {}"
      using t(3) by auto
    have "read_name rd w = read_name rd ?u" "names_ok cls rd tab w" "sy_remap w \<noteq> None" "sy_count w = sy_count s"
      using names_ok_inv [OF u, of w] w(1) t(3) by auto
    moreover have "read_name rd ?u = read_name rd t" by simp
    moreover have "find_info cls rd addr s = BinarySearch cls rd True addr ?u"
      using r(1) Fail build None by (simp add: find_info_def)
    ultimately show ?thesis
      using w(2) t(4) by (intro exI [of _ w]) auto
  qed (use direct_defined [OF r(1)] in auto)
qed

section \<open>The name\<close>

lemma cached_name_reads:
  assumes ok: "names_ok cls rd tab s" and h: "hit cls rd (sy_remap s \<noteq> None) addr (k, off) s"
    and syms: "symbols_ok cls tab (unat (sy_count s))"
  shows "\<exists>i < unat (sy_count s). contains cls (tab i) addr \<and> off = addr - st_value (tab i) \<and>
    (case read_name rd s (tab i) of
       Some name \<Rightarrow> \<exists>t. cached_name cls rd k s = Ok name t \<and> sym_inv cls rd (sy_remap s \<noteq> None) s t
     | None \<Rightarrow> cached_name cls rd k s = Fail s)"
proof -
  let ?b = "sy_remap s \<noteq> None"
  obtain info symb where info: "map_of (sy_cache s) k = Some info" "si_index info < symbol_count ?b s"
      "sym_at cls rd ?b s (si_index info) = Some symb" "contains cls symb addr" "off = addr - st_value symb"
    using h by (auto simp: hit_def)
  obtain i where i: "i < unat (sy_count s)" "symb = tab i"
    using names_ok_sizes [OF ok syms _ info(2,3)] by blast
  have cache: "sym_cache_ok cls rd ?b s" using ok by (simp add: names_ok_def)
  then have entry: "entry_ok cls rd ?b s (k, info)"
    using map_of_SomeD [OF info(1)] by (simp add: sym_cache_ok_def)
  obtain idx where idx: "symbol_index_at ?b (si_index info) s = Ok idx s" "read_symbol cls rd s idx = Some symb"
    using info(3) symbol_index_state by (fastforce simp: sym_at_def split: outcome.splits)
  have "case read_name rd s symb of
       Some name \<Rightarrow> \<exists>t. cached_name cls rd k s = Ok name t \<and> sym_inv cls rd (sy_remap s \<noteq> None) s t
     | None \<Rightarrow> cached_name cls rd k s = Fail s"
  proof (cases "si_name info")
    case (Some name)
    then have "read_name rd s symb = Some name" using entry info(3) by (auto simp: entry_ok_def)
    then show ?thesis using Some info(1) cache by (simp add: cached_name_def sym_inv_def)
  next
    case None
    show ?thesis
    proof (cases "read_name rd s symb")
      case (Some name)
      let ?t = "s\<lparr>sy_cache := omap_put k (info\<lparr>si_name := Some name\<rparr>) (sy_cache s)\<rparr>"
      have "entry_ok cls rd ?b s (k, info\<lparr>si_name := Some name\<rparr>)"
        using entry info(3) Some by (auto simp: entry_ok_def)
      then have "sym_inv cls rd ?b s ?t"
        using sym_cache_ok_put [OF cache] by (simp add: sym_inv_def)
      then show ?thesis using None Some info(1) idx by (simp add: cached_name_def)
    qed (use None info(1) idx in \<open>simp add: cached_name_def\<close>)
  qed
  then show ?thesis using i info(4,5) by blast
qed

lemma GetName_finds:
  assumes ok: "names_ok cls rd tab s" and syms: "symbols_ok cls tab (unat (sy_count s))" and flat: "flat_memory rd content"
  shows "\<exists>r. GetName cls rd addr s = Some r \<and> out_states (names_ok cls rd tab) r \<and>
    out_states (\<lambda>t. sy_count t = sy_count s \<and> read_name rd t = read_name rd s) r \<and>
    (case result_of r of
       Ok (name, off) _ \<Rightarrow> \<exists>i < unat (sy_count s). contains cls (tab i) addr \<and> off = addr - st_value (tab i) \<and>
         read_name rd s (tab i) = Some name
     | Fail _ \<Rightarrow> functions_at cls tab (unat (sy_count s)) addr = {} \<or>
         (\<exists>i < unat (sy_count s). contains cls (tab i) addr \<and> read_name rd s (tab i) = None)
     | _ \<Rightarrow> False)"
proof -
  obtain t where t: "names_ok cls rd tab t" "sy_count t = sy_count s" "read_name rd t = read_name rd s"
    "(\<exists>v. find_info cls rd addr s = Some (Ok v t) \<and> hit cls rd (sy_remap t \<noteq> None) addr v t) \<or>
     find_info cls rd addr s = Some (Fail t) \<and> functions_at cls tab (unat (sy_count s)) addr = {}"
    using find_info_finds [OF assms, of addr] by blast
  show ?thesis
  proof (cases "find_info cls rd addr s = Some (Fail t)")
    case True
    with t show ?thesis by (auto simp: GetName_def)
  next
    case False
    then obtain k off where v: "find_info cls rd addr s = Some (Ok (k, off) t)" "hit cls rd (sy_remap t \<noteq> None) addr (k, off) t"
      using t(4) by auto
    have "symbols_ok cls tab (unat (sy_count t))" using syms t(2) by simp
    from cached_name_reads [OF t(1) v(2) this] obtain i where i: "i < unat (sy_count s)" "contains cls (tab i) addr"
      "off = addr - st_value (tab i)" "case read_name rd s (tab i) of
         Some name \<Rightarrow> \<exists>u. cached_name cls rd k t = Ok name u \<and> sym_inv cls rd (sy_remap t \<noteq> None) t u
       | None \<Rightarrow> cached_name cls rd k t = Fail t"
      using t(2,3) by auto
    show ?thesis
    proof (cases "read_name rd s (tab i)")
      case None
      with i v(1) t show ?thesis by (auto simp: GetName_def)
    next
      case (Some name)
      then obtain u where u: "cached_name cls rd k t = Ok name u" "sym_inv cls rd (sy_remap t \<noteq> None) t u"
        using i(4) by auto
      with Some i v(1) t names_ok_inv [OF t(1) u(2)] show ?thesis by (auto simp: GetName_def)
    qed
  qed
qed

section \<open>Reachable states\<close>

inductive sym_reaches :: "elf_class \<Rightarrow> reader \<Rightarrow> symbols \<Rightarrow> symbols \<Rightarrow> bool" for cls rd s0 where
  start: "sym_reaches cls rd s0 s0"
| name: "sym_reaches cls rd s0 s \<Longrightarrow> GetName cls rd addr s = Some r \<Longrightarrow> state_of r = Some t \<Longrightarrow> sym_reaches cls rd s0 t"
| global: "sym_reaches cls rd s0 s \<Longrightarrow> state_of (GetGlobal cls rd n s) = Some t \<Longrightarrow> sym_reaches cls rd s0 t"
| clear: "sym_reaches cls rd s0 s \<Longrightarrow> sym_reaches cls rd s0 (Symbols_ClearCache s)"

definition sym_state_ok :: "elf_class \<Rightarrow> reader \<Rightarrow> (nat \<Rightarrow> Sym) \<Rightarrow> symbols \<Rightarrow> symbols \<Rightarrow> bool" where
  "sym_state_ok cls rd tab s0 s \<longleftrightarrow>
     names_ok cls rd tab s \<and> sy_count s = sy_count s0 \<and> read_name rd s = read_name rd s0"

lemma same_globals: "\<exists>g. (s :: symbols) = s\<lparr>sy_globals := g\<rparr>"
  by (rule exI [of _ "sy_globals s"]) simp

lemma GetGlobal_state:
  "state_of (GetGlobal cls rd n s) = Some t \<Longrightarrow> \<exists>g. t = s\<lparr>sy_globals := g\<rparr>"
  by (auto simp: GetGlobal_def intro: same_globals split: option.splits sum.splits)

lemma sym_at_globals: "sym_at cls rd b (s\<lparr>sy_globals := g\<rparr>) = sym_at cls rd b s"
  by (auto simp: fun_eq_iff sym_at_def symbol_index_at_def split: option.split)

lemma names_ok_globals: "names_ok cls rd tab s \<Longrightarrow> names_ok cls rd tab (s\<lparr>sy_globals := g\<rparr>)"
  by (auto simp: names_ok_def symbol_table_def sym_cache_ok_def entry_ok_def sym_at_globals symbol_count_def)

lemma sym_reaches_ok:
  assumes "sym_reaches cls rd s0 s" and start: "sy_cache s0 = []" "sy_remap s0 = None" "symbol_table cls rd s0 tab"
    and syms: "symbols_ok cls tab (unat (sy_count s0))" and flat: "flat_memory rd content"
  shows "sym_state_ok cls rd tab s0 s"
  using assms(1)
proof (induction rule: sym_reaches.induct)
  case start
  show ?case
    using assms(2-4) by (simp add: sym_state_ok_def names_ok_def sym_cache_ok_def omap_invar_def)
next
  case (name s addr r t)
  then have s: "names_ok cls rd tab s" "symbols_ok cls tab (unat (sy_count s))"
    using syms by (auto simp: sym_state_ok_def)
  have "names_ok cls rd tab t" "sy_count t = sy_count s \<and> read_name rd t = read_name rd s"
    using GetName_finds [OF s flat, of addr] name.hyps(2,3) by (auto dest: out_states_state_of)
  then show ?case using name.IH by (simp add: sym_state_ok_def)
next
  case (global s n t)
  obtain g where "t = s\<lparr>sy_globals := g\<rparr>" using GetGlobal_state [OF global.hyps(2)] by blast
  then show ?case using global.IH names_ok_globals by (simp add: sym_state_ok_def)
next
  case (clear s)
  have "symbol_table cls rd s tab" using clear.IH by (simp add: sym_state_ok_def names_ok_def)
  then have "symbol_table cls rd (Symbols_ClearCache s) tab"
    by (simp add: symbol_table_def Symbols_ClearCache_def)
  then show ?case
    using clear.IH by (simp add: sym_state_ok_def names_ok_def sym_cache_ok_def omap_invar_def Symbols_ClearCache_def)
qed

section \<open>Properties\<close>


text \<open>A table with two functions, the second one below the first.\<close>

definition symtab_bytes :: "u8 list" where
  "symtab_bytes =
     [1, 0, 0, 0, 0x20, 0, 0, 0, 0x10, 0, 0, 0, 0x12, 0, 1, 0,
      4, 0, 0, 0, 0x10, 0, 0, 0, 0x10, 0, 0, 0, 0x12, 0, 1, 0,
      0, 97, 98, 0, 99, 100, 0]"

definition symtab_content :: "u64 \<Rightarrow> u8 option" where
  "symtab_content a = (if unat a < length symtab_bytes then Some (symtab_bytes ! unat a) else None)"

definition symtab_example :: symbols where
  "symtab_example = Symbols_new 0 32 16 32 7"

definition sym_example :: "nat \<Rightarrow> Sym" where
  "sym_example i = \<lparr>st_name = (if i = 0 then 1 else 4), st_info = 0x12, st_shndx = 1, st_value = (if i = 0 then 0x20 else 0x10),
     st_size = 0x10\<rparr>"

lemma symtab_example_table: "symbol_table Elf32 (flat_read symtab_content) symtab_example sym_example"
proof -
  have "read_symbol Elf32 (flat_read symtab_content) symtab_example 0 = Some (sym_example 0)"
    "read_symbol Elf32 (flat_read symtab_content) symtab_example 1 = Some (sym_example 1)"
    by code_simp+
  moreover have "sy_count symtab_example = 2" "sy_entry_size symtab_example = 16"
    by (simp_all add: symtab_example_def Symbols_new_def)
  ultimately show ?thesis
    by (auto simp: symbol_table_def sizeof_Sym_def less_2_cases_iff)
qed


end
