(* ===== verification/Maps.thy ===== *)
theory Maps
  imports Binary_Search
begin

text \<open>
  \<^verbatim>\<open>libunwindstack/Maps.cpp\<close> and the part of \<^verbatim>\<open>include/unwindstack/MapInfo.h\<close> it uses: the list of the maps of a process, its
  lookup by address and the update of the list in place. A \<^verbatim>\<open>MapInfo\<close> is an object with an identity; the model keeps the objects
  in a list that only grows and refers to them by their index.
\<close>

section \<open>State\<close>

record map_info =
  mi_start :: u64
  mi_end :: u64
  mi_offset :: u64
  mi_flags :: u16
  mi_name :: string
  mi_prev :: "nat option"
  mi_next :: "nat option"
  mi_load_bias :: u64
  mi_elf_offset :: u64
  mi_elf_start_offset :: u64
  mi_memory_backed :: bool
  mi_elf :: "nat option"
  mi_build_id :: "u8 list option"

text \<open>The ELF object of a map is an index into the list of all ELF objects. \<open>objs\<close> are all \<^verbatim>\<open>MapInfo\<close> objects ever made, \<open>maps_vec\<close> is \<^verbatim>\<open>maps_\<close>; \<open>None\<close> in it is \<^verbatim>\<open>nullptr\<close>.\<close>

record maps =
  objs :: "map_info list"
  maps_vec :: "nat option list"

definition Maps_new :: maps where
  "Maps_new = \<lparr>objs = [], maps_vec = []\<rparr>"

abbreviation MAPS_FLAGS_DEVICE_MAP :: u16 where
  "MAPS_FLAGS_DEVICE_MAP \<equiv> 0x8000"

definition set_obj :: "nat \<Rightarrow> (map_info \<Rightarrow> map_info) \<Rightarrow> maps \<Rightarrow> maps" where
  "set_obj p f s = s\<lparr>objs := (objs s)[p := f (objs s ! p)]\<rparr>"

text \<open>\<^verbatim>\<open>std::weak_ptr::lock\<close>: an object lives while \<^verbatim>\<open>maps_\<close> or a client holds it. \<open>held\<close> are the objects clients hold.\<close>

definition lock_ptr :: "nat set \<Rightarrow> maps \<Rightarrow> nat option \<Rightarrow> nat option" where
  "lock_ptr held s p =
     (case p of None \<Rightarrow> None | Some i \<Rightarrow> if i \<in> held \<or> Some i \<in> set (maps_vec s) then Some i else None)"

section \<open>Building the list\<close>

definition MapInfo_new :: "nat option \<Rightarrow> u64 \<Rightarrow> u64 \<Rightarrow> u64 \<Rightarrow> u16 \<Rightarrow> string \<Rightarrow> map_info" where
  "MapInfo_new prev start fin offset flags name =
     \<lparr>mi_start = start, mi_end = fin, mi_offset = offset, mi_flags = flags, mi_name = name, mi_prev = prev, mi_next = None,
      mi_load_bias = - 1, mi_elf_offset = 0, mi_elf_start_offset = 0, mi_memory_backed = False,
      mi_elf = None, mi_build_id = None\<rparr>"

text \<open>\<^verbatim>\<open>MapInfo::Create\<close>; the result is the new object.\<close>

definition MapInfo_Create ::
  "nat option \<Rightarrow> u64 \<Rightarrow> u64 \<Rightarrow> u64 \<Rightarrow> u16 \<Rightarrow> string \<Rightarrow> maps \<Rightarrow> nat \<times> maps" where
  "MapInfo_Create prev start fin offset flags name s =
     (let p = length (objs s);
          s = s\<lparr>objs := objs s @ [MapInfo_new prev start fin offset flags name]\<rparr>
      in (p, case prev of None \<Rightarrow> s | Some q \<Rightarrow> set_obj q (\<lambda>m. m\<lparr>mi_next := Some p\<rparr>) s))"

text \<open>\<open>last_map\<close> is \<^verbatim>\<open>maps_.empty() ? nullptr : maps_.back()\<close>.\<close>

definition last_map :: "maps \<Rightarrow> nat option" where
  "last_map s = (if maps_vec s = [] then None else last (maps_vec s))"

definition Maps_Add :: "u64 \<Rightarrow> u64 \<Rightarrow> u64 \<Rightarrow> u64 \<Rightarrow> string \<Rightarrow> maps \<Rightarrow> maps" where
  "Maps_Add start fin offset flags name s =
     (let (p, s) = MapInfo_Create (last_map s) start fin offset (ucast flags) name s
      in s\<lparr>maps_vec := maps_vec s @ [Some p]\<rparr>)"

definition Maps_Add_biased :: "u64 \<Rightarrow> u64 \<Rightarrow> u64 \<Rightarrow> u64 \<Rightarrow> string \<Rightarrow> u64 \<Rightarrow> maps \<Rightarrow> maps" where
  "Maps_Add_biased start fin offset flags name load_bias s =
     (let (p, s) = MapInfo_Create (last_map s) start fin offset (ucast flags) name s;
          s = set_obj p (\<lambda>m. m\<lparr>mi_load_bias := load_bias\<rparr>) s
      in s\<lparr>maps_vec := maps_vec s @ [Some p]\<rparr>)"

text \<open>A line of the maps file as \<^verbatim>\<open>android::procinfo\<close> hands it to the callback.\<close>

record map_entry =
  me_start :: u64
  me_end :: u64
  me_pgoff :: u64
  me_flags :: u16
  me_name :: string

definition entry_flags :: "map_entry \<Rightarrow> u16" where
  "entry_flags e =
     (if take 5 (me_name e) = ''/dev/'' \<and> take 7 (drop 5 (me_name e)) \<noteq> ''ashmem/''
      then me_flags e OR MAPS_FLAGS_DEVICE_MAP else me_flags e)"

fun parse_entries :: "map_entry list \<Rightarrow> nat option \<Rightarrow> maps \<Rightarrow> maps" where
  "parse_entries [] prev s = s"
| "parse_entries (e # es) prev s =
     (let (p, s) = MapInfo_Create prev (me_start e) (me_end e) (me_pgoff e) (entry_flags e) (me_name e) s
      in parse_entries es (Some p) (s\<lparr>maps_vec := maps_vec s @ [Some p]\<rparr>))"

text \<open>
  \<open>es\<close> are the entries for which \<^verbatim>\<open>ReadMapFile\<close> called back and \<open>ok\<close> is what it returned: false if the file could not be read or a
  line is malformed.
\<close>

definition Maps_Parse :: "map_entry list \<Rightarrow> bool \<Rightarrow> maps \<Rightarrow> (unit, maps) outcome" where
  "Maps_Parse es ok s = (let s = parse_entries es None s in if ok then Ok () s else Fail s)"

section \<open>Lookup\<close>

text \<open>The loop body; the side of an address with respect to a map.\<close>

definition map_side :: "u64 \<Rightarrow> map_info \<Rightarrow> side" where
  "map_side pc m = (if mi_start m \<le> pc \<and> pc < mi_end m then Here else if pc < mi_start m then Below else Above)"

definition map_probe :: "maps \<Rightarrow> u64 \<Rightarrow> u64 \<Rightarrow> unit \<Rightarrow> (side, unit) outcome" where
  "map_probe s pc i u =
     (if length (maps_vec s) \<le> unat i then Undef UB_Bounds
      else case maps_vec s ! unat i of
          None \<Rightarrow> Undef UB_Null
        | Some p \<Rightarrow> Ok (map_side pc (objs s ! p)) ())"

definition Maps_Find :: "u64 \<Rightarrow> maps \<Rightarrow> (nat option, unit) outcome option" where
  "Maps_Find pc s =
     (if maps_vec s = [] then Some (Ok None ())
      else map_option (\<lambda>r. bind_out r (\<lambda>p _.
             Ok (case p of Found i \<Rightarrow> maps_vec s ! unat i | Bound j \<Rightarrow> None) ()))
           (search_loop half_sum (map_probe s pc) 0 (of_nat (length (maps_vec s))) ()))"

definition Maps_Get :: "u64 \<Rightarrow> maps \<Rightarrow> nat option" where
  "Maps_Get index s = (if length (maps_vec s) \<le> unat index then None else maps_vec s ! unat index)"

section \<open>Sorting\<close>

text \<open>
  \<^verbatim>\<open>std::sort\<close> by start; where starts coincide, \<^verbatim>\<open>std::sort\<close> may return any order and the model keeps the order of the vector. Null pointers
  only occur in \<^verbatim>\<open>Reparse\<close>, which sorts them to the end.
\<close>

definition sort_maps :: "maps \<Rightarrow> maps" where
  "sort_maps s = s\<lparr>maps_vec :=
     map Some (sort_key (\<lambda>p. mi_start (objs s ! p)) (map the (filter (\<lambda>x. x \<noteq> None) (maps_vec s)))) @
     filter (\<lambda>x. x = None) (maps_vec s)\<rparr>"

fun link_maps :: "nat list \<Rightarrow> nat option \<Rightarrow> maps \<Rightarrow> maps" where
  "link_maps [] prev s = s"
| "link_maps (p # ps) prev s =
     (let s = set_obj p (\<lambda>m. m\<lparr>mi_prev := prev\<rparr>) s;
          s = (case prev of None \<Rightarrow> s | Some q \<Rightarrow> set_obj q (\<lambda>m. m\<lparr>mi_next := Some p\<rparr>) s)
      in link_maps ps (Some p) s)"

definition Maps_Sort :: "maps \<Rightarrow> maps" where
  "Maps_Sort s =
     (if maps_vec s = [] then s
      else
        let s = sort_maps s; ps = map the (maps_vec s);
            s = set_obj (last ps) (\<lambda>m. m\<lparr>mi_next := None\<rparr>) s
        in link_maps ps None s)"

section \<open>Updating the list in place\<close>

record reparse =
  rp_maps :: maps
  search_map_idx :: nat
  num_deleted_old :: nat
  num_deleted_new :: nat

definition set_vec :: "nat \<Rightarrow> nat option \<Rightarrow> maps \<Rightarrow> maps" where
  "set_vec i v s = s\<lparr>maps_vec := (maps_vec s)[i := v]\<rparr>"

text \<open>An old entry \<open>p\<close> takes the place of the new entry \<open>q\<close> in the chain of maps.\<close>

definition adopt_links :: "nat set \<Rightarrow> nat \<Rightarrow> nat \<Rightarrow> maps \<Rightarrow> maps" where
  "adopt_links held p q s =
     (let prev = lock_ptr held s (mi_prev (objs s ! q));
          next = lock_ptr held s (mi_next (objs s ! q));
          s = set_obj p (\<lambda>m. m\<lparr>mi_prev := prev\<rparr>) s;
          s = set_obj p (\<lambda>m. m\<lparr>mi_next := next\<rparr>) s;
          s = (case prev of None \<Rightarrow> s | Some i \<Rightarrow> set_obj i (\<lambda>m. m\<lparr>mi_next := Some p\<rparr>) s)
      in case next of None \<Rightarrow> s | Some i \<Rightarrow> set_obj i (\<lambda>m. m\<lparr>mi_prev := Some p\<rparr>) s)"

text \<open>The inner loop, over the old entries.\<close>

function reparse_old :: "nat set \<Rightarrow> nat \<Rightarrow> nat \<Rightarrow> nat \<Rightarrow> reparse \<Rightarrow> (unit, reparse) outcome" where
  "reparse_old held last_map_idx new_map_idx old_map_idx r =
     (if old_map_idx < last_map_idx then
        let s = rp_maps r
        in case (maps_vec s ! new_map_idx, maps_vec s ! old_map_idx) of
             (Some q, Some p) \<Rightarrow>
               let new_map_info = objs s ! q; info = objs s ! p
               in if mi_start new_map_info = mi_start info \<and> mi_end new_map_info = mi_end info \<and>
                     mi_flags new_map_info = mi_flags info \<and> mi_name new_map_info = mi_name info then
                    Ok () (r\<lparr>search_map_idx := old_map_idx + 1,
                             rp_maps := set_vec new_map_idx None (adopt_links held p q s),
                             num_deleted_new := num_deleted_new r + 1\<rparr>)
                  else if mi_start new_map_info < mi_start info then
                    Ok () (r\<lparr>search_map_idx := old_map_idx\<rparr>)
                  else
                    reparse_old held last_map_idx new_map_idx (old_map_idx + 1)
                      (r\<lparr>search_map_idx := old_map_idx + 1, rp_maps := set_vec old_map_idx None s,
                         num_deleted_old := num_deleted_old r + 1\<rparr>)
           | _ \<Rightarrow> Undef UB_Null
      else Ok () r)"
  by pat_completeness auto
termination
  by (relation "measure (\<lambda>(held, last_map_idx, new_map_idx, old_map_idx, r). last_map_idx - old_map_idx)") auto

declare reparse_old.simps [simp del]

text \<open>The outer loop, over the new entries; the number of entries still to visit comes first.\<close>

fun reparse_new :: "nat \<Rightarrow> nat set \<Rightarrow> nat \<Rightarrow> nat \<Rightarrow> reparse \<Rightarrow> (unit, reparse) outcome" where
  "reparse_new 0 held last_map_idx new_map_idx r = Ok () r"
| "reparse_new (Suc n) held last_map_idx new_map_idx r =
     bind_out (reparse_old held last_map_idx new_map_idx (search_map_idx r) r) (\<lambda>_ r.
       if last_map_idx \<le> search_map_idx r then Ok () r
       else reparse_new n held last_map_idx (new_map_idx + 1) r)"

fun drop_old :: "nat \<Rightarrow> nat \<Rightarrow> reparse \<Rightarrow> reparse" where
  "drop_old 0 i r = r"
| "drop_old (Suc n) i r =
     drop_old n (i + 1) (r\<lparr>rp_maps := set_vec i None (rp_maps r), num_deleted_old := num_deleted_old r + 1\<rparr>)"

text \<open>The result is \<^verbatim>\<open>any_changed\<close>.\<close>

definition Reparse :: "nat set \<Rightarrow> map_entry list \<Rightarrow> bool \<Rightarrow> maps \<Rightarrow> (bool, maps) outcome" where
  "Reparse held es ok s =
     (let last_map_idx = length (maps_vec s)
      in case Maps_Parse es ok s of
           Ok _ s \<Rightarrow>
             map_state rp_maps rp_maps
               (bind_out (reparse_new (length (maps_vec s) - last_map_idx) held last_map_idx last_map_idx
                   \<lparr>rp_maps = s, search_map_idx = 0, num_deleted_old = 0, num_deleted_new = 0\<rparr>) (\<lambda>_ r.
                 let r = drop_old (last_map_idx - search_map_idx r) (search_map_idx r) r;
                     s = sort_maps (rp_maps r);
                     s = s\<lparr>maps_vec := take (length (maps_vec s) - num_deleted_old r - num_deleted_new r) (maps_vec s)\<rparr>
                 in Ok (num_deleted_old r \<noteq> 0 \<or> length (maps_vec s) \<noteq> last_map_idx) (r\<lparr>rp_maps := s\<rparr>)))
         | Fail s \<Rightarrow> Fail (s\<lparr>maps_vec := take last_map_idx (maps_vec s)\<rparr>)
         | Abort \<Rightarrow> Abort
         | Undef k \<Rightarrow> Undef k)"

definition LocalUpdatableMaps_Find ::
  "nat set \<Rightarrow> map_entry list \<Rightarrow> bool \<Rightarrow> u64 \<Rightarrow> maps \<Rightarrow> (nat option, maps) outcome option" where
  "LocalUpdatableMaps_Find held es ok pc s =
     Option.bind (Maps_Find pc s) (\<lambda>r.
       case r of
         Ok (Some p) _ \<Rightarrow> Some (Ok (Some p) s)
       | Ok None _ \<Rightarrow>
           (case Reparse held es ok s of
              Ok _ s \<Rightarrow> map_option (map_state (\<lambda>_. s) (\<lambda>_. s)) (Maps_Find pc s)
            | Fail s \<Rightarrow> Some (Ok None s)
            | Abort \<Rightarrow> Some Abort
            | Undef k \<Rightarrow> Some (Undef k))
       | Fail _ \<Rightarrow> Some (Fail s)
       | Abort \<Rightarrow> Some Abort
       | Undef k \<Rightarrow> Some (Undef k))"

end
