(* ===== verification/Map_Update.thy ===== *)
theory Map_Update
  imports Maps
begin

text \<open>
  \<^verbatim>\<open>LocalUpdatableMaps::Reparse\<close>: the list becomes the one the maps file describes, objects of unchanged maps are kept, and the
  chain of previous and next maps follows the list.
\<close>

section \<open>Objects and chains\<close>

definition map_key :: "map_info \<Rightarrow> u64 \<times> u64 \<times> u16 \<times> string" where
  "map_key m = (mi_start m, mi_end m, mi_flags m, mi_name m)"

definition entry_key :: "map_entry \<Rightarrow> u64 \<times> u64 \<times> u16 \<times> string" where
  "entry_key e = (me_start e, me_end e, entry_flags e, me_name e)"

text \<open>The objects \<open>ps\<close> are linked in this order.\<close>

definition chain :: "maps \<Rightarrow> nat list \<Rightarrow> bool" where
  "chain s ps \<longleftrightarrow> (\<forall>k < length ps.
     mi_prev (objs s ! (ps ! k)) = (if k = 0 then None else Some (ps ! (k - 1))) \<and>
     mi_next (objs s ! (ps ! k)) = (if k + 1 < length ps then Some (ps ! (k + 1)) else None))"

lemma length_set_obj [simp]: "length (objs (set_obj p f s)) = length (objs s)"
  by (simp add: set_obj_def)

lemma vec_set_obj [simp]: "maps_vec (set_obj p f s) = maps_vec s"
  by (simp add: set_obj_def)

lemma nth_set_obj: "p < length (objs s) \<Longrightarrow> objs (set_obj p f s) ! x = (if x = p then f (objs s ! x) else objs s ! x)"
  by (auto simp: set_obj_def nth_list_update)

lemma map_key_links [simp]: "map_key (m\<lparr>mi_prev := v\<rparr>) = map_key m" "map_key (m\<lparr>mi_next := v\<rparr>) = map_key m"
  by (simp_all add: map_key_def)

lemma set_obj_key:
  assumes "\<And>m. map_key (f m) = map_key m"
  shows "map_key (objs (set_obj y f t) ! x) = map_key (objs t ! x)"
proof (cases "y < length (objs t)")
  case True
  then show ?thesis using assms by (simp add: nth_set_obj)
qed (simp add: set_obj_def list_update_beyond)

lemma set_vec_simps [simp]:
  "objs (set_vec i v s) = objs s" "maps_vec (set_vec i v s) = (maps_vec s)[i := v]"
  by (simp_all add: set_vec_def)

section \<open>Parsing\<close>

text \<open>The objects a parse appends.\<close>

fun new_objs :: "nat \<Rightarrow> nat option \<Rightarrow> map_entry list \<Rightarrow> map_info list" where
  "new_objs N prev [] = []"
| "new_objs N prev (e # es) =
     (MapInfo_new prev (me_start e) (me_end e) (me_pgoff e) (entry_flags e) (me_name e))
       \<lparr>mi_next := (if es = [] then None else Some (N + 1))\<rparr> # new_objs (N + 1) (Some N) es"

lemma length_new_objs [simp]: "length (new_objs N prev es) = length es"
  by (induction N prev es rule: new_objs.induct) auto

lemma nth_new_objs:
  "k < length es \<Longrightarrow> new_objs N prev es ! k =
    (MapInfo_new (if k = 0 then prev else Some (N + k - 1)) (me_start (es ! k)) (me_end (es ! k)) (me_pgoff (es ! k))
       (entry_flags (es ! k)) (me_name (es ! k)))\<lparr>mi_next := (if k + 1 < length es then Some (N + k + 1) else None)\<rparr>"
  by (induction N prev es arbitrary: k rule: new_objs.induct) (auto simp: nth_Cons split: nat.split)

lemma MapInfo_new_next: "(MapInfo_new prev a b c d e)\<lparr>mi_next := None\<rparr> = MapInfo_new prev a b c d e"
  by (simp add: MapInfo_new_def)

lemma parse_entries_linked:
  assumes "q < length (objs s)"
  shows "objs (parse_entries es (Some q) s) =
    (if es = [] then objs s else (objs s)[q := (objs s ! q)\<lparr>mi_next := Some (length (objs s))\<rparr>]) @
      new_objs (length (objs s)) (Some q) es"
  using assms
proof (induction es arbitrary: q s)
  case Nil
  then show ?case by simp
next
  case (Cons e es)
  let ?new = "MapInfo_new (Some q) (me_start e) (me_end e) (me_pgoff e) (entry_flags e) (me_name e)"
  let ?s = "(snd (MapInfo_Create (Some q) (me_start e) (me_end e) (me_pgoff e) (entry_flags e) (me_name e) s))
    \<lparr>maps_vec := maps_vec s @ [Some (length (objs s))]\<rparr>"
  have objs: "objs ?s = (objs s)[q := (objs s ! q)\<lparr>mi_next := Some (length (objs s))\<rparr>] @ [?new]"
    using Cons.prems by (simp add: MapInfo_Create_def set_obj_def Let_def list_update_append nth_append)
  have "parse_entries (e # es) (Some q) s = parse_entries es (Some (length (objs s))) ?s"
    by (simp add: MapInfo_Create_def Let_def)
  then show ?case
    using Cons.IH [of "length (objs s)" ?s] by (simp add: objs nth_append list_update_append MapInfo_new_next)
qed

lemma parse_entries_objs: "objs (parse_entries es None s) = objs s @ new_objs (length (objs s)) None es"
proof (cases es)
  case Nil
  then show ?thesis by simp
next
  case (Cons e es')
  let ?new = "MapInfo_new None (me_start e) (me_end e) (me_pgoff e) (entry_flags e) (me_name e)"
  let ?s = "s\<lparr>objs := objs s @ [?new], maps_vec := maps_vec s @ [Some (length (objs s))]\<rparr>"
  have "parse_entries es None s = parse_entries es' (Some (length (objs s))) ?s"
    by (simp add: Cons MapInfo_Create_def Let_def)
  then show ?thesis
    using parse_entries_linked [of "length (objs s)" ?s es'] Cons by (simp add: MapInfo_new_next)
qed

lemma parse_entries_vec:
  "maps_vec (parse_entries es prev s) = maps_vec s @ map Some [length (objs s) ..< length (objs s) + length es]"
proof (induction es arbitrary: prev s)
  case (Cons e es)
  have "[length (objs s) ..< length (objs s) + Suc (length es)] = length (objs s) # [Suc (length (objs s)) ..< length (objs s) + Suc (length es)]"
    by (simp add: upt_conv_Cons del: upt_Suc)
  then show ?case
    using Cons by (simp add: MapInfo_Create_def Let_def del: upt_Suc split: option.split)
qed simp

lemma parse_chain: "chain (parse_entries es None s) [length (objs s) ..< length (objs s) + length es]"
  by (auto simp: chain_def parse_entries_objs nth_append nth_new_objs MapInfo_new_def)

section \<open>One object takes the place of another\<close>

text \<open>All objects of the chain are held by the list.\<close>

definition all_held :: "maps \<Rightarrow> nat list \<Rightarrow> bool" where
  "all_held s ps \<longleftrightarrow> (\<forall>p \<in> set ps. Some p \<in> set (maps_vec s) \<and> p < length (objs s))"

lemma lock_held: "all_held s ps \<Longrightarrow> p \<in> set ps \<Longrightarrow> lock_ptr held s (Some p) = Some p"
  by (simp add: lock_ptr_def all_held_def)

lemma adopt_links_simps [simp]:
  "maps_vec (adopt_links held p q s) = maps_vec s" "length (objs (adopt_links held p q s)) = length (objs s)"
  by (simp_all add: adopt_links_def Let_def split: option.split)

lemma adopt_links_key: "map_key (objs (adopt_links held p q s) ! x) = map_key (objs s ! x)"
  by (simp add: adopt_links_def Let_def set_obj_key split: option.split)

lemma adopt_links_nth:
  assumes links: "lock_ptr held s (mi_prev (objs s ! q)) = pv" "lock_ptr held s (mi_next (objs s ! q)) = nx"
    and p: "p < length (objs s)" and pv: "\<And>i. pv = Some i \<Longrightarrow> i < length (objs s) \<and> i \<noteq> p"
    and nx: "\<And>i. nx = Some i \<Longrightarrow> i < length (objs s) \<and> i \<noteq> p" and distinct: "\<And>i. pv = Some i \<Longrightarrow> nx \<noteq> Some i"
  shows "objs (adopt_links held p q s) ! x =
      (if x = p then (objs s ! x)\<lparr>mi_prev := pv, mi_next := nx\<rparr>
       else if pv = Some x then (objs s ! x)\<lparr>mi_next := Some p\<rparr>
       else if nx = Some x then (objs s ! x)\<lparr>mi_prev := Some p\<rparr>
       else objs s ! x)"
  using p pv nx distinct unfolding adopt_links_def links Let_def
  by (cases pv; cases nx; simp add: nth_set_obj)

text \<open>The old object \<open>p\<close> replaces the \<open>k\<close>-th object of the chain.\<close>

lemma adopt_links_chain:
  assumes chain: "chain s ps" and held: "all_held s ps" and "distinct ps" and k: "k < length ps"
    and p: "p \<notin> set ps" "p < length (objs s)"
  shows "chain (adopt_links held p (ps ! k) s) (ps[k := p])"
proof -
  have in_ps: "j < length ps \<Longrightarrow> ps ! j \<in> set ps \<and> ps ! j < length (objs s) \<and> ps ! j \<noteq> p" for j
    using held p(1) by (metis all_held_def nth_mem)
  have eq: "i < length ps \<Longrightarrow> j < length ps \<Longrightarrow> ps ! i = ps ! j \<longleftrightarrow> i = j" for i j
    using \<open>distinct ps\<close> by (rule nth_eq_iff_index_eq)
  have links: "lock_ptr held s (mi_prev (objs s ! (ps ! k))) = (if k = 0 then None else Some (ps ! (k - 1)))"
    "lock_ptr held s (mi_next (objs s ! (ps ! k))) = (if k + 1 < length ps then Some (ps ! (k + 1)) else None)"
    using chain k lock_held [OF held, of "ps ! (k - 1)"] lock_held [OF held, of "ps ! (k + 1)"]
    by (auto simp: chain_def lock_ptr_def)
  let ?pv = "if k = 0 then None else Some (ps ! (k - 1))" and ?nx = "if k + 1 < length ps then Some (ps ! (k + 1)) else None"
  have objs: "objs (adopt_links held p (ps ! k) s) ! x =
      (if x = p then (objs s ! x)\<lparr>mi_prev := ?pv, mi_next := ?nx\<rparr>
       else if ?pv = Some x then (objs s ! x)\<lparr>mi_next := Some p\<rparr>
       else if ?nx = Some x then (objs s ! x)\<lparr>mi_prev := Some p\<rparr>
       else objs s ! x)" for x
  proof (rule adopt_links_nth [OF links p(2)])
    show "i < length (objs s) \<and> i \<noteq> p" if "?pv = Some i" for i
      using that in_ps [of "k - 1"] k by (auto split: if_splits)
    show "i < length (objs s) \<and> i \<noteq> p" if "?nx = Some i" for i
      using that in_ps [of "k + 1"] by (auto split: if_splits)
    show "?nx \<noteq> Some i" if "?pv = Some i" for i
    proof
      assume "?nx = Some i"
      then have same: "ps ! (k - 1) = ps ! (k + 1)" "k + 1 < length ps" using that by (simp_all split: if_splits)
      have "k - 1 < length ps" using k by simp
      from eq [OF this same(2)] same(1) have "k - 1 = k + 1" by blast
      then show False by simp
    qed
  qed
  show ?thesis
    unfolding chain_def
  proof (intro allI impI)
    fix j
    assume "j < length (ps[k := p])"
    then have j: "j < length ps" by simp
    note here = chain [unfolded chain_def, rule_format, OF j]
    have pvx: "?pv = Some (ps ! j) \<longleftrightarrow> k = j + 1"
      using eq [of "k - 1" j] j k by (cases k) auto
    have nxx: "?nx = Some (ps ! j) \<longleftrightarrow> j = k + 1"
      using eq [of "k + 1" j] j by (cases "k + 1 < length ps") auto
    have p: "ps ! j \<noteq> p" using in_ps [OF j] by blast
    have prev: "ps[k := p] ! (j - 1) = (if j - 1 = k then p else ps ! (j - 1))"
      and "next": "j + 1 < length ps \<Longrightarrow> ps[k := p] ! (j + 1) = (if j + 1 = k then p else ps ! (j + 1))"
      using j k by (auto simp: nth_list_update)
    show "mi_prev (objs (adopt_links held p (ps ! k) s) ! (ps[k := p] ! j)) = (if j = 0 then None else Some (ps[k := p] ! (j - 1))) \<and>
      mi_next (objs (adopt_links held p (ps ! k) s) ! (ps[k := p] ! j)) =
        (if j + 1 < length (ps[k := p]) then Some (ps[k := p] ! (j + 1)) else None)"
    proof (cases "j = k")
      case True
      then show ?thesis using k by (simp add: objs)
    next
      case False
      then have "ps[k := p] ! j = ps ! j" by simp
      then have obj: "objs (adopt_links held p (ps ! k) s) ! (ps[k := p] ! j) =
          (if k = j + 1 then (objs s ! (ps ! j))\<lparr>mi_next := Some p\<rparr>
           else if j = k + 1 then (objs s ! (ps ! j))\<lparr>mi_prev := Some p\<rparr> else objs s ! (ps ! j))"
        using p pvx nxx by (simp only: objs if_False)
      have prev': "ps[k := p] ! (j - 1) = (if j = k + 1 then p else ps ! (j - 1))" if "j \<noteq> 0"
        using prev that False by (auto simp del: nth_list_update)
      consider "k = j + 1" | "j = k + 1" | "k \<noteq> j + 1" "j \<noteq> k + 1" by blast
      then show ?thesis
        unfolding obj length_list_update
        using here prev' "next" k
        by cases (cases "j = 0"; simp del: nth_list_update_eq nth_list_update_neq)+
    qed
  qed
qed

section \<open>The loops\<close>

text \<open>
  The state while the new entries are matched with the old ones: \<open>os\<close> are the old objects, \<open>N\<close> is the first new one, \<open>s1\<close> the state
  after parsing, \<open>k\<close> new entries have been visited, and \<open>reps\<close> are the objects that stand for the new entries.
\<close>

definition rp_inv :: "maps \<Rightarrow> nat list \<Rightarrow> nat \<Rightarrow> map_entry list \<Rightarrow> nat \<Rightarrow> nat list \<Rightarrow> reparse \<Rightarrow> bool" where
  "rp_inv s1 os N es k reps r \<longleftrightarrow>
     length (maps_vec (rp_maps r)) = length os + length es \<and>
     length (objs (rp_maps r)) = length (objs s1) \<and> (\<forall>x. map_key (objs (rp_maps r) ! x) = map_key (objs s1 ! x)) \<and>
     length reps = length es \<and> distinct reps \<and> chain (rp_maps r) reps \<and>
     (\<forall>j < length es. map_key (objs s1 ! (reps ! j)) = entry_key (es ! j)) \<and>
     (\<forall>j < length es. reps ! j = N + j \<or> j < k \<and> reps ! j \<in> set os) \<and>
     (\<forall>j < length es. maps_vec (rp_maps r) ! (length os + j) = (if reps ! j = N + j then Some (N + j) else None)) \<and>
     search_map_idx r \<le> length os \<and>
     (\<forall>i < length os. maps_vec (rp_maps r) ! i = (if search_map_idx r \<le> i \<or> os ! i \<in> set reps then Some (os ! i) else None)) \<and>
     (\<forall>i < length os. search_map_idx r \<le> i \<longrightarrow> os ! i \<notin> set reps) \<and>
     count_list (take (length os) (maps_vec (rp_maps r))) None = num_deleted_old r \<and>
     count_list (drop (length os) (maps_vec (rp_maps r))) None = num_deleted_new r \<and>
     (\<forall>i < search_map_idx r. \<forall>j < length es. k \<le> j \<longrightarrow> map_key (objs s1 ! (os ! i)) \<noteq> entry_key (es ! j)) \<and>
     (\<forall>i < length os. \<forall>j < k. j < length es \<longrightarrow> map_key (objs s1 ! (os ! i)) = entry_key (es ! j) \<longrightarrow> reps ! j = os ! i)"

text \<open>What the loops rely on: old and new entries are sorted by start, and old and new objects are different.\<close>

definition rp_start :: "maps \<Rightarrow> nat list \<Rightarrow> nat \<Rightarrow> map_entry list \<Rightarrow> bool" where
  "rp_start s1 os N es \<longleftrightarrow> length (objs s1) = N + length es \<and> distinct os \<and> (\<forall>p \<in> set os. p < N) \<and>
     sorted_wrt (\<lambda>p q. mi_start (objs s1 ! p) < mi_start (objs s1 ! q)) os \<and> sorted_wrt (\<lambda>a b. me_start a < me_start b) es"

lemma count_list_update_None:
  assumes "i < length xs" and "xs ! i \<noteq> None"
  shows "count_list (xs[i := None]) None = Suc (count_list xs None)"
  using assms
proof (induction xs arbitrary: i)
  case (Cons x xs)
  then show ?case by (cases i) auto
qed simp

lemma rp_inv_held:
  assumes start: "rp_start s1 os N es" and inv: "rp_inv s1 os N es k reps r"
  shows "all_held (rp_maps r) reps"
  unfolding all_held_def
proof
  fix p
  assume "p \<in> set reps"
  then obtain j where j: "j < length es" "reps ! j = p"
    using inv by (auto simp: rp_inv_def in_set_conv_nth)
  show "Some p \<in> set (maps_vec (rp_maps r)) \<and> p < length (objs (rp_maps r))"
  proof (cases "p = N + j")
    case True
    then have "maps_vec (rp_maps r) ! (length os + j) = Some p" "length os + j < length (maps_vec (rp_maps r))"
      using inv j by (auto simp: rp_inv_def)
    then show ?thesis
      using True j inv start unfolding rp_inv_def rp_start_def by (metis nth_mem add_less_cancel_left)
  next
    case False
    then have "p \<in> set os" using inv j by (auto simp: rp_inv_def)
    then obtain i where i: "i < length os" "os ! i = p" by (auto simp: in_set_conv_nth)
    then have "maps_vec (rp_maps r) ! i = Some p" "i < length (maps_vec (rp_maps r))"
      using inv \<open>p \<in> set reps\<close> by (auto simp: rp_inv_def)
    moreover have "p < length (objs (rp_maps r))"
      using inv start \<open>p \<in> set os\<close> by (auto simp: rp_inv_def rp_start_def)
    ultimately show ?thesis by (metis nth_mem)
  qed
qed

lemma rp_invD:
  assumes "rp_inv s1 os N es k reps r"
  shows "length (maps_vec (rp_maps r)) = length os + length es" "length (objs (rp_maps r)) = length (objs s1)"
    "map_key (objs (rp_maps r) ! x) = map_key (objs s1 ! x)"
    "length reps = length es" "distinct reps" "chain (rp_maps r) reps"
    "j < length es \<Longrightarrow> map_key (objs s1 ! (reps ! j)) = entry_key (es ! j)"
    "j < length es \<Longrightarrow> reps ! j = N + j \<or> j < k \<and> reps ! j \<in> set os"
    "j < length es \<Longrightarrow> maps_vec (rp_maps r) ! (length os + j) = (if reps ! j = N + j then Some (N + j) else None)"
    "search_map_idx r \<le> length os"
    "i < length os \<Longrightarrow> maps_vec (rp_maps r) ! i = (if search_map_idx r \<le> i \<or> os ! i \<in> set reps then Some (os ! i) else None)"
    "i < length os \<Longrightarrow> search_map_idx r \<le> i \<Longrightarrow> os ! i \<notin> set reps"
    "count_list (take (length os) (maps_vec (rp_maps r))) None = num_deleted_old r \<and>
      count_list (drop (length os) (maps_vec (rp_maps r))) None = num_deleted_new r"
    "i < search_map_idx r \<Longrightarrow> j < length es \<Longrightarrow> k \<le> j \<Longrightarrow> map_key (objs s1 ! (os ! i)) \<noteq> entry_key (es ! j)"
    "i < length os \<Longrightarrow> j < k \<Longrightarrow> j < length es \<Longrightarrow> map_key (objs s1 ! (os ! i)) = entry_key (es ! j) \<Longrightarrow> reps ! j = os ! i"
  using assms unfolding rp_inv_def by blast+

text \<open>No old entry matches: the new object stays.\<close>

lemma rp_stop:
  assumes inv: "rp_inv s1 os N es k reps r"
    and nomatch: "\<And>i. search_map_idx r \<le> i \<Longrightarrow> i < length os \<Longrightarrow> map_key (objs s1 ! (os ! i)) \<noteq> entry_key (es ! k)"
  shows "rp_inv s1 os N es (Suc k) reps r"
proof -
  note I = rp_invD [OF inv]
  have "reps ! j = os ! i" if "i < length os" "j < Suc k" "j < length es" "map_key (objs s1 ! (os ! i)) = entry_key (es ! j)" for i j
  proof (cases "j = k")
    case True
    then show ?thesis using that nomatch [of i] I(14) [of i k] by (cases "search_map_idx r \<le> i") auto
  next
    case False
    then show ?thesis using that I(15) by simp
  qed
  moreover have "\<forall>j < length es. reps ! j = N + j \<or> j < Suc k \<and> reps ! j \<in> set os"
    using I(8) by (metis less_Suc_eq)
  moreover have "\<forall>i < search_map_idx r. \<forall>j < length es. Suc k \<le> j \<longrightarrow> map_key (objs s1 ! (os ! i)) \<noteq> entry_key (es ! j)"
    using I(14) by simp
  ultimately show ?thesis
    unfolding rp_inv_def using I by simp
qed

text \<open>An old entry that no new one can match is dropped.\<close>

lemma rp_skip:
  assumes inv: "rp_inv s1 os N es k reps r" and i: "i = search_map_idx r" "i < length os"
    and nomatch: "\<And>j. k \<le> j \<Longrightarrow> j < length es \<Longrightarrow> map_key (objs s1 ! (os ! i)) \<noteq> entry_key (es ! j)"
  shows "rp_inv s1 os N es k reps
    (r\<lparr>search_map_idx := i + 1, rp_maps := set_vec i None (rp_maps r), num_deleted_old := num_deleted_old r + 1\<rparr>)"
proof -
  note I = rp_invD [OF inv]
  have some: "maps_vec (rp_maps r) ! i \<noteq> None" "i < length (maps_vec (rp_maps r))" "os ! i \<notin> set reps"
    using I(1,11,12) i by auto
  have "count_list (take (length os) ((maps_vec (rp_maps r))[i := None])) None = num_deleted_old r + 1"
    "count_list (drop (length os) ((maps_vec (rp_maps r))[i := None])) None = num_deleted_new r"
    using count_list_update_None [of i "take (length os) (maps_vec (rp_maps r))"] some(1,2) i(2) I(13)
    by (simp_all add: take_update_swap drop_update_cancel)
  moreover have "(maps_vec (rp_maps r))[i := None] ! i' =
      (if i + 1 \<le> i' \<or> os ! i' \<in> set reps then Some (os ! i') else None)" if "i' < length os" for i'
    using I(11) [OF that] some(2,3) i(1) by (cases "i' = i") auto
  moreover have "os ! i' \<notin> set reps" if "i' < length os" "i + 1 \<le> i'" for i'
    using I(12) [OF that(1)] that i(1) by simp
  moreover have "map_key (objs s1 ! (os ! i')) \<noteq> entry_key (es ! j)" if "i' < i + 1" "j < length es" "k \<le> j" for i' j
    using nomatch [OF that(3,2)] I(14) [of i' j] that i(1) by (cases "i' = i") auto
  ultimately show ?thesis
    unfolding rp_inv_def using I i by (simp add: chain_def)
qed

text \<open>An old entry matches: it takes the place of the new object.\<close>

lemma rp_match:
  assumes start: "rp_start s1 os N es" and inv: "rp_inv s1 os N es k reps r" and k: "k < length es"
    and i: "i = search_map_idx r" "i < length os" and match: "map_key (objs s1 ! (os ! i)) = entry_key (es ! k)"
  shows "rp_inv s1 os N es (Suc k) (reps[k := os ! i])
    (r\<lparr>search_map_idx := i + 1, rp_maps := set_vec (length os + k) None (adopt_links held (os ! i) (N + k) (rp_maps r)),
       num_deleted_new := num_deleted_new r + 1\<rparr>)"
proof -
  note I = rp_invD [OF inv]
  let ?reps = "reps[k := os ! i]" and ?s = "adopt_links held (os ! i) (N + k) (rp_maps r)"
  let ?vec = "(maps_vec (rp_maps r))[length os + k := None]"
  have kr: "k < length reps" "reps ! k = N + k" using I(4) I(8) [OF k] k by auto
  have old: "os ! i \<in> set os" "os ! i < N" "os ! i \<notin> set reps"
    using i start I(12) [OF i(2)] by (auto simp: rp_start_def)
  have below: "os ! i < length (objs (rp_maps r))" using old(2) start I(2) by (simp add: rp_start_def)
  have held: "all_held (rp_maps r) reps" by (rule rp_inv_held [OF start inv])
  have chain: "chain ?s ?reps"
    using adopt_links_chain [OF I(6) held I(5) kr(1) old(3) below, of held] kr(2) by simp
  have key: "map_key (objs ?s ! x) = map_key (objs s1 ! x)" for x
    using I(3) by (simp add: adopt_links_key)
  have set: "set ?reps = insert (os ! i) (set reps - {N + k})"
    using I(5) kr by (simp add: set_update_distinct)
  have new: "x \<noteq> N + k" if "x \<in> set os" for x using start that by (auto simp: rp_start_def)
  have vec_new: "?vec ! (length os + j) = (if ?reps ! j = N + j then Some (N + j) else None)" if "j < length es" for j
    using I(9) [OF that] I(1) k kr(1) old(2) by (cases "j = k") auto
  have eq: "os ! i' = os ! i \<longleftrightarrow> i' = i" if "i' < length os" for i'
    using start i(2) that nth_eq_iff_index_eq [of os i' i] by (simp add: rp_start_def)
  have vec_old: "?vec ! i' = (if i + 1 \<le> i' \<or> os ! i' \<in> set ?reps then Some (os ! i') else None)" if "i' < length os" for i'
    using I(11) [OF that] that eq [OF that] new [of "os ! i'"] i unfolding set by auto
  have rest: "os ! i' \<notin> set ?reps" if "i' < length os" "i + 1 \<le> i'" for i'
    using I(12) [OF that(1)] that eq [OF that(1)] i(1) unfolding set by auto
  have "maps_vec (rp_maps r) ! (length os + k) \<noteq> None" using I(9) [OF k] kr(2) by simp
  then have count: "count_list (take (length os) ?vec) None = num_deleted_old r"
    "count_list (drop (length os) ?vec) None = num_deleted_new r + 1"
    using count_list_update_None [of k "drop (length os) (maps_vec (rp_maps r))"] I(1,13) k
    by (simp_all add: take_update_cancel drop_update_swap)
  have es: "me_start (es ! k) < me_start (es ! j)" if "k < j" "j < length es" for j
    using start that by (auto simp: rp_start_def dest: sorted_wrt_nth_less)
  have keys: "map_key (objs s1 ! (os ! i')) \<noteq> entry_key (es ! j)" if "i' < i + 1" "j < length es" "Suc k \<le> j" for i' j
  proof (cases "i' = i")
    case True
    then show ?thesis using match es [of j] that by (auto simp: entry_key_def)
  next
    case False
    then show ?thesis using I(14) [of i' j] that i(1) by simp
  qed
  have reps: "?reps ! j = N + j \<or> j < Suc k \<and> ?reps ! j \<in> set os" if "j < length es" for j
    using I(8) [OF that] old(1) kr(1) by (cases "j = k") auto
  have rep_key: "map_key (objs s1 ! (?reps ! j)) = entry_key (es ! j)" if "j < length es" for j
    using I(7) [OF that] match kr(1) by (cases "j = k") auto
  have ident: "?reps ! j = os ! i'" if "i' < length os" "j < Suc k" "j < length es"
      "map_key (objs s1 ! (os ! i')) = entry_key (es ! j)" for i' j
  proof (cases "j = k")
    case True
    then have "mi_start (objs s1 ! (os ! i')) = mi_start (objs s1 ! (os ! i))"
      using that(4) match by (simp add: map_key_def entry_key_def)
    moreover have "mi_start (objs s1 ! (os ! a)) < mi_start (objs s1 ! (os ! b))" if "a < b" "b < length os" for a b
      using start that by (auto simp: rp_start_def dest: sorted_wrt_nth_less)
    ultimately have "i' = i" using that(1) i(2) by (metis less_irrefl linorder_neqE_nat)
    then show ?thesis using True kr(1) by simp
  next
    case False
    then show ?thesis using I(15) [OF that(1) _ that(3,4)] that(2) by simp
  qed
  have "distinct ?reps" using I(5) old(3) by (simp add: distinct_list_update)
  then show ?thesis
    unfolding rp_inv_def using I(1,2,4) key chain vec_new vec_old rest count keys reps rep_key ident i
    by (simp add: chain_def)
qed

lemma reparse_old_inv:
  assumes start: "rp_start s1 os N es" and "rp_inv s1 os N es k reps r" and k: "k < length es"
  shows "\<exists>reps' r'. reparse_old held (length os) (length os + k) (search_map_idx r) r = Ok () r' \<and>
    rp_inv s1 os N es (Suc k) reps' r'"
  using assms(2)
proof (induction "length os - search_map_idx r" arbitrary: r rule: less_induct)
  case less
  note I = rp_invD [OF less.prems] and inv = less.prems
  let ?i = "search_map_idx r"
  have sorted: "mi_start (objs s1 ! (os ! a)) < mi_start (objs s1 ! (os ! b))" if "a < b" "b < length os" for a b
    using start that by (auto simp: rp_start_def dest: sorted_wrt_nth_less)
  show ?case
  proof (cases "?i < length os")
    case False
    have "rp_inv s1 os N es (Suc k) reps r" by (rule rp_stop [OF inv]) (use False in simp)
    moreover have "reparse_old held (length os) (length os + k) ?i r = Ok () r"
      using False by (subst reparse_old.simps) simp
    ultimately show ?thesis by blast
  next
    case True
    have vec: "maps_vec (rp_maps r) ! (length os + k) = Some (N + k)" "maps_vec (rp_maps r) ! ?i = Some (os ! ?i)"
      using I(8) [OF k] I(9) [OF k] I(11) [OF True] by auto
    have keys: "map_key (objs (rp_maps r) ! (N + k)) = entry_key (es ! k)"
      "map_key (objs (rp_maps r) ! (os ! ?i)) = map_key (objs s1 ! (os ! ?i))"
      using I(3) I(7) [OF k] I(8) [OF k] by auto
    note step = reparse_old.simps [of held "length os" "length os + k" ?i r]
    show ?thesis
    proof (cases "map_key (objs s1 ! (os ! ?i)) = entry_key (es ! k)")
      case match: True
      then have "map_key (objs (rp_maps r) ! (N + k)) = map_key (objs (rp_maps r) ! (os ! ?i))" using keys by simp
      then have "reparse_old held (length os) (length os + k) ?i r = Ok () (r\<lparr>search_map_idx := ?i + 1,
          rp_maps := set_vec (length os + k) None (adopt_links held (os ! ?i) (N + k) (rp_maps r)),
          num_deleted_new := num_deleted_new r + 1\<rparr>)"
        using True vec by (subst step) (simp add: Let_def map_key_def)
      then show ?thesis using rp_match [OF start inv k refl True match] by blast
    next
      case nomatch: False
      then have neq: "map_key (objs (rp_maps r) ! (N + k)) \<noteq> map_key (objs (rp_maps r) ! (os ! ?i))" using keys by metis
      have starts: "mi_start (objs (rp_maps r) ! (N + k)) = me_start (es ! k)"
        "mi_start (objs (rp_maps r) ! (os ! ?i)) = mi_start (objs s1 ! (os ! ?i))"
        using keys by (simp_all add: map_key_def entry_key_def)
      show ?thesis
      proof (cases "me_start (es ! k) < mi_start (objs s1 ! (os ! ?i))")
        case later: True
        have "rp_inv s1 os N es (Suc k) reps r"
        proof (rule rp_stop [OF inv])
          fix i
          assume "?i \<le> i" "i < length os"
          then have "me_start (es ! k) < mi_start (objs s1 ! (os ! i))"
            using later sorted [of ?i i] by (cases "i = ?i") auto
          then show "map_key (objs s1 ! (os ! i)) \<noteq> entry_key (es ! k)"
            by (auto simp: map_key_def entry_key_def)
        qed
        moreover have "reparse_old held (length os) (length os + k) ?i r = Ok () r"
          using True vec neq starts later by (subst step) (auto simp: Let_def map_key_def)
        ultimately show ?thesis by blast
      next
        case False
        let ?r = "r\<lparr>search_map_idx := ?i + 1, rp_maps := set_vec ?i None (rp_maps r), num_deleted_old := num_deleted_old r + 1\<rparr>"
        have "map_key (objs s1 ! (os ! ?i)) \<noteq> entry_key (es ! j)" if "k \<le> j" "j < length es" for j
        proof (cases "j = k")
          case False
          then have "k < j" using that by simp
          then have "me_start (es ! k) < me_start (es ! j)"
            using start that by (auto simp: rp_start_def dest: sorted_wrt_nth_less)
          then show ?thesis
            using \<open>\<not> me_start (es ! k) < _\<close> by (auto simp: map_key_def entry_key_def)
        qed (use nomatch in simp)
        then have inv': "rp_inv s1 os N es k reps ?r" by (rule rp_skip [OF inv refl True])
        have run: "reparse_old held (length os) (length os + k) ?i r =
            reparse_old held (length os) (length os + k) (search_map_idx ?r) ?r"
          using True vec neq starts False by (subst step) (auto simp: Let_def map_key_def)
        show ?thesis
          unfolding run by (rule less.hyps [OF _ inv']) (use True in simp)
      qed
    qed
  qed
qed

text \<open>The outer loop visits all new entries, or stops when no old entry is left.\<close>

lemma reparse_new_inv:
  assumes start: "rp_start s1 os N es"
  shows "rp_inv s1 os N es k reps r \<Longrightarrow> k + n = length es \<Longrightarrow>
    \<exists>k' reps' r'. reparse_new n held (length os) (length os + k) r = Ok () r' \<and> rp_inv s1 os N es k' reps' r' \<and>
      (k' = length es \<or> k' \<le> length es \<and> search_map_idx r' = length os)"
proof (induction n arbitrary: k reps r)
  case (Suc n)
  obtain reps' r' where r: "reparse_old held (length os) (length os + k) (search_map_idx r) r = Ok () r'"
      "rp_inv s1 os N es (Suc k) reps' r'"
    using reparse_old_inv [OF start Suc.prems(1)] Suc.prems(2) by fastforce
  show ?case
  proof (cases "length os \<le> search_map_idx r'")
    case True
    then have "search_map_idx r' = length os" using rp_invD(10) [OF r(2)] by simp
    then show ?thesis using r Suc.prems(2) by (intro exI [of _ "Suc k"]) auto
  next
    case False
    then show ?thesis using Suc.IH [OF r(2)] Suc.prems(2) r(1) by auto
  qed
qed auto

section \<open>Dropping, sorting and shrinking\<close>

lemma update_order:
  "r\<lparr>search_map_idx := i, rp_maps := m, num_deleted_old := n\<rparr> = (r :: reparse)\<lparr>rp_maps := m, num_deleted_old := n, search_map_idx := i\<rparr>"
  by (rule reparse.equality) simp_all

lemma drop_old_inv:
  "rp_inv s1 os N es (length es) reps (r\<lparr>search_map_idx := i\<rparr>) \<Longrightarrow> i + n = length os \<Longrightarrow>
    rp_inv s1 os N es (length es) reps ((drop_old n i r)\<lparr>search_map_idx := length os\<rparr>)"
proof (induction n i r rule: drop_old.induct)
  case (2 n i r)
  have "rp_inv s1 os N es (length es) reps
      (r\<lparr>rp_maps := set_vec i None (rp_maps r), num_deleted_old := num_deleted_old r + 1, search_map_idx := i + 1\<rparr>)"
    using rp_skip [OF 2(2), of i] 2(3) by (simp add: update_order)
  then show ?case using 2 by simp
qed simp

lemma rp_inv_finish:
  "rp_inv s1 os N es k reps r \<Longrightarrow> k \<le> length es \<Longrightarrow> search_map_idx r = length os \<Longrightarrow> rp_inv s1 os N es (length es) reps r"
proof (induction "length es - k" arbitrary: k)
  case (Suc n)
  have "rp_inv s1 os N es (Suc k) reps r" by (rule rp_stop [OF Suc.prems(1)]) (use Suc.prems(3) in simp)
  then show ?case using Suc.hyps(1) [of "Suc k"] Suc.hyps(2) Suc.prems(2,3) by simp
qed simp

text \<open>The pointers that are left.\<close>

lemma rp_inv_vec:
  assumes inv: "rp_inv s1 os N es (length es) reps r" and search: "search_map_idx r = length os"
  shows "maps_vec (rp_maps r) = map (\<lambda>p. if p \<in> set reps then Some p else None) os @
    map (\<lambda>j. if reps ! j = N + j then Some (N + j) else None) [0 ..< length es]"
proof (rule nth_equalityI)
  note I = rp_invD [OF inv]
  show "length (maps_vec (rp_maps r)) = length (map (\<lambda>p. if p \<in> set reps then Some p else None) os @
    map (\<lambda>j. if reps ! j = N + j then Some (N + j) else None) [0 ..< length es])" using I(1) by simp
  fix i
  assume "i < length (maps_vec (rp_maps r))"
  then show "maps_vec (rp_maps r) ! i = (map (\<lambda>p. if p \<in> set reps then Some p else None) os @
    map (\<lambda>j. if reps ! j = N + j then Some (N + j) else None) [0 ..< length es]) ! i"
    using I(1) I(11) [of i] I(9) [of "i - length os"] search by (auto simp: nth_append)
qed

lemma filter_Some_map: "map the (filter (\<lambda>x. x \<noteq> None) (map (\<lambda>p. if P p then Some (f p) else None) ps)) = map f (filter P ps)"
  by (induction ps) auto

lemma sort_key_unique:
  fixes f :: "'v \<Rightarrow> 'k::linorder"
  assumes "sorted_wrt (\<lambda>a b. f a < f b) ys" and "distinct xs" and "set xs = set ys"
  shows "sort_key f xs = ys"
proof -
  have ys: "sorted_wrt (<) (map f ys)" using assms(1) by (simp add: sorted_wrt_map)
  then have inj: "inj_on f (set xs)"
    unfolding assms(3) by (metis strict_sorted_iff distinct_map)
  have "map f (sort_key f xs) = map f ys"
  proof (rule sorted_distinct_set_unique)
    show "sorted (map f ys)" "distinct (map f ys)" using ys by (simp_all add: strict_sorted_iff)
    show "distinct (map f (sort_key f xs))" using assms(2) inj by (simp add: distinct_map)
    show "set (map f (sort_key f xs)) = set (map f ys)" using assms(3) by simp
  qed simp
  then show ?thesis
    by (rule map_inj_on) (use inj assms(3) in simp)
qed

lemma rp_inv_sorted:
  assumes start: "rp_start s1 os N es" and inv: "rp_inv s1 os N es (length es) reps r" and search: "search_map_idx r = length os"
  shows "maps_vec (sort_maps (rp_maps r)) = map Some reps @ replicate (num_deleted_old r + num_deleted_new r) None"
proof -
  note I = rp_invD [OF inv] and vec = rp_inv_vec [OF inv search]
  let ?f = "\<lambda>p. mi_start (objs (rp_maps r) ! p)"
  let ?ps = "map the (filter (\<lambda>x. x \<noteq> None) (maps_vec (rp_maps r)))"
  have ps: "?ps = filter (\<lambda>p. p \<in> set reps) os @ map (\<lambda>j. N + j) (filter (\<lambda>j. reps ! j = N + j) [0 ..< length es])"
    unfolding vec filter_append map_append filter_Some_map by simp
  have "p < N" if "p \<in> set os" for p using start that by (simp add: rp_start_def)
  then have distinct: "distinct ?ps"
    unfolding ps using start by (auto simp: rp_start_def distinct_map inj_on_def)
  have set: "set ?ps = set reps"
  proof -
    have "p \<in> set ?ps" if "p \<in> set reps" for p
      using that I(4) I(8) unfolding ps by (fastforce simp: in_set_conv_nth [of _ reps])
    moreover have "p \<in> set reps" if "p \<in> set ?ps" for p
      using that I(4) unfolding ps by auto (metis nth_mem)
    ultimately show ?thesis by blast
  qed
  have key: "?f (reps ! j) = me_start (es ! j)" if "j < length es" for j
    using I(3) I(7) [OF that] by (simp add: map_key_def entry_key_def)
  have "sorted_wrt (\<lambda>p q. ?f p < ?f q) reps"
    using start key I(4) by (auto simp: sorted_wrt_iff_nth_less rp_start_def)
  from sort_key_unique [OF this distinct set] have sort: "sort_key ?f ?ps = reps" .
  have "filter (\<lambda>x. x = None) xs = replicate (count_list xs None) None" for xs :: "nat option list"
    by (induction xs) auto
  moreover have "count_list (maps_vec (rp_maps r)) None = num_deleted_old r + num_deleted_new r"
    using I(13) count_list_append [of "take (length os) (maps_vec (rp_maps r))"] by (metis append_take_drop_id)
  ultimately show ?thesis unfolding sort_maps_def sort by simp
qed

text \<open>The list before the update.\<close>

definition maps_sorted :: "maps \<Rightarrow> nat list \<Rightarrow> bool" where
  "maps_sorted s ps \<longleftrightarrow> maps_vec s = map Some ps \<and> (\<forall>p \<in> set ps. p < length (objs s)) \<and>
     sorted_wrt (\<lambda>p q. mi_start (objs s ! p) < mi_start (objs s ! q)) ps"

lemma maps_sorted_distinct: "maps_sorted s ps \<Longrightarrow> distinct ps"
proof -
  assume "maps_sorted s ps"
  then have "sorted_wrt (<) (map (\<lambda>p. mi_start (objs s ! p)) ps)" by (simp add: maps_sorted_def sorted_wrt_map)
  then show ?thesis by (simp add: strict_sorted_iff distinct_map)
qed

lemma parsed_start:
  assumes old: "maps_sorted s os" and es: "sorted_wrt (\<lambda>a b. me_start a < me_start b) es"
  defines "s1 \<equiv> parse_entries es None s"
  shows "rp_start s1 os (length (objs s)) es"
    "rp_inv s1 os (length (objs s)) es 0 [length (objs s) ..< length (objs s) + length es]
      \<lparr>rp_maps = s1, search_map_idx = 0, num_deleted_old = 0, num_deleted_new = 0\<rparr>"
proof -
  let ?N = "length (objs s)"
  have objs: "objs s1 = objs s @ new_objs ?N None es" "maps_vec s1 = map Some os @ map Some [?N ..< ?N + length es]"
    using old by (simp_all add: s1_def parse_entries_objs parse_entries_vec maps_sorted_def)
  have old_objs: "objs s1 ! p = objs s ! p" if "p \<in> set os" for p
    using old that by (simp add: objs nth_append maps_sorted_def)
  have "sorted_wrt (\<lambda>p q. mi_start (objs s1 ! p) < mi_start (objs s1 ! q)) os"
    using old old_objs by (auto simp: maps_sorted_def elim!: sorted_wrt_mono_rel [rotated])
  then show "rp_start s1 os ?N es"
    using old es maps_sorted_distinct [OF old] by (simp add: rp_start_def objs maps_sorted_def)
  have "map_key (objs s1 ! (?N + j)) = entry_key (es ! j)" if "j < length es" for j
    using that by (simp add: objs nth_append nth_new_objs map_key_def entry_key_def MapInfo_new_def)
  moreover have "os ! i \<notin> set [?N ..< ?N + length es]" if "i < length os" for i
    using old nth_mem [OF that] by (auto simp: maps_sorted_def)
  moreover have "chain s1 [?N ..< ?N + length es]" unfolding s1_def by (rule parse_chain)
  moreover have "count_list (map Some xs) None = 0" for xs :: "nat list" by (induction xs) auto
  ultimately show "rp_inv s1 os ?N es 0 [?N ..< ?N + length es]
      \<lparr>rp_maps = s1, search_map_idx = 0, num_deleted_old = 0, num_deleted_new = 0\<rparr>"
    by (simp add: rp_inv_def objs nth_append)
qed

lemma Reparse_updates:
  assumes old: "maps_sorted s os" and es: "sorted_wrt (\<lambda>a b. me_start a < me_start b) es"
  shows "\<exists>reps changed t. Reparse held es True s = Ok changed t \<and> maps_vec t = map Some reps \<and> length reps = length es \<and>
    chain t reps \<and> (\<forall>j < length es. map_key (objs t ! (reps ! j)) = entry_key (es ! j)) \<and>
    (\<forall>i < length os. \<forall>j < length es. map_key (objs s ! (os ! i)) = entry_key (es ! j) \<longrightarrow> reps ! j = os ! i) \<and>
    (\<forall>p < length (objs s). map_key (objs t ! p) = map_key (objs s ! p)) \<and> maps_sorted t reps"
proof -
  let ?N = "length (objs s)" and ?s1 = "parse_entries es None s"
  let ?r0 = "\<lparr>rp_maps = ?s1, search_map_idx = 0, num_deleted_old = 0, num_deleted_new = 0\<rparr>"
  note start = parsed_start(1) [OF assms] and inv0 = parsed_start(2) [OF assms]
  have len: "length (maps_vec ?s1) - length (maps_vec s) = length es" "length (maps_vec s) = length os"
    using old by (simp_all add: parse_entries_vec maps_sorted_def)
  obtain k reps r where r: "reparse_new (length es) held (length os) (length os) ?r0 = Ok () r" "rp_inv ?s1 os ?N es k reps r"
      "k = length es \<or> k \<le> length es \<and> search_map_idx r = length os"
    using reparse_new_inv [OF start inv0, of "length es" held] by auto
  have full: "rp_inv ?s1 os ?N es (length es) reps r"
    using r(2,3) rp_inv_finish by blast
  let ?r = "drop_old (length os - search_map_idx r) (search_map_idx r) r"
  have inv: "rp_inv ?s1 os ?N es (length es) reps (?r\<lparr>search_map_idx := length os\<rparr>)"
    using full rp_invD(10) [OF full] by (intro drop_old_inv) auto
  note I = rp_invD [OF inv]
  have vec: "maps_vec (sort_maps (rp_maps ?r)) = map Some reps @ replicate (num_deleted_old ?r + num_deleted_new ?r) None"
    using rp_inv_sorted [OF start inv] by simp
  let ?t = "(sort_maps (rp_maps ?r))\<lparr>maps_vec := map Some reps\<rparr>"
  have "Reparse held es True s =
      Ok (num_deleted_old ?r \<noteq> 0 \<or> length reps \<noteq> length os) ?t"
    using r(1) len vec by (simp add: Reparse_def Maps_Parse_def Let_def)
  moreover have objs_t: "objs ?t = objs (rp_maps ?r)" by (simp add: sort_maps_def)
  moreover have "chain ?t reps" using I(6) by (simp add: chain_def objs_t)
  moreover have "map_key (objs ?t ! (reps ! j)) = entry_key (es ! j)" if "j < length es" for j
    using I(3) I(7) [OF that] by (simp add: objs_t)
  moreover have old_objs: "objs ?s1 ! p = objs s ! p" if "p < length (objs s)" for p
    using that by (simp add: parse_entries_objs nth_append)
  moreover have "reps ! j = os ! i" if "i < length os" "j < length es" "map_key (objs s ! (os ! i)) = entry_key (es ! j)" for i j
    using I(15) [OF that(1,2,2)] that old old_objs by (simp add: maps_sorted_def)
  moreover have "map_key (objs ?t ! p) = map_key (objs s ! p)" if "p < length (objs s)" for p
    using I(3) old_objs [OF that] by (simp add: objs_t)
  moreover have "maps_sorted ?t reps"
  proof -
    have "\<forall>p \<in> set reps. p < length (objs ?t)"
      using rp_inv_held [OF start inv] by (simp add: all_held_def objs_t)
    moreover have "mi_start (objs ?t ! (reps ! j)) = me_start (es ! j)" if "j < length es" for j
      using I(3) I(7) [OF that] by (simp add: objs_t map_key_def entry_key_def)
    ultimately show ?thesis
      using es I(4) by (auto simp: maps_sorted_def sorted_wrt_iff_nth_less)
  qed
  ultimately show ?thesis
    using I(4) by (intro exI [of _ reps] exI [of _ "num_deleted_old ?r \<noteq> 0 \<or> length reps \<noteq> length os"] exI [of _ ?t]) simp
qed

end
