(* ===== verification/Map_Lookup.thy ===== *)
theory Map_Lookup
  imports Map_Update
begin

text \<open>
  Looking up the map of an address, in a list of disjoint maps and with the list read again when there is none.
\<close>

section \<open>Search\<close>

definition map_entry_side :: "maps \<Rightarrow> u64 \<Rightarrow> u64 \<Rightarrow> side option" where
  "map_entry_side s pc i =
     (if unat i < length (maps_vec s) then map_option (\<lambda>p. map_side pc (objs s ! p)) (maps_vec s ! unat i) else None)"

interpretation map_table: probed_table half_sum max_half "map_probe s pc" "\<lambda>_. True" "map_entry_side s pc" for s pc
  by unfold_locales
    (use half_sum_between in \<open>auto simp: map_entry_side_def map_probe_def split: if_splits option.splits\<close>)

definition covers_pc :: "map_info \<Rightarrow> u64 \<Rightarrow> bool" where
  "covers_pc m pc \<longleftrightarrow> mi_start m \<le> pc \<and> pc < mi_end m"

lemma map_side_Here [simp]: "map_side pc m = Here \<longleftrightarrow> covers_pc m pc"
  by (simp add: map_side_def covers_pc_def)

text \<open>A list of maps that end before the next one starts.\<close>

definition maps_disjoint :: "maps \<Rightarrow> nat list \<Rightarrow> bool" where
  "maps_disjoint s ps \<longleftrightarrow> maps_vec s = map Some ps \<and> length ps < 2 ^ 63 \<and>
     (\<forall>p \<in> set ps. mi_start (objs s ! p) \<le> mi_end (objs s ! p)) \<and>
     sorted_wrt (\<lambda>p q. mi_end (objs s ! p) \<le> mi_start (objs s ! q)) ps"

lemma maps_disjoint_ordered:
  assumes disjoint: "maps_disjoint s ps"
  shows "ordered_table (map_entry_side s pc) (of_nat (length ps))"
proof (rule ordered_tableI [where f = "\<lambda>i. map_side pc (objs s ! (ps ! unat i))"])
  have vec: "maps_vec s = map Some ps" and len: "unat (of_nat (length ps) :: u64) = length ps"
    using disjoint by (simp_all add: maps_disjoint_def unsigned_of_nat take_bit_nat_eq_self)
  show "map_entry_side s pc i = Some (map_side pc (objs s ! (ps ! unat i)))" if "i < of_nat (length ps)" for i
    using that len by (simp add: map_entry_side_def vec word_less_nat_alt)
  fix i j :: u64
  assume ij: "i < j" "j < of_nat (length ps)"
  then have lt: "unat i < unat j" "unat j < length ps" using len by (simp_all add: word_less_nat_alt)
  then have "mi_end (objs s ! (ps ! unat i)) \<le> mi_start (objs s ! (ps ! unat j))"
      "mi_start (objs s ! (ps ! unat i)) \<le> mi_end (objs s ! (ps ! unat i))"
    using disjoint by (auto simp: maps_disjoint_def dest: sorted_wrt_nth_less)
  then show "map_side pc (objs s ! (ps ! unat i)) = Below \<Longrightarrow> map_side pc (objs s ! (ps ! unat j)) = Below"
    "map_side pc (objs s ! (ps ! unat j)) = Above \<Longrightarrow> map_side pc (objs s ! (ps ! unat i)) = Above"
    by (auto simp: map_side_def split: if_splits)
qed

lemma Maps_Find_covers:
  assumes disjoint: "maps_disjoint s ps"
  shows "\<exists>res. Maps_Find pc s = Some (Ok res ()) \<and>
    (case res of
       Some p \<Rightarrow> p \<in> set ps \<and> covers_pc (objs s ! p) pc
     | None \<Rightarrow> \<forall>p \<in> set ps. \<not> covers_pc (objs s ! p) pc)"
proof (cases "ps = []")
  case True
  then show ?thesis using disjoint by (simp add: Maps_Find_def maps_disjoint_def)
next
  case False
  have vec: "maps_vec s = map Some ps" and small: "length ps < 2 ^ 63" using disjoint by (simp_all add: maps_disjoint_def)
  have len: "unat (of_nat (length ps) :: u64) = length ps"
    using small by (simp add: unsigned_of_nat take_bit_nat_eq_self)
  have max: "of_nat (length ps) \<le> max_half"
    using small len by (simp add: word_le_nat_alt)
  obtain p where p: "search_loop half_sum (map_probe s pc) 0 (of_nat (length ps)) () = Some (Ok p ())"
      "at_position (map_entry_side s pc) (of_nat (length ps)) p"
    using map_table.search_position [OF TrueI max maps_disjoint_ordered [OF disjoint]] by auto
  have side: "map_entry_side s pc i = Some (map_side pc (objs s ! (ps ! unat i)))" if "i < of_nat (length ps)" for i
    using that len by (simp add: map_entry_side_def vec word_less_nat_alt)
  show ?thesis
  proof (cases p)
    case (Found i)
    then have i: "i < of_nat (length ps)" "covers_pc (objs s ! (ps ! unat i)) pc"
      using p(2) side by auto
    then have "unat i < length ps" using len by (simp add: word_less_nat_alt)
    with i(2) p(1) Found vec False show ?thesis by (simp add: Maps_Find_def)
  next
    case (Bound j)
    have "\<not> covers_pc (objs s ! q) pc" if q: "q \<in> set ps" for q
    proof -
      obtain n where n: "n < length ps" "ps ! n = q" using q by (auto simp: in_set_conv_nth)
      then have i: "unat (of_nat n :: u64) = n" using small by (simp add: unsigned_of_nat take_bit_nat_eq_self)
      then have lt: "(of_nat n :: u64) < of_nat (length ps)" using n(1) len by (simp add: word_less_nat_alt)
      have "map_entry_side s pc (of_nat n) = Some Above \<or> map_entry_side s pc (of_nat n) = Some Below"
        using p(2) Bound lt by (cases "of_nat n < j") auto
      then show ?thesis
        using side [OF lt] i n(2) by (auto simp: map_side_def covers_pc_def split: if_splits)
    qed
    with p(1) Bound vec False show ?thesis by (simp add: Maps_Find_def)
  qed
qed

section \<open>Sorting\<close>

lemma link_maps_simps [simp]:
  "maps_vec (link_maps ps prev s) = maps_vec s" "length (objs (link_maps ps prev s)) = length (objs s)"
  by (induction ps prev s rule: link_maps.induct) (simp_all add: Let_def split: option.split)

lemma link_maps_links:
  assumes "distinct ps" and "\<forall>p \<in> set ps. p < length (objs s)" and "\<forall>q. prev = Some q \<longrightarrow> q < length (objs s) \<and> q \<notin> set ps"
  shows "(\<forall>k < length ps. mi_prev (objs (link_maps ps prev s) ! (ps ! k)) = (if k = 0 then prev else Some (ps ! (k - 1))) \<and>
      mi_next (objs (link_maps ps prev s) ! (ps ! k)) =
        (if k + 1 < length ps then Some (ps ! (k + 1)) else mi_next (objs s ! (ps ! k)))) \<and>
    (\<forall>x. x \<notin> set ps \<longrightarrow> mi_prev (objs (link_maps ps prev s) ! x) = mi_prev (objs s ! x)) \<and>
    (\<forall>x. x \<notin> set ps \<longrightarrow> mi_next (objs (link_maps ps prev s) ! x) =
        (if ps \<noteq> [] \<and> prev = Some x then Some (hd ps) else mi_next (objs s ! x)))"
  using assms
proof (induction ps prev s rule: link_maps.induct)
  case (2 p ps prev s)
  let ?s = "case prev of None \<Rightarrow> set_obj p (\<lambda>m. m\<lparr>mi_prev := prev\<rparr>) s
    | Some q \<Rightarrow> set_obj q (\<lambda>m. m\<lparr>mi_next := Some p\<rparr>) (set_obj p (\<lambda>m. m\<lparr>mi_prev := prev\<rparr>) s)"
  have len: "length (objs ?s) = length (objs s)" by (simp split: option.split)
  have prev: "mi_prev (objs ?s ! x) = (if x = p then prev else mi_prev (objs s ! x))"
    and "next": "mi_next (objs ?s ! x) = (if prev = Some x then Some p else mi_next (objs s ! x))" for x
    using 2(3,4) by (cases prev; auto simp: nth_set_obj)+
  have run: "link_maps (p # ps) prev s = link_maps ps (Some p) ?s" by (simp add: Let_def)
  have pre: "distinct ps" "\<forall>p \<in> set ps. p < length (objs ?s)" "\<forall>q. Some p = Some q \<longrightarrow> q < length (objs ?s) \<and> q \<notin> set ps"
    using 2(2,3) by (simp_all add: len)
  note IH = 2(1) [OF refl refl pre]
  have p: "p \<notin> set ps" "prev \<noteq> Some p" using 2(2,4) by auto
  show ?case
    unfolding run
  proof (intro conjI allI impI)
    fix k
    assume k: "k < length (p # ps)"
    show "mi_prev (objs (link_maps ps (Some p) ?s) ! ((p # ps) ! k)) = (if k = 0 then prev else Some ((p # ps) ! (k - 1)))"
      using IH p k prev by (cases k) (auto simp: nth_Cons')
    show "mi_next (objs (link_maps ps (Some p) ?s) ! ((p # ps) ! k)) =
        (if k + 1 < length (p # ps) then Some ((p # ps) ! (k + 1)) else mi_next (objs s ! ((p # ps) ! k)))"
      using IH p k "next" 2(4) by (cases k) (auto simp: hd_conv_nth)
  next
    fix x
    assume x: "x \<notin> set (p # ps)"
    show "mi_prev (objs (link_maps ps (Some p) ?s) ! x) = mi_prev (objs s ! x)"
      using IH x prev by simp
    show "mi_next (objs (link_maps ps (Some p) ?s) ! x) = (if p # ps \<noteq> [] \<and> prev = Some x then Some (hd (p # ps)) else mi_next (objs s ! x))"
      using IH x "next" by simp
  qed
qed simp

lemma link_maps_key: "map_key (objs (link_maps ps prev s) ! x) = map_key (objs s ! x)"
  by (induction ps prev s rule: link_maps.induct) (simp_all add: Let_def set_obj_key split: option.split)

text \<open>Sorting keeps the objects, orders them by start and links them in that order.\<close>

lemma Maps_Sort_links:
  assumes vec: "maps_vec s = map Some ps" and "distinct ps" and valid: "\<forall>p \<in> set ps. p < length (objs s)"
  shows "\<exists>qs. maps_vec (Maps_Sort s) = map Some qs \<and> distinct qs \<and> set qs = set ps \<and>
    sorted (map (\<lambda>p. mi_start (objs (Maps_Sort s) ! p)) qs) \<and> chain (Maps_Sort s) qs"
proof (cases "ps = []")
  case True
  then show ?thesis using vec by (simp add: Maps_Sort_def chain_def)
next
  case False
  define qs where "qs = sort_key (\<lambda>p. mi_start (objs s ! p)) ps"
  define t where "t = set_obj (last qs) (\<lambda>m. m\<lparr>mi_next := None\<rparr>) (s\<lparr>maps_vec := map Some qs\<rparr>)"
  have "filter (\<lambda>x. x \<noteq> None) (map Some ps) = map Some ps" "filter (\<lambda>x. x = None) (map Some ps) = []"
    by (induction ps) auto
  then have "sort_maps s = s\<lparr>maps_vec := map Some qs\<rparr>" unfolding sort_maps_def vec qs_def by (simp add: comp_def)
  then have sort: "Maps_Sort s = link_maps qs None t"
    using vec False by (simp add: Maps_Sort_def Let_def comp_def t_def)
  have qs: "qs \<noteq> []" "distinct qs" "\<forall>p \<in> set qs. p < length (objs s)" "set qs = set ps"
    using False assms(2) valid by (auto simp: qs_def set_empty [symmetric] simp del: set_empty)
  have tl: "length (objs t) = length (objs s)" "maps_vec t = map Some qs" by (simp_all add: t_def)
  note links = link_maps_links [of qs t None, simplified, unfolded tl, OF qs(2,3)]
  have lst: "last qs < length (objs s)" using qs(1,3) last_in_set by fastforce
  have nx: "mi_next (objs t ! last qs) = None"
    using lst by (simp add: t_def nth_set_obj)
  have start: "mi_start (objs (link_maps qs None t) ! p) = mi_start (objs s ! p)" for p
  proof -
    have "mi_start (objs (link_maps qs None t) ! p) = mi_start (objs t ! p)"
      using link_maps_key [of qs None t p] by (simp add: map_key_def)
    also have "\<dots> = mi_start (objs s ! p)" using lst by (simp add: t_def nth_set_obj)
    finally show ?thesis .
  qed
  have "qs ! k = last qs" if "k < length qs" "\<not> k + 1 < length qs" for k
  proof -
    have "k = length qs - 1" using that by simp
    then show ?thesis using qs(1) by (simp add: last_conv_nth)
  qed
  then have "chain (link_maps qs None t) qs"
    using links nx by (simp add: chain_def)
  moreover have "sorted (map (\<lambda>p. mi_start (objs s ! p)) qs)" unfolding qs_def by (rule sorted_sort_key)
  ultimately show ?thesis
    unfolding sort using qs(2,4) tl(2) by (intro exI [of _ qs]) (simp add: start)
qed

section \<open>Properties\<close>


definition maps_example :: maps where
  "maps_example = Maps_Add 0x3000 0x4000 0 5 ''b'' (Maps_Add 0x1000 0x2000 0 5 ''a'' Maps_new)"

definition entries_example :: "map_entry list" where
  "entries_example =
     [\<lparr>me_start = 0x2000, me_end = 0x3000, me_pgoff = 0, me_flags = 5, me_name = ''c''\<rparr>,
      \<lparr>me_start = 0x3000, me_end = 0x4000, me_pgoff = 0, me_flags = 5, me_name = ''b''\<rparr>]"

lemma maps_example_sorted: "maps_sorted maps_example [0, 1]"
  by (simp add: maps_sorted_def maps_example_def Maps_Add_def Maps_new_def MapInfo_Create_def MapInfo_new_def last_map_def
      set_obj_def Let_def)


text \<open>The entries of a maps file: not empty, disjoint, in ascending order.\<close>

definition entries_disjoint :: "map_entry list \<Rightarrow> bool" where
  "entries_disjoint es \<longleftrightarrow> length es < 2 ^ 63 \<and> (\<forall>e \<in> set es. me_start e < me_end e) \<and>
     sorted_wrt (\<lambda>a b. me_end a \<le> me_start b) es"

definition entry_covers :: "map_entry \<Rightarrow> u64 \<Rightarrow> bool" where
  "entry_covers e pc \<longleftrightarrow> me_start e \<le> pc \<and> pc < me_end e"

lemma entries_disjoint_sorted:
  assumes "entries_disjoint es"
  shows "sorted_wrt (\<lambda>a b. me_start a < me_start b) es"
  unfolding sorted_wrt_iff_nth_less
proof (intro allI impI)
  fix i j
  assume "i < j" "j < length es"
  then have "me_start (es ! i) < me_end (es ! i)" "me_end (es ! i) \<le> me_start (es ! j)"
    using assms by (auto simp: entries_disjoint_def dest: sorted_wrt_nth_less)
  then show "me_start (es ! i) < me_start (es ! j)" by simp
qed

text \<open>A list whose objects have the keys of disjoint entries.\<close>

lemma refreshed_disjoint:
  assumes "entries_disjoint es" and "maps_sorted t qs" and "length qs = length es"
    and keys: "\<forall>j < length es. map_key (objs t ! (qs ! j)) = entry_key (es ! j)"
  shows "maps_disjoint t qs" "j < length es \<Longrightarrow> covers_pc (objs t ! (qs ! j)) pc \<longleftrightarrow> entry_covers (es ! j) pc"
proof -
  have key: "mi_start (objs t ! (qs ! j)) = me_start (es ! j)" "mi_end (objs t ! (qs ! j)) = me_end (es ! j)" if "j < length es" for j
    using keys that by (simp_all add: map_key_def entry_key_def)
  then show "j < length es \<Longrightarrow> covers_pc (objs t ! (qs ! j)) pc \<longleftrightarrow> entry_covers (es ! j) pc" for j
    by (simp add: covers_pc_def entry_covers_def)
  have "mi_start (objs t ! p) \<le> mi_end (objs t ! p)" if "p \<in> set qs" for p
  proof -
    from that assms(3) obtain i where "i < length es" "p = qs ! i" by (auto simp: in_set_conv_nth)
    moreover then have "me_start (es ! i) < me_end (es ! i)"
      using assms(1) by (simp add: entries_disjoint_def)
    ultimately show ?thesis using key [of i] by simp
  qed
  moreover have "sorted_wrt (\<lambda>p q. mi_end (objs t ! p) \<le> mi_start (objs t ! q)) qs"
    using assms(1,3) key by (simp add: entries_disjoint_def sorted_wrt_iff_nth_less)
  ultimately show "maps_disjoint t qs"
    using assms by (simp add: maps_disjoint_def maps_sorted_def entries_disjoint_def)
qed

text \<open>
  C18. Looking up an address in the maps of the own process returns a map of the list that covers it, and if there is none, reads the maps
  file again and returns a map that covers it exactly if the file has one.
\<close>

theorem LocalUpdatableMaps_Find_current:
  assumes "maps_sorted s ps" and "maps_disjoint s ps" and "entries_disjoint es"
  shows "\<exists>res t. LocalUpdatableMaps_Find held es True pc s = Some (Ok res t) \<and>
    (if \<exists>p \<in> set ps. covers_pc (objs s ! p) pc then t = s \<and> (\<exists>p \<in> set ps. res = Some p \<and> covers_pc (objs s ! p) pc)
     else case res of
         Some p \<Rightarrow> \<exists>e \<in> set es. map_key (objs t ! p) = entry_key e \<and> entry_covers e pc
       | None \<Rightarrow> \<forall>e \<in> set es. \<not> entry_covers e pc)"
proof -
  obtain found where found: "Maps_Find pc s = Some (Ok found ())"
      "case found of Some p \<Rightarrow> p \<in> set ps \<and> covers_pc (objs s ! p) pc | None \<Rightarrow> \<forall>p \<in> set ps. \<not> covers_pc (objs s ! p) pc"
    using Maps_Find_covers [OF assms(2)] by blast
  show ?thesis
  proof (cases found)
    case (Some p)
    with found show ?thesis by (auto simp: LocalUpdatableMaps_Find_def)
  next
    case None
    obtain qs changed t where t: "Reparse held es True s = Ok changed t" "maps_sorted t qs" "length qs = length es"
        "\<forall>j < length es. map_key (objs t ! (qs ! j)) = entry_key (es ! j)"
      using Reparse_updates [OF assms(1) entries_disjoint_sorted [OF assms(3)], of held] by blast
    note disjoint = refreshed_disjoint [OF assms(3) t(2-4)]
    obtain res where res: "Maps_Find pc t = Some (Ok res ())"
        "case res of Some p \<Rightarrow> p \<in> set qs \<and> covers_pc (objs t ! p) pc | None \<Rightarrow> \<forall>p \<in> set qs. \<not> covers_pc (objs t ! p) pc"
      using Maps_Find_covers [OF disjoint(1)] by blast
    have "case res of
         Some p \<Rightarrow> \<exists>e \<in> set es. map_key (objs t ! p) = entry_key e \<and> entry_covers e pc
       | None \<Rightarrow> \<forall>e \<in> set es. \<not> entry_covers e pc"
    proof (cases res)
      case None
      have "\<not> entry_covers (es ! i) pc" if "i < length es" for i
      proof -
        have "qs ! i \<in> set qs" using t(3) that by simp
        with None res(2) have "\<not> covers_pc (objs t ! (qs ! i)) pc" by simp
        then show ?thesis using disjoint(2) [OF that, of pc] by blast
      qed
      with None show ?thesis by (auto simp: in_set_conv_nth)
    next
      case (Some p)
      then obtain j where j: "j < length es" "p = qs ! j" using res(2) t(3) by (auto simp: in_set_conv_nth)
      then show ?thesis
        using Some res(2) disjoint(2) [OF j(1)] t(4) by (auto intro!: bexI [of _ "es ! j"])
    qed
    with found None t(1) res(1) show ?thesis by (auto simp: LocalUpdatableMaps_Find_def)
  qed
qed

lemma LocalUpdatableMaps_Find_current_witness:
  "\<exists>res t. LocalUpdatableMaps_Find {} entries_example True 0x2800 maps_example = Some (Ok res t) \<and> res \<noteq> None"
proof -
  note defs = maps_example_def Maps_Add_def Maps_new_def MapInfo_Create_def MapInfo_new_def last_map_def set_obj_def Let_def
  have disjoint: "maps_disjoint maps_example [0, 1]" by (simp add: maps_disjoint_def defs)
  have es: "entries_disjoint entries_example" by (simp add: entries_disjoint_def entries_example_def)
  have none: "\<not> (\<exists>p \<in> set [0, 1]. covers_pc (objs maps_example ! p) 0x2800)" by (simp add: covers_pc_def defs)
  have hit: "\<exists>e \<in> set entries_example. entry_covers e 0x2800" by (simp add: entry_covers_def entries_example_def)
  from LocalUpdatableMaps_Find_current [OF maps_example_sorted disjoint es, of "{}" "0x2800"]
  show ?thesis using none hit by (auto split: option.splits)
qed

end
