(* ===== verification/Elf_Interface.thy ===== *)
theory Elf_Interface
  imports Dwarf_Eval Symbols
begin

text \<open>
  \<^verbatim>\<open>libunwindstack/ElfInterface.cpp\<close>: what the unwinder takes from the headers of an ELF file, the DWARF sections and symbol tables it
  finds there, and unwinding one frame with them. The memory the file is read through is an argument. A class that derives from
  \<^verbatim>\<open>ElfInterfaceImpl\<close> extends the record.
\<close>

section \<open>State\<close>

record LoadInfo =
  li_offset :: u64
  table_offset :: u64
  table_size :: u64

datatype soname_state = SONAME_UNKNOWN | SONAME_VALID | SONAME_INVALID

text \<open>
  \<open>pt_loads\<close> is an unordered map; the code only asks whether some entry has a property, so its order does not matter and the model
  keeps it sorted. A section comes with what \<^verbatim>\<open>Init\<close> set. Signed members are kept as their bits.
\<close>

record elf_interface =
  pt_loads :: "(u64, LoadInfo) omap"
  dynamic_offset :: u64
  dynamic_vaddr_start :: u64
  dynamic_vaddr_end :: u64
  data_sec_offset :: u64
  data_vaddr_start :: u64
  data_vaddr_end :: u64
  eh_frame_hdr_offset :: u64
  eh_frame_hdr_section_bias :: u64
  eh_frame_hdr_size :: u64
  eh_frame_offset :: u64
  eh_frame_section_bias :: u64
  eh_frame_size :: u64
  debug_frame_offset :: u64
  debug_frame_section_bias :: u64
  debug_frame_size :: u64
  gnu_debugdata_offset :: u64
  gnu_debugdata_size :: u64
  gnu_build_id_offset :: u64
  gnu_build_id_size :: u64
  text_addr :: u64
  text_size :: u64
  soname_type :: soname_state
  soname :: "u8 list"
  if_error :: ErrorData
  eh_frame :: "(section_env \<times> unwind_section) option"
  debug_frame :: "(section_env \<times> unwind_section) option"
  if_symbols :: "symbols list"
  strtabs :: "(u64 \<times> u64) list"

definition ElfInterface_new :: elf_interface where
  "ElfInterface_new =
     \<lparr>pt_loads = [], dynamic_offset = 0, dynamic_vaddr_start = 0, dynamic_vaddr_end = 0, data_sec_offset = 0, data_vaddr_start = 0,
      data_vaddr_end = 0, eh_frame_hdr_offset = 0, eh_frame_hdr_section_bias = 0, eh_frame_hdr_size = 0, eh_frame_offset = 0,
      eh_frame_section_bias = 0, eh_frame_size = 0, debug_frame_offset = 0, debug_frame_section_bias = 0, debug_frame_size = 0,
      gnu_debugdata_offset = 0, gnu_debugdata_size = 0, gnu_build_id_offset = 0, gnu_build_id_size = 0, text_addr = 0, text_size = 0,
      soname_type = SONAME_UNKNOWN, soname = [], if_error = \<lparr>ed_code = ERROR_NONE, ed_address = 0\<rparr>, eh_frame = None,
      debug_frame = None, if_symbols = [], strtabs = []\<rparr>"

text \<open>The bytes of a literal.\<close>

definition str_bytes :: "string \<Rightarrow> u8 list" where
  "str_bytes cs = map of_char cs"

section \<open>Program headers\<close>

abbreviation (input) PT_LOAD :: u32 where "PT_LOAD \<equiv> 1"
abbreviation (input) PT_DYNAMIC :: u32 where "PT_DYNAMIC \<equiv> 2"
abbreviation (input) PT_GNU_EH_FRAME :: u32 where "PT_GNU_EH_FRAME \<equiv> 0x6474e550"
abbreviation (input) PF_X :: u32 where "PF_X \<equiv> 1"

text \<open>The virtual function \<^verbatim>\<open>HandleUnknownType\<close> is the argument \<open>handle\<close>.\<close>

type_synonym 'z unknown_type = "u32 \<Rightarrow> u64 \<Rightarrow> u64 \<Rightarrow> 'z elf_interface_scheme \<Rightarrow> 'z elf_interface_scheme"

definition HandleUnknownType :: "'z unknown_type" where
  "HandleUnknownType type ph_offset ph_filesz s = s"

text \<open>The body of the loop; the state holds \<^verbatim>\<open>first_exec_load_header\<close> and \<^verbatim>\<open>*load_bias\<close>.\<close>

definition program_header ::
  "'z unknown_type \<Rightarrow> Phdr \<Rightarrow> bool \<times> u64 \<times> 'z elf_interface_scheme \<Rightarrow> bool \<times> u64 \<times> 'z elf_interface_scheme" where
  "program_header handle phdr st =
     (let (first, load_bias, s) = st
      in if p_type phdr = PT_LOAD then
           if p_flags phdr AND PF_X = 0 then st
           else (False, if first then p_vaddr phdr - p_offset phdr else load_bias,
                 s\<lparr>pt_loads := omap_put (p_offset phdr)
                     \<lparr>li_offset = p_offset phdr, table_offset = p_vaddr phdr, table_size = p_memsz phdr\<rparr> (pt_loads s)\<rparr>)
         else if p_type phdr = PT_GNU_EH_FRAME then
           (first, load_bias, s\<lparr>eh_frame_hdr_offset := p_offset phdr,
              eh_frame_hdr_section_bias := p_vaddr phdr - p_offset phdr, eh_frame_hdr_size := p_memsz phdr\<rparr>)
         else if p_type phdr = PT_DYNAMIC then
           (first, load_bias,
            if add_overflows (p_vaddr phdr) (p_memsz phdr)
            then s\<lparr>dynamic_offset := 0, dynamic_vaddr_start := 0, dynamic_vaddr_end := 0\<rparr>
            else s\<lparr>dynamic_offset := p_offset phdr, dynamic_vaddr_start := p_vaddr phdr,
                   dynamic_vaddr_end := p_vaddr phdr + p_memsz phdr\<rparr>)
         else (first, load_bias, handle (p_type phdr) (p_offset phdr) (p_filesz phdr) s))"

fun program_headers ::
  "nat \<Rightarrow> elf_class \<Rightarrow> reader \<Rightarrow> 'z unknown_type \<Rightarrow> Ehdr \<Rightarrow> u64 \<Rightarrow> bool \<times> u64 \<times> 'z elf_interface_scheme \<Rightarrow>
    u64 \<times> 'z elf_interface_scheme" where
  "program_headers 0 cls rd handle ehdr offset st = snd st"
| "program_headers (Suc n) cls rd handle ehdr offset st =
     (case read_Phdr cls rd offset of
        None \<Rightarrow> snd st
      | Some phdr \<Rightarrow>
          program_headers n cls rd handle ehdr (offset + ucast (e_phentsize ehdr)) (program_header handle phdr st))"

definition ReadProgramHeaders ::
  "elf_class \<Rightarrow> reader \<Rightarrow> 'z unknown_type \<Rightarrow> Ehdr \<Rightarrow> u64 \<times> 'z elf_interface_scheme \<Rightarrow> u64 \<times> 'z elf_interface_scheme" where
  "ReadProgramHeaders cls rd handle ehdr st =
     program_headers (unat (e_phnum ehdr)) cls rd handle ehdr (e_phoff ehdr) (True, st)"

text \<open>The static functions that read only what they need.\<close>

fun load_bias_scan :: "nat \<Rightarrow> elf_class \<Rightarrow> reader \<Rightarrow> Ehdr \<Rightarrow> u64 \<Rightarrow> u64" where
  "load_bias_scan 0 cls rd ehdr offset = 0"
| "load_bias_scan (Suc n) cls rd ehdr offset =
     (case read_Phdr cls rd offset of
        None \<Rightarrow> 0
      | Some phdr \<Rightarrow>
          if p_type phdr = PT_LOAD \<and> p_flags phdr AND PF_X \<noteq> 0 then p_vaddr phdr - p_offset phdr
          else load_bias_scan n cls rd ehdr (offset + ucast (e_phentsize ehdr)))"

definition ElfInterface_GetLoadBias :: "elf_class \<Rightarrow> reader \<Rightarrow> u64" where
  "ElfInterface_GetLoadBias cls rd =
     (case read_Ehdr cls rd 0 of
        None \<Rightarrow> 0
      | Some ehdr \<Rightarrow> load_bias_scan (unat (e_phnum ehdr)) cls rd ehdr (e_phoff ehdr))"

text \<open>\<^verbatim>\<open>uint16_t\<close> operands are promoted to \<^verbatim>\<open>int\<close>; a product that does not fit is undefined.\<close>

definition int_product :: "u16 \<Rightarrow> u16 \<Rightarrow> u64 option" where
  "int_product a b = (if uint a * uint b < 2 ^ 31 then Some (ucast a * ucast b) else None)"

fun max_size_scan :: "nat \<Rightarrow> elf_class \<Rightarrow> reader \<Rightarrow> Ehdr \<Rightarrow> u64 \<Rightarrow> u64 \<Rightarrow> u64" where
  "max_size_scan 0 cls rd ehdr offset elf_size = elf_size"
| "max_size_scan (Suc n) cls rd ehdr offset elf_size =
     (case read_Phdr cls rd offset of
        None \<Rightarrow> elf_size
      | Some phdr \<Rightarrow>
          max_size_scan n cls rd ehdr (offset + ucast (e_phentsize ehdr))
            (if p_type phdr = PT_LOAD \<and> \<not> add_overflows (p_offset phdr) (p_memsz phdr) \<and> elf_size < p_offset phdr + p_memsz phdr
             then p_offset phdr + p_memsz phdr else elf_size))"

definition GetMaxSize :: "elf_class \<Rightarrow> reader \<Rightarrow> (u64, unit) outcome" where
  "GetMaxSize cls rd =
     (case read_Ehdr cls rd 0 of
        None \<Rightarrow> Ok 0 ()
      | Some ehdr \<Rightarrow>
          (case int_product (e_shentsize ehdr) (e_shnum ehdr) of
             None \<Rightarrow> Undef UB_Signed_Overflow
           | Some n \<Rightarrow>
               Ok (max_size_scan (unat (e_phnum ehdr)) cls rd ehdr (e_phoff ehdr) (wrap_class cls (e_shoff ehdr + n))) ()))"

section \<open>Section headers\<close>

abbreviation (input) SHT_PROGBITS :: u32 where "SHT_PROGBITS \<equiv> 1"
abbreviation (input) SHT_SYMTAB :: u32 where "SHT_SYMTAB \<equiv> 2"
abbreviation (input) SHT_STRTAB :: u32 where "SHT_STRTAB \<equiv> 3"
abbreviation (input) SHT_NOTE :: u32 where "SHT_NOTE \<equiv> 7"
abbreviation (input) SHT_NOBITS :: u32 where "SHT_NOBITS \<equiv> 8"
abbreviation (input) SHT_DYNSYM :: u32 where "SHT_DYNSYM \<equiv> 11"

text \<open>The name of a section; the names are \<open>names_size\<close> bytes at \<open>names_offset\<close>.\<close>

definition section_name :: "reader \<Rightarrow> u64 \<Rightarrow> u64 \<Rightarrow> Shdr \<Rightarrow> u8 list option" where
  "section_name rd names_offset names_size shdr =
     (if ucast (sh_name shdr) < names_size
      then ReadString rd (names_offset + ucast (sh_name shdr)) (unat (names_size - ucast (sh_name shdr))) else None)"

definition named_section :: "u8 list \<Rightarrow> Shdr \<Rightarrow> 'z elf_interface_scheme \<Rightarrow> 'z elf_interface_scheme" where
  "named_section name shdr s =
     (let bias = sh_addr shdr - sh_offset shdr
      in if name = str_bytes ''.debug_frame'' then
           s\<lparr>debug_frame_offset := sh_offset shdr, debug_frame_size := sh_size shdr, debug_frame_section_bias := bias\<rparr>
         else if name = str_bytes ''.gnu_debugdata'' then
           s\<lparr>gnu_debugdata_offset := sh_offset shdr, gnu_debugdata_size := sh_size shdr\<rparr>
         else if name = str_bytes ''.eh_frame'' then
           s\<lparr>eh_frame_offset := sh_offset shdr, eh_frame_section_bias := bias, eh_frame_size := sh_size shdr\<rparr>
         else if eh_frame_hdr_offset s = 0 \<and> name = str_bytes ''.eh_frame_hdr'' then
           s\<lparr>eh_frame_hdr_offset := sh_offset shdr, eh_frame_hdr_section_bias := bias, eh_frame_hdr_size := sh_size shdr\<rparr>
         else if name = str_bytes ''.data'' then
           if add_overflows (sh_addr shdr) (sh_size shdr) then s\<lparr>data_sec_offset := 0, data_vaddr_start := 0, data_vaddr_end := 0\<rparr>
           else s\<lparr>data_sec_offset := sh_offset shdr, data_vaddr_start := sh_addr shdr, data_vaddr_end := sh_addr shdr + sh_size shdr\<rparr>
         else if name = str_bytes ''.text'' then s\<lparr>text_addr := sh_addr shdr, text_size := sh_size shdr\<rparr>
         else s)"

text \<open>\<^verbatim>\<open>ehdr.e_shoff + shdr.sh_link * ehdr.e_shentsize\<close>: the product has 32 bits, for a 32-bit file the sum has too.\<close>

definition linked_header :: "elf_class \<Rightarrow> Ehdr \<Rightarrow> Shdr \<Rightarrow> u64" where
  "linked_header cls ehdr shdr = wrap_class cls (e_shoff ehdr + ucast (sh_link shdr * ucast (e_shentsize ehdr)))"

definition symbol_section ::
  "elf_class \<Rightarrow> reader \<Rightarrow> Ehdr \<Rightarrow> Shdr \<Rightarrow> 'z elf_interface_scheme \<Rightarrow> 'z elf_interface_scheme" where
  "symbol_section cls rd ehdr shdr s =
     (if ucast (e_shnum ehdr) \<le> sh_link shdr then s
      else case read_Shdr cls rd (linked_header cls ehdr shdr) of
          None \<Rightarrow> s
        | Some str_shdr \<Rightarrow>
            if sh_type str_shdr \<noteq> SHT_STRTAB then s
            else s\<lparr>if_symbols := if_symbols s @ [Symbols_new (sh_offset shdr) (sh_size shdr) (sh_entsize shdr)
                     (sh_offset str_shdr) (sh_size str_shdr)]\<rparr>)"

definition section_header ::
  "elf_class \<Rightarrow> reader \<Rightarrow> Ehdr \<Rightarrow> u64 \<Rightarrow> u64 \<Rightarrow> Shdr \<Rightarrow> 'z elf_interface_scheme \<Rightarrow> 'z elf_interface_scheme" where
  "section_header cls rd ehdr names_offset names_size shdr s =
     (if sh_type shdr = SHT_SYMTAB \<or> sh_type shdr = SHT_DYNSYM then symbol_section cls rd ehdr shdr s
      else if (sh_type shdr = SHT_PROGBITS \<or> sh_type shdr = SHT_NOBITS) \<and> names_size \<noteq> 0 then
        (case section_name rd names_offset names_size shdr of None \<Rightarrow> s | Some name \<Rightarrow> named_section name shdr s)
      else if sh_type shdr = SHT_STRTAB then s\<lparr>strtabs := strtabs s @ [(sh_addr shdr, sh_offset shdr)]\<rparr>
      else if sh_type shdr = SHT_NOTE \<and> section_name rd names_offset names_size shdr = Some (str_bytes ''.note.gnu.build-id'') then
        s\<lparr>gnu_build_id_offset := sh_offset shdr, gnu_build_id_size := sh_size shdr\<rparr>
      else s)"

fun section_headers ::
  "nat \<Rightarrow> elf_class \<Rightarrow> reader \<Rightarrow> Ehdr \<Rightarrow> u64 \<Rightarrow> u64 \<Rightarrow> u64 \<Rightarrow> 'z elf_interface_scheme \<Rightarrow> 'z elf_interface_scheme" where
  "section_headers 0 cls rd ehdr names_offset names_size offset s = s"
| "section_headers (Suc n) cls rd ehdr names_offset names_size offset s =
     (case read_Shdr cls rd offset of
        None \<Rightarrow> s
      | Some shdr \<Rightarrow>
          section_headers n cls rd ehdr names_offset names_size (offset + ucast (e_shentsize ehdr))
            (section_header cls rd ehdr names_offset names_size shdr s))"

text \<open>The header of the section with the names.\<close>

definition names_header :: "elf_class \<Rightarrow> reader \<Rightarrow> Ehdr \<Rightarrow> (Shdr option, unit) outcome" where
  "names_header cls rd ehdr =
     (case int_product (e_shstrndx ehdr) (e_shentsize ehdr) of
        None \<Rightarrow> Undef UB_Signed_Overflow
      | Some n \<Rightarrow> Ok (read_Shdr cls rd (e_shoff ehdr + n)) ())"

definition ReadSectionHeaders ::
  "elf_class \<Rightarrow> reader \<Rightarrow> Ehdr \<Rightarrow> 'z elf_interface_scheme \<Rightarrow> (unit, 'z elf_interface_scheme) outcome" where
  "ReadSectionHeaders cls rd ehdr s =
     (case (if e_shstrndx ehdr < e_shnum ehdr then names_header cls rd ehdr else Ok None ()) of
        Ok names _ \<Rightarrow>
          (let (names_offset, names_size) = (case names of None \<Rightarrow> (0, 0) | Some shdr \<Rightarrow> (sh_offset shdr, sh_size shdr))
           in Ok () (section_headers (unat (e_shnum ehdr) - 1) cls rd ehdr names_offset names_size
                (e_shoff ehdr + ucast (e_shentsize ehdr)) s))
      | Fail _ \<Rightarrow> Fail s
      | Abort \<Rightarrow> Abort
      | Undef k \<Rightarrow> Undef k)"

definition ReadAllHeaders ::
  "elf_class \<Rightarrow> reader \<Rightarrow> 'z unknown_type \<Rightarrow> u64 \<times> 'z elf_interface_scheme \<Rightarrow> (unit, u64 \<times> 'z elf_interface_scheme) outcome" where
  "ReadAllHeaders cls rd handle st =
     (case read_Ehdr cls rd 0 of
        None \<Rightarrow> Fail (fst st, (snd st)\<lparr>if_error := \<lparr>ed_code = ERROR_MEMORY_INVALID, ed_address = 0\<rparr>\<rparr>)
      | Some ehdr \<Rightarrow>
          (let (load_bias, s) = ReadProgramHeaders cls rd handle ehdr st
           in map_state (Pair load_bias) (Pair load_bias) (ReadSectionHeaders cls rd ehdr s)))"

section \<open>DWARF sections\<close>

definition address_bytes :: "elf_class \<Rightarrow> nat" where
  "address_bytes cls = (case cls of Elf32 \<Rightarrow> 4 | Elf64 \<Rightarrow> 8)"

definition DwarfSection_new :: "section_kind \<Rightarrow> elf_class \<Rightarrow> reader \<Rightarrow> section_env" where
  "DwarfSection_new kind cls rd =
     \<lparr>sec_kind = kind, sec_rd = rd, sec_asz = address_bytes cls, section_bias = 0, entries_offset = 0, entries_end = 0,
      sec_pc_offset = 0\<rparr>"

text \<open>A section without a search table; its \<^verbatim>\<open>Init\<close> always succeeds.\<close>

definition plain_section :: "section_kind \<Rightarrow> elf_class \<Rightarrow> reader \<Rightarrow> u64 \<Rightarrow> u64 \<Rightarrow> u64 \<Rightarrow> section_env \<times> unwind_section" where
  "plain_section kind cls rd offset sz bias =
     (let (env, sec) = section_Init offset sz bias (DwarfSection_new kind cls rd) new_section
      in (env, \<lparr>us_section = sec, us_hdr = None, cie_rows = Map.empty, loc_rows = []\<rparr>))"

text \<open>A section with a search table; \<open>Fail\<close>: its \<^verbatim>\<open>Init\<close> returned false.\<close>

definition hdr_unwind_section ::
  "elf_class \<Rightarrow> reader \<Rightarrow> 'z elf_interface_scheme \<Rightarrow> (section_env \<times> unwind_section, section_cursor) outcome" where
  "hdr_unwind_section cls rd s =
     (let (env, sec) = section_Init (eh_frame_offset s) (eh_frame_size s) (eh_frame_section_bias s)
            (DwarfSection_new Eh_Frame cls rd) new_section
      in bind_out (hdr_Init (eh_frame_hdr_offset s) (eh_frame_hdr_section_bias s) env (sec_cursor sec)) (\<lambda>henv c.
           Ok (env, \<lparr>us_section = sec\<lparr>sec_cursor := c\<rparr>, us_hdr = Some (henv, Map.empty), cie_rows = Map.empty, loc_rows = []\<rparr>) c))"

definition eh_frame_section ::
  "elf_class \<Rightarrow> reader \<Rightarrow> 'z elf_interface_scheme \<Rightarrow> ((section_env \<times> unwind_section) option, unit) outcome" where
  "eh_frame_section cls rd s =
     (let plain = Ok (if eh_frame_offset s \<noteq> 0
            then Some (plain_section Eh_Frame cls rd (eh_frame_offset s) (eh_frame_size s) (eh_frame_section_bias s)) else None) ()
      in if eh_frame_hdr_offset s = 0 then plain
         else case hdr_unwind_section cls rd s of
             Ok sec _ \<Rightarrow> Ok (Some sec) ()
           | Fail _ \<Rightarrow> plain
           | Abort \<Rightarrow> Abort
           | Undef k \<Rightarrow> Undef k)"

definition InitHeaders ::
  "elf_class \<Rightarrow> reader \<Rightarrow> 'z elf_interface_scheme \<Rightarrow> (unit, 'z elf_interface_scheme) outcome" where
  "InitHeaders cls rd s =
     (case eh_frame_section cls rd s of
        Ok sec _ \<Rightarrow>
          (let s = s\<lparr>eh_frame := sec\<rparr>;
               s = (if sec = None then s\<lparr>eh_frame_hdr_offset := 0, eh_frame_hdr_section_bias := 0, eh_frame_hdr_size := - 1,
                      eh_frame_offset := 0, eh_frame_section_bias := 0, eh_frame_size := - 1\<rparr> else s)
           in Ok () (if debug_frame_offset s \<noteq> 0
                then s\<lparr>debug_frame := Some (plain_section Debug_Frame cls rd (debug_frame_offset s) (debug_frame_size s)
                       (debug_frame_section_bias s))\<rparr>
                else s))
      | Fail _ \<Rightarrow> Fail s
      | Abort \<Rightarrow> Abort
      | Undef k \<Rightarrow> Undef k)"

section \<open>Build id\<close>

abbreviation (input) NT_GNU_BUILD_ID :: u32 where "NT_GNU_BUILD_ID \<equiv> 3"

definition align4 :: "u32 \<Rightarrow> u32" where
  "align4 n = (n + 3) AND NOT 3"

text \<open>
  One note of a section of \<open>sz\<close> bytes at \<open>note_offset\<close>: \<open>Inl\<close> is the result of the function, \<open>Inr\<close> the offset of the next note.
\<close>

definition read_note :: "reader \<Rightarrow> u64 \<Rightarrow> u64 \<Rightarrow> u64 \<Rightarrow> u8 list + u64" where
  "read_note rd note_offset sz offset =
     (if sz - offset < of_nat sizeof_Nhdr then Inl []
      else case read_struct rd (note_offset + offset) sizeof_Nhdr parse_Nhdr of
          None \<Rightarrow> Inl []
        | Some hdr \<Rightarrow>
            let offset = offset + of_nat sizeof_Nhdr; following = (\<lambda>offset. offset + ucast (align4 (n_descsz hdr)))
            in if sz - offset < ucast (n_namesz hdr) then Inl []
               else if n_namesz hdr = 0 then Inr (following offset)
               else case ReadFully rd (note_offset + offset) (unat (n_namesz hdr)) of
                   None \<Rightarrow> Inl []
                 | Some name \<Rightarrow>
                     let name = (if last name = 0 then butlast name else name); offset = offset + ucast (align4 (n_namesz hdr))
                     in if name = str_bytes ''GNU'' \<and> n_type hdr = NT_GNU_BUILD_ID then
                          if sz - offset < ucast (n_descsz hdr) \<or> n_descsz hdr = 0 then Inl []
                          else Inl (case ReadFully rd (note_offset + offset) (unat (n_descsz hdr)) of None \<Rightarrow> [] | Some desc \<Rightarrow> desc)
                        else Inr (following offset))"

partial_function (option) note_loop :: "reader \<Rightarrow> u64 \<Rightarrow> u64 \<Rightarrow> u64 \<Rightarrow> u8 list option" where
  "note_loop rd note_offset sz offset =
     (if offset < sz then
        case read_note rd note_offset sz offset of
          Inl res \<Rightarrow> Some res
        | Inr following \<Rightarrow> note_loop rd note_offset sz following
      else Some [])"

declare note_loop.simps [code]

definition find_build_id :: "reader \<Rightarrow> u64 \<Rightarrow> u64 \<Rightarrow> u8 list option" where
  "find_build_id rd note_offset sz = (if add_overflows note_offset sz then Some [] else note_loop rd note_offset sz 0)"

definition ReadBuildID :: "reader \<Rightarrow> 'z elf_interface_scheme \<Rightarrow> u8 list option" where
  "ReadBuildID rd s = find_build_id rd (gnu_build_id_offset s) (gnu_build_id_size s)"

fun build_id_scan :: "nat \<Rightarrow> elf_class \<Rightarrow> reader \<Rightarrow> Ehdr \<Rightarrow> u64 \<Rightarrow> u64 \<Rightarrow> u64 \<Rightarrow> (u64 \<times> u64) option" where
  "build_id_scan 0 cls rd ehdr names_offset names_size offset = None"
| "build_id_scan (Suc n) cls rd ehdr names_offset names_size offset =
     (case read_Shdr cls rd offset of
        None \<Rightarrow> None
      | Some shdr \<Rightarrow>
          if sh_type shdr = SHT_NOTE \<and> section_name rd names_offset names_size shdr = Some (str_bytes ''.note.gnu.build-id'')
          then Some (sh_offset shdr, sh_size shdr)
          else build_id_scan n cls rd ehdr names_offset names_size (offset + ucast (e_shentsize ehdr)))"

definition GetBuildIDInfo :: "elf_class \<Rightarrow> reader \<Rightarrow> (u64 \<times> u64, unit) outcome" where
  "GetBuildIDInfo cls rd =
     (case read_Ehdr cls rd 0 of
        None \<Rightarrow> Fail ()
      | Some ehdr \<Rightarrow>
          if e_shnum ehdr \<le> e_shstrndx ehdr then Fail ()
          else bind_out (names_header cls rd ehdr) (\<lambda>names _.
            case names of
              None \<Rightarrow> Fail ()
            | Some shdr \<Rightarrow>
                (case build_id_scan (unat (e_shnum ehdr) - 1) cls rd ehdr (sh_offset shdr) (sh_size shdr)
                   (e_shoff ehdr + ucast (e_shentsize ehdr)) of
                   None \<Rightarrow> Fail ()
                 | Some note \<Rightarrow> Ok note ())))"

definition ReadBuildIDFromMemory :: "elf_class \<Rightarrow> reader \<Rightarrow> (u8 list, unit) outcome option" where
  "ReadBuildIDFromMemory cls rd =
     (case GetBuildIDInfo cls rd of
        Ok (note_offset, note_size) _ \<Rightarrow> map_option (\<lambda>desc. Ok desc ()) (find_build_id rd note_offset note_size)
      | Fail _ \<Rightarrow> Some (Ok [] ())
      | Abort \<Rightarrow> Some Abort
      | Undef k \<Rightarrow> Some (Undef k))"

section \<open>Soname\<close>

abbreviation (input) DT_NULL :: u64 where "DT_NULL \<equiv> 0"
abbreviation (input) DT_STRTAB :: u64 where "DT_STRTAB \<equiv> 5"
abbreviation (input) DT_STRSZ :: u64 where "DT_STRSZ \<equiv> 10"
abbreviation (input) DT_SONAME :: u64 where "DT_SONAME \<equiv> 14"

record dyn_info =
  soname_offset :: u64
  strtab_addr :: u64
  strtab_size :: u64

definition dyn_entry :: "Dyn \<Rightarrow> dyn_info \<Rightarrow> dyn_info" where
  "dyn_entry dyn d =
     (if d_tag dyn = DT_STRTAB then d\<lparr>strtab_addr := d_val dyn\<rparr>
      else if d_tag dyn = DT_STRSZ then d\<lparr>strtab_size := d_val dyn\<rparr>
      else if d_tag dyn = DT_SONAME then d\<lparr>soname_offset := d_val dyn\<rparr>
      else d)"

text \<open>The loop over the dynamic entries; \<open>Inl\<close> is the offset at which reading failed.\<close>

partial_function (option) dyn_loop :: "elf_class \<Rightarrow> reader \<Rightarrow> u64 \<Rightarrow> u64 \<Rightarrow> dyn_info \<Rightarrow> (u64 + dyn_info) option" where
  "dyn_loop cls rd max_offset offset d =
     (if offset < max_offset then
        case read_Dyn cls rd offset of
          None \<Rightarrow> Some (Inl offset)
        | Some dyn \<Rightarrow>
            if d_tag dyn = DT_NULL then Some (Inr d)
            else dyn_loop cls rd max_offset (offset + of_nat (sizeof_Dyn cls)) (dyn_entry dyn d)
      else Some (Inr d))"

declare dyn_loop.simps [code]

definition read_soname :: "reader \<Rightarrow> (u64 \<times> u64) list \<Rightarrow> dyn_info \<Rightarrow> u8 list option" where
  "read_soname rd tabs d =
     Option.bind (List.find (\<lambda>entry. fst entry = strtab_addr d) tabs) (\<lambda>(_, off).
       let start = off + soname_offset d; soname_max = off + strtab_size d
       in if soname_max \<le> start then None else ReadString rd start (unat (soname_max - start)))"

definition GetSoname ::
  "elf_class \<Rightarrow> reader \<Rightarrow> 'z elf_interface_scheme \<Rightarrow> (u8 list \<times> 'z elf_interface_scheme) option" where
  "GetSoname cls rd s =
     (case soname_type s of
        SONAME_INVALID \<Rightarrow> Some ([], s)
      | SONAME_VALID \<Rightarrow> Some (soname s, s)
      | SONAME_UNKNOWN \<Rightarrow>
          (let s = s\<lparr>soname_type := SONAME_INVALID\<rparr>;
               max_offset = dynamic_offset s + dynamic_vaddr_end s - dynamic_vaddr_start s
           in map_option (\<lambda>r.
                case r of
                  Inl offset \<Rightarrow> ([], s\<lparr>if_error := \<lparr>ed_code = ERROR_MEMORY_INVALID, ed_address = offset\<rparr>\<rparr>)
                | Inr d \<Rightarrow>
                    (case read_soname rd (strtabs s) d of
                       None \<Rightarrow> ([], s)
                     | Some name \<Rightarrow> (name, s\<lparr>soname := name, soname_type := SONAME_VALID\<rparr>)))
                (dyn_loop cls rd max_offset (dynamic_offset s) \<lparr>soname_offset = 0, strtab_addr = 0, strtab_size = 0\<rparr>)))"

section \<open>Symbols\<close>

fun first_name :: "elf_class \<Rightarrow> reader \<Rightarrow> u64 \<Rightarrow> symbols list \<Rightarrow> (u8 list \<times> u64, symbols list) outcome option" where
  "first_name cls rd addr [] = Some (Fail [])"
| "first_name cls rd addr (tab # tabs) =
     (case GetName cls rd addr tab of
        Some (Fail tab) \<Rightarrow> map_option (map_state ((#) tab) ((#) tab)) (first_name cls rd addr tabs)
      | r \<Rightarrow> map_option (map_state (\<lambda>tab. tab # tabs) (\<lambda>tab. tab # tabs)) r)"

definition GetFunctionName ::
  "elf_class \<Rightarrow> reader \<Rightarrow> u64 \<Rightarrow> 'z elf_interface_scheme \<Rightarrow> (u8 list \<times> u64, 'z elf_interface_scheme) outcome option" where
  "GetFunctionName cls rd addr s =
     map_option (map_state (\<lambda>tabs. s\<lparr>if_symbols := tabs\<rparr>) (\<lambda>tabs. s\<lparr>if_symbols := tabs\<rparr>)) (first_name cls rd addr (if_symbols s))"

fun first_global :: "elf_class \<Rightarrow> reader \<Rightarrow> u8 list \<Rightarrow> symbols list \<Rightarrow> (u64, symbols list) outcome" where
  "first_global cls rd name [] = Fail []"
| "first_global cls rd name (tab # tabs) =
     (case GetGlobal cls rd name tab of
        Fail tab \<Rightarrow> map_state ((#) tab) ((#) tab) (first_global cls rd name tabs)
      | r \<Rightarrow> map_state (\<lambda>tab. tab # tabs) (\<lambda>tab. tab # tabs) r)"

definition GetGlobalVariable ::
  "elf_class \<Rightarrow> reader \<Rightarrow> u8 list \<Rightarrow> 'z elf_interface_scheme \<Rightarrow> (u64, 'z elf_interface_scheme) outcome" where
  "GetGlobalVariable cls rd name s =
     map_state (\<lambda>tabs. s\<lparr>if_symbols := tabs\<rparr>) (\<lambda>tabs. s\<lparr>if_symbols := tabs\<rparr>) (first_global cls rd name (if_symbols s))"

definition GetTextRange :: "'z elf_interface_scheme \<Rightarrow> (u64 \<times> u64) option" where
  "GetTextRange s = (if text_size s \<noteq> 0 then Some (text_addr s, text_size s) else None)"

section \<open>Program counters\<close>

text \<open>Run \<open>f\<close>, and \<open>g\<close> if it returns false.\<close>

definition else_opt :: "('v, 's) outcome option \<Rightarrow> ('s \<Rightarrow> ('v, 's) outcome option) \<Rightarrow> ('v, 's) outcome option" where
  "else_opt r g = (case r of Some (Fail s) \<Rightarrow> g s | _ \<Rightarrow> r)"

definition section_has_fde ::
  "u64 \<Rightarrow> (section_env \<times> unwind_section) option \<Rightarrow> (unit, (section_env \<times> unwind_section) option) outcome option" where
  "section_has_fde pc sec =
     (case sec of
        None \<Rightarrow> Some (Fail None)
      | Some (env, us) \<Rightarrow>
          map_option (\<lambda>r. bind_out (map_state (\<lambda>us. Some (env, us)) (\<lambda>us. Some (env, us)) r) (\<lambda>_. Ok ()))
            (us_GetFdeFromPc env pc us))"

definition in_load :: "u64 \<Rightarrow> LoadInfo \<Rightarrow> bool" where
  "in_load pc info \<longleftrightarrow> table_offset info \<le> pc \<and> pc < table_offset info + table_size info"

definition ElfInterface_IsValidPc ::
  "u64 \<Rightarrow> 'z elf_interface_scheme \<Rightarrow> (unit, 'z elf_interface_scheme) outcome option" where
  "ElfInterface_IsValidPc pc s =
     (let put_debug = (\<lambda>sec. s\<lparr>debug_frame := sec\<rparr>)
      in if pt_loads s \<noteq> [] then Some (if list_ex (\<lambda>(_, info). in_load pc info) (pt_loads s) then Ok () s else Fail s)
         else else_opt (map_option (map_state put_debug put_debug) (section_has_fde pc (debug_frame s))) (\<lambda>s.
           let put_eh = (\<lambda>sec. s\<lparr>eh_frame := sec\<rparr>)
           in map_option (map_state put_eh put_eh) (section_has_fde pc (eh_frame s))))"

section \<open>Step\<close>

text \<open>
  The state is the registers, \<^verbatim>\<open>*is_signal_frame\<close> and the object; the result is \<^verbatim>\<open>*finished\<close>. \<open>eenv\<close> holds the process memory, the
  values of uninitialised members and \<open>order\<close> the iteration order of the locations.
\<close>

type_synonym ('a, 's) unwind_state = "'a mregs \<times> bool \<times> 's"
type_synonym loc_order = "(u32 \<rightharpoonup> DwarfLocation) \<Rightarrow> (u32 \<times> DwarfLocation) list"

definition step_section ::
  "'a::len word eval_env \<Rightarrow> loc_order \<Rightarrow> u64 \<Rightarrow> ('a word, (section_env \<times> unwind_section) option) unwind_state \<Rightarrow>
    (bool, ('a word, (section_env \<times> unwind_section) option) unwind_state) outcome option" where
  "step_section eenv order pc st =
     (let (r, sig, sec) = st
      in case sec of
           None \<Rightarrow> Some (Fail st)
         | Some (env, us) \<Rightarrow>
             let close = (\<lambda>(r, us, sig). (r, sig, Some (env, us)))
             in map_option (map_state close close) (section_Step env (eenv\<lparr>ev_section := sec_rd env\<rparr>) order pc (r, us, sig)))"

text \<open>An operation on a part of the object.\<close>

definition on_part ::
  "('s \<Rightarrow> 'p) \<Rightarrow> ('p \<Rightarrow> 's \<Rightarrow> 's) \<Rightarrow> (('a, 'p) unwind_state \<Rightarrow> ('v, ('a, 'p) unwind_state) outcome option) \<Rightarrow>
    ('a, 's) unwind_state \<Rightarrow> ('v, ('a, 's) unwind_state) outcome option" where
  "on_part get put f st =
     (let (r, sig, s) = st; close = (\<lambda>(r, sig, p). (r, sig, put p s))
      in map_option (map_state close close) (f (r, sig, get s)))"

definition dwarf_sections_step ::
  "'a::len word eval_env \<Rightarrow> loc_order \<Rightarrow> u64 \<Rightarrow> ('a word, 'z elf_interface_scheme) unwind_state \<Rightarrow>
    (bool, ('a word, 'z elf_interface_scheme) unwind_state) outcome option" where
  "dwarf_sections_step eenv order pc st =
     else_opt (on_part debug_frame (\<lambda>sec s. s\<lparr>debug_frame := sec\<rparr>) (step_section eenv order pc) st)
       (on_part eh_frame (\<lambda>sec s. s\<lparr>eh_frame := sec\<rparr>) (step_section eenv order pc))"

text \<open>The error of a section, converted.\<close>

definition external_error :: "DwarfErrorData \<Rightarrow> ErrorData \<Rightarrow> ErrorData" where
  "external_error e d =
     (case err_code e of
        DWARF_ERROR_NONE \<Rightarrow> d\<lparr>ed_code := ERROR_NONE\<rparr>
      | DWARF_ERROR_MEMORY_INVALID \<Rightarrow> \<lparr>ed_code = ERROR_MEMORY_INVALID, ed_address = err_address e\<rparr>
      | DWARF_ERROR_NOT_IMPLEMENTED \<Rightarrow> d\<lparr>ed_code := ERROR_UNSUPPORTED\<rparr>
      | DWARF_ERROR_UNSUPPORTED_VERSION \<Rightarrow> d\<lparr>ed_code := ERROR_UNSUPPORTED\<rparr>
      | _ \<Rightarrow> d\<lparr>ed_code := ERROR_UNWIND_INFO\<rparr>)"

definition section_error :: "(section_env \<times> unwind_section) \<Rightarrow> DwarfErrorData" where
  "section_error sec = sec_error (sec_cursor (us_section (snd sec)))"

text \<open>
  \<open>gnu\<close> is the interface of the uncompressed \<^verbatim>\<open>.gnu_debugdata\<close>, \<open>gnu_step\<close> and \<open>gnu_error\<close> its \<^verbatim>\<open>Step\<close> and \<^verbatim>\<open>last_error\<close>.
\<close>

definition step_error :: "('g \<Rightarrow> ErrorData) \<Rightarrow> 'z elf_interface_scheme \<times> 'g option \<Rightarrow> 'z elf_interface_scheme" where
  "step_error gnu_error sg =
     (let (s, gnu) = sg
      in case (debug_frame s, eh_frame s, gnu) of
           (Some sec, _) \<Rightarrow> s\<lparr>if_error := external_error (section_error sec) (if_error s)\<rparr>
         | (None, Some sec, _) \<Rightarrow> s\<lparr>if_error := external_error (section_error sec) (if_error s)\<rparr>
         | (None, None, Some g) \<Rightarrow> s\<lparr>if_error := gnu_error g\<rparr>
         | (None, None, None) \<Rightarrow> s)"

definition gnu_debugdata_step ::
  "(('a, 'g) unwind_state \<Rightarrow> (bool, ('a, 'g) unwind_state) outcome option) \<Rightarrow> ('a, 'g option) unwind_state \<Rightarrow>
    (bool, ('a, 'g option) unwind_state) outcome option" where
  "gnu_debugdata_step gnu_step st =
     (let (r, sig, gnu) = st; close = (\<lambda>(r, sig, g). (r, sig, Some g))
      in case gnu of None \<Rightarrow> Some (Fail st) | Some g \<Rightarrow> map_option (map_state close close) (gnu_step (r, sig, g)))"

definition ElfInterface_Step ::
  "(('a::len word, 'g) unwind_state \<Rightarrow> (bool, ('a word, 'g) unwind_state) outcome option) \<Rightarrow> ('g \<Rightarrow> ErrorData) \<Rightarrow>
    'a word eval_env \<Rightarrow> loc_order \<Rightarrow> u64 \<Rightarrow> ('a word, 'z elf_interface_scheme \<times> 'g option) unwind_state \<Rightarrow>
    (bool, ('a word, 'z elf_interface_scheme \<times> 'g option) unwind_state) outcome option" where
  "ElfInterface_Step gnu_step gnu_error eenv order pc st =
     (let (r, sig, s, gnu) = st; s = s\<lparr>if_error := \<lparr>ed_code = ERROR_NONE, ed_address = 0\<rparr>\<rparr>
      in else_opt
           (else_opt (on_part fst (\<lambda>s sg. (s, snd sg)) (dwarf_sections_step eenv order pc) (r, sig, s, gnu))
             (on_part snd (\<lambda>gnu sg. (fst sg, gnu)) (gnu_debugdata_step gnu_step)))
           (\<lambda>(r, sig, sg). Some (Fail (r, sig, step_error gnu_error sg, snd sg))))"

end
