(* ===== verification/Elf_Headers.thy ===== *)
theory Elf_Headers
  imports Elf_Interface
begin

text \<open>
  What the headers of an ELF file give: the load bias, the ranges of executable code, the build id and the soname.
\<close>

section \<open>Load bias\<close>

lemma program_headers_bias_set: "fst (program_headers n cls rd handle ehdr off (False, b, s)) = b"
  by (induction n arbitrary: off s) (auto simp: program_header_def Let_def split: option.split)

lemma program_headers_bias:
  "fst (program_headers n cls rd handle ehdr off (True, 0, s)) = load_bias_scan n cls rd ehdr off"
  by (induction n arbitrary: off s)
    (auto simp: program_header_def Let_def program_headers_bias_set split: option.split)

text \<open>
  C37. The load bias that reading all headers determines is the one the static \<^verbatim>\<open>GetLoadBias\<close> reads from the program headers alone.
\<close>

theorem Init_load_bias:
  assumes "ReadAllHeaders cls rd handle (0, s) = Ok () (load_bias, t)"
  shows "load_bias = ElfInterface_GetLoadBias cls rd"
proof -
  obtain ehdr where "read_Ehdr cls rd 0 = Some ehdr"
    using assms by (cases "read_Ehdr cls rd 0") (auto simp: ReadAllHeaders_def)
  with assms program_headers_bias [of "unat (e_phnum ehdr)" cls rd handle ehdr "e_phoff ehdr" s] show ?thesis
    by (auto simp: ReadAllHeaders_def ElfInterface_GetLoadBias_def ReadProgramHeaders_def map_state_iff split: prod.splits)
qed

text \<open>A 32-bit file with one executable segment, for \<open>0x3000\<close> to \<open>0x3500\<close>.\<close>

definition elf_example :: reader where
  "elf_example a n = take n (drop (unat a)
     (replicate 28 0 @ [52, 0, 0, 0] @ replicate 10 0 @ [32, 0, 1, 0] @ replicate 6 0 @
      [1, 0, 0, 0, 0, 0x10, 0, 0, 0, 0x30, 0, 0, 0, 0, 0, 0, 0, 5, 0, 0, 0, 5, 0, 0, 5, 0, 0, 0, 0, 0, 0, 0]))"

lemma elf_example_Init:
  obtains t where "ReadAllHeaders Elf32 elf_example HandleUnknownType (0, ElfInterface_new) = Ok () (0x2000, t)"
proof -
  have "case ReadAllHeaders Elf32 elf_example HandleUnknownType (0, ElfInterface_new) of Ok _ (b, _) \<Rightarrow> b = 0x2000 | _ \<Rightarrow> False"
    by code_simp
  with that show ?thesis by (auto split: outcome.splits prod.splits)
qed

lemma Init_load_bias_witness: "ElfInterface_GetLoadBias Elf32 elf_example = 0x2000"
  by (rule elf_example_Init) (drule Init_load_bias, simp)

section \<open>Executable segments\<close>

text \<open>The program headers, up to the first one that cannot be read, and those of executable segments.\<close>

fun phdrs_from :: "nat \<Rightarrow> elf_class \<Rightarrow> reader \<Rightarrow> Ehdr \<Rightarrow> u64 \<Rightarrow> Phdr list" where
  "phdrs_from 0 cls rd ehdr offset = []"
| "phdrs_from (Suc n) cls rd ehdr offset =
     (case read_Phdr cls rd offset of
        None \<Rightarrow> []
      | Some phdr \<Rightarrow> phdr # phdrs_from n cls rd ehdr (offset + ucast (e_phentsize ehdr)))"

definition exec_load :: "Phdr \<Rightarrow> bool" where
  "exec_load phdr \<longleftrightarrow> p_type phdr = PT_LOAD \<and> p_flags phdr AND PF_X \<noteq> 0"

definition exec_loads :: "elf_class \<Rightarrow> reader \<Rightarrow> Phdr list" where
  "exec_loads cls rd =
     (case read_Ehdr cls rd 0 of
        None \<Rightarrow> []
      | Some ehdr \<Rightarrow> filter exec_load (phdrs_from (unat (e_phnum ehdr)) cls rd ehdr (e_phoff ehdr)))"

definition load_entry :: "Phdr \<Rightarrow> u64 \<times> LoadInfo" where
  "load_entry phdr = (p_offset phdr, \<lparr>li_offset = p_offset phdr, table_offset = p_vaddr phdr, table_size = p_memsz phdr\<rparr>)"

definition keeps_loads :: "'z unknown_type \<Rightarrow> bool" where
  "keeps_loads handle \<longleftrightarrow> (\<forall>type off sz s. pt_loads (handle type off sz s) = pt_loads s)"

lemma program_header_loads:
  assumes "keeps_loads handle"
  shows "pt_loads (snd (snd (program_header handle phdr st))) =
    (if exec_load phdr then case load_entry phdr of (k, v) \<Rightarrow> omap_put k v (pt_loads (snd (snd st))) else pt_loads (snd (snd st)))"
  using assms by (cases st) (auto simp: program_header_def exec_load_def load_entry_def keeps_loads_def Let_def)

lemma program_headers_loads:
  assumes "keeps_loads handle" and "omap_invar (pt_loads (snd (snd st)))"
    and "distinct (map p_offset (filter exec_load (phdrs_from n cls rd ehdr off)))"
    and "\<forall>phdr \<in> set (filter exec_load (phdrs_from n cls rd ehdr off)). p_offset phdr \<notin> fst ` set (pt_loads (snd (snd st)))"
  shows "set (pt_loads (snd (program_headers n cls rd handle ehdr off st))) =
    set (pt_loads (snd (snd st))) \<union> load_entry ` set (filter exec_load (phdrs_from n cls rd ehdr off))"
  using assms(2-)
proof (induction n arbitrary: off st)
  case (Suc n)
  show ?case
  proof (cases "read_Phdr cls rd off")
    case (Some phdr)
    let ?st = "program_header handle phdr st" and ?off = "off + ucast (e_phentsize ehdr)"
    have "exec_load phdr \<Longrightarrow> {e \<in> set (pt_loads (snd (snd st))). fst e \<noteq> p_offset phdr} = set (pt_loads (snd (snd st)))"
      using Suc.prems(3) Some by (fastforce simp: image_iff)
    then have loads: "set (pt_loads (snd (snd ?st))) = (if exec_load phdr then {load_entry phdr} else {}) \<union> set (pt_loads (snd (snd st)))"
      and invar: "omap_invar (pt_loads (snd (snd ?st)))"
      using Suc.prems(1) program_header_loads [OF assms(1), of phdr st]
      by (simp_all add: omap_put_set omap_put_invar load_entry_def)
    define rest where "rest = filter exec_load (phdrs_from n cls rd ehdr ?off)"
    have all: "filter exec_load (phdrs_from (Suc n) cls rd ehdr off) = (if exec_load phdr then phdr # rest else rest)"
      using Some by (simp add: rest_def)
    have "distinct (map p_offset rest)" "exec_load phdr \<Longrightarrow> p_offset phdr \<notin> p_offset ` set rest"
      using Suc.prems(2) unfolding all by (cases "exec_load phdr"; simp)+
    moreover have "\<forall>x \<in> set rest. p_offset x \<notin> fst ` set (pt_loads (snd (snd st)))"
      using Suc.prems(3) unfolding all by (cases "exec_load phdr"; simp)
    ultimately have "set (pt_loads (snd (program_headers n cls rd handle ehdr ?off ?st))) =
        set (pt_loads (snd (snd ?st))) \<union> load_entry ` set rest"
      unfolding rest_def [symmetric]
      by (intro Suc.IH [OF invar, of ?off, folded rest_def]) (fastforce simp: loads load_entry_def image_iff split: if_splits)+
    then show ?thesis unfolding all using Some loads by auto
  qed simp
qed simp

lemma named_section_loads: "pt_loads (named_section name shdr s) = pt_loads s"
  by (simp add: named_section_def Let_def if_distrib [of pt_loads] split del: if_split cong: if_cong)

lemma section_header_loads: "pt_loads (section_header cls rd ehdr names_offset names_size shdr s) = pt_loads s"
  by (simp add: section_header_def symbol_section_def named_section_loads split: option.split)

lemma section_headers_loads: "pt_loads (section_headers n cls rd ehdr names_offset names_size off s) = pt_loads s"
  by (induction n arbitrary: off s) (auto simp: section_header_loads split: option.split)

lemma ReadSectionHeaders_loads: "ReadSectionHeaders cls rd ehdr s = Ok () t \<Longrightarrow> pt_loads t = pt_loads s"
  by (auto simp: ReadSectionHeaders_def Let_def section_headers_loads split: outcome.splits option.splits if_splits)

lemma Init_loads:
  assumes init: "ReadAllHeaders cls rd handle (0, s) = Ok () (b, t)" and handle: "keeps_loads handle" and "pt_loads s = []"
    and distinct: "distinct (map p_offset (exec_loads cls rd))"
  shows "set (pt_loads t) = load_entry ` set (exec_loads cls rd)"
proof -
  obtain ehdr where ehdr: "read_Ehdr cls rd 0 = Some ehdr"
    using init by (cases "read_Ehdr cls rd 0") (auto simp: ReadAllHeaders_def)
  obtain b' u where u: "program_headers (unat (e_phnum ehdr)) cls rd handle ehdr (e_phoff ehdr) (True, 0, s) = (b', u)" by fastforce
  with init ehdr have "ReadSectionHeaders cls rd ehdr u = Ok () t"
    by (auto simp: ReadAllHeaders_def ReadProgramHeaders_def map_state_iff)
  from ReadSectionHeaders_loads [OF this] have "pt_loads t = pt_loads u" .
  moreover have "set (pt_loads u) = load_entry ` set (exec_loads cls rd)"
    using program_headers_loads [OF handle, of "(True, 0, s)" "unat (e_phnum ehdr)" cls rd ehdr "e_phoff ehdr"] u assms(3) distinct ehdr
    by (simp add: exec_loads_def omap_invar_def)
  ultimately show ?thesis by simp
qed

text \<open>
  C36. In a file with executable segments, each at an offset of its own, an address is a valid pc exactly if one of the executable
  segments contains it.
\<close>

theorem IsValidPc_executable:
  assumes "ReadAllHeaders cls rd handle (0, s) = Ok () (b, t)" and "keeps_loads handle" and "pt_loads s = []"
    and "distinct (map p_offset (exec_loads cls rd))" and "exec_loads cls rd \<noteq> []"
  shows "ElfInterface_IsValidPc pc t =
    Some (if \<exists>phdr \<in> set (exec_loads cls rd). p_vaddr phdr \<le> pc \<and> pc < p_vaddr phdr + p_memsz phdr then Ok () t else Fail t)"
proof -
  note loads = Init_loads [OF assms(1-4)]
  then have "pt_loads t \<noteq> []" using assms(5) by auto
  moreover have "list_ex (\<lambda>(_, info). in_load pc info) (pt_loads t) \<longleftrightarrow>
      (\<exists>phdr \<in> set (exec_loads cls rd). p_vaddr phdr \<le> pc \<and> pc < p_vaddr phdr + p_memsz phdr)"
    unfolding list_ex_iff loads by (auto simp: load_entry_def in_load_def)
  ultimately show ?thesis by (simp add: ElfInterface_IsValidPc_def)
qed

lemma IsValidPc_executable_witness:
  "\<exists>t :: elf_interface. ElfInterface_IsValidPc 0x3200 t = Some (Ok () t) \<and> ElfInterface_IsValidPc 0x3500 t = Some (Fail t)"
proof -
  have loads: "exec_loads Elf32 elf_example =
      [\<lparr>p_type = 1, p_flags = 5, p_offset = 0x1000, p_vaddr = 0x3000, p_filesz = 0x500, p_memsz = 0x500\<rparr>]"
    by code_simp
  have keeps: "keeps_loads (HandleUnknownType :: unit unknown_type)" and empty: "pt_loads ElfInterface_new = []"
    by (simp_all add: keeps_loads_def HandleUnknownType_def ElfInterface_new_def)
  obtain t where t: "ReadAllHeaders Elf32 elf_example HandleUnknownType (0, ElfInterface_new) = Ok () (0x2000, t)"
    by (rule elf_example_Init)
  show ?thesis
    using IsValidPc_executable [OF t keeps empty, of "0x3200"] IsValidPc_executable [OF t keeps empty, of "0x3500"] loads by auto
qed

section \<open>Build id\<close>

text \<open>Notes as the ELF specification lays them out: three words, the name and the descriptor, both padded to four bytes.\<close>

record elf_note =
  note_type :: u32
  note_name :: "u8 list"
  note_desc :: "u8 list"

definition pad4 :: "nat \<Rightarrow> nat" where
  "pad4 n = (4 - n mod 4) mod 4"

definition padded :: "u8 list \<Rightarrow> u8 list" where
  "padded bs = bs @ replicate (pad4 (length bs)) 0"

definition note_header :: "elf_note \<Rightarrow> u8 list" where
  "note_header nt = to_le 4 (length (note_name nt)) @ to_le 4 (length (note_desc nt)) @ to_le 4 (unat (note_type nt))"

definition note_bytes :: "elf_note \<Rightarrow> u8 list" where
  "note_bytes nt = note_header nt @ padded (note_name nt) @ padded (note_desc nt)"

definition note_ok :: "elf_note \<Rightarrow> bool" where
  "note_ok nt \<longleftrightarrow> length (note_name nt) + 3 < 2 ^ 32 \<and> length (note_desc nt) + 3 < 2 ^ 32"

text \<open>A GNU build id, with or without the terminating NUL in the name.\<close>

definition is_build_id :: "elf_note \<Rightarrow> bool" where
  "is_build_id nt \<longleftrightarrow> note_type nt = 3 \<and> note_name nt \<in> {str_bytes ''GNU'', str_bytes ''GNU'' @ [0]}"

fun build_id_of :: "elf_note list \<Rightarrow> u8 list" where
  "build_id_of [] = []"
| "build_id_of (nt # nts) = (if is_build_id nt then note_desc nt else build_id_of nts)"

lemma length_padded: "length (padded bs) = length bs + pad4 (length bs)"
  by (simp add: padded_def)

lemma length_note_header [simp]: "length (note_header nt) = 12"
  by (simp add: note_header_def length_to_le)

lemma align4_pad:
  assumes "n + 3 < 2 ^ 32"
  shows "unat (align4 (of_nat n)) = n + pad4 n"
proof -
  have u: "unat (of_nat n + 3 :: u32) = n + 3"
    using assms by (simp add: unat_word_ariths unsigned_of_nat take_bit_eq_mod)
  have "unat ((of_nat n + 3 :: u32) AND 3) = (n + 3) mod 4"
  proof -
    have "(of_nat n + 3 :: u32) AND 3 = take_bit 2 (of_nat n + 3)" by (simp add: take_bit_eq_mask mask_eq_exp_minus_1)
    then show ?thesis by (simp only: unsigned_take_bit_eq u) (simp add: take_bit_eq_mod)
  qed
  with and_not_split(2) [of "of_nat n + 3 :: u32" 3] u have "unat (align4 (of_nat n)) = n + 3 - (n + 3) mod 4"
    by (simp add: align4_def)
  also have "\<dots> = n + pad4 n"
  proof -
    have "n mod 4 < 4" by simp
    then consider "n mod 4 = 0" | "n mod 4 = 1" | "n mod 4 = 2" | "n mod 4 = 3" by linarith
    then show ?thesis
      unfolding pad4_def mod_add_left_eq [of n 4 3, symmetric] by cases simp_all
  qed
  finally show ?thesis .
qed

lemma parse_note_header:
  assumes "note_ok nt"
  shows "parse_Nhdr (note_header nt) =
    \<lparr>n_namesz = of_nat (length (note_name nt)), n_descsz = of_nat (length (note_desc nt)), n_type = note_type nt\<rparr>"
proof -
  have "le_word (to_le 4 k) = (of_nat k :: u32)" if "k < 2 ^ 32" for k
    using that by (simp add: le_word_def le_nat_to_le)
  then show ?thesis
    using assms unat_bound [of "note_type nt"]
    by (simp add: parse_Nhdr_def note_header_def field_def length_to_le note_ok_def)
qed

lemma trimmed_name:
  assumes "name \<noteq> []"
  shows "(if last name = 0 then butlast name else name) = str_bytes ''GNU'' \<longleftrightarrow> name \<in> {str_bytes ''GNU'', str_bytes ''GNU'' @ [0]}"
proof -
  have "last (str_bytes ''GNU'') \<noteq> 0" by (simp add: str_bytes_def)
  moreover have "last name = 0 \<Longrightarrow> butlast name = xs \<longleftrightarrow> name = xs @ [0]" for xs
    using assms append_butlast_last_id [of name] by (auto simp del: append_butlast_last_id)
  ultimately show ?thesis by (auto simp del: append_butlast_last_id)
qed

lemma unat_left: "k \<le> unat sz \<Longrightarrow> unat (sz - of_nat k) = unat sz - k" for sz :: u64
  by (metis le_unat_uoi unat_sub word_le_nat_alt)

lemma unat_u32_u64: "n < 2 ^ 32 \<Longrightarrow> unat (ucast (of_nat n :: u32) :: u64) = n"
  by (simp add: unsigned_ucast_eq unsigned_of_nat take_bit_eq_mod)

lemma u64_align4: "n + 3 < 2 ^ 32 \<Longrightarrow> (ucast (align4 (of_nat n)) :: u64) = of_nat (n + pad4 n)"
  using align4_pad [of n] by (metis of_nat_unat)

lemma read_note_bytes:
  assumes mem: "flat_memory rd m" and ok: "note_ok nt" and at: "bytes_at m (a + of_nat k) (note_bytes nt)"
    and len: "k + length (note_bytes nt) \<le> unat sz"
  shows "read_note rd a sz (of_nat k) =
    (if is_build_id nt then Inl (note_desc nt) else Inr (of_nat (k + length (note_bytes nt))))"
proof -
  let ?L = "length (note_name nt)" and ?D = "length (note_desc nt)"
  have rd: "rd = flat_read m" using mem by (auto simp: flat_memory_def)
  have L: "?L + 3 < 2 ^ 32" and D: "?D + 3 < 2 ^ 32" using ok by (simp_all add: note_ok_def)
  have total: "length (note_bytes nt) = 12 + (?L + pad4 ?L) + (?D + pad4 ?D)"
    by (simp add: note_bytes_def length_padded)
  have offset: "a + of_nat k + of_nat j = a + of_nat (k + j)" for j by simp
  have header: "ReadFully rd (a + of_nat k) 12 = Some (note_header nt)"
    and name: "ReadFully rd (a + of_nat (k + 12)) ?L = Some (note_name nt)"
    and desc: "ReadFully rd (a + of_nat (k + 12 + (?L + pad4 ?L))) ?D = Some (note_desc nt)"
    using at by (auto simp: rd note_bytes_def padded_def algebra_simps intro!: ReadFully_bytes_at)
  have left: "unat (sz - of_nat k) = unat sz - k" "unat (sz - of_nat (k + 12)) = unat sz - (k + 12)"
      "unat (sz - of_nat (k + 12 + (?L + pad4 ?L))) = unat sz - (k + 12 + (?L + pad4 ?L))"
    by (rule unat_left, use len total in linarith)+
  have fits: "\<not> sz - of_nat k < of_nat 12" "\<not> sz - of_nat (k + 12) < ucast (of_nat ?L :: u32)"
      "\<not> sz - of_nat (k + 12 + (?L + pad4 ?L)) < ucast (of_nat ?D :: u32)"
    unfolding word_less_nat_alt left using len total L D by (simp_all add: unat_u32_u64)
  have zero: "(of_nat ?L :: u32) = 0 \<longleftrightarrow> note_name nt = []" "(of_nat ?D :: u32) = 0 \<longleftrightarrow> note_desc nt = []"
    using L D by (simp_all add: word_unat_eq_iff unsigned_of_nat take_bit_eq_mod)
  have words: "unat (of_nat ?L :: u32) = ?L" "unat (of_nat ?D :: u32) = ?D"
    using L D by (simp_all add: unsigned_of_nat take_bit_eq_mod)
  have next12: "of_nat k + of_nat 12 = (of_nat (k + 12) :: u64)" by simp
  have add: "(of_nat i :: u64) + of_nat j = of_nat (i + j)" for i j by simp
  have parse: "read_struct rd (a + of_nat k) 12 parse_Nhdr =
      Some \<lparr>n_namesz = of_nat ?L, n_descsz = of_nat ?D, n_type = note_type nt\<rparr>"
    by (simp add: read_struct_def header parse_note_header [OF ok])
  show ?thesis
  proof (cases "note_name nt = []")
    case True
    then have "\<not> is_build_id nt" by (simp add: is_build_id_def str_bytes_def)
    moreover have "pad4 0 = 0" by (simp add: pad4_def)
    ultimately show ?thesis
      using True fits(1,2) D
      by (simp only: read_note_def parse option.case next12 Let_def Nhdr.simps zero u64_align4 add total list.size if_True if_False) simp
  next
    case False
    have last: "name \<noteq> [] \<Longrightarrow> is_build_id nt \<longleftrightarrow>
        (if last (note_name nt) = 0 then butlast (note_name nt) else note_name nt) = str_bytes ''GNU'' \<and> note_type nt = 3" for name :: "u8 list"
      using trimmed_name [OF False] by (auto simp: is_build_id_def)
    have "read_note rd a sz (of_nat k) =
      (if (if last (note_name nt) = 0 then butlast (note_name nt) else note_name nt) = str_bytes ''GNU'' \<and> note_type nt = 3
       then if note_desc nt = [] then Inl [] else Inl (note_desc nt)
       else Inr (of_nat (k + 12 + (?L + pad4 ?L) + (?D + pad4 ?D))))"
      using False fits L D
      by (simp only: read_note_def parse option.case next12 Let_def Nhdr.simps zero u64_align4 add words name desc if_False simp_thms)
    then show ?thesis
      using last [of "[0]"] total by (auto simp: algebra_simps)
  qed
qed

lemma note_loop_build_id:
  assumes mem: "flat_memory rd m" and "\<forall>nt \<in> set nts. note_ok nt" and "bytes_at m (a + of_nat k) (concat (map note_bytes nts))"
    and "k + length (concat (map note_bytes nts)) = unat sz"
  shows "note_loop rd a sz (of_nat k) = Some (build_id_of nts)"
  using assms(2-)
proof (induction nts arbitrary: k)
  case Nil
  then have "of_nat k = sz" by simp
  then show ?case by (subst note_loop.simps) simp
next
  case (Cons nt nts)
  have "length (note_header nt) \<le> length (note_bytes nt)" by (simp add: note_bytes_def)
  with Cons.prems(3) have "k < unat sz" by simp
  then have "of_nat k < sz" using le_unat_uoi [of k sz] by (simp add: word_less_nat_alt)
  moreover have "read_note rd a sz (of_nat k) =
    (if is_build_id nt then Inl (note_desc nt) else Inr (of_nat (k + length (note_bytes nt))))"
    using Cons.prems by (intro read_note_bytes [OF mem]) auto
  moreover have "note_loop rd a sz (of_nat (k + length (note_bytes nt))) = Some (build_id_of nts)"
    using Cons.prems by (intro Cons.IH) (auto simp: algebra_simps)
  ultimately show ?case by (subst note_loop.simps) simp
qed

text \<open>
  C35. From a section of well-formed notes \<^verbatim>\<open>ReadBuildID\<close> returns the descriptor of the first GNU build id note, whatever notes come
  before it, and nothing if there is none.
\<close>

theorem ReadBuildID_finds:
  assumes "flat_memory rd m" and "\<forall>nt \<in> set nts. note_ok nt"
    and "bytes_at m (gnu_build_id_offset s) (concat (map note_bytes nts))"
    and "unat (gnu_build_id_size s) = length (concat (map note_bytes nts))"
    and "unat (gnu_build_id_offset s) + unat (gnu_build_id_size s) < 2 ^ 64"
  shows "ReadBuildID rd s = Some (build_id_of nts)"
  using note_loop_build_id [OF assms(1,2), of "gnu_build_id_offset s" 0 "gnu_build_id_size s"] assms(3-)
  by (simp add: ReadBuildID_def find_build_id_def add_overflows_def)

definition note_examples :: "elf_note list" where
  "note_examples =
     [\<lparr>note_type = 1, note_name = str_bytes ''Android'' @ [0], note_desc = [23, 0]\<rparr>,
      \<lparr>note_type = 3, note_name = str_bytes ''GNU'' @ [0], note_desc = [0xab, 0xcd, 0xef]\<rparr>]"

lemma ReadBuildID_finds_witness:
  "ReadBuildID (flat_read (\<lambda>a. let bs = concat (map note_bytes note_examples) in if unat a < length bs then Some (bs ! unat a) else None))
     (ElfInterface_new\<lparr>gnu_build_id_size := 44\<rparr>) = Some [0xab, 0xcd, 0xef]"
proof -
  let ?bs = "concat (map note_bytes note_examples)"
  let ?m = "\<lambda>a :: u64. let bs = ?bs in if unat a < length bs then Some (bs ! unat a) else None"
  have len: "length ?bs = 44" by code_simp
  have mem: "flat_memory (flat_read ?m) ?m" by (simp add: flat_memory_def)
  have "unat (of_nat i :: u64) = i" if "i < 44" for i using that by (simp add: unsigned_of_nat take_bit_eq_mod)
  then have at: "bytes_at ?m 0 ?bs" by (simp add: bytes_at_def Let_def len)
  have ok: "\<forall>nt \<in> set note_examples. note_ok nt" by (simp add: note_examples_def note_ok_def str_bytes_def)
  have "build_id_of note_examples = [0xab, 0xcd, 0xef]" by code_simp
  then show ?thesis
    using ReadBuildID_finds [OF mem ok, of "ElfInterface_new\<lparr>gnu_build_id_size := 44\<rparr>"] at len by (simp add: ElfInterface_new_def)
qed

end
