(* ===== verification/Elf_Interface_Arm.thy ===== *)
theory Elf_Interface_Arm
  imports Elf_Interface Arm_Exidx
begin

text \<open>
  \<^verbatim>\<open>libunwindstack/ElfInterfaceArm.cpp\<close>: the index of the ARM exception tables, sorted by function address, and unwinding a frame with
  the entry of the function that contains the pc.
\<close>

section \<open>State\<close>

text \<open>\<^verbatim>\<open>addrs_\<close> is an unordered map whose \<^verbatim>\<open>operator[]\<close> gives 0 for a missing key; the code takes 0 for not yet read.\<close>

record elf_interface_arm = elf_interface +
  start_offset :: u64
  total_entries :: u64
  arm_load_bias :: u64
  arm_addrs :: "u64 \<Rightarrow> u32"

definition ElfInterfaceArm_new :: elf_interface_arm where
  "ElfInterfaceArm_new =
     elf_interface.extend ElfInterface_new
       \<lparr>start_offset = 0, total_entries = 0, arm_load_bias = 0, arm_addrs = (\<lambda>_. 0)\<rparr>"

abbreviation (input) PT_ARM_EXIDX :: u32 where "PT_ARM_EXIDX \<equiv> 0x70000001"

definition HandleUnknownType_arm :: "u32 \<Rightarrow> u64 \<Rightarrow> u64 \<Rightarrow> elf_interface_arm \<Rightarrow> elf_interface_arm" where
  "HandleUnknownType_arm type ph_offset ph_filesz s =
     (if type \<noteq> PT_ARM_EXIDX then s else s\<lparr>start_offset := ph_offset, total_entries := ph_filesz div 8\<rparr>)"

definition ElfInterfaceArm_Init :: "reader \<Rightarrow> u64 \<times> elf_interface_arm \<Rightarrow> (unit, u64 \<times> elf_interface_arm) outcome" where
  "ElfInterfaceArm_Init rd st =
     bind_out (ReadAllHeaders Elf32 rd HandleUnknownType_arm st) (\<lambda>_ (load_bias, s).
       Ok () (load_bias, s\<lparr>arm_load_bias := load_bias\<rparr>))"

section \<open>The index\<close>

definition exidx_error :: "ErrorCode \<Rightarrow> elf_interface_arm \<Rightarrow> elf_interface_arm" where
  "exidx_error code s = s\<lparr>if_error := (if_error s)\<lparr>ed_code := code\<rparr>\<rparr>"

text \<open>\<^verbatim>\<open>static_cast<int32_t>(data) << 1\<close> is undefined for a negative operand.\<close>

definition GetPrel31Addr :: "reader \<Rightarrow> u32 \<Rightarrow> elf_interface_arm \<Rightarrow> (u32, elf_interface_arm) outcome" where
  "GetPrel31Addr rd offset s =
     (case Read32 rd (ucast offset) of
        None \<Rightarrow> Fail (s\<lparr>if_error := \<lparr>ed_code = ERROR_MEMORY_INVALID, ed_address = ucast offset\<rparr>\<rparr>)
      | Some data \<Rightarrow>
          if bit data 31 then Undef UB_Shift
          else Ok (offset + signed_drop_bit 1 (push_bit 1 data)) s)"

text \<open>The offset of an entry; it is passed to \<^verbatim>\<open>GetPrel31Addr\<close> in 32 bits.\<close>

definition exidx_entry :: "elf_interface_arm \<Rightarrow> u64 \<Rightarrow> u64" where
  "exidx_entry s i = start_offset s + i * 8"

definition exidx_addr :: "reader \<Rightarrow> u64 \<Rightarrow> elf_interface_arm \<Rightarrow> (u32, elf_interface_arm) outcome" where
  "exidx_addr rd i s =
     (if arm_addrs s i \<noteq> 0 then Ok (arm_addrs s i) s
      else bind_out (GetPrel31Addr rd (ucast (exidx_entry s i)) s) (\<lambda>addr s.
        Ok addr (s\<lparr>arm_addrs := (arm_addrs s)(i := addr)\<rparr>)))"

definition exidx_probe :: "reader \<Rightarrow> u32 \<Rightarrow> u64 \<Rightarrow> elf_interface_arm \<Rightarrow> (side, elf_interface_arm) outcome" where
  "exidx_probe rd pc i s = bind_out (exidx_addr rd i s) (\<lambda>addr s. Ok (side_of pc addr) s)"

definition FindEntry :: "reader \<Rightarrow> u32 \<Rightarrow> elf_interface_arm \<Rightarrow> (u64, elf_interface_arm) outcome option" where
  "FindEntry rd pc s =
     (if start_offset s = 0 \<or> total_entries s = 0 then Some (Fail (exidx_error ERROR_UNWIND_INFO s))
      else map_option (\<lambda>r. bind_out r (\<lambda>p s.
             case p of
               Found i \<Rightarrow> Ok (exidx_entry s i) s
             | Bound j \<Rightarrow> if j \<noteq> 0 then Ok (exidx_entry s (j - 1)) s else Fail (exidx_error ERROR_UNWIND_INFO s)))
           (search_loop half_sum (exidx_probe rd pc) 0 (total_entries s) s))"

section \<open>Step\<close>

text \<open>The \<^verbatim>\<open>ArmExidx\<close> object works on the registers in place.\<close>

definition ArmExidx_new :: "u32 mregs \<Rightarrow> arm_exidx" where
  "ArmExidx_new r =
     \<lparr>arm_regs = mr_regs r, arm_cfa = ucast (regs_sp r), arm_data = [], arm_status = ARM_STATUS_NONE, arm_status_address = 0,
      log_type = ARM_LOG_NONE, log_skip_execution = False, pc_set = False, log_cfa_offset = 0, log_regs = []\<rparr>"

definition run_exidx :: "reader \<Rightarrow> reader \<Rightarrow> u32 \<Rightarrow> arm_exidx \<Rightarrow> arm_outcome option" where
  "run_exidx rd mem entry_offset arm =
     (case ExtractEntryData rd entry_offset arm of Ok _ arm \<Rightarrow> ArmExidx_Eval mem arm | r \<Rightarrow> Some r)"

text \<open>The registers after a successful evaluation.\<close>

definition exidx_regs :: "arm_exidx \<Rightarrow> u32 list" where
  "exidx_regs arm =
     (let regs = arm_regs arm;
          regs = (if pc_set arm then regs else regs[ARM_REG_PC := regs ! ARM_REG_R14])
      in regs[ARM_REG_SP := arm_cfa arm])"

definition status_error :: "arm_exidx \<Rightarrow> ErrorData \<Rightarrow> ErrorData" where
  "status_error arm d =
     (case arm_status arm of
        ARM_STATUS_NONE \<Rightarrow> d\<lparr>ed_code := ERROR_NONE\<rparr>
      | ARM_STATUS_NO_UNWIND \<Rightarrow> d\<lparr>ed_code := ERROR_NONE\<rparr>
      | ARM_STATUS_FINISH \<Rightarrow> d\<lparr>ed_code := ERROR_NONE\<rparr>
      | ARM_STATUS_READ_FAILED \<Rightarrow> \<lparr>ed_code = ERROR_MEMORY_INVALID, ed_address = arm_status_address arm\<rparr>
      | _ \<Rightarrow> d\<lparr>ed_code := ERROR_UNWIND_INFO\<rparr>)"

definition finish_exidx ::
  "u32 mregs \<Rightarrow> bool \<Rightarrow> elf_interface_arm \<Rightarrow> arm_outcome \<Rightarrow> (bool, (u32, elf_interface_arm) unwind_state) outcome" where
  "finish_exidx r sig s out =
     (case out of
        Ok _ arm \<Rightarrow>
          (let r = r\<lparr>mr_regs := exidx_regs arm\<rparr>
           in Ok (if arm_status arm = ARM_STATUS_NO_UNWIND then True else regs_pc r = 0) (r, sig, s))
      | Fail arm \<Rightarrow>
          (let r = r\<lparr>mr_regs := arm_regs arm\<rparr>
           in if arm_status arm = ARM_STATUS_NO_UNWIND then Ok True (r, sig, s)
              else Fail (r, sig, s\<lparr>if_error := status_error arm (if_error s)\<rparr>))
      | Abort \<Rightarrow> Abort
      | Undef k \<Rightarrow> Undef k)"

definition StepExidx ::
  "reader \<Rightarrow> reader \<Rightarrow> u64 \<Rightarrow> (u32, elf_interface_arm) unwind_state \<Rightarrow>
    (bool, (u32, elf_interface_arm) unwind_state) outcome option" where
  "StepExidx rd mem pc st =
     (let (r, sig, s) = st; keep = (\<lambda>s. (r, sig, s))
      in if pc < arm_load_bias s then Some (Fail (r, sig, exidx_error ERROR_UNWIND_INFO s))
         else bind_opt (map_option (map_state keep keep) (FindEntry rd (ucast (pc - arm_load_bias s)) s))
           (\<lambda>entry_offset (r, sig, s).
             map_option (finish_exidx r sig s) (run_exidx rd mem (ucast entry_offset) (ArmExidx_new r))))"

text \<open>DWARF first, because its ranges are precise.\<close>

definition ElfInterfaceArm_Step ::
  "((u32, 'g) unwind_state \<Rightarrow> (bool, (u32, 'g) unwind_state) outcome option) \<Rightarrow> ('g \<Rightarrow> ErrorData) \<Rightarrow> reader \<Rightarrow>
    u32 eval_env \<Rightarrow> loc_order \<Rightarrow> u64 \<Rightarrow> (u32, elf_interface_arm \<times> 'g option) unwind_state \<Rightarrow>
    (bool, (u32, elf_interface_arm \<times> 'g option) unwind_state) outcome option" where
  "ElfInterfaceArm_Step gnu_step gnu_error rd eenv order pc st =
     else_opt (ElfInterface_Step gnu_step gnu_error eenv order pc st)
       (on_part fst (\<lambda>s sg. (s, snd sg)) (StepExidx rd (ev_memory eenv) pc))"

definition ElfInterfaceArm_GetFunctionName ::
  "reader \<Rightarrow> u64 \<Rightarrow> elf_interface_arm \<Rightarrow> (u8 list \<times> u64, elf_interface_arm) outcome option" where
  "ElfInterfaceArm_GetFunctionName rd addr s =
     map_option (\<lambda>r. bind_out r (\<lambda>(name, offset) s. Ok (name, offset AND NOT 1) s)) (GetFunctionName Elf32 rd (addr OR 1) s)"

end
