(* ===== verification/Exidx_Step.thy ===== *)
theory Exidx_Step
  imports Elf_Interface_Arm Arm_Ehabi
begin

text \<open>
  Unwinding a frame with the ARM exception tables: the search finds the entry of the function that contains the pc, and the registers
  afterwards are those the EHABI prescribes for its instructions.
\<close>

section \<open>The index\<close>

text \<open>The address of the function of an entry, as the memory holds it: a place-relative offset of 31 bits.\<close>

definition exidx_key :: "reader \<Rightarrow> u64 \<Rightarrow> u64 \<Rightarrow> u32 option" where
  "exidx_key rd start i =
     (let a = ucast (start + i * 8) :: u32
      in case Read32 rd (ucast a) of Some w \<Rightarrow> if bit w 31 then None else Some (a + of_int (prel31 w)) | None \<Rightarrow> None)"

text \<open>The cache holds what the memory holds.\<close>

definition exidx_ok :: "reader \<Rightarrow> u64 \<Rightarrow> u64 \<Rightarrow> u64 \<Rightarrow> elf_interface_arm \<Rightarrow> bool" where
  "exidx_ok rd start n bias s \<longleftrightarrow> start_offset s = start \<and> total_entries s = n \<and> arm_load_bias s = bias \<and>
     (\<forall>i. arm_addrs s i \<noteq> 0 \<longrightarrow> exidx_key rd start i = Some (arm_addrs s i))"

lemma GetPrel31Addr_key:
  "exidx_ok rd start n bias s \<Longrightarrow> GetPrel31Addr rd (ucast (exidx_entry s i)) s =
    (case exidx_key rd start i of
       Some a \<Rightarrow> Ok a s
     | None \<Rightarrow> (case Read32 rd (ucast (ucast (start + i * 8) :: u32)) of
         None \<Rightarrow> Fail (s\<lparr>if_error := \<lparr>ed_code = ERROR_MEMORY_INVALID, ed_address = ucast (ucast (start + i * 8) :: u32)\<rparr>\<rparr>)
       | Some w \<Rightarrow> Undef UB_Shift))"
  unfolding GetPrel31Addr_def prel31_word
  by (simp add: exidx_key_def exidx_entry_def exidx_ok_def Let_def split: option.split)

lemma exidx_ok_error: "exidx_ok rd start n bias (s\<lparr>if_error := e\<rparr>) = exidx_ok rd start n bias s"
  by (simp add: exidx_ok_def)

lemma exidx_probe_some:
  assumes "exidx_ok rd start n bias s" and "map_option (side_of pc) (exidx_key rd start i) = Some d"
  shows "\<exists>t. exidx_probe rd pc i s = Ok d t \<and> exidx_ok rd start n bias t"
  using assms
  by (cases "arm_addrs s i = 0") (auto simp: exidx_probe_def exidx_addr_def GetPrel31Addr_key exidx_ok_def)

lemma exidx_probe_none:
  assumes ok: "exidx_ok rd start n bias s" and none: "exidx_key rd start i = None"
  shows "out_states (exidx_ok rd start n bias) (exidx_probe rd pc i s) \<and> (\<forall>d t. exidx_probe rd pc i s \<noteq> Ok d t)"
proof -
  have "arm_addrs s i = 0" using ok none by (auto simp: exidx_ok_def)
  then show ?thesis
    using ok none by (auto simp: exidx_probe_def exidx_addr_def GetPrel31Addr_key exidx_ok_error split: option.split)
qed

interpretation exidx: probed_table half_sum max_half "exidx_probe rd pc" "exidx_ok rd start n bias"
  "\<lambda>i. map_option (side_of pc) (exidx_key rd start i)"
  for rd pc start n bias
  by unfold_locales (auto simp: exidx_probe_none half_sum_between intro: exidx_probe_some)

text \<open>An index whose entries can be read and are in ascending order.\<close>

definition exidx_table :: "reader \<Rightarrow> u64 \<Rightarrow> u64 \<Rightarrow> (u64 \<Rightarrow> u32) \<Rightarrow> bool" where
  "exidx_table rd start n key \<longleftrightarrow> start \<noteq> 0 \<and> n \<le> max_half \<and> (\<forall>i < n. exidx_key rd start i = Some (key i)) \<and>
     (\<forall>j < n. \<forall>i < j. key i \<le> key j)"

lemma FindEntry_finds:
  assumes table: "exidx_table rd start n key" and ok: "exidx_ok rd start n bias s"
  shows "if \<exists>i < n. key i \<le> pc
    then \<exists>i t. FindEntry rd pc s = Some (Ok (start + i * 8) t) \<and> last_upto key n pc i \<and> exidx_ok rd start n bias t
    else \<exists>t. FindEntry rd pc s = Some (Fail t) \<and> ed_code (if_error t) = ERROR_UNWIND_INFO \<and> exidx_ok rd start n bias t"
proof (cases "n = 0")
  case True
  with ok show ?thesis by (auto simp: FindEntry_def exidx_ok_def exidx_error_def)
next
  case False
  let ?entry = "\<lambda>i. map_option (side_of pc) (exidx_key rd start i)"
  have keyed: "keyed_table key pc n ?entry"
    using table by (simp add: exidx_table_def keyed_table_def)
  obtain p t where run: "search_loop half_sum (exidx_probe rd pc) 0 n s = Some (Ok p t)"
      and t: "exidx_ok rd start n bias t" "at_position ?entry n p"
    using exidx.search_position [OF ok _ keyed_table_ordered [OF keyed]] table by (auto simp: exidx_table_def)
  have find: "FindEntry rd pc s = Some (bind_out (Ok p t) (\<lambda>p s.
      case p of
        Found i \<Rightarrow> Ok (exidx_entry s i) s
      | Bound j \<Rightarrow> if j \<noteq> 0 then Ok (exidx_entry s (j - 1)) s else Fail (exidx_error ERROR_UNWIND_INFO s)))"
    using ok run table False by (simp add: FindEntry_def exidx_ok_def exidx_table_def)
  have start: "start_offset t = start" using t(1) by (simp add: exidx_ok_def)
  show ?thesis
  proof (cases p)
    case (Found i)
    with position_Found [OF keyed] t have "last_upto key n pc i" by blast
    moreover from this have "\<exists>i < n. key i \<le> pc" by (auto simp: last_upto_def)
    ultimately show ?thesis using find Found t(1) start by (auto simp: exidx_entry_def)
  next
    case (Bound j)
    show ?thesis
    proof (cases "j = 0")
      case True
      with position_Bound [OF keyed t(2) [unfolded Bound]] have "\<forall>i < n. pc < key i" by simp
      then have "\<not> (\<exists>i < n. key i \<le> pc)" by (meson leD)
      then show ?thesis using find Bound True t(1) by (auto simp: exidx_error_def exidx_ok_error)
    next
      case False
      with position_Bound [OF keyed t(2) [unfolded Bound]] have "last_upto key n pc (j - 1)" by simp
      moreover from this have "\<exists>i < n. key i \<le> pc" by (auto simp: last_upto_def)
      moreover have "FindEntry rd pc s = Some (Ok (start + (j - 1) * 8) t)"
        using find Bound False start by (simp add: exidx_entry_def)
      ultimately show ?thesis using t(1) by metis
    qed
  qed
qed

section \<open>Entries\<close>

text \<open>Only an entry marked as not to be unwound leaves the status for it.\<close>

lemma read_table_words_status:
  "read_table_words elf n a s = Fail t \<Longrightarrow> arm_status t = ARM_STATUS_READ_FAILED"
  by (induction n arbitrary: a s)
    (auto simp: read_elf_word_def arm_read_failed_def bind_out_Fail_iff split: option.splits)

lemma extract_header_status:
  "extract_header elf a s = Fail t \<Longrightarrow> arm_status t \<in> {ARM_STATUS_READ_FAILED, ARM_STATUS_INVALID_PERSONALITY}"
  by (auto simp: extract_header_def read_elf_word_def arm_read_failed_def arm_fail_def bind_out_Fail_iff Let_def
      split: option.splits if_splits)

definition cant_unwind :: "reader \<Rightarrow> u32 \<Rightarrow> bool" where
  "cant_unwind elf e \<longleftrightarrow> even (unat e) \<and> Read32 elf (ucast (e + 4)) = Some 1"

lemma ExtractEntryData_status:
  assumes "ExtractEntryData elf e s = Fail t"
  shows "arm_status t = ARM_STATUS_NO_UNWIND \<longleftrightarrow> cant_unwind elf e"
  using assms unfolding ExtractEntryData_def cant_unwind_def Let_def word_tests(2)
  by (auto simp: read_elf_word_def arm_read_failed_def arm_fail_def
      bind_out_Fail_iff append_finish_def Let_def split: option.splits if_splits prod.splits
      dest!: read_table_words_status extract_header_status)

section \<open>The calling frame\<close>

text \<open>
  What the EHABI says about the caller of a function with the entry at \<open>e\<close>: whether it is the last frame, and the registers. An entry or
  an instruction that refuses to unwind ends the stack.
\<close>

definition exidx_caller :: "reader \<Rightarrow> reader \<Rightarrow> u32 \<Rightarrow> u32 list \<Rightarrow> (bool \<times> u32 list) option" where
  "exidx_caller rd mem e rs =
     (case entry_ops rd e of
        None \<Rightarrow> if cant_unwind rd e then Some (True, rs) else None
      | Some ops \<Rightarrow>
          (case ehabi_run mem (finished ops) \<lparr>e_regs = rs, e_vsp = rs ! 13, e_pc_set = False\<rparr> of
             (Some ARM_STATUS_FINISH, t) \<Rightarrow>
               let pc = (if e_pc_set t then e_regs t ! 15 else e_regs t ! 14)
               in Some (pc = 0, (e_regs t)[15 := pc, 13 := e_vsp t])
           | (Some ARM_STATUS_NO_UNWIND, t) \<Rightarrow> Some (True, e_regs t)
           | _ \<Rightarrow> None))"

lemma u32_u64_u32: "ucast (ucast (w :: u32) :: u64) = w"
  by (rule bit_word_eqI) (auto simp: bit_simps)

lemma u64_of_u32_0: "(ucast (w :: u32) :: u64) = 0 \<longleftrightarrow> w = 0"
  using u32_u64_u32 [of w] by auto

lemma run_exidx_caller:
  assumes arch: "mr_arch r = ARCH_ARM" and len: "length (mr_regs r) = 16"
  shows "\<exists>out. run_exidx rd mem e (ArmExidx_new r) = Some out \<and>
    (case exidx_caller rd mem e (mr_regs r) of
       Some (fin, rs) \<Rightarrow> finish_exidx r sig s out = Ok fin (r\<lparr>mr_regs := rs\<rparr>, sig, s)
     | None \<Rightarrow> \<forall>v st. finish_exidx r sig s out \<noteq> Ok v st)"
proof -
  let ?arm = "ArmExidx_new r"
  have new: "arm_regs ?arm = mr_regs r" "arm_cfa ?arm = mr_regs r ! 13" "log_type ?arm = ARM_LOG_NONE"
    using arch by (simp_all add: ArmExidx_new_def regs_sp_def u32_u64_u32)
  have reset: "?arm\<lparr>arm_data := [], arm_status := ARM_STATUS_NONE\<rparr> = ?arm"
    by (simp add: ArmExidx_new_def)
  note found = ExtractEntryData_finds [where s = "ArmExidx_new r" and elf = rd and e = e, unfolded reset]
  show ?thesis
  proof (cases "entry_ops rd e")
    case None
    then obtain t where t: "ExtractEntryData rd e ?arm = Fail t" "ehabi_abs t = ehabi_abs ?arm"
      using found by (auto simp: extracts_simps extract_fails_def)
    then have "arm_regs t = mr_regs r" using new(1) by (simp add: ehabi_abs_def)
    then show ?thesis
      using None t ExtractEntryData_status [OF t(1)]
      by (auto simp: run_exidx_def exidx_caller_def finish_exidx_def Let_def)
  next
    case (Some ops)
    let ?arm' = "push_data (finished ops) ?arm"
    have ex: "ExtractEntryData rd e ?arm = Ok () ?arm'"
      using found Some by (simp add: extracts_simps)
    have "log_type ?arm' = ARM_LOG_NONE" "length (arm_regs ?arm') = 16" "arm_data ?arm' = finished ops"
      using new len by (simp_all add: push_data_def ArmExidx_new_def)
    note runs = ArmExidx_Eval_runs [OF this(1,2), of mem, unfolded this(3)]
    obtain q f where q: "ehabi_run mem (finished ops) \<lparr>e_regs = mr_regs r, e_vsp = mr_regs r ! 13, e_pc_set = False\<rparr> = (q, f)"
      by fastforce
    have matches: "run_matches (q, f) (ArmExidx_Eval mem ?arm')"
      using runs q new by (simp add: push_data_def)
    show ?thesis
    proof (cases q)
      case None
      with matches q ex Some show ?thesis
        by (simp add: run_matches_def run_exidx_def exidx_caller_def finish_exidx_def)
    next
      case (Some st)
      with matches obtain t where t: "ArmExidx_Eval mem ?arm' = Some (if st = ARM_STATUS_FINISH then Ok () t else Fail t)"
          "arm_status t = st" "st \<noteq> ARM_STATUS_READ_FAILED \<longrightarrow> ehabi_abs t = f"
        by (auto simp: run_matches_def)
      show ?thesis
      proof (cases "st = ARM_STATUS_FINISH")
        case True
        with t(3) have f: "arm_regs t = e_regs f" "arm_cfa t = e_vsp f" "pc_set t = e_pc_set f"
          by (auto simp: ehabi_abs_def)
        have "keeps ?arm' (Ok () t)"
          using ArmExidx_Eval_keeps [of ?arm' mem] t(1) True new(1) len by (auto simp: push_data_def)
        then have "length (arm_regs t) = 16"
          using new(1) len by (simp add: arm_inv_def push_data_def)
        then have "regs_pc (r\<lparr>mr_regs := exidx_regs t\<rparr>) = 0 \<longleftrightarrow> (if e_pc_set f then e_regs f ! 15 else e_regs f ! 14) = 0"
          using arch by (simp add: regs_pc_def exidx_regs_def Let_def f u64_of_u32_0)
        then show ?thesis
          using True t \<open>q = Some st\<close> ex q \<open>entry_ops rd e = Some ops\<close>
          by (cases "e_pc_set f") (simp_all add: run_exidx_def exidx_caller_def finish_exidx_def exidx_regs_def f Let_def)
      next
        case False
        then show ?thesis
          using t \<open>q = Some st\<close> ex q \<open>entry_ops rd e = Some ops\<close>
          by (cases st) (auto simp: run_exidx_def exidx_caller_def finish_exidx_def ehabi_abs_def Let_def)
      qed
    qed
  qed
qed

section \<open>Properties\<close>

lemma StepExidx_caller:
  assumes table: "exidx_table rd start n key" and ok: "exidx_ok rd start n bias s" and "bias \<le> pc"
    and regs: "mr_arch r = ARCH_ARM" "length (mr_regs r) = 16"
  shows "if \<exists>i < n. key i \<le> ucast (pc - bias)
    then \<exists>i t. last_upto key n (ucast (pc - bias)) i \<and> exidx_ok rd start n bias t \<and>
      (case exidx_caller rd mem (ucast (start + i * 8)) (mr_regs r) of
         Some (fin, rs) \<Rightarrow> StepExidx rd mem pc (r, sig, s) = Some (Ok fin (r\<lparr>mr_regs := rs\<rparr>, sig, t))
       | None \<Rightarrow> \<exists>out. StepExidx rd mem pc (r, sig, s) = Some out \<and> (\<forall>v st. out \<noteq> Ok v st))
    else \<exists>t. StepExidx rd mem pc (r, sig, s) = Some (Fail (r, sig, t)) \<and> ed_code (if_error t) = ERROR_UNWIND_INFO"
proof -
  have le: "\<not> pc < arm_load_bias s" and bias: "arm_load_bias s = bias" using assms(3) ok by (auto simp: exidx_ok_def)
  note find = FindEntry_finds [OF table ok, of "ucast (pc - bias)"]
  show ?thesis
  proof (cases "\<exists>i < n. key i \<le> ucast (pc - bias)")
    case True
    then obtain i t where t: "FindEntry rd (ucast (pc - bias)) s = Some (Ok (start + i * 8) t)"
        "last_upto key n (ucast (pc - bias)) i" "exidx_ok rd start n bias t"
      using find by auto
    obtain out where "run_exidx rd mem (ucast (start + i * 8)) (ArmExidx_new r) = Some out"
        "case exidx_caller rd mem (ucast (start + i * 8)) (mr_regs r) of
           Some (fin, rs) \<Rightarrow> finish_exidx r sig t out = Ok fin (r\<lparr>mr_regs := rs\<rparr>, sig, t)
         | None \<Rightarrow> \<forall>v st. finish_exidx r sig t out \<noteq> Ok v st"
      using run_exidx_caller [OF regs, of rd mem _ sig t] by blast
    then have "case exidx_caller rd mem (ucast (start + i * 8)) (mr_regs r) of
         Some (fin, rs) \<Rightarrow> StepExidx rd mem pc (r, sig, s) = Some (Ok fin (r\<lparr>mr_regs := rs\<rparr>, sig, t))
       | None \<Rightarrow> \<exists>out. StepExidx rd mem pc (r, sig, s) = Some out \<and> (\<forall>v st. out \<noteq> Ok v st)"
      using le bias t(1) by (auto simp: StepExidx_def split: option.splits)
    with True t(2,3) show ?thesis by auto
  next
    case False
    then obtain t where "FindEntry rd (ucast (pc - bias)) s = Some (Fail t)" "ed_code (if_error t) = ERROR_UNWIND_INFO"
      using find unfolding if_not_P [OF False] by blast
    with False le bias show ?thesis by (auto simp: StepExidx_def)
  qed
qed

text \<open>The states of the object that any sequence of lookups can lead to.\<close>

inductive exidx_reaches :: "reader \<Rightarrow> elf_interface_arm \<Rightarrow> elf_interface_arm \<Rightarrow> bool" for rd s where
  start: "exidx_reaches rd s (s\<lparr>arm_addrs := \<lambda>_. 0\<rparr>)"
| find: "exidx_reaches rd s t \<Longrightarrow> FindEntry rd pc t = Some out \<Longrightarrow> state_of out = Some u \<Longrightarrow> exidx_reaches rd s u"

lemma FindEntry_states:
  assumes "exidx_ok rd start n bias t" and "n \<le> max_half"
  shows "\<exists>out. FindEntry rd pc t = Some out \<and> out_states (exidx_ok rd start n bias) out"
proof -
  from exidx.search_returns [OF assms, of pc 0] obtain r where
    r: "search_loop half_sum (exidx_probe rd pc) 0 n t = Some r" "out_states (exidx_ok rd start n bias) r" by blast
  show ?thesis
    using r assms(1)
    by (cases r) (auto simp: FindEntry_def exidx_ok_def exidx_error_def split: position.splits)
qed

lemma exidx_reaches_ok:
  assumes "exidx_reaches rd s t" and "total_entries s \<le> max_half"
  shows "exidx_ok rd (start_offset s) (total_entries s) (arm_load_bias s) t"
  using assms(1)
proof induction
  case (find t pc out u)
  from FindEntry_states [OF find.IH assms(2), of pc] find.hyps(2) have
    "out_states (exidx_ok rd (start_offset s) (total_entries s) (arm_load_bias s)) out" by auto
  with find.hyps(3) show ?case by (rule out_states_state_of [rotated])
qed (simp add: exidx_ok_def)


text \<open>Two functions, at \<open>0x100\<close> and \<open>0x200\<close>; the second pops two registers and \<^verbatim>\<open>lr\<close>.\<close>

definition exidx_example :: reader where
  "exidx_example a n =
     (if a = 0x40 then take n [0xc0, 0, 0, 0] else if a = 0x44 then take n [1, 0, 0, 0]
      else if a = 0x48 then take n [0xb8, 1, 0, 0] else if a = 0x4c then take n [0xb0, 0xa9, 0x01, 0x80] else [])"

definition exidx_example_key :: "u64 \<Rightarrow> u32" where
  "exidx_example_key i = (if i = 0 then 0x100 else 0x200)"

definition exidx_interface :: elf_interface_arm where
  "exidx_interface = ElfInterfaceArm_new\<lparr>start_offset := 0x40, total_entries := 2\<rparr>"

definition exidx_example_regs :: "u32 mregs" where
  "exidx_example_regs = (zero_regs ARCH_ARM)\<lparr>mr_regs := [0, 0, 0, 0, 0, 0, 0, 0, 0, 0, 0, 0, 0, 0x1000, 0, 0]\<rparr>"


end
