(* ===== verification/Elf_File.thy ===== *)
theory Elf_File
  imports Elf_Interface_Arm
begin

text \<open>
  \<^verbatim>\<open>libunwindstack/Elf.cpp\<close>: an ELF file with the interface for its class and machine. \<^verbatim>\<open>ElfInterface*\<close> is a sum of the interface
  classes and \<^verbatim>\<open>Regs*\<close> one of the two register widths; their virtual functions are cases.
\<close>

section \<open>Registers of either width\<close>

datatype machine = R32 "u32 mregs" | R64 "u64 mregs"

primrec machine_arch :: "machine \<Rightarrow> ArchEnum" where
  "machine_arch (R32 r) = mr_arch r"
| "machine_arch (R64 r) = mr_arch r"

primrec machine_pc :: "machine \<Rightarrow> u64" where
  "machine_pc (R32 r) = regs_pc r"
| "machine_pc (R64 r) = regs_pc r"

primrec machine_sp :: "machine \<Rightarrow> u64" where
  "machine_sp (R32 r) = regs_sp r"
| "machine_sp (R64 r) = regs_sp r"

primrec machine_dex_pc :: "machine \<Rightarrow> u64" where
  "machine_dex_pc (R32 r) = mr_dex_pc r"
| "machine_dex_pc (R64 r) = mr_dex_pc r"

primrec machine_set_dex_pc :: "u64 \<Rightarrow> machine \<Rightarrow> machine" where
  "machine_set_dex_pc pc (R32 r) = R32 (set_dex_pc pc r)"
| "machine_set_dex_pc pc (R64 r) = R64 (set_dex_pc pc r)"

primrec machine_fallback_pc :: "machine \<Rightarrow> machine" where
  "machine_fallback_pc (R32 r) = R32 (fallback_pc r)"
| "machine_fallback_pc (R64 r) = R64 (fallback_pc r)"

primrec machine_SetPcFromReturnAddress :: "reader \<Rightarrow> machine \<Rightarrow> (unit, machine) outcome" where
  "machine_SetPcFromReturnAddress mem (R32 r) = map_state R32 R32 (SetPcFromReturnAddress mem r)"
| "machine_SetPcFromReturnAddress mem (R64 r) = map_state R64 R64 (SetPcFromReturnAddress mem r)"

text \<open>\<open>junk\<close> is the value of an uninitialised variable of \<^verbatim>\<open>RegsMips64::StepIfSignalHandler\<close>.\<close>

primrec machine_StepIfSignalHandler :: "u64 \<Rightarrow> reader \<Rightarrow> u64 \<Rightarrow> reader \<Rightarrow> machine \<Rightarrow> (unit, machine) outcome" where
  "machine_StepIfSignalHandler junk elf off mem (R32 r) =
     map_state R32 R32
       (case mr_arch r of
          ARCH_ARM \<Rightarrow> RegsArm_StepIfSignalHandler elf off mem r
        | ARCH_X86 \<Rightarrow> RegsX86_StepIfSignalHandler elf off mem r
        | ARCH_MIPS \<Rightarrow> RegsMips_StepIfSignalHandler elf off mem r
        | _ \<Rightarrow> Undef UB_Cast)"
| "machine_StepIfSignalHandler junk elf off mem (R64 r) =
     map_state R64 R64
       (case mr_arch r of
          ARCH_ARM64 \<Rightarrow> RegsArm64_StepIfSignalHandler elf off mem r
        | ARCH_RISCV64 \<Rightarrow> RegsRiscv64_StepIfSignalHandler elf off mem r
        | ARCH_X86_64 \<Rightarrow> RegsX86_64_StepIfSignalHandler elf off mem r
        | ARCH_MIPS64 \<Rightarrow> RegsMips64_StepIfSignalHandler junk elf off mem r
        | _ \<Rightarrow> Undef UB_Cast)"

section \<open>Interfaces\<close>

datatype iface = Plain elf_class elf_interface | Arm elf_interface_arm

primrec iface_base :: "iface \<Rightarrow> elf_interface" where
  "iface_base (Plain cls s) = s"
| "iface_base (Arm s) = elf_interface.truncate s"

primrec iface_Init :: "reader \<Rightarrow> u64 \<Rightarrow> iface \<Rightarrow> (unit, u64 \<times> iface) outcome" where
  "iface_Init rd load_bias (Plain cls s) =
     map_state (map_prod id (Plain cls)) (map_prod id (Plain cls)) (ReadAllHeaders cls rd HandleUnknownType (load_bias, s))"
| "iface_Init rd load_bias (Arm s) = map_state (map_prod id Arm) (map_prod id Arm) (ElfInterfaceArm_Init rd (load_bias, s))"

primrec iface_InitHeaders :: "reader \<Rightarrow> iface \<Rightarrow> (unit, iface) outcome" where
  "iface_InitHeaders rd (Plain cls s) = map_state (Plain cls) (Plain cls) (InitHeaders cls rd s)"
| "iface_InitHeaders rd (Arm s) = map_state Arm Arm (InitHeaders Elf32 rd s)"

primrec iface_GetSoname :: "reader \<Rightarrow> iface \<Rightarrow> (u8 list \<times> iface) option" where
  "iface_GetSoname rd (Plain cls s) = map_option (map_prod id (Plain cls)) (GetSoname cls rd s)"
| "iface_GetSoname rd (Arm s) = map_option (map_prod id Arm) (GetSoname Elf32 rd s)"

primrec iface_GetFunctionName :: "reader \<Rightarrow> u64 \<Rightarrow> iface \<Rightarrow> (u8 list \<times> u64, iface) outcome option" where
  "iface_GetFunctionName rd addr (Plain cls s) = map_option (map_state (Plain cls) (Plain cls)) (GetFunctionName cls rd addr s)"
| "iface_GetFunctionName rd addr (Arm s) = map_option (map_state Arm Arm) (ElfInterfaceArm_GetFunctionName rd addr s)"

primrec iface_GetGlobalVariable :: "reader \<Rightarrow> u8 list \<Rightarrow> iface \<Rightarrow> (u64, iface) outcome" where
  "iface_GetGlobalVariable rd name (Plain cls s) = map_state (Plain cls) (Plain cls) (GetGlobalVariable cls rd name s)"
| "iface_GetGlobalVariable rd name (Arm s) = map_state Arm Arm (GetGlobalVariable Elf32 rd name s)"

primrec iface_IsValidPc :: "u64 \<Rightarrow> iface \<Rightarrow> (unit, iface) outcome option" where
  "iface_IsValidPc pc (Plain cls s) = map_option (map_state (Plain cls) (Plain cls)) (ElfInterface_IsValidPc pc s)"
| "iface_IsValidPc pc (Arm s) = map_option (map_state Arm Arm) (ElfInterface_IsValidPc pc s)"

primrec iface_drop_debugdata :: "iface \<Rightarrow> iface" where
  "iface_drop_debugdata (Plain cls s) = Plain cls (s\<lparr>gnu_debugdata_offset := 0, gnu_debugdata_size := 0\<rparr>)"
| "iface_drop_debugdata (Arm s) = Arm (s\<lparr>gnu_debugdata_offset := 0, gnu_debugdata_size := 0\<rparr>)"

text \<open>
  \<open>xz\<close> is what the LZMA library makes of the compressed bytes, \<open>None\<close> if they are not valid. The name of the file, an argument of
  \<^verbatim>\<open>MemoryXz\<close> for its statistics, is read (and cached) but has no influence on the result.
\<close>

type_synonym decompressor = "reader \<Rightarrow> u64 \<Rightarrow> u64 \<Rightarrow> reader option"

definition CreateGnuDebugdataMemory :: "decompressor \<Rightarrow> reader \<Rightarrow> iface \<Rightarrow> (reader option \<times> iface) option" where
  "CreateGnuDebugdataMemory xz rd i =
     (let off = gnu_debugdata_offset (iface_base i); sz = gnu_debugdata_size (iface_base i)
      in if off = 0 \<or> sz = 0 then Some (None, i)
         else map_option (\<lambda>(_, i). case xz rd off sz of
             None \<Rightarrow> (None, iface_drop_debugdata i)
           | Some m \<Rightarrow> (Some m, i)) (iface_GetSoname rd i))"

section \<open>State\<close>

text \<open>\<open>elf_gnu\<close> is \<^verbatim>\<open>gnu_debugdata_interface_\<close> with the memory it reads.\<close>

record elf =
  elf_valid :: bool
  elf_load_bias :: u64
  elf_iface :: "iface option"
  elf_memory :: "reader option"
  elf_machine_type :: u32
  elf_class_type :: u8
  elf_arch :: ArchEnum
  elf_gnu :: "(iface \<times> reader) option"

text \<open>Three members have no initialiser.\<close>

record elf_junk =
  junk_machine_type :: u32
  junk_class_type :: u8
  junk_arch :: ArchEnum
  junk_load_bias :: u64

definition Elf_new :: "elf_junk \<Rightarrow> reader option \<Rightarrow> elf" where
  "Elf_new junk mem =
     \<lparr>elf_valid = False, elf_load_bias = 0, elf_iface = None, elf_memory = mem, elf_machine_type = junk_machine_type junk,
      elf_class_type = junk_class_type junk, elf_arch = junk_arch junk, elf_gnu = None\<rparr>"

section \<open>Opening a file\<close>

abbreviation (input) ELFCLASS32 :: u8 where "ELFCLASS32 \<equiv> 1"
abbreviation (input) ELFCLASS64 :: u8 where "ELFCLASS64 \<equiv> 2"

definition IsValidElf :: "reader option \<Rightarrow> bool" where
  "IsValidElf mem = (case mem of None \<Rightarrow> False | Some rd \<Rightarrow> ReadFully rd 0 4 = Some (0x7f # str_bytes ''ELF''))"

definition machine_interface :: "u8 \<Rightarrow> u16 \<Rightarrow> (ArchEnum \<times> iface) option" where
  "machine_interface cls e_machine =
     (if cls = ELFCLASS32 then
        if e_machine = 40 then Some (ARCH_ARM, Arm ElfInterfaceArm_new)
        else if e_machine = 3 then Some (ARCH_X86, Plain Elf32 ElfInterface_new)
        else if e_machine = 8 then Some (ARCH_MIPS, Plain Elf32 ElfInterface_new)
        else None
      else
        if e_machine = 183 then Some (ARCH_ARM64, Plain Elf64 ElfInterface_new)
        else if e_machine = 62 then Some (ARCH_X86_64, Plain Elf64 ElfInterface_new)
        else if e_machine = 8 then Some (ARCH_MIPS64, Plain Elf64 ElfInterface_new)
        else if e_machine = 243 then Some (ARCH_RISCV64, Plain Elf64 ElfInterface_new)
        else None)"

text \<open>\<^verbatim>\<open>CreateInterfaceFromMemory\<close> also sets the class, the machine type and the architecture of the object.\<close>

definition CreateInterfaceFromMemory :: "reader option \<Rightarrow> elf \<Rightarrow> iface option \<times> elf" where
  "CreateInterfaceFromMemory mem e =
     (case mem of
        None \<Rightarrow> (None, e)
      | Some rd \<Rightarrow>
          if \<not> IsValidElf mem then (None, e)
          else case ReadFully rd 4 1 of
              None \<Rightarrow> (None, e)
            | Some cls \<Rightarrow>
                let e = e\<lparr>elf_class_type := hd cls\<rparr>
                in if hd cls \<noteq> ELFCLASS32 \<and> hd cls \<noteq> ELFCLASS64 then (None, e)
                   else case ReadFully rd 18 2 of
                       None \<Rightarrow> (None, e)
                     | Some bs \<Rightarrow>
                         let e = e\<lparr>elf_machine_type := ucast (le_word bs :: u16)\<rparr>
                         in case machine_interface (hd cls) (le_word bs) of
                              None \<Rightarrow> (None, e)
                            | Some (arch, i) \<Rightarrow> (Some i, e\<lparr>elf_arch := arch\<rparr>))"

definition InitGnuDebugdata :: "decompressor \<Rightarrow> elf_junk \<Rightarrow> elf \<Rightarrow> (unit, elf) outcome option" where
  "InitGnuDebugdata xz junk e =
     (case (elf_iface e, elf_memory e) of
        (Some i, Some rd) \<Rightarrow>
          if \<not> elf_valid e \<or> gnu_debugdata_offset (iface_base i) = 0 then Some (Ok () e)
          else Option.bind (CreateGnuDebugdataMemory xz rd i) (\<lambda>(mem, i).
            let (gnu, e) = CreateInterfaceFromMemory mem (e\<lparr>elf_iface := Some i\<rparr>)
            in case (gnu, mem) of
                 (Some g, Some m) \<Rightarrow>
                   (case iface_Init m (junk_load_bias junk) g of
                      Ok _ (_, g) \<Rightarrow>
                        Some (case iface_InitHeaders m g of
                            Ok _ g \<Rightarrow> Ok () (e\<lparr>elf_gnu := Some (g, m)\<rparr>)
                          | Fail g \<Rightarrow> Fail e
                          | Abort \<Rightarrow> Abort
                          | Undef k \<Rightarrow> Undef k)
                    | Fail _ \<Rightarrow> Some (Ok () e)
                    | Abort \<Rightarrow> Some Abort
                    | Undef k \<Rightarrow> Some (Undef k))
               | _ \<Rightarrow> Some (Ok () e))
      | _ \<Rightarrow> Some (if elf_valid e then Undef UB_Null else Ok () e))"

definition Elf_Init :: "decompressor \<Rightarrow> elf_junk \<Rightarrow> elf \<Rightarrow> (unit, elf) outcome option" where
  "Elf_Init xz junk e =
     (let e = e\<lparr>elf_load_bias := 0\<rparr>
      in case elf_memory e of
           None \<Rightarrow> Some (Fail e)
         | Some rd \<Rightarrow>
             let (i, e) = CreateInterfaceFromMemory (Some rd) e; e = e\<lparr>elf_iface := i\<rparr>
             in case i of
                  None \<Rightarrow> Some (Fail e)
                | Some i \<Rightarrow>
                    (case iface_Init rd 0 i of
                       Ok _ (load_bias, i) \<Rightarrow>
                         (case iface_InitHeaders rd i of
                            Ok _ i \<Rightarrow>
                              InitGnuDebugdata xz junk (e\<lparr>elf_valid := True, elf_load_bias := load_bias, elf_iface := Some i\<rparr>)
                          | Fail i \<Rightarrow> Some (Fail e)
                          | Abort \<Rightarrow> Some Abort
                          | Undef k \<Rightarrow> Some (Undef k))
                     | Fail (load_bias, _) \<Rightarrow> Some (Fail (e\<lparr>elf_valid := False, elf_load_bias := load_bias, elf_iface := None\<rparr>))
                     | Abort \<Rightarrow> Some Abort
                     | Undef k \<Rightarrow> Some (Undef k)))"

definition Invalidate :: "elf \<Rightarrow> elf" where
  "Invalidate e = e\<lparr>elf_iface := None, elf_valid := False\<rparr>"

section \<open>Static functions\<close>

definition class_of :: "reader \<Rightarrow> elf_class option" where
  "class_of rd =
     (case ReadFully rd 4 1 of
        Some cls \<Rightarrow> if hd cls = ELFCLASS32 then Some Elf32 else if hd cls = ELFCLASS64 then Some Elf64 else None
      | None \<Rightarrow> None)"

definition GetInfo :: "reader \<Rightarrow> (u64, unit) outcome" where
  "GetInfo rd =
     (if \<not> IsValidElf (Some rd) then Fail ()
      else case class_of rd of None \<Rightarrow> Fail () | Some cls \<Rightarrow> GetMaxSize cls rd)"

definition Elf_GetLoadBias :: "reader option \<Rightarrow> u64" where
  "Elf_GetLoadBias mem =
     (case mem of
        None \<Rightarrow> 0
      | Some rd \<Rightarrow>
          if \<not> IsValidElf mem then 0
          else case class_of rd of None \<Rightarrow> 0 | Some cls \<Rightarrow> ElfInterface_GetLoadBias cls rd)"

definition Elf_GetBuildID_static :: "reader \<Rightarrow> (u8 list, unit) outcome option" where
  "Elf_GetBuildID_static rd =
     (if \<not> IsValidElf (Some rd) then Some (Ok [] ())
      else case class_of rd of None \<Rightarrow> Some (Ok [] ()) | Some cls \<Rightarrow> ReadBuildIDFromMemory cls rd)"

section \<open>Operations of an open file\<close>

definition GetRelPc :: "u64 \<Rightarrow> u64 \<Rightarrow> u64 \<Rightarrow> elf \<Rightarrow> u64" where
  "GetRelPc pc map_start map_elf_offset e = pc - map_start + elf_load_bias e + map_elf_offset"

definition Elf_GetSoname :: "elf \<Rightarrow> (u8 list \<times> elf) option" where
  "Elf_GetSoname e =
     (case (elf_valid e, elf_iface e, elf_memory e) of
        (True, Some i, Some rd) \<Rightarrow> map_option (\<lambda>(name, i). (name, e\<lparr>elf_iface := Some i\<rparr>)) (iface_GetSoname rd i)
      | _ \<Rightarrow> Some ([], e))"

text \<open>A lookup in the interface and then in the one of \<^verbatim>\<open>.gnu_debugdata\<close>.\<close>

definition in_gnu :: "(reader \<Rightarrow> iface \<Rightarrow> ('v, iface) outcome option) \<Rightarrow> elf \<Rightarrow> ('v, elf) outcome option" where
  "in_gnu f e =
     (case elf_gnu e of
        None \<Rightarrow> Some (Fail e)
      | Some (g, m) \<Rightarrow>
          let close = (\<lambda>g. e\<lparr>elf_gnu := Some (g, m)\<rparr>) in map_option (map_state close close) (f m g))"

definition in_both :: "(reader \<Rightarrow> iface \<Rightarrow> ('v, iface) outcome option) \<Rightarrow> elf \<Rightarrow> ('v, elf) outcome option" where
  "in_both f e =
     (if \<not> elf_valid e then Some (Fail e)
      else case (elf_iface e, elf_memory e) of
          (Some i, Some rd) \<Rightarrow>
            (let close = (\<lambda>i. e\<lparr>elf_iface := Some i\<rparr>) in else_opt (map_option (map_state close close) (f rd i)) (in_gnu f))
        | _ \<Rightarrow> Some (Undef UB_Null))"

definition Elf_GetFunctionName :: "u64 \<Rightarrow> elf \<Rightarrow> (u8 list \<times> u64, elf) outcome option" where
  "Elf_GetFunctionName addr = in_both (\<lambda>rd. iface_GetFunctionName rd addr)"

definition Elf_IsValidPc :: "u64 \<Rightarrow> elf \<Rightarrow> (unit, elf) outcome option" where
  "Elf_IsValidPc pc e =
     (if 0 < sint (elf_load_bias e) \<and> pc < elf_load_bias e then Some (Fail e) else in_both (\<lambda>rd. iface_IsValidPc pc) e)"

definition GetGlobalVariableOffset :: "u8 list \<Rightarrow> elf \<Rightarrow> (u64, elf) outcome option" where
  "GetGlobalVariableOffset name e =
     map_option (\<lambda>r. bind_out r (\<lambda>vaddr e.
       let vaddr = (if elf_arch e = ARCH_ARM64 then vaddr AND (2 ^ 56 - 1) else vaddr)
       in case elf_iface e of
            None \<Rightarrow> Undef UB_Null
          | Some i \<Rightarrow>
              let s = iface_base i
              in if data_vaddr_start s \<le> vaddr \<and> vaddr < data_vaddr_end s then Ok (vaddr - data_vaddr_start s + data_sec_offset s) e
                 else if dynamic_vaddr_start s \<le> vaddr \<and> vaddr < dynamic_vaddr_end s
                 then Ok (vaddr - dynamic_vaddr_start s + dynamic_offset s) e
                 else Fail e))
       (in_both (\<lambda>rd i. Some (iface_GetGlobalVariable rd name i)) e)"

definition Elf_GetTextRange :: "elf \<Rightarrow> (u64 \<times> u64) option" where
  "Elf_GetTextRange e =
     (if \<not> elf_valid e then None
      else map_option (\<lambda>(addr, sz). (addr + elf_load_bias e, sz))
        (case Option.bind (elf_iface e) (\<lambda>i. GetTextRange (iface_base i)) of
           Some text_range \<Rightarrow> Some text_range
         | None \<Rightarrow> Option.bind (elf_gnu e) (\<lambda>(g, _). GetTextRange (iface_base g))))"

definition Elf_GetBuildID :: "elf \<Rightarrow> u8 list option" where
  "Elf_GetBuildID e =
     (case (elf_valid e, elf_iface e, elf_memory e) of
        (True, Some i, Some rd) \<Rightarrow> ReadBuildID rd (iface_base i)
      | _ \<Rightarrow> Some [])"

definition GetLastError :: "elf \<Rightarrow> ErrorData" where
  "GetLastError e =
     (case (elf_valid e, elf_iface e) of
        (True, Some i) \<Rightarrow> if_error (iface_base i)
      | _ \<Rightarrow> \<lparr>ed_code = ERROR_INVALID_ELF, ed_address = 0\<rparr>)"

definition Elf_StepIfSignalHandler :: "u64 \<Rightarrow> u64 \<Rightarrow> reader \<Rightarrow> elf \<Rightarrow> machine \<Rightarrow> (unit, machine) outcome" where
  "Elf_StepIfSignalHandler junk rel_pc mem e m =
     (if \<not> elf_valid e \<or> rel_pc < elf_load_bias e then Fail m
      else case elf_memory e of
          None \<Rightarrow> Undef UB_Null
        | Some rd \<Rightarrow> machine_StepIfSignalHandler junk rd (rel_pc - elf_load_bias e) mem m)"

section \<open>Step\<close>

text \<open>The process memory, the values of uninitialised members, and the iteration order of the locations.\<close>

record unwind_env =
  ue_memory :: reader
  ue_cur_op :: u8
  ue_saved32 :: "u32 list"
  ue_saved64 :: "u64 list"
  ue_junk :: u64
  ue_order :: loc_order

definition env32 :: "unwind_env \<Rightarrow> u32 eval_env" where
  "env32 ue = \<lparr>ev_section = (\<lambda>_ _. []), ev_memory = ue_memory ue, ev_cur_op = ue_cur_op ue, ev_saved_regs = ue_saved32 ue\<rparr>"

definition env64 :: "unwind_env \<Rightarrow> u64 eval_env" where
  "env64 ue = \<lparr>ev_section = (\<lambda>_ _. []), ev_memory = ue_memory ue, ev_cur_op = ue_cur_op ue, ev_saved_regs = ue_saved64 ue\<rparr>"

text \<open>
  The virtual function \<^verbatim>\<open>Step\<close> of an interface, for registers of 32 and of 64 bits. An interface of the other width would cast the
  registers to the wrong class; \<^verbatim>\<open>MapInfo::GetElf\<close> invalidates files of another architecture.
\<close>

definition iface_Step32 ::
  "((u32, 'g) unwind_state \<Rightarrow> (bool, (u32, 'g) unwind_state) outcome option) \<Rightarrow> ('g \<Rightarrow> ErrorData) \<Rightarrow> unwind_env \<Rightarrow> reader \<Rightarrow>
    u64 \<Rightarrow> (u32, iface \<times> 'g option) unwind_state \<Rightarrow> (bool, (u32, iface \<times> 'g option) unwind_state) outcome option" where
  "iface_Step32 gnu_step gnu_error ue rd pc st =
     (let (r, sig, i, gnu) = st
      in case i of
           Plain Elf32 s \<Rightarrow>
             let close = (\<lambda>(r, sig, s, gnu). (r, sig, Plain Elf32 s, gnu))
             in map_option (map_state close close) (ElfInterface_Step gnu_step gnu_error (env32 ue) (ue_order ue) pc (r, sig, s, gnu))
         | Arm s \<Rightarrow>
             let close = (\<lambda>(r, sig, s, gnu). (r, sig, Arm s, gnu))
             in map_option (map_state close close)
                  (ElfInterfaceArm_Step gnu_step gnu_error rd (env32 ue) (ue_order ue) pc (r, sig, s, gnu))
         | Plain Elf64 s \<Rightarrow> Some (Undef UB_Cast))"

definition iface_Step64 ::
  "((u64, 'g) unwind_state \<Rightarrow> (bool, (u64, 'g) unwind_state) outcome option) \<Rightarrow> ('g \<Rightarrow> ErrorData) \<Rightarrow> unwind_env \<Rightarrow> reader \<Rightarrow>
    u64 \<Rightarrow> (u64, iface \<times> 'g option) unwind_state \<Rightarrow> (bool, (u64, iface \<times> 'g option) unwind_state) outcome option" where
  "iface_Step64 gnu_step gnu_error ue rd pc st =
     (let (r, sig, i, gnu) = st
      in case i of
           Plain Elf64 s \<Rightarrow>
             let close = (\<lambda>(r, sig, s, gnu). (r, sig, Plain Elf64 s, gnu))
             in map_option (map_state close close) (ElfInterface_Step gnu_step gnu_error (env64 ue) (ue_order ue) pc (r, sig, s, gnu))
         | _ \<Rightarrow> Some (Undef UB_Cast))"

text \<open>The interface of \<^verbatim>\<open>.gnu_debugdata\<close> has no further one.\<close>

definition gnu_error :: "iface \<times> reader \<Rightarrow> ErrorData" where
  "gnu_error g = if_error (iface_base (fst g))"

definition gnu_Step ::
  "(('a, iface \<times> unit option) unwind_state \<Rightarrow> (bool, ('a, iface \<times> unit option) unwind_state) outcome option) \<Rightarrow>
    ('a, iface \<times> reader) unwind_state \<Rightarrow> (bool, ('a, iface \<times> reader) unwind_state) outcome option" where
  "gnu_Step step st =
     (let (r, sig, g, m) = st; close = (\<lambda>(r, sig, g, _). (r, sig, g, m))
      in map_option (map_state close close) (step (r, sig, g, None)))"

definition no_step :: "('a, unit) unwind_state \<Rightarrow> (bool, ('a, unit) unwind_state) outcome option" where
  "no_step st = Some (Fail st)"

definition no_error :: "unit \<Rightarrow> ErrorData" where
  "no_error _ = \<lparr>ed_code = ERROR_NONE, ed_address = 0\<rparr>"

definition Elf_Step :: "unwind_env \<Rightarrow> u64 \<Rightarrow> machine \<times> bool \<times> elf \<Rightarrow> (bool, machine \<times> bool \<times> elf) outcome option" where
  "Elf_Step ue pc st =
     (let (m, sig, e) = st
      in if \<not> elf_valid e then Some (Fail st)
         else case (elf_iface e, elf_memory e) of
             (Some i, Some rd) \<Rightarrow>
               (case m of
                  R32 r \<Rightarrow>
                    let close = (\<lambda>(r, sig, i, gnu). (R32 r, sig, e\<lparr>elf_iface := Some i, elf_gnu := gnu\<rparr>));
                        gnu_step = (\<lambda>(r, sig, g, gm). gnu_Step (iface_Step32 no_step no_error ue gm pc) (r, sig, g, gm))
                    in map_option (map_state close close) (iface_Step32 gnu_step gnu_error ue rd pc (r, sig, i, elf_gnu e))
                | R64 r \<Rightarrow>
                    let close = (\<lambda>(r, sig, i, gnu). (R64 r, sig, e\<lparr>elf_iface := Some i, elf_gnu := gnu\<rparr>));
                        gnu_step = (\<lambda>(r, sig, g, gm). gnu_Step (iface_Step64 no_step no_error ue gm pc) (r, sig, g, gm))
                    in map_option (map_state close close) (iface_Step64 gnu_step gnu_error ue rd pc (r, sig, i, elf_gnu e)))
           | _ \<Rightarrow> Some (Undef UB_Null))"

end
