(* ===== verification/Jit_State.thy ===== *)
theory Jit_State
  imports Elf_File
begin

text \<open>
  The state of \<^verbatim>\<open>libunwindstack/GlobalDebugImpl.h\<close>: the cached entries of the list in which a JIT compiler publishes its symbol files.
\<close>

text \<open>\<^verbatim>\<open>UID\<close>, ordered by address and then by sequence number.\<close>

datatype uid = UID (uid_address: u64) (uid_seqlock: u32)

definition UID_less :: "uid \<Rightarrow> uid \<Rightarrow> bool" where
  "UID_less a b \<longleftrightarrow> uid_address a < uid_address b \<or> uid_address a = uid_address b \<and> uid_seqlock a < uid_seqlock b"

instantiation uid :: linorder
begin

definition less_uid :: "uid \<Rightarrow> uid \<Rightarrow> bool" where
  "less_uid a b \<longleftrightarrow> UID_less a b"

definition less_eq_uid :: "uid \<Rightarrow> uid \<Rightarrow> bool" where
  "less_eq_uid a b \<longleftrightarrow> a < b \<or> a = (b :: uid)"

instance
proof
  fix a b c :: uid
  show "(a < b) = (a \<le> b \<and> \<not> b \<le> a)" by (cases a; cases b) (auto simp: less_uid_def UID_less_def less_eq_uid_def)
  show "a \<le> a" by (simp add: less_eq_uid_def)
  show "a \<le> b \<Longrightarrow> b \<le> c \<Longrightarrow> a \<le> c" by (cases a; cases b; cases c) (auto simp: less_uid_def UID_less_def less_eq_uid_def)
  show "a \<le> b \<Longrightarrow> b \<le> a \<Longrightarrow> a = b" by (cases a; cases b) (auto simp: less_uid_def UID_less_def less_eq_uid_def)
  show "a \<le> b \<or> b \<le> a" by (cases a; cases b) (auto simp: less_uid_def UID_less_def less_eq_uid_def)
qed

end

text \<open>
  The members; \<open>jit_time\<close> counts the reads of the process memory so far, which may change from one read to the next. The symbol
  files are ELF objects, referred to by index.
\<close>

record jit_state =
  jit_time :: nat
  jit_descriptor :: u64
  jit_entry_size :: nat
  jit_seqlock_offset :: u64
  jit_entries :: "(uid, nat) omap"

definition jit_new :: jit_state where
  "jit_new = \<lparr>jit_time = 0, jit_descriptor = 0, jit_entry_size = 0, jit_seqlock_offset = 0, jit_entries = []\<rparr>"

end
