(* ===== verification/Map_Info.thy ===== *)
theory Map_Info
  imports Jit_State Map_Lookup
begin

text \<open>
  \<^verbatim>\<open>libunwindstack/MapInfo.cpp\<close> and the cache of ELF objects of \<^verbatim>\<open>Elf.cpp\<close>: the memory an ELF file is read from, the ELF object of a map
  and the values derived from it. ELF objects have an identity (maps share them), so they are kept in a list and referred to by
  index, like the map objects.
\<close>

section \<open>State\<close>

text \<open>\<open>w_cache\<close> is the static cache of \<^verbatim>\<open>Elf\<close>, from names and start offsets to ELF objects; \<open>w_jit\<close> is the \<^verbatim>\<open>JitDebug\<close> object.\<close>

record world =
  w_maps :: maps
  w_elfs :: "elf list"
  w_cache :: "string \<Rightarrow> (u64 \<Rightarrow> nat option) option"
  w_cache_enabled :: bool
  w_jit :: jit_state

text \<open>The file system: page size, the contents and size of a file, and whether mapping a window of it succeeds.\<close>

record file_env =
  fe_page_size :: u64
  fe_file :: "string \<Rightarrow> ((nat \<Rightarrow> u8) \<times> u64) option"
  fe_mmap :: "string \<Rightarrow> u64 \<Rightarrow> u64 \<Rightarrow> bool"

abbreviation (input) MAPS_FLAGS_JIT_SYMFILE_MAP :: u16 where "MAPS_FLAGS_JIT_SYMFILE_MAP \<equiv> 0x4000"
abbreviation (input) PROT_READ :: u16 where "PROT_READ \<equiv> 1"
abbreviation (input) PROT_EXEC :: u16 where "PROT_EXEC \<equiv> 4"

definition obj_at :: "nat \<Rightarrow> maps \<Rightarrow> map_info" where
  "obj_at p s = objs s ! p"

section \<open>Neighbouring maps\<close>

definition IsBlank :: "map_info \<Rightarrow> bool" where
  "IsBlank m \<longleftrightarrow> mi_offset m = 0 \<and> mi_flags m = 0 \<and> mi_name m = []"

definition ElfFileNotReadable :: "map_info \<Rightarrow> bool" where
  "ElfFileNotReadable m \<longleftrightarrow>
     mi_memory_backed m \<and> mi_name m \<noteq> [] \<and> hd (mi_name m) \<noteq> CHR ''['' \<and> take 7 (mi_name m) \<noteq> ''/memfd:''"

text \<open>The loop of \<^verbatim>\<open>GetPrevRealMap\<close> and \<^verbatim>\<open>GetNextRealMap\<close>; \<open>link\<close> follows \<^verbatim>\<open>prev_map\<close> or \<^verbatim>\<open>next_map\<close>.\<close>

partial_function (option) real_map :: "(nat \<Rightarrow> nat option) \<Rightarrow> string \<Rightarrow> maps \<Rightarrow> nat option \<Rightarrow> nat option option" where
  "real_map link name s p =
     (if p = None then Some None
      else if \<not> IsBlank (obj_at (the p) s) then Some (if mi_name (obj_at (the p) s) = name then p else None)
      else real_map link name s (link (the p)))"

declare real_map.simps [code]

definition prev_link :: "nat set \<Rightarrow> maps \<Rightarrow> nat \<Rightarrow> nat option" where
  "prev_link held s q = lock_ptr held s (mi_prev (obj_at q s))"

definition next_link :: "nat set \<Rightarrow> maps \<Rightarrow> nat \<Rightarrow> nat option" where
  "next_link held s q = lock_ptr held s (mi_next (obj_at q s))"

definition GetPrevRealMap :: "nat set \<Rightarrow> nat \<Rightarrow> maps \<Rightarrow> nat option option" where
  "GetPrevRealMap held p s =
     (if mi_name (obj_at p s) = [] then Some None
      else real_map (prev_link held s) (mi_name (obj_at p s)) s (prev_link held s p))"

definition GetNextRealMap :: "nat set \<Rightarrow> nat \<Rightarrow> maps \<Rightarrow> nat option option" where
  "GetNextRealMap held p s =
     (if mi_name (obj_at p s) = [] then Some None
      else real_map (next_link held s) (mi_name (obj_at p s)) s (next_link held s p))"

section \<open>The memory of the ELF file of a map\<close>

text \<open>\<^verbatim>\<open>memory->Init(name(), off, sz)\<close>; on failure the object is only used for another \<^verbatim>\<open>Init\<close>.\<close>

definition file_Init :: "file_env \<Rightarrow> string \<Rightarrow> u64 \<Rightarrow> u64 \<Rightarrow> memory_file \<Rightarrow> (unit, memory_file) outcome" where
  "file_Init fe name off sz f = MemoryFileAtOffset_Init (fe_page_size fe) (fe_file fe name) (fe_mmap fe name off sz) off sz f"

abbreviation (input) UINT64_MAX :: u64 where "UINT64_MAX \<equiv> - 1"

text \<open>\<^verbatim>\<open>Elf::GetInfo\<close> on the file just mapped, with the size it found.\<close>

definition file_info :: "memory_file \<Rightarrow> 's \<Rightarrow> (u64, 's) outcome" where
  "file_info f s = map_state (\<lambda>_. s) (\<lambda>_. s) (GetInfo (file_reader f))"

text \<open>The state is the file object and the maps.\<close>

type_synonym file_state = "memory_file \<times> maps"

definition init_file :: "file_env \<Rightarrow> string \<Rightarrow> u64 \<Rightarrow> u64 \<Rightarrow> file_state \<Rightarrow> (unit, file_state) outcome" where
  "init_file fe name off sz st =
     map_state (\<lambda>f. (f, snd st)) (\<lambda>f. (f, snd st)) (file_Init fe name off sz (fst st))"

definition set_maps :: "(maps \<Rightarrow> maps) \<Rightarrow> file_state \<Rightarrow> file_state" where
  "set_maps g st = (fst st, g (snd st))"

definition set_elf_offset :: "nat \<Rightarrow> u64 \<Rightarrow> maps \<Rightarrow> maps" where
  "set_elf_offset p v = set_obj p (\<lambda>m. m\<lparr>mi_elf_offset := v\<rparr>)"

definition set_elf_start_offset :: "nat \<Rightarrow> u64 \<Rightarrow> maps \<Rightarrow> maps" where
  "set_elf_start_offset p v = set_obj p (\<lambda>m. m\<lparr>mi_elf_start_offset := v\<rparr>)"

definition set_memory_backed :: "nat \<Rightarrow> bool \<Rightarrow> maps \<Rightarrow> maps" where
  "set_memory_backed p v = set_obj p (\<lambda>m. m\<lparr>mi_memory_backed := v\<rparr>)"

definition set_elf :: "nat \<Rightarrow> nat option \<Rightarrow> maps \<Rightarrow> maps" where
  "set_elf p v = set_obj p (\<lambda>m. m\<lparr>mi_elf := v\<rparr>)"

definition set_load_bias :: "nat \<Rightarrow> u64 \<Rightarrow> maps \<Rightarrow> maps" where
  "set_load_bias p v = set_obj p (\<lambda>m. m\<lparr>mi_load_bias := v\<rparr>)"

definition InitFileMemoryFromPreviousReadOnlyMap ::
  "file_env \<Rightarrow> nat set \<Rightarrow> nat \<Rightarrow> file_state \<Rightarrow> (unit, file_state) outcome option" where
  "InitFileMemoryFromPreviousReadOnlyMap fe held p st =
     Option.bind (GetPrevRealMap held p (snd st)) (\<lambda>prev.
       case prev of
         None \<Rightarrow> Some (Fail st)
       | Some q \<Rightarrow>
           let m = obj_at p (snd st); prev_real_map = obj_at q (snd st)
           in if mi_flags prev_real_map \<noteq> PROT_READ \<or> mi_offset m \<le> mi_offset prev_real_map then Some (Fail st)
              else
                let map_size = mi_end m - mi_end prev_real_map
                in Some (bind_out (init_file fe (mi_name m) (mi_offset prev_real_map) map_size st) (\<lambda>_ st.
                     bind_out (file_info (fst st) st) (\<lambda>max_size st.
                       if max_size < map_size then Fail st
                       else bind_out (init_file fe (mi_name m) (mi_offset prev_real_map) max_size st) (\<lambda>_ st.
                         Ok () (set_maps (set_elf_start_offset p (mi_offset prev_real_map) \<circ>
                           set_elf_offset p (mi_offset m - mi_offset prev_real_map)) st))))))"

text \<open>An ELF file that starts at the offset of the map; its size may be larger than the map.\<close>

definition embedded_elf :: "file_env \<Rightarrow> nat \<Rightarrow> u64 \<Rightarrow> u64 \<Rightarrow> file_state \<Rightarrow> (unit, file_state) outcome" where
  "embedded_elf fe p map_size max_size st =
     (let m = obj_at p (snd st); st = set_maps (set_elf_start_offset p (mi_offset m)) st
      in if map_size < max_size then
           case init_file fe (mi_name m) (mi_offset m) max_size st of
             Fail st \<Rightarrow>
               (case init_file fe (mi_name m) (mi_offset m) map_size st of
                  Fail st \<Rightarrow> Fail (set_maps (set_elf_start_offset p 0) st)
                | r \<Rightarrow> r)
           | r \<Rightarrow> r
         else Ok () st)"

text \<open>No ELF header at the offset of the map: the whole file, the previous read-only map, or just the window of the map.\<close>

definition whole_file :: "file_env \<Rightarrow> nat \<Rightarrow> file_state \<Rightarrow> (unit, file_state) outcome" where
  "whole_file fe p st =
     (let m = obj_at p (snd st)
      in bind_out (init_file fe (mi_name m) 0 UINT64_MAX st) (\<lambda>_ st.
           if IsValidElf (Some (file_reader (fst st))) then Ok () (set_maps (set_elf_offset p (mi_offset m)) st) else Fail st))"

definition file_at_offset :: "file_env \<Rightarrow> nat set \<Rightarrow> nat \<Rightarrow> file_state \<Rightarrow> (unit, file_state) outcome option" where
  "file_at_offset fe held p st =
     (let m = obj_at p (snd st); map_size = max (mi_end m - mi_start m) 64
      in case init_file fe (mi_name m) (mi_offset m) map_size st of
           Ok _ st \<Rightarrow>
             (case file_info (fst st) st of
                Ok max_size st \<Rightarrow> Some (embedded_elf fe p map_size max_size st)
              | Fail st \<Rightarrow>
                  else_opt (else_opt (Some (whole_file fe p st)) (InitFileMemoryFromPreviousReadOnlyMap fe held p))
                    (\<lambda>st. Some (init_file fe (mi_name m) (mi_offset m) map_size st))
              | Abort \<Rightarrow> Some Abort
              | Undef k \<Rightarrow> Some (Undef k))
         | r \<Rightarrow> Some r)"

text \<open>The result is the memory, \<open>Fail\<close> the null pointer.\<close>

definition GetFileMemory :: "file_env \<Rightarrow> nat set \<Rightarrow> nat \<Rightarrow> maps \<Rightarrow> (reader, maps) outcome option" where
  "GetFileMemory fe held p s =
     (let m = obj_at p s
      in if mi_flags m AND MAPS_FLAGS_DEVICE_MAP \<noteq> 0 then Some (Fail s)
         else
           let st = (MemoryFileAtOffset_new, s);
               r = (if mi_offset m = 0 then Some (init_file fe (mi_name m) 0 UINT64_MAX st) else file_at_offset fe held p st)
           in map_option (\<lambda>r. map_state snd snd (bind_out r (\<lambda>_ st. Ok (file_reader (fst st)) st))) r)"

definition map_range :: "reader \<Rightarrow> map_info \<Rightarrow> u64 \<Rightarrow> memory_range" where
  "map_range mem m off = \<lparr>rng_memory = mem, rng_begin = mi_start m, rng_length = mi_end m - mi_start m, rng_offset = off\<rparr>"

text \<open>The memory of the process: the map with the next one, or the previous one with the map.\<close>

definition memory_of_map :: "nat set \<Rightarrow> reader \<Rightarrow> nat \<Rightarrow> maps \<Rightarrow> (reader, maps) outcome option" where
  "memory_of_map held mem p s =
     (let m = obj_at p s; s = set_elf_start_offset p (mi_offset m) s; memory = map_range mem m 0
      in Option.bind (GetNextRealMap held p s) (\<lambda>next_real_map.
           case next_real_map of
             None \<Rightarrow> Some (Ok (MemoryRange_Read memory) s)
           | Some q \<Rightarrow>
               let n = obj_at q s
               in if mi_offset m \<noteq> 0 \<or> mi_offset n \<le> mi_offset m then Some (Ok (MemoryRange_Read memory) s)
                  else
                    let ranges = fst (MemoryRanges_Insert memory []);
                        ranges = fst (MemoryRanges_Insert (map_range mem n (mi_offset n - mi_offset m)) ranges)
                    in Some (Ok (MemoryRanges_Read ranges) s)))"

definition memory_from_previous :: "nat set \<Rightarrow> reader \<Rightarrow> nat \<Rightarrow> maps \<Rightarrow> (reader, maps) outcome option" where
  "memory_from_previous held mem p s =
     (let m = obj_at p s
      in Option.bind (GetPrevRealMap held p s) (\<lambda>prev.
           let no_elf = Some (Fail (set_memory_backed p False s))
           in case prev of
                None \<Rightarrow> no_elf
              | Some q \<Rightarrow>
                  let prev_real_map = obj_at q s
                  in if mi_offset m = 0 \<or> mi_offset m \<le> mi_offset prev_real_map then no_elf
                     else
                       let elf_offset = mi_offset m - mi_offset prev_real_map;
                           s = set_elf_start_offset p (mi_offset prev_real_map) (set_elf_offset p elf_offset s);
                           (ranges, ok) = MemoryRanges_Insert (map_range mem prev_real_map 0) []
                       in if \<not> ok then Some (Fail s)
                          else
                            let (ranges, ok) = MemoryRanges_Insert (map_range mem m elf_offset) ranges
                            in if \<not> ok then Some (Fail s) else Some (Ok (MemoryRanges_Read ranges) s)))"

definition CreateMemory :: "file_env \<Rightarrow> nat set \<Rightarrow> reader option \<Rightarrow> nat \<Rightarrow> maps \<Rightarrow> (reader, maps) outcome option" where
  "CreateMemory fe held process_memory p s =
     (let m = obj_at p s
      in if mi_end m \<le> mi_start m then Some (Fail s)
         else
           let s = set_elf_offset p 0 s
           in if mi_flags m AND MAPS_FLAGS_DEVICE_MAP \<noteq> 0 then Some (Fail s)
              else
                else_opt (if mi_name m = [] then Some (Fail s) else GetFileMemory fe held p s) (\<lambda>s.
                  case process_memory of
                    None \<Rightarrow> Some (Fail s)
                  | Some mem \<Rightarrow>
                      let s = set_memory_backed p True s
                      in if IsValidElf (Some (MemoryRange_Read (map_range mem m 0))) then memory_of_map held mem p s
                         else memory_from_previous held mem p s))"

section \<open>The cache of ELF objects\<close>

definition CachingEnabled :: "world \<Rightarrow> bool" where
  "CachingEnabled w = w_cache_enabled w"

text \<open>Switching the cache on makes an empty one; switching it off deletes it.\<close>

definition SetCachingEnabled :: "bool \<Rightarrow> world \<Rightarrow> world" where
  "SetCachingEnabled enable w =
     (if w_cache_enabled w = enable then w else w\<lparr>w_cache_enabled := enable, w_cache := Map.empty\<rparr>)"

definition elf_at :: "nat \<Rightarrow> world \<Rightarrow> elf" where
  "elf_at e w = w_elfs w ! e"

definition map_at :: "nat \<Rightarrow> world \<Rightarrow> map_info" where
  "map_at p w = obj_at p (w_maps w)"

definition on_maps :: "(maps \<Rightarrow> maps) \<Rightarrow> world \<Rightarrow> world" where
  "on_maps f w = w\<lparr>w_maps := f (w_maps w)\<rparr>"

definition set_elf_at :: "nat \<Rightarrow> elf \<Rightarrow> world \<Rightarrow> world" where
  "set_elf_at e x w = w\<lparr>w_elfs := (w_elfs w)[e := x]\<rparr>"

text \<open>An operation of the ELF object \<open>e\<close>.\<close>

definition on_elf :: "nat \<Rightarrow> (elf \<Rightarrow> ('v, elf) outcome option) \<Rightarrow> world \<Rightarrow> ('v, world) outcome option" where
  "on_elf e f w = (let put = (\<lambda>x. set_elf_at e x w) in map_option (map_state put put) (f (elf_at e w)))"

definition CacheAdd :: "nat \<Rightarrow> world \<Rightarrow> (unit, world) outcome" where
  "CacheAdd p w =
     (let m = map_at p w
      in case mi_elf m of
           None \<Rightarrow> Undef UB_Null
         | Some e \<Rightarrow>
             if \<not> elf_valid (elf_at e w) then Ok () w
             else
               let offset_cache = (case w_cache w (mi_name m) of None \<Rightarrow> Map.empty | Some c \<Rightarrow> c);
                   offset_cache = (if offset_cache (mi_elf_start_offset m) = None
                                   then offset_cache(mi_elf_start_offset m \<mapsto> e) else offset_cache)
               in Ok () (w\<lparr>w_cache := (w_cache w)(mi_name m \<mapsto> offset_cache)\<rparr>))"

text \<open>The entry of an execute map whose file starts in the previous read-only map.\<close>

definition previous_entry ::
  "nat set \<Rightarrow> (u64 \<Rightarrow> nat option) \<Rightarrow> nat \<Rightarrow> world \<Rightarrow> (u64 \<times> nat) option option" where
  "previous_entry held offset_cache p w =
     (let m = map_at p w
      in if mi_flags m AND PROT_EXEC = 0 then Some None
         else map_option (\<lambda>prev_map.
                case prev_map of
                  None \<Rightarrow> None
                | Some q \<Rightarrow>
                    let prev = map_at q w
                    in if mi_offset m \<le> mi_offset prev \<or> mi_flags prev \<noteq> PROT_READ then None
                       else map_option (Pair (mi_offset prev)) (offset_cache (mi_offset prev)))
              (GetPrevRealMap held p (w_maps w)))"

definition cache_entry :: "nat set \<Rightarrow> (u64 \<Rightarrow> nat option) \<Rightarrow> nat \<Rightarrow> world \<Rightarrow> (u64 \<times> nat) option option" where
  "cache_entry held offset_cache p w =
     (let m = map_at p w
      in case offset_cache 0 of
           Some e \<Rightarrow> Some (Some (0, e))
         | None \<Rightarrow>
             (case offset_cache (mi_offset m) of
                Some e \<Rightarrow> Some (Some (mi_offset m, e))
              | None \<Rightarrow> previous_entry held offset_cache p w))"

definition CacheGet :: "nat set \<Rightarrow> nat \<Rightarrow> world \<Rightarrow> (unit, world) outcome option" where
  "CacheGet held p w =
     (case w_cache w (mi_name (map_at p w)) of
        None \<Rightarrow> Some (Fail w)
      | Some offset_cache \<Rightarrow>
          map_option (\<lambda>entry.
            case entry of
              None \<Rightarrow> Fail w
            | Some (elf_start_offset, e) \<Rightarrow>
                Ok () (on_maps (set_elf_offset p (mi_offset (map_at p w) - elf_start_offset) \<circ>
                  set_elf_start_offset p elf_start_offset \<circ> set_elf p (Some e)) w))
          (cache_entry held offset_cache p w))"

section \<open>The ELF object of a map\<close>

text \<open>The new object \<open>e\<close>, invalid if it has the wrong architecture. \<^verbatim>\<open>GetElf\<close> does not look at the result of \<^verbatim>\<open>Init\<close>.\<close>

definition init_elf :: "decompressor \<Rightarrow> elf_junk \<Rightarrow> ArchEnum \<Rightarrow> reader option \<Rightarrow> (unit, elf) outcome option" where
  "init_elf xz junk expected_arch mem =
     map_option (\<lambda>r.
       let finish = (\<lambda>e. Ok () (if elf_valid e \<and> expected_arch \<noteq> elf_arch e then Invalidate e else e))
       in case r of Ok _ e \<Rightarrow> finish e | Fail e \<Rightarrow> finish e | Abort \<Rightarrow> Abort | Undef k \<Rightarrow> Undef k)
     (Elf_Init xz junk (Elf_new junk mem))"

text \<open>Sharing the object with the read-only map before this one.\<close>

definition share_elf :: "nat \<Rightarrow> nat \<Rightarrow> maps \<Rightarrow> maps" where
  "share_elf p q s =
     (let m = obj_at p s; prev_real_map = obj_at q s
      in if mi_elf prev_real_map = None then
           set_elf_offset q (mi_offset prev_real_map - mi_elf_start_offset m)
             (set_elf_start_offset q (mi_elf_start_offset m)
               (set_memory_backed q (mi_memory_backed m) (set_elf q (mi_elf m) s)))
         else if mi_elf_start_offset prev_real_map = mi_elf_start_offset m then set_elf p (mi_elf prev_real_map) s
         else s)"

definition share_with_previous :: "nat set \<Rightarrow> nat \<Rightarrow> maps \<Rightarrow> maps option" where
  "share_with_previous held p s =
     map_option (\<lambda>prev.
       case prev of
         None \<Rightarrow> s
       | Some q \<Rightarrow>
           if mi_flags (obj_at q s) = PROT_READ \<and> mi_offset (obj_at q s) < mi_offset (obj_at p s) then share_elf p q s else s)
     (GetPrevRealMap held p s)"

text \<open>The result is \<^verbatim>\<open>elf().get()\<close>, which is not null.\<close>

definition elf_result :: "nat \<Rightarrow> world \<Rightarrow> (nat, world) outcome" where
  "elf_result p w = (case mi_elf (map_at p w) of Some e \<Rightarrow> Ok e w | None \<Rightarrow> Undef UB_Null)"

definition place_elf :: "nat set \<Rightarrow> nat \<Rightarrow> elf \<Rightarrow> world \<Rightarrow> (nat, world) outcome option" where
  "place_elf held p x w =
     (let w = on_maps (set_elf p (Some (length (w_elfs w)))) w; w = w\<lparr>w_elfs := w_elfs w @ [x]\<rparr>
      in Option.bind
           (if \<not> elf_valid x then Some (set_elf_start_offset p (mi_offset (map_at p w)) (w_maps w))
            else share_with_previous held p (w_maps w))
           (\<lambda>s. let w = w\<lparr>w_maps := s\<rparr>
                in Some (bind_out (if CachingEnabled w then CacheAdd p w else Ok () w) (\<lambda>_. elf_result p))))"

definition GetElf ::
  "file_env \<Rightarrow> decompressor \<Rightarrow> elf_junk \<Rightarrow> nat set \<Rightarrow> reader option \<Rightarrow> ArchEnum \<Rightarrow> nat \<Rightarrow> world \<Rightarrow> (nat, world) outcome option" where
  "GetElf fe xz junk held process_memory expected_arch p w =
     (case mi_elf (map_at p w) of
        Some e \<Rightarrow> Some (Ok e w)
      | None \<Rightarrow>
          else_opt
            (if CachingEnabled w \<and> mi_name (map_at p w) \<noteq> []
             then bind_opt (CacheGet held p w) (\<lambda>_ w. Some (elf_result p w)) else Some (Fail w))
            (\<lambda>w. Option.bind (CreateMemory fe held process_memory p (w_maps w)) (\<lambda>r.
               let build = (\<lambda>mem s.
                     Option.bind (init_elf xz junk expected_arch mem) (\<lambda>r.
                       case r of
                         Ok _ x \<Rightarrow> place_elf held p x (w\<lparr>w_maps := s\<rparr>)
                       | Fail x \<Rightarrow> place_elf held p x (w\<lparr>w_maps := s\<rparr>)
                       | Abort \<Rightarrow> Some Abort
                       | Undef k \<Rightarrow> Some (Undef k)))
               in case r of
                    Ok mem s \<Rightarrow> build (Some mem) s
                  | Fail s \<Rightarrow> build None s
                  | Abort \<Rightarrow> Some Abort
                  | Undef k \<Rightarrow> Some (Undef k))))"

section \<open>Values derived from the ELF object\<close>

definition MapInfo_GetFunctionName :: "u64 \<Rightarrow> nat \<Rightarrow> world \<Rightarrow> (u8 list \<times> u64, world) outcome option" where
  "MapInfo_GetFunctionName addr p w =
     (case mi_elf (map_at p w) of None \<Rightarrow> Some (Fail w) | Some e \<Rightarrow> on_elf e (Elf_GetFunctionName addr) w)"

definition MapInfo_GetLoadBias :: "nat \<Rightarrow> world \<Rightarrow> u64 \<times> world" where
  "MapInfo_GetLoadBias p w =
     (let m = map_at p w
      in if mi_load_bias m \<noteq> UINT64_MAX then (mi_load_bias m, w)
         else case mi_elf m of
             None \<Rightarrow> (UINT64_MAX, w)
           | Some e \<Rightarrow>
               let bias = (if elf_valid (elf_at e w) then elf_load_bias (elf_at e w) else 0)
               in (bias, on_maps (set_load_bias p bias) w))"

definition MapInfo_GetLoadBias_memory ::
  "file_env \<Rightarrow> nat set \<Rightarrow> reader option \<Rightarrow> nat \<Rightarrow> world \<Rightarrow> (u64, world) outcome option" where
  "MapInfo_GetLoadBias_memory fe held process_memory p w =
     (let (bias, w) = MapInfo_GetLoadBias p w
      in if bias \<noteq> UINT64_MAX then Some (Ok bias w)
         else map_option (\<lambda>r.
                let finish = (\<lambda>mem s. let bias = Elf_GetLoadBias mem in Ok bias (w\<lparr>w_maps := set_load_bias p bias s\<rparr>))
                in case r of
                     Ok mem s \<Rightarrow> finish (Some mem) s
                   | Fail s \<Rightarrow> finish None s
                   | Abort \<Rightarrow> Abort
                   | Undef k \<Rightarrow> Undef k)
              (CreateMemory fe held process_memory p (w_maps w)))"

definition bytes_str :: "u8 list \<Rightarrow> string" where
  "bytes_str = map (\<lambda>b. char_of (unat b))"

definition GetFullName :: "nat \<Rightarrow> world \<Rightarrow> (string \<times> world) option" where
  "GetFullName p w =
     (let m = map_at p w
      in case mi_elf m of
           None \<Rightarrow> Some (mi_name m, w)
         | Some e \<Rightarrow>
             if mi_elf_start_offset m = 0 \<or> mi_name m = [] then Some (mi_name m, w)
             else map_option (\<lambda>(soname, x).
                    (if soname = [] then mi_name m else mi_name m @ ''!'' @ bytes_str soname, set_elf_at e x w))
                  (Elf_GetSoname (elf_at e w)))"

text \<open>The compare-and-exchange of \<^verbatim>\<open>SetBuildID\<close>: the first value stays.\<close>

definition SetBuildID :: "nat \<Rightarrow> u8 list \<Rightarrow> world \<Rightarrow> u8 list \<times> world" where
  "SetBuildID p new_build_id w =
     (case mi_build_id (map_at p w) of
        None \<Rightarrow> (new_build_id, on_maps (set_obj p (\<lambda>m. m\<lparr>mi_build_id := Some new_build_id\<rparr>)) w)
      | Some stored \<Rightarrow> (stored, w))"

definition MapInfo_GetBuildID :: "file_env \<Rightarrow> nat set \<Rightarrow> nat \<Rightarrow> world \<Rightarrow> (u8 list, world) outcome option" where
  "MapInfo_GetBuildID fe held p w =
     (let m = map_at p w; finish = (\<lambda>bid w. let (bid, w) = SetBuildID p bid w in Ok bid w)
      in case mi_build_id m of
           Some bid \<Rightarrow> Some (Ok bid w)
         | None \<Rightarrow>
             (case mi_elf m of
                Some e \<Rightarrow> map_option (\<lambda>bid. finish bid w) (Elf_GetBuildID (elf_at e w))
              | None \<Rightarrow>
                  Option.bind (GetFileMemory fe held p (w_maps w)) (\<lambda>r.
                    case r of
                      Ok mem s \<Rightarrow>
                        map_option (\<lambda>r. bind_out (map_state (\<lambda>_. w\<lparr>w_maps := s\<rparr>) (\<lambda>_. w\<lparr>w_maps := s\<rparr>) r) finish)
                          (Elf_GetBuildID_static mem)
                    | Fail s \<Rightarrow> Some (finish [] (w\<lparr>w_maps := s\<rparr>))
                    | Abort \<Rightarrow> Some Abort
                    | Undef k \<Rightarrow> Some (Undef k))))"

definition hex_digit :: "nat \<Rightarrow> char" where
  "hex_digit n = ''0123456789abcdef'' ! n"

definition GetPrintableBuildID :: "u8 list \<Rightarrow> string" where
  "GetPrintableBuildID build_id = concat (map (\<lambda>b. [hex_digit (unat b div 16), hex_digit (unat b mod 16)]) build_id)"

definition MapInfo_GetPrintableBuildID :: "file_env \<Rightarrow> nat set \<Rightarrow> nat \<Rightarrow> world \<Rightarrow> (string, world) outcome option" where
  "MapInfo_GetPrintableBuildID fe held p w =
     map_option (\<lambda>r. bind_out r (\<lambda>bid w. Ok (GetPrintableBuildID bid) w)) (MapInfo_GetBuildID fe held p w)"

end
