(* ===== verification/Map_Elf.thy ===== *)
theory Map_Elf
  imports Map_Info
begin

text \<open>
  The neighbours of a map in a chained list, and the relation between the offset of a map, the offset of its ELF file and the offset
  of the map in that file.
\<close>

section \<open>Neighbours\<close>

lemma lock_ptr_listed: "maps_vec s = map Some ps \<Longrightarrow> q \<in> set ps \<Longrightarrow> lock_ptr held s (Some q) = Some q"
  by (auto simp: lock_ptr_def)

lemma lock_ptr_None [simp]: "lock_ptr held s None = None"
  by (simp add: lock_ptr_def)

text \<open>The walk along a list \<open>qs\<close> of maps that \<open>link\<close> follows.\<close>

lemma real_map_walk:
  assumes "\<And>i. Suc i < length qs \<Longrightarrow> link (qs ! i) = Some (qs ! Suc i)"
    and "qs \<noteq> [] \<Longrightarrow> link (last qs) = None"
  shows "real_map link name s (if qs = [] then None else Some (hd qs)) =
    Some (case find (\<lambda>q. \<not> IsBlank (obj_at q s)) qs of
        None \<Rightarrow> None | Some q \<Rightarrow> if mi_name (obj_at q s) = name then Some q else None)"
  using assms
proof (induction qs)
  case Nil
  show ?case by (subst real_map.simps) simp
next
  case (Cons q qs)
  have link: "link q = (if qs = [] then None else Some (hd qs))"
    using Cons.prems(1) [of 0] Cons.prems(2) by (auto simp: hd_conv_nth)
  have "link (qs ! i) = Some (qs ! Suc i)" if "Suc i < length qs" for i
    using Cons.prems(1) [of "Suc i"] that by simp
  moreover have "link (last qs) = None" if "qs \<noteq> []" using Cons.prems(2) that by simp
  ultimately show ?case using Cons.IH link by (subst real_map.simps) simp
qed

text \<open>\<open>nearest name qs\<close> is the first map of \<open>qs\<close> that is not blank, if it has this name.\<close>

definition nearest :: "maps \<Rightarrow> string \<Rightarrow> nat list \<Rightarrow> nat option" where
  "nearest s name qs =
     (case find (\<lambda>q. \<not> IsBlank (obj_at q s)) qs of
        None \<Rightarrow> None | Some q \<Rightarrow> if mi_name (obj_at q s) = name then Some q else None)"

text \<open>The maps of the list in order, with every link set.\<close>

definition chained :: "maps \<Rightarrow> nat list \<Rightarrow> bool" where
  "chained s ps \<longleftrightarrow> maps_vec s = map Some ps \<and> (\<forall>p \<in> set ps. p < length (objs s)) \<and> chain s ps"

lemma chained_prev_link:
  assumes "chained s ps" and "k < length ps"
  shows "prev_link held s (ps ! k) = (if k = 0 then None else Some (ps ! (k - 1)))"
proof -
  have "mi_prev (objs s ! (ps ! k)) = (if k = 0 then None else Some (ps ! (k - 1)))"
    using assms by (simp add: chained_def chain_def)
  moreover have "lock_ptr held s (Some (ps ! (k - 1))) = Some (ps ! (k - 1))"
    using assms by (intro lock_ptr_listed [of _ ps]) (auto simp: chained_def)
  ultimately show ?thesis by (simp add: prev_link_def obj_at_def)
qed

lemma chained_next_link:
  assumes "chained s ps" and "k < length ps"
  shows "next_link held s (ps ! k) = (if k + 1 < length ps then Some (ps ! (k + 1)) else None)"
proof -
  have "mi_next (objs s ! (ps ! k)) = (if k + 1 < length ps then Some (ps ! (k + 1)) else None)"
    using assms by (simp add: chained_def chain_def)
  moreover have "lock_ptr held s (Some (ps ! (k + 1))) = Some (ps ! (k + 1))" if "k + 1 < length ps"
    using assms that by (intro lock_ptr_listed [of _ ps]) (auto simp: chained_def)
  ultimately show ?thesis by (simp add: next_link_def obj_at_def)
qed

lemma real_map_prev:
  assumes "chained s ps" and "k < length ps"
  shows "real_map (prev_link held s) name s (prev_link held s (ps ! k)) = Some (nearest s name (rev (take k ps)))"
proof -
  let ?qs = "rev (take k ps)"
  have nth: "?qs ! i = ps ! (k - Suc i)" if "i < k" for i
    using assms(2) that by (simp add: rev_nth)
  have "prev_link held s (?qs ! i) = Some (?qs ! Suc i)" if "Suc i < length ?qs" for i
  proof -
    have i: "Suc i < k" using that assms(2) by simp
    then have "prev_link held s (ps ! (k - Suc i)) = Some (ps ! (k - Suc i - 1))"
      using chained_prev_link [OF assms(1), of "k - Suc i"] assms(2) by simp
    then show ?thesis using nth i by simp
  qed
  moreover have "prev_link held s (last ?qs) = None" if "?qs \<noteq> []"
  proof -
    have k: "0 < k" using that by auto
    then have "last ?qs = ps ! 0" using that assms(2) by (simp add: last_rev hd_conv_nth)
    moreover have "prev_link held s (ps ! 0) = None" using chained_prev_link [OF assms(1), of 0 held] k assms(2) by fastforce
    ultimately show ?thesis by simp
  qed
  ultimately have "real_map (prev_link held s) name s (if ?qs = [] then None else Some (hd ?qs)) = Some (nearest s name ?qs)"
    unfolding nearest_def by (rule real_map_walk)
  moreover have "prev_link held s (ps ! k) = (if ?qs = [] then None else Some (hd ?qs))"
    using chained_prev_link [OF assms] assms(2) by (auto simp: hd_rev last_conv_nth)
  ultimately show ?thesis by simp
qed

lemma real_map_next:
  assumes "chained s ps" and "k < length ps"
  shows "real_map (next_link held s) name s (next_link held s (ps ! k)) = Some (nearest s name (drop (k + 1) ps))"
proof -
  let ?qs = "drop (k + 1) ps"
  have "next_link held s (?qs ! i) = Some (?qs ! Suc i)" if "Suc i < length ?qs" for i
    using chained_next_link [OF assms(1), of "k + 1 + i"] that by simp
  moreover have "next_link held s (last ?qs) = None" if "?qs \<noteq> []"
  proof -
    have "ps \<noteq> []" using assms(2) by auto
    then have "last ?qs = ps ! (length ps - 1)" using that last_drop [of "k + 1" ps] last_conv_nth [of ps] by auto
    then show ?thesis using chained_next_link [OF assms(1), of "length ps - 1"] assms(2) that by simp
  qed
  ultimately have "real_map (next_link held s) name s (if ?qs = [] then None else Some (hd ?qs)) = Some (nearest s name ?qs)"
    unfolding nearest_def by (rule real_map_walk)
  moreover have "next_link held s (ps ! k) = (if ?qs = [] then None else Some (hd ?qs))"
    using chained_next_link [OF assms, of held] by (auto simp: hd_drop_conv_nth)
  ultimately show ?thesis by simp
qed

lemma GetPrevRealMap_returns: "chained s ps \<Longrightarrow> k < length ps \<Longrightarrow> GetPrevRealMap held (ps ! k) s \<noteq> None"
  by (simp add: GetPrevRealMap_def real_map_prev)

text \<open>
  C27. In a chained list of maps the walks end. The previous real map of a named map is the nearest map before it that is not blank,
  provided it has the same name, whatever its offset; the next real map likewise.
\<close>

theorem GetRealMap_nearest:
  assumes "chained s ps" and "k < length ps" and "mi_name (obj_at (ps ! k) s) \<noteq> []"
  shows "GetPrevRealMap held (ps ! k) s = Some (nearest s (mi_name (obj_at (ps ! k) s)) (rev (take k ps))) \<and>
    GetNextRealMap held (ps ! k) s = Some (nearest s (mi_name (obj_at (ps ! k) s)) (drop (k + 1) ps))"
  using assms by (simp add: GetPrevRealMap_def GetNextRealMap_def real_map_prev real_map_next)

text \<open>The maps of the comment in the header, the last one with a non-zero offset before it.\<close>

definition split_maps :: maps where
  "split_maps = Maps_Add 0x3000 0x4000 0x3000 5 ''libc.so'' (Maps_Add 0x2000 0x3000 0 0 '''' (Maps_Add 0x1000 0x2000 0x1000 1 ''libc.so'' Maps_new))"

lemmas split_maps_defs = split_maps_def Maps_Add_def Maps_new_def MapInfo_Create_def MapInfo_new_def last_map_def set_obj_def

lemma split_maps_eq:
  "maps_vec split_maps = map Some [0, 1, 2]"
  "objs split_maps =
     [(MapInfo_new None 0x1000 0x2000 0x1000 1 ''libc.so'')\<lparr>mi_next := Some 1\<rparr>,
      (MapInfo_new (Some 0) 0x2000 0x3000 0 0 '''')\<lparr>mi_next := Some 2\<rparr>,
      MapInfo_new (Some 1) 0x3000 0x4000 0x3000 5 ''libc.so'']"
  by (simp_all add: split_maps_defs)

lemma split_maps_chained: "chained split_maps [0, 1, 2]"
proof -
  have "k = 0 \<or> k = 1 \<or> k = 2" if "k < 3" for k :: nat using that by auto
  then show ?thesis by (auto simp: chained_def chain_def split_maps_eq MapInfo_new_def)
qed

lemma GetRealMap_nearest_witness: "GetPrevRealMap {} 2 split_maps = Some (Some 0) \<and> mi_offset (obj_at 0 split_maps) \<noteq> 0"
proof -
  have "nearest split_maps ''libc.so'' [1, 0] = Some 0"
    by (simp add: nearest_def IsBlank_def obj_at_def split_maps_eq MapInfo_new_def)
  with GetRealMap_nearest [OF split_maps_chained, of 2 "{}"] show ?thesis
    by (simp add: obj_at_def split_maps_eq MapInfo_new_def)
qed

section \<open>Offsets\<close>

definition put_offsets :: "nat \<Rightarrow> u64 \<Rightarrow> u64 \<Rightarrow> bool \<Rightarrow> maps \<Rightarrow> maps" where
  "put_offsets p a b c = set_obj p (\<lambda>m. m\<lparr>mi_elf_offset := a, mi_elf_start_offset := b, mi_memory_backed := c\<rparr>)"

lemma put_offsets_set [simp]:
  assumes "p < length (objs s)"
  shows "set_elf_offset p v (put_offsets p a b c s) = put_offsets p v b c s"
    and "set_elf_start_offset p v (put_offsets p a b c s) = put_offsets p a v c s"
    and "set_memory_backed p d (put_offsets p a b c s) = put_offsets p a b d s"
  using assms
  by (cases "objs s ! p"; simp add: put_offsets_def set_elf_offset_def set_elf_start_offset_def set_memory_backed_def set_obj_def)+

lemma obj_put_offsets:
  "p < length (objs s) \<Longrightarrow>
    obj_at q (put_offsets p a b c s) =
      (if q = p then (obj_at p s)\<lparr>mi_elf_offset := a, mi_elf_start_offset := b, mi_memory_backed := c\<rparr> else obj_at q s)"
  by (auto simp: put_offsets_def obj_at_def nth_set_obj)

lemma put_offsets_simps [simp]:
  "length (objs (put_offsets p a b c s)) = length (objs s)" "maps_vec (put_offsets p a b c s) = maps_vec s"
  by (simp_all add: put_offsets_def)

lemma put_offsets_same: "p < length (objs s) \<Longrightarrow>
    put_offsets p (mi_elf_offset (obj_at p s)) (mi_elf_start_offset (obj_at p s)) (mi_memory_backed (obj_at p s)) s = s"
  by (simp add: put_offsets_def set_obj_def obj_at_def)

definition out_post :: "('v \<Rightarrow> 's \<Rightarrow> bool) \<Rightarrow> ('s \<Rightarrow> bool) \<Rightarrow> ('v, 's) outcome \<Rightarrow> bool" where
  "out_post P Q r \<longleftrightarrow> (case r of Ok v s \<Rightarrow> P v s | Fail s \<Rightarrow> Q s | _ \<Rightarrow> True)"

lemma out_post_simps [simp]:
  "out_post P Q (Ok v s) = P v s" "out_post P Q (Fail s) = Q s" "out_post P Q Abort" "out_post P Q (Undef k)"
  by (simp_all add: out_post_def)

lemma out_post_bind: "out_post (\<lambda>v s. out_post P Q (f v s)) Q r \<Longrightarrow> out_post P Q (bind_out r f)"
  by (cases r) simp_all

lemma out_post_mono: "out_post P Q r \<Longrightarrow> (\<And>v s. P v s \<Longrightarrow> P' v s) \<Longrightarrow> (\<And>s. Q s \<Longrightarrow> Q' s) \<Longrightarrow> out_post P' Q' r"
  by (cases r) simp_all

text \<open>\<^verbatim>\<open>Init\<close> leaves the maps alone, and what it maps depends on its arguments only.\<close>

lemma init_file_post: "out_post (\<lambda>_ st'. snd st' = snd st) (\<lambda>st'. snd st' = snd st) (init_file fe name off sz st)"
  unfolding init_file_def by (cases "file_Init fe name off sz (fst st)") simp_all

lemma file_Init_Ok:
  assumes "file_Init fe name off sz f = Ok u f'" and "file_Init fe name off sz g = Ok v g'"
  shows "f' = g'"
  using assms
  by (auto simp: file_Init_def MemoryFileAtOffset_Init_def Let_def split: option.splits prod.splits if_splits)

lemma init_file_Ok:
  assumes "init_file fe name off sz st = Ok u st'" and "init_file fe name off sz ts = Ok v ts'"
  shows "fst st' = fst ts'"
  using assms unfolding init_file_def
  by (cases "file_Init fe name off sz (fst st)"; cases "file_Init fe name off sz (fst ts)") (auto dest: file_Init_Ok)

lemma file_info_post: "out_post (\<lambda>_ st'. st' = st) (\<lambda>st'. st' = st) (file_info f st)"
  unfolding file_info_def by (cases "GetInfo (file_reader f)") simp_all

text \<open>A memory that starts like an ELF file of either class.\<close>

definition elf_header :: "reader \<Rightarrow> bool" where
  "elf_header rd \<longleftrightarrow> IsValidElf (Some rd) \<and> class_of rd \<noteq> None"

lemma GetInfo_Fail: "GetInfo rd = Fail u \<Longrightarrow> \<not> elf_header rd"
  by (auto simp: GetInfo_def elf_header_def GetMaxSize_def Let_def split: if_splits option.splits)

text \<open>
  What the search for the memory of a map may do: set the offsets of that map. A memory it returns either starts at the recorded
  offset of the ELF file, or is no ELF file.
\<close>

definition offsets_post :: "nat \<Rightarrow> maps \<Rightarrow> (reader, maps) outcome \<Rightarrow> bool" where
  "offsets_post p s = out_post
     (\<lambda>rd t. \<exists>a b c. t = put_offsets p a b c s \<and> (a = mi_offset (obj_at p s) - b \<or> \<not> elf_header rd))
     (\<lambda>t. \<exists>a b c. t = put_offsets p a b c s)"

text \<open>The same while the file object is still part of the state; on failure the start offset is 0 again.\<close>

definition file_post :: "nat \<Rightarrow> maps \<Rightarrow> bool \<Rightarrow> (unit, file_state) outcome \<Rightarrow> bool" where
  "file_post p s c = out_post
     (\<lambda>_ st. \<exists>a b. snd st = put_offsets p a b c s \<and> (a = mi_offset (obj_at p s) - b \<or> \<not> elf_header (file_reader (fst st))))
     (\<lambda>st. snd st = put_offsets p 0 0 c s)"

lemma file_post_bind:
  "out_post (\<lambda>v t. file_post p s c (f v t)) (\<lambda>t. snd t = put_offsets p 0 0 c s) r \<Longrightarrow> file_post p s c (bind_out r f)"
  by (cases r) (simp_all add: file_post_def)

lemma ex_offsets:
  "a = off - b \<Longrightarrow> \<exists>a' b'. put_offsets p a b c s = put_offsets p a' b' c s \<and> (a' = off - b' \<or> X)"
  by blast

lemma embedded_elf_post:
  assumes p: "p < length (objs s)" and st: "snd st = put_offsets p 0 0 c s"
  shows "file_post p s c (embedded_elf fe p map_size max_size st)"
proof -
  let ?off = "mi_offset (obj_at p s)" and ?name = "mi_name (obj_at p s)"
  have off: "mi_offset (obj_at p (snd st)) = ?off" "mi_name (obj_at p (snd st)) = ?name"
    using p st by (simp_all add: obj_put_offsets)
  let ?st = "set_maps (set_elf_start_offset p ?off) st"
  have snd: "snd ?st = put_offsets p 0 ?off c s" using p st by (simp add: set_maps_def)
  have first: "out_post (\<lambda>_ t. snd t = put_offsets p 0 ?off c s) (\<lambda>t. snd t = put_offsets p 0 ?off c s)
      (init_file fe ?name ?off z t)" if "snd t = put_offsets p 0 ?off c s" for z t
    using init_file_post [of t fe ?name ?off z] that by (simp add: out_post_def)
  have second: "file_post p s c
      (case init_file fe ?name ?off map_size t of Fail t \<Rightarrow> Fail (set_maps (set_elf_start_offset p 0) t) | r \<Rightarrow> r)"
    if "snd t = put_offsets p 0 ?off c s" for t
    using first [OF that, of map_size] p
    by (cases "init_file fe ?name ?off map_size t") (auto simp: file_post_def set_maps_def intro!: ex_offsets)
  have "file_post p s c
      (case init_file fe ?name ?off max_size ?st of
         Fail t \<Rightarrow> (case init_file fe ?name ?off map_size t of Fail t \<Rightarrow> Fail (set_maps (set_elf_start_offset p 0) t) | r \<Rightarrow> r)
       | r \<Rightarrow> r)"
    using first [OF snd, of max_size] second
    by (cases "init_file fe ?name ?off max_size ?st") (auto simp: file_post_def intro!: ex_offsets)
  moreover have "file_post p s c (Ok () ?st)" using snd by (auto simp: file_post_def intro!: ex_offsets)
  ultimately show ?thesis unfolding embedded_elf_def Let_def off by simp
qed

lemma whole_file_post:
  assumes p: "p < length (objs s)" and st: "snd st = put_offsets p 0 0 c s"
  shows "file_post p s c (whole_file fe p st)"
proof -
  have "out_post (\<lambda>_ t. snd t = snd st) (\<lambda>t. snd t = snd st) (init_file fe (mi_name (obj_at p (snd st))) 0 UINT64_MAX st)"
    by (rule init_file_post)
  then show ?thesis
    unfolding whole_file_def Let_def file_post_def using p st
    by (intro out_post_bind) (auto simp: obj_put_offsets set_maps_def elim!: out_post_mono intro!: ex_offsets)
qed

lemma previous_file_post:
  assumes p: "p < length (objs s)" and st: "snd st = put_offsets p 0 0 c s"
    and r: "InitFileMemoryFromPreviousReadOnlyMap fe held p st = Some r"
  shows "file_post p s c r"
proof -
  obtain prev where prev: "GetPrevRealMap held p (snd st) = Some prev"
    using r by (cases "GetPrevRealMap held p (snd st)") (auto simp: InitFileMemoryFromPreviousReadOnlyMap_def)
  show ?thesis
  proof (cases prev)
    case None
    with r prev show ?thesis
      using st by (auto simp: InitFileMemoryFromPreviousReadOnlyMap_def file_post_def)
  next
    case (Some q)
    let ?m = "obj_at p (snd st)" and ?off = "mi_offset (obj_at q (snd st))"
    let ?sz = "mi_end ?m - mi_end (obj_at q (snd st))"
    have off: "mi_offset ?m = mi_offset (obj_at p s)" using p st by (simp add: obj_put_offsets)
    have keep: "out_post (\<lambda>_ t. snd t = snd st) (\<lambda>t. snd t = snd st) (init_file fe (mi_name ?m) ?off z t)"
      if "snd t = snd st" for z t
      using init_file_post [of t fe "mi_name ?m" ?off z] that by (simp add: out_post_def)
    have final: "file_post p s c (bind_out (init_file fe (mi_name ?m) ?off z t) (\<lambda>_ st.
        Ok () (set_maps (set_elf_start_offset p ?off \<circ> set_elf_offset p (mi_offset ?m - ?off)) st)))"
      if "snd t = snd st" for z t
      unfolding file_post_def using keep [OF that, of z] p st off
      by (intro out_post_bind) (auto simp: set_maps_def elim!: out_post_mono intro!: ex_offsets)
    have info: "file_post p s c (bind_out (file_info (fst t) t) (\<lambda>max_size st'.
        if max_size < ?sz then Fail st'
        else bind_out (init_file fe (mi_name ?m) ?off max_size st') (\<lambda>_ st.
          Ok () (set_maps (set_elf_start_offset p ?off \<circ> set_elf_offset p (mi_offset ?m - ?off)) st))))"
      if "snd t = snd st" for t
      unfolding file_post_def
      by (rule out_post_bind, rule out_post_mono [OF file_info_post])
        (use that st final in \<open>auto simp: file_post_def\<close>)
    show ?thesis
    proof (cases "mi_flags (obj_at q (snd st)) \<noteq> PROT_READ \<or> mi_offset ?m \<le> ?off")
      case True
      with r prev Some show ?thesis
        using st by (auto simp: InitFileMemoryFromPreviousReadOnlyMap_def file_post_def Let_def)
    next
      case False
      then have "r = bind_out (init_file fe (mi_name ?m) ?off ?sz st) (\<lambda>_ st'. bind_out (file_info (fst st') st') (\<lambda>max_size st'.
          if max_size < ?sz then Fail st'
          else bind_out (init_file fe (mi_name ?m) ?off max_size st') (\<lambda>_ st.
            Ok () (set_maps (set_elf_start_offset p ?off \<circ> set_elf_offset p (mi_offset ?m - ?off)) st))))"
        using r prev Some by (simp add: InitFileMemoryFromPreviousReadOnlyMap_def Let_def)
      moreover have "file_post p s c \<dots>"
        by (rule file_post_bind, rule out_post_mono [OF keep [of st ?sz]]) (use st info in auto)
      ultimately show ?thesis by simp
    qed
  qed
qed

text \<open>The last resort of \<^verbatim>\<open>GetFileMemory\<close> maps the same window again, which had no ELF header.\<close>

lemma window_post:
  assumes st: "snd st = put_offsets p 0 0 c s" and "init_file fe name off sz ts = Ok u ts'" and "file_info (fst ts') ts' = Fail t"
  shows "file_post p s c (init_file fe name off sz st)"
proof (cases "init_file fe name off sz st")
  case (Ok u st')
  then have "fst st' = fst ts'" using assms(2) init_file_Ok by blast
  moreover have "\<not> elf_header (file_reader (fst ts'))"
    using assms(3) GetInfo_Fail unfolding file_info_def by (cases "GetInfo (file_reader (fst ts'))") auto
  moreover have "snd st' = put_offsets p 0 0 c s" using init_file_post [of st fe name off sz] Ok st by simp
  ultimately show ?thesis using Ok by (auto simp: file_post_def)
qed (use init_file_post [of st fe name off sz] st in \<open>auto simp: file_post_def\<close>)

lemma else_opt_post:
  assumes "else_opt r g = Some q" and "\<And>r'. r = Some r' \<Longrightarrow> out_post P Q' r'" and "\<And>t. Q' t \<Longrightarrow> g t = Some q \<Longrightarrow> out_post P Q q"
  shows "out_post P Q q"
  using assms by (auto simp: else_opt_def out_post_def split: option.splits outcome.splits)

lemma file_else_post:
  assumes "else_opt r g = Some q" and "\<And>r'. r = Some r' \<Longrightarrow> file_post p s c r'"
    and "\<And>t. snd t = put_offsets p 0 0 c s \<Longrightarrow> g t = Some q \<Longrightarrow> file_post p s c q"
  shows "file_post p s c q"
  using else_opt_post [OF assms(1)] assms(2,3) unfolding file_post_def by blast

lemma offsets_post_Ok: "a = mi_offset (obj_at p s) - b \<Longrightarrow> offsets_post p s (Ok rd (put_offsets p a b c s))"
  unfolding offsets_post_def out_post_simps by blast

lemma offsets_post_Fail: "offsets_post p s (Fail (put_offsets p a b c s))"
  unfolding offsets_post_def out_post_simps by blast

lemma file_at_offset_post:
  assumes p: "p < length (objs s)" and st: "snd st = put_offsets p 0 0 c s" and r: "file_at_offset fe held p st = Some r"
  shows "file_post p s c r"
proof -
  let ?m = "obj_at p (snd st)" and ?sz = "max (mi_end (obj_at p (snd st)) - mi_start (obj_at p (snd st))) 64"
  note unf = file_at_offset_def Let_def
  show ?thesis
  proof (cases "init_file fe (mi_name ?m) (mi_offset ?m) ?sz st")
    case (Ok u st')
    have st': "snd st' = put_offsets p 0 0 c s" using init_file_post [of st fe "mi_name ?m" "mi_offset ?m" ?sz] Ok st by simp
    show ?thesis
    proof (cases "file_info (fst st') st'")
      case info: (Ok max_size t)
      then have "t = st'" using file_info_post [of st' "fst st'"] by simp
      then show ?thesis using r Ok info embedded_elf_post [OF p st', of fe ?sz max_size] by (auto simp: unf)
    next
      case info: (Fail t)
      then have t: "snd t = put_offsets p 0 0 c s" using file_info_post [of st' "fst st'"] st' by simp
      have r': "else_opt (else_opt (Some (whole_file fe p t)) (InitFileMemoryFromPreviousReadOnlyMap fe held p))
          (\<lambda>st. Some (init_file fe (mi_name ?m) (mi_offset ?m) ?sz st)) = Some r"
        using r Ok info by (simp add: unf)
      have whole: "file_post p s c r1" if "else_opt (Some (whole_file fe p t)) (InitFileMemoryFromPreviousReadOnlyMap fe held p) = Some r1" for r1
        by (rule file_else_post [OF that]) (use whole_file_post [OF p t, of fe] previous_file_post [OF p] in auto)
      show ?thesis
        by (rule file_else_post [OF r']) (use whole window_post [OF _ Ok info] in auto)
    next
      case Abort
      with r Ok show ?thesis by (auto simp: unf file_post_def)
    next
      case (Undef k)
      with r Ok show ?thesis by (auto simp: unf file_post_def)
    qed
  next
    case (Fail t)
    then have "r = Fail t" using r by (simp add: unf)
    then show ?thesis using init_file_post [of st fe "mi_name ?m" "mi_offset ?m" ?sz] Fail st by (simp add: file_post_def)
  next
    case Abort
    then have "r = Abort" using r by (simp add: unf)
    then show ?thesis by (simp add: file_post_def)
  next
    case (Undef k)
    then have "r = Undef k" using r by (simp add: unf)
    then show ?thesis by (simp add: file_post_def)
  qed
qed

lemma GetFileMemory_post:
  assumes p: "p < length (objs s)" and r: "GetFileMemory fe held p (put_offsets p 0 0 c s) = Some r"
  shows "out_post (\<lambda>rd t. \<exists>a b. t = put_offsets p a b c s \<and> (a = mi_offset (obj_at p s) - b \<or> \<not> elf_header rd))
    (\<lambda>t. t = put_offsets p 0 0 c s) r"
proof -
  let ?s = "put_offsets p 0 0 c s" and ?m = "obj_at p (put_offsets p 0 0 c s)"
  let ?st = "(MemoryFileAtOffset_new, ?s)"
  have off: "mi_offset ?m = mi_offset (obj_at p s)" using p by (simp add: obj_put_offsets)
  let ?q = "if mi_offset ?m = 0 then Some (init_file fe (mi_name ?m) 0 UINT64_MAX ?st) else file_at_offset fe held p ?st"
  have post: "file_post p s c q" if "?q = Some q" for q
  proof (cases "mi_offset ?m = 0")
    case True
    then have "q = init_file fe (mi_name ?m) 0 UINT64_MAX ?st" using that by simp
    then show ?thesis
      using init_file_post [of ?st fe "mi_name ?m" 0 UINT64_MAX] True off
      by (auto simp: file_post_def elim!: out_post_mono intro!: exI [of _ 0])
  next
    case False
    then show ?thesis using that file_at_offset_post [OF p, of ?st c fe held] by simp
  qed
  show ?thesis
  proof (cases "mi_flags ?m AND MAPS_FLAGS_DEVICE_MAP \<noteq> 0")
    case True
    with r show ?thesis by (auto simp: GetFileMemory_def Let_def)
  next
    case False
    then obtain q where q: "?q = Some q" "r = map_state snd snd (bind_out q (\<lambda>_ st. Ok (file_reader (fst st)) st))"
      using r by (auto simp: GetFileMemory_def Let_def)
    from post [OF q(1)] q(2) show ?thesis by (cases q) (auto simp: file_post_def)
  qed
qed

lemma memory_of_map_post:
  assumes p: "p < length (objs s)" and r: "memory_of_map held mem p (put_offsets p 0 0 c s) = Some r"
  shows "offsets_post p s r"
proof -
  let ?off = "mi_offset (obj_at p s)"
  have s: "set_elf_start_offset p (mi_offset (obj_at p (put_offsets p 0 0 c s))) (put_offsets p 0 0 c s) = put_offsets p 0 ?off c s"
    using p by (simp add: obj_put_offsets)
  obtain rd where "r = Ok rd (put_offsets p 0 ?off c s)"
    using r unfolding memory_of_map_def Let_def s
    by (cases "GetNextRealMap held p (put_offsets p 0 ?off c s)") (auto split: option.splits if_splits)
  then show ?thesis by (simp add: offsets_post_Ok)
qed

lemma memory_from_previous_post:
  assumes p: "p < length (objs s)" and r: "memory_from_previous held mem p (put_offsets p 0 0 c s) = Some r"
  shows "offsets_post p s r"
proof -
  have off: "mi_offset (obj_at p (put_offsets p 0 0 c s)) = mi_offset (obj_at p s)" using p by (simp add: obj_put_offsets)
  show ?thesis
    using r p unfolding memory_from_previous_def Let_def off
    by (cases "GetPrevRealMap held p (put_offsets p 0 0 c s)")
      (auto intro!: offsets_post_Ok offsets_post_Fail split: option.splits if_splits prod.splits)
qed

lemma CreateMemory_post:
  assumes p: "p < length (objs s)" and fresh: "mi_elf_start_offset (obj_at p s) = 0"
    and r: "CreateMemory fe held process_memory p s = Some r"
  shows "offsets_post p s r"
proof -
  let ?m = "obj_at p s"
  have here: "offsets_post p s (Fail s)" using offsets_post_Fail put_offsets_same [OF p] by metis
  have s0: "set_elf_offset p 0 s = put_offsets p 0 0 (mi_memory_backed ?m) s"
    using put_offsets_same [OF p] put_offsets_set(1) [OF p, of 0] fresh by metis
  show ?thesis
  proof (cases "mi_end ?m \<le> mi_start ?m \<or> mi_flags ?m AND MAPS_FLAGS_DEVICE_MAP \<noteq> 0")
    case True
    with r here s0 show ?thesis by (auto simp: CreateMemory_def Let_def offsets_post_Fail split: if_splits)
  next
    case False
    let ?s = "put_offsets p 0 0 (mi_memory_backed ?m) s"
    have r': "else_opt (if mi_name ?m = [] then Some (Fail ?s) else GetFileMemory fe held p ?s) (\<lambda>s.
        case process_memory of
          None \<Rightarrow> Some (Fail s)
        | Some mem \<Rightarrow>
            let s = set_memory_backed p True s
            in if IsValidElf (Some (MemoryRange_Read (map_range mem ?m 0))) then memory_of_map held mem p s
               else memory_from_previous held mem p s) = Some r"
      using r False s0 by (simp add: CreateMemory_def Let_def)
    show ?thesis unfolding offsets_post_def
    proof (rule else_opt_post [OF r', where Q' = "\<lambda>t. t = ?s"])
      fix r' assume r': "(if mi_name ?m = [] then Some (Fail ?s) else GetFileMemory fe held p ?s) = Some r'"
      show "out_post (\<lambda>rd t. \<exists>a b c. t = put_offsets p a b c s \<and> (a = mi_offset ?m - b \<or> \<not> elf_header rd)) (\<lambda>t. t = ?s) r'"
        using r' GetFileMemory_post [OF p, of fe held "mi_memory_backed ?m" r']
        by (cases r') (auto split: if_splits)
    next
      fix t assume t: "t = ?s"
      let ?t = "put_offsets p 0 0 True s"
      assume q: "(case process_memory of
          None \<Rightarrow> Some (Fail t)
        | Some mem \<Rightarrow>
            let s = set_memory_backed p True t
            in if IsValidElf (Some (MemoryRange_Read (map_range mem ?m 0))) then memory_of_map held mem p s
               else memory_from_previous held mem p s) = Some r"
      show "out_post (\<lambda>rd t. \<exists>a b c. t = put_offsets p a b c s \<and> (a = mi_offset ?m - b \<or> \<not> elf_header rd))
          (\<lambda>t. \<exists>a b c. t = put_offsets p a b c s) r"
      proof (cases process_memory)
        case None
        with q t offsets_post_Fail [of p s] show ?thesis by (auto simp: offsets_post_def)
      next
        case (Some mem)
        have "set_memory_backed p True t = put_offsets p 0 0 True s" using t p by simp
        then have "(if IsValidElf (Some (MemoryRange_Read (map_range mem ?m 0))) then memory_of_map held mem p (put_offsets p 0 0 True s)
            else memory_from_previous held mem p (put_offsets p 0 0 True s)) = Some r"
          using q Some by (simp add: Let_def)
        then have "offsets_post p s r" using memory_of_map_post [OF p] memory_from_previous_post [OF p] by (simp split: if_splits)
        then show ?thesis by (simp add: offsets_post_def)
      qed
    qed
  qed
qed

section \<open>The invariant of the ELF objects of the maps\<close>

lemma CreateInterface_header: "CreateInterfaceFromMemory mem e = (Some i, e') \<Longrightarrow> \<exists>rd. mem = Some rd \<and> elf_header rd"
  by (auto simp: CreateInterfaceFromMemory_def elf_header_def class_of_def Let_def
      split: option.splits if_splits prod.splits)

lemma CreateInterface_valid: "CreateInterfaceFromMemory mem e = (i, e') \<Longrightarrow> elf_valid e' = elf_valid e"
  by (auto simp: CreateInterfaceFromMemory_def Let_def split: option.splits if_splits prod.splits)

lemma Elf_Init_header:
  assumes "Elf_Init xz junk (Elf_new junk mem) = Some r" and "state_of r = Some x" and "elf_valid x"
  shows "\<exists>rd. mem = Some rd \<and> elf_header rd"
proof (cases mem)
  case None
  with assms show ?thesis by (auto simp: Elf_Init_def Elf_new_def)
next
  case (Some rd)
  let ?e = "(Elf_new junk mem)\<lparr>elf_load_bias := 0\<rparr>"
  obtain i e' where i: "CreateInterfaceFromMemory (Some rd) ?e = (i, e')" by fastforce
  have "i \<noteq> None"
  proof
    assume "i = None"
    then have "x = e'\<lparr>elf_iface := None\<rparr>" using assms i Some by (auto simp: Elf_Init_def Elf_new_def Let_def)
    then show False using assms(3) CreateInterface_valid [OF i] by (simp add: Elf_new_def)
  qed
  then show ?thesis using i CreateInterface_header Some by blast
qed

lemma init_elf_header:
  assumes "init_elf xz junk arch mem = Some r" and "state_of r = Some x" and "elf_valid x"
  shows "(\<exists>rd. mem = Some rd \<and> elf_header rd) \<and> elf_arch x = arch"
proof -
  obtain r' where r': "Elf_Init xz junk (Elf_new junk mem) = Some r'"
    using assms(1) by (auto simp: init_elf_def)
  then obtain x' where x': "state_of r' = Some x'" "x = (if elf_valid x' \<and> arch \<noteq> elf_arch x' then Invalidate x' else x')"
    using assms(1,2) by (cases r') (auto simp: init_elf_def Let_def split: if_splits)
  then have "elf_valid x'" "elf_arch x = arch" using assms(3) by (auto simp: Invalidate_def split: if_splits)
  with Elf_Init_header [OF r' x'(1)] show ?thesis by blast
qed

text \<open>One map: a map without an ELF object has no start offset yet, and a map with a valid one has the documented relation.\<close>

definition elf_fields_ok :: "elf list \<Rightarrow> map_info \<Rightarrow> bool" where
  "elf_fields_ok elfs m \<longleftrightarrow>
     (case mi_elf m of
        None \<Rightarrow> mi_elf_start_offset m = 0
      | Some e \<Rightarrow> e < length elfs \<and> (elf_valid (elfs ! e) \<longrightarrow> mi_elf_offset m = mi_offset m - mi_elf_start_offset m))"

text \<open>All maps, with links and cache entries that refer to existing objects.\<close>

definition maps_ok :: "elf list \<Rightarrow> maps \<Rightarrow> bool" where
  "maps_ok elfs s \<longleftrightarrow>
     (\<forall>p < length (objs s). elf_fields_ok elfs (obj_at p s) \<and> (\<forall>q. mi_prev (obj_at p s) = Some q \<longrightarrow> q < length (objs s)))"

definition world_ok :: "world \<Rightarrow> bool" where
  "world_ok w \<longleftrightarrow> maps_ok (w_elfs w) (w_maps w) \<and>
     (\<forall>name c off e. w_cache w name = Some c \<longrightarrow> c off = Some e \<longrightarrow> e < length (w_elfs w))"

lemma elf_fields_ok_append: "elf_fields_ok elfs m \<Longrightarrow> elf_fields_ok (elfs @ [x]) m"
  by (auto simp: elf_fields_ok_def nth_append split: option.splits)

lemma real_map_bound:
  assumes "real_map link name s p = Some (Some q)" and "\<And>x y. x < N \<Longrightarrow> link x = Some y \<Longrightarrow> y < N"
    and "\<And>x. p = Some x \<Longrightarrow> x < N"
  shows "q < N"
proof -
  let ?P = "\<lambda>link name s p r. (\<forall>x. p = Some x \<longrightarrow> x < N) \<longrightarrow> (\<forall>x y. x < N \<longrightarrow> link x = Some y \<longrightarrow> y < N) \<longrightarrow>
      (\<forall>q. r = Some q \<longrightarrow> q < N)"
  have "?P link name s p (Some q)"
  proof (rule real_map.raw_induct [where P = ?P, OF _ assms(1)])
    fix loop link and name :: string and s p r
    assume IH: "\<And>link name s p r. loop link name s p = Some r \<Longrightarrow> ?P link name s p r"
      and run: "(if p = None then Some None
        else if \<not> IsBlank (obj_at (the p) s) then Some (if mi_name (obj_at (the p) s) = name then p else None)
        else loop link name s (link (the p))) = Some r"
    show "?P link name s p r"
    proof (cases "p = None \<or> \<not> IsBlank (obj_at (the p) s)")
      case True
      with run show ?thesis by (auto split: if_splits)
    next
      case False
      then obtain x where x: "p = Some x" "loop link name s (link x) = Some r" using run by auto
      note IH [OF x(2)]
      with x(1) show ?thesis by blast
    qed
  qed
  then show ?thesis using assms by blast
qed

lemma lock_ptr_Some: "lock_ptr held s p = Some q \<Longrightarrow> p = Some q"
  by (auto simp: lock_ptr_def split: option.splits if_splits)

lemma GetPrevRealMap_bound:
  assumes "maps_ok elfs s" and "p < length (objs s)" and "GetPrevRealMap held p s = Some (Some q)"
  shows "q < length (objs s)"
proof -
  have step: "y < length (objs s)" if "x < length (objs s)" "prev_link held s x = Some y" for x y
    using assms(1) that lock_ptr_Some unfolding maps_ok_def prev_link_def by blast
  have "real_map (prev_link held s) (mi_name (obj_at p s)) s (prev_link held s p) = Some (Some q)"
    using assms(3) by (simp add: GetPrevRealMap_def split: if_splits)
  then show ?thesis by (rule real_map_bound) (use step assms(2) in blast)+
qed

section \<open>GetElf keeps the invariant\<close>

lemma obj_set [simp]:
  assumes "p < length (objs s)"
  shows "obj_at q (set_elf_offset p v s) = (if q = p then (obj_at p s)\<lparr>mi_elf_offset := v\<rparr> else obj_at q s)"
    and "obj_at q (set_elf_start_offset p v s) = (if q = p then (obj_at p s)\<lparr>mi_elf_start_offset := v\<rparr> else obj_at q s)"
    and "obj_at q (set_memory_backed p b s) = (if q = p then (obj_at p s)\<lparr>mi_memory_backed := b\<rparr> else obj_at q s)"
    and "obj_at q (set_elf p x s) = (if q = p then (obj_at p s)\<lparr>mi_elf := x\<rparr> else obj_at q s)"
  using assms
  by (auto simp: set_elf_offset_def set_elf_start_offset_def set_memory_backed_def set_elf_def obj_at_def nth_set_obj)

lemma length_set [simp]:
  "length (objs (set_elf_offset p v s)) = length (objs s)" "length (objs (set_elf_start_offset p v s)) = length (objs s)"
  "length (objs (set_memory_backed p b s)) = length (objs s)" "length (objs (set_elf p x s)) = length (objs s)"
  by (simp_all add: set_elf_offset_def set_elf_start_offset_def set_memory_backed_def set_elf_def)

lemma maps_ok_append: "maps_ok elfs s \<Longrightarrow> maps_ok (elfs @ [x]) s"
  by (auto simp: maps_ok_def elf_fields_ok_append)

lemma maps_ok_change:
  assumes "maps_ok elfs s" and "length (objs t) = length (objs s)" and "\<And>q. q \<noteq> p \<Longrightarrow> obj_at q t = obj_at q s"
    and "elf_fields_ok elfs (obj_at p t)" and "mi_prev (obj_at p t) = mi_prev (obj_at p s)"
  shows "maps_ok elfs t"
  unfolding maps_ok_def assms(2)
proof (intro allI impI)
  fix q assume q: "q < length (objs s)"
  with assms(1) have "elf_fields_ok elfs (obj_at q s)" "\<forall>r. mi_prev (obj_at q s) = Some r \<longrightarrow> r < length (objs s)"
    by (simp_all add: maps_ok_def)
  with assms(3-5) show "elf_fields_ok elfs (obj_at q t) \<and> (\<forall>r. mi_prev (obj_at q t) = Some r \<longrightarrow> r < length (objs s))"
    by (cases "q = p") auto
qed

lemma share_elf_ok:
  assumes ok: "maps_ok elfs s" and p: "p < length (objs s)" "mi_elf (obj_at p s) = Some e"
    and rel: "mi_elf_offset (obj_at p s) = mi_offset (obj_at p s) - mi_elf_start_offset (obj_at p s)"
    and q: "q < length (objs s)" "q \<noteq> p"
  shows "maps_ok elfs (share_elf p q s)"
proof -
  have e: "e < length elfs" using ok p by (auto simp: maps_ok_def elf_fields_ok_def)
  show ?thesis
  proof (cases "mi_elf (obj_at q s)")
    case None
    with p q e show ?thesis
      by (intro maps_ok_change [OF ok, where p = q]) (auto simp: share_elf_def Let_def elf_fields_ok_def)
  next
    case (Some d)
    then have "d < length elfs" using ok q by (auto simp: maps_ok_def elf_fields_ok_def)
    with Some ok p rel show ?thesis
      by (intro maps_ok_change [OF ok, where p = p]) (auto simp: share_elf_def Let_def elf_fields_ok_def maps_ok_def)
  qed
qed

lemma share_elf_elf:
  assumes "p < length (objs s)" "mi_elf (obj_at p s) = Some e" "q < length (objs s)" "q \<noteq> p"
  shows "\<exists>d. mi_elf (obj_at p (share_elf p q s)) = Some d"
  using assms by (auto simp: share_elf_def Let_def)

lemma share_with_previous_ok:
  assumes ok: "maps_ok elfs s" and p: "p < length (objs s)" "mi_elf (obj_at p s) = Some e"
    and rel: "mi_elf_offset (obj_at p s) = mi_offset (obj_at p s) - mi_elf_start_offset (obj_at p s)"
    and t: "share_with_previous held p s = Some t"
  shows "maps_ok elfs t \<and> length (objs t) = length (objs s) \<and> (\<exists>d. mi_elf (obj_at p t) = Some d)"
proof -
  obtain prev where prev: "GetPrevRealMap held p s = Some prev"
    using t by (cases "GetPrevRealMap held p s") (auto simp: share_with_previous_def)
  show ?thesis
  proof (cases "\<exists>q. prev = Some q \<and> mi_flags (obj_at q s) = PROT_READ \<and> mi_offset (obj_at q s) < mi_offset (obj_at p s)")
    case True
    then obtain q where q: "prev = Some q" "mi_offset (obj_at q s) < mi_offset (obj_at p s)" "t = share_elf p q s"
      using t prev by (auto simp: share_with_previous_def)
    moreover have "q < length (objs s)" using GetPrevRealMap_bound [OF ok p(1)] prev q(1) by blast
    moreover have "q \<noteq> p" using q(2) by auto
    ultimately show ?thesis using share_elf_ok [OF ok p rel] share_elf_elf [OF p]
      by (auto simp: share_elf_def Let_def)
  next
    case False
    then have "t = s" using t prev by (auto simp: share_with_previous_def split: option.splits if_splits)
    with ok p show ?thesis by simp
  qed
qed

definition elf_cache_ok :: "nat \<Rightarrow> (string \<Rightarrow> (u64 \<Rightarrow> nat option) option) \<Rightarrow> bool" where
  "elf_cache_ok n c \<longleftrightarrow> (\<forall>name d off e. c name = Some d \<longrightarrow> d off = Some e \<longrightarrow> e < n)"

lemma world_ok_alt: "world_ok w \<longleftrightarrow> maps_ok (w_elfs w) (w_maps w) \<and> elf_cache_ok (length (w_elfs w)) (w_cache w)"
  by (simp add: world_ok_def elf_cache_ok_def)

lemma CacheAdd_ok:
  assumes "world_ok w" and "p < length (objs (w_maps w))" and "CacheAdd p w = Ok u w'"
  shows "world_ok w' \<and> w_maps w' = w_maps w \<and> w_elfs w' = w_elfs w"
proof -
  obtain e where e: "mi_elf (map_at p w) = Some e" using assms(3) by (auto simp: CacheAdd_def Let_def split: option.splits)
  moreover have "e < length (w_elfs w)"
    using assms(1,2) e by (auto simp: world_ok_alt maps_ok_def elf_fields_ok_def map_at_def)
  ultimately show ?thesis
    using assms by (auto simp: CacheAdd_def Let_def world_ok_alt elf_cache_ok_def split: if_splits option.splits)
qed

lemma elf_result_ok:
  assumes "world_ok w" and "p < length (objs (w_maps w))" and "elf_result p w = Ok e w'"
  shows "w' = w \<and> mi_elf (map_at p w) = Some e \<and> e < length (w_elfs w)"
  using assms by (auto simp: elf_result_def world_ok_alt maps_ok_def elf_fields_ok_def map_at_def split: option.splits)

text \<open>What a call of \<^verbatim>\<open>GetElf\<close> leaves: the invariant, the same maps, and a valid index as the ELF object of the map.\<close>

definition elf_set :: "nat \<Rightarrow> nat \<Rightarrow> nat \<Rightarrow> world \<Rightarrow> bool" where
  "elf_set n p e w \<longleftrightarrow> world_ok w \<and> length (objs (w_maps w)) = n \<and> mi_elf (map_at p w) = Some e \<and> e < length (w_elfs w)"

lemma finish_elf:
  assumes w: "world_ok w" "p < length (objs (w_maps w))"
    and run: "bind_out (if CachingEnabled w then CacheAdd p w else Ok () w) (\<lambda>_. elf_result p) = Ok e w'"
  shows "elf_set (length (objs (w_maps w))) p e w'"
proof -
  from run obtain u v where v: "(if CachingEnabled w then CacheAdd p w else Ok () w) = Ok u v" "elf_result p v = Ok e w'"
    by (rule bind_out_OkE)
  have "world_ok v \<and> w_maps v = w_maps w"
    using v(1) w CacheAdd_ok [OF w, of u v] by (cases "CachingEnabled w") auto
  with elf_result_ok [of v p e w'] v(2) w(2) show ?thesis by (auto simp: elf_set_def map_at_def)
qed

lemma place_elf_ok:
  assumes w: "world_ok w" and p: "p < length (objs (w_maps w))"
    and x: "elf_valid x \<Longrightarrow> a = mi_offset (map_at p w) - b"
    and run: "place_elf held p x (w\<lparr>w_maps := put_offsets p a b c (w_maps w)\<rparr>) = Some (Ok e w')"
  shows "elf_set (length (objs (w_maps w))) p e w'"
proof -
  let ?elfs = "w_elfs w @ [x]" and ?s = "set_elf p (Some (length (w_elfs w))) (put_offsets p a b c (w_maps w))"
  let ?w = "w\<lparr>w_maps := ?s, w_elfs := ?elfs\<rparr>"
  have cache: "elf_cache_ok (length ?elfs) (w_cache w)" using w by (auto simp: world_ok_alt elf_cache_ok_def intro: less_SucI)
  have "maps_ok ?elfs (w_maps w)" using w by (simp add: world_ok_alt maps_ok_append)
  note others = maps_ok_change [OF this, where p = p]
  let ?v = "\<lambda>s'. w\<lparr>w_maps := s', w_elfs := ?elfs\<rparr>"
  have "place_elf held p x (w\<lparr>w_maps := put_offsets p a b c (w_maps w)\<rparr>) =
    Option.bind (if \<not> elf_valid x then Some (set_elf_start_offset p (mi_offset (map_at p ?w)) ?s) else share_with_previous held p ?s)
      (\<lambda>s'. Some (bind_out (if CachingEnabled (?v s') then CacheAdd p (?v s') else Ok () (?v s')) (\<lambda>_. elf_result p)))"
    unfolding place_elf_def Let_def on_maps_def by (cases w) (simp cong: if_cong)
  from trans [OF this [symmetric] run, unfolded bind_eq_Some_conv]
  obtain s' where s': "(if \<not> elf_valid x then Some (set_elf_start_offset p (mi_offset (map_at p ?w)) ?s)
      else share_with_previous held p ?s) = Some s'"
    and run': "Some (bind_out (if CachingEnabled (?v s') then CacheAdd p (?v s') else Ok () (?v s')) (\<lambda>_. elf_result p)) = Some (Ok e w')"
    by blast
  have "maps_ok ?elfs s' \<and> length (objs s') = length (objs (w_maps w))"
  proof (cases "elf_valid x")
    case False
    then have "s' = set_elf_start_offset p (mi_offset (map_at p ?w)) ?s" using s' by simp
    then show ?thesis
      using p False by (intro conjI others) (auto simp: obj_put_offsets elf_fields_ok_def)
  next
    case True
    have s: "maps_ok ?elfs ?s"
      using p x [OF True] by (intro others) (auto simp: obj_put_offsets elf_fields_ok_def map_at_def)
    show ?thesis
      using share_with_previous_ok [OF s, of p "length (w_elfs w)" held s'] s' True p x [OF True]
      by (simp add: obj_put_offsets map_at_def)
  qed
  with finish_elf [of "?v s'" p e w'] run' cache p show ?thesis by (simp add: world_ok_alt)
qed

lemma CacheGet_ok:
  assumes w: "world_ok w" "p < length (objs (w_maps w))" and run: "CacheGet held p w = Some r"
  shows "out_post (\<lambda>_ v. world_ok v \<and> length (objs (w_maps v)) = length (objs (w_maps w))) (\<lambda>v. v = w) r"
proof (cases "w_cache w (mi_name (map_at p w))")
  case None
  with run show ?thesis by (auto simp: CacheGet_def)
next
  case (Some c)
  then obtain entry where entry: "cache_entry held c p w = Some entry"
    using run by (cases "cache_entry held c p w") (auto simp: CacheGet_def)
  show ?thesis
  proof (cases entry)
    case None
    with Some entry run show ?thesis by (auto simp: CacheGet_def)
  next
    case (Some oe)
    obtain off e where oe: "oe = (off, e)" by fastforce
    have "e < length (w_elfs w)"
      using entry Some oe \<open>w_cache w (mi_name (map_at p w)) = Some c\<close> w(1)
      by (auto simp: cache_entry_def previous_entry_def Let_def world_ok_alt elf_cache_ok_def split: option.splits if_splits)
    moreover have "r = Ok () (on_maps (set_elf_offset p (mi_offset (map_at p w) - off) \<circ> set_elf_start_offset p off \<circ> set_elf p (Some e)) w)"
      using entry Some oe \<open>w_cache w (mi_name (map_at p w)) = Some c\<close> run by (simp add: CacheGet_def)
    moreover have "maps_ok (w_elfs w) (set_elf_offset p (mi_offset (map_at p w) - off) (set_elf_start_offset p off (set_elf p (Some e) (w_maps w))))"
      if "e < length (w_elfs w)"
      by (rule maps_ok_change [of _ "w_maps w", where p = p]) (use w that in \<open>auto simp: world_ok_alt map_at_def elf_fields_ok_def\<close>)
    ultimately show ?thesis using w by (simp add: on_maps_def world_ok_alt)
  qed
qed

lemma created_elf_ok:
  assumes w: "world_ok w" "p < length (objs (w_maps w))" "mi_elf (map_at p w) = None"
    and r: "CreateMemory fe held mem p (w_maps w) = Some r" and s: "state_of r = Some s"
    and x: "init_elf xz junk arch (case r of Ok rd _ \<Rightarrow> Some rd | _ \<Rightarrow> None) = Some q" "state_of q = Some x"
    and run: "place_elf held p x (w\<lparr>w_maps := s\<rparr>) = Some (Ok e w')"
  shows "elf_set (length (objs (w_maps w))) p e w'"
proof -
  have "mi_elf_start_offset (obj_at p (w_maps w)) = 0"
    using w by (auto simp: world_ok_alt maps_ok_def elf_fields_ok_def map_at_def split: option.splits)
  from CreateMemory_post [OF w(2) this r] have post: "offsets_post p (w_maps w) r" .
  obtain a b c where abc: "s = put_offsets p a b c (w_maps w)" "elf_valid x \<longrightarrow> a = mi_offset (map_at p w) - b"
  proof (cases "elf_valid x")
    case True
    then obtain rd where rd: "r = Ok rd s" "elf_header rd"
      using init_elf_header [OF x] s by (cases r) auto
    with post that show ?thesis by (auto simp: offsets_post_def map_at_def)
  next
    case False
    with post s that show ?thesis by (cases r) (auto simp: offsets_post_def)
  qed
  with place_elf_ok [OF w(1,2), of x a b held c e w'] run show ?thesis by simp
qed

lemma bind_no_Fail: "(\<And>s. r \<noteq> Fail s) \<Longrightarrow> (\<And>v s t. f v s \<noteq> Fail t) \<Longrightarrow> bind_out r f \<noteq> Fail s"
  by (cases r) auto

lemma place_elf_no_Fail: "place_elf held p x w \<noteq> Some (Fail w')"
proof -
  have "CacheAdd p v \<noteq> Fail t" for v t by (simp add: CacheAdd_def Let_def split: option.split)
  moreover have "elf_result p v \<noteq> Fail t" for v t by (simp add: elf_result_def split: option.split)
  ultimately have "bind_out (if CachingEnabled v then CacheAdd p v else Ok () v) (\<lambda>_. elf_result p) \<noteq> Fail t" for v t
    by (intro bind_no_Fail) auto
  then show ?thesis unfolding place_elf_def Let_def bind_eq_Some_conv by simp
qed


section \<open>An example\<close>

definition no_files :: file_env where
  "no_files = \<lparr>fe_page_size = 0x1000, fe_file = (\<lambda>_. None), fe_mmap = (\<lambda>_ _ _. True)\<rparr>"

definition zero_junk :: elf_junk where
  "zero_junk = \<lparr>junk_machine_type = 0, junk_class_type = 0, junk_arch = ARCH_UNKNOWN, junk_load_bias = 0\<rparr>"

definition zero_memory :: reader where
  "zero_memory addr n = replicate n 0"

definition split_world :: world where
  "split_world = \<lparr>w_maps = split_maps, w_elfs = [], w_cache = Map.empty, w_cache_enabled = False, w_jit = jit_new\<rparr>"

definition split_elf :: "(nat, world) outcome option" where
  "split_elf = GetElf no_files (\<lambda>_ _ _. None) zero_junk {} (Some zero_memory) ARCH_ARM64 2 split_world"

lemma split_world_ok: "world_ok split_world"
  by (simp add: world_ok_def maps_ok_def elf_fields_ok_def obj_at_def split_world_def split_maps_eq MapInfo_new_def All_less_Suc)

lemma split_elf_eval:
  "case split_elf of
     Some (Ok e w') \<Rightarrow> \<not> elf_valid (elf_at e w') \<and> mi_elf_offset (map_at 2 w') = 0x2000 \<and>
       mi_offset (map_at 2 w') = 0x3000 \<and> mi_elf_start_offset (map_at 2 w') = 0x3000
   | _ \<Rightarrow> False"
  by code_simp


text \<open>
  For a map without a valid ELF file the relation can fail: a map whose file cannot be read, after a read-only map of the same name, and
  no ELF header in memory. \<^verbatim>\<open>CreateMemory\<close> has set the offset in the ELF file, and \<^verbatim>\<open>GetElf\<close> resets the start of the file only.
\<close>

theorem GetElf_invalid_offset:
  "\<exists>e w'. GetElf no_files (\<lambda>_ _ _. None) zero_junk {} (Some zero_memory) ARCH_ARM64 2 split_world = Some (Ok e w') \<and>
     mi_elf_offset (map_at 2 w') \<noteq> mi_offset (map_at 2 w') - mi_elf_start_offset (map_at 2 w')"
  using split_elf_eval unfolding split_elf_def by (auto split: option.splits outcome.splits)

end
