(* ===== verification/Unwinder.thy ===== *)
theory Unwinder
  imports Map_Info
begin

text \<open>
  \<^verbatim>\<open>libunwindstack/Unwinder.cpp\<close>: the frames of a stack, from the registers of a thread to the last caller that can be found. Each turn of
  the loop looks up the map and the ELF file of the pc, adds a frame and steps to the caller.
\<close>

section \<open>State\<close>

text \<open>\<open>fr_map_info\<close> is a shared pointer: the frames keep map objects alive.\<close>

record FrameData =
  fr_num :: nat
  fr_rel_pc :: u64
  fr_pc :: u64
  fr_sp :: u64
  fr_function_name :: "u8 list"
  fr_function_offset :: u64
  fr_map_info :: "nat option"

definition FrameData_new :: FrameData where
  "FrameData_new =
     \<lparr>fr_num = 0, fr_rel_pc = 0, fr_pc = 0, fr_sp = 0, fr_function_name = [], fr_function_offset = 0, fr_map_info = None\<rparr>"

text \<open>
  What does not change during an unwind. \<open>uc_find\<close> is the virtual function \<^verbatim>\<open>Maps::Find\<close>, given the objects clients hold;
  \<open>uc_jit\<close> is \<^verbatim>\<open>JitDebug::Find\<close>, whose result is one of the ELF objects, and \<open>uc_dex\<close> is \<^verbatim>\<open>DexFiles::GetFunctionName\<close>; \<open>None\<close> is the null pointer.
\<close>

record unwind_config =
  uc_max_frames :: nat
  uc_arch :: ArchEnum
  uc_resolve_names :: bool
  uc_env :: unwind_env
  uc_files :: file_env
  uc_xz :: decompressor
  uc_elf_junk :: elf_junk
  uc_held :: "nat set"
  uc_find :: "nat set \<Rightarrow> u64 \<Rightarrow> maps \<Rightarrow> (nat option, maps) outcome option"
  uc_jit :: "(u64 \<Rightarrow> world \<Rightarrow> (nat option, world) outcome option) option"
  uc_dex :: "(u64 \<Rightarrow> world \<Rightarrow> ((u8 list \<times> u64) option, world) outcome option) option"

record unwinder =
  uw_machine :: machine
  uw_frames :: "FrameData list"
  uw_error :: ErrorData
  uw_warnings :: u64
  uw_world :: world

text \<open>The variables of the loop; \<open>ls_skip\<close> is \<^verbatim>\<open>initial_map_names_to_skip\<close>.\<close>

record loop_state = unwinder +
  ls_return_attempt :: bool
  ls_adjust_pc :: bool
  ls_skip :: "string list option"

text \<open>The two implementations of \<^verbatim>\<open>Maps::Find\<close>; \<open>es\<close> and \<open>ok\<close> are what reading the maps file again gives.\<close>

definition plain_find :: "nat set \<Rightarrow> u64 \<Rightarrow> maps \<Rightarrow> (nat option, maps) outcome option" where
  "plain_find held pc s = map_option (map_state (\<lambda>_. s) (\<lambda>_. s)) (Maps_Find pc s)"

definition updatable_find :: "map_entry list \<Rightarrow> bool \<Rightarrow> nat set \<Rightarrow> u64 \<Rightarrow> maps \<Rightarrow> (nat option, maps) outcome option" where
  "updatable_find es ok held pc s = LocalUpdatableMaps_Find held es ok pc s"

section \<open>Helpers\<close>

definition held_maps :: "unwind_config \<Rightarrow> 'z unwinder_scheme \<Rightarrow> nat set" where
  "held_maps cfg u = uc_held cfg \<union> set (List.map_filter fr_map_info (uw_frames u))"

definition on_world :: "(world \<Rightarrow> ('v, world) outcome option) \<Rightarrow> 'z unwinder_scheme \<Rightarrow> ('v, 'z unwinder_scheme) outcome option" where
  "on_world f u = (let put = (\<lambda>w. u\<lparr>uw_world := w\<rparr>) in map_option (map_state put put) (f (uw_world u)))"

text \<open>\<^verbatim>\<open>maps_->Find(pc)\<close>; \<open>local\<close> are the maps local variables hold.\<close>

definition find_map ::
  "unwind_config \<Rightarrow> nat set \<Rightarrow> u64 \<Rightarrow> 'z unwinder_scheme \<Rightarrow> (nat option, 'z unwinder_scheme) outcome option" where
  "find_map cfg locals pc u =
     on_world (\<lambda>w. let put = (\<lambda>s. w\<lparr>w_maps := s\<rparr>)
       in map_option (map_state put put) (uc_find cfg (held_maps cfg u \<union> locals) pc (w_maps w))) u"

definition set_error_code :: "ErrorCode \<Rightarrow> 'z unwinder_scheme \<Rightarrow> 'z unwinder_scheme" where
  "set_error_code c u = u\<lparr>uw_error := (uw_error u)\<lparr>ed_code := c\<rparr>\<rparr>"

definition ClearErrors :: "'z unwinder_scheme \<Rightarrow> 'z unwinder_scheme" where
  "ClearErrors u = u\<lparr>uw_warnings := 0, uw_error := \<lparr>ed_code = ERROR_NONE, ed_address = 0\<rparr>\<rparr>"

definition update_last_frame :: "(FrameData \<Rightarrow> FrameData) \<Rightarrow> 'z unwinder_scheme \<Rightarrow> 'z unwinder_scheme" where
  "update_last_frame f u = u\<lparr>uw_frames := butlast (uw_frames u) @ [f (last (uw_frames u))]\<rparr>"

definition Basename :: "string \<Rightarrow> string" where
  "Basename path =
     (let slash = CHR ''/''; stripped = rev (dropWhile (\<lambda>c. c = slash) (rev path));
          base = rev (takeWhile (\<lambda>c. c \<noteq> slash) (rev stripped))
      in if path = [] then ''.'' else if stripped = [] then ''/'' else if 4095 < length base then [] else base)"

definition ShouldStop :: "string list option \<Rightarrow> string \<Rightarrow> bool" where
  "ShouldStop map_suffixes_to_ignore map_name \<longleftrightarrow>
     (case map_suffixes_to_ignore of
        None \<Rightarrow> False
      | Some suffixes \<Rightarrow>
          CHR ''.'' \<in> set map_name \<and> rev (takeWhile (\<lambda>c. c \<noteq> CHR ''.'') (rev map_name)) \<in> set suffixes)"

text \<open>What \<^verbatim>\<open>GetPcAdjustment\<close> reads of an ELF object.\<close>

definition elf_view :: "elf \<Rightarrow> (u64 \<times> reader) option" where
  "elf_view x = (if elf_valid x then map_option (Pair (elf_load_bias x)) (elf_memory x) else None)"

section \<open>Frames\<close>

definition set_dex_name :: "(u8 list \<times> u64) option \<Rightarrow> FrameData \<Rightarrow> FrameData" where
  "set_dex_name r f = (case r of None \<Rightarrow> f | Some (name, offset) \<Rightarrow> f\<lparr>fr_function_name := name, fr_function_offset := offset\<rparr>)"

definition FillInDexFrame :: "unwind_config \<Rightarrow> 'z unwinder_scheme \<Rightarrow> (unit, 'z unwinder_scheme) outcome option" where
  "FillInDexFrame cfg u =
     (let dex_pc = machine_dex_pc (uw_machine u);
          frame = FrameData_new\<lparr>fr_num := length (uw_frames u), fr_pc := dex_pc, fr_sp := machine_sp (uw_machine u)\<rparr>;
          u = u\<lparr>uw_frames := uw_frames u @ [frame]\<rparr>
      in bind_opt (find_map cfg {} dex_pc u) (\<lambda>map_info u.
           case map_info of
             None \<Rightarrow>
               Some (Ok () ((update_last_frame (\<lambda>f. f\<lparr>fr_rel_pc := dex_pc\<rparr>) u)\<lparr>uw_warnings := uw_warnings u OR 1\<rparr>))
           | Some p \<Rightarrow>
               let u = update_last_frame (\<lambda>f. f\<lparr>fr_map_info := Some p, fr_rel_pc := dex_pc - mi_start (map_at p (uw_world u))\<rparr>) u;
                   u = u\<lparr>uw_world := on_maps (set_load_bias p 0) (uw_world u)\<rparr>
               in case uc_dex cfg of
                    None \<Rightarrow> Some (Ok () u)
                  | Some dex_files \<Rightarrow>
                      if \<not> uc_resolve_names cfg then Some (Ok () u)
                      else bind_opt (on_world (dex_files dex_pc) u) (\<lambda>r u. Some (Ok () (update_last_frame (set_dex_name r) u)))))"

definition FillInFrame :: "nat option \<Rightarrow> u64 \<Rightarrow> u64 \<Rightarrow> 'z unwinder_scheme \<Rightarrow> 'z unwinder_scheme" where
  "FillInFrame map_info rel_pc pc_adjustment u =
     u\<lparr>uw_frames := uw_frames u @ [FrameData_new
       \<lparr>fr_num := length (uw_frames u), fr_sp := machine_sp (uw_machine u), fr_rel_pc := rel_pc - pc_adjustment,
        fr_pc := machine_pc (uw_machine u) - pc_adjustment, fr_map_info := map_info\<rparr>]\<rparr>"

section \<open>One turn of the loop\<close>

text \<open>The local variables of a turn after the lookup of the pc.\<close>

record frame_context =
  fc_map :: "nat option"
  fc_elf :: "nat option"
  fc_step_pc :: u64
  fc_rel_pc :: u64
  fc_adjustment :: u64
  fc_ignore :: bool

text \<open>The pc is in no map.\<close>

definition no_map :: "loop_state \<Rightarrow> frame_context \<times> loop_state" where
  "no_map u =
     (let pc = machine_pc (uw_machine u)
      in (\<lparr>fc_map = None, fc_elf = None, fc_step_pc = pc, fc_rel_pc = pc, fc_adjustment = 0, fc_ignore = False\<rparr>,
          if \<not> ls_return_attempt u \<or> ed_code (uw_error u) = ERROR_NONE
          then u\<lparr>uw_error := \<lparr>ed_code = ERROR_INVALID_MAP, ed_address = pc\<rparr>\<rparr> else u))"

text \<open>The ELF object from the debug information of the JIT, if the one of the map is not valid.\<close>

definition jit_elf :: "unwind_config \<Rightarrow> frame_context \<Rightarrow> loop_state \<Rightarrow> (frame_context option, loop_state) outcome option" where
  "jit_elf cfg c u =
     (case (uc_jit cfg, fc_map c, fc_elf c) of
        (Some jit, Some p, Some e) \<Rightarrow>
          if \<not> elf_valid (elf_at e (uw_world u)) \<and> mi_flags (map_at p (uw_world u)) AND PROT_EXEC \<noteq> 0 then
            let adjusted_jit_pc = machine_pc (uw_machine u) - fc_adjustment c
            in bind_opt (on_world (jit adjusted_jit_pc) u) (\<lambda>found u.
                 Some (Ok (Some (case found of
                     None \<Rightarrow> c | Some e \<Rightarrow> c\<lparr>fc_step_pc := adjusted_jit_pc, fc_elf := Some e\<rparr>)) u))
          else Some (Ok (Some c) u)
      | _ \<Rightarrow> Some (Ok (Some c) u))"

text \<open>The context of the pc; the result \<open>None\<close> ends the loop.\<close>

definition locate ::
  "unwind_config \<Rightarrow> string list option \<Rightarrow> loop_state \<Rightarrow> (frame_context option, loop_state) outcome option" where
  "locate cfg map_suffixes_to_ignore u =
     bind_opt (find_map cfg {} (machine_pc (uw_machine u)) u) (\<lambda>map_info u.
       case map_info of
         None \<Rightarrow> (let (c, u) = no_map u in Some (Ok (Some c) u))
       | Some p \<Rightarrow>
           let name = mi_name (map_at p (uw_world u));
               ignore_frame = (case ls_skip u of None \<Rightarrow> False | Some names \<Rightarrow> Basename name \<in> set names)
           in if \<not> ignore_frame \<and> ShouldStop map_suffixes_to_ignore name then Some (Ok None u)
              else bind_opt (on_world (GetElf (uc_files cfg) (uc_xz cfg) (uc_elf_junk cfg) (insert p (held_maps cfg u))
                       (Some (ue_memory (uc_env cfg))) (uc_arch cfg) p) u) (\<lambda>e u.
                let pc = machine_pc (uw_machine u); m = map_at p (uw_world u); x = elf_at e (uw_world u);
                    rel_pc = GetRelPc pc (mi_start m) (mi_elf_offset m) x;
                    adjustment = (if ls_adjust_pc u then GetPcAdjustment rel_pc (elf_view x) (uc_arch cfg) else 0);
                    step_pc = (if mi_flags m AND MAPS_FLAGS_JIT_SYMFILE_MAP = 0 then rel_pc else pc) - adjustment
                in jit_elf cfg \<lparr>fc_map = Some p, fc_elf = Some e, fc_step_pc = step_pc, fc_rel_pc = rel_pc,
                     fc_adjustment = adjustment, fc_ignore = ignore_frame\<rparr> u))"

text \<open>The new frames; the result says whether the loop goes on. A frame for a dex pc comes first.\<close>

definition add_frame :: "frame_context \<Rightarrow> loop_state \<Rightarrow> loop_state" where
  "add_frame c u = (FillInFrame (fc_map c) (fc_rel_pc c) (fc_adjustment c) u)\<lparr>ls_skip := None, ls_adjust_pc := True\<rparr>"

definition add_frames :: "unwind_config \<Rightarrow> frame_context \<Rightarrow> loop_state \<Rightarrow> (bool, loop_state) outcome option" where
  "add_frames cfg c u =
     (if fc_ignore c then Some (Ok True (u\<lparr>ls_adjust_pc := True\<rparr>))
      else if machine_dex_pc (uw_machine u) \<noteq> 0 then
        bind_opt (FillInDexFrame cfg u) (\<lambda>_ u.
          let u = u\<lparr>uw_machine := machine_set_dex_pc 0 (uw_machine u)\<rparr>
          in if length (uw_frames u) = uc_max_frames cfg
             then Some (Ok False (set_error_code ERROR_MAX_FRAMES_EXCEEDED u))
             else Some (Ok True (add_frame c u)))
      else Some (Ok True (add_frame c u)))"

text \<open>Whether \<^verbatim>\<open>frame\<close> points to the last frame.\<close>

definition has_frame :: "frame_context \<Rightarrow> bool" where
  "has_frame c \<longleftrightarrow> \<not> fc_ignore c \<and> fc_map c \<noteq> None"

text \<open>Stepping: whether it succeeded, whether the pc or sp is in a device map, whether the stack ends, and the pc for the function name.\<close>

record step_result =
  sr_stepped :: bool
  sr_device :: bool
  sr_finished :: bool
  sr_step_pc :: u64

definition after_step ::
  "frame_context \<Rightarrow> nat \<Rightarrow> bool \<Rightarrow> bool \<Rightarrow> bool \<Rightarrow> loop_state \<Rightarrow> (step_result, loop_state) outcome" where
  "after_step c e stepped finished is_signal u =
     (let adjust = (is_signal \<and> has_frame c);
          u = (if adjust then
                 update_last_frame (\<lambda>f. f\<lparr>fr_rel_pc := fc_rel_pc c, fr_pc := fr_pc f + fc_adjustment c\<rparr>) u else u)
      in Ok \<lparr>sr_stepped = stepped, sr_device = False, sr_finished = finished,
             sr_step_pc = (if adjust then fc_rel_pc c else fc_step_pc c)\<rparr>
           (u\<lparr>uw_error := GetLastError (elf_at e (uw_world u))\<rparr>))"

definition step_elf :: "unwind_config \<Rightarrow> frame_context \<Rightarrow> nat \<Rightarrow> loop_state \<Rightarrow> (step_result, loop_state) outcome option" where
  "step_elf cfg c e u =
     (let env = uc_env cfg; x = elf_at e (uw_world u)
      in case Elf_StepIfSignalHandler (ue_junk env) (fc_rel_pc c) (ue_memory env) x (uw_machine u) of
           Ok _ m \<Rightarrow> Some (after_step c e True False True (u\<lparr>uw_machine := m\<rparr>))
         | Fail m \<Rightarrow>
             (let put = (\<lambda>(m, _, x). u\<lparr>uw_machine := m, uw_world := set_elf_at e x (uw_world u)\<rparr>)
              in map_option (\<lambda>r.
                   case r of
                     Ok finished st \<Rightarrow> after_step c e True finished (fst (snd st)) (put st)
                   | Fail st \<Rightarrow> after_step c e False False (fst (snd st)) (put st)
                   | Abort \<Rightarrow> Abort
                   | Undef k \<Rightarrow> Undef k) (Elf_Step env (fc_step_pc c) (m, False, x)))
         | Abort \<Rightarrow> Some Abort
         | Undef k \<Rightarrow> Some (Undef k))"

definition is_device :: "nat \<Rightarrow> 'z unwinder_scheme \<Rightarrow> bool" where
  "is_device p u \<longleftrightarrow> mi_flags (map_at p (uw_world u)) AND MAPS_FLAGS_DEVICE_MAP \<noteq> 0"

definition try_step :: "unwind_config \<Rightarrow> frame_context \<Rightarrow> loop_state \<Rightarrow> (step_result, loop_state) outcome option" where
  "try_step cfg c u =
     (let no_step = \<lparr>sr_stepped = False, sr_device = False, sr_finished = False, sr_step_pc = fc_step_pc c\<rparr>
      in case fc_map c of
           None \<Rightarrow> Some (Ok no_step u)
         | Some p \<Rightarrow>
             if is_device p u then Some (Ok (no_step\<lparr>sr_device := True\<rparr>) u)
             else bind_opt (find_map cfg {p} (machine_sp (uw_machine u)) u) (\<lambda>sp_info u.
               if (case sp_info of None \<Rightarrow> False | Some q \<Rightarrow> is_device q u) then Some (Ok (no_step\<lparr>sr_device := True\<rparr>) u)
               else case fc_elf c of
                   None \<Rightarrow> Some (Undef UB_Null)
                 | Some e \<Rightarrow> step_elf cfg c e u))"

text \<open>The function name of the frame, empty if there is none.\<close>

definition name_frame :: "unwind_config \<Rightarrow> frame_context \<Rightarrow> u64 \<Rightarrow> loop_state \<Rightarrow> (unit, loop_state) outcome option" where
  "name_frame cfg c step_pc u =
     (let put = (\<lambda>name offset. update_last_frame (\<lambda>f. f\<lparr>fr_function_name := name, fr_function_offset := offset\<rparr>))
      in if \<not> has_frame c then Some (Ok () u)
         else if \<not> uc_resolve_names cfg then Some (Ok () (put [] 0 u))
         else case fc_elf c of
             None \<Rightarrow> Some (Undef UB_Null)
           | Some e \<Rightarrow>
               map_option (\<lambda>r.
                 case r of
                   Ok (name, offset) u \<Rightarrow> Ok () (put name offset u)
                 | Fail u \<Rightarrow> Ok () (put [] 0 u)
                 | Abort \<Rightarrow> Abort
                 | Undef k \<Rightarrow> Undef k) (on_world (on_elf e (Elf_GetFunctionName step_pc)) u))"

text \<open>A failed step: the speculative frame is removed, or the return address is tried.\<close>

definition drop_speculative :: "unwind_config \<Rightarrow> nat set \<Rightarrow> loop_state \<Rightarrow> (bool, loop_state) outcome option" where
  "drop_speculative cfg locals u =
     (let pop = (\<lambda>u. u\<lparr>uw_frames := butlast (uw_frames u)\<rparr>)
      in if 2 < length (uw_frames u) then Some (Ok False (pop u))
         else if uw_frames u = [] then Some (Ok False u)
         else bind_opt (find_map cfg locals (fr_pc (hd (uw_frames u))) u) (\<lambda>m u.
           Some (Ok False (if m \<noteq> None then pop u else u))))"

definition not_stepped ::
  "unwind_config \<Rightarrow> nat set \<Rightarrow> bool \<Rightarrow> loop_state \<Rightarrow> (bool, loop_state) outcome option" where
  "not_stepped cfg locals in_device_map u =
     (if ls_return_attempt u then drop_speculative cfg locals u
      else if in_device_map then Some (Ok False u)
      else Some (let put = (\<lambda>m. u\<lparr>uw_machine := m\<rparr>) in
        case machine_SetPcFromReturnAddress (ue_memory (uc_env cfg)) (uw_machine u) of
          Ok _ m \<Rightarrow> Ok True ((put m)\<lparr>ls_return_attempt := True\<rparr>)
        | Fail m \<Rightarrow> Ok False (put m)
        | Abort \<Rightarrow> Abort
        | Undef k \<Rightarrow> Undef k))"

definition stepped_on :: "unwind_config \<Rightarrow> loop_state \<Rightarrow> loop_state" where
  "stepped_on cfg u =
     (let u = u\<lparr>ls_return_attempt := False\<rparr>
      in if uc_max_frames cfg = length (uw_frames u) then set_error_code ERROR_MAX_FRAMES_EXCEEDED u else u)"

definition check_progress :: "u64 \<Rightarrow> u64 \<Rightarrow> loop_state \<Rightarrow> (bool, loop_state) outcome option" where
  "check_progress cur_pc cur_sp u =
     (if cur_pc = machine_pc (uw_machine u) \<and> cur_sp = machine_sp (uw_machine u)
      then Some (Ok False (set_error_code ERROR_REPEATED_FRAME u)) else Some (Ok True u))"

definition map_local :: "frame_context \<Rightarrow> nat set" where
  "map_local c = (case fc_map c of None \<Rightarrow> {} | Some p \<Rightarrow> {p})"

definition go_on ::
  "unwind_config \<Rightarrow> frame_context \<Rightarrow> step_result \<Rightarrow> u64 \<Rightarrow> u64 \<Rightarrow> loop_state \<Rightarrow> (bool, loop_state) outcome option" where
  "go_on cfg c r cur_pc cur_sp u =
     (if sr_finished r then Some (Ok False u)
      else if sr_stepped r then check_progress cur_pc cur_sp (stepped_on cfg u)
      else bind_opt (not_stepped cfg (map_local c) (sr_device r) u) (\<lambda>again u.
        if again then check_progress cur_pc cur_sp u else Some (Ok False u)))"

text \<open>The result says whether the loop goes on.\<close>

definition turn :: "unwind_config \<Rightarrow> string list option \<Rightarrow> loop_state \<Rightarrow> (bool, loop_state) outcome option" where
  "turn cfg map_suffixes_to_ignore u =
     (let cur_pc = machine_pc (uw_machine u); cur_sp = machine_sp (uw_machine u)
      in bind_opt (locate cfg map_suffixes_to_ignore u) (\<lambda>ctx u.
           case ctx of
             None \<Rightarrow> Some (Ok False u)
           | Some c \<Rightarrow>
               bind_opt (add_frames cfg c u) (\<lambda>again u.
                 if \<not> again then Some (Ok False u)
                 else bind_opt (try_step cfg c u) (\<lambda>r u.
                   bind_opt (name_frame cfg c (sr_step_pc r) u) (\<lambda>_ u. go_on cfg c r cur_pc cur_sp u)))))"

section \<open>Unwind\<close>

partial_function (option) unwind_loop ::
  "unwind_config \<Rightarrow> string list option \<Rightarrow> loop_state \<Rightarrow> (unit, loop_state) outcome option" where
  "unwind_loop cfg map_suffixes_to_ignore u =
     (if length (uw_frames u) < uc_max_frames cfg then
        Option.bind (turn cfg map_suffixes_to_ignore u) (\<lambda>r.
          case r of
            Ok again u \<Rightarrow> if again then unwind_loop cfg map_suffixes_to_ignore u else Some (Ok () u)
          | Fail u \<Rightarrow> Some (Fail u)
          | Abort \<Rightarrow> Some Abort
          | Undef k \<Rightarrow> Some (Undef k))
      else Some (Ok () u))"

declare unwind_loop.simps [code]

definition start_loop :: "string list option \<Rightarrow> unwinder \<Rightarrow> loop_state" where
  "start_loop initial_map_names_to_skip u =
     unwinder.extend u (loop_state.fields False False initial_map_names_to_skip)"

text \<open>Before the loop: errors and frames are cleared, and the pc is replaced if it is in no map.\<close>

definition prepare :: "unwind_config \<Rightarrow> unwinder \<Rightarrow> (unit, unwinder) outcome option" where
  "prepare cfg u =
     (let u = (ClearErrors u)\<lparr>uw_frames := []\<rparr>
      in bind_opt (find_map cfg {} (machine_pc (uw_machine u)) u) (\<lambda>m u.
           Some (Ok () (if m = None then u\<lparr>uw_machine := machine_fallback_pc (uw_machine u)\<rparr> else u))))"

definition Unwind ::
  "unwind_config \<Rightarrow> string list option \<Rightarrow> string list option \<Rightarrow> unwinder \<Rightarrow> (unit, unwinder) outcome option" where
  "Unwind cfg initial_map_names_to_skip map_suffixes_to_ignore u =
     (if uc_arch cfg = ARCH_UNKNOWN then Some Abort
      else bind_opt (prepare cfg u) (\<lambda>_ u.
        map_option (map_state unwinder.truncate unwinder.truncate)
          (unwind_loop cfg map_suffixes_to_ignore (start_loop initial_map_names_to_skip u))))"

section \<open>A frame from a pc\<close>

text \<open>\<open>frame0\<close> holds the values of the members that have no initialiser.\<close>

definition BuildFrameFromPcOnly ::
  "unwind_config \<Rightarrow> FrameData \<Rightarrow> u64 \<Rightarrow> unwinder \<Rightarrow> (FrameData, unwinder) outcome option" where
  "BuildFrameFromPcOnly cfg frame0 pc u =
     (let frame = frame0\<lparr>fr_function_name := [], fr_function_offset := 0, fr_map_info := None\<rparr>
      in bind_opt (find_map cfg {} pc u) (\<lambda>map_info u.
           if map_info = None \<or> uc_arch cfg = ARCH_UNKNOWN then Some (Ok (frame\<lparr>fr_pc := pc, fr_rel_pc := pc\<rparr>) u)
           else
             let p = the map_info
             in bind_opt (on_world (GetElf (uc_files cfg) (uc_xz cfg) (uc_elf_junk cfg) (insert p (held_maps cfg u))
                    (Some (ue_memory (uc_env cfg))) (uc_arch cfg) p) u) (\<lambda>e u.
                  let m = map_at p (uw_world u); x = elf_at e (uw_world u);
                      rel_pc = GetRelPc pc (mi_start m) (mi_elf_offset m) x;
                      adjustment = GetPcAdjustment rel_pc (elf_view x) (uc_arch cfg)
                  in bind_opt
                       (case uc_jit cfg of
                          Some jit \<Rightarrow> if \<not> elf_valid x then on_world (jit (pc - adjustment)) u else Some (Ok None u)
                        | None \<Rightarrow> Some (Ok None u)) (\<lambda>found u.
                     let (debug_pc, e) = (case found of None \<Rightarrow> (rel_pc - adjustment, e) | Some e \<Rightarrow> (pc - adjustment, e));
                         frame = frame\<lparr>fr_rel_pc := rel_pc - adjustment, fr_pc := pc - adjustment, fr_map_info := Some p\<rparr>
                     in if \<not> uc_resolve_names cfg then Some (Ok frame u)
                        else map_option (\<lambda>r.
                               case r of
                                 Ok (name, offset) u \<Rightarrow> Ok (frame\<lparr>fr_function_name := name, fr_function_offset := offset\<rparr>) u
                               | Fail u \<Rightarrow> Ok frame u
                               | Abort \<Rightarrow> Abort
                               | Undef k \<Rightarrow> Undef k) (on_world (on_elf e (Elf_GetFunctionName debug_pc)) u)))))"

section \<open>Printing\<close>

fun hex_digits :: "nat \<Rightarrow> string" where
  "hex_digits n = (if n < 16 then [hex_digit n] else hex_digits (n div 16) @ [hex_digit (n mod 16)])"

fun dec_digits :: "nat \<Rightarrow> string" where
  "dec_digits n = (if n < 10 then [hex_digit n] else dec_digits (n div 10) @ [hex_digit (n mod 10)])"

declare hex_digits.simps [simp del] dec_digits.simps [simp del]

definition pad_zero :: "nat \<Rightarrow> string \<Rightarrow> string" where
  "pad_zero k s = replicate (k - length s) CHR ''0'' @ s"

definition print_signed :: "u64 \<Rightarrow> string" where
  "print_signed v = (if sint v < 0 then ''-'' @ dec_digits (nat (- sint v)) else dec_digits (nat (sint v)))"

text \<open>\<open>demangle\<close> is \<^verbatim>\<open>DemangleNameIfNeeded\<close>, which calls the C++ runtime. The names of maps and build ids are read on demand.\<close>

definition FormatFrame ::
  "file_env \<Rightarrow> nat set \<Rightarrow> (u8 list \<Rightarrow> string) \<Rightarrow> ArchEnum \<Rightarrow> bool \<Rightarrow> FrameData \<Rightarrow> world \<Rightarrow> (string, world) outcome option" where
  "FormatFrame fe held demangle arch display_build_id frame w =
     (let head = ''  #'' @ pad_zero 2 (dec_digits (fr_num frame)) @ '' pc '' @
            pad_zero (if ArchIs32Bit arch then 8 else 16) (hex_digits (unat (fr_rel_pc frame)));
          func = (if fr_function_name frame = [] then []
            else '' ('' @ demangle (fr_function_name frame) @
              (if fr_function_offset frame \<noteq> 0 then ''+'' @ print_signed (fr_function_offset frame) else []) @ '')'')
      in case fr_map_info frame of
           None \<Rightarrow> Some (Ok (head @ ''  <unknown>'' @ func) w)
         | Some p \<Rightarrow>
             Option.bind
               (if mi_name (map_at p w) \<noteq> [] then map_option (\<lambda>(name, w). (''  '' @ name, w)) (GetFullName p w)
                else Some (''  <anonymous:'' @ hex_digits (unat (mi_start (map_at p w))) @ ''>'', w))
               (\<lambda>(name, w).
                  let start = mi_elf_start_offset (map_at p w);
                      data = head @ name @ (if start \<noteq> 0 then '' (offset 0x'' @ hex_digits (unat start) @ '')'' else []) @ func
                  in if \<not> display_build_id then Some (Ok data w)
                     else map_option (\<lambda>r. bind_out r (\<lambda>build_id.
                            Ok (if build_id \<noteq> [] then data @ '' (BuildId: '' @ build_id @ '')'' else data)))
                          (MapInfo_GetPrintableBuildID fe held p w)))"

definition FormatFrame_num ::
  "file_env \<Rightarrow> nat set \<Rightarrow> (u8 list \<Rightarrow> string) \<Rightarrow> ArchEnum \<Rightarrow> bool \<Rightarrow> nat \<Rightarrow> unwinder \<Rightarrow> (string, unwinder) outcome option" where
  "FormatFrame_num fe held demangle arch display_build_id frame_num u =
     (if length (uw_frames u) \<le> frame_num then Some (Ok [] u)
      else on_world (FormatFrame fe held demangle arch display_build_id (uw_frames u ! frame_num)) u)"

section \<open>Unwinding the stack of a process\<close>

text \<open>
  \<^verbatim>\<open>UnwinderFromPid::Init\<close>: the maps are parsed unless the client gave some. The memory of the process and the debug interfaces
  are part of the configuration. \<open>pu_has_maps\<close> says whether \<^verbatim>\<open>maps_\<close> is set; with no maps \<^verbatim>\<open>Unwind\<close> uses a null pointer.
\<close>

record pid_unwinder =
  pu_unwinder :: unwinder
  pu_initted :: bool
  pu_has_maps :: bool

definition UnwinderFromPid_Init :: "unwind_config \<Rightarrow> map_entry list \<Rightarrow> bool \<Rightarrow> pid_unwinder \<Rightarrow> (unit, pid_unwinder) outcome" where
  "UnwinderFromPid_Init cfg es ok s =
     (if uc_arch cfg = ARCH_UNKNOWN then Abort
      else if pu_initted s then Ok () s
      else
        let s = s\<lparr>pu_initted := True\<rparr>; u = pu_unwinder s; w = uw_world u
        in if pu_has_maps s then Ok () s
           else case Maps_Parse es ok Maps_new of
               Ok _ maps \<Rightarrow> Ok () (s\<lparr>pu_has_maps := True, pu_unwinder := u\<lparr>uw_world := w\<lparr>w_maps := maps\<rparr>\<rparr>\<rparr>)
             | Fail _ \<Rightarrow> Fail (s\<lparr>pu_unwinder := set_error_code ERROR_INVALID_MAP (ClearErrors u)\<rparr>)
             | Abort \<Rightarrow> Abort
             | Undef k \<Rightarrow> Undef k)"

definition UnwinderFromPid_Unwind ::
  "unwind_config \<Rightarrow> map_entry list \<Rightarrow> bool \<Rightarrow> string list option \<Rightarrow> string list option \<Rightarrow> pid_unwinder \<Rightarrow> (unit, pid_unwinder) outcome option" where
  "UnwinderFromPid_Unwind cfg es ok initial_map_names_to_skip map_suffixes_to_ignore s =
     (case UnwinderFromPid_Init cfg es ok s of
        Ok _ s \<Rightarrow>
          (let put = (\<lambda>u. s\<lparr>pu_unwinder := u\<rparr>)
           in if \<not> pu_has_maps s then Some (Undef UB_Null)
              else map_option (map_state put put) (Unwind cfg initial_map_names_to_skip map_suffixes_to_ignore (pu_unwinder s)))
      | Fail s \<Rightarrow> Some (Ok () s)
      | Abort \<Rightarrow> Some Abort
      | Undef k \<Rightarrow> Some (Undef k))"

end
