(* ===== verification/Unwind_Frames.thy ===== *)
theory Unwind_Frames
  imports Unwinder Map_Elf
begin

text \<open>
  The frames \<^verbatim>\<open>Unwinder::Unwind\<close> returns: their number and their numbering, and that the loop ends unless names of maps to skip are given.
\<close>

section \<open>Postconditions\<close>

definition opt_post :: "('v \<Rightarrow> 's \<Rightarrow> bool) \<Rightarrow> ('s \<Rightarrow> bool) \<Rightarrow> ('v, 's) outcome option \<Rightarrow> bool" where
  "opt_post P Q r \<longleftrightarrow> (case r of None \<Rightarrow> True | Some r \<Rightarrow> out_post P Q r)"

lemma opt_post_simps [simp]: "opt_post P Q None" "opt_post P Q (Some r) = out_post P Q r"
  by (simp_all add: opt_post_def)

lemma opt_post_bind: "opt_post (\<lambda>v s. opt_post P Q (f v s)) Q r \<Longrightarrow> opt_post P Q (bind_opt r f)"
  by (cases r; cases "the r") (auto simp: opt_post_def)

lemma opt_post_mono:
  "opt_post P Q r \<Longrightarrow> (\<And>v s. P v s \<Longrightarrow> P' v s) \<Longrightarrow> (\<And>s. Q s \<Longrightarrow> Q' s) \<Longrightarrow> opt_post P' Q' r"
  by (cases r) (auto elim: out_post_mono)

lemma opt_post_map_state: "opt_post (\<lambda>v s. P v (g s)) (\<lambda>s. Q (h s)) r \<Longrightarrow> opt_post P Q (map_option (map_state g h) r)"
  by (cases r; cases "the r") (auto simp: opt_post_def)

section \<open>Frames of one turn\<close>

text \<open>What the operations may do to the frames is stated on their numbers, with the names that are still skipped.\<close>

definition frame_view :: "loop_state \<Rightarrow> nat list \<times> string list option" where
  "frame_view u = (map fr_num (uw_frames u), ls_skip u)"

abbreviation (input) keeps_view :: "loop_state \<Rightarrow> ('v, loop_state) outcome option \<Rightarrow> bool" where
  "keeps_view u \<equiv> opt_post (\<lambda>_ v. frame_view v = frame_view u) (\<lambda>v. frame_view v = frame_view u)"

lemma view_simps [simp]:
  "frame_view (u\<lparr>uw_world := w\<rparr>) = frame_view u" "frame_view (u\<lparr>uw_machine := m\<rparr>) = frame_view u"
  "frame_view (u\<lparr>uw_error := e\<rparr>) = frame_view u" "frame_view (u\<lparr>uw_warnings := x\<rparr>) = frame_view u"
  "frame_view (u\<lparr>ls_return_attempt := b\<rparr>) = frame_view u" "frame_view (u\<lparr>ls_adjust_pc := b\<rparr>) = frame_view u"
  "frame_view (set_error_code c u) = frame_view u"
  by (simp_all add: frame_view_def set_error_code_def)

lemma view_update_last:
  "uw_frames u \<noteq> [] \<Longrightarrow> (\<And>f. fr_num (g f) = fr_num f) \<Longrightarrow> frame_view (update_last_frame g u) = frame_view u"
  by (cases "uw_frames u" rule: rev_cases) (auto simp: frame_view_def update_last_frame_def)

lemma on_world_view: "keeps_view u (on_world f u)"
  unfolding on_world_def Let_def by (rule opt_post_map_state) (cases "f (uw_world u)"; cases "the (f (uw_world u))"; simp)

lemma find_map_view: "keeps_view u (find_map cfg locals pc u)"
  unfolding find_map_def by (rule on_world_view)

lemma view_bind:
  "keeps_view u r \<Longrightarrow> (\<And>v s. frame_view s = frame_view u \<Longrightarrow> opt_post P Q (f v s)) \<Longrightarrow>
    (\<And>s. frame_view s = frame_view u \<Longrightarrow> Q s) \<Longrightarrow> opt_post P Q (bind_opt r f)"
  by (rule opt_post_bind) (erule opt_post_mono; blast)

definition locate_post :: "loop_state \<Rightarrow> frame_context option \<Rightarrow> loop_state \<Rightarrow> bool" where
  "locate_post u ctx v \<longleftrightarrow> frame_view v = frame_view u \<and> (\<forall>c. ctx = Some c \<longrightarrow> ls_skip u = None \<longrightarrow> \<not> fc_ignore c)"

lemma jit_elf_view:
  assumes "frame_view v = frame_view u" and "ls_skip u = None \<Longrightarrow> \<not> fc_ignore c"
  shows "opt_post (locate_post u) (\<lambda>v. frame_view v = frame_view u) (jit_elf cfg c v)"
proof -
  have *: "opt_post (locate_post u) (\<lambda>v. frame_view v = frame_view u)
      (bind_opt (on_world (jit pc) v) (\<lambda>found u. Some (Ok (Some (case found of
         None \<Rightarrow> c | Some e \<Rightarrow> c\<lparr>fc_step_pc := pc, fc_elf := Some e\<rparr>)) u)))" for jit pc
    by (rule view_bind [OF on_world_view]) (use assms in \<open>auto simp: locate_post_def split: option.splits\<close>)
  show ?thesis
    unfolding jit_elf_def Let_def using assms *
    by (auto simp: locate_post_def split: option.split prod.split)
qed

lemma locate_view: "opt_post (locate_post u) (\<lambda>v. frame_view v = frame_view u) (locate cfg suffixes u)"
  unfolding locate_def
proof (rule view_bind [OF find_map_view], goal_cases)
  case (1 m v)
  have skip: "ls_skip v = ls_skip u" using 1 by (simp add: frame_view_def)
  show ?case
  proof (cases m)
    case None
    with 1 show ?thesis by (auto simp: no_map_def Let_def locate_post_def)
  next
    case (Some p)
    show ?thesis
      unfolding Some option.case Let_def
      using 1 skip
      by (auto intro!: view_bind [OF on_world_view] jit_elf_view simp: locate_post_def split: option.splits)
  qed
qed auto

section \<open>The new frames\<close>

text \<open>Frames numbered from 0, at most \<open>N\<close> of them.\<close>

definition numbered :: "nat \<Rightarrow> loop_state \<Rightarrow> bool" where
  "numbered N u \<longleftrightarrow> map fr_num (uw_frames u) = [0..<length (uw_frames u)] \<and> length (uw_frames u) \<le> N"

lemma numbered_view: "frame_view v = frame_view u \<Longrightarrow> numbered N v = numbered N u"
  unfolding numbered_def frame_view_def by (metis length_map prod.inject)

lemma view_length: "frame_view v = frame_view u \<Longrightarrow> length (uw_frames v) = length (uw_frames u)"
  unfolding frame_view_def by (metis length_map prod.inject)

lemma FillInDexFrame_view:
  "opt_post (\<lambda>_ v. frame_view v = (map fr_num (uw_frames u) @ [length (uw_frames u)], ls_skip u))
    (\<lambda>v. frame_view v = (map fr_num (uw_frames u) @ [length (uw_frames u)], ls_skip u)) (FillInDexFrame cfg (u :: loop_state))"
proof -
  define f where "f = FrameData_new\<lparr>fr_num := length (uw_frames u), fr_pc := machine_dex_pc (uw_machine u), fr_sp := machine_sp (uw_machine u)\<rparr>"
  define v where "v = u\<lparr>uw_frames := uw_frames u @ [f]\<rparr>"
  have v: "frame_view v = (map fr_num (uw_frames u) @ [length (uw_frames u)], ls_skip u)"
    by (simp add: frame_view_def v_def f_def)
  have ne: "uw_frames w \<noteq> []" if "frame_view w = frame_view v" for w
    using that v unfolding frame_view_def by auto
  show ?thesis
    unfolding FillInDexFrame_def Let_def f_def [symmetric] v_def [symmetric] v [symmetric]
  proof (rule view_bind [OF find_map_view], goal_cases)
    case (1 m w)
    have last: "frame_view (update_last_frame g w) = frame_view v" if "\<And>f. fr_num (g f) = fr_num f" for g
      using view_update_last [OF ne [OF 1] that] 1 by simp
    show ?case
    proof (cases m)
      case None
      with last show ?thesis by simp
    next
      case (Some p)
      let ?w = "(update_last_frame (\<lambda>f. f\<lparr>fr_map_info := Some p, fr_rel_pc := machine_dex_pc (uw_machine u) - mi_start (map_at p (uw_world w))\<rparr>) w)
          \<lparr>uw_world := on_maps (set_load_bias p 0) (uw_world (update_last_frame (\<lambda>f. f\<lparr>fr_map_info := Some p, fr_rel_pc := machine_dex_pc (uw_machine u) - mi_start (map_at p (uw_world w))\<rparr>) w))\<rparr>"
      have w: "frame_view ?w = frame_view v" using last by simp
      have dex: "keeps_view v (bind_opt (on_world (dex pc) ?w) (\<lambda>r u. Some (Ok () (update_last_frame (set_dex_name r) u))))" for dex pc
      proof (rule view_bind [OF on_world_view], goal_cases)
        case (1 r x)
        then have x: "frame_view x = frame_view v" using w by simp
        have "fr_num (set_dex_name r f) = fr_num f" for f by (simp add: set_dex_name_def split: option.split)
        from view_update_last [OF ne [OF x] this] x show ?case by simp
      qed (use w in simp)
      show ?thesis using Some w dex by (auto split: option.split)
    qed
  qed simp
qed

lemma add_frame_view: "frame_view (add_frame c u) = (map fr_num (uw_frames u) @ [length (uw_frames u)], None)"
  by (simp add: add_frame_def FillInFrame_def frame_view_def FrameData_new_def)

definition added :: "nat \<Rightarrow> frame_context \<Rightarrow> loop_state \<Rightarrow> bool \<Rightarrow> loop_state \<Rightarrow> bool" where
  "added N c u again v \<longleftrightarrow> numbered N v \<and>
     (if fc_ignore c then frame_view v = frame_view u
      else again \<longrightarrow> ls_skip v = None \<and> length (uw_frames u) < length (uw_frames v))"

lemma numbered_viewI: "frame_view v = ([0..<n], sk) \<Longrightarrow> n \<le> N \<Longrightarrow> numbered N v"
  unfolding numbered_def frame_view_def by (metis length_map length_upt minus_nat.diff_0 prod.inject)

lemma view_parts: "frame_view v = (ns, sk) \<Longrightarrow> length (uw_frames v) = length ns \<and> ls_skip v = sk"
  unfolding frame_view_def by (metis length_map prod.inject)

lemma add_frames_view:
  assumes "numbered N u" and "length (uw_frames u) < N" and "uc_max_frames cfg = N"
  shows "opt_post (added N c u) (numbered N) (add_frames cfg c u)"
proof -
  let ?n = "length (uw_frames u)"
  have nums: "map fr_num (uw_frames u) @ [?n] = [0..<Suc ?n]" using assms(1) by (simp add: numbered_def)
  have frame: "added N c u True (add_frame c v)"
    if v: "frame_view v = ([0..<k], sk)" and k: "?n \<le> k" "k < N" and "\<not> fc_ignore c" for v k sk
  proof -
    have "map fr_num (uw_frames v) = [0..<k]" "length (uw_frames v) = k" using v view_parts [OF v] by (auto simp: frame_view_def)
    then have new: "frame_view (add_frame c v) = ([0..<Suc k], None)" by (simp add: add_frame_view)
    show ?thesis using view_parts [OF new] numbered_viewI [OF new] that(4) k by (simp add: added_def)
  qed
  show ?thesis
  proof (cases "fc_ignore c")
    case True
    then show ?thesis using assms(1) numbered_view [of "u\<lparr>ls_adjust_pc := True\<rparr>" u N] by (simp add: add_frames_def added_def)
  next
    case False
    have "opt_post (added N c u) (numbered N) (bind_opt (FillInDexFrame cfg u) (\<lambda>_ u.
          let u = u\<lparr>uw_machine := machine_set_dex_pc 0 (uw_machine u)\<rparr>
          in if length (uw_frames u) = uc_max_frames cfg
             then Some (Ok False (set_error_code ERROR_MAX_FRAMES_EXCEEDED u))
             else Some (Ok True (add_frame c u))))"
    proof (rule opt_post_bind, rule opt_post_mono [OF FillInDexFrame_view], goal_cases)
      case (1 x v)
      then have v: "frame_view v = ([0..<Suc ?n], ls_skip u)" using nums by simp
      let ?v = "v\<lparr>uw_machine := machine_set_dex_pc 0 (uw_machine v)\<rparr>"
      have v': "frame_view ?v = ([0..<Suc ?n], ls_skip u)" using v by simp
      have len: "length (uw_frames v) = Suc ?n" using view_parts [OF v] by simp
      show ?case
      proof (cases "Suc ?n = N")
        case True
        have "frame_view (set_error_code ERROR_MAX_FRAMES_EXCEEDED ?v) = ([0..<Suc ?n], ls_skip u)" using v by simp
        from numbered_viewI [OF this] True len assms(3) False show ?thesis by (simp add: Let_def added_def)
      next
        case no: False
        then show ?thesis using frame [OF v'] len assms(2,3) False by (simp add: Let_def)
      qed
    next
      case (2 v)
      then have "frame_view v = ([0..<Suc ?n], ls_skip u)" using nums by simp
      then show ?case by (rule numbered_viewI) (use assms(2) in simp)
    qed
    moreover have "added N c u True (add_frame c u)"
      by (rule frame [where k = ?n and sk = "ls_skip u"]) (use assms False in \<open>simp_all add: frame_view_def numbered_def\<close>)
    ultimately show ?thesis using False by (simp add: add_frames_def)
  qed
qed

section \<open>The rest of the turn\<close>

lemma after_step_view:
  "(has_frame c \<Longrightarrow> uw_frames u \<noteq> []) \<Longrightarrow>
    out_post (\<lambda>_ v. frame_view v = frame_view u) (\<lambda>v. frame_view v = frame_view u) (after_step c e stepped fin sig u)"
  by (auto simp: after_step_def Let_def view_update_last)

lemma frames_view: "frame_view v = frame_view u \<Longrightarrow> uw_frames v = [] \<longleftrightarrow> uw_frames u = []"
  unfolding frame_view_def by (metis Nil_is_map_conv prod.inject)

lemma step_elf_view:
  assumes "has_frame c \<Longrightarrow> uw_frames u \<noteq> []"
  shows "keeps_view u (step_elf cfg c e u)"
proof -
  have step: "out_post (\<lambda>_ v. frame_view v = frame_view u) (\<lambda>v. frame_view v = frame_view u) (after_step c e s f g v)"
    if "frame_view v = frame_view u" for s f g v
    using after_step_view [of c v e s f g] assms frames_view [OF that] that by simp
  show ?thesis
  proof (cases "Elf_StepIfSignalHandler (ue_junk (uc_env cfg)) (fc_rel_pc c) (ue_memory (uc_env cfg)) (elf_at e (uw_world u)) (uw_machine u)")
    case (Ok x m)
    then show ?thesis using step [of "u\<lparr>uw_machine := m\<rparr>"] by (simp add: step_elf_def)
  next
    case (Fail m)
    then show ?thesis
      using step
      by (cases "Elf_Step (uc_env cfg) (fc_step_pc c) (m, False, elf_at e (uw_world u))")
        (auto simp: step_elf_def Let_def split: outcome.splits prod.splits)
  qed (simp_all add: step_elf_def)
qed

lemma try_step_view:
  assumes "has_frame c \<Longrightarrow> uw_frames u \<noteq> []"
  shows "keeps_view u (try_step cfg c u)"
proof (cases "fc_map c")
  case None
  then show ?thesis by (simp add: try_step_def)
next
  case (Some p)
  have "keeps_view u (bind_opt (find_map cfg {p} (machine_sp (uw_machine u)) u) (\<lambda>sp_info u.
      if (case sp_info of None \<Rightarrow> False | Some q \<Rightarrow> is_device q u) then Some (Ok r u)
      else case fc_elf c of None \<Rightarrow> Some (Undef UB_Null) | Some e \<Rightarrow> step_elf cfg c e u))" for r
  proof (rule view_bind [OF find_map_view], goal_cases)
    case (1 q v)
    with assms frames_view [OF 1] have "has_frame c \<Longrightarrow> uw_frames v \<noteq> []" by simp
    then have "keeps_view u (step_elf cfg c e v)" for e using step_elf_view [of c v cfg e] 1 by simp
    with 1 show ?case by (auto split: option.split)
  qed
  with Some show ?thesis by (simp add: try_step_def Let_def)
qed

lemma name_frame_view:
  assumes "has_frame c \<Longrightarrow> uw_frames u \<noteq> []"
  shows "keeps_view u (name_frame cfg c pc u)"
proof (cases "\<not> has_frame c \<or> \<not> uc_resolve_names cfg \<or> fc_elf c = None")
  case True
  then show ?thesis using assms by (auto simp: name_frame_def view_update_last split: option.split)
next
  case False
  then obtain e where e: "fc_elf c = Some e" by auto
  have put: "frame_view (update_last_frame (\<lambda>f. f\<lparr>fr_function_name := n, fr_function_offset := x\<rparr>) v) = frame_view u"
    if "frame_view v = frame_view u" for v n x
    using view_update_last [of v] frames_view [OF that] that False assms by simp
  show ?thesis
    using False e put on_world_view [of u "on_elf e (Elf_GetFunctionName pc)"]
    by (cases "on_world (on_elf e (Elf_GetFunctionName pc)) u")
      (auto simp: name_frame_def split: outcome.splits prod.splits)
qed

text \<open>The last part may take the last frame away, but then the loop ends.\<close>

definition rest_post :: "nat \<Rightarrow> loop_state \<Rightarrow> bool \<Rightarrow> loop_state \<Rightarrow> bool" where
  "rest_post N u again v \<longleftrightarrow> numbered N v \<and> (again \<longrightarrow> frame_view v = frame_view u)"

lemma numbered_butlast: "numbered N u \<Longrightarrow> numbered N (u\<lparr>uw_frames := butlast (uw_frames u)\<rparr>)"
  by (cases "uw_frames u" rule: rev_cases) (auto simp: numbered_def)

lemma drop_speculative_view:
  assumes "numbered N u"
  shows "opt_post (rest_post N u) (numbered N) (drop_speculative cfg locals u)"
proof -
  have "opt_post (rest_post N u) (numbered N) (bind_opt (find_map cfg locals pc u) (\<lambda>m u.
      Some (Ok False (if m \<noteq> None then u\<lparr>uw_frames := butlast (uw_frames u)\<rparr> else u))))" for pc
  proof (rule view_bind [OF find_map_view], goal_cases)
    case (1 m v)
    then have "numbered N v" using assms numbered_view [OF 1] by simp
    with numbered_butlast [OF this] show ?case by (simp add: rest_post_def)
  next
    case (2 v)
    with assms numbered_view [OF 2] show ?case by simp
  qed
  then show ?thesis
    using assms numbered_butlast by (auto simp: drop_speculative_def Let_def rest_post_def)
qed

lemma not_stepped_view:
  assumes "numbered N u"
  shows "opt_post (rest_post N u) (numbered N) (not_stepped cfg locals device u)"
proof -
  have "rest_post N u b (u\<lparr>uw_machine := m\<rparr>)" "rest_post N u b (u\<lparr>uw_machine := m, ls_return_attempt := a\<rparr>)" for a b m
    using assms by (simp_all add: rest_post_def numbered_def)
  moreover have "rest_post N u False u" using assms by (simp add: rest_post_def)
  ultimately show ?thesis
    using drop_speculative_view [OF assms, of cfg locals]
    by (auto simp: not_stepped_def Let_def split: outcome.split)
qed

lemma check_progress_view: "numbered N u \<Longrightarrow> frame_view u = frame_view t \<Longrightarrow>
    opt_post (rest_post N t) (numbered N) (check_progress pc sp u)"
  by (simp add: check_progress_def rest_post_def numbered_def set_error_code_def frame_view_def)

lemma go_on_view:
  assumes "numbered N u"
  shows "opt_post (rest_post N u) (numbered N) (go_on cfg c r pc sp u)"
proof -
  have on: "frame_view (stepped_on cfg u) = frame_view u" by (simp add: stepped_on_def Let_def)
  have "opt_post (rest_post N u) (numbered N) (bind_opt (not_stepped cfg (map_local c) (sr_device r) u) (\<lambda>again u.
      if again then check_progress pc sp u else Some (Ok False u)))"
    by (rule opt_post_bind, rule opt_post_mono [OF not_stepped_view [OF assms]])
      (auto simp: rest_post_def intro: check_progress_view)
  moreover have "opt_post (rest_post N u) (numbered N) (check_progress pc sp (stepped_on cfg u))"
    using assms on numbered_view [OF on] by (intro check_progress_view) auto
  ultimately show ?thesis using assms by (auto simp: go_on_def rest_post_def)
qed

text \<open>A turn keeps the numbering and the bound; unless it ends the loop it adds a frame, when no frames are skipped.\<close>

definition turn_post :: "nat \<Rightarrow> loop_state \<Rightarrow> bool \<Rightarrow> loop_state \<Rightarrow> bool" where
  "turn_post N u again v \<longleftrightarrow> numbered N v \<and>
     (again \<longrightarrow> ls_skip u = None \<longrightarrow> ls_skip v = None \<and> length (uw_frames u) < length (uw_frames v))"

lemma turn_view:
  assumes "numbered (uc_max_frames cfg) u" and "length (uw_frames u) < uc_max_frames cfg"
  shows "opt_post (turn_post (uc_max_frames cfg) u) (numbered (uc_max_frames cfg)) (turn cfg suffixes u)"
proof -
  let ?N = "uc_max_frames cfg"
  have rest: "opt_post (turn_post ?N u) (numbered ?N) (bind_opt (try_step cfg c w) (\<lambda>r x.
      bind_opt (name_frame cfg c (sr_step_pc r) x) (\<lambda>_ y. go_on cfg c r pc sp y)))"
    if w: "added ?N c v True w" and v: "frame_view v = frame_view u" "ls_skip u = None \<longrightarrow> \<not> fc_ignore c" for c v w pc sp
  proof -
    have num: "numbered ?N w" using w by (simp add: added_def)
    have len: "length (uw_frames v) = length (uw_frames u)" using view_length [OF v(1)] .
    have ne: "has_frame c \<Longrightarrow> uw_frames w \<noteq> []" using w by (auto simp: added_def has_frame_def)
    have go: "opt_post (turn_post ?N u) (numbered ?N) (go_on cfg c r pc sp y)" if y: "frame_view y = frame_view w" for r y
    proof (rule opt_post_mono [OF go_on_view [of ?N y]])
      show "numbered ?N y" using num numbered_view [OF y] by simp
      fix b z assume z: "rest_post ?N y b z"
      show "turn_post ?N u b z"
      proof (cases b)
        case False
        with z show ?thesis by (simp add: rest_post_def turn_post_def)
      next
        case True
        with z have zw: "frame_view z = frame_view w" using y by (simp add: rest_post_def)
        have "ls_skip z = ls_skip w" using zw by (simp add: frame_view_def)
        with z w v(2) len view_length [OF zw] show ?thesis
          by (auto simp: rest_post_def turn_post_def added_def)
      qed
    qed
    have keep: "numbered ?N x" if "frame_view x = frame_view w" for x using num numbered_view [OF that] by simp
    show ?thesis
    proof (rule view_bind [OF try_step_view [OF ne]], goal_cases)
      case (2 r x)
      then have "has_frame c \<Longrightarrow> uw_frames x \<noteq> []" using ne frames_view [OF 2] by simp
      then show ?case
        by (rule view_bind [OF name_frame_view]) (use 2 go keep in auto)
    qed (use keep ne in auto)
  qed
  show ?thesis
    unfolding turn_def Let_def
  proof (rule opt_post_bind, rule opt_post_mono [OF locate_view], goal_cases)
    case (1 ctx v)
    then have v: "frame_view v = frame_view u" by (simp add: locate_post_def)
    have num: "numbered ?N v" using assms(1) numbered_view [OF v] by simp
    show ?case
    proof (cases ctx)
      case None
      with num show ?thesis by (simp add: turn_post_def)
    next
      case (Some c)
      with 1 have ignore: "ls_skip u = None \<longrightarrow> \<not> fc_ignore c" by (simp add: locate_post_def)
      have "opt_post (turn_post ?N u) (numbered ?N) (bind_opt (add_frames cfg c v) (\<lambda>again w.
          if \<not> again then Some (Ok False w)
          else bind_opt (try_step cfg c w) (\<lambda>r x. bind_opt (name_frame cfg c (sr_step_pc r) x) (\<lambda>_ y. go_on cfg c r pc sp y))))" for pc sp
      proof (rule opt_post_bind, rule opt_post_mono [OF add_frames_view [OF _ _ refl]], goal_cases)
        case (3 b w)
        then show ?case using rest [OF _ v ignore] by (cases b) (auto simp: turn_post_def added_def)
      qed (use num assms view_length [OF v] in auto)
      with Some show ?thesis by simp
    qed
  next
    case (2 v)
    then show ?case using assms(1) numbered_view by blast
  qed
qed

section \<open>The loop\<close>

lemma unwind_loop_numbered:
  assumes "unwind_loop cfg suffixes u = Some r" and "numbered (uc_max_frames cfg) u"
  shows "out_states (numbered (uc_max_frames cfg)) r"
proof -
  let ?P = "\<lambda>cfg suffixes u r. numbered (uc_max_frames cfg) u \<longrightarrow> out_states (numbered (uc_max_frames cfg)) r"
  have "?P cfg suffixes u r"
  proof (rule unwind_loop.raw_induct [where P = ?P, OF _ assms(1)])
    fix loop cfg and suffixes :: "string list option" and u r
    assume IH: "\<And>cfg suffixes u r. loop cfg suffixes u = Some r \<Longrightarrow> ?P cfg suffixes u r"
      and run: "(if length (uw_frames u) < uc_max_frames cfg then
        Option.bind (turn cfg suffixes u) (\<lambda>r.
          case r of
            Ok again u \<Rightarrow> if again then loop cfg suffixes u else Some (Ok () u)
          | Fail u \<Rightarrow> Some (Fail u) | Abort \<Rightarrow> Some Abort | Undef k \<Rightarrow> Some (Undef k))
      else Some (Ok () u)) = Some r"
    show "?P cfg suffixes u r"
    proof (rule impI, cases "length (uw_frames u) < uc_max_frames cfg")
      case False
      assume "numbered (uc_max_frames cfg) u"
      with False run show "out_states (numbered (uc_max_frames cfg)) r" by auto
    next
      case True
      assume num: "numbered (uc_max_frames cfg) u"
      obtain t where t: "turn cfg suffixes u = Some t" using run True by (cases "turn cfg suffixes u") auto
      have post: "out_post (turn_post (uc_max_frames cfg) u) (numbered (uc_max_frames cfg)) t"
        using turn_view [OF num True, of suffixes] t by simp
      show "out_states (numbered (uc_max_frames cfg)) r"
      proof (cases t)
        case (Ok again v)
        with post have "numbered (uc_max_frames cfg) v" by (simp add: turn_post_def)
        then show ?thesis using run True t Ok IH [of cfg suffixes v r] by (cases again) auto
      qed (use run True t post in auto)
    qed
  qed
  with assms(2) show ?thesis by simp
qed

lemma prepare_frames: "opt_post (\<lambda>_ v. uw_frames v = []) (\<lambda>v. uw_frames v = []) (prepare cfg u)"
proof -
  have *: "opt_post (\<lambda>_ v. uw_frames v = uw_frames t) (\<lambda>v. uw_frames v = uw_frames t) (find_map cfg l pc t)" for l pc and t :: unwinder
    unfolding find_map_def on_world_def Let_def
    by (rule opt_post_map_state) (simp add: opt_post_def out_post_def split: option.split outcome.split)
  show ?thesis
    unfolding prepare_def Let_def
    by (rule opt_post_bind, rule opt_post_mono [OF *]) auto
qed

lemma start_loop_numbered: "uw_frames u = [] \<Longrightarrow> numbered N (start_loop skip u)"
  by (simp add: numbered_def start_loop_def unwinder.defs)

text \<open>
  C10. \<^verbatim>\<open>Unwind\<close> gives at most \<^verbatim>\<open>max_frames\<close> frames, numbered consecutively from 0. Frames for dex pcs count, and a speculative frame
  that is removed leaves no gap.
\<close>

theorem Unwind_frames_numbered:
  assumes "Unwind cfg initial_map_names_to_skip map_suffixes_to_ignore u = Some r"
  shows "out_states (\<lambda>v. length (uw_frames v) \<le> uc_max_frames cfg \<and> map fr_num (uw_frames v) = [0..<length (uw_frames v)]) r"
proof (cases "uc_arch cfg = ARCH_UNKNOWN")
  case True
  with assms show ?thesis by (auto simp: Unwind_def)
next
  case False
  obtain p where p: "prepare cfg u = Some p" using assms False by (cases "prepare cfg u") (auto simp: Unwind_def)
  show ?thesis
  proof (cases p)
    case (Ok x v)
    have "uw_frames v = []" using prepare_frames [of cfg u] p Ok by simp
    note num = start_loop_numbered [OF this, of "uc_max_frames cfg" initial_map_names_to_skip]
    obtain l where l: "unwind_loop cfg map_suffixes_to_ignore (start_loop initial_map_names_to_skip v) = Some l"
        "r = map_state unwinder.truncate unwinder.truncate l"
      using assms False p Ok by (auto simp: Unwind_def)
    from unwind_loop_numbered [OF l(1) num] l(2) show ?thesis by (cases l) (auto simp: numbered_def unwinder.defs)
  qed (use assms False p prepare_frames [of cfg u] in \<open>auto simp: Unwind_def\<close>)
qed

text \<open>The states the loop reaches.\<close>

inductive unwind_reaches :: "unwind_config \<Rightarrow> string list option \<Rightarrow> loop_state \<Rightarrow> loop_state \<Rightarrow> bool"
  for cfg suffixes u where
  reach_start: "unwind_reaches cfg suffixes u u"
| reach_turn: "unwind_reaches cfg suffixes u v \<Longrightarrow> length (uw_frames v) < uc_max_frames cfg \<Longrightarrow>
    turn cfg suffixes v = Some (Ok True w) \<Longrightarrow> unwind_reaches cfg suffixes u w"

lemma reaches_first:
  assumes "turn cfg suffixes u = Some (Ok True v)" and "length (uw_frames u) < uc_max_frames cfg"
    and "unwind_reaches cfg suffixes v w"
  shows "unwind_reaches cfg suffixes u w"
  using assms(3) by induction (use assms unwind_reaches.intros in blast)+

lemma unwind_loop_ends:
  assumes "numbered (uc_max_frames cfg) u" and "ls_skip u = None"
    and "\<And>v. unwind_reaches cfg suffixes u v \<Longrightarrow> length (uw_frames v) < uc_max_frames cfg \<Longrightarrow> turn cfg suffixes v \<noteq> None"
  shows "unwind_loop cfg suffixes u \<noteq> None"
  using assms
proof (induction "uc_max_frames cfg - length (uw_frames u)" arbitrary: u rule: less_induct)
  case less
  show ?case
  proof (cases "length (uw_frames u) < uc_max_frames cfg")
    case False
    then show ?thesis by (subst unwind_loop.simps) simp
  next
    case True
    then obtain t where t: "turn cfg suffixes u = Some t" using less.prems(3) reach_start by blast
    have post: "out_post (turn_post (uc_max_frames cfg) u) (numbered (uc_max_frames cfg)) t"
      using turn_view [OF less.prems(1) True, of suffixes] t by simp
    show ?thesis
    proof (cases "\<exists>v. t = Ok True v")
      case again: True
      then obtain v where v: "t = Ok True v" by blast
      with post less.prems(2) have "numbered (uc_max_frames cfg) v" "ls_skip v = None" "length (uw_frames u) < length (uw_frames v)"
        by (auto simp: turn_post_def)
      then have "unwind_loop cfg suffixes v \<noteq> None"
        using less.prems(3) reaches_first [OF _ True] t v True by (intro less.hyps) auto
      then show ?thesis using t v True by (subst unwind_loop.simps) simp
    next
      case False
      then show ?thesis using t True by (subst unwind_loop.simps) (auto split: outcome.split)
    qed
  qed
qed

text \<open>
  C11. With no names of maps to skip, \<^verbatim>\<open>Unwind\<close> returns: the loop can only run for ever inside one of its turns, and there are at most
  \<^verbatim>\<open>max_frames\<close> of them.
\<close>

theorem Unwind_returns:
  assumes "prepare cfg u = Some (Ok () v)"
    and "\<And>w. unwind_reaches cfg suffixes (start_loop None v) w \<Longrightarrow> length (uw_frames w) < uc_max_frames cfg \<Longrightarrow>
      turn cfg suffixes w \<noteq> None"
  shows "\<exists>r. Unwind cfg None suffixes u = Some r"
proof -
  have "uw_frames v = []" using prepare_frames [of cfg u] assms(1) by simp
  then have "unwind_loop cfg suffixes (start_loop None v) \<noteq> None"
    by (intro unwind_loop_ends start_loop_numbered assms(2)) (simp_all add: start_loop_def unwinder.defs loop_state.defs)
  then show ?thesis using assms(1) by (auto simp: Unwind_def)
qed

end
