(* ===== verification/Unwind_Ends.thy ===== *)
theory Unwind_Ends
  imports Unwind_Frames Dwarf_Step
begin

text \<open>
  How \<^verbatim>\<open>Unwinder::Unwind\<close> ends: a pc outside of every map, and a stack on which it does not end when frames are skipped.
\<close>

section \<open>A pc in no map\<close>

definition unmapped_frame :: "nat \<Rightarrow> machine \<Rightarrow> FrameData" where
  "unmapped_frame n m =
     FrameData_new\<lparr>fr_num := n, fr_sp := machine_sp m, fr_rel_pc := machine_pc m, fr_pc := machine_pc m\<rparr>"

definition finds_nothing :: "unwind_config \<Rightarrow> world \<Rightarrow> bool" where
  "finds_nothing cfg w \<longleftrightarrow> (\<forall>held pc. uc_find cfg held pc (w_maps w) = Some (Ok None (w_maps w)))"

lemma find_map_nothing: "finds_nothing cfg (uw_world u) \<Longrightarrow> find_map cfg locals pc u = Some (Ok None u)"
  by (simp add: finds_nothing_def find_map_def on_world_def Let_def)

text \<open>A turn at such a pc, without a dex pc: the frame, and the return address as the next pc.\<close>

definition unmapped_state :: "loop_state \<Rightarrow> loop_state" where
  "unmapped_state u = add_frame (fst (no_map u)) (snd (no_map u))"

lemma unmapped_state_simps [simp]:
  "uw_frames (unmapped_state u) = uw_frames u @ [unmapped_frame (length (uw_frames u)) (uw_machine u)]"
  "uw_machine (unmapped_state u) = uw_machine u" "uw_world (unmapped_state u) = uw_world u"
  "ls_return_attempt (unmapped_state u) = ls_return_attempt u"
  "uw_error (unmapped_state u) =
     (if \<not> ls_return_attempt u \<or> ed_code (uw_error u) = ERROR_NONE
      then \<lparr>ed_code = ERROR_INVALID_MAP, ed_address = machine_pc (uw_machine u)\<rparr> else uw_error u)"
  by (simp_all add: unmapped_state_def no_map_def add_frame_def FillInFrame_def unmapped_frame_def FrameData_new_def Let_def)

lemma turn_unmapped:
  fixes u :: loop_state
  assumes "finds_nothing cfg (uw_world u)" and "machine_dex_pc (uw_machine u) = 0"
  shows "turn cfg suffixes u =
    bind_opt (not_stepped cfg {} False (unmapped_state u)) (\<lambda>again v.
      if again then check_progress (machine_pc (uw_machine u)) (machine_sp (uw_machine u)) v else Some (Ok False v))"
proof -
  obtain c v where cv: "no_map u = (c, v)" by fastforce
  then have c: "fc_map c = None" "\<not> fc_ignore c" "uw_machine v = uw_machine u" by (auto simp: no_map_def Let_def)
  then show ?thesis
    using assms cv
    by (simp add: turn_def locate_def find_map_nothing add_frames_def try_step_def name_frame_def has_frame_def go_on_def map_local_def
        unmapped_state_def Let_def)
qed

lemma SetPc_dex_pc: "machine_SetPcFromReturnAddress mem m = Ok x m' \<Longrightarrow> machine_dex_pc m' = machine_dex_pc m"
  by (cases m) (auto simp: SetPcFromReturnAddress_def Let_def put_reg_def split: option.splits if_splits)

lemma SetPc_total:
  "machine_SetPcFromReturnAddress mem m \<noteq> Undef k" "machine_SetPcFromReturnAddress mem m \<noteq> Abort"
  by (cases m; simp add: SetPcFromReturnAddress_def Let_def split: option.split)+

lemma unwind_loop_turn:
  "length (uw_frames u) < uc_max_frames cfg \<Longrightarrow> turn cfg suffixes u = Some (Ok False v) \<Longrightarrow> unwind_loop cfg suffixes u = Some (Ok () v)"
  "length (uw_frames u) < uc_max_frames cfg \<Longrightarrow> turn cfg suffixes u = Some (Ok True v) \<Longrightarrow>
    unwind_loop cfg suffixes u = unwind_loop cfg suffixes v"
  "\<not> length (uw_frames u) < uc_max_frames cfg \<Longrightarrow> unwind_loop cfg suffixes u = Some (Ok () u)"
  by (subst unwind_loop.simps, simp)+

text \<open>The frames of such a stack: one, and a second one if the return address leads somewhere else.\<close>

definition unmapped_frames :: "unwind_config \<Rightarrow> machine \<Rightarrow> FrameData list" where
  "unmapped_frames cfg m =
     (case machine_SetPcFromReturnAddress (ue_memory (uc_env cfg)) m of
        Ok _ m' \<Rightarrow>
          if machine_pc m' = machine_pc m \<and> machine_sp m' = machine_sp m \<or> uc_max_frames cfg = 1 then [unmapped_frame 0 m]
          else [unmapped_frame 0 m, unmapped_frame 1 m']
      | _ \<Rightarrow> [unmapped_frame 0 m])"

lemma unmapped_second_turn:
  fixes v :: loop_state
  assumes "finds_nothing cfg (uw_world v)" "machine_dex_pc (uw_machine v) = 0" "ls_return_attempt v" "uw_frames v = [f]"
    "ed_code (uw_error v) \<noteq> ERROR_NONE"
  shows "\<exists>w. turn cfg suffixes v = Some (Ok False w) \<and> uw_frames w = [f, unmapped_frame 1 (uw_machine v)] \<and>
    uw_error w = uw_error v"
  using assms
  by (simp add: turn_unmapped not_stepped_def drop_speculative_def find_map_nothing Let_def)

lemma unwind_loop_unmapped:
  fixes u :: loop_state
  assumes empty: "finds_nothing cfg (uw_world u)" and dex: "machine_dex_pc (uw_machine u) = 0"
    and start: "uw_frames u = []" "\<not> ls_return_attempt u" "0 < uc_max_frames cfg"
  shows "\<exists>v. unwind_loop cfg suffixes u = Some (Ok () v) \<and> uw_frames v = unmapped_frames cfg (uw_machine u) \<and>
    ed_code (uw_error v) \<in> {ERROR_INVALID_MAP, ERROR_REPEATED_FRAME} \<and> ed_address (uw_error v) = machine_pc (uw_machine u)"
proof -
  let ?m = "uw_machine u" and ?v = "unmapped_state u"
  have turn: "turn cfg suffixes u = bind_opt (not_stepped cfg {} False ?v) (\<lambda>again v.
      if again then check_progress (machine_pc ?m) (machine_sp ?m) v else Some (Ok False v))"
    using turn_unmapped empty dex by blast
  show ?thesis
  proof (cases "machine_SetPcFromReturnAddress (ue_memory (uc_env cfg)) ?m")
    case (Fail m)
    then have "turn cfg suffixes u = Some (Ok False (?v\<lparr>uw_machine := m\<rparr>))"
      using start turn by (simp add: not_stepped_def Let_def)
    then show ?thesis using start Fail by (simp add: unwind_loop_turn(1) unmapped_frames_def)
  next
    case (Ok x m)
    let ?w = "?v\<lparr>uw_machine := m, ls_return_attempt := True\<rparr>"
    have turn1: "turn cfg suffixes u = check_progress (machine_pc ?m) (machine_sp ?m) ?w"
      using Ok start turn by (simp add: not_stepped_def Let_def)
    show ?thesis
    proof (cases "machine_pc m = machine_pc ?m \<and> machine_sp m = machine_sp ?m")
      case True
      then have "turn cfg suffixes u = Some (Ok False (set_error_code ERROR_REPEATED_FRAME ?w))"
        using turn1 by (auto simp: check_progress_def)
      then show ?thesis using start Ok True by (simp add: unwind_loop_turn(1) unmapped_frames_def set_error_code_def)
    next
      case False
      then have go: "turn cfg suffixes u = Some (Ok True ?w)" using turn1 by (auto simp: check_progress_def)
      have next_turn: "\<exists>z. turn cfg suffixes ?w = Some (Ok False z) \<and> uw_frames z = [unmapped_frame 0 ?m, unmapped_frame 1 (uw_machine ?w)] \<and>
          uw_error z = uw_error ?w"
        by (rule unmapped_second_turn) (use empty dex start SetPc_dex_pc [OF Ok] in simp_all)
      show ?thesis
      proof (cases "uc_max_frames cfg = 1")
        case True
        then have "unwind_loop cfg suffixes u = Some (Ok () ?w)" using start go by (simp add: unwind_loop_turn)
        then show ?thesis using start Ok True by (simp add: unmapped_frames_def)
      next
        case more: False
        obtain z where z: "turn cfg suffixes ?w = Some (Ok False z)" "uw_frames z = [unmapped_frame 0 ?m, unmapped_frame 1 m]"
            "uw_error z = uw_error ?w" using next_turn by auto
        have "unwind_loop cfg suffixes u = unwind_loop cfg suffixes ?w" using start go by (simp add: unwind_loop_turn(2))
        also have "\<dots> = Some (Ok () z)" using z(1) start more by (intro unwind_loop_turn(1)) simp_all
        finally show ?thesis using z start Ok more False by (auto simp: unmapped_frames_def)
      qed
    qed
  qed (simp_all add: SetPc_total)
qed

lemma unmapped_unwinds:
  assumes "uc_arch cfg \<noteq> ARCH_UNKNOWN" and "0 < uc_max_frames cfg" and "finds_nothing cfg (uw_world u)"
    and "machine_dex_pc (machine_fallback_pc (uw_machine u)) = 0"
  shows "\<exists>v. Unwind cfg skip suffixes u = Some (Ok () v) \<and>
    uw_frames v = unmapped_frames cfg (machine_fallback_pc (uw_machine u)) \<and>
    ed_code (uw_error v) \<in> {ERROR_INVALID_MAP, ERROR_REPEATED_FRAME} \<and>
    ed_address (uw_error v) = machine_pc (machine_fallback_pc (uw_machine u))"
proof -
  let ?u = "(ClearErrors u)\<lparr>uw_frames := [], uw_machine := machine_fallback_pc (uw_machine u)\<rparr>"
  have prep: "prepare cfg u = Some (Ok () ?u)"
    using assms(3) by (simp add: prepare_def find_map_nothing ClearErrors_def Let_def)
  let ?l = "start_loop skip ?u"
  have l: "uw_world ?l = uw_world u" "uw_machine ?l = machine_fallback_pc (uw_machine u)" "uw_frames ?l = []" "\<not> ls_return_attempt ?l"
    by (simp_all add: start_loop_def unwinder.defs loop_state.defs ClearErrors_def)
  obtain v where v: "unwind_loop cfg suffixes ?l = Some (Ok () v)" "uw_frames v = unmapped_frames cfg (uw_machine ?l)"
      "ed_code (uw_error v) \<in> {ERROR_INVALID_MAP, ERROR_REPEATED_FRAME}" "ed_address (uw_error v) = machine_pc (uw_machine ?l)"
    using unwind_loop_unmapped [of cfg ?l suffixes] l assms by auto
  then show ?thesis
    using assms(1) prep l(2) by (auto simp: Unwind_def unwinder.defs)
qed


section \<open>A stack without maps\<close>

definition zero_env :: "reader \<Rightarrow> unwind_env" where
  "zero_env mem = \<lparr>ue_memory = mem, ue_cur_op = 0, ue_saved32 = [], ue_saved64 = [], ue_junk = 0, ue_order = small_order\<rparr>"

definition plain_config :: "nat \<Rightarrow> reader \<Rightarrow> unwind_config" where
  "plain_config n mem =
     \<lparr>uc_max_frames = n, uc_arch = ARCH_ARM64, uc_resolve_names = False, uc_env = zero_env mem, uc_files = no_files,
      uc_xz = (\<lambda>_ _ _. None), uc_elf_junk = zero_junk, uc_held = {}, uc_find = plain_find, uc_jit = None, uc_dex = None\<rparr>"

definition new_unwinder :: "machine \<Rightarrow> world \<Rightarrow> unwinder" where
  "new_unwinder m w =
     \<lparr>uw_machine = m, uw_frames = [], uw_error = \<lparr>ed_code = ERROR_NONE, ed_address = 0\<rparr>, uw_warnings = 0, uw_world = w\<rparr>"

definition empty_world :: world where
  "empty_world = \<lparr>w_maps = Maps_new, w_elfs = [], w_cache = Map.empty, w_cache_enabled = False, w_jit = jit_new\<rparr>"

definition lost_thread :: unwinder where
  "lost_thread = new_unwinder (R64 ((zero_regs ARCH_ARM64)\<lparr>mr_regs := replicate 30 0 @ [0x5000, 0x8000, 0x4000, 0]\<rparr>)) empty_world"

lemma empty_finds_nothing: "finds_nothing (plain_config n mem) (uw_world lost_thread)"
  by (simp add: finds_nothing_def plain_config_def plain_find_def Maps_Find_def lost_thread_def new_unwinder_def empty_world_def Maps_new_def)

lemma lost_machine:
  "machine_fallback_pc (uw_machine lost_thread) = uw_machine lost_thread" "machine_dex_pc (uw_machine lost_thread) = 0"
  "machine_pc (uw_machine lost_thread) = 0x4000"
  by (simp_all add: lost_thread_def new_unwinder_def fallback_pc_def strip_pac_def set_pc_def zero_regs_def regs_pc_def put_reg_def nth_append list_update_append)


lemma Unwind_frames_numbered_witness:
  "\<exists>v. Unwind (plain_config 8 zero_memory) None None lost_thread = Some (Ok () v) \<and> map fr_num (uw_frames v) = [0..<length (uw_frames v)]"
proof -
  obtain v where v: "Unwind (plain_config 8 zero_memory) None None lost_thread = Some (Ok () v)"
    using unmapped_unwinds [OF _ _ empty_finds_nothing, of 8 zero_memory None None] lost_machine by (auto simp: plain_config_def)
  with Unwind_frames_numbered [OF v] show ?thesis by simp
qed

lemma reaches_past_first:
  assumes "unwind_reaches cfg suffixes u v" and "numbered (uc_max_frames cfg) u" and "ls_skip u = None"
  shows "numbered (uc_max_frames cfg) v \<and> ls_skip v = None \<and> (v = u \<or> length (uw_frames u) < length (uw_frames v))"
  using assms(1)
proof induction
  case reach_start
  with assms show ?case by simp
next
  case (reach_turn v w)
  then show ?case using turn_view [of cfg v suffixes] by (auto simp: turn_post_def)
qed

lemma turn_unmapped_returns:
  fixes u :: loop_state
  assumes "finds_nothing cfg (uw_world u)" and "machine_dex_pc (uw_machine u) = 0"
  shows "turn cfg suffixes u \<noteq> None"
  using assms
  by (cases "ls_return_attempt u")
    (auto simp: turn_unmapped not_stepped_def drop_speculative_def check_progress_def find_map_nothing Let_def split: outcome.split)

lemma Unwind_returns_witness: "\<exists>r. Unwind (plain_config 1 zero_memory) None None lost_thread = Some r"
proof -
  let ?cfg = "plain_config 1 zero_memory"
  let ?v = "(ClearErrors lost_thread)\<lparr>uw_frames := [], uw_machine := machine_fallback_pc (uw_machine lost_thread)\<rparr>"
  have prep: "prepare ?cfg lost_thread = Some (Ok () ?v)"
    using empty_finds_nothing by (simp add: prepare_def find_map_nothing ClearErrors_def Let_def)
  let ?l = "start_loop None ?v"
  have l: "finds_nothing ?cfg (uw_world ?l)" "machine_dex_pc (uw_machine ?l) = 0" "ls_skip ?l = None" "uw_frames ?v = []"
    using empty_finds_nothing lost_machine by (simp_all add: start_loop_def unwinder.defs loop_state.defs ClearErrors_def)
  have "turn ?cfg None ?l \<noteq> None"
    by (rule turn_unmapped_returns [OF l(1,2)])
  moreover have "w = ?l" if "unwind_reaches ?cfg None ?l w" "length (uw_frames w) < uc_max_frames ?cfg" for w
    using reaches_past_first [OF that(1) start_loop_numbered [OF l(4)] l(3)] that(2) by (auto simp: plain_config_def)
  ultimately show ?thesis by (intro Unwind_returns [OF prep]) blast
qed

section \<open>Skipped frames are not counted\<close>

lemma unwind_loop_diverges:
  assumes stay: "\<And>u. Q u \<Longrightarrow> length (uw_frames u) < uc_max_frames cfg \<and> (\<exists>v. turn cfg suffixes u = Some (Ok True v) \<and> Q v)"
    and "Q u"
  shows "unwind_loop cfg suffixes u = None"
proof (rule ccontr)
  let ?P = "\<lambda>cfg' suffixes' u r. cfg' = cfg \<longrightarrow> suffixes' = suffixes \<longrightarrow> \<not> Q u"
  assume "unwind_loop cfg suffixes u \<noteq> None"
  then obtain r where r: "unwind_loop cfg suffixes u = Some r" by blast
  have "?P cfg suffixes u r"
  proof (rule unwind_loop.raw_induct [where P = ?P, OF _ r])
    fix loop cfg' and suffixes' :: "string list option" and u r
    assume IH: "\<And>cfg' suffixes' u r. loop cfg' suffixes' u = Some r \<Longrightarrow> ?P cfg' suffixes' u r"
      and run: "(if length (uw_frames u) < uc_max_frames cfg' then
        Option.bind (turn cfg' suffixes' u) (\<lambda>r.
          case r of
            Ok again u \<Rightarrow> if again then loop cfg' suffixes' u else Some (Ok () u)
          | Fail u \<Rightarrow> Some (Fail u) | Abort \<Rightarrow> Some Abort | Undef k \<Rightarrow> Some (Undef k))
      else Some (Ok () u)) = Some r"
    show "?P cfg' suffixes' u r"
    proof (intro impI notI)
      assume eq: "cfg' = cfg" "suffixes' = suffixes" and Q: "Q u"
      obtain v where v: "turn cfg suffixes u = Some (Ok True v)" "Q v" "length (uw_frames u) < uc_max_frames cfg"
        using stay [OF Q] by blast
      then have "loop cfg suffixes v = Some r" using run eq by simp
      with IH [OF this] v(2) show False by simp
    qed
  qed
  with assms(2) show False by simp
qed

text \<open>
  A library with a signal trampoline at its start, and a stack with two signal frames: each one restores the pc in the trampoline and the
  stack pointer of the other.
\<close>

definition ring_regs :: "u64 \<Rightarrow> u64 mregs" where
  "ring_regs sp = (zero_regs ARCH_ARM64)\<lparr>mr_regs := replicate 31 0 @ [sp, 0x1000, 0]\<rparr>"

definition ring_memory :: reader where
  "ring_memory addr n =
     (if addr = 0x8138 then take n (words_bytes (mr_regs (ring_regs 0x9000)))
      else if addr = 0x9138 then take n (words_bytes (mr_regs (ring_regs 0x8000))) else [])"

definition ring_code :: reader where
  "ring_code addr n = (if addr = 0 then take n (sigreturn_code ARCH_ARM64) else [])"

definition ring_elf :: elf where
  "ring_elf = (Elf_new zero_junk (Some ring_code))
     \<lparr>elf_valid := True, elf_iface := Some (Plain Elf64 ElfInterface_new), elf_arch := ARCH_ARM64\<rparr>"

definition ring_world :: world where
  "ring_world = \<lparr>w_maps = set_elf 0 (Some 0) (Maps_Add 0x1000 0x2000 0 5 ''/system/lib64/libskip.so'' Maps_new), w_elfs = [ring_elf],
     w_cache = Map.empty, w_cache_enabled = False, w_jit = jit_new\<rparr>"

definition ring_state :: "u64 \<Rightarrow> bool \<Rightarrow> loop_state" where
  "ring_state sp adj =
     (start_loop (Some [''libskip.so'']) (new_unwinder (R64 (ring_regs sp)) ring_world))\<lparr>ls_adjust_pc := adj\<rparr>"

lemma ring_finds:
  "plain_find held 0x1000 (w_maps ring_world) = Some (Ok (Some 0) (w_maps ring_world))"
  "plain_find held 0x8000 (w_maps ring_world) = Some (Ok None (w_maps ring_world))"
  "plain_find held 0x9000 (w_maps ring_world) = Some (Ok None (w_maps ring_world))"
proof -
  have "Maps_Find 0x1000 (w_maps ring_world) = Some (Ok (Some 0) ())" "Maps_Find 0x8000 (w_maps ring_world) = Some (Ok None ())"
    "Maps_Find 0x9000 (w_maps ring_world) = Some (Ok None ())"
    by code_simp+
  then show "plain_find held 0x1000 (w_maps ring_world) = Some (Ok (Some 0) (w_maps ring_world))"
    "plain_find held 0x8000 (w_maps ring_world) = Some (Ok None (w_maps ring_world))"
    "plain_find held 0x9000 (w_maps ring_world) = Some (Ok None (w_maps ring_world))"
    by (simp_all add: plain_find_def)
qed

lemma ring_signal:
  assumes "(sp, sp') \<in> {(0x8000, 0x9000), (0x9000, 0x8000)}"
  shows "RegsArm64_StepIfSignalHandler ring_code 0 ring_memory (ring_regs sp) = Ok () (ring_regs sp')"
proof -
  let ?r = "ring_regs sp'"
  have code: "Read64 ring_code 0 = Some 0xd4000001d2801168" by (simp add: Read64_def ReadFully_def ring_code_def le_word_def)
  have len: "length (mr_regs (ring_regs x)) = 34" for x by (simp add: ring_regs_def)
  have "ring_memory (sp + 0x138) (8 * 34) = words_bytes (mr_regs ?r)"
    using assms len by (auto simp: ring_memory_def)
  moreover have "overlay_regs (words_bytes (mr_regs ?r)) (mr_regs (ring_regs sp)) = mr_regs ?r"
    by (rule overlay_regs_words) (simp_all add: len)
  ultimately have "read_regs ring_memory (sp + 0x138) 34 (ring_regs sp) = Ok () ((ring_regs sp)\<lparr>mr_regs := mr_regs ?r\<rparr>)"
    using len by (simp add: read_regs_def)
  moreover have "(ring_regs sp)\<lparr>mr_regs := mr_regs ?r\<rparr> = ?r" "mr_regs (ring_regs sp) ! 31 = sp"
    by (simp_all add: ring_regs_def nth_append)
  ultimately show ?thesis using code by (simp add: RegsArm64_StepIfSignalHandler_def fail_unless_def add.assoc)
qed

lemma ring_simps [simp]:
  "uw_frames (ring_state sp adj) = []" "uw_world (ring_state sp adj) = ring_world" "uw_machine (ring_state sp adj) = R64 (ring_regs sp)"
  "ls_skip (ring_state sp adj) = Some [''libskip.so'']" "ls_return_attempt (ring_state sp adj) = False"
  "ls_adjust_pc (ring_state sp adj) = adj" "uw_error (ring_state sp adj) = \<lparr>ed_code = ERROR_NONE, ed_address = 0\<rparr>"
  by (simp_all add: ring_state_def start_loop_def new_unwinder_def unwinder.defs loop_state.defs)

lemma ring_pc [simp]: "regs_pc (ring_regs sp) = 0x1000" "regs_sp (ring_regs sp) = sp" "mr_arch (ring_regs sp) = ARCH_ARM64"
  by (simp_all add: ring_regs_def regs_pc_def regs_sp_def zero_regs_def nth_append)

lemma ring_map [simp]:
  "mi_name (map_at 0 ring_world) = ''/system/lib64/libskip.so''" "mi_flags (map_at 0 ring_world) = 5" "mi_start (map_at 0 ring_world) = 0x1000"
  "mi_elf (map_at 0 ring_world) = Some 0" "mi_elf_offset (map_at 0 ring_world) = 0" "elf_at 0 ring_world = ring_elf"
  by (simp_all add: map_at_def obj_at_def ring_world_def elf_at_def set_elf_def set_obj_def Maps_Add_def Maps_new_def MapInfo_Create_def
      MapInfo_new_def last_map_def)

lemma ring_elf_simps [simp]:
  "elf_valid ring_elf" "elf_load_bias ring_elf = 0" "elf_memory ring_elf = Some ring_code"
  "GetLastError ring_elf = \<lparr>ed_code = ERROR_NONE, ed_address = 0\<rparr>"
  by (simp_all add: ring_elf_def Elf_new_def GetLastError_def ElfInterface_new_def)

lemma ring_find_map:
  "pc \<in> {0x1000, 0x8000, 0x9000} \<Longrightarrow> uw_world u = ring_world \<Longrightarrow>
    find_map (plain_config n mem) locals pc u = Some (Ok (if pc = 0x1000 then Some 0 else None) u)"
  by (auto simp: find_map_def on_world_def plain_config_def ring_finds)

lemma ring_state_next:
  "(ring_state sp adj)\<lparr>ls_adjust_pc := True, uw_machine := R64 (ring_regs sp')\<rparr> = ring_state sp' True"
  by (simp add: ring_state_def start_loop_def new_unwinder_def unwinder.defs loop_state.defs)

lemma ring_locate:
  assumes "sp \<in> {0x8000, 0x9000}"
  shows "\<exists>c. locate (plain_config n ring_memory) None (ring_state sp adj) = Some (Ok (Some c) (ring_state sp adj)) \<and>
    fc_map c = Some 0 \<and> fc_elf c = Some 0 \<and> fc_rel_pc c = 0 \<and> fc_ignore c"
proof -
  have base: "Basename ''/system/lib64/libskip.so'' = ''libskip.so''" by (simp add: Basename_def)
  have find: "find_map (plain_config n ring_memory) {} 0x1000 (ring_state sp adj) = Some (Ok (Some 0) (ring_state sp adj))"
    by (simp add: ring_find_map)
  have elf: "on_world (GetElf fe xz junk held mem arch 0) (ring_state sp adj) = Some (Ok 0 (ring_state sp adj))" for fe xz junk held mem arch
    by (simp add: on_world_def GetElf_def)
  have jit: "uc_jit (plain_config n ring_memory) = None" by (simp add: plain_config_def)
  show ?thesis
    by (simp add: locate_def find elf base jit_elf_def jit ShouldStop_def GetRelPc_def Let_def)
qed

lemma ring_turn:
  assumes "(sp, sp') \<in> {(0x8000, 0x9000), (0x9000, 0x8000)}" and "0 < n"
  shows "turn (plain_config n ring_memory) None (ring_state sp adj) = Some (Ok True (ring_state sp' True))"
proof -
  obtain c where c: "locate (plain_config n ring_memory) None (ring_state sp adj) = Some (Ok (Some c) (ring_state sp adj))"
      "fc_map c = Some 0" "fc_elf c = Some 0" "fc_rel_pc c = 0" "fc_ignore c"
    using ring_locate [of sp n adj] assms(1) by auto
  let ?u = "(ring_state sp adj)\<lparr>ls_adjust_pc := True\<rparr>"
  have find: "find_map (plain_config n ring_memory) {0} sp ?u = Some (Ok None ?u)"
    using assms(1) by (auto simp: ring_find_map)
  have signal: "Elf_StepIfSignalHandler 0 0 ring_memory ring_elf (R64 (ring_regs sp)) = Ok () (R64 (ring_regs sp'))"
    using ring_signal [OF assms(1)] by (simp add: Elf_StepIfSignalHandler_def)
  have env: "uc_env (plain_config n ring_memory) = zero_env ring_memory" "uc_resolve_names (plain_config n ring_memory) = False"
    by (simp_all add: plain_config_def)
  have step: "step_elf (plain_config n ring_memory) c 0 ?u = Some (after_step c 0 True False True (ring_state sp' True))"
    using signal c(4) by (simp add: step_elf_def env zero_env_def ring_state_next)
  have attempt: "(ring_state sp' True)\<lparr>ls_return_attempt := False\<rparr> = ring_state sp' True"
    by (simp add: ring_state_def start_loop_def new_unwinder_def unwinder.defs loop_state.defs)
  have error: "(ring_state sp' True)\<lparr>uw_error := \<lparr>ed_code = ERROR_NONE, ed_address = 0\<rparr>\<rparr> = ring_state sp' True"
    by (simp add: ring_state_def start_loop_def new_unwinder_def unwinder.defs loop_state.defs)
  have "sp \<noteq> sp'" "uc_max_frames (plain_config n ring_memory) = n" using assms by (auto simp: plain_config_def)
  then show ?thesis
    using c find step error attempt assms(2)
    by (simp add: turn_def add_frames_def try_step_def is_device_def name_frame_def has_frame_def after_step_def go_on_def stepped_on_def
        check_progress_def Let_def)
qed

text \<open>
  C20. Frames in maps whose names are to be skipped are not counted, and only a step that changes nothing is taken as the end: on this stack,
  with two signal frames that restore each other, \<^verbatim>\<open>Unwind\<close> never returns, whatever the limit on the number of frames.
\<close>

theorem Unwind_skip_diverges:
  "Unwind (plain_config (Suc n) ring_memory) (Some [''libskip.so'']) None (new_unwinder (R64 (ring_regs 0x8000)) ring_world) = None"
proof -
  let ?cfg = "plain_config (Suc n) ring_memory" and ?u = "new_unwinder (R64 (ring_regs 0x8000)) ring_world"
  have "ClearErrors ?u\<lparr>uw_frames := []\<rparr> = ?u" by (simp add: ClearErrors_def new_unwinder_def)
  moreover have "find_map ?cfg {} 0x1000 ?u = Some (Ok (Some 0) ?u)" by (simp add: ring_find_map new_unwinder_def)
  moreover have "machine_pc (uw_machine ?u) = 0x1000" by (simp add: new_unwinder_def)
  ultimately have prep: "prepare ?cfg ?u = Some (Ok () ?u)" by (simp add: prepare_def Let_def)
  let ?Q = "\<lambda>v. \<exists>sp adj. v = ring_state sp adj \<and> sp \<in> {0x8000, 0x9000}"
  have "unwind_loop ?cfg None (ring_state 0x8000 False) = None"
  proof (rule unwind_loop_diverges [of ?Q])
    fix v assume "?Q v"
    then obtain sp adj where v: "v = ring_state sp adj" "sp \<in> {0x8000, 0x9000}" by blast
    then have "turn ?cfg None v = Some (Ok True (ring_state (if sp = 0x8000 then 0x9000 else 0x8000) True))"
      by (auto intro!: ring_turn)
    moreover have "length (uw_frames v) < uc_max_frames ?cfg" using v by (simp add: plain_config_def)
    ultimately show "length (uw_frames v) < uc_max_frames ?cfg \<and> (\<exists>w. turn ?cfg None v = Some (Ok True w) \<and> ?Q w)" by auto
  qed blast
  moreover have "start_loop (Some [''libskip.so'']) ?u = ring_state 0x8000 False"
    by (simp add: ring_state_def start_loop_def unwinder.defs loop_state.defs)
  moreover have "uc_arch ?cfg \<noteq> ARCH_UNKNOWN" by (simp add: plain_config_def)
  ultimately show ?thesis using prep by (simp add: Unwind_def)
qed

section \<open>A process whose maps cannot be read\<close>

lemma UnwinderFromPid_failed:
  assumes "uc_arch cfg \<noteq> ARCH_UNKNOWN" and "\<not> pu_initted s" and "\<not> pu_has_maps s"
  shows "\<exists>t. UnwinderFromPid_Unwind cfg es False skip suffixes s = Some (Ok () t) \<and> pu_initted t \<and> \<not> pu_has_maps t \<and>
    ed_code (uw_error (pu_unwinder t)) = ERROR_INVALID_MAP"
  using assms by (simp add: UnwinderFromPid_Unwind_def UnwinderFromPid_Init_def Maps_Parse_def set_error_code_def Let_def)

text \<open>
  C21. If the maps of the process cannot be parsed, \<^verbatim>\<open>UnwinderFromPid::Unwind\<close> reports ERROR_INVALID_MAP; but the object counts as initialised, and
  the next call goes on with the null pointer to the maps, whether they could be parsed now or not.
\<close>

theorem UnwinderFromPid_second_call:
  assumes "uc_arch cfg \<noteq> ARCH_UNKNOWN" and "\<not> pu_initted s" and "\<not> pu_has_maps s"
  shows "\<exists>t. UnwinderFromPid_Unwind cfg es False skip suffixes s = Some (Ok () t) \<and>
    ed_code (uw_error (pu_unwinder t)) = ERROR_INVALID_MAP \<and>
    (\<forall>es' ok skip' suffixes'. UnwinderFromPid_Unwind cfg es' ok skip' suffixes' t = Some (Undef UB_Null))"
proof -
  obtain t where t: "UnwinderFromPid_Unwind cfg es False skip suffixes s = Some (Ok () t)" "pu_initted t" "\<not> pu_has_maps t"
      "ed_code (uw_error (pu_unwinder t)) = ERROR_INVALID_MAP"
    using UnwinderFromPid_failed [OF assms] by blast
  then have "UnwinderFromPid_Unwind cfg es' ok skip' suffixes' t = Some (Undef UB_Null)" for es' ok skip' suffixes'
    using assms(1) by (simp add: UnwinderFromPid_Unwind_def UnwinderFromPid_Init_def)
  with t show ?thesis by blast
qed

lemma UnwinderFromPid_second_call_witness:
  "\<exists>t. UnwinderFromPid_Unwind (plain_config 8 zero_memory) [] True None None t = Some (Undef UB_Null)"
proof -
  let ?s = "\<lparr>pu_unwinder = lost_thread, pu_initted = False, pu_has_maps = False\<rparr>"
  have "uc_arch (plain_config 8 zero_memory) \<noteq> ARCH_UNKNOWN" "\<not> pu_initted ?s" "\<not> pu_has_maps ?s" by (simp_all add: plain_config_def)
  from UnwinderFromPid_second_call [OF this] show ?thesis by blast
qed

end
