(* ===== verification/Jit_Debug.thy ===== *)
theory Jit_Debug
  imports Unwinder
begin

text \<open>
  \<^verbatim>\<open>libunwindstack/GlobalDebugImpl.h\<close> and \<^verbatim>\<open>Global.cpp\<close>, for ELF files (\<^verbatim>\<open>JitDebug\<close>): finding the descriptor of the JIT, following its list of
  entries while the process may change it, and looking up the symbol file of a pc.

  The memory of the process is a sequence of memories: \<open>je_memory t\<close> is what the \<open>t\<close>-th read of the list sees. \<^verbatim>\<open>GetElf\<close>, called to find the
  descriptor, reads one of them.
\<close>

section \<open>Layout\<close>

datatype jit_layout = Packed32 | Aligned32 | Layout64

primrec ptr_size :: "jit_layout \<Rightarrow> nat" where
  "ptr_size Packed32 = 4" | "ptr_size Aligned32 = 4" | "ptr_size Layout64 = 8"

text \<open>Offsets in \<^verbatim>\<open>JITCodeEntry\<close>; \<^verbatim>\<open>next\<close> is at 0.\<close>

primrec symfile_size_offset :: "jit_layout \<Rightarrow> nat" where
  "symfile_size_offset Packed32 = 12" | "symfile_size_offset Aligned32 = 16" | "symfile_size_offset Layout64 = 24"

definition symfile_addr_offset :: "jit_layout \<Rightarrow> nat" where
  "symfile_addr_offset l = 2 * ptr_size l"

definition entry_size_v1 :: "jit_layout \<Rightarrow> nat" where
  "entry_size_v1 l = symfile_size_offset l + 8"

definition entry_seqlock_offset :: "jit_layout \<Rightarrow> nat" where
  "entry_seqlock_offset l = symfile_size_offset l + 16"

primrec entry_size_v2 :: "jit_layout \<Rightarrow> nat" where
  "entry_size_v2 Packed32 = 32" | "entry_size_v2 Aligned32 = 40" | "entry_size_v2 Layout64 = 48"

text \<open>Offsets in \<^verbatim>\<open>JITDescriptor\<close>; the version is at 0.\<close>

definition first_entry_offset :: "jit_layout \<Rightarrow> nat" where
  "first_entry_offset l = 8 + ptr_size l"

definition magic_offset :: "jit_layout \<Rightarrow> nat" where
  "magic_offset l = 8 + 2 * ptr_size l"

primrec descriptor_size_v2 :: "jit_layout \<Rightarrow> nat" where
  "descriptor_size_v2 Packed32 = 48" | "descriptor_size_v2 Aligned32 = 48" | "descriptor_size_v2 Layout64 = 56"

text \<open>\<^verbatim>\<open>CreateGlobalDebugImpl\<close>: the layout of an architecture, \<open>None\<close> where it aborts.\<close>

fun arch_layout :: "ArchEnum \<Rightarrow> jit_layout option" where
  "arch_layout ARCH_X86 = Some Packed32"
| "arch_layout ARCH_ARM = Some Aligned32"
| "arch_layout ARCH_MIPS = Some Aligned32"
| "arch_layout ARCH_ARM64 = Some Layout64"
| "arch_layout ARCH_X86_64 = Some Layout64"
| "arch_layout ARCH_MIPS64 = Some Layout64"
| "arch_layout ARCH_RISCV64 = Some Layout64"
| "arch_layout ARCH_UNKNOWN = None"

section \<open>Environment and reads\<close>

text \<open>\<open>je_alloc sz\<close> says whether \<^verbatim>\<open>realloc\<close> succeeds.\<close>

record jit_env =
  je_memory :: "nat \<Rightarrow> reader"
  je_arch :: ArchEnum
  je_layout :: jit_layout
  je_search_libs :: "string list"
  je_variable :: "u8 list"
  je_alloc :: "u64 \<Rightarrow> bool"
  je_files :: file_env
  je_xz :: decompressor
  je_elf_junk :: elf_junk
  je_held :: "nat set"

definition on_jit :: "(jit_state \<Rightarrow> jit_state) \<Rightarrow> world \<Rightarrow> world" where
  "on_jit f w = w\<lparr>w_jit := f (w_jit w)\<rparr>"

definition jit_read :: "jit_env \<Rightarrow> u64 \<Rightarrow> nat \<Rightarrow> jit_state \<Rightarrow> u8 list \<times> jit_state" where
  "jit_read env addr n j = (je_memory env (jit_time j) addr n, j\<lparr>jit_time := jit_time j + 1\<rparr>)"

definition jit_ReadFully :: "jit_env \<Rightarrow> u64 \<Rightarrow> nat \<Rightarrow> jit_state \<Rightarrow> u8 list option \<times> jit_state" where
  "jit_ReadFully env addr n j = (let (bs, j) = jit_read env addr n j in (if length bs = n then Some bs else None, j))"

definition StripAddressTag :: "ArchEnum \<Rightarrow> u64 \<Rightarrow> u64" where
  "StripAddressTag arch addr = (if arch = ARCH_ARM64 then signed_take_bit 55 addr else addr)"

text \<open>The bytes at an offset of a structure, as a number.\<close>

definition le_field :: "nat \<Rightarrow> nat \<Rightarrow> u8 list \<Rightarrow> u64" where
  "le_field off n bs = le_word (take n (drop off bs))"

section \<open>The descriptor\<close>

text \<open>The first read may fill a part of the zeroed structure; the second overwrites its beginning.\<close>

definition read_descriptor :: "jit_env \<Rightarrow> u64 \<Rightarrow> jit_state \<Rightarrow> u8 list option \<times> jit_state" where
  "read_descriptor env addr j =
     (let v2 = descriptor_size_v2 (je_layout env); v1 = magic_offset (je_layout env);
          (bs, j) = jit_read env addr v2 j; desc = bs @ replicate (v2 - length bs) 0
      in if length bs = v2 then (Some desc, j)
         else let (cs, j) = jit_read env addr v1 j
              in (if length cs = v1 then Some (cs @ drop v1 desc) else None, j))"

definition ReadDescriptor :: "jit_env \<Rightarrow> u64 \<Rightarrow> jit_state \<Rightarrow> bool \<times> jit_state" where
  "ReadDescriptor env addr j =
     (let l = je_layout env; (desc, j) = read_descriptor env addr j
      in case desc of
           None \<Rightarrow> (False, j)
         | Some desc \<Rightarrow>
             if le_field 0 4 desc \<noteq> 1 \<or> le_field (first_entry_offset l) (ptr_size l) desc = 0 then (False, j)
             else
               let j = (if take 8 (drop (magic_offset l) desc) = str_bytes ''Android2''
                        then j\<lparr>jit_entry_size := entry_size_v2 l, jit_seqlock_offset := of_nat (entry_seqlock_offset l)\<rparr>
                        else j\<lparr>jit_entry_size := entry_size_v1 l, jit_seqlock_offset := 0\<rparr>)
               in (True, j\<lparr>jit_descriptor := addr\<rparr>))"

definition Searchable :: "jit_env \<Rightarrow> string \<Rightarrow> bool" where
  "Searchable env name \<longleftrightarrow> je_search_libs env = [] \<or> name \<noteq> [] \<and> Basename name \<in> set (je_search_libs env)"

text \<open>A variable in the file that starts at the map \<open>z\<close>, if it is in the map \<open>p\<close>; the result says whether its data was read.\<close>

definition try_variable :: "jit_env \<Rightarrow> nat \<Rightarrow> nat \<Rightarrow> world \<Rightarrow> (bool, world) outcome option" where
  "try_variable env z p w =
     bind_opt (GetElf (je_files env) (je_xz env) (je_elf_junk env) (je_held env)
         (Some (je_memory env (jit_time (w_jit w)))) (je_arch env) z w) (\<lambda>e w.
       map_option (\<lambda>r.
         case r of
           Ok ptr w \<Rightarrow>
             (let m = map_at p w; offset_end = mi_offset m + mi_end m - mi_start m
              in if ptr \<noteq> 0 \<and> mi_offset m \<le> ptr \<and> ptr < offset_end then
                   let (ok, j) = ReadDescriptor env (mi_start m + ptr - mi_offset m) (w_jit w) in Ok ok (w\<lparr>w_jit := j\<rparr>)
                 else Ok False w)
         | Fail w \<Rightarrow> Ok False w
         | Abort \<Rightarrow> Abort
         | Undef k \<Rightarrow> Undef k) (on_elf e (GetGlobalVariableOffset (je_variable env)) w))"

fun FindAndReadVariable :: "jit_env \<Rightarrow> nat option \<Rightarrow> nat option list \<Rightarrow> world \<Rightarrow> (unit, world) outcome option" where
  "FindAndReadVariable env map_zero [] w = Some (Ok () w)"
| "FindAndReadVariable env map_zero (None # ps) w = Some (Undef UB_Null)"
| "FindAndReadVariable env map_zero (Some p # ps) w =
     (let info = map_at p w
      in case map_zero of
           Some z \<Rightarrow>
             if mi_flags info AND 3 = 3 \<and> Searchable env (mi_name info) \<and> mi_name info = mi_name (map_at z w) then
               bind_opt (try_variable env z p w) (\<lambda>found w.
                 if found then Some (Ok () w) else FindAndReadVariable env map_zero ps w)
             else FindAndReadVariable env (if mi_offset info = 0 \<and> mi_name info \<noteq> [] then Some p else map_zero) ps w
         | None \<Rightarrow> FindAndReadVariable env (if mi_offset info = 0 \<and> mi_name info \<noteq> [] then Some p else None) ps w)"

section \<open>Entries\<close>

text \<open>The result of an operation that may see a list in the middle of a change: \<^verbatim>\<open>*race\<close> is set, or it just failed.\<close>

datatype 'a attempt = Done 'a | Broken | Race

definition read_seqlock :: "jit_env \<Rightarrow> u64 \<Rightarrow> jit_state \<Rightarrow> u32 option \<times> jit_state" where
  "read_seqlock env addr j =
     (let (bs, j) = jit_ReadFully env (addr + jit_seqlock_offset j) 4 j in (map_option le_word bs, j))"

definition CheckSeqlock :: "jit_env \<Rightarrow> uid \<Rightarrow> jit_state \<Rightarrow> unit attempt \<times> jit_state" where
  "CheckSeqlock env u j =
     (if jit_seqlock_offset j = 0 then (Done (), j)
      else let (seen, j) = read_seqlock env (uid_address u) j
           in (case seen of None \<Rightarrow> Broken | Some v \<Rightarrow> if v = uid_seqlock u then Done () else Race, j))"

definition read_pointer :: "jit_env \<Rightarrow> u64 \<Rightarrow> jit_state \<Rightarrow> u64 option \<times> jit_state" where
  "read_pointer env addr j =
     (let (bs, j) = jit_ReadFully env addr (ptr_size (je_layout env)) j
      in (map_option (\<lambda>bs. StripAddressTag (je_arch env) (le_word bs)) bs, j))"

text \<open>One of the two rounds: the address, and the sequence number of the entry there if it is not null.\<close>

definition read_next :: "jit_env \<Rightarrow> u64 \<Rightarrow> jit_state \<Rightarrow> (u64 \<times> u32) option \<times> jit_state" where
  "read_next env field_addr j =
     (let (p, j) = read_pointer env field_addr j
      in case p of
           None \<Rightarrow> (None, j)
         | Some address \<Rightarrow>
             if jit_seqlock_offset j = 0 \<or> address = 0 then (Some (address, 0), j)
             else let (s, j) = read_seqlock env address j in (map_option (Pair address) s, j))"

definition ReadNextField :: "jit_env \<Rightarrow> u64 \<Rightarrow> jit_state \<Rightarrow> uid attempt \<times> jit_state" where
  "ReadNextField env field_addr j =
     (let (r0, j) = read_next env field_addr j
      in case r0 of
           None \<Rightarrow> (Broken, j)
         | Some (a0, s0) \<Rightarrow>
             if jit_seqlock_offset j = 0 then (Done (UID a0 0), j)
             else
               let (r1, j) = read_next env field_addr j
               in case r1 of
                    None \<Rightarrow> (Broken, j)
                  | Some (a1, s1) \<Rightarrow>
                      if a0 \<noteq> a1 \<or> s0 \<noteq> s1 \<or> s0 AND 1 = 1 then (Race, j) else (Done (UID a1 s1), j))"

text \<open>\<^verbatim>\<open>GlobalDebugInterface<Elf>::Load\<close>: a copy of the file; the result is the ELF object.\<close>

definition jit_Load :: "jit_env \<Rightarrow> u64 \<Rightarrow> u64 \<Rightarrow> world \<Rightarrow> (nat option, world) outcome option" where
  "jit_Load env addr sz w =
     (if \<not> je_alloc env sz then Some (Ok None w)
      else
        let (bs, j) = jit_ReadFully env addr (unat sz) (w_jit w); w = w\<lparr>w_jit := j\<rparr>
        in case bs of
             None \<Rightarrow> Some (Ok None w)
           | Some bs \<Rightarrow>
               let copy = MemoryBuffer_Read \<lparr>buf_raw = (\<lambda>i. bs ! i), buf_size = sz\<rparr>
               in map_option (\<lambda>r.
                    let put = (\<lambda>x. w\<lparr>w_elfs := w_elfs w @ [x]\<rparr>)
                    in case r of
                         Ok _ x \<Rightarrow> Ok (if elf_valid x then Some (length (w_elfs w)) else None) (put x)
                       | Fail x \<Rightarrow> Ok None (put x)
                       | Abort \<Rightarrow> Abort
                       | Undef k \<Rightarrow> Undef k)
                  (Elf_Init (je_xz env) (je_elf_junk env) (Elf_new (je_elf_junk env) (Some copy))))"

definition check_seqlock :: "jit_env \<Rightarrow> uid \<Rightarrow> 'a \<Rightarrow> world \<Rightarrow> 'a attempt \<times> world" where
  "check_seqlock env u v w =
     (let (r, j) = CheckSeqlock env u (w_jit w)
      in (case r of Done _ \<Rightarrow> Done v | Broken \<Rightarrow> Broken | Race \<Rightarrow> Race, w\<lparr>w_jit := j\<rparr>))"

text \<open>The symbol file of an entry: the one loaded before, or a new one; none if it does not load.\<close>

definition load_symfile ::
  "jit_env \<Rightarrow> uid \<Rightarrow> u64 \<Rightarrow> u64 \<Rightarrow> (uid, nat) omap \<Rightarrow> world \<Rightarrow> ((uid, nat) omap attempt, world) outcome option" where
  "load_symfile env u symfile_addr symfile_size entries w =
     (case map_of (jit_entries (w_jit w)) u of
        Some f \<Rightarrow> Some (Ok (Done (fst (omap_emplace u f entries))) w)
      | None \<Rightarrow>
          if symfile_addr = 0 then Some (Ok (Done entries) w)
          else bind_opt (jit_Load env symfile_addr symfile_size w) (\<lambda>f w.
            let (r, w) = check_seqlock env u (case f of None \<Rightarrow> entries | Some f \<Rightarrow> fst (omap_emplace u f entries)) w
            in Some (Ok r w)))"

text \<open>One turn of the loop over the list: the next entry and the entries so far.\<close>

definition read_jit_entry ::
  "jit_env \<Rightarrow> uid \<Rightarrow> (uid, nat) omap \<Rightarrow> world \<Rightarrow> ((uid \<times> (uid, nat) omap) attempt, world) outcome option" where
  "read_jit_entry env u entries w =
     (let l = je_layout env; (data, j) = jit_ReadFully env (uid_address u) (jit_entry_size (w_jit w)) (w_jit w); w = w\<lparr>w_jit := j\<rparr>
      in case data of
           None \<Rightarrow> Some (Ok Broken w)
         | Some data \<Rightarrow>
             let symfile_addr = StripAddressTag (je_arch env) (le_field (symfile_addr_offset l) (ptr_size l) data);
                 symfile_size = le_field (symfile_size_offset l) 8 data;
                 (ok, w) = check_seqlock env u () w
             in case ok of
                  Broken \<Rightarrow> Some (Ok Broken w)
                | Race \<Rightarrow> Some (Ok Race w)
                | Done _ \<Rightarrow>
                    bind_opt (load_symfile env u symfile_addr symfile_size entries w) (\<lambda>r w.
                      case r of
                        Broken \<Rightarrow> Some (Ok Broken w)
                      | Race \<Rightarrow> Some (Ok Race w)
                      | Done entries \<Rightarrow>
                          let (n, j) = ReadNextField env (uid_address u) (w_jit w); w = w\<lparr>w_jit := j\<rparr>
                          in case n of
                               Broken \<Rightarrow> Some (Ok Broken w)
                             | Race \<Rightarrow> Some (Ok Race w)
                             | Done next_uid \<Rightarrow> let (r, w) = check_seqlock env u (next_uid, entries) w in Some (Ok r w)))"

partial_function (option) follow_list ::
  "jit_env \<Rightarrow> uid \<Rightarrow> (uid, nat) omap \<Rightarrow> world \<Rightarrow> ((uid, nat) omap attempt, world) outcome option" where
  "follow_list env u entries w =
     (if uid_address u = 0 \<or> u \<in> fst ` set entries then Some (Ok (Done entries) w)
      else Option.bind (read_jit_entry env u entries w) (\<lambda>r.
        case r of
          Ok a w \<Rightarrow>
            (case a of
               Done n \<Rightarrow> follow_list env (fst n) (snd n) w
             | Broken \<Rightarrow> Some (Ok Broken w)
             | Race \<Rightarrow> Some (Ok Race w))
        | Fail w \<Rightarrow> Some (Fail w)
        | Abort \<Rightarrow> Some Abort
        | Undef k \<Rightarrow> Some (Undef k)))"

declare follow_list.simps [code]

definition ReadNewEntries ::
  "jit_env \<Rightarrow> (uid, nat) omap \<Rightarrow> world \<Rightarrow> ((uid, nat) omap attempt, world) outcome option" where
  "ReadNewEntries env entries w =
     (let (u, j) = ReadNextField env (jit_descriptor (w_jit w) + of_nat (first_entry_offset (je_layout env))) (w_jit w);
          w = w\<lparr>w_jit := j\<rparr>
      in case u of
           Done u \<Rightarrow> follow_list env u entries w
         | Broken \<Rightarrow> Some (Ok Broken w)
         | Race \<Rightarrow> Some (Ok Race w))"

text \<open>From the head of the list again until nothing new is found, 16 times at most; and all of it 16 times if there was a race.\<close>

fun ReadAllEntries_once ::
  "nat \<Rightarrow> jit_env \<Rightarrow> (uid, nat) omap \<Rightarrow> world \<Rightarrow> (unit attempt, world) outcome option" where
  "ReadAllEntries_once 0 env entries w = Some (Ok Broken w)"
| "ReadAllEntries_once (Suc n) env entries w =
     bind_opt (ReadNewEntries env entries w) (\<lambda>r w.
       case r of
         Broken \<Rightarrow> Some (Ok Broken w)
       | Race \<Rightarrow> Some (Ok Race w)
       | Done new_entries \<Rightarrow>
           if length new_entries = length entries then Some (Ok (Done ()) (on_jit (\<lambda>j. j\<lparr>jit_entries := new_entries\<rparr>) w))
           else ReadAllEntries_once n env new_entries w)"

fun ReadAllEntries_retry :: "nat \<Rightarrow> jit_env \<Rightarrow> world \<Rightarrow> (unit, world) outcome option" where
  "ReadAllEntries_retry 0 env w = Some (Fail w)"
| "ReadAllEntries_retry (Suc n) env w =
     bind_opt (ReadAllEntries_once 16 env [] w) (\<lambda>r w.
       case r of
         Done _ \<Rightarrow> Some (Ok () w)
       | Broken \<Rightarrow> Some (Fail w)
       | Race \<Rightarrow> ReadAllEntries_retry n env w)"

definition ReadAllEntries :: "jit_env \<Rightarrow> world \<Rightarrow> (unit, world) outcome option" where
  "ReadAllEntries env w = ReadAllEntries_retry 16 env w"

section \<open>Lookup\<close>

text \<open>
  The callback of \<^verbatim>\<open>Find\<close> notes the file and asks for a function name. The result is whether it found one, with the file noted last.
  \<open>checked\<close> says whether the sequence number is checked.
\<close>

fun scan_entries ::
  "jit_env \<Rightarrow> bool \<Rightarrow> u64 \<Rightarrow> (uid, nat) omap \<Rightarrow> nat option \<Rightarrow> world \<Rightarrow> (bool \<times> nat option, world) outcome option" where
  "scan_entries env checked pc [] found w = Some (Ok (False, found) w)"
| "scan_entries env checked pc ((u, f) # es) found w =
     Option.bind (on_elf f (Elf_IsValidPc pc) w) (\<lambda>r.
       case r of
         Ok _ w \<Rightarrow>
           (let (ok, w) = (if checked then check_seqlock env u () w else (Done (), w))
            in if ok \<noteq> Done () then scan_entries env checked pc es found w
               else Option.bind (on_elf f (Elf_GetFunctionName pc) w) (\<lambda>r.
                 case r of
                   Ok _ w \<Rightarrow> Some (Ok (True, Some f) w)
                 | Fail w \<Rightarrow> scan_entries env checked pc es (Some f) w
                 | Abort \<Rightarrow> Some Abort
                 | Undef k \<Rightarrow> Some (Undef k)))
       | Fail w \<Rightarrow> scan_entries env checked pc es found w
       | Abort \<Rightarrow> Some Abort
       | Undef k \<Rightarrow> Some (Undef k))"

text \<open>\<^verbatim>\<open>ForEachSymfile\<close> with this callback.\<close>

definition for_each_symfile :: "jit_env \<Rightarrow> u64 \<Rightarrow> world \<Rightarrow> (nat option, world) outcome option" where
  "for_each_symfile env pc w =
     bind_opt (scan_entries env True pc (jit_entries (w_jit w)) None w) (\<lambda>(hit, found) w.
       if hit then Some (Ok found w)
       else Option.bind (ReadAllEntries env w) (\<lambda>r.
         case r of
           Ok _ w \<Rightarrow> map_option (\<lambda>r. bind_out r (\<lambda>(_, found). Ok found)) (scan_entries env False pc (jit_entries (w_jit w)) found w)
         | Fail w \<Rightarrow> map_option (\<lambda>r. bind_out r (\<lambda>(_, found). Ok found)) (scan_entries env False pc (jit_entries (w_jit w)) found w)
         | Abort \<Rightarrow> Some Abort
         | Undef k \<Rightarrow> Some (Undef k)))"

definition JitDebug_Find :: "jit_env \<Rightarrow> u64 \<Rightarrow> world \<Rightarrow> (nat option, world) outcome option" where
  "JitDebug_Find env pc w =
     (if jit_descriptor (w_jit w) = 0 then
        bind_opt (FindAndReadVariable env None (maps_vec (w_maps w)) w) (\<lambda>_ w.
          if jit_descriptor (w_jit w) = 0 then Some (Ok None w) else for_each_symfile env pc w)
      else for_each_symfile env pc w)"

end
