(* ===== verification/Jit_List.thy ===== *)
theory Jit_List
  imports Jit_Debug Map_Elf
begin

text \<open>
  Reading the list of JIT entries while the process changes it: what the sequence numbers guarantee, and a list on which the reader does
  not end.
\<close>

section \<open>The list at one moment\<close>

text \<open>The pointer in a \<^verbatim>\<open>next\<close> field and the sequence number of an entry, as the read at time \<open>t\<close> would see them.\<close>

definition next_at :: "jit_env \<Rightarrow> nat \<Rightarrow> u64 \<Rightarrow> u64 option" where
  "next_at env t addr =
     map_option (\<lambda>bs. StripAddressTag (je_arch env) (le_word bs)) (ReadFully (je_memory env t) addr (ptr_size (je_layout env)))"

definition seqlock_at :: "jit_env \<Rightarrow> u64 \<Rightarrow> nat \<Rightarrow> u64 \<Rightarrow> u32 option" where
  "seqlock_at env off t addr = map_option le_word (ReadFully (je_memory env t) (addr + off) 4)"

text \<open>
  What the writer promises: a sequence number that has changed does not come back (\<^verbatim>\<open>each (address,seqlock) pair is unique for each newly
  created JIT entry\<close>).
\<close>

definition seqlock_unique :: "jit_env \<Rightarrow> u64 \<Rightarrow> bool" where
  "seqlock_unique env off \<longleftrightarrow>
     (\<forall>addr t1 t2 t3. t1 \<le> t2 \<longrightarrow> t2 \<le> t3 \<longrightarrow> seqlock_at env off t1 addr = seqlock_at env off t3 addr \<longrightarrow>
        seqlock_at env off t2 addr = seqlock_at env off t1 addr)"

lemma seqlock_between:
  "seqlock_unique env off \<Longrightarrow> seqlock_at env off t1 addr = Some s \<Longrightarrow> seqlock_at env off t3 addr = Some s \<Longrightarrow> t1 \<le> t2 \<Longrightarrow> t2 \<le> t3 \<Longrightarrow>
    seqlock_at env off t2 addr = Some s"
  unfolding seqlock_unique_def by metis

section \<open>Reads\<close>

lemma jit_ReadFully_at: "jit_ReadFully env addr n j = (ReadFully (je_memory env (jit_time j)) addr n, j\<lparr>jit_time := jit_time j + 1\<rparr>)"
  by (simp add: jit_ReadFully_def jit_read_def ReadFully_def)

lemma read_seqlock_at:
  "read_seqlock env addr j = (seqlock_at env (jit_seqlock_offset j) (jit_time j) addr, j\<lparr>jit_time := jit_time j + 1\<rparr>)"
  by (simp add: read_seqlock_def jit_ReadFully_at seqlock_at_def)

lemma read_pointer_at: "read_pointer env addr j = (next_at env (jit_time j) addr, j\<lparr>jit_time := jit_time j + 1\<rparr>)"
  by (simp add: read_pointer_def jit_ReadFully_at next_at_def)

lemma read_next_at:
  assumes "read_next env addr j = (Some (a, s), k)" and "jit_seqlock_offset j \<noteq> 0"
  shows "next_at env (jit_time j) addr = Some a \<and> k = j\<lparr>jit_time := jit_time k\<rparr> \<and> jit_time j < jit_time k \<and>
    (if a = 0 then s = 0 else jit_time k = jit_time j + 2 \<and> seqlock_at env (jit_seqlock_offset j) (jit_time j + 1) a = Some s)"
  using assms
  by (auto simp: read_next_def read_pointer_at read_seqlock_at split: option.splits if_splits)

text \<open>Both reads of the field agree, and the second read of the pointer lies between the two reads of the sequence number.\<close>

lemma ReadNextField_at:
  assumes run: "ReadNextField env addr j = (Done u, k)" and off: "jit_seqlock_offset j \<noteq> 0"
    and unique: "seqlock_unique env (jit_seqlock_offset j)"
  shows "k = j\<lparr>jit_time := jit_time k\<rparr> \<and> even (uid_seqlock u) \<and>
    (\<exists>t. jit_time j \<le> t \<and> t < jit_time k \<and> next_at env t addr = Some (uid_address u) \<and>
      (uid_address u \<noteq> 0 \<longrightarrow> seqlock_at env (jit_seqlock_offset j) t (uid_address u) = Some (uid_seqlock u)))"
proof -
  obtain a0 s0 j1 where r0: "read_next env addr j = (Some (a0, s0), j1)"
    using run by (auto simp: ReadNextField_def split: prod.splits option.splits)
  note f0 = read_next_at [OF r0 off]
  have off1: "jit_seqlock_offset j1 = jit_seqlock_offset j" using f0 by (metis jit_state.select_convs(4) jit_state.surjective jit_state.update_convs(1))
  obtain a1 s1 where r1: "read_next env addr j1 = (Some (a1, s1), k)" "a0 = a1" "s0 = s1" "\<not> s0 AND 1 = 1" "u = UID a1 s1"
    using run r0 off off1 by (auto simp: ReadNextField_def split: prod.splits option.splits if_splits)
  note f1 = read_next_at [OF r1(1)]
  have "even s1" using r1(3,4) by (simp add: and_one_eq odd_iff_mod_2_eq_one [symmetric])
  moreover have "seqlock_at env (jit_seqlock_offset j) (jit_time j1) a1 = Some s1" if "a1 \<noteq> 0"
  proof (rule seqlock_between [OF unique])
    show "seqlock_at env (jit_seqlock_offset j) (jit_time j + 1) a1 = Some s1" using f0 r1 that by simp
    show "seqlock_at env (jit_seqlock_offset j) (jit_time j1 + 1) a1 = Some s1" using f1 off off1 that by simp
    show "jit_time j + 1 \<le> jit_time j1" using f0 by simp
  qed simp
  moreover have "k = j\<lparr>jit_time := jit_time k\<rparr>"
    using f0 f1 off off1 by (metis jit_state.surjective jit_state.update_convs(1))
  ultimately show ?thesis using f0 f1 off off1 r1(5) by (auto intro!: exI [of _ "jit_time j1"])
qed

section \<open>One entry\<close>

text \<open>The object after some reads: only the time has changed.\<close>

definition later :: "jit_state \<Rightarrow> jit_state \<Rightarrow> bool" where
  "later j k \<longleftrightarrow> k = j\<lparr>jit_time := jit_time k\<rparr> \<and> jit_time j \<le> jit_time k"

lemma later_refl [simp]: "later j j"
  by (simp add: later_def)

lemma later_trans: "later i j \<Longrightarrow> later j k \<Longrightarrow> later i k"
  unfolding later_def by (metis (no_types, lifting) jit_state.surjective jit_state.update_convs(1) le_trans)

lemma later_read [simp]: "later j (j\<lparr>jit_time := jit_time j + 1\<rparr>)" "later j (j\<lparr>jit_time := Suc (jit_time j)\<rparr>)"
  by (simp_all add: later_def)

lemma later_fields:
  assumes "later j k"
  shows "jit_seqlock_offset k = jit_seqlock_offset j" "jit_entries k = jit_entries j" "jit_entry_size k = jit_entry_size j"
    "jit_time j \<le> jit_time k"
  using assms unfolding later_def by (metis (no_types, lifting) jit_state.simps jit_state.surjective jit_state.update_convs(1))+

lemma check_seqlock_Done:
  assumes "check_seqlock env u v w = (Done x, w')" and "jit_seqlock_offset (w_jit w) \<noteq> 0"
  shows "x = v \<and> seqlock_at env (jit_seqlock_offset (w_jit w)) (jit_time (w_jit w)) (uid_address u) = Some (uid_seqlock u) \<and>
    later (w_jit w) (w_jit w') \<and> jit_time (w_jit w') = jit_time (w_jit w) + 1"
  using assms by (auto simp: check_seqlock_def CheckSeqlock_def read_seqlock_at split: option.splits if_splits)

lemma check_seqlock_later: "check_seqlock env u v w = (r, w') \<Longrightarrow> later (w_jit w) (w_jit w')"
  by (auto simp: check_seqlock_def CheckSeqlock_def read_seqlock_at split: option.splits if_splits)

lemma jit_Load_later: "jit_Load env addr sz w = Some (Ok f w') \<Longrightarrow> later (w_jit w) (w_jit w')"
proof (cases "je_alloc env sz \<and> ReadFully (je_memory env (jit_time (w_jit w))) addr (unat sz) \<noteq> None")
  case False
  assume "jit_Load env addr sz w = Some (Ok f w')"
  with False show ?thesis by (cases "je_alloc env sz") (auto simp: jit_Load_def jit_ReadFully_at Let_def)
next
  case True
  then obtain bs where bs: "je_alloc env sz" "ReadFully (je_memory env (jit_time (w_jit w))) addr (unat sz) = Some bs" by auto
  let ?e = "Elf_Init (je_xz env) (je_elf_junk env) (Elf_new (je_elf_junk env)
      (Some (MemoryBuffer_Read \<lparr>buf_raw = (\<lambda>i. bs ! i), buf_size = sz\<rparr>)))"
  assume "jit_Load env addr sz w = Some (Ok f w')"
  with bs show ?thesis by (cases ?e; cases "the ?e") (auto simp: jit_Load_def jit_ReadFully_at Let_def)
qed

lemma load_symfile_later: "load_symfile env u a sz es w = Some (Ok r w') \<Longrightarrow> later (w_jit w) (w_jit w')"
proof -
  assume run: "load_symfile env u a sz es w = Some (Ok r w')"
  show ?thesis
  proof (cases "map_of (jit_entries (w_jit w)) u = None \<and> a \<noteq> 0")
    case False
    with run show ?thesis by (auto simp: load_symfile_def split: option.splits if_splits)
  next
    case True
    then obtain f v where v: "jit_Load env a sz w = Some (Ok f v)"
        "check_seqlock env u (case f of None \<Rightarrow> es | Some f \<Rightarrow> fst (omap_emplace u f es)) v = (r, w')"
      using run
      by (cases "jit_Load env a sz w"; cases "the (jit_Load env a sz w)") (auto simp: load_symfile_def split: prod.splits)
    from later_trans [OF jit_Load_later [OF v(1)] check_seqlock_later [OF v(2)]] show ?thesis .
  qed
qed

text \<open>
  An entry that was in the list with sequence number \<open>s\<close> is read consistently: it still had this number when its data was read, and at
  one later moment it was there, linked to the next entry, and that entry had the number the reader goes on with.
\<close>

definition live_at :: "jit_env \<Rightarrow> u64 \<Rightarrow> nat \<Rightarrow> uid \<Rightarrow> bool" where
  "live_at env off t u \<longleftrightarrow> seqlock_at env off t (uid_address u) = Some (uid_seqlock u)"

lemma read_jit_entry_consistent:
  assumes run: "read_jit_entry env u es w = Some (Ok (Done (n, es')) w')" and off: "off = jit_seqlock_offset (w_jit w)" "off \<noteq> 0"
    and unique: "seqlock_unique env off" and live: "live_at env off t0 u" "t0 \<le> jit_time (w_jit w)"
  shows "live_at env off (jit_time (w_jit w)) u \<and> later (w_jit w) (w_jit w') \<and>
    (\<exists>t. jit_time (w_jit w) < t \<and> t < jit_time (w_jit w') \<and> live_at env off t u \<and> next_at env t (uid_address u) = Some (uid_address n) \<and>
      (uid_address n \<noteq> 0 \<longrightarrow> live_at env off t n))"
proof -
  let ?l = "je_layout env" and ?t = "jit_time (w_jit w)"
  let ?w1 = "w\<lparr>w_jit := (w_jit w)\<lparr>jit_time := ?t + 1\<rparr>\<rparr>"
  obtain data where data: "ReadFully (je_memory env ?t) (uid_address u) (jit_entry_size (w_jit w)) = Some data"
    using run by (auto simp: read_jit_entry_def jit_ReadFully_at Let_def split: option.splits)
  let ?a = "StripAddressTag (je_arch env) (le_field (symfile_addr_offset ?l) (ptr_size ?l) data)"
  let ?sz = "le_field (symfile_size_offset ?l) 8 data"
  obtain w2 where c1: "check_seqlock env u () ?w1 = (Done (), w2)"
    using run data by (auto simp: read_jit_entry_def jit_ReadFully_at Let_def split: prod.splits attempt.splits)
  note f1 = check_seqlock_Done [OF c1]
  obtain es2 w3 where load: "load_symfile env u ?a ?sz es w2 = Some (Ok (Done es2) w3)"
    using run data c1
    by (cases "load_symfile env u ?a ?sz es w2"; cases "the (load_symfile env u ?a ?sz es w2)")
      (auto simp: read_jit_entry_def jit_ReadFully_at Let_def split: attempt.splits)
  obtain j4 where field: "ReadNextField env (uid_address u) (w_jit w3) = (Done n, j4)"
      and c2: "check_seqlock env u (n, es2) (w3\<lparr>w_jit := j4\<rparr>) = (Done (n, es'), w')"
  proof -
    obtain r j4 where field: "ReadNextField env (uid_address u) (w_jit w3) = (r, j4)" by fastforce
    obtain m where m: "r = Done m" using run data c1 load field
      by (cases r) (auto simp: read_jit_entry_def jit_ReadFully_at Let_def split: prod.splits)
    obtain q v where q: "check_seqlock env u (m, es2) (w3\<lparr>w_jit := j4\<rparr>) = (q, v)" by fastforce
    then have "q = Done (n, es')" "v = w'" using run data c1 load field m
      by (auto simp: read_jit_entry_def jit_ReadFully_at Let_def)
    moreover have "m = n" using q calculation by (auto simp: check_seqlock_def split: attempt.splits prod.splits)
    ultimately show thesis using that field m q by simp
  qed
  have l12: "later (w_jit w) (w_jit w2)" "jit_time (w_jit w2) = ?t + 2"
    and live1: "live_at env off (?t + 1) u"
    using f1 off later_trans [of "w_jit w" "w_jit ?w1"] by (auto simp: live_at_def)
  have l3: "later (w_jit w) (w_jit w3)" "?t + 2 \<le> jit_time (w_jit w3)"
    using later_trans [OF l12(1) load_symfile_later [OF load]] later_fields(4) [OF load_symfile_later [OF load]] l12(2) by auto
  have off3: "jit_seqlock_offset (w_jit w3) = off" using later_fields(1) [OF l3(1)] off(1) by simp
  from ReadNextField_at [OF field] off3 off(2) unique obtain t where
    j4: "j4 = (w_jit w3)\<lparr>jit_time := jit_time j4\<rparr>" and t: "jit_time (w_jit w3) \<le> t" "t < jit_time j4"
      "next_at env t (uid_address u) = Some (uid_address n)" "uid_address n \<noteq> 0 \<longrightarrow> live_at env off t n"
    by (auto simp: live_at_def)
  have l4: "later (w_jit w) j4" using l3(1) j4 t by (intro later_trans [OF l3(1)]) (simp add: later_def)
  have f2: "live_at env off (jit_time j4) u" "later j4 (w_jit w')" "jit_time (w_jit w') = jit_time j4 + 1"
    using check_seqlock_Done [OF c2] later_fields(1) [OF l4] off by (auto simp: live_at_def)
  have "live_at env off ?t u"
    unfolding live_at_def by (rule seqlock_between [OF unique live(1) [unfolded live_at_def] live1 [unfolded live_at_def] live(2)]) simp
  moreover have "live_at env off t u"
    unfolding live_at_def
    by (rule seqlock_between [OF unique live1 [unfolded live_at_def] f2(1) [unfolded live_at_def]]) (use l3(2) t in simp_all)
  ultimately show ?thesis
    using t f2 later_trans [OF l4 f2(2)] l3(2) by (auto intro!: exI [of _ t])
qed

text \<open>
  \<^verbatim>\<open>ReadNextField\<close> reads the address and the sequence number of an entry as if in one step, although the process may change the list in
  between: at one moment during the call the field held this address and the entry this sequence number, which is even, so the entry
  is live.
\<close>

theorem ReadNextField_atomic:
  assumes "ReadNextField env addr j = (Done u, k)" and "jit_seqlock_offset j \<noteq> 0" and "seqlock_unique env (jit_seqlock_offset j)"
    and "uid_address u \<noteq> 0"
  shows "even (uid_seqlock u) \<and> (\<exists>t. jit_time j \<le> t \<and> t < jit_time k \<and>
    next_at env t addr = Some (uid_address u) \<and> live_at env (jit_seqlock_offset j) t u)"
  using ReadNextField_at [OF assms(1-3)] assms(4) by (auto simp: live_at_def)


section \<open>A list that is not changed\<close>

text \<open>Two entries at 0x1000 and 0x1100 with sequence number 2, and no symbol files.\<close>

definition pair_memory :: reader where
  "pair_memory addr n =
     (if addr = 0x1000 then take n (to_le 8 0x1100 @ replicate 32 0 @ to_le 4 2 @ replicate 4 0)
      else if addr = 0x1100 then take n (replicate 40 0 @ to_le 4 2 @ replicate 4 0)
      else if addr = 0x1028 \<or> addr = 0x1128 then take n (to_le 4 2)
      else [])"

definition jit_example :: "reader \<Rightarrow> jit_env" where
  "jit_example mem =
     \<lparr>je_memory = (\<lambda>_. mem), je_arch = ARCH_X86_64, je_layout = Layout64, je_search_libs = [], je_variable = [], je_alloc = (\<lambda>_. True),
      je_files = no_files, je_xz = (\<lambda>_ _ _. None), je_elf_junk = zero_junk, je_held = {}\<rparr>"

definition jit_world :: "nat \<Rightarrow> u64 \<Rightarrow> nat \<Rightarrow> world" where
  "jit_world sz off t = split_world\<lparr>w_jit := \<lparr>jit_time = t, jit_descriptor = 0x2000, jit_entry_size = sz, jit_seqlock_offset = off, jit_entries = []\<rparr>\<rparr>"

lemma jit_example_unique: "seqlock_unique (jit_example mem) off"
  by (simp add: seqlock_unique_def seqlock_at_def jit_example_def)

lemma pair_read_jit_entry:
  "\<exists>w'. read_jit_entry (jit_example pair_memory) (UID 0x1000 2) [] (jit_world 48 40 0) = Some (Ok (Done (UID 0x1100 2, [])) w')"
proof -
  have "case read_jit_entry (jit_example pair_memory) (UID 0x1000 2) [] (jit_world 48 40 0) of
      Some (Ok (Done r) w') \<Rightarrow> r = (UID 0x1100 2, []) | _ \<Rightarrow> False"
    by code_simp
  then show ?thesis by (auto split: option.splits outcome.splits attempt.splits)
qed

lemma pair_live: "live_at (jit_example pair_memory) 40 0 (UID 0x1000 2)"
  by (simp add: live_at_def seqlock_at_def jit_example_def pair_memory_def ReadFully_def le_word_def le_nat_to_le)


lemma ReadNextField_atomic_witness: "\<exists>t. live_at (jit_example pair_memory) 40 t (UID 0x1100 2)"
proof -
  have "fst (ReadNextField (jit_example pair_memory) 0x1000 (w_jit (jit_world 48 40 0))) = Done (UID 0x1100 2)" by code_simp
  then obtain k where run: "ReadNextField (jit_example pair_memory) 0x1000 (w_jit (jit_world 48 40 0)) = (Done (UID 0x1100 2), k)"
    by (metis prod.collapse)
  have "jit_seqlock_offset (w_jit (jit_world 48 40 0)) = 40" by (simp add: jit_world_def)
  with ReadNextField_atomic [OF run] jit_example_unique show ?thesis by auto
qed

section \<open>A list with a cycle\<close>

text \<open>The head of the list and the \<^verbatim>\<open>next\<close> field of its only entry both hold the address of that entry, which has no symbol file.\<close>

definition cycle_memory :: reader where
  "cycle_memory addr n = (if addr = 0x1000 \<or> addr = 0x2010 then take n (to_le 8 0x1000 @ replicate 24 0) else [])"

lemma cycle_next: "ReadNextField (jit_example cycle_memory) 0x1000 (w_jit (jit_world 32 0 t)) = (Done (UID 0x1000 0), w_jit (jit_world 32 0 (t + 1)))"
  "ReadNextField (jit_example cycle_memory) 0x2010 (w_jit (jit_world 32 0 t)) = (Done (UID 0x1000 0), w_jit (jit_world 32 0 (t + 1)))"
  by (simp_all add: ReadNextField_def read_next_def read_pointer_at next_at_def jit_example_def jit_world_def cycle_memory_def ReadFully_def
      le_word_def le_nat_to_le StripAddressTag_def)

lemma jit_world_put: "jit_world sz off t\<lparr>w_jit := w_jit (jit_world sz off t')\<rparr> = jit_world sz off t'"
  by (simp add: jit_world_def split_world_def)

lemma cycle_read_jit_entry:
  "read_jit_entry (jit_example cycle_memory) (UID 0x1000 0) [] (jit_world 32 0 t) = Some (Ok (Done (UID 0x1000 0, [])) (jit_world 32 0 (t + 2)))"
proof -
  let ?env = "jit_example cycle_memory"
  let ?data = "to_le 8 0x1000 @ replicate 24 0 :: u8 list"
  have data: "jit_ReadFully ?env 0x1000 32 (w_jit (jit_world 32 0 t)) = (Some ?data, w_jit (jit_world 32 0 (t + 1)))"
    by (simp add: jit_ReadFully_at jit_example_def jit_world_def cycle_memory_def ReadFully_def)
  have checked: "check_seqlock ?env u v (jit_world 32 0 s) = (Done v, jit_world 32 0 s)" for u s and v :: 'x
    by (simp add: check_seqlock_def CheckSeqlock_def jit_world_def)
  have "le_field (symfile_addr_offset Layout64) (ptr_size Layout64) ?data = 0" by code_simp
  then have load: "load_symfile ?env (UID 0x1000 0) (StripAddressTag ARCH_X86_64 (le_field (symfile_addr_offset Layout64) (ptr_size Layout64) ?data)) sz [] (jit_world 32 0 s) =
      Some (Ok (Done []) (jit_world 32 0 s))" for sz s
    by (simp add: load_symfile_def StripAddressTag_def jit_world_def)
  have env: "je_layout ?env = Layout64" "je_arch ?env = ARCH_X86_64" "jit_entry_size (w_jit (jit_world 32 0 t)) = 32"
    by (simp_all add: jit_example_def jit_world_def)
  show ?thesis
    unfolding read_jit_entry_def Let_def env uid.sel data prod.case option.case jit_world_put checked attempt.case load bind_opt.simps cycle_next
    by simp
qed

lemma follow_list_cycle: "follow_list (jit_example cycle_memory) (UID 0x1000 0) [] (jit_world 32 0 t) = None"
proof (rule ccontr)
  let ?env = "jit_example cycle_memory"
  let ?P = "\<lambda>env u (es :: (uid, nat) omap) w (r :: ((uid, nat) omap attempt, world) outcome). \<not> (env = ?env \<and> u = UID 0x1000 0 \<and> es = [] \<and> (\<exists>t. w = jit_world 32 0 t))"
  assume "follow_list ?env (UID 0x1000 0) [] (jit_world 32 0 t) \<noteq> None"
  then obtain r where r: "follow_list ?env (UID 0x1000 0) [] (jit_world 32 0 t) = Some r" by blast
  have "?P ?env (UID 0x1000 0) [] (jit_world 32 0 t) r"
  proof (rule follow_list.raw_induct [where P = ?P, OF _ r])
    fix loop env u es w r
    assume IH: "\<And>env u es w r. loop env u es w = Some r \<Longrightarrow> ?P env u es w r"
      and run: "(if uid_address u = 0 \<or> u \<in> fst ` set es then Some (Ok (Done es) w)
        else Option.bind (read_jit_entry env u es w) (\<lambda>r.
          case r of
            Ok a w \<Rightarrow> (case a of Done n \<Rightarrow> loop env (fst n) (snd n) w | Broken \<Rightarrow> Some (Ok Broken w) | Race \<Rightarrow> Some (Ok Race w))
          | Fail w \<Rightarrow> Some (Fail w) | Abort \<Rightarrow> Some Abort | Undef k \<Rightarrow> Some (Undef k))) = Some r"
    show "?P env u es w r"
    proof
      assume "env = ?env \<and> u = UID 0x1000 0 \<and> es = [] \<and> (\<exists>t. w = jit_world 32 0 t)"
      then obtain t where eq: "env = ?env" "u = UID 0x1000 0" "es = []" "w = jit_world 32 0 t" by blast
      then have "loop ?env (UID 0x1000 0) [] (jit_world 32 0 (t + 2)) = Some r" using run cycle_read_jit_entry [of t] by simp
      from IH [OF this] show False by blast
    qed
  qed
  then show False by blast
qed

text \<open>
  C22. The reader of the list remembers the entries whose symbol files it has loaded, not the entries it has seen: on a list with a cycle of
  entries without a symbol file, \<^verbatim>\<open>JitDebug::Find\<close> never returns.
\<close>

theorem JitDebug_Find_cycle: "JitDebug_Find (jit_example cycle_memory) pc (jit_world 32 0 t) = None"
proof -
  let ?env = "jit_example cycle_memory"
  have w: "jit_descriptor (w_jit (jit_world 32 0 t)) = 0x2000" "jit_entries (w_jit (jit_world 32 0 t)) = []" "je_layout ?env = Layout64"
    by (simp_all add: jit_world_def jit_example_def)
  have "ReadNewEntries ?env [] (jit_world 32 0 t) = None"
    using cycle_next(2) [of t] follow_list_cycle
    by (simp add: ReadNewEntries_def w first_entry_offset_def jit_world_put)
  then have "ReadAllEntries_once 16 ?env [] (jit_world 32 0 t) = None"
    using ReadAllEntries_once.simps(2) [of 15 ?env "[]" "jit_world 32 0 t"] by simp
  then have "ReadAllEntries ?env (jit_world 32 0 t) = None"
    using ReadAllEntries_retry.simps(2) [of 15 ?env "jit_world 32 0 t"] by (simp add: ReadAllEntries_def)
  then show ?thesis by (simp add: JitDebug_Find_def for_each_symfile_def w)
qed

end
