(* ===== verification/Memory_Xz.thy ===== *)
theory Memory_Xz
  imports Memory_Model
begin

text \<open>
  \<^verbatim>\<open>MemoryXz.cpp\<close>: the memory of compressed debug data. The list of blocks is read when the object is initialised, a block is
  decompressed when it is read for the first time. The two functions of the LZMA library and the contents of fresh arrays are parameters;
  the counters of debug messages (\<^verbatim>\<open>total_used_\<close>, \<^verbatim>\<open>total_size_\<close>, \<^verbatim>\<open>total_open_\<close>) are left out, and allocations succeed.
\<close>

section \<open>State\<close>

record xz_block =
  xb_data :: "u8 list option"
  xb_size :: u32
  xb_offset :: u32
  xb_compressed :: u32
  xb_flags :: u16

record memory_xz =
  xz_blocks :: "xz_block list"
  xz_used :: u32
  xz_size :: u32
  xz_log2 :: nat

definition MemoryXz_new :: memory_xz where
  "MemoryXz_new = \<lparr>xz_blocks = [], xz_used = 0, xz_size = 0, xz_log2 = 31\<rparr>"

text \<open>
  What \<^verbatim>\<open>Xzs_ReadBackward\<close> says of a stream: where it starts, its flags, and \<^verbatim>\<open>totalSize\<close> and \<^verbatim>\<open>unpackSize\<close> of its blocks.
\<close>

record xz_stream =
  xs_start :: u64
  xs_flags :: u16
  xs_blocks :: "(u64 \<times> u64) list"

text \<open>
  The members that do not change, and the parameters: \<open>xe_read_backward\<close> gives the streams found in the compressed data, the last of the
  file first, or \<open>None\<close> if \<^verbatim>\<open>Xzs_ReadBackward\<close> does not return \<^verbatim>\<open>SZ_OK\<close>; \<open>xe_unpack\<close> gives the output buffer after \<^verbatim>\<open>XzUnpacker_Code\<close>
  from the stream flags, the compressed block and the buffer before, or \<open>None\<close> if the block does not end as it should; \<open>xe_fresh\<close> is
  the contents of \<^verbatim>\<open>new uint8_t[n]\<close>.
\<close>

record xz_env =
  xe_memory :: reader
  xe_addr :: u64
  xe_size :: u64
  xe_read_backward :: "u8 list \<Rightarrow> xz_stream list option"
  xe_unpack :: "u16 \<Rightarrow> u8 list \<Rightarrow> u8 list \<Rightarrow> u8 list option"
  xe_fresh :: "nat \<Rightarrow> u8 list"

section \<open>Blocks\<close>

definition xz_unpacked :: "xz_env \<Rightarrow> xz_block \<Rightarrow> u8 list option" where
  "xz_unpacked env b =
     Option.bind (ReadFully (xe_memory env) (xe_addr env + ucast (xb_offset b)) (unat (xb_compressed b)))
       (\<lambda>data. xe_unpack env (xb_flags b) data (xe_fresh env (unat (xb_size b))))"

definition Decompress :: "xz_env \<Rightarrow> nat \<Rightarrow> memory_xz \<Rightarrow> (unit, memory_xz) outcome" where
  "Decompress env i s =
     (let b = xz_blocks s ! i
      in case xz_unpacked env b of
           None \<Rightarrow> Fail s
         | Some d \<Rightarrow> Ok () (s\<lparr>xz_used := xz_used s + xb_size b, xz_blocks := (xz_blocks s)[i := b\<lparr>xb_data := Some d\<rparr>]\<rparr>))"

fun stream_blocks :: "u16 \<Rightarrow> u64 \<Rightarrow> (u64 \<times> u64) list \<Rightarrow> xz_block list" where
  "stream_blocks flags src_offset [] = []"
| "stream_blocks flags src_offset ((total_size, unpack_size) # bs) =
     (let b = \<lparr>xb_data = None, xb_size = ucast unpack_size, xb_offset = ucast src_offset,
                xb_compressed = ucast ((total_size + 3) AND 0xFFFFFFFC), xb_flags = flags\<rparr>
      in b # stream_blocks flags (src_offset + ucast (xb_compressed b)) bs)"

definition all_blocks :: "xz_stream list \<Rightarrow> xz_block list" where
  "all_blocks streams = concat (map (\<lambda>st. stream_blocks (xs_flags st) (xs_start st + 12) (xs_blocks st)) (rev streams))"

definition dst_offset :: "xz_block list \<Rightarrow> u64" where
  "dst_offset bs = sum_list (map (\<lambda>b. ucast (xb_size b)) bs)"

definition ReadBlocks :: "xz_env \<Rightarrow> memory_xz \<Rightarrow> (unit, memory_xz) outcome" where
  "ReadBlocks env s =
     (case ReadFully (xe_memory env) (xe_addr env) (unat (xe_size env)) of
        None \<Rightarrow> Fail s
      | Some data \<Rightarrow>
          let s = (case xe_read_backward env data of
                     None \<Rightarrow> s
                   | Some streams \<Rightarrow>
                       let bs = all_blocks streams in s\<lparr>xz_blocks := xz_blocks s @ bs, xz_size := ucast (dst_offset bs)\<rparr>)
          in if xz_blocks s = [] then Fail s else Ok () s)"

section \<open>Initialisation\<close>

text \<open>\<^verbatim>\<open>__builtin_ctz\<close> of a number that is not 0.\<close>

definition ctz :: "u32 \<Rightarrow> nat" where
  "ctz w = length (takeWhile (\<lambda>i. \<not> bit w i) [0 ..< 32])"

text \<open>The loop that decompresses everything into one array: the blocks still to visit, and the offset of the next one.\<close>

fun merge_blocks :: "xz_env \<Rightarrow> nat \<Rightarrow> nat list \<Rightarrow> u8 list \<Rightarrow> memory_xz \<Rightarrow> (u8 list, memory_xz) outcome" where
  "merge_blocks env offset [] data s = Ok data s"
| "merge_blocks env offset (i # is) data s =
     bind_out (Decompress env i s) (\<lambda>_ s.
       let b = xz_blocks s ! i; n = unat (xb_size b)
       in case xb_data b of
            None \<Rightarrow> Undef UB_Null
          | Some d \<Rightarrow>
              if length data < offset + n then Undef UB_Bounds
              else merge_blocks env (offset + n) is (take offset data @ take n d @ drop (offset + n) data) s)"

definition one_block_size :: "nat \<Rightarrow> xz_block list \<Rightarrow> bool" where
  "one_block_size k bs \<longleftrightarrow>
     list_all (\<lambda>b. xb_size b = push_bit k 1) (butlast bs) \<and> xb_size (last bs) \<le> push_bit k 1"

definition MemoryXz_Init :: "xz_env \<Rightarrow> memory_xz \<Rightarrow> (unit, memory_xz) outcome" where
  "MemoryXz_Init env s =
     (if 2 ^ 30 \<le> xe_size env then Fail s
      else bind_out (ReadBlocks env s) (\<lambda>_ s.
        if length (xz_blocks s) \<le> 1 then Ok () s
        else if xb_size (hd (xz_blocks s)) = 0 then Undef UB_Builtin
        else
          let k = ctz (xb_size (hd (xz_blocks s)))
          in if one_block_size k (xz_blocks s) then Ok () (s\<lparr>xz_log2 := k\<rparr>)
             else bind_out (merge_blocks env 0 [0 ..< length (xz_blocks s)] (xe_fresh env (unat (xz_size s))) s) (\<lambda>data s.
                    Ok () (s\<lparr>xz_blocks := [\<lparr>xb_data = Some data, xb_size = xz_size s, xb_offset = 0, xb_compressed = 0, xb_flags = 0\<rparr>],
                             xz_log2 := 31\<rparr>))))"

section \<open>Reading\<close>

definition block_data :: "xz_env \<Rightarrow> nat \<Rightarrow> memory_xz \<Rightarrow> (u8 list, memory_xz) outcome" where
  "block_data env i s =
     bind_out (if xb_data (xz_blocks s ! i) = None then Decompress env i s else Ok () s) (\<lambda>_ s.
       case xb_data (xz_blocks s ! i) of None \<Rightarrow> Undef UB_Null | Some d \<Rightarrow> Ok d s)"

text \<open>The loop over the blocks, given by the indices still to visit; the result is what is copied to the buffer from here on.\<close>

fun read_blocks :: "xz_env \<Rightarrow> nat list \<Rightarrow> u64 \<Rightarrow> nat \<Rightarrow> memory_xz \<Rightarrow> (u8 list, memory_xz) outcome" where
  "read_blocks env [] addr n s = Ok [] s"
| "read_blocks env (i # is) addr n s =
     (case block_data env i s of
        Fail s \<Rightarrow> Ok [] s
      | Abort \<Rightarrow> Abort
      | Undef k \<Rightarrow> Undef k
      | Ok d s \<Rightarrow>
          let offset = addr - push_bit (xz_log2 s) (of_nat i);
              copied = min n (unat (ucast (xb_size (xz_blocks s ! i)) - offset));
              out = take copied (drop (unat offset) d)
          in if length d < unat offset + copied then Undef UB_Bounds
             else if n - copied = 0 then Ok out s
             else bind_out (read_blocks env is (addr + of_nat copied) (n - copied) s) (\<lambda>rest s. Ok (out @ rest) s))"

definition MemoryXz_Read :: "xz_env \<Rightarrow> u64 \<Rightarrow> nat \<Rightarrow> memory_xz \<Rightarrow> (u8 list, memory_xz) outcome" where
  "MemoryXz_Read env addr n s =
     (if ucast (xz_size s) \<le> addr then Ok [] s
      else read_blocks env [unat (drop_bit (xz_log2 s) addr) ..< length (xz_blocks s)] addr n s)"

text \<open>A sequence of reads, each in the state the one before left.\<close>

fun xz_reads :: "xz_env \<Rightarrow> (u64 \<times> nat) list \<Rightarrow> memory_xz \<Rightarrow> (u8 list list, memory_xz) outcome" where
  "xz_reads env [] s = Ok [] s"
| "xz_reads env ((a, n) # rs) s =
     bind_out (MemoryXz_Read env a n s) (\<lambda>v s. bind_out (xz_reads env rs s) (\<lambda>vs s. Ok (v # vs) s))"

end
