(* ===== verification/Xz_Contents.thy ===== *)
theory Xz_Contents
  imports Memory_Xz
begin

text \<open>
  What a \<^verbatim>\<open>MemoryXz\<close> shows: the bytes of its blocks one after another, whichever of them were decompressed before.
\<close>

section \<open>Blocks and what they hold\<close>

definition block_bytes :: "xz_env \<Rightarrow> xz_block \<Rightarrow> u8 list option" where
  "block_bytes env b = (case xb_data b of None \<Rightarrow> xz_unpacked env b | Some d \<Rightarrow> Some d)"

text \<open>What reads depend on: not which blocks are decompressed, but what they hold.\<close>

definition xz_view :: "xz_env \<Rightarrow> memory_xz \<Rightarrow> nat \<times> u32 \<times> (u32 \<times> u8 list option) list" where
  "xz_view env s = (xz_log2 s, xz_size s, map (\<lambda>b. (xb_size b, block_bytes env b)) (xz_blocks s))"

lemma xz_viewD:
  assumes "xz_view env s = xz_view env t"
  shows "xz_log2 s = xz_log2 t" "xz_size s = xz_size t" "length (xz_blocks s) = length (xz_blocks t)"
    and "i < length (xz_blocks t) \<Longrightarrow> xb_size (xz_blocks s ! i) = xb_size (xz_blocks t ! i)"
    and "i < length (xz_blocks t) \<Longrightarrow> block_bytes env (xz_blocks s ! i) = block_bytes env (xz_blocks t ! i)"
proof -
  have m: "map (\<lambda>b. (xb_size b, block_bytes env b)) (xz_blocks s) = map (\<lambda>b. (xb_size b, block_bytes env b)) (xz_blocks t)"
    and *: "xz_log2 s = xz_log2 t" "xz_size s = xz_size t"
    using assms by (simp_all add: xz_view_def)
  have l: "length (xz_blocks s) = length (xz_blocks t)"
    using m by (rule map_eq_imp_length_eq)
  show "xz_log2 s = xz_log2 t" "xz_size s = xz_size t" "length (xz_blocks s) = length (xz_blocks t)"
    using * l by auto
  show "i < length (xz_blocks t) \<Longrightarrow> xb_size (xz_blocks s ! i) = xb_size (xz_blocks t ! i)"
    and "i < length (xz_blocks t) \<Longrightarrow> block_bytes env (xz_blocks s ! i) = block_bytes env (xz_blocks t ! i)"
    using arg_cong [OF m, of "\<lambda>xs. xs ! i"] l by auto
qed

lemma map_update_same: "i < length xs \<Longrightarrow> f v = f (xs ! i) \<Longrightarrow> map f (xs[i := v]) = map f xs"
  by (simp add: map_update list_update_same_conv)

lemma xz_view_update:
  assumes "xz_unpacked env (xz_blocks s ! i) = Some d" and "xb_data (xz_blocks s ! i) = None" and "i < length (xz_blocks s)"
  shows "xz_view env (s\<lparr>xz_used := u, xz_blocks := (xz_blocks s)[i := (xz_blocks s ! i)\<lparr>xb_data := Some d\<rparr>]\<rparr>) = xz_view env s"
  using assms by (simp add: xz_view_def block_bytes_def map_update_same)

text \<open>Fetching a block gives what it holds.\<close>

lemma block_data_eq:
  assumes "i < length (xz_blocks s)"
  shows "\<exists>t. xz_view env t = xz_view env s \<and>
    block_data env i s = (case block_bytes env (xz_blocks s ! i) of None \<Rightarrow> Fail s | Some d \<Rightarrow> Ok d t)"
proof (cases "xb_data (xz_blocks s ! i)")
  case (Some d)
  then show ?thesis
    by (auto simp: block_data_def block_bytes_def)
next
  case None
  show ?thesis
  proof (cases "xz_unpacked env (xz_blocks s ! i)")
    case N: None
    then show ?thesis
      using None by (auto simp: block_data_def block_bytes_def Decompress_def Let_def)
  next
    case (Some d)
    show ?thesis
      using None Some assms xz_view_update [OF Some None assms, of "xz_used s + xb_size (xz_blocks s ! i)"]
      by (auto simp: block_data_def block_bytes_def Decompress_def Let_def)
  qed
qed

section \<open>The cache of decompressed blocks is transparent\<close>

text \<open>Two outcomes with the same result whose states differ at most in which blocks are decompressed.\<close>

definition same_result :: "xz_env \<Rightarrow> ('v, memory_xz) outcome \<Rightarrow> ('v, memory_xz) outcome \<Rightarrow> bool" where
  "same_result env r q \<longleftrightarrow> map_state (xz_view env) (xz_view env) r = map_state (xz_view env) (xz_view env) q"

lemma same_result_simps [simp]:
  "same_result env (Ok v s) q \<longleftrightarrow> (\<exists>t. q = Ok v t \<and> xz_view env s = xz_view env t)"
  "same_result env (Fail s) q \<longleftrightarrow> (\<exists>t. q = Fail t \<and> xz_view env s = xz_view env t)"
  "same_result env (Undef k) q \<longleftrightarrow> q = Undef k"
  "same_result env Abort q \<longleftrightarrow> q = Abort"
  by (cases q; auto simp: same_result_def)+

lemma same_result_bind:
  assumes "same_result env r q" and "\<And>v s t. xz_view env s = xz_view env t \<Longrightarrow> same_result env (f v s) (f v t)"
  shows "same_result env (bind_out r f) (bind_out q f)"
  using assms by (cases r) auto

lemma block_data_same:
  assumes "xz_view env s = xz_view env t" and "i < length (xz_blocks t)"
  shows "same_result env (block_data env i s) (block_data env i t)"
proof -
  note v = xz_viewD [OF assms(1)]
  obtain s' t' where "xz_view env s' = xz_view env s" "xz_view env t' = xz_view env t"
    "block_data env i s = (case block_bytes env (xz_blocks s ! i) of None \<Rightarrow> Fail s | Some d \<Rightarrow> Ok d s')"
    "block_data env i t = (case block_bytes env (xz_blocks t ! i) of None \<Rightarrow> Fail t | Some d \<Rightarrow> Ok d t')"
    using block_data_eq [of i s env] block_data_eq [of i t env] assms(2) v(3) by auto
  then show ?thesis
    using assms v(5) [of i] by (simp split: option.split)
qed

lemma read_blocks_same:
  assumes "xz_view env s = xz_view env t" and "\<forall>i\<in>set is. i < length (xz_blocks t)"
  shows "same_result env (read_blocks env is addr n s) (read_blocks env is addr n t)"
  using assms
proof (induction "is" arbitrary: addr n s t)
  case (Cons i "is")
  have i: "i < length (xz_blocks t)"
    using Cons.prems by simp
  note d = block_data_same [OF Cons.prems(1) i]
  obtain t' where t': "xz_view env t' = xz_view env t"
    "block_data env i t = (case block_bytes env (xz_blocks t ! i) of None \<Rightarrow> Fail t | Some d \<Rightarrow> Ok d t')"
    using block_data_eq [OF i] by blast
  show ?case
  proof (cases "block_bytes env (xz_blocks t ! i)")
    case None
    then obtain s' where "block_data env i s = Fail s'" "xz_view env s' = xz_view env t"
      using d t' by (cases "block_data env i s") auto
    then show ?thesis
      using None t' by simp
  next
    case (Some b)
    then obtain s' where s': "block_data env i s = Ok b s'" "xz_view env s' = xz_view env t'"
      using d t' by (cases "block_data env i s") auto
    note v = xz_viewD [OF s'(2)] and w = xz_viewD [OF t'(1)]
    have lt: "i < length (xz_blocks t')" "\<forall>j\<in>set is. j < length (xz_blocks t')"
      using i Cons.prems(2) w(3) by auto
    note IH = Cons.IH [OF s'(2) lt(2)]
    show ?thesis
      using Some t' s' v(1) v(4) [OF lt(1)]
      by (auto simp: Let_def s'(2) intro!: same_result_bind IH)
  qed
qed simp

lemma MemoryXz_Read_same:
  assumes "xz_view env s = xz_view env t"
  shows "same_result env (MemoryXz_Read env a n s) (MemoryXz_Read env a n t)"
  using read_blocks_same [OF assms] xz_viewD(1-3) [OF assms] assms by (auto simp: MemoryXz_Read_def)

section \<open>Reads show the contents\<close>

text \<open>The object shows the blocks \<open>ds\<close>: all can be decompressed, and all but the last have the size by which reads find them.\<close>

definition xz_shows :: "xz_env \<Rightarrow> u8 list list \<Rightarrow> memory_xz \<Rightarrow> bool" where
  "xz_shows env ds s \<longleftrightarrow>
     map (\<lambda>b. (unat (xb_size b), block_bytes env b)) (xz_blocks s) = map (\<lambda>d. (length d, Some d)) ds \<and>
     unat (xz_size s) = length (concat ds) \<and> (\<forall>d\<in>set (butlast ds). length d = 2 ^ xz_log2 s) \<and>
     length (last ds) \<le> 2 ^ xz_log2 s \<and> ds \<noteq> []"

lemma xz_shows_block:
  assumes "xz_shows env ds s" and "i < length ds"
  shows "unat (xb_size (xz_blocks s ! i)) = length (ds ! i)" "block_bytes env (xz_blocks s ! i) = Some (ds ! i)"
    "length (xz_blocks s) = length ds"
proof -
  have m: "map (\<lambda>b. (unat (xb_size b), block_bytes env b)) (xz_blocks s) = map (\<lambda>d. (length d, Some d)) ds"
    using assms by (simp add: xz_shows_def)
  show l: "length (xz_blocks s) = length ds"
    using m by (rule map_eq_imp_length_eq)
  show "unat (xb_size (xz_blocks s ! i)) = length (ds ! i)" "block_bytes env (xz_blocks s ! i) = Some (ds ! i)"
    using arg_cong [OF m, of "\<lambda>xs. xs ! i"] assms l by auto
qed

lemma xz_shows_view:
  assumes "xz_view env t = xz_view env s" and "xz_shows env ds s"
  shows "xz_shows env ds t"
proof -
  have "map (\<lambda>b. (unat (xb_size b), block_bytes env b)) (xz_blocks t) = map (\<lambda>b. (unat (xb_size b), block_bytes env b)) (xz_blocks s)"
    using xz_viewD(3-5) [OF assms(1)] by (auto simp: list_eq_iff_nth_eq)
  then show ?thesis
    using assms xz_viewD(1,2) [OF assms(1)] by (simp add: xz_shows_def)
qed

lemma xz_shows_equal: "xz_shows env ds s \<Longrightarrow> Suc j < length ds \<Longrightarrow> length (ds ! j) = 2 ^ xz_log2 s"
  using nth_mem [of j "butlast ds"] by (auto simp: xz_shows_def nth_butlast)

lemma concat_equal_blocks:
  assumes "\<And>j. j < i \<Longrightarrow> length (ds ! j) = c" and "i \<le> length ds"
  shows "length (concat (take i ds)) = i * c"
  using assms
proof (induction i)
  case (Suc i)
  then show ?case
    by (simp add: take_Suc_conv_app_nth)
qed simp

lemma concat_from_block:
  "i < length ds \<Longrightarrow> concat ds = concat (take i ds) @ ds ! i @ concat (drop (Suc i) ds)"
  by (metis append_take_drop_id Cons_nth_drop_Suc concat.simps(2) concat_append)

lemma block_offset:
  assumes "unat (addr :: u64) = i * 2 ^ L + off"
  shows "unat (addr - push_bit L (of_nat i)) = off"
proof -
  have "addr = of_nat (i * 2 ^ L + off)"
    by (simp flip: assms)
  moreover have "push_bit L (of_nat i :: u64) = of_nat (i * 2 ^ L)"
    by (simp add: push_bit_eq_mult)
  moreover have "off < 2 ^ 64"
    using assms unat_bound [of addr] by simp
  ultimately show ?thesis
    by (simp add: unat_of_nat take_bit_nat_eq_self)
qed

lemma unat_ucast_size: "unat (ucast (w :: u32) :: u64) = unat w"
  by transfer (simp add: take_bit_int_eq_self order.strict_trans2 [OF take_bit_int_less_exp])

lemma unat_ucast_mod: "unat (ucast (w :: u64) :: u32) = unat w mod 2 ^ 32"
  using unat_of_nat [of "unat w", where ?'a = 32] by (simp add: of_nat_unat take_bit_eq_mod)

lemma block_rest:
  assumes "unat (offset :: u64) \<le> unat (w :: u32)"
  shows "unat (ucast w - offset) = unat w - unat offset"
proof -
  show ?thesis
    using assms by (simp add: unat_sub word_le_nat_alt unat_ucast_size)
qed

lemma unat_plus_of_nat: "unat (a :: u64) + k < 2 ^ 64 \<Longrightarrow> unat (a + of_nat k) = unat a + k"
  by (simp add: unat_word_ariths unat_of_nat take_bit_nat_eq_self)

lemma read_blocks_shows:
  assumes "xz_shows env ds s" and "i < length ds" and "unat addr = i * 2 ^ xz_log2 s + off" and "off \<le> length (ds ! i)"
  shows "\<exists>t. xz_view env t = xz_view env s \<and>
    read_blocks env [i ..< length ds] addr n s = Ok (take n (drop off (ds ! i) @ concat (drop (Suc i) ds))) t"
  using assms
proof (induction "length ds - i" arbitrary: i addr off n s)
  case (Suc k)
  note b = xz_shows_block [OF Suc.prems(1,2)]
  have ups: "[i ..< length ds] = i # [Suc i ..< length ds]"
    using Suc.prems by (simp add: upt_conv_Cons)
  obtain t where t: "xz_view env t = xz_view env s" "block_data env i s = Ok (ds ! i) t"
    using block_data_eq [of i s env] b Suc.prems by auto
  note st = xz_shows_view [OF t(1) Suc.prems(1)] and v = xz_viewD [OF t(1)]
  note bt = xz_shows_block [OF st Suc.prems(2)]
  let ?o = "addr - push_bit (xz_log2 t) (of_nat i)" and ?m = "length (ds ! i) - off"
  have o: "unat ?o = off"
    using block_offset [OF Suc.prems(3)] v(1) by simp
  have c: "unat (ucast (xb_size (xz_blocks t ! i)) - ?o) = ?m"
    using block_rest [of ?o "xb_size (xz_blocks t ! i)"] o bt Suc.prems(4) by simp
  show ?case
  proof (cases "n \<le> ?m")
    case True
    then show ?thesis
      using t o c Suc.prems(4) by (simp add: ups Let_def min_absorb1)
  next
    case False
    have sz: "length (concat (take i ds)) = i * 2 ^ xz_log2 s"
      using xz_shows_equal [OF Suc.prems(1)] Suc.prems(2) by (intro concat_equal_blocks) auto
    have "i * 2 ^ xz_log2 s + length (ds ! i) \<le> unat (xz_size s)"
      using Suc.prems(1) arg_cong [OF concat_from_block [OF Suc.prems(2)], of length] sz by (simp add: xz_shows_def)
    then have small: "unat addr + ?m < 2 ^ 64"
      using Suc.prems(3,4) unat_bound [of "xz_size s"] by simp
    have after: "unat (addr + of_nat ?m) = i * 2 ^ xz_log2 s + length (ds ! i)"
      using unat_plus_of_nat [OF small] Suc.prems(3,4) by simp
    have "\<exists>u. xz_view env u = xz_view env t \<and>
      read_blocks env [Suc i ..< length ds] (addr + of_nat ?m) (n - ?m) t = Ok (take (n - ?m) (concat (drop (Suc i) ds))) u"
    proof (cases "Suc i < length ds")
      case S: True
      then have "length (ds ! i) = 2 ^ xz_log2 t"
        using xz_shows_equal [OF st] by simp
      then have "unat (addr + of_nat ?m) = Suc i * 2 ^ xz_log2 t + 0"
        using after v(1) by simp
      from Suc.hyps(1) [OF _ st S this, where n = "n - ?m"] show ?thesis
        using Suc.hyps(2) S by (simp add: Cons_nth_drop_Suc [symmetric])
    qed (use Suc.prems in auto)
    then obtain u where "xz_view env u = xz_view env t"
      "read_blocks env [Suc i ..< length ds] (addr + of_nat ?m) (n - ?m) t = Ok (take (n - ?m) (concat (drop (Suc i) ds))) u"
      by blast
    moreover have "length (ds ! i) < n + off"
      using False Suc.prems(4) by simp
    ultimately show ?thesis
      using False t o c Suc.prems(4) by (simp add: ups Let_def min_absorb2)
  qed
qed simp

lemma MemoryXz_Read_shows:
  assumes "xz_shows env ds s"
  shows "\<exists>t. xz_view env t = xz_view env s \<and> MemoryXz_Read env addr n s = Ok (take n (drop (unat addr) (concat ds))) t"
proof (cases "ucast (xz_size s) \<le> addr")
  case True
  then have "length (concat ds) \<le> unat addr"
    using assms by (simp add: xz_shows_def word_le_nat_alt unat_ucast_size)
  then show ?thesis
    using True by (simp add: MemoryXz_Read_def)
next
  case False
  let ?i = "unat (drop_bit (xz_log2 s) addr)" and ?L = "xz_log2 s"
  have lt: "unat addr < length (concat ds)"
    using False assms by (simp add: xz_shows_def word_le_nat_alt unat_ucast_size not_le)
  have i: "?i = unat addr div 2 ^ ?L"
    unfolding unat_drop_bit_eq by (simp add: drop_bit_eq_div)
  have eq: "\<And>j. Suc j < length ds \<Longrightarrow> length (ds ! j) = 2 ^ ?L"
    using xz_shows_equal [OF assms] .
  have len: "length (xz_blocks s) = length ds" "ds \<noteq> []"
    using assms xz_shows_block(3) [OF assms, of 0] by (auto simp: xz_shows_def)
  have "length (concat ds) = (length ds - 1) * 2 ^ ?L + length (last ds)"
    using concat_from_block [of "length ds - 1" ds] concat_equal_blocks [of "length ds - 1" ds "2 ^ ?L"] eq len(2)
    by (simp add: last_conv_nth)
  moreover have "length (last ds) \<le> 2 ^ ?L"
    using assms by (simp add: xz_shows_def)
  ultimately have "unat addr < length ds * 2 ^ ?L"
    using lt len(2) by (cases ds) auto
  then have il: "?i < length ds"
    unfolding i by (simp add: less_mult_imp_div_less)
  let ?off = "unat addr mod 2 ^ ?L"
  have a: "unat addr = ?i * 2 ^ ?L + ?off"
    unfolding i by (rule div_mult_mod_eq [symmetric])
  have ct: "length (concat (take ?i ds)) = ?i * 2 ^ ?L"
    using eq il by (intro concat_equal_blocks) auto
  have off: "?off \<le> length (ds ! ?i)"
  proof (cases "Suc ?i < length ds")
    case True
    then show ?thesis
      using eq by simp
  next
    case False
    then show ?thesis
      using lt a ct concat_from_block [OF il] il by simp
  qed
  have rest: "unat addr - ?i * 2 ^ ?L = ?off"
    using a by linarith
  have "drop (unat addr) (concat ds) = drop ?off (ds ! ?i) @ concat (drop (Suc ?i) ds)"
    using concat_from_block [OF il] ct off a rest by simp
  then show ?thesis
    using read_blocks_shows [OF assms il a off] False len by (simp add: MemoryXz_Read_def)
qed

lemma xz_reads_show:
  assumes "xz_shows env ds s"
  shows "\<exists>t. xz_reads env rs s = Ok (map (\<lambda>(a, n). take n (drop (unat a) (concat ds))) rs) t"
  using assms
proof (induction rs arbitrary: s)
  case (Cons r rs)
  obtain a n where r: "r = (a, n)"
    by force
  obtain t where t: "xz_view env t = xz_view env s" "MemoryXz_Read env a n s = Ok (take n (drop (unat a) (concat ds))) t"
    using MemoryXz_Read_shows [OF Cons.prems] by blast
  then show ?case
    using Cons.IH [OF xz_shows_view [OF t(1) Cons.prems]] r by auto
qed simp

text \<open>So the memory satisfies the contract that its clients, the sections and symbol tables of the debug data, rely on.\<close>

definition xz_reader :: "xz_env \<Rightarrow> memory_xz \<Rightarrow> reader" where
  "xz_reader env s addr n = (case MemoryXz_Read env addr n s of Ok bs _ \<Rightarrow> bs | _ \<Rightarrow> [])"

lemma xz_flat_memory:
  assumes "xz_shows env ds s"
  shows "flat_memory (xz_reader env s) (window_content ((!) (concat ds)) 0 (ucast (xz_size s)))"
proof
  fix a n
  have len: "unat (ucast (xz_size s) :: u64) = length (concat ds)"
    using assms by (simp add: xz_shows_def unat_ucast_size)
  have rd: "xz_reader env s a n = take n (drop (unat a) (concat ds))"
    using MemoryXz_Read_shows [OF assms, of a n] by (auto simp: xz_reader_def)
  show "xz_reader env s a n = flat_read (window_content ((!) (concat ds)) 0 (ucast (xz_size s))) a n"
  proof (cases "ucast (xz_size s) \<le> a")
    case True
    then show ?thesis
      using rd len by (simp add: flat_read_window word_le_nat_alt)
  next
    case False
    then have "unat (ucast (xz_size s) - a) = length (concat ds) - unat a"
      using len by (simp add: unat_sub)
    then show ?thesis
      using rd False by (auto simp: flat_read_window copy_bytes_def list_eq_iff_nth_eq min_def)
  qed
qed

section \<open>Initialisation\<close>

lemma xz_unpacked_data [simp]: "xz_unpacked env (b\<lparr>xb_data := x\<rparr>) = xz_unpacked env b"
  by (simp add: xz_unpacked_def)

lemma merge_blocks_eq:
  assumes "length (xz_blocks s) = length ds" and "i \<le> length ds" and "length (concat (take i ds)) \<le> length data"
    and "\<And>j. j < length ds \<Longrightarrow> xz_unpacked env (xz_blocks s ! j) = Some (ds ! j) \<and> unat (xb_size (xz_blocks s ! j)) = length (ds ! j)"
  shows "\<exists>t. xz_size t = xz_size s \<and> merge_blocks env (length (concat (take i ds))) [i ..< length ds] data s =
    (if length (concat ds) \<le> length data
     then Ok (take (length (concat (take i ds))) data @ concat (drop i ds) @ drop (length (concat ds)) data) t else Undef UB_Bounds)"
  using assms
proof (induction "length ds - i" arbitrary: i data s)
  case 0
  then show ?case
    by simp
next
  case (Suc k)
  then have i: "i < length ds"
    by simp
  let ?o = "length (concat (take i ds))" and ?n = "length (ds ! i)"
  let ?s = "s\<lparr>xz_used := xz_used s + xb_size (xz_blocks s ! i), xz_blocks := (xz_blocks s)[i := (xz_blocks s ! i)\<lparr>xb_data := Some (ds ! i)\<rparr>]\<rparr>"
  have ups: "[i ..< length ds] = i # [Suc i ..< length ds]"
    using i by (simp add: upt_conv_Cons)
  have D: "Decompress env i s = Ok () ?s"
    using Suc.prems(4) [OF i] by (simp add: Decompress_def Let_def)
  have b: "xz_blocks ?s ! i = (xz_blocks s ! i)\<lparr>xb_data := Some (ds ! i)\<rparr>"
    using i Suc.prems(1) by simp
  have o: "length (concat (take (Suc i) ds)) = ?o + ?n"
    using i by (simp add: take_Suc_conv_app_nth)
  have total: "length (concat ds) = ?o + ?n + length (concat (drop (Suc i) ds))"
    using arg_cong [OF concat_from_block [OF i], of length] by simp
  show ?case
  proof (cases "length data < ?o + ?n")
    case True
    then show ?thesis
      using D b Suc.prems(4) [OF i] total by (auto simp: ups Let_def simp del: length_concat)
  next
    case False
    let ?data = "take ?o data @ ds ! i @ drop (?o + ?n) data"
    have l: "length ?data = length data"
      using False by simp
    have tk: "take (?o + ?n) ?data = take ?o data @ ds ! i"
      using False by simp
    have dr: "drop (length (concat ds)) ?data = drop (length (concat ds)) data"
      using False total by (simp add: add.commute add.left_commute del: length_concat)
    have c: "concat (drop i ds) = ds ! i @ concat (drop (Suc i) ds)"
      using i by (simp add: Cons_nth_drop_Suc [symmetric])
    have sz: "xz_size ?s = xz_size s"
      by simp
    have "\<exists>t. xz_size t = xz_size ?s \<and> merge_blocks env (length (concat (take (Suc i) ds))) [Suc i ..< length ds] ?data ?s =
      (if length (concat ds) \<le> length ?data
       then Ok (take (length (concat (take (Suc i) ds))) ?data @ concat (drop (Suc i) ds) @ drop (length (concat ds)) ?data) t
       else Undef UB_Bounds)"
    proof (rule Suc.hyps(1))
      show "length (concat (take (Suc i) ds)) \<le> length ?data"
        using o l False by simp
      show "xz_unpacked env (xz_blocks ?s ! j) = Some (ds ! j) \<and> unat (xb_size (xz_blocks ?s ! j)) = length (ds ! j)"
        if "j < length ds" for j
        using Suc.prems(1) Suc.prems(4) [OF that] that i by (cases "j = i") auto
    qed (use Suc.hyps(2) Suc.prems(1) i in auto)
    then have "\<exists>t. xz_size t = xz_size s \<and> merge_blocks env (?o + ?n) [Suc i ..< length ds] ?data ?s =
      (if length (concat ds) \<le> length data
       then Ok (take ?o data @ concat (drop i ds) @ drop (length (concat ds)) data) t else Undef UB_Bounds)"
      unfolding o tk l dr c sz append_assoc .
    then show ?thesis
      using D b Suc.prems(4) [OF i] False by (auto simp: ups Let_def simp del: length_concat)
  qed
qed

lemma unat_dst_offset:
  "sum_list (map (\<lambda>b. unat (xb_size b)) bs) < 2 ^ 64 \<Longrightarrow> unat (dst_offset bs) = sum_list (map (\<lambda>b. unat (xb_size b)) bs)"
proof (induction bs)
  case (Cons b bs)
  then have "unat (dst_offset bs) = sum_list (map (\<lambda>b. unat (xb_size b)) bs)"
    by simp
  then show ?case
    using Cons.prems by (simp add: dst_offset_def unat_word_ariths unat_ucast_size)
qed (simp add: dst_offset_def)

lemma ctz_less: "w \<noteq> 0 \<Longrightarrow> ctz w < 32"
proof -
  assume "w \<noteq> 0"
  then obtain i where "bit w i"
    by (auto simp: bit_eq_iff)
  moreover from this have "i < 32"
    using bit_imp_le_length [of w i] by simp
  ultimately have "takeWhile (\<lambda>i. \<not> bit w i) [0 ..< 32] \<noteq> [0 ..< 32]"
    using set_takeWhileD [of i "\<lambda>i. \<not> bit w i" "[0 ..< 32]"] by (metis atLeastLessThan_iff set_upt zero_le)
  then show ?thesis
    using takeWhile_eq_take length_takeWhile_le [of "\<lambda>i. \<not> bit w i" "[0 ..< 32]"]
    unfolding ctz_def by (metis diff_zero length_upt nat_less_le take_all_iff order_refl)
qed

lemma unat_power_u32: "k < 32 \<Longrightarrow> unat (push_bit k 1 :: u32) = 2 ^ k"
  using unat_of_nat [of "2 ^ k", where ?'a = 32] power_strict_increasing [of k 32 "2 :: nat"]
  by (simp add: take_bit_nat_eq_self)

text \<open>The state after \<^verbatim>\<open>ReadBlocks\<close>, and what the library promises of its buffers.\<close>

definition listed :: "xz_stream list \<Rightarrow> memory_xz" where
  "listed streams = MemoryXz_new\<lparr>xz_blocks := all_blocks streams, xz_size := ucast (dst_offset (all_blocks streams))\<rparr>"

definition unpacks_to :: "xz_env \<Rightarrow> xz_stream list \<Rightarrow> u8 list list \<Rightarrow> bool" where
  "unpacks_to env streams ds \<longleftrightarrow>
     xe_size env < 2 ^ 30 \<and>
     Option.bind (ReadFully (xe_memory env) (xe_addr env) (unat (xe_size env))) (xe_read_backward env) = Some streams \<and>
     map (xz_unpacked env) (all_blocks streams) = map Some ds"

definition keeps_lengths :: "xz_env \<Rightarrow> bool" where
  "keeps_lengths env \<longleftrightarrow>
     (\<forall>n. length (xe_fresh env n) = n) \<and> (\<forall>f d b out. xe_unpack env f d b = Some out \<longrightarrow> length out = length b)"

lemma unpacked_block:
  assumes "unpacks_to env streams ds" and "keeps_lengths env" and "j < length ds"
  shows "xz_unpacked env (all_blocks streams ! j) = Some (ds ! j)"
    and "unat (xb_size (all_blocks streams ! j)) = length (ds ! j)"
proof -
  have m: "map (xz_unpacked env) (all_blocks streams) = map Some ds"
    using assms by (simp add: unpacks_to_def)
  show u: "xz_unpacked env (all_blocks streams ! j) = Some (ds ! j)"
    using arg_cong [OF m, of "\<lambda>xs. xs ! j"] map_eq_imp_length_eq [OF m] assms(3) by simp
  then obtain d where "xe_unpack env (xb_flags (all_blocks streams ! j)) d (xe_fresh env (unat (xb_size (all_blocks streams ! j)))) = Some (ds ! j)"
    by (auto simp: xz_unpacked_def bind_eq_Some_conv)
  then show "unat (xb_size (all_blocks streams ! j)) = length (ds ! j)"
    using assms(2) unfolding keeps_lengths_def by metis
qed

lemma unpacked_blocks:
  assumes "unpacks_to env streams ds"
  shows "length (all_blocks streams) = length ds" and "ds \<noteq> [] \<Longrightarrow> all_blocks streams \<noteq> []"
proof -
  show l: "length (all_blocks streams) = length ds"
    using assms unfolding unpacks_to_def by (blast dest: map_eq_imp_length_eq)
  show "all_blocks streams \<noteq> []" if "ds \<noteq> []"
    using l that by (cases ds) auto
qed

lemma unpacked_sizes:
  assumes "unpacks_to env streams ds" and "keeps_lengths env"
  shows "map (\<lambda>b. unat (xb_size b)) (all_blocks streams) = map length ds"
  using unpacked_block(2) [OF assms] unpacked_blocks(1) [OF assms(1)] by (simp add: list_eq_iff_nth_eq)

lemma Init_listed:
  assumes "unpacks_to env streams ds" and "ds \<noteq> []"
  shows "MemoryXz_Init env MemoryXz_new =
    (if length ds \<le> 1 then Ok () (listed streams)
     else if xb_size (hd (all_blocks streams)) = 0 then Undef UB_Builtin
     else if one_block_size (ctz (xb_size (hd (all_blocks streams)))) (all_blocks streams)
     then Ok () ((listed streams)\<lparr>xz_log2 := ctz (xb_size (hd (all_blocks streams)))\<rparr>)
     else bind_out (merge_blocks env 0 [0 ..< length ds] (xe_fresh env (unat (xz_size (listed streams)))) (listed streams)) (\<lambda>data s.
       Ok () (s\<lparr>xz_blocks := [\<lparr>xb_data = Some data, xb_size = xz_size s, xb_offset = 0, xb_compressed = 0, xb_flags = 0\<rparr>],
                xz_log2 := 31\<rparr>)))"
proof -
  obtain data where d: "ReadFully (xe_memory env) (xe_addr env) (unat (xe_size env)) = Some data" "xe_read_backward env data = Some streams"
    using assms by (auto simp: unpacks_to_def bind_eq_Some_conv)
  have n: "length (all_blocks streams) = length ds" "all_blocks streams \<noteq> []"
    using unpacked_blocks [OF assms(1)] assms(2) by auto
  have r: "ReadBlocks env MemoryXz_new = Ok () (listed streams)"
    using d n by (simp add: ReadBlocks_def listed_def MemoryXz_new_def Let_def)
  have b: "xz_blocks (listed streams) = all_blocks streams"
    by (simp add: listed_def)
  have "\<not> 2 ^ 30 \<le> xe_size env"
    using assms(1) unfolding unpacks_to_def not_le by simp
  then show ?thesis
    unfolding MemoryXz_Init_def using r b n(1) by (simp add: Let_def)
qed

lemma listed_size:
  assumes "unpacks_to env streams ds" and "keeps_lengths env" and "length ds < 2 ^ 32"
  shows "unat (xz_size (listed streams)) = length (concat ds) mod 2 ^ 32"
proof -
  have sum: "sum_list (map (\<lambda>b. unat (xb_size b)) (all_blocks streams)) = length (concat ds)"
    using unpacked_sizes [OF assms(1,2)] by (simp add: length_concat)
  have "sum_list (map (\<lambda>b. unat (xb_size b)) bs) \<le> length bs * (2 ^ 32 - 1)" for bs
  proof (induction bs)
    case (Cons b bs)
    then show ?case
      using unat_bound [of "xb_size b"] by simp
  qed simp
  from this [of "all_blocks streams"] have "length (concat ds) < 2 ^ 64"
    using unpacked_blocks(1) [OF assms(1)] assms(3) sum by simp
  then show ?thesis
    using unat_dst_offset [of "all_blocks streams"] sum by (simp add: listed_def unat_ucast_mod del: length_concat)
qed

lemma stream_blocks_none: "b \<in> set (stream_blocks flags off bs) \<Longrightarrow> xb_data b = None"
  by (induction flags off bs rule: stream_blocks.induct) (auto simp: Let_def)

lemma one_block_shows:
  assumes "unpacks_to env streams ds" and "keeps_lengths env" and "ds \<noteq> []" and "k < 32" and "one_block_size k (all_blocks streams)" and "unat (xz_size (listed streams)) = length (concat ds)"
  shows "xz_shows env ds ((listed streams)\<lparr>xz_log2 := k\<rparr>)"
proof -
  have n: "length (all_blocks streams) = length ds" and ne: "all_blocks streams \<noteq> []"
    using unpacked_blocks [OF assms(1)] assms(3) by auto
  have none: "xb_data b = None" if "b \<in> set (all_blocks streams)" for b
    using that stream_blocks_none by (auto simp: all_blocks_def)
  have "map (\<lambda>b. (unat (xb_size b), block_bytes env b)) (all_blocks streams) = map (\<lambda>d. (length d, Some d)) ds"
    using unpacked_block [OF assms(1,2)] n none by (auto simp: list_eq_iff_nth_eq block_bytes_def)
  moreover have "length d = 2 ^ k" if "d \<in> set (butlast ds)" for d
  proof -
    obtain j where j: "j < length ds - 1" "d = ds ! j"
      using \<open>d \<in> set (butlast ds)\<close> by (auto simp: in_set_conv_nth nth_butlast)
    then have "xb_size (all_blocks streams ! j) = push_bit k 1"
      using assms(5) n by (auto simp: one_block_size_def list_all_length nth_butlast)
    then show ?thesis
      using unpacked_block(2) [OF assms(1,2), of j] j unat_power_u32 [OF assms(4)] by simp
  qed
  moreover have "length (last ds) \<le> 2 ^ k"
  proof -
    have "unat (xb_size (last (all_blocks streams))) = length (last ds)"
      using unpacked_block(2) [OF assms(1,2), of "length ds - 1"] n ne assms(3) by (simp add: last_conv_nth)
    then show ?thesis
      using assms(5) unat_power_u32 [OF assms(4)] by (simp add: one_block_size_def word_le_nat_alt)
  qed
  ultimately show ?thesis
    using assms(3,6) by (auto simp: xz_shows_def listed_def)
qed

lemma merged_shows:
  assumes "unat w = length (concat ds)" and "length (concat ds) \<le> 2 ^ 31" and "xz_size s = w"
  shows "xz_shows env [concat ds]
    (s\<lparr>xz_blocks := [\<lparr>xb_data = Some (concat ds), xb_size = w, xb_offset = 0, xb_compressed = 0, xb_flags = 0\<rparr>], xz_log2 := 31\<rparr>)"
  using assms by (simp add: xz_shows_def block_bytes_def)

lemma Init_shows:
  assumes u: "unpacks_to env streams ds" and k: "keeps_lengths env" and "ds \<noteq> []" and first: "1 < length ds \<longrightarrow> hd ds \<noteq> []"
    and small: "length (concat ds) \<le> 2 ^ 31" and few: "length ds < 2 ^ 32"
  shows "\<exists>s es. MemoryXz_Init env MemoryXz_new = Ok () s \<and> xz_shows env es s \<and> concat es = concat ds"
proof -
  let ?bs = "all_blocks streams"
  note I = Init_listed [OF u \<open>ds \<noteq> []\<close>]
  have n: "length ?bs = length ds" and ne: "?bs \<noteq> []"
    using unpacked_blocks [OF u] \<open>ds \<noteq> []\<close> by auto
  have sz: "unat (xz_size (listed streams)) = length (concat ds)"
    using listed_size [OF u k few] small by (simp del: length_concat)
  have hd: "unat (xb_size (hd ?bs)) = length (hd ds)"
    using unpacked_block(2) [OF u k, of 0] ne \<open>ds \<noteq> []\<close> by (simp add: hd_conv_nth)
  consider (one) "length ds \<le> 1" | (same) "1 < length ds" "one_block_size (ctz (xb_size (hd ?bs))) ?bs"
    | (merge) "1 < length ds" "\<not> one_block_size (ctz (xb_size (hd ?bs))) ?bs"
    by linarith
  then show ?thesis
  proof cases
    case one
    then obtain d where d: "ds = [d]"
      using \<open>ds \<noteq> []\<close> by (cases ds) auto
    have "one_block_size 31 ?bs"
      using n d hd small unat_power_u32 [of 31] by (cases ?bs) (auto simp: one_block_size_def word_le_nat_alt)
    from one_block_shows [OF u k \<open>ds \<noteq> []\<close> _ this sz] have "xz_shows env ds (listed streams)"
      by (simp add: listed_def MemoryXz_new_def)
    then show ?thesis
      using I one by auto
  next
    case same
    then have nz: "xb_size (hd ?bs) \<noteq> 0"
      using hd first by auto
    show ?thesis
      using I same nz one_block_shows [OF u k \<open>ds \<noteq> []\<close> ctz_less [OF nz] same(2) sz] by auto
  next
    case merge
    then have nz: "xb_size (hd ?bs) \<noteq> 0"
      using hd first by auto
    let ?data = "xe_fresh env (unat (xz_size (listed streams)))"
    have l: "length ?data = length (concat ds)"
      using k sz by (simp add: keeps_lengths_def)
    have "\<exists>t. xz_size t = xz_size (listed streams) \<and>
      merge_blocks env 0 [0 ..< length ds] ?data (listed streams) = Ok (concat ds) t"
      using merge_blocks_eq [of "listed streams" ds 0 ?data env] unpacked_block [OF u k] n l
      by (simp add: listed_def del: length_concat)
    then show ?thesis
      using I merge nz merged_shows [OF sz small] by (auto intro!: exI [of _ "[concat ds]"])
  qed
qed


text \<open>
  C26. Blocks of different sizes are merged into an array whose size is the sum of their sizes in 32 bits: if they have 4 GiB or more
  together, \<^verbatim>\<open>MemoryXz::Init\<close> writes behind the end of the array.
\<close>

theorem MemoryXz_Init_overflow:
  assumes "keeps_lengths env" and "unpacks_to env streams ds" and "1 < length ds" and "length ds < 2 ^ 32" and "hd ds \<noteq> []"
    and "\<not> one_block_size (ctz (xb_size (hd (all_blocks streams)))) (all_blocks streams)" and "2 ^ 32 \<le> length (concat ds)"
  shows "MemoryXz_Init env MemoryXz_new = Undef UB_Bounds"
proof -
  let ?data = "xe_fresh env (unat (xz_size (listed streams)))"
  have n: "length (all_blocks streams) = length ds" "ds \<noteq> []" and ne: "all_blocks streams \<noteq> []"
    using unpacked_blocks [OF assms(2)] assms(3) by auto
  have nz: "xb_size (hd (all_blocks streams)) \<noteq> 0"
    using unpacked_block(2) [OF assms(2,1), of 0] n(2) ne assms(5) by (auto simp: hd_conv_nth)
  have "unat (xz_size (listed streams)) < length (concat ds)"
    using listed_size [OF assms(2,1,4)] assms(7) by (simp del: length_concat)
  then have "length ?data < length (concat ds)"
    using assms(1) by (simp add: keeps_lengths_def)
  then have "merge_blocks env 0 [0 ..< length ds] ?data (listed streams) = Undef UB_Bounds"
    using merge_blocks_eq [of "listed streams" ds 0 ?data env] unpacked_block [OF assms(2,1)] n(1)
    by (auto simp: listed_def simp del: length_concat)
  then show ?thesis
    using Init_listed [OF assms(2) n(2)] assms(3,6) nz by simp
qed

text \<open>An empty first block makes \<^verbatim>\<open>MemoryXz::Init\<close> call \<^verbatim>\<open>__builtin_ctz\<close> with 0.\<close>

lemma MemoryXz_Init_empty_block:
  assumes "unpacks_to env streams ds" and "1 < length ds" and "xb_size (hd (all_blocks streams)) = 0"
  shows "MemoryXz_Init env MemoryXz_new = Undef UB_Builtin"
  using Init_listed [OF assms(1)] assms(2,3) by (cases ds) auto

section \<open>Examples\<close>

text \<open>A library whose blocks are stored as they are, and a file with three blocks of different sizes.\<close>

definition stored_env :: "u8 list \<Rightarrow> xz_stream list \<Rightarrow> xz_env" where
  "stored_env bytes streams =
     \<lparr>xe_memory = (\<lambda>a n. take n (drop (unat a) bytes)), xe_addr = 0, xe_size = of_nat (length bytes), xe_read_backward = (\<lambda>_. Some streams),
      xe_unpack = (\<lambda>_ d b. Some (take (length b) d @ drop (length d) b)), xe_fresh = (\<lambda>n. replicate n 0)\<rparr>"

lemma stored_keeps_lengths: "keeps_lengths (stored_env bytes streams)"
  by (auto simp: keeps_lengths_def stored_env_def min_def)

definition three_blocks :: "xz_stream list" where
  "three_blocks = [\<lparr>xs_start = 0, xs_flags = 0, xs_blocks = [(4, 4), (4, 2), (2, 3)]\<rparr>]"

definition three_bytes :: "u8 list" where
  "three_bytes = replicate 12 0 @ [1, 2, 3, 4] @ [5, 6, 0, 0] @ [7, 8, 9, 0]"

lemma three_unpack: "unpacks_to (stored_env three_bytes three_blocks) three_blocks [[1, 2, 3, 4], [5, 6], [7, 8, 9]]"
  unfolding unpacks_to_def by code_simp


text \<open>Two blocks that announce 4 GiB and a byte together.\<close>

definition big_blocks :: "xz_stream list" where
  "big_blocks = [\<lparr>xs_start = 0, xs_flags = 0, xs_blocks = [(0, 0x80000001), (0, 0x80000000)]\<rparr>]"

definition zeros :: "nat \<Rightarrow> u8 list" where
  "zeros n = replicate n 0"

lemma big_all: "all_blocks big_blocks =
  [\<lparr>xb_data = None, xb_size = 0x80000001, xb_offset = 12, xb_compressed = 0, xb_flags = 0\<rparr>,
   \<lparr>xb_data = None, xb_size = 0x80000000, xb_offset = 12, xb_compressed = 0, xb_flags = 0\<rparr>]"
  by code_simp

lemma big_unpack: "unpacks_to (stored_env [] big_blocks) big_blocks [zeros 0x80000001, zeros 0x80000000]"
  by (simp add: unpacks_to_def big_all xz_unpacked_def stored_env_def ReadFully_def zeros_def)

lemma big_sizes: "\<not> one_block_size (ctz (xb_size (hd (all_blocks big_blocks)))) (all_blocks big_blocks)"
  unfolding big_all by code_simp

lemma MemoryXz_Init_overflow_witness:
  "keeps_lengths (stored_env [] big_blocks) \<and> unpacks_to (stored_env [] big_blocks) big_blocks [zeros 0x80000001, zeros 0x80000000] \<and>
   MemoryXz_Init (stored_env [] big_blocks) MemoryXz_new = Undef UB_Bounds"
  using MemoryXz_Init_overflow [OF stored_keeps_lengths big_unpack _ _ _ big_sizes] stored_keeps_lengths big_unpack
  by (simp add: zeros_def)

end
