(* ===== verification/Thread_Entry.thy ===== *)
theory Thread_Entry
  imports Elf_Types
begin

text \<open>
  \<^verbatim>\<open>ThreadEntry.cpp\<close> and \<^verbatim>\<open>ThreadUnwinder.cpp\<close>: unwinding another thread of the own process. The requesting thread sends a signal; the
  handler copies the context of the interrupted thread into a \<^verbatim>\<open>ThreadEntry\<close> and waits there until the unwind is complete. Any number
  of threads request unwinds of each other, and each of them can be interrupted by the handler itself. A step of a thread is one
  operation on shared state: taking a mutex, what is done under it, \<^verbatim>\<open>Wake\<close>, a \<^verbatim>\<open>Wait\<close> that ends. The unwind itself is the
  subject of \<open>Unwinder\<close>; here it is a step whose error code is arbitrary.
\<close>

section \<open>Entries\<close>

datatype WaitType = WAIT_FOR_UCONTEXT | WAIT_FOR_UNWIND_TO_COMPLETE | WAIT_FOR_THREAD_TO_RESTART

primrec wait_number :: "WaitType \<Rightarrow> int" where
  "wait_number WAIT_FOR_UCONTEXT = 1"
| "wait_number WAIT_FOR_UNWIND_TO_COMPLETE = 2"
| "wait_number WAIT_FOR_THREAD_TO_RESTART = 3"

text \<open>\<open>te_mutex\<close> is the thread that holds \<^verbatim>\<open>mutex_\<close>, \<open>te_ucontext\<close> the context that was copied last. The type of contexts is a parameter.\<close>

record 'c thread_entry =
  te_tid :: nat
  te_ref_count :: int
  te_mutex :: "nat option"
  te_wait_value :: int
  te_ucontext :: "'c option"

definition ThreadEntry_new :: "nat \<Rightarrow> 'c thread_entry" where
  "ThreadEntry_new tid = \<lparr>te_tid = tid, te_ref_count = 1, te_mutex = None, te_wait_value = 0, te_ucontext = None\<rparr>"

definition Wake :: "'c thread_entry \<Rightarrow> 'c thread_entry" where
  "Wake e = e\<lparr>te_wait_value := te_wait_value e + 1\<rparr>"

text \<open>\<^verbatim>\<open>Wait\<close> returns true if this holds; when it does not for ten seconds, false.\<close>

definition wait_over :: "WaitType \<Rightarrow> 'c thread_entry \<Rightarrow> bool" where
  "wait_over ty e \<longleftrightarrow> te_wait_value e = wait_number ty"

definition CopyUcontextFromSigcontext :: "'c \<Rightarrow> 'c thread_entry \<Rightarrow> 'c thread_entry" where
  "CopyUcontextFromSigcontext c e = e\<lparr>te_ucontext := Some c\<rparr>"

section \<open>Threads\<close>

datatype sig_action = Default_Action | Other_Action | SignalHandler | SignalLogOnly

text \<open>
  Where a requesting thread is in \<^verbatim>\<open>UnwindWithSignal\<close>: the thread to be unwound, the address of its entry, then the action that was installed
  before, or the error code and whether \<^verbatim>\<open>SendSignalToThread\<close> has not returned yet (and holds \<^verbatim>\<open>action_mutex\<close>).
\<close>

datatype phase =
    Idle
  | Want_Action nat
  | Want_Get nat
  | In_Get nat
  | Want_Lock nat nat
  | Reset_Value nat nat
  | Set_Action nat nat
  | Send_Signal nat nat sig_action
  | Wait_Ucontext nat nat sig_action
  | Unwinding nat nat
  | Wait_Restart nat nat ErrorCode
  | Unlock nat nat ErrorCode bool
  | Want_Remove nat nat ErrorCode bool
  | In_Remove nat nat ErrorCode bool
  | Leave ErrorCode
  | Finished ErrorCode

text \<open>Where the interrupted thread is in \<^verbatim>\<open>SignalHandler\<close>.\<close>

datatype handler = H_Want_Get | H_In_Get | H_Copy nat | H_Wake nat | H_Wait nat | H_Restart nat

text \<open>
  \<open>tw_heap\<close> holds the entries that are not deleted by their addresses, \<open>tw_entries\<close> is the static map \<^verbatim>\<open>entries_\<close>. A signal that is sent
  while one is pending is not queued.
\<close>

record 'c threads =
  tw_heap :: "nat \<rightharpoonup> 'c thread_entry"
  tw_entries :: "nat \<rightharpoonup> nat"
  tw_entries_mutex :: "nat option"
  tw_action_mutex :: "nat option"
  tw_action :: sig_action
  tw_pending :: "nat \<Rightarrow> bool"
  tw_main :: "nat \<Rightarrow> phase"
  tw_handler :: "nat \<Rightarrow> handler option"
  tw_context :: "nat \<Rightarrow> 'c"

definition on_entry :: "nat \<Rightarrow> ('c thread_entry \<Rightarrow> 'c thread_entry) \<Rightarrow> 'c threads \<Rightarrow> 'c threads" where
  "on_entry a f s = s\<lparr>tw_heap := (tw_heap s)(a := map_option f (tw_heap s a))\<rparr>"

definition go :: "nat \<Rightarrow> phase \<Rightarrow> 'c threads \<Rightarrow> 'c threads" where
  "go x p s = s\<lparr>tw_main := (tw_main s)(x := p)\<rparr>"

definition handle :: "nat \<Rightarrow> handler option \<Rightarrow> 'c threads \<Rightarrow> 'c threads" where
  "handle x h s = s\<lparr>tw_handler := (tw_handler s)(x := h)\<rparr>"

text \<open>\<^verbatim>\<open>ThreadEntry::Get\<close> under its lock; \<open>a\<close> is the address of a new entry.\<close>

definition ThreadEntry_Get :: "nat \<Rightarrow> bool \<Rightarrow> nat \<Rightarrow> 'c threads \<Rightarrow> nat option \<times> 'c threads" where
  "ThreadEntry_Get tid create a s =
     (case tw_entries s tid of
        None \<Rightarrow>
          if create
          then (Some a, s\<lparr>tw_heap := (tw_heap s)(a \<mapsto> ThreadEntry_new tid), tw_entries := (tw_entries s)(tid \<mapsto> a)\<rparr>)
          else (None, s)
      | Some e \<Rightarrow> (Some e, on_entry e (\<lambda>n. n\<lparr>te_ref_count := te_ref_count n + 1\<rparr>) s))"

text \<open>The destructor, and \<^verbatim>\<open>ThreadEntry::Remove\<close> under its lock.\<close>

definition ThreadEntry_delete :: "nat \<Rightarrow> 'c thread_entry \<Rightarrow> 'c threads \<Rightarrow> 'c threads" where
  "ThreadEntry_delete a e s = s\<lparr>tw_heap := (tw_heap s)(a := None), tw_entries := (tw_entries s)(te_tid e := None)\<rparr>"

definition ThreadEntry_Remove :: "nat \<Rightarrow> 'c thread_entry \<Rightarrow> 'c threads \<Rightarrow> 'c threads" where
  "ThreadEntry_Remove a e s =
     (if te_ref_count e - 1 = 0 then ThreadEntry_delete a e s else on_entry a (\<lambda>n. n\<lparr>te_ref_count := te_ref_count n - 1\<rparr>) s)"

text \<open>The start of \<^verbatim>\<open>UnwindWithSignal\<close> on thread \<open>x\<close>, and the errors of \<^verbatim>\<open>tgkill\<close>.\<close>

definition UnwindWithSignal :: "nat \<Rightarrow> nat \<Rightarrow> bool \<Rightarrow> phase" where
  "UnwindWithSignal x t init =
     (if t = x then Finished ERROR_UNSUPPORTED else if init then Want_Action t else Finished ERROR_INVALID_MAP)"

definition kill_error :: "bool \<Rightarrow> ErrorCode" where
  "kill_error no_such_thread = (if no_such_thread then ERROR_THREAD_DOES_NOT_EXIST else ERROR_SYSTEM_CALL)"

definition timeout_error :: "bool \<Rightarrow> ErrorCode" where
  "timeout_error no_such_thread = (if no_such_thread then ERROR_THREAD_DOES_NOT_EXIST else ERROR_THREAD_TIMEOUT)"

definition restored_action :: "sig_action \<Rightarrow> sig_action" where
  "restored_action old = (if old = Default_Action then SignalLogOnly else old)"

section \<open>Steps\<close>

text \<open>A thread that is not in the handler.\<close>

inductive main_step :: "nat \<Rightarrow> 'c threads \<Rightarrow> 'c threads \<Rightarrow> bool" for x where
  run: "main_step x s (s\<lparr>tw_context := (tw_context s)(x := c)\<rparr>)"
| request: "main_step x s (go x (UnwindWithSignal x t init) s)"
    if "tw_main s x = Idle \<or> (\<exists>c. tw_main s x = Finished c)"
| lock_action: "main_step x s (go x (Want_Get t) (s\<lparr>tw_action_mutex := Some x\<rparr>))"
    if "tw_main s x = Want_Action t" "tw_action_mutex s = None"
| lock_entries: "main_step x s (go x (In_Get t) (s\<lparr>tw_entries_mutex := Some x\<rparr>))"
    if "tw_main s x = Want_Get t" "tw_entries_mutex s = None"
| get: "main_step x s (go x (Want_Lock t e) (s'\<lparr>tw_entries_mutex := None\<rparr>))"
    if "tw_main s x = In_Get t" "tw_heap s a = None" "ThreadEntry_Get t True a s = (Some e, s')"
| lock: "main_step x s (go x (Reset_Value t e) (on_entry e (\<lambda>n. n\<lparr>te_mutex := Some x\<rparr>) s))"
    if "tw_main s x = Want_Lock t e" "tw_heap s e = Some n" "te_mutex n = None"
| reset: "main_step x s (go x (Set_Action t e) (on_entry e (\<lambda>n. n\<lparr>te_wait_value := 0\<rparr>) s))"
    if "tw_main s x = Reset_Value t e"
| set_action: "main_step x s (go x (Send_Signal t e (tw_action s)) (s\<lparr>tw_action := SignalHandler\<rparr>))"
    if "tw_main s x = Set_Action t e"
| set_action_fails: "main_step x s (go x (Unlock t e ERROR_SYSTEM_CALL True) s)"
    if "tw_main s x = Set_Action t e"
| send: "main_step x s (go x (Wait_Ucontext t e old) (s\<lparr>tw_pending := (tw_pending s)(t := True)\<rparr>))"
    if "tw_main s x = Send_Signal t e old"
| send_fails: "main_step x s (go x (Unlock t e (kill_error esrch) True) (s\<lparr>tw_action := old\<rparr>))"
    if "tw_main s x = Send_Signal t e old"
| ucontext: "main_step x s (go x (Unwinding t e) (s\<lparr>tw_action_mutex := None\<rparr>))"
    if "tw_main s x = Wait_Ucontext t e old" "tw_heap s e = Some n" "wait_over WAIT_FOR_UCONTEXT n"
| unwound: "main_step x s (go x (Wait_Restart t e code) (on_entry e Wake s))"
    if "tw_main s x = Unwinding t e"
| restarted: "main_step x s (go x (Unlock t e code False) s)"
    if "tw_main s x = Wait_Restart t e code" "tw_heap s e = Some n" "wait_over WAIT_FOR_THREAD_TO_RESTART n"
| unlock: "main_step x s (go x (Want_Remove t e code inner) (on_entry e (\<lambda>n. n\<lparr>te_mutex := None\<rparr>) s))"
    if "tw_main s x = Unlock t e code inner"
| lock_remove: "main_step x s (go x (In_Remove t e code inner) (s\<lparr>tw_entries_mutex := Some x\<rparr>))"
    if "tw_main s x = Want_Remove t e code inner" "tw_entries_mutex s = None"
| remove: "main_step x s (go x (if inner then Leave code else Finished code) ((ThreadEntry_Remove e n s)\<lparr>tw_entries_mutex := None\<rparr>))"
    if "tw_main s x = In_Remove t e code inner" "tw_heap s e = Some n"
| leave: "main_step x s (go x (Finished code) (s\<lparr>tw_action_mutex := None\<rparr>))"
    if "tw_main s x = Leave code"

text \<open>A thread in the handler.\<close>

inductive handler_step :: "nat \<Rightarrow> 'c threads \<Rightarrow> 'c threads \<Rightarrow> bool" for x where
  h_lock: "handler_step x s (handle x (Some H_In_Get) (s\<lparr>tw_entries_mutex := Some x\<rparr>))"
    if "tw_handler s x = Some H_Want_Get" "tw_entries_mutex s = None"
| h_get: "handler_step x s (handle x (map_option H_Copy r) (s'\<lparr>tw_entries_mutex := None\<rparr>))"
    if "tw_handler s x = Some H_In_Get" "ThreadEntry_Get x False a s = (r, s')"
| h_copy: "handler_step x s (handle x (Some (H_Wake e)) (on_entry e (CopyUcontextFromSigcontext (tw_context s x)) s))"
    if "tw_handler s x = Some (H_Copy e)"
| h_wake: "handler_step x s (handle x (Some (H_Wait e)) (on_entry e Wake s))"
    if "tw_handler s x = Some (H_Wake e)"
| h_wait: "handler_step x s (handle x (Some (H_Restart e)) s)"
    if "tw_handler s x = Some (H_Wait e)" "tw_heap s e = Some n" "wait_over WAIT_FOR_UNWIND_TO_COMPLETE n"
| h_restart: "handler_step x s (handle x None (on_entry e Wake s))"
    if "tw_handler s x = Some (H_Restart e)"

text \<open>
  The steps of the process. The signal is blocked while its handler runs. With the default action it would end the process, which is no
  state of the model.
\<close>

inductive thread_step :: "'c threads \<Rightarrow> 'c threads \<Rightarrow> bool" where
  main: "thread_step s s'" if "tw_handler s x = None" "main_step x s s'"
| in_handler: "thread_step s s'" if "handler_step x s s'"
| deliver: "thread_step s (handle x (Some H_Want_Get) (s\<lparr>tw_pending := (tw_pending s)(x := False)\<rparr>))"
    if "tw_pending s x" "tw_handler s x = None" "tw_action s = SignalHandler"
| deliver_other: "thread_step s (s\<lparr>tw_pending := (tw_pending s)(x := False)\<rparr>)"
    if "tw_pending s x" "tw_handler s x = None" "tw_action s = SignalLogOnly \<or> tw_action s = Other_Action"

text \<open>A \<^verbatim>\<open>Wait\<close> that gives up.\<close>

inductive timeout_step :: "'c threads \<Rightarrow> 'c threads \<Rightarrow> bool" where
  no_ucontext: "timeout_step s (go x (Unlock t e (timeout_error esrch) True) (s\<lparr>tw_action := restored_action old\<rparr>))"
    if "tw_handler s x = None" "tw_main s x = Wait_Ucontext t e old" "tw_heap s e = Some n" "\<not> wait_over WAIT_FOR_UCONTEXT n"
| no_restart: "timeout_step s (go x (Unlock t e code False) s)"
    if "tw_handler s x = None" "tw_main s x = Wait_Restart t e code" "tw_heap s e = Some n" "\<not> wait_over WAIT_FOR_THREAD_TO_RESTART n"
| no_unwind: "timeout_step s (handle x None s)"
    if "tw_handler s x = Some (H_Wait e)" "tw_heap s e = Some n" "\<not> wait_over WAIT_FOR_UNWIND_TO_COMPLETE n"

section \<open>Reachable states\<close>

definition no_requests :: "'c threads \<Rightarrow> bool" where
  "no_requests s \<longleftrightarrow> tw_heap s = Map.empty \<and> tw_entries s = Map.empty \<and> tw_entries_mutex s = None \<and> tw_action_mutex s = None \<and>
     tw_pending s = (\<lambda>_. False) \<and> tw_main s = (\<lambda>_. Idle) \<and> tw_handler s = (\<lambda>_. None)"

definition any_step :: "'c threads \<Rightarrow> 'c threads \<Rightarrow> bool" where
  "any_step s t \<longleftrightarrow> thread_step s t \<or> timeout_step s t"

text \<open>Reachable in time, and reachable when waits may give up.\<close>

definition timely :: "'c threads \<Rightarrow> bool" where
  "timely s \<longleftrightarrow> (\<exists>s0. no_requests s0 \<and> thread_step\<^sup>*\<^sup>* s0 s)"

definition reachable :: "'c threads \<Rightarrow> bool" where
  "reachable s \<longleftrightarrow> (\<exists>s0. no_requests s0 \<and> any_step\<^sup>*\<^sup>* s0 s)"

end
