(* ===== verification/Thread_Safety.thy ===== *)
theory Thread_Safety
  imports Thread_Entry
begin

text \<open>
  Invariants of the threads that unwind each other: who holds which mutex, that every entry a thread works with exists, and, as long as no
  wait gives up, that a thread is stopped while it is unwound.
\<close>

section \<open>What a phase holds\<close>

fun phase_entry :: "phase \<Rightarrow> (nat \<times> nat) option" where
  "phase_entry (Want_Lock t e) = Some (t, e)"
| "phase_entry (Reset_Value t e) = Some (t, e)"
| "phase_entry (Set_Action t e) = Some (t, e)"
| "phase_entry (Send_Signal t e old) = Some (t, e)"
| "phase_entry (Wait_Ucontext t e old) = Some (t, e)"
| "phase_entry (Unwinding t e) = Some (t, e)"
| "phase_entry (Wait_Restart t e code) = Some (t, e)"
| "phase_entry (Unlock t e code inner) = Some (t, e)"
| "phase_entry (Want_Remove t e code inner) = Some (t, e)"
| "phase_entry (In_Remove t e code inner) = Some (t, e)"
| "phase_entry _ = None"

text \<open>The entry whose \<^verbatim>\<open>mutex_\<close> is held.\<close>

fun locked_entry :: "phase \<Rightarrow> nat option" where
  "locked_entry (Reset_Value t e) = Some e"
| "locked_entry (Set_Action t e) = Some e"
| "locked_entry (Send_Signal t e old) = Some e"
| "locked_entry (Wait_Ucontext t e old) = Some e"
| "locked_entry (Unwinding t e) = Some e"
| "locked_entry (Wait_Restart t e code) = Some e"
| "locked_entry (Unlock t e code inner) = Some e"
| "locked_entry _ = None"

fun holds_action :: "phase \<Rightarrow> bool" where
  "holds_action (Want_Get t) = True"
| "holds_action (In_Get t) = True"
| "holds_action (Want_Lock t e) = True"
| "holds_action (Reset_Value t e) = True"
| "holds_action (Set_Action t e) = True"
| "holds_action (Send_Signal t e old) = True"
| "holds_action (Wait_Ucontext t e old) = True"
| "holds_action (Unlock t e code inner) = inner"
| "holds_action (Want_Remove t e code inner) = inner"
| "holds_action (In_Remove t e code inner) = inner"
| "holds_action (Leave code) = True"
| "holds_action _ = False"

fun holds_entries :: "phase \<Rightarrow> bool" where
  "holds_entries (In_Get t) = True"
| "holds_entries (In_Remove t e code inner) = True"
| "holds_entries _ = False"

fun handler_entry :: "handler \<Rightarrow> nat option" where
  "handler_entry (H_Copy e) = Some e"
| "handler_entry (H_Wake e) = Some e"
| "handler_entry (H_Wait e) = Some e"
| "handler_entry (H_Restart e) = Some e"
| "handler_entry _ = None"

definition users :: "'c threads \<Rightarrow> nat \<Rightarrow> nat set" where
  "users s e = {x. \<exists>t. phase_entry (tw_main s x) = Some (t, e)}"

definition handled :: "'c threads \<Rightarrow> nat \<Rightarrow> nat \<Rightarrow> bool" where
  "handled s x e \<longleftrightarrow> (\<exists>h. tw_handler s x = Some h \<and> handler_entry h = Some e)"

section \<open>Mutexes\<close>

definition mutex_ok :: "'c threads \<Rightarrow> bool" where
  "mutex_ok s \<longleftrightarrow>
     (\<forall>x. tw_action_mutex s = Some x \<longleftrightarrow> holds_action (tw_main s x)) \<and>
     (\<forall>x. tw_entries_mutex s = Some x \<longleftrightarrow> holds_entries (tw_main s x) \<or> tw_handler s x = Some H_In_Get) \<and>
     (\<forall>x. holds_entries (tw_main s x) \<longrightarrow> tw_handler s x \<noteq> Some H_In_Get)"

lemmas thread_defs = go_def handle_def on_entry_def

lemma ThreadEntry_Get_fields:
  assumes "ThreadEntry_Get t c a s = (r, s')"
  shows "tw_entries_mutex s' = tw_entries_mutex s" "tw_action_mutex s' = tw_action_mutex s" "tw_action s' = tw_action s"
    "tw_pending s' = tw_pending s" "tw_main s' = tw_main s" "tw_handler s' = tw_handler s" "tw_context s' = tw_context s"
  using assms by (auto simp: ThreadEntry_Get_def on_entry_def split: option.splits if_splits)

lemma ThreadEntry_Remove_fields [simp]:
  "tw_entries_mutex (ThreadEntry_Remove a e s) = tw_entries_mutex s" "tw_action_mutex (ThreadEntry_Remove a e s) = tw_action_mutex s"
  "tw_action (ThreadEntry_Remove a e s) = tw_action s" "tw_pending (ThreadEntry_Remove a e s) = tw_pending s"
  "tw_main (ThreadEntry_Remove a e s) = tw_main s" "tw_handler (ThreadEntry_Remove a e s) = tw_handler s"
  "tw_context (ThreadEntry_Remove a e s) = tw_context s"
  by (simp_all add: ThreadEntry_Remove_def ThreadEntry_delete_def on_entry_def)

lemma mutex_okD:
  assumes "mutex_ok s"
  shows "holds_action (tw_main s y) \<Longrightarrow> tw_action_mutex s = Some y" "tw_action_mutex s = Some y \<Longrightarrow> holds_action (tw_main s y)"
    "holds_entries (tw_main s y) \<Longrightarrow> tw_entries_mutex s = Some y" "tw_handler s y = Some H_In_Get \<Longrightarrow> tw_entries_mutex s = Some y"
    "tw_entries_mutex s = Some y \<Longrightarrow> holds_entries (tw_main s y) \<or> tw_handler s y = Some H_In_Get"
    "holds_entries (tw_main s y) \<Longrightarrow> tw_handler s y \<noteq> Some H_In_Get"
  using assms unfolding mutex_ok_def by blast+

lemma mutex_okI:
  assumes "\<And>y. holds_action (tw_main s y) \<Longrightarrow> tw_action_mutex s = Some y" "\<And>y. tw_action_mutex s = Some y \<Longrightarrow> holds_action (tw_main s y)"
    "\<And>y. holds_entries (tw_main s y) \<Longrightarrow> tw_entries_mutex s = Some y" "\<And>y. tw_handler s y = Some H_In_Get \<Longrightarrow> tw_entries_mutex s = Some y"
    "\<And>y. tw_entries_mutex s = Some y \<Longrightarrow> holds_entries (tw_main s y) \<or> tw_handler s y = Some H_In_Get"
    "\<And>y. holds_entries (tw_main s y) \<Longrightarrow> tw_handler s y \<noteq> Some H_In_Get"
  shows "mutex_ok s"
proof -
  have "\<forall>x. tw_action_mutex s = Some x \<longleftrightarrow> holds_action (tw_main s x)"
    using assms(1,2) by blast
  moreover have "\<forall>x. tw_entries_mutex s = Some x \<longleftrightarrow> holds_entries (tw_main s x) \<or> tw_handler s x = Some H_In_Get"
    using assms(3,4,5) by blast
  moreover have "\<forall>x. holds_entries (tw_main s x) \<longrightarrow> tw_handler s x \<noteq> Some H_In_Get"
    using assms(6) by blast
  ultimately show ?thesis
    unfolding mutex_ok_def by (intro conjI)
qed

lemma mutex_main:
  assumes "main_step x s s'" and "tw_handler s x = None" and "mutex_ok s"
  shows "mutex_ok s'"
proof -
  note D = mutex_okD [OF assms(3)]
  have X: "holds_action (tw_main s x) \<longrightarrow> tw_action_mutex s = Some x" 
    "holds_entries (tw_main s x) \<longrightarrow> tw_entries_mutex s = Some x \<and> (\<forall>y. tw_handler s y \<noteq> Some H_In_Get)"
    using D(1) D(3,4) assms(2) by (blast, metis option.distinct(1) option.inject)
  show ?thesis
    using assms(1)
  proof cases
    case (get t a e s'')
    note f = ThreadEntry_Get_fields [OF get(4)]
    show ?thesis
      using get(2) X assms(2) unfolding get(1)
      by (intro mutex_okI) (auto simp: thread_defs f split: if_splits dest: D)
  qed (use X assms(2) in \<open>(intro mutex_okI; auto simp: thread_defs UnwindWithSignal_def split: if_splits dest: D)+\<close>)
qed

lemma mutex_handler:
  assumes "handler_step x s s'" and "mutex_ok s"
  shows "mutex_ok s'"
proof -
  note D = mutex_okD [OF assms(2)]
  have X: "tw_handler s x = Some H_In_Get \<longrightarrow> tw_entries_mutex s = Some x \<and> (\<forall>y. \<not> holds_entries (tw_main s y))"
    using D by (metis option.inject)
  show ?thesis
    using assms(1)
  proof cases
    case (h_get a r s'')
    note f = ThreadEntry_Get_fields [OF h_get(3)]
    show ?thesis
      using h_get(2) X unfolding h_get(1)
      by (intro mutex_okI) (auto simp: thread_defs f split: if_splits dest: D)
  qed (use X in \<open>(intro mutex_okI; auto simp: thread_defs split: if_splits dest: D)+\<close>)
qed

lemma mutex_step:
  assumes "any_step s s'" and "mutex_ok s"
  shows "mutex_ok s'"
  using assms(1) unfolding any_step_def
proof
  assume "thread_step s s'"
  then show ?thesis
  proof cases
    case (main x)
    then show ?thesis
      using mutex_main assms(2) by blast
  next
    case (in_handler x)
    then show ?thesis
      using mutex_handler assms(2) by blast
  qed (use assms(2) in \<open>auto simp: mutex_ok_def thread_defs\<close>)
next
  assume "timeout_step s s'"
  then show ?thesis
    using assms(2) by cases (auto simp: mutex_ok_def thread_defs)
qed

section \<open>Entries and references\<close>

text \<open>
  The map lists exactly the entries that exist; every entry a thread works with is listed under the thread to be unwound; the reference count
  covers the requesting threads that work with the entry and the handler that does.
\<close>

definition entry_ok :: "'c threads \<Rightarrow> bool" where
  "entry_ok s \<longleftrightarrow>
     (\<forall>t e. tw_entries s t = Some e \<longleftrightarrow> (\<exists>n. tw_heap s e = Some n \<and> te_tid n = t)) \<and>
     (\<forall>x t e. phase_entry (tw_main s x) = Some (t, e) \<longrightarrow> tw_entries s t = Some e) \<and>
     (\<forall>x e. handled s x e \<longrightarrow> tw_entries s x = Some e) \<and>
     finite {x. phase_entry (tw_main s x) \<noteq> None} \<and>
     (\<forall>e n. tw_heap s e = Some n \<longrightarrow> int (card (users s e)) + (if \<exists>x. handled s x e then 1 else 0) \<le> te_ref_count n)"

lemma entry_okD:
  assumes "entry_ok s"
  shows "tw_entries s t = Some e \<longleftrightarrow> (\<exists>n. tw_heap s e = Some n \<and> te_tid n = t)"
    and "phase_entry (tw_main s x) = Some (t, e) \<Longrightarrow> tw_entries s t = Some e"
    and "handled s x e \<Longrightarrow> tw_entries s x = Some e"
    and "finite {x. phase_entry (tw_main s x) \<noteq> None}"
    and "tw_heap s e = Some n \<Longrightarrow> int (card (users s e)) + (if \<exists>x. handled s x e then 1 else 0) \<le> te_ref_count n"
proof -
  note c = assms [unfolded entry_ok_def]
  show "tw_entries s t = Some e \<longleftrightarrow> (\<exists>n. tw_heap s e = Some n \<and> te_tid n = t)"
    by (rule c [THEN conjunct1, rule_format])
  show "phase_entry (tw_main s x) = Some (t, e) \<Longrightarrow> tw_entries s t = Some e"
    by (rule c [THEN conjunct2, THEN conjunct1, rule_format])
  show "handled s x e \<Longrightarrow> tw_entries s x = Some e"
    by (rule c [THEN conjunct2, THEN conjunct2, THEN conjunct1, rule_format])
  show "finite {x. phase_entry (tw_main s x) \<noteq> None}"
    by (rule c [THEN conjunct2, THEN conjunct2, THEN conjunct2, THEN conjunct1])
  show "tw_heap s e = Some n \<Longrightarrow> int (card (users s e)) + (if \<exists>x. handled s x e then 1 else 0) \<le> te_ref_count n"
    by (rule c [THEN conjunct2, THEN conjunct2, THEN conjunct2, THEN conjunct2, rule_format])
qed

lemma finite_users: "finite {x. phase_entry (tw_main s x) \<noteq> None} \<Longrightarrow> finite (users s e)"
  by (rule finite_subset [of _ "{x. phase_entry (tw_main s x) \<noteq> None}"]) (auto simp: users_def)

lemma users_owner:
  assumes "entry_ok s" and "x \<in> users s e"
  shows "tw_heap s e \<noteq> None"
proof -
  obtain t where "tw_entries s t = Some e"
    using assms(2) entry_okD(2) [OF assms(1)] by (auto simp: users_def)
  then show ?thesis
    using entry_okD(1) [OF assms(1), of t e] by auto
qed

lemma handled_owner:
  assumes "entry_ok s" and "handled s x e"
  shows "\<exists>n. tw_heap s e = Some n \<and> te_tid n = x"
  using entry_okD(1) [OF assms(1), of x e] entry_okD(3) [OF assms] by blast

text \<open>Steps that neither create nor delete entries nor change their counts.\<close>

definition same_entries :: "'c threads \<Rightarrow> 'c threads \<Rightarrow> bool" where
  "same_entries s s' \<longleftrightarrow>
     tw_entries s' = tw_entries s \<and>
     (\<forall>e. map_option (\<lambda>n. (te_tid n, te_ref_count n)) (tw_heap s' e) = map_option (\<lambda>n. (te_tid n, te_ref_count n)) (tw_heap s e)) \<and>
     (\<forall>x r. phase_entry (tw_main s' x) = Some r \<longrightarrow> phase_entry (tw_main s x) = Some r) \<and>
     (\<forall>x e. handled s' x e \<longrightarrow> handled s x e)"

lemma same_entries_heap:
  assumes "same_entries s s'" and "tw_heap s' e = Some n'"
  shows "\<exists>n. tw_heap s e = Some n \<and> te_tid n = te_tid n' \<and> te_ref_count n = te_ref_count n'"
proof -
  have "map_option (\<lambda>n. (te_tid n, te_ref_count n)) (tw_heap s e) = Some (te_tid n', te_ref_count n')"
    using assms unfolding same_entries_def by (metis option.simps(9))
  then show ?thesis
    by auto
qed

lemma same_entries_heap_back:
  assumes "same_entries s s'" and "tw_heap s e = Some n"
  shows "\<exists>n'. tw_heap s' e = Some n' \<and> te_tid n' = te_tid n"
proof -
  have "map_option (\<lambda>n. (te_tid n, te_ref_count n)) (tw_heap s' e) = Some (te_tid n, te_ref_count n)"
    using assms unfolding same_entries_def by (metis option.simps(9))
  then show ?thesis
    by auto
qed

lemma entry_same:
  assumes "same_entries s s'" and "entry_ok s"
  shows "entry_ok s'"
  unfolding entry_ok_def
proof (intro conjI allI impI)
  note D = entry_okD [OF assms(2)] and S = assms(1) [unfolded same_entries_def]
  show "tw_entries s' t = Some e \<longleftrightarrow> (\<exists>n. tw_heap s' e = Some n \<and> te_tid n = t)" for t e
    using D(1) S same_entries_heap [OF assms(1)] same_entries_heap_back [OF assms(1)] by metis
  show "tw_entries s' t = Some e" if "phase_entry (tw_main s' x) = Some (t, e)" for x t e
    using D(2) S that by metis
  show "tw_entries s' x = Some e" if "handled s' x e" for x e
    using D(3) S that by metis
  show "finite {x. phase_entry (tw_main s' x) \<noteq> None}"
    by (rule finite_subset [OF _ D(4)]) (use S in auto)
  fix e n'
  assume "tw_heap s' e = Some n'"
  then obtain n where n: "tw_heap s e = Some n" "te_ref_count n = te_ref_count n'"
    using same_entries_heap [OF assms(1)] by blast
  have "users s' e \<subseteq> users s e"
    using S by (auto simp: users_def)
  then have "card (users s' e) \<le> card (users s e)"
    by (intro card_mono finite_users D(4))
  moreover have "(\<exists>x. handled s' x e) \<longrightarrow> (\<exists>x. handled s x e)"
    using S by blast
  ultimately show "int (card (users s' e)) + (if \<exists>x. handled s' x e then 1 else 0) \<le> te_ref_count n'"
    using D(5) [OF n(1)] n(2) by (auto split: if_splits)
qed

lemma users_go: "users (go x p s) e = (if \<exists>t. phase_entry p = Some (t, e) then insert x (users s e) else users s e - {x})"
  by (auto simp: users_def go_def)

lemma users_cong: "tw_main s' = tw_main s \<Longrightarrow> users s' e = users s e"
  by (simp add: users_def)

lemma handled_cong: "tw_handler s' = tw_handler s \<Longrightarrow> handled s' x e \<longleftrightarrow> handled s x e"
  by (simp add: handled_def)

lemma finite_phases_go:
  "finite {y. phase_entry (tw_main s y) \<noteq> None} \<Longrightarrow> finite {y. phase_entry (tw_main (go x p s) y) \<noteq> None}"
  by (rule finite_subset [of _ "insert x {y. phase_entry (tw_main s y) \<noteq> None}"]) (auto simp: go_def)

text \<open>\<^verbatim>\<open>Get\<close> by a requesting thread.\<close>

lemma entry_get_new:
  assumes "entry_ok s" and "tw_main s x = In_Get t" and "tw_heap s a = None" and "tw_entries s t = None"
    and "s' = s\<lparr>tw_heap := (tw_heap s)(a \<mapsto> ThreadEntry_new t), tw_entries := (tw_entries s)(t \<mapsto> a), tw_entries_mutex := None\<rparr>"
  shows "entry_ok (go x (Want_Lock t a) s')"
proof -
  note D = entry_okD [OF assms(1)]
  have none: "users s a = {}" "\<not> handled s y a" for y
    using users_owner [OF assms(1)] handled_owner [OF assms(1)] assms(3) by fastforce+
  have old: "tw_entries s r \<noteq> Some a" for r
    using D(1) [of r a] assms(3) by simp
  have us: "users s' f = users s f" for f
    by (rule users_cong) (simp add: assms(5))
  have u: "users (go x (Want_Lock t a) s') f = (if f = a then {x} else users s f - {x})" for f
    using none us by (simp add: users_go)
  have h: "handled (go x (Want_Lock t a) s') y f \<longleftrightarrow> handled s y f" for y f
    using assms(5) by (simp add: handled_def go_def)
  have "tw_entries s' r = Some f \<longleftrightarrow> (\<exists>n. tw_heap s' f = Some n \<and> te_tid n = r)" for r f
    using D(1) [of r f] old [of r] assms(3-5) D(1) [of t f] by (auto simp: ThreadEntry_new_def)
  moreover have "tw_entries s' r = Some f" if "phase_entry (tw_main (go x (Want_Lock t a) s') y) = Some (r, f)" for y r f
    using that D(2) [of y r f] assms(4,5) by (auto simp: go_def split: if_splits)
  moreover have "tw_entries s' y = Some f" if "handled s y f" for y f
    using D(3) [OF that] assms(4,5) by auto
  moreover have "finite {y. phase_entry (tw_main (go x (Want_Lock t a) s') y) \<noteq> None}"
    using D(4) assms(5) by (intro finite_phases_go) simp
  moreover have "int (card (if f = a then {x} else users s f - {x})) + (if \<exists>y. handled s y f then 1 else 0) \<le> te_ref_count n"
    if "tw_heap s' f = Some n" for f n
  proof (cases "f = a")
    case True
    then show ?thesis
      using that none assms(5) by (auto simp: ThreadEntry_new_def)
  next
    case False
    then have "tw_heap s f = Some n"
      using that assms(5) by simp
    moreover have "card (users s f - {x}) \<le> card (users s f)"
      using finite_users [OF D(4)] by (intro card_mono) auto
    ultimately show ?thesis
      using D(5) [of f n] False by auto
  qed
  ultimately show ?thesis
    unfolding entry_ok_def u h by (simp add: go_def)
qed

lemma entry_get_old:
  assumes "entry_ok s" and "tw_main s x = In_Get t" and "tw_entries s t = Some e"
    and "s' = (on_entry e (\<lambda>n. n\<lparr>te_ref_count := te_ref_count n + 1\<rparr>) s)\<lparr>tw_entries_mutex := None\<rparr>"
  shows "entry_ok (go x (Want_Lock t e) s')"
proof -
  note D = entry_okD [OF assms(1)]
  have x: "x \<notin> users s f" for f
    using assms(2) by (simp add: users_def)
  have us: "users s' f = users s f" for f
    by (rule users_cong) (simp add: assms(4) on_entry_def)
  have u: "users (go x (Want_Lock t e) s') f = (if f = e then insert x (users s f) else users s f)" for f
    using x us by (simp add: users_go)
  have h: "handled (go x (Want_Lock t e) s') y f \<longleftrightarrow> handled s y f" for y f
    using assms(4) by (simp add: handled_def go_def on_entry_def)
  have "tw_entries s' r = Some f \<longleftrightarrow> (\<exists>n. tw_heap s' f = Some n \<and> te_tid n = r)" for r f
    using D(1) [of r f] assms(4) by (auto simp: on_entry_def)
  moreover have "tw_entries s' r = Some f" if "phase_entry (tw_main (go x (Want_Lock t e) s') y) = Some (r, f)" for y r f
    using that D(2) [of y r f] assms(3,4) by (auto simp: go_def on_entry_def split: if_splits)
  moreover have "tw_entries s' y = Some f" if "handled s y f" for y f
    using D(3) [OF that] assms(4) by (simp add: on_entry_def)
  moreover have "finite {y. phase_entry (tw_main (go x (Want_Lock t e) s') y) \<noteq> None}"
    using D(4) assms(4) by (intro finite_phases_go) (simp add: on_entry_def)
  moreover have "int (card (if f = e then insert x (users s f) else users s f)) + (if \<exists>y. handled s y f then 1 else 0) \<le> te_ref_count n"
    if "tw_heap s' f = Some n" for f n
    using that D(5) [of f] x [of f] finite_users [OF D(4), of f] assms(4) by (auto simp: on_entry_def split: if_splits)
  ultimately show ?thesis
    unfolding entry_ok_def u h by (simp add: go_def)
qed

text \<open>\<^verbatim>\<open>Get\<close> by the handler: it does not give its reference back.\<close>

lemma entry_handler_get:
  assumes "entry_ok s" and "tw_handler s x = Some H_In_Get" and "tw_entries s x = Some e"
    and "s' = (on_entry e (\<lambda>n. n\<lparr>te_ref_count := te_ref_count n + 1\<rparr>) s)\<lparr>tw_entries_mutex := None\<rparr>"
  shows "entry_ok (handle x (Some (H_Copy e)) s')"
proof -
  note D = entry_okD [OF assms(1)]
  have x: "\<not> handled s x f" for f
    using assms(2) by (simp add: handled_def)
  have e: "\<not> handled s y e" for y
    using x handled_owner [OF assms(1), of y e] D(1) [of x e] assms(3) by (cases "y = x") auto
  have u: "users (handle x (Some (H_Copy e)) s') f = users s f" for f
    using assms(4) by (simp add: users_def handle_def on_entry_def)
  have h: "handled (handle x (Some (H_Copy e)) s') y f \<longleftrightarrow> handled s y f \<or> y = x \<and> f = e" for y f
    using x assms(2,4) by (auto simp: handled_def handle_def on_entry_def)
  have "tw_entries s' r = Some f \<longleftrightarrow> (\<exists>n. tw_heap s' f = Some n \<and> te_tid n = r)" for r f
    using D(1) [of r f] assms(4) by (auto simp: on_entry_def)
  moreover have "tw_entries s' r = Some f" if "phase_entry (tw_main s y) = Some (r, f)" for y r f
    using that D(2) [of y r f] assms(4) by (simp add: on_entry_def)
  moreover have "tw_entries s' y = Some f" if "handled s y f \<or> y = x \<and> f = e" for y f
    using D(3) [of y f] that assms(3,4) by (auto simp: on_entry_def)
  moreover have "int (card (users s f)) + (if \<exists>y. handled s y f \<or> y = x \<and> f = e then 1 else 0) \<le> te_ref_count n"
    if "tw_heap s' f = Some n" for f n
    using that D(5) [of f] e assms(4) by (auto simp: on_entry_def split: if_splits)
  ultimately show ?thesis
    using D(4) assms(4) unfolding entry_ok_def u h by (simp add: handle_def on_entry_def)
qed

text \<open>\<^verbatim>\<open>Remove\<close>: the entry is deleted only if no thread works with it any more.\<close>

lemma last_user:
  assumes "entry_ok s" and "x \<in> users s e" and "tw_heap s e = Some n" and "te_ref_count n - 1 = 0"
  shows "users s e = {x}" "\<not> handled s y e"
proof -
  note D = entry_okD [OF assms(1)]
  have f: "finite (users s e)"
    using finite_users [OF D(4)] .
  then have c: "1 \<le> card (users s e)"
    using assms(2) by (auto simp: card_gt_0_iff Suc_le_eq)
  have "card (users s e) \<le> 1" "\<not> (\<exists>x. handled s x e)"
    using D(5) [OF assms(3)] assms(4) c by (auto split: if_splits)
  moreover from this(1) obtain z where "users s e = {z}"
    using c by (metis card_1_singletonE le_antisym)
  ultimately show "users s e = {x}" "\<not> handled s y e"
    using assms(2) by auto
qed

lemma entry_remove:
  assumes "entry_ok s" and "phase_entry (tw_main s x) = Some (t, e)" and "tw_heap s e = Some n" and "phase_entry p = None"
    and "s' = (ThreadEntry_Remove e n s)\<lparr>tw_entries_mutex := None\<rparr>"
  shows "entry_ok (go x p s')"
proof -
  note D = entry_okD [OF assms(1)]
  have x: "x \<in> users s e"
    using assms(2) by (auto simp: users_def)
  have us: "users s' f = users s f" for f
    by (rule users_cong) (simp add: assms(5))
  have u: "users (go x p s') f = users s f - {x}" for f
    using assms(4) us by (simp add: users_go)
  have h: "handled (go x p s') y f \<longleftrightarrow> handled s y f" for y f
    using assms(5) by (simp add: handled_def go_def)
  have fin: "finite {y. phase_entry (tw_main (go x p s') y) \<noteq> None}"
    using D(4) assms(5) by (intro finite_phases_go) simp
  have less: "card (users s f - {x}) \<le> card (users s f)" for f
    using finite_users [OF D(4)] by (intro card_mono) auto
  have owner: "tw_entries s r = Some e \<longleftrightarrow> r = te_tid n" for r
    using D(1) [of r e] assms(3) by auto
  show ?thesis
  proof (cases "te_ref_count n - 1 = 0")
    case True
    note L = last_user [OF assms(1) x assms(3) True]
    have s': "s' = s\<lparr>tw_heap := (tw_heap s)(e := None), tw_entries := (tw_entries s)(te_tid n := None), tw_entries_mutex := None\<rparr>"
      using assms(5) True by (simp add: ThreadEntry_Remove_def ThreadEntry_delete_def)
    have "tw_entries s' r = Some f \<longleftrightarrow> (\<exists>n. tw_heap s' f = Some n \<and> te_tid n = r)" for r f
      using D(1) [of r f] D(1) [of "te_tid n" f] owner [of r] owner [of "te_tid n"] by (auto simp: s')
    moreover have "tw_entries s' r = Some f" if "phase_entry (tw_main (go x p s') y) = Some (r, f)" for y r f
    proof -
      have y: "y \<noteq> x" "phase_entry (tw_main s y) = Some (r, f)"
        using that assms(4) by (auto simp: go_def s' split: if_splits)
      then have "f \<noteq> e"
        using L(1) by (auto simp: users_def)
      then show ?thesis
        using D(2) [OF y(2)] owner [of r] owner [of "te_tid n"] by (auto simp: s')
    qed
    moreover have "tw_entries s' y = Some f" if "handled s y f" for y f
      using D(3) [OF that] L(2) that owner [of "te_tid n"] by (auto simp: s')
    moreover have "int (card (users s f - {x})) + (if \<exists>y. handled s y f then 1 else 0) \<le> te_ref_count m" if "tw_heap s' f = Some m" for f m
      using that D(5) [of f m] less [of f] by (auto simp: s' split: if_splits)
    ultimately show ?thesis
      using fin unfolding entry_ok_def u h by (simp add: go_def)
  next
    case False
    have s': "s' = (on_entry e (\<lambda>n. n\<lparr>te_ref_count := te_ref_count n - 1\<rparr>) s)\<lparr>tw_entries_mutex := None\<rparr>"
      using assms(5) False by (simp add: ThreadEntry_Remove_def)
    have "tw_entries s' r = Some f \<longleftrightarrow> (\<exists>n. tw_heap s' f = Some n \<and> te_tid n = r)" for r f
      using D(1) [of r f] by (auto simp: s' on_entry_def)
    moreover have "tw_entries s' r = Some f" if "phase_entry (tw_main (go x p s') y) = Some (r, f)" for y r f
      using that D(2) [of y r f] assms(4) by (auto simp: go_def s' on_entry_def split: if_splits)
    moreover have "tw_entries s' y = Some f" if "handled s y f" for y f
      using D(3) [OF that] by (simp add: s' on_entry_def)
    moreover have "int (card (users s f - {x})) + (if \<exists>y. handled s y f then 1 else 0) \<le> te_ref_count m" if "tw_heap s' f = Some m" for f m
    proof (cases "f = e")
      case True
      have "card (users s e - {x}) = card (users s e) - 1" "1 \<le> card (users s e)"
        using x finite_users [OF D(4)] by (auto simp: card_gt_0_iff Suc_le_eq)
      then show ?thesis
        using True that D(5) [OF assms(3)] assms(3) by (auto simp: s' on_entry_def split: if_splits)
    next
      case False
      then show ?thesis
        using that D(5) [of f m] less [of f] by (auto simp: s' on_entry_def)
    qed
    ultimately show ?thesis
      using fin unfolding entry_ok_def u h by (simp add: go_def)
  qed
qed

section \<open>Every step keeps the entries\<close>

lemma same_entries_on_entry:
  assumes "\<And>n. te_tid (f n) = te_tid n \<and> te_ref_count (f n) = te_ref_count n"
  shows "map_option (\<lambda>n. (te_tid n, te_ref_count n)) (tw_heap (on_entry a f s) e) =
    map_option (\<lambda>n. (te_tid n, te_ref_count n)) (tw_heap s e)"
  using assms by (simp add: on_entry_def option.map_comp o_def)

lemma entry_main:
  assumes "main_step x s s'" and "entry_ok s"
  shows "entry_ok s'"
  using assms(1)
proof cases
  case (get t a e s'')
  show ?thesis
  proof (cases "tw_entries s t")
    case None
    then show ?thesis
      using get(4) entry_get_new [OF assms(2) get(2,3) None] unfolding get(1) by (auto simp: ThreadEntry_Get_def)
  next
    case (Some f)
    then show ?thesis
      using get(4) entry_get_old [OF assms(2) get(2) Some] unfolding get(1) by (auto simp: ThreadEntry_Get_def)
  qed
next
  case (remove t e code inner n)
  then show ?thesis
    using entry_remove [OF assms(2) _ remove(3), of x t "if inner then Leave code else Finished code"] by simp
qed (auto intro!: entry_same [OF _ assms(2)] simp: same_entries_def handled_def thread_defs UnwindWithSignal_def Wake_def option.map_comp o_def
      split: if_splits)

lemma entry_handler:
  assumes "handler_step x s s'" and "entry_ok s"
  shows "entry_ok s'"
  using assms(1)
proof cases
  case (h_get a r s'')
  show ?thesis
  proof (cases "tw_entries s x")
    case None
    then have "r = None" "s'' = s"
      using h_get(3) by (auto simp: ThreadEntry_Get_def)
    then show ?thesis
      unfolding h_get(1) by (intro entry_same [OF _ assms(2)]) (auto simp: same_entries_def handled_def thread_defs split: if_splits)
  next
    case (Some f)
    then have "r = Some f" "s'' = on_entry f (\<lambda>n. n\<lparr>te_ref_count := te_ref_count n + 1\<rparr>) s"
      using h_get(3) by (auto simp: ThreadEntry_Get_def)
    then show ?thesis
      using entry_handler_get [OF assms(2) h_get(2) Some] unfolding h_get(1) by simp
  qed
qed (auto intro!: entry_same [OF _ assms(2)] simp: same_entries_def handled_def thread_defs Wake_def CopyUcontextFromSigcontext_def
      option.map_comp o_def split: if_splits)

lemma entry_step:
  assumes "any_step s s'" and "entry_ok s"
  shows "entry_ok s'"
  using assms(1) unfolding any_step_def
proof
  assume "thread_step s s'"
  then show ?thesis
  proof cases
    case (main x)
    then show ?thesis
      using entry_main assms(2) by blast
  next
    case (in_handler x)
    then show ?thesis
      using entry_handler assms(2) by blast
  qed (auto intro!: entry_same [OF _ assms(2)] simp: same_entries_def handled_def thread_defs split: if_splits)
next
  assume "timeout_step s s'"
  then show ?thesis
    by cases (auto intro!: entry_same [OF _ assms(2)] simp: same_entries_def handled_def thread_defs split: if_splits)
qed

section \<open>The mutex of an entry\<close>

definition lock_ok :: "'c threads \<Rightarrow> bool" where
  "lock_ok s \<longleftrightarrow> (\<forall>e n x. tw_heap s e = Some n \<longrightarrow> (te_mutex n = Some x \<longleftrightarrow> locked_entry (tw_main s x) = Some e))"

lemma lock_okD: "lock_ok s \<Longrightarrow> tw_heap s e = Some n \<Longrightarrow> te_mutex n = Some x \<longleftrightarrow> locked_entry (tw_main s x) = Some e"
  by (simp add: lock_ok_def)

lemma locked_is_used: "locked_entry p = Some e \<Longrightarrow> \<exists>t. phase_entry p = Some (t, e)"
  by (cases p) auto

lemma locked_exists: "entry_ok s \<Longrightarrow> locked_entry (tw_main s x) = Some e \<Longrightarrow> tw_heap s e \<noteq> None"
  using locked_is_used users_owner by (fastforce simp: users_def)

lemma lock_same:
  assumes "lock_ok s" and "\<And>e. map_option te_mutex (tw_heap s' e) = map_option te_mutex (tw_heap s e) \<or> tw_heap s' e = None"
    and "\<And>y. locked_entry (tw_main s' y) = locked_entry (tw_main s y)"
  shows "lock_ok s'"
  unfolding lock_ok_def
proof (intro allI impI)
  fix e n x
  assume n: "tw_heap s' e = Some n"
  then have "map_option te_mutex (tw_heap s e) = Some (te_mutex n)"
    using assms(2) [of e] by auto
  then obtain m where "tw_heap s e = Some m" "te_mutex m = te_mutex n"
    by auto
  then show "te_mutex n = Some x \<longleftrightarrow> locked_entry (tw_main s' x) = Some e"
    using lock_okD [OF assms(1)] assms(3) by metis
qed

lemma lock_main:
  assumes "main_step x s s'" and "entry_ok s" and "lock_ok s"
  shows "lock_ok s'"
  using assms(1)
proof cases
  case (get t a e s'')
  show ?thesis
  proof (cases "tw_entries s t")
    case None
    then have e: "e = a" "s'' = s\<lparr>tw_heap := (tw_heap s)(a \<mapsto> ThreadEntry_new t), tw_entries := (tw_entries s)(t \<mapsto> a)\<rparr>"
      using get(4) by (auto simp: ThreadEntry_Get_def)
    have "locked_entry (tw_main s y) \<noteq> Some a" for y
      using locked_exists [OF assms(2)] get(3) by blast
    then show ?thesis
      using assms(3) get(2) unfolding get(1) e by (auto simp: lock_ok_def go_def ThreadEntry_new_def)
  next
    case (Some f)
    then have "s'' = on_entry f (\<lambda>n. n\<lparr>te_ref_count := te_ref_count n + 1\<rparr>) s"
      using get(4) by (auto simp: ThreadEntry_Get_def)
    then show ?thesis
      unfolding get(1) by (intro lock_same [OF assms(3)]) (auto simp: thread_defs get(2) option.map_comp o_def)
  qed
next
  case (lock t e n)
  have free: "locked_entry (tw_main s y) \<noteq> Some e" for y
    using lock_okD [OF assms(3) lock(3), of y] lock(4) by simp
  show ?thesis
    using assms(3) lock(2,3) free unfolding lock(1) by (auto simp: lock_ok_def thread_defs)
next
  case (unlock t e code inner)
  have "locked_entry (tw_main s y) = Some e \<Longrightarrow> y = x" for y
  proof -
    assume y: "locked_entry (tw_main s y) = Some e"
    then obtain n where "tw_heap s e = Some n"
      using locked_exists [OF assms(2)] by blast
    then show "y = x"
      using lock_okD [OF assms(3), of e n y] lock_okD [OF assms(3), of e n x] y unlock(2) by simp
  qed
  then show ?thesis
    using assms(3) unlock(2) unfolding unlock(1) by (auto simp: lock_ok_def thread_defs)
next
  case (remove t e code inner n)
  then show ?thesis
    by (intro lock_same [OF assms(3)])
      (auto simp: go_def ThreadEntry_Remove_def ThreadEntry_delete_def on_entry_def option.map_comp o_def)
qed (auto intro!: lock_same [OF assms(3)] simp: thread_defs UnwindWithSignal_def Wake_def option.map_comp o_def split: if_splits)

lemma lock_handler:
  assumes "handler_step x s s'" and "lock_ok s"
  shows "lock_ok s'"
  using assms(1)
proof cases
  case (h_get a r s'')
  then show ?thesis
    by (intro lock_same [OF assms(2)])
      (auto simp: thread_defs ThreadEntry_Get_def option.map_comp o_def split: option.splits if_splits)
qed (auto intro!: lock_same [OF assms(2)] simp: thread_defs Wake_def CopyUcontextFromSigcontext_def option.map_comp o_def
      split: if_splits)

lemma lock_step:
  assumes "any_step s s'" and "entry_ok s" and "lock_ok s"
  shows "lock_ok s'"
  using assms(1) unfolding any_step_def
proof
  assume "thread_step s s'"
  then show ?thesis
  proof cases
    case (main x)
    then show ?thesis
      using lock_main assms(2,3) by blast
  next
    case (in_handler x)
    then show ?thesis
      using lock_handler assms(3) by blast
  qed (auto intro!: lock_same [OF assms(3)] simp: thread_defs)
next
  assume "timeout_step s s'"
  then show ?thesis
    by cases (auto intro!: lock_same [OF assms(3)] simp: thread_defs)
qed

section \<open>In every reachable state\<close>

definition threads_ok :: "'c threads \<Rightarrow> bool" where
  "threads_ok s \<longleftrightarrow> mutex_ok s \<and> entry_ok s \<and> lock_ok s"

lemma threads_ok_init: "no_requests s \<Longrightarrow> threads_ok s"
  by (auto simp: threads_ok_def no_requests_def mutex_ok_def entry_ok_def lock_ok_def handled_def)

lemma threads_ok_step: "any_step s s' \<Longrightarrow> threads_ok s \<Longrightarrow> threads_ok s'"
  using mutex_step entry_step lock_step unfolding threads_ok_def by blast

lemma threads_ok_steps: "any_step\<^sup>*\<^sup>* s s' \<Longrightarrow> threads_ok s \<Longrightarrow> threads_ok s'"
  by (induction rule: rtranclp_induct) (auto intro: threads_ok_step)

lemma reachable_ok: "reachable s \<Longrightarrow> threads_ok s"
  using threads_ok_init threads_ok_steps unfolding reachable_def by blast

lemma timely_reachable: "timely s \<Longrightarrow> reachable s"
  unfolding timely_def reachable_def any_step_def
  using mono_rtranclp [of thread_step "\<lambda>s t. thread_step s t \<or> timeout_step s t"] by blast

text \<open>The entry of a thread's phase exists and belongs to the thread to be unwound.\<close>

lemma phase_entry_exists:
  assumes "entry_ok s" and "phase_entry (tw_main s x) = Some (t, e)"
  shows "\<exists>n. tw_heap s e = Some n \<and> te_tid n = t"
  using entry_okD(1) [OF assms(1), of t e] entry_okD(2) [OF assms] by blast

lemma locked_unique:
  assumes "threads_ok s" and "locked_entry (tw_main s x) = Some e" and "locked_entry (tw_main s y) = Some e"
  shows "x = y"
proof -
  obtain n where "tw_heap s e = Some n"
    using locked_exists [of s x e] assms by (auto simp: threads_ok_def)
  then show ?thesis
    using lock_okD [of s e n x] lock_okD [of s e n y] assms by (auto simp: threads_ok_def)
qed

section \<open>References that are never given back\<close>

text \<open>More references than requesting threads.\<close>

definition surplus :: "'c threads \<Rightarrow> nat \<Rightarrow> nat \<Rightarrow> bool" where
  "surplus s r e \<longleftrightarrow> (\<exists>n. tw_heap s e = Some n \<and> te_tid n = r \<and> int (card (users s e)) < te_ref_count n)"

lemma handled_surplus:
  assumes "entry_ok s" and "handled s x e"
  shows "surplus s x e"
proof -
  obtain n where n: "tw_heap s e = Some n" "te_tid n = x"
    using handled_owner [OF assms] by blast
  then show ?thesis
    using entry_okD(5) [OF assms(1) n(1)] assms(2) by (auto simp: surplus_def split: if_splits)
qed

lemma surplus_same:
  assumes "surplus s r e" and "entry_ok s" and "map_option (\<lambda>n. (te_tid n, te_ref_count n)) (tw_heap s' e) = map_option (\<lambda>n. (te_tid n, te_ref_count n)) (tw_heap s e)"
    and "users s' e \<subseteq> users s e"
  shows "surplus s' r e"
proof -
  obtain n where n: "tw_heap s e = Some n" "int (card (users s e)) < te_ref_count n" "te_tid n = r"
    using assms(1) by (auto simp: surplus_def)
  then obtain m where "tw_heap s' e = Some m" "te_ref_count m = te_ref_count n" "te_tid m = te_tid n"
    using assms(3) by auto
  moreover have "card (users s' e) \<le> card (users s e)"
    using finite_users [OF entry_okD(4) [OF assms(2)]] assms(4) by (intro card_mono) auto
  ultimately show ?thesis
    using n by (auto simp: surplus_def)
qed

lemma surplus_main:
  assumes "main_step x s s'" and "entry_ok s" and "surplus s r e"
  shows "surplus s' r e"
  using assms(1)
proof cases
  case (get t a f s'')
  have x: "x \<notin> users s e"
    using get(2) by (simp add: users_def)
  have u: "users s' e = (if f = e then insert x (users s e) else users s e)"
    using x unfolding get(1) users_go by (auto simp: users_def ThreadEntry_Get_fields [OF get(4)])
  obtain n where n: "tw_heap s e = Some n" "int (card (users s e)) < te_ref_count n" "te_tid n = r"
    using assms(3) by (auto simp: surplus_def)
  have "tw_heap s' e = Some (if f = e then n\<lparr>te_ref_count := te_ref_count n + 1\<rparr> else n)"
    using get(3,4) n(1) unfolding get(1)
    by (auto simp: ThreadEntry_Get_def thread_defs split: option.splits)
  then show ?thesis
    using n(2,3) x u finite_users [OF entry_okD(4) [OF assms(2)]] by (auto simp: surplus_def)
next
  case (remove t f code inner m)
  have u: "users s' e = users s e - {x}"
    unfolding remove(1) users_go by (auto simp: users_def)
  obtain n where n: "tw_heap s e = Some n" "int (card (users s e)) < te_ref_count n" "te_tid n = r"
    using assms(3) by (auto simp: surplus_def)
  have fin: "finite (users s e)"
    using finite_users [OF entry_okD(4) [OF assms(2)]] .
  show ?thesis
  proof (cases "f = e")
    case True
    then have x: "x \<in> users s e" and m: "m = n"
      using remove(2,3) n(1) by (auto simp: users_def)
    then have c: "card (users s' e) = card (users s e) - 1" "0 < card (users s e)"
      using u fin by (auto simp: card_gt_0_iff)
    then have "tw_heap s' e = Some (n\<lparr>te_ref_count := te_ref_count n - 1\<rparr>)"
      using n True m unfolding remove(1) by (simp add: ThreadEntry_Remove_def thread_defs)
    then show ?thesis
      using c n(2,3) by (auto simp: surplus_def)
  next
    case False
    then have "tw_heap s' e = Some n"
      using n(1) unfolding remove(1) by (simp add: ThreadEntry_Remove_def ThreadEntry_delete_def thread_defs)
    moreover have "card (users s' e) \<le> card (users s e)"
      using u fin by (intro card_mono) auto
    ultimately show ?thesis
      using n(2,3) by (auto simp: surplus_def)
  qed
qed (auto intro!: surplus_same [OF assms(3,2)] simp: users_def thread_defs UnwindWithSignal_def Wake_def option.map_comp o_def
      split: if_splits)

lemma surplus_handler:
  assumes "handler_step x s s'" and "entry_ok s" and "surplus s r e"
  shows "surplus s' r e"
  using assms(1)
proof cases
  case (h_get a q s'')
  obtain n where n: "tw_heap s e = Some n" "int (card (users s e)) < te_ref_count n" "te_tid n = r"
    using assms(3) by (auto simp: surplus_def)
  have "users s' e = users s e"
    unfolding h_get(1) by (simp add: users_def handle_def ThreadEntry_Get_fields [OF h_get(3)])
  moreover have "\<exists>m. tw_heap s' e = Some m \<and> te_tid m = te_tid n \<and> te_ref_count n \<le> te_ref_count m"
    using h_get(3) n(1) unfolding h_get(1) by (auto simp: ThreadEntry_Get_def thread_defs split: option.splits)
  ultimately show ?thesis
    using n(2,3) by (auto simp: surplus_def)
qed (auto intro!: surplus_same [OF assms(3,2)] simp: users_def thread_defs Wake_def CopyUcontextFromSigcontext_def option.map_comp o_def
      split: if_splits)

lemma surplus_step:
  assumes "any_step s s'" and "entry_ok s" and "surplus s r e"
  shows "surplus s' r e"
  using assms(1) unfolding any_step_def
proof
  assume "thread_step s s'"
  then show ?thesis
  proof cases
    case (main x)
    then show ?thesis
      using surplus_main assms(2,3) by blast
  next
    case (in_handler x)
    then show ?thesis
      using surplus_handler assms(2,3) by blast
  qed (auto intro!: surplus_same [OF assms(3,2)] simp: users_def thread_defs)
next
  assume "timeout_step s s'"
  then show ?thesis
    by cases (auto intro!: surplus_same [OF assms(3,2)] simp: users_def thread_defs split: if_splits)
qed

lemma surplus_steps: "any_step\<^sup>*\<^sup>* s s' \<Longrightarrow> threads_ok s \<Longrightarrow> surplus s r e \<Longrightarrow> surplus s' r e \<and> threads_ok s'"
proof (induction rule: rtranclp_induct)
  case (step t u)
  then show ?case
    using surplus_step [of t u r e] threads_ok_step [of t u] by (auto simp: threads_ok_def)
qed simp

end
