(* ===== verification/Thread_Session.thy ===== *)
theory Thread_Session
  imports Thread_Safety
begin

text \<open>
  The protocol between the requesting thread and the handler as long as every wait ends in time: the stages of a request and the
  values of \<^verbatim>\<open>wait_value_\<close> that go with them.
\<close>

section \<open>Stages of a request\<close>

text \<open>
  What holds of the entry (its wait value and context), of the signal and of the handler and context of the thread to be unwound, in each phase
  of the thread that requests it.
\<close>

fun stage :: "sig_action \<Rightarrow> (int \<times> 'c option) option \<Rightarrow> bool \<Rightarrow> handler option \<Rightarrow> 'c \<Rightarrow> phase \<Rightarrow> bool" where
  "stage act n pending h c (Reset_Value t e) \<longleftrightarrow> \<not> pending \<and> h = None"
| "stage act n pending h c (Set_Action t e) \<longleftrightarrow> \<not> pending \<and> h = None \<and> (\<exists>u. n = Some (0, u))"
| "stage act n pending h c (Send_Signal t e old) \<longleftrightarrow>
     \<not> pending \<and> h = None \<and> (\<exists>u. n = Some (0, u)) \<and> act = SignalHandler"
| "stage act n pending h c (Wait_Ucontext t e old) \<longleftrightarrow>
     act = SignalHandler \<and>
     (pending \<and> h = None \<and> (\<exists>u. n = Some (0, u)) \<or>
      \<not> pending \<and> (h = Some H_Want_Get \<or> h = Some H_In_Get \<or> h = Some (H_Copy e)) \<and> (\<exists>u. n = Some (0, u)) \<or>
      \<not> pending \<and> h = Some (H_Wake e) \<and> n = Some (0, Some c) \<or>
      \<not> pending \<and> h = Some (H_Wait e) \<and> n = Some (1, Some c))"
| "stage act n pending h c (Unwinding t e) \<longleftrightarrow> \<not> pending \<and> h = Some (H_Wait e) \<and> n = Some (1, Some c)"
| "stage act n pending h c (Wait_Restart t e code) \<longleftrightarrow>
     \<not> pending \<and> ((h = Some (H_Wait e) \<or> h = Some (H_Restart e)) \<and> (\<exists>u. n = Some (2, u)) \<or> h = None \<and> (\<exists>u. n = Some (3, u)))"
| "stage act n pending h c _ \<longleftrightarrow> True"

definition entry_view :: "'c threads \<Rightarrow> nat \<Rightarrow> (int \<times> 'c option) option" where
  "entry_view s e = map_option (\<lambda>n. (te_wait_value n, te_ucontext n)) (tw_heap s e)"

definition stage_ok :: "'c threads \<Rightarrow> phase \<Rightarrow> bool" where
  "stage_ok s p \<longleftrightarrow>
     (case phase_entry p of
        None \<Rightarrow> True
      | Some (t, e) \<Rightarrow> stage (tw_action s) (entry_view s e) (tw_pending s t) (tw_handler s t) (tw_context s t) p)"

text \<open>The thread whose signal the phase waits for.\<close>

fun awaits :: "phase \<Rightarrow> nat option" where
  "awaits (Wait_Ucontext t e old) = Some t"
| "awaits (Unwinding t e) = Some t"
| "awaits (Wait_Restart t e code) = Some t"
| "awaits _ = None"

definition session_ok :: "'c threads \<Rightarrow> bool" where
  "session_ok s \<longleftrightarrow>
     (\<forall>x. stage_ok s (tw_main s x)) \<and>
     (\<forall>t. tw_pending s t \<or> tw_handler s t \<noteq> None \<longrightarrow> (\<exists>x. awaits (tw_main s x) = Some t))"

lemma session_okD:
  assumes "session_ok s"
  shows "stage_ok s (tw_main s x)" "tw_pending s t \<or> tw_handler s t \<noteq> None \<Longrightarrow> \<exists>x. awaits (tw_main s x) = Some t"
  using assms by (auto simp: session_ok_def)

lemma awaits_locked: "awaits p = Some t \<Longrightarrow> \<exists>e. phase_entry p = Some (t, e) \<and> locked_entry p = Some e"
  by (cases p) auto

lemma stage_trivial: "locked_entry p = None \<Longrightarrow> stage act n pending h c p"
  by (cases p) auto

text \<open>The context matters only while the thread is in the handler, the action only to a thread that holds \<^verbatim>\<open>action_mutex\<close>.\<close>

lemma stage_context: "stage act n pending None c p \<Longrightarrow> stage act n pending None c' p"
  by (cases p) auto

lemma stage_action: "\<not> holds_action p \<Longrightarrow> stage act n pending h c p \<Longrightarrow> stage act' n pending h c p"
  by (cases p) auto

lemma stage_handler_action: "stage act n pending h c p \<Longrightarrow> stage SignalHandler n pending h c p"
  by (cases p) auto

text \<open>Requests of other threads are not concerned.\<close>

lemma stage_frame:
  assumes "stage_ok s p"
    and "\<And>t e. phase_entry p = Some (t, e) \<Longrightarrow> locked_entry p = Some e \<Longrightarrow>
      entry_view s' e = entry_view s e \<and> tw_pending s' t = tw_pending s t \<and> tw_handler s' t = tw_handler s t \<and>
      (tw_context s' t = tw_context s t \<or> tw_handler s t = None)"
    and "tw_action s' = tw_action s \<or> tw_action s' = SignalHandler \<or> \<not> holds_action p"
  shows "stage_ok s' p"
proof (cases "locked_entry p")
  case None
  then show ?thesis
    by (simp add: stage_ok_def stage_trivial split: option.split)
next
  case (Some e)
  then obtain t where t: "phase_entry p = Some (t, e)"
    using locked_is_used by blast
  note f = assms(2) [OF t Some]
  have "stage (tw_action s') (entry_view s e) (tw_pending s t) (tw_handler s t) (tw_context s t) p"
    using assms(1,3) t stage_action stage_handler_action by (auto simp: stage_ok_def)
  then show ?thesis
    using f t stage_context by (auto simp: stage_ok_def)
qed

section \<open>Steps of a requesting thread\<close>

lemma session_go:
  assumes "session_ok s" and main: "tw_main s' = (tw_main s)(x := p)" and "stage_ok s' p"
    and frame: "\<And>y t e. y \<noteq> x \<Longrightarrow> phase_entry (tw_main s y) = Some (t, e) \<Longrightarrow> locked_entry (tw_main s y) = Some e \<Longrightarrow>
      entry_view s' e = entry_view s e \<and> tw_pending s' t = tw_pending s t \<and> tw_handler s' t = tw_handler s t \<and>
      (tw_context s' t = tw_context s t \<or> tw_handler s t = None)"
    and act: "\<And>y. y \<noteq> x \<Longrightarrow> tw_action s' = tw_action s \<or> tw_action s' = SignalHandler \<or> \<not> holds_action (tw_main s y)"
    and aw: "\<And>t. tw_pending s' t \<or> tw_handler s' t \<noteq> None \<Longrightarrow>
      (tw_pending s t \<or> tw_handler s t \<noteq> None) \<and> awaits (tw_main s x) \<noteq> Some t \<or> awaits p = Some t"
  shows "session_ok s'"
  unfolding session_ok_def
proof (intro conjI allI impI)
  note D = session_okD [OF assms(1)]
  show "stage_ok s' (tw_main s' y)" for y
  proof (cases "y = x")
    case True
    then show ?thesis
      using assms(2,3) by simp
  next
    case False
    then show ?thesis
      using main stage_frame [OF D(1) [of y] frame [OF False] act [OF False]] by simp
  qed
  fix t
  assume "tw_pending s' t \<or> tw_handler s' t \<noteq> None"
  from aw [OF this] show "\<exists>y. awaits (tw_main s' y) = Some t"
  proof
    assume a: "(tw_pending s t \<or> tw_handler s t \<noteq> None) \<and> awaits (tw_main s x) \<noteq> Some t"
    then obtain y where "awaits (tw_main s y) = Some t"
      using D(2) by blast
    then show ?thesis
      using a main by (intro exI [of _ y]) auto
  qed (use main in auto)
qed

lemma other_session:
  assumes "threads_ok s" and "phase_entry (tw_main s x) = Some (t, e)" and "y \<noteq> x" and "phase_entry (tw_main s y) = Some (t', e')"
    and "locked_entry (tw_main s x) = Some e" and "locked_entry (tw_main s y) = Some e'"
  shows "e' \<noteq> e \<and> t' \<noteq> t"
  using locked_unique [OF assms(1), of x e y] entry_okD(2) [of s x t e] entry_okD(2) [of s y t' e'] assms
  by (auto simp: threads_ok_def)

lemma other_action:
  assumes "threads_ok s" and "holds_action (tw_main s x)" and "y \<noteq> x"
  shows "\<not> holds_action (tw_main s y)"
  using mutex_okD(1) [of s x] mutex_okD(1) [of s y] assms by (auto simp: threads_ok_def)

lemma view_on_entry: "entry_view (on_entry a f s) e = (if e = a then map_option (\<lambda>n. (te_wait_value (f n), te_ucontext (f n))) (tw_heap s a) else entry_view s e)"
  by (simp add: entry_view_def on_entry_def option.map_comp o_def)

lemma view_cong: "tw_heap s' = tw_heap s \<Longrightarrow> entry_view s' e = entry_view s e"
  by (simp add: entry_view_def)

text \<open>A step of a thread that holds the mutex of the entry.\<close>

lemma session_locked:
  assumes "session_ok s" and "threads_ok s" and x: "phase_entry (tw_main s x) = Some (t, e)" "locked_entry (tw_main s x) = Some e"
    and "tw_main s' = (tw_main s)(x := p)" and "\<And>f. f \<noteq> e \<Longrightarrow> tw_heap s' f = tw_heap s f"
    and "\<And>r. r \<noteq> t \<Longrightarrow> tw_pending s' r = tw_pending s r" and "tw_handler s' = tw_handler s" and "tw_context s' = tw_context s"
    and act: "tw_action s' = tw_action s \<or> tw_action s' = SignalHandler \<or> holds_action (tw_main s x)" and "stage_ok s' p"
    and aw: "tw_pending s' t \<or> tw_handler s t \<noteq> None \<Longrightarrow> awaits p = Some t"
  shows "session_ok s'"
proof (rule session_go [OF assms(1,5,11)])
  fix y r f
  assume y: "y \<noteq> x" "phase_entry (tw_main s y) = Some (r, f)" "locked_entry (tw_main s y) = Some f"
  then show "entry_view s' f = entry_view s f \<and> tw_pending s' r = tw_pending s r \<and> tw_handler s' r = tw_handler s r \<and>
    (tw_context s' r = tw_context s r \<or> tw_handler s r = None)"
    using other_session [OF assms(2) x(1) y(1,2) x(2) y(3)] assms(6-9) by (simp add: entry_view_def)
next
  show "tw_action s' = tw_action s \<or> tw_action s' = SignalHandler \<or> \<not> holds_action (tw_main s y)" if "y \<noteq> x" for y
    using act other_action [OF assms(2) _ that] by blast
next
  fix r
  assume r: "tw_pending s' r \<or> tw_handler s' r \<noteq> None"
  have "awaits (tw_main s x) = Some r \<Longrightarrow> r = t"
    using awaits_locked [of "tw_main s x" r] x(1) by auto
  then show "(tw_pending s r \<or> tw_handler s r \<noteq> None) \<and> awaits (tw_main s x) \<noteq> Some r \<or> awaits p = Some r"
    using r aw assms(7) [of r] assms(8) by (cases "r = t") auto
qed

text \<open>A step of a thread that holds the mutex of no entry.\<close>

lemma session_unlocked:
  assumes "session_ok s" and "awaits (tw_main s x) = None" and "tw_main s' = (tw_main s)(x := p)" and "stage_ok s' p"
    and "\<And>y e. y \<noteq> x \<Longrightarrow> locked_entry (tw_main s y) = Some e \<Longrightarrow> entry_view s' e = entry_view s e"
    and "tw_pending s' = tw_pending s" and "tw_handler s' = tw_handler s" and "tw_context s' = tw_context s" and "tw_action s' = tw_action s"
  shows "session_ok s'"
  by (rule session_go [OF assms(1,3,4)]) (use assms in auto)

lemma session_main:
  assumes step: "main_step x s s'" and h: "tw_handler s x = None" and "threads_ok s" and "session_ok s"
  shows "session_ok s'"
proof -
  have E: "entry_ok s" and M: "mutex_ok s" and L: "lock_ok s"
    using assms(3) by (auto simp: threads_ok_def)
  have st: "stage_ok s (tw_main s x)"
    using session_okD(1) [OF assms(4)] .
  note locked = session_locked [OF assms(4,3)] and free = session_unlocked [OF assms(4)]
  show ?thesis
    using step
  proof cases
    case (run c)
    have "stage_ok s' (tw_main s x)"
      by (rule stage_frame [OF st]) (auto simp: run h entry_view_def)
    then show ?thesis
      by (rule session_go [OF assms(4), of s' x "tw_main s x", rotated]) (auto simp: run h entry_view_def session_okD(2) [OF assms(4)])
  next
    case (request t init)
    then show ?thesis
      by (intro free [of x s' "UnwindWithSignal x t init"]) (auto simp: thread_defs UnwindWithSignal_def stage_ok_def entry_view_def)
  next
    case (lock_action t)
    then show ?thesis
      by (intro free [of x s' "Want_Get t"]) (auto simp: thread_defs stage_ok_def entry_view_def)
  next
    case (lock_entries t)
    then show ?thesis
      by (intro free [of x s' "In_Get t"]) (auto simp: thread_defs stage_ok_def entry_view_def)
  next
    case (get t a e s'')
    have "f \<noteq> a" if "locked_entry (tw_main s y) = Some f" for y f
      using locked_exists [OF E that] get(3) by auto
    then have "entry_view s' f = entry_view s f" if "locked_entry (tw_main s y) = Some f" for y f
      using that get(1,4) by (auto simp: ThreadEntry_Get_def thread_defs entry_view_def option.map_comp o_def split: option.splits)
    then show ?thesis
      using get(2) ThreadEntry_Get_fields [OF get(4)] unfolding get(1)
      by (intro free [of x _ "Want_Lock t e"]) (auto simp: thread_defs stage_ok_def)
  next
    case (lock_remove t e code inner)
    then show ?thesis
      by (intro free [of x s' "In_Remove t e code inner"]) (auto simp: thread_defs stage_ok_def entry_view_def)
  next
    case (leave code)
    then show ?thesis
      by (intro free [of x s' "Finished code"]) (auto simp: thread_defs stage_ok_def entry_view_def)
  next
    case (reset t e)
    then show ?thesis
      using phase_entry_exists [OF E, of x t e] st
      by (intro locked [of x t e s' "Set_Action t e"]) (auto simp: thread_defs stage_ok_def entry_view_def)
  next
    case (set_action t e)
    then show ?thesis
      using st by (intro locked [of x t e s' "Send_Signal t e (tw_action s)"]) (auto simp: thread_defs stage_ok_def entry_view_def)
  next
    case (set_action_fails t e)
    then show ?thesis
      using st by (intro locked [of x t e s' "Unlock t e ERROR_SYSTEM_CALL True"]) (auto simp: thread_defs stage_ok_def entry_view_def)
  next
    case (send t e old)
    then show ?thesis
      using st by (intro locked [of x t e s' "Wait_Ucontext t e old"]) (auto simp: thread_defs stage_ok_def entry_view_def)
  next
    case (send_fails t e old esrch)
    then show ?thesis
      using st by (intro locked [of x t e s' "Unlock t e (kill_error esrch) True"]) (auto simp: thread_defs stage_ok_def entry_view_def)
  next
    case (ucontext t e old n)
    then show ?thesis
      using st by (intro locked [of x t e s' "Unwinding t e"]) (auto simp: thread_defs stage_ok_def entry_view_def wait_over_def)
  next
    case (unwound t e code)
    then show ?thesis
      using st by (intro locked [of x t e s' "Wait_Restart t e code"]) (auto simp: thread_defs stage_ok_def entry_view_def Wake_def)
  next
    case (restarted t e code n)
    then show ?thesis
      using st by (intro locked [of x t e s' "Unlock t e code False"]) (auto simp: thread_defs stage_ok_def entry_view_def wait_over_def)
  next
    case (unlock t e code inner)
    have "\<not> (\<exists>y. awaits (tw_main s y) = Some t)"
    proof
      assume "\<exists>y. awaits (tw_main s y) = Some t"
      then obtain y f where y: "awaits (tw_main s y) = Some t" "phase_entry (tw_main s y) = Some (t, f)" "locked_entry (tw_main s y) = Some f"
        using awaits_locked by blast
      then show False
        using other_session [OF assms(3), of x t e y t f] unlock(2) by (cases "y = x") auto
    qed
    then show ?thesis
      using unlock session_okD(2) [OF assms(4), of t]
      by (intro locked [of x t e s' "Want_Remove t e code inner"]) (auto simp: thread_defs stage_ok_def entry_view_def)
  next
    case (lock t e n)
    have none: "locked_entry (tw_main s y) \<noteq> Some e" for y
      using lock_okD [OF L lock(3), of y] lock(4) by simp
    have "\<not> (\<exists>y. awaits (tw_main s y) = Some t)"
    proof
      assume "\<exists>y. awaits (tw_main s y) = Some t"
      then obtain y f where y: "phase_entry (tw_main s y) = Some (t, f)" "locked_entry (tw_main s y) = Some f"
        using awaits_locked by blast
      then show False
        using none [of y] entry_okD(2) [OF E y(1)] entry_okD(2) [OF E, of x t e] lock(2) by auto
    qed
    then have quiet: "\<not> tw_pending s t" "tw_handler s t = None"
      using session_okD(2) [OF assms(4), of t] by blast+
    have "entry_view s' f = entry_view s f" if "locked_entry (tw_main s y) = Some f" for y f
      using that none [of y] unfolding lock(1) by (auto simp: thread_defs entry_view_def)
    then show ?thesis
      using lock(2) quiet unfolding lock(1)
      by (intro free [of x _ "Reset_Value t e"]) (auto simp: thread_defs stage_ok_def)
  next
    case (remove t e code inner n)
    have "entry_view s' f = entry_view s f" if "y \<noteq> x" "locked_entry (tw_main s y) = Some f" for y f
    proof (cases "f = e")
      case True
      then have "y \<in> users s e" "x \<in> users s e"
        using locked_is_used [OF that(2)] remove(2) by (auto simp: users_def)
      then have "te_ref_count n - 1 \<noteq> 0"
        using last_user(1) [OF E _ remove(3), of x] that(1) by blast
      then show ?thesis
        using True remove(3) unfolding remove(1) by (simp add: ThreadEntry_Remove_def thread_defs entry_view_def)
    next
      case False
      then show ?thesis
        unfolding remove(1) by (simp add: ThreadEntry_Remove_def ThreadEntry_delete_def thread_defs entry_view_def)
    qed
    then show ?thesis
      using remove(2) unfolding remove(1)
      by (intro free [of x _ "if inner then Leave code else Finished code"]) (auto simp: thread_defs stage_ok_def)
  qed
qed

section \<open>Steps of the handler\<close>

text \<open>A step that concerns only the thread \<open>t\<close> in the handler and the entry under which its request runs.\<close>

lemma session_handled:
  assumes "session_ok s" and "threads_ok s" and x: "awaits (tw_main s x) = Some t" "phase_entry (tw_main s x) = Some (t, e)"
    and main: "tw_main s' = tw_main s" and "\<And>f. f \<noteq> e \<Longrightarrow> tw_heap s' f = tw_heap s f"
    and "\<And>r. r \<noteq> t \<Longrightarrow> tw_pending s' r = tw_pending s r \<and> tw_handler s' r = tw_handler s r" and "tw_context s' = tw_context s"
    and "tw_action s' = tw_action s"
    and "stage (tw_action s) (entry_view s e) (tw_pending s t) (tw_handler s t) (tw_context s t) (tw_main s x) \<Longrightarrow>
      stage (tw_action s) (entry_view s' e) (tw_pending s' t) (tw_handler s' t) (tw_context s t) (tw_main s x)"
  shows "session_ok s'"
proof (rule session_go [OF assms(1), of s' x "tw_main s x"])
  have l: "locked_entry (tw_main s x) = Some e"
    using awaits_locked [OF x(1)] x(2) by auto
  show "stage_ok s' (tw_main s x)"
    using session_okD(1) [OF assms(1), of x] x(2) assms(8-10) by (simp add: stage_ok_def)
  show "tw_main s' = (tw_main s)(x := tw_main s x)"
    using main by simp
  fix y r f
  assume y: "y \<noteq> x" "phase_entry (tw_main s y) = Some (r, f)" "locked_entry (tw_main s y) = Some f"
  then show "entry_view s' f = entry_view s f \<and> tw_pending s' r = tw_pending s r \<and> tw_handler s' r = tw_handler s r \<and>
    (tw_context s' r = tw_context s r \<or> tw_handler s r = None)"
    using other_session [OF assms(2) x(2) y(1,2) l y(3)] assms(6-8) by (simp add: entry_view_def)
next
  fix r
  assume "tw_pending s' r \<or> tw_handler s' r \<noteq> None"
  then show "(tw_pending s r \<or> tw_handler s r \<noteq> None) \<and> awaits (tw_main s x) \<noteq> Some r \<or> awaits (tw_main s x) = Some r"
    using x(1) assms(7) [of r] by (cases "r = t") auto
qed (use assms(9) in auto)

lemma awaits_phases:
  assumes "awaits p = Some t" and "phase_entry p = Some (t, e)"
  shows "(\<exists>old. p = Wait_Ucontext t e old) \<or> p = Unwinding t e \<or> (\<exists>code. p = Wait_Restart t e code)"
  using assms by (cases p) auto

lemma session_handler:
  assumes "handler_step t s s'" and "threads_ok s" and "session_ok s"
  shows "session_ok s'"
proof -
  have E: "entry_ok s"
    using assms(2) by (auto simp: threads_ok_def)
  have "tw_handler s t \<noteq> None"
    using assms(1) by cases auto
  then obtain x e where x: "awaits (tw_main s x) = Some t" "phase_entry (tw_main s x) = Some (t, e)"
    using session_okD(2) [OF assms(3), of t] awaits_locked by blast
  obtain n where n: "tw_heap s e = Some n"
    using phase_entry_exists [OF E x(2)] by blast
  note act = session_handled [OF assms(3,2) x]
  have st: "stage (tw_action s) (entry_view s e) (tw_pending s t) (tw_handler s t) (tw_context s t) (tw_main s x)"
    using session_okD(1) [OF assms(3), of x] x(2) by (simp add: stage_ok_def)
  note p = awaits_phases [OF x]
  have same: "f = e" if "tw_handler s t = Some h" "handler_entry h = Some f" for h f
    using entry_okD(3) [OF E, of t f] entry_okD(2) [OF E x(2)] that by (auto simp: handled_def)
  show ?thesis
    using assms(1)
  proof cases
    case h_lock
    then show ?thesis
      using st p by (intro act) (auto simp: thread_defs entry_view_def)
  next
    case (h_get a r s'')
    have r: "r = Some e" "s'' = on_entry e (\<lambda>n. n\<lparr>te_ref_count := te_ref_count n + 1\<rparr>) s"
      using h_get(3) entry_okD(2) [OF E x(2)] by (auto simp: ThreadEntry_Get_def)
    show ?thesis
      using st p h_get(2) n unfolding h_get(1) r by (intro act) (auto simp: thread_defs entry_view_def)
  next
    case (h_copy f)
    then show ?thesis
      using st p n same [OF h_copy(2)]
      by (intro act) (auto simp: thread_defs entry_view_def CopyUcontextFromSigcontext_def)
  next
    case (h_wake f)
    then show ?thesis
      using st p n same [OF h_wake(2)] by (intro act) (auto simp: thread_defs entry_view_def Wake_def)
  next
    case (h_wait f m)
    then show ?thesis
      using st p n same [OF h_wait(2)] by (intro act) (auto simp: thread_defs entry_view_def wait_over_def)
  next
    case (h_restart f)
    then show ?thesis
      using st p n same [OF h_restart(2)] by (intro act) (auto simp: thread_defs entry_view_def Wake_def)
  qed
qed

section \<open>A thread is stopped while it is unwound\<close>

lemma session_step:
  assumes "thread_step s s'" and "threads_ok s" and "session_ok s"
  shows "session_ok s'"
  using assms(1)
proof cases
  case (main x)
  then show ?thesis
    using session_main assms(2,3) by blast
next
  case (in_handler x)
  then show ?thesis
    using session_handler assms(2,3) by blast
next
  case (deliver t)
  then obtain x e where x: "awaits (tw_main s x) = Some t" "phase_entry (tw_main s x) = Some (t, e)"
    using session_okD(2) [OF assms(3), of t] awaits_locked by blast
  show ?thesis
    using deliver awaits_phases [OF x] by (intro session_handled [OF assms(3,2) x]) (auto simp: thread_defs entry_view_def)
next
  case (deliver_other t)
  then obtain x e where x: "awaits (tw_main s x) = Some t" "phase_entry (tw_main s x) = Some (t, e)"
    using session_okD(2) [OF assms(3), of t] awaits_locked by blast
  then have False
    using session_okD(1) [OF assms(3), of x] awaits_phases [OF x] deliver_other by (auto simp: stage_ok_def)
  then show ?thesis ..
qed

lemma session_steps: "thread_step\<^sup>*\<^sup>* s s' \<Longrightarrow> threads_ok s \<Longrightarrow> session_ok s \<Longrightarrow> session_ok s' \<and> threads_ok s'"
proof (induction rule: rtranclp_induct)
  case (step t u)
  then show ?case
    using session_step [of t u] threads_ok_step [of t u] by (auto simp: any_step_def)
qed simp

lemma session_init: "no_requests s \<Longrightarrow> session_ok s"
  by (auto simp: session_ok_def no_requests_def stage_ok_def)

lemma timely_session: "timely s \<Longrightarrow> session_ok s"
  using session_steps session_init threads_ok_init unfolding timely_def by blast

text \<open>
  C14. As long as every wait ends in time, a thread that is being unwound is stopped in the signal handler, and the context the unwind
  starts from is the one it has at that moment; whatever the other threads do, also if they unwind each other.
\<close>

theorem Unwinding_thread_stopped:
  assumes "timely s" and "tw_main s x = Unwinding t e"
  shows "tw_handler s t = Some (H_Wait e) \<and> (\<exists>n. tw_heap s e = Some n \<and> te_tid n = t \<and> te_ucontext n = Some (tw_context s t))"
proof -
  have "stage_ok s (Unwinding t e)"
    using session_okD(1) [OF timely_session [OF assms(1)], of x] assms(2) by simp
  moreover have "\<exists>n. tw_heap s e = Some n \<and> te_tid n = t"
    using phase_entry_exists [of s x t e] reachable_ok [OF timely_reachable [OF assms(1)]] assms(2) by (simp add: threads_ok_def)
  ultimately show ?thesis
    by (auto simp: stage_ok_def entry_view_def)
qed


text \<open>
  C25. The handler takes a reference to the entry and never gives it back: once a thread has been interrupted, its entry is never deleted.
\<close>

theorem SignalHandler_keeps_entry:
  assumes "reachable s" and "tw_handler s x = Some h" and "handler_entry h = Some e" and "any_step\<^sup>*\<^sup>* s s'"
  shows "tw_entries s' x = Some e \<and> tw_heap s' e \<noteq> None"
proof -
  have ok: "threads_ok s" and h: "handled s x e"
    using reachable_ok [OF assms(1)] assms(2,3) by (auto simp: handled_def)
  then have E: "entry_ok s"
    by (simp add: threads_ok_def)
  have "surplus s' x e \<and> threads_ok s'"
    using surplus_steps [OF assms(4) ok handled_surplus [OF E h]] .
  then show ?thesis
    using entry_okD(1) [of s' x e] by (auto simp: surplus_def threads_ok_def)
qed

end
