(* ===== verification/Thread_Ends.thy ===== *)
theory Thread_Ends
  imports Thread_Session
begin

text \<open>
  Executions of threads that unwind each other: a player that carries out a list of moves, and what can go wrong: a wake that comes
  late, and a signal that interrupts a thread while it holds the mutex of the entries.
\<close>

section \<open>Playing moves\<close>

text \<open>The next step of a requesting thread when system calls succeed; a new entry gets the address \<open>a\<close>.\<close>

definition main_next :: "nat \<Rightarrow> nat \<Rightarrow> 'c threads \<Rightarrow> 'c threads option" where
  "main_next x a s =
     (case tw_main s x of
        Want_Action t \<Rightarrow> if tw_action_mutex s = None then Some (go x (Want_Get t) (s\<lparr>tw_action_mutex := Some x\<rparr>)) else None
      | Want_Get t \<Rightarrow> if tw_entries_mutex s = None then Some (go x (In_Get t) (s\<lparr>tw_entries_mutex := Some x\<rparr>)) else None
      | In_Get t \<Rightarrow>
          if tw_heap s a = None
          then (case ThreadEntry_Get t True a s of
                  (Some e, s') \<Rightarrow> Some (go x (Want_Lock t e) (s'\<lparr>tw_entries_mutex := None\<rparr>))
                | (None, _) \<Rightarrow> None)
          else None
      | Want_Lock t e \<Rightarrow>
          (case tw_heap s e of
             Some n \<Rightarrow> if te_mutex n = None then Some (go x (Reset_Value t e) (on_entry e (\<lambda>n. n\<lparr>te_mutex := Some x\<rparr>) s)) else None
           | None \<Rightarrow> None)
      | Reset_Value t e \<Rightarrow> Some (go x (Set_Action t e) (on_entry e (\<lambda>n. n\<lparr>te_wait_value := 0\<rparr>) s))
      | Set_Action t e \<Rightarrow> Some (go x (Send_Signal t e (tw_action s)) (s\<lparr>tw_action := SignalHandler\<rparr>))
      | Send_Signal t e old \<Rightarrow> Some (go x (Wait_Ucontext t e old) (s\<lparr>tw_pending := (tw_pending s)(t := True)\<rparr>))
      | Wait_Ucontext t e old \<Rightarrow>
          (case tw_heap s e of
             Some n \<Rightarrow> if wait_over WAIT_FOR_UCONTEXT n then Some (go x (Unwinding t e) (s\<lparr>tw_action_mutex := None\<rparr>)) else None
           | None \<Rightarrow> None)
      | Unwinding t e \<Rightarrow> Some (go x (Wait_Restart t e ERROR_NONE) (on_entry e Wake s))
      | Wait_Restart t e code \<Rightarrow>
          (case tw_heap s e of
             Some n \<Rightarrow> if wait_over WAIT_FOR_THREAD_TO_RESTART n then Some (go x (Unlock t e code False) s) else None
           | None \<Rightarrow> None)
      | Unlock t e code inner \<Rightarrow> Some (go x (Want_Remove t e code inner) (on_entry e (\<lambda>n. n\<lparr>te_mutex := None\<rparr>) s))
      | Want_Remove t e code inner \<Rightarrow>
          if tw_entries_mutex s = None then Some (go x (In_Remove t e code inner) (s\<lparr>tw_entries_mutex := Some x\<rparr>)) else None
      | In_Remove t e code inner \<Rightarrow>
          (case tw_heap s e of
             Some n \<Rightarrow> Some (go x (if inner then Leave code else Finished code) ((ThreadEntry_Remove e n s)\<lparr>tw_entries_mutex := None\<rparr>))
           | None \<Rightarrow> None)
      | Leave code \<Rightarrow> Some (go x (Finished code) (s\<lparr>tw_action_mutex := None\<rparr>))
      | _ \<Rightarrow> None)"

definition handler_next :: "nat \<Rightarrow> 'c threads \<Rightarrow> 'c threads option" where
  "handler_next x s =
     (case tw_handler s x of
        Some H_Want_Get \<Rightarrow>
          if tw_entries_mutex s = None then Some (handle x (Some H_In_Get) (s\<lparr>tw_entries_mutex := Some x\<rparr>)) else None
      | Some H_In_Get \<Rightarrow>
          (case ThreadEntry_Get x False 0 s of (r, s') \<Rightarrow> Some (handle x (map_option H_Copy r) (s'\<lparr>tw_entries_mutex := None\<rparr>)))
      | Some (H_Copy e) \<Rightarrow> Some (handle x (Some (H_Wake e)) (on_entry e (CopyUcontextFromSigcontext (tw_context s x)) s))
      | Some (H_Wake e) \<Rightarrow> Some (handle x (Some (H_Wait e)) (on_entry e Wake s))
      | Some (H_Wait e) \<Rightarrow>
          (case tw_heap s e of
             Some n \<Rightarrow> if wait_over WAIT_FOR_UNWIND_TO_COMPLETE n then Some (handle x (Some (H_Restart e)) s) else None
           | None \<Rightarrow> None)
      | Some (H_Restart e) \<Rightarrow> Some (handle x None (on_entry e Wake s))
      | None \<Rightarrow> None)"

lemmas remove_inner = main_step.remove [where inner = True, simplified] and remove_outer = main_step.remove [where inner = False, simplified]

lemma main_next_step: "main_next x a s = Some s' \<Longrightarrow> main_step x s s'"
  by (auto simp: main_next_def intro: main_step.intros remove_inner remove_outer split: phase.splits if_splits option.splits prod.splits)

lemma handler_next_step: "handler_next x s = Some s' \<Longrightarrow> handler_step x s s'"
  by (auto simp: handler_next_def intro: handler_step.intros split: handler.splits if_splits option.splits prod.splits)

text \<open>
  Thread \<open>x\<close> runs on, requests the unwind of \<open>t\<close>, makes its next step in the code of the request or in the handler, gets its signal, or gives
  up waiting for the other thread to restart.
\<close>

datatype 'c move = Run nat 'c | Request nat nat | Main nat nat | Handler nat | Deliver nat | Give_Up nat

definition moved :: "'c move \<Rightarrow> 'c threads \<Rightarrow> 'c threads option" where
  "moved v s =
     (case v of
        Run x c \<Rightarrow> if tw_handler s x = None then Some (s\<lparr>tw_context := (tw_context s)(x := c)\<rparr>) else None
      | Request x t \<Rightarrow> if tw_handler s x = None \<and> tw_main s x = Idle then Some (go x (UnwindWithSignal x t True) s) else None
      | Main x a \<Rightarrow> if tw_handler s x = None then main_next x a s else None
      | Handler x \<Rightarrow> handler_next x s
      | Deliver x \<Rightarrow>
          if tw_pending s x \<and> tw_handler s x = None \<and> tw_action s = SignalHandler
          then Some (handle x (Some H_Want_Get) (s\<lparr>tw_pending := (tw_pending s)(x := False)\<rparr>)) else None
      | Give_Up x \<Rightarrow>
          (case (tw_handler s x, tw_main s x) of
             (None, Wait_Restart t e code) \<Rightarrow>
               (case tw_heap s e of
                  Some n \<Rightarrow> if wait_over WAIT_FOR_THREAD_TO_RESTART n then None else Some (go x (Unlock t e code False) s)
                | None \<Rightarrow> None)
           | _ \<Rightarrow> None))"

fun play :: "'c move list \<Rightarrow> 'c threads \<Rightarrow> 'c threads option" where
  "play [] s = Some s"
| "play (v # vs) s = Option.bind (moved v s) (play vs)"

fun in_time :: "'c move \<Rightarrow> bool" where
  "in_time (Give_Up x) = False"
| "in_time _ = True"

lemma moved_step: "moved v s = Some s' \<Longrightarrow> in_time v \<Longrightarrow> thread_step s s'"
  by (cases v)
    (auto simp: moved_def intro: thread_step.intros main_step.intros main_next_step handler_next_step split: if_splits)

lemma moved_any:
  assumes "moved v s = Some s'"
  shows "any_step s s'"
proof (cases "in_time v")
  case True
  then show ?thesis
    using moved_step [OF assms] by (simp add: any_step_def)
next
  case False
  then obtain x where "v = Give_Up x"
    by (cases v) auto
  then show ?thesis
    using assms by (auto simp: moved_def any_step_def intro: timeout_step.no_restart split: option.splits phase.splits if_splits)
qed

lemma play_steps: "play vs s = Some s' \<Longrightarrow> list_all in_time vs \<Longrightarrow> thread_step\<^sup>*\<^sup>* s s'"
proof (induction vs arbitrary: s)
  case (Cons v vs)
  then obtain t where "moved v s = Some t" "play vs t = Some s'"
    by (auto simp: bind_eq_Some_conv)
  then show ?case
    using Cons converse_rtranclp_into_rtranclp [of thread_step s t s', OF moved_step] by simp
qed simp

lemma play_any: "play vs s = Some s' \<Longrightarrow> any_step\<^sup>*\<^sup>* s s'"
proof (induction vs arbitrary: s)
  case (Cons v vs)
  then obtain t where "moved v s = Some t" "play vs t = Some s'"
    by (auto simp: bind_eq_Some_conv)
  then show ?case
    using Cons converse_rtranclp_into_rtranclp [of any_step s t s', OF moved_any] by simp
qed simp

section \<open>Examples\<close>

definition quiet_threads :: "nat threads" where
  "quiet_threads = \<lparr>tw_heap = Map.empty, tw_entries = Map.empty, tw_entries_mutex = None, tw_action_mutex = None, tw_action = Default_Action,
     tw_pending = (\<lambda>_. False), tw_main = (\<lambda>_. Idle), tw_handler = (\<lambda>_. None), tw_context = (\<lambda>_. 0)\<rparr>"

lemma quiet_no_requests: "no_requests quiet_threads"
  by (simp add: no_requests_def quiet_threads_def)

lemma play_timely: "play vs quiet_threads = Some s \<Longrightarrow> list_all in_time vs \<Longrightarrow> timely s"
  using play_steps quiet_no_requests unfolding timely_def by blast

lemma play_reachable: "play vs quiet_threads = Some s \<Longrightarrow> reachable s"
  using play_any quiet_no_requests unfolding reachable_def by blast

text \<open>Thread 1 requests the unwind of thread 2 up to the moment its context is there.\<close>

definition unwind_2 :: "nat move list" where
  "unwind_2 = [Run 2 7, Request 1 2] @ replicate 7 (Main 1 0) @ [Deliver 2] @ replicate 4 (Handler 2) @ [Main 1 0]"

lemma unwind_2_in_time: "list_all in_time unwind_2"
  by code_simp

lemma unwind_2_state:
  "\<exists>s. play unwind_2 quiet_threads = Some s \<and> tw_main s 1 = Unwinding 2 0 \<and> tw_handler s 2 = Some (H_Wait 0) \<and> tw_context s 2 = 7"
proof -
  have "map_option (\<lambda>s. (tw_main s 1, tw_handler s 2, tw_context s 2)) (play unwind_2 quiet_threads) =
    Some (Unwinding 2 0, Some (H_Wait 0), 7)"
    by code_simp
  then show ?thesis
    by auto
qed

lemma Unwinding_thread_stopped_witness:
  "\<exists>s :: nat threads. timely s \<and> tw_main s 1 = Unwinding 2 0 \<and> tw_handler s 2 = Some (H_Wait 0) \<and>
    (\<exists>n. tw_heap s 0 = Some n \<and> te_tid n = 2 \<and> te_ucontext n = Some 7)"
proof -
  obtain s where s: "play unwind_2 quiet_threads = Some s" "tw_main s 1 = Unwinding 2 0" "tw_context s 2 = 7"
    using unwind_2_state by blast
  have "timely s"
    using play_timely [OF s(1) unwind_2_in_time] .
  then show ?thesis
    using Unwinding_thread_stopped [of s 1 2 0] s by auto
qed


lemma SignalHandler_keeps_entry_witness:
  "\<exists>s s' :: nat threads. reachable s \<and> tw_handler s 2 = Some (H_Wait 0) \<and> any_step\<^sup>*\<^sup>* s s' \<and>
    tw_main s' 1 = Finished ERROR_NONE \<and> tw_handler s' 2 = None \<and> tw_entries s' 2 = Some 0 \<and> tw_heap s' 0 \<noteq> None"
proof -
  obtain s where s: "play unwind_2 quiet_threads = Some s" "tw_handler s 2 = Some (H_Wait 0)"
    using unwind_2_state by blast
  have "map_option (\<lambda>s. (tw_main s 1, tw_handler s 2))
      (Option.bind (play unwind_2 quiet_threads) (play ([Main 1 0, Handler 2, Handler 2] @ replicate 4 (Main 1 0)))) =
    Some (Finished ERROR_NONE, None)"
    by code_simp
  then obtain s' where s': "play ([Main 1 0, Handler 2, Handler 2] @ replicate 4 (Main 1 0)) s = Some s'"
    "tw_main s' 1 = Finished ERROR_NONE" "tw_handler s' 2 = None"
    using s(1) by auto
  show ?thesis
    using SignalHandler_keeps_entry [OF play_reachable [OF s(1)] s(2) _ play_any [OF s'(1)]] s s' play_reachable play_any
    by (metis handler_entry.simps(3))
qed

section \<open>A wake that comes late\<close>

text \<open>Thread 1 gives up waiting for thread 2 to leave the handler; thread 3 requests the next unwind before it does.\<close>

definition late_wake :: "nat move list" where
  "late_wake = unwind_2 @ [Main 1 0, Handler 2, Give_Up 1] @ replicate 3 (Main 1 0) @
     [Request 3 2] @ replicate 7 (Main 3 9) @ [Handler 2, Main 3 9, Run 2 8]"

text \<open>
  C24. A handler that leaves late wakes the next request: its \<^verbatim>\<open>Wake\<close> is taken for the one that says the context is there. The thread is
  then unwound from the context of the request before, while it runs and has another one.
\<close>

theorem Unwinding_late_wake:
  "\<exists>(s :: nat threads) n. reachable s \<and> tw_main s 3 = Unwinding 2 0 \<and> tw_handler s 2 = None \<and>
    tw_heap s 0 = Some n \<and> te_ucontext n = Some 7 \<and> tw_context s 2 = 8"
proof -
  have "map_option (\<lambda>s. (tw_main s 3, tw_handler s 2, map_option te_ucontext (tw_heap s 0), tw_context s 2)) (play late_wake quiet_threads) =
    Some (Unwinding 2 0, None, Some (Some 7), 8)"
    by code_simp
  then obtain s where "play late_wake quiet_threads = Some s" "tw_main s 3 = Unwinding 2 0" "tw_handler s 2 = None"
    "map_option te_ucontext (tw_heap s 0) = Some (Some 7)" "tw_context s 2 = 8"
    by auto
  then show ?thesis
    using play_reachable by fastforce
qed

section \<open>A signal at the wrong moment\<close>

lemma deadlock_step:
  assumes "any_step s s'" and "mutex_ok s" and "tw_entries_mutex s = Some x" and "tw_handler s x = Some H_Want_Get"
  shows "tw_entries_mutex s' = Some x \<and> tw_handler s' x = Some H_Want_Get"
proof -
  note D = mutex_okD [OF assms(2)]
  have free: "\<not> holds_entries (tw_main s y)" if "tw_handler s y = None" for y
    using D(3) [of y] that assms(3,4) by auto
  have handler: "tw_handler s y \<noteq> Some H_In_Get" for y
    using D(4) [of y] assms(3,4) by auto
  show ?thesis
    using assms(1) unfolding any_step_def
  proof
    assume "thread_step s s'"
    then show ?thesis
    proof cases
      case (main y)
      have "y \<noteq> x" "\<not> holds_entries (tw_main s y)"
        using main(1) assms(4) free by auto
      show ?thesis
        using main(2) \<open>y \<noteq> x\<close> \<open>\<not> holds_entries (tw_main s y)\<close> assms(3,4) by cases (auto simp: thread_defs)
    next
      case (in_handler y)
      then show ?thesis
        using handler [of y] assms(3,4) by cases (auto simp: thread_defs)
    qed (use assms(3,4) in \<open>auto simp: thread_defs\<close>)
  next
    assume "timeout_step s s'"
    then show ?thesis
      using assms(3,4) by cases (auto simp: thread_defs)
  qed
qed

text \<open>
  C23. A thread that is interrupted by the signal while it holds \<^verbatim>\<open>entries_mutex_\<close> waits in the handler for the mutex it holds, for ever:
  no step of any thread, and no wait that gives up, lets it or any other thread get an entry again.
\<close>

theorem SignalHandler_deadlock:
  assumes "reachable s" and "tw_entries_mutex s = Some x" and "tw_handler s x = Some H_Want_Get" and "any_step\<^sup>*\<^sup>* s s'"
  shows "tw_entries_mutex s' = Some x \<and> tw_handler s' x = Some H_Want_Get"
proof -
  have "tw_entries_mutex s' = Some x \<and> tw_handler s' x = Some H_Want_Get \<and> threads_ok s'"
    using assms(4)
  proof (induction rule: rtranclp_induct)
    case base
    then show ?case
      using reachable_ok assms(1-3) by blast
  next
    case (step t u)
    then show ?case
      using deadlock_step [OF step(2)] threads_ok_step [OF step(2)] by (auto simp: threads_ok_def)
  qed
  then show ?thesis
    by blast
qed

text \<open>Thread 1 has unwound thread 2 and is about to give the entry back when thread 3 requests the unwind of thread 1.\<close>

definition bad_moment :: "nat move list" where
  "bad_moment = unwind_2 @ [Main 1 0, Handler 2, Handler 2] @ replicate 2 (Main 1 0) @
     [Request 3 1] @ replicate 7 (Main 3 9) @ [Main 1 0, Deliver 1]"

lemma bad_moment_in_time: "list_all in_time bad_moment"
  by code_simp

lemma SignalHandler_deadlock_witness:
  "\<exists>s s' :: nat threads. timely s \<and> tw_entries_mutex s = Some 1 \<and> tw_handler s 1 = Some H_Want_Get \<and> any_step\<^sup>*\<^sup>* s s' \<and>
    tw_context s' 2 = 9 \<and> tw_entries_mutex s' = Some 1 \<and> tw_handler s' 1 = Some H_Want_Get"
proof -
  have "map_option (\<lambda>s. (tw_entries_mutex s, tw_handler s 1, tw_handler s 2)) (play bad_moment quiet_threads) = Some (Some 1, Some H_Want_Get, None)"
    by code_simp
  then obtain s where s: "play bad_moment quiet_threads = Some s" "tw_entries_mutex s = Some 1" "tw_handler s 1 = Some H_Want_Get"
    "tw_handler s 2 = None"
    by auto
  have t: "timely s"
    using play_timely [OF s(1) bad_moment_in_time] .
  let ?s' = "s\<lparr>tw_context := (tw_context s)(2 := 9)\<rparr>"
  have "any_step\<^sup>*\<^sup>* s ?s'"
    using play_any [of "[Run 2 9]" s ?s'] s(4) by (simp add: moved_def)
  then show ?thesis
    using SignalHandler_deadlock [OF timely_reachable [OF t] s(2,3)] t s(2,3) by fastforce
qed

end
