(* ===== verification/Spec2Isabelle.thy ===== *)
theory Spec2Isabelle
  imports Memory_Model Dwarf_Memory Regs_Info Dwarf_Op_Table Dwarf_Op Dwarf_Expr Dwarf_Cfa_Table
    Dwarf_Cfa Cfi_Spec Cfi_Refine Cfa_Safety Arm_Exidx Ehabi_Spec Arm_Ehabi Arm_Log Fde_Index
    Dwarf_Section Section_Cache Section_Lookup Machine_Regs Dwarf_Eval Caller_Frame Dwarf_Step Binary_Search
    Eh_Frame_Hdr Hdr_Search Elf_Types Symbols Symbol_Lookup Symbol_Remap Symbol_Names Maps Map_Update Map_Lookup
    Elf_Interface Elf_Headers Elf_Interface_Arm Exidx_Step Elf_File Jit_State Map_Info Map_Elf Unwinder Unwind_Frames
    Unwind_Ends Jit_Debug Jit_List Memory_Xz Xz_Contents Thread_Entry Thread_Safety Thread_Session Thread_Ends
begin

text \<open>
  Verification of libunwindstack, the stack unwinder under \<^verbatim>\<open>src/libunwindstack\<close>.

  \<^bold>\<open>The program.\<close> An unwinder turns the registers of a stopped thread into the list of its call frames. For each frame it finds the
  map of the pc (\<^verbatim>\<open>Maps\<close>), the ELF file behind the map (\<^verbatim>\<open>Elf\<close>, \<^verbatim>\<open>ElfInterface\<close>), the unwind information of the function that
  contains the pc (\<^verbatim>\<open>DwarfSection\<close> with its subclasses, \<^verbatim>\<open>ArmExidx\<close>), computes from it where the registers of the caller are (\<^verbatim>\<open>DwarfCfa\<close>)
  and what they are (\<^verbatim>\<open>DwarfSection::Eval\<close>, \<^verbatim>\<open>DwarfOp\<close>), and looks up the name of the function (\<^verbatim>\<open>Symbols\<close>). All input is
  read through \<^verbatim>\<open>Memory\<close> objects and none of it is trusted: every size, offset and index comes from the file or the memory of another
  process, so how the code behaves on malformed input is part of what the theorems say.

  \<^bold>\<open>How the code is modelled.\<close> An operation that returns \<^verbatim>\<open>bool\<close> and changes its object is a function into \<open>outcome\<close>
  (\<open>Unwind_Prelude\<close>): \<open>Ok\<close> with the new state for true, \<open>Fail\<close> with the new state for false or a null pointer, \<open>Abort\<close> for a
  failed \<^verbatim>\<open>CHECK\<close>, \<open>Undef\<close> with the cause for undefined behaviour of C++. Integers are words of their width, \<^verbatim>\<open>size_t\<close> has 64 bits;
  signed members are kept as their bits. The template parameter \<^verbatim>\<open>AddressType\<close> is a type variable, a size in bytes or an \<open>elf_class\<close>.
  A \<^verbatim>\<open>Memory\<close> is the function that answers its reads; the locale \<open>flat_memory\<close> says when such a function shows the contents of a memory,
  and every memory class is interpreted in it. \<^verbatim>\<open>std::map\<close> is a sorted association list, \<^verbatim>\<open>std::unordered_map\<close> a map, and where code
  iterates over one, its order is a parameter. Objects with an identity (\<^verbatim>\<open>MapInfo\<close>) are indices into a list that only grows.

  \<^bold>\<open>Theories and sources.\<close>
    \<^item> \<open>Unwind_Prelude\<close>: outcomes, little-endian numbers, memory contents, ordered maps.
    \<^item> \<open>Memory_Model\<close>: \<^verbatim>\<open>Memory.cpp\<close>, \<^verbatim>\<open>MemoryBuffer.h\<close>, \<^verbatim>\<open>MemoryFileAtOffset.h\<close>, \<^verbatim>\<open>MemoryRange.h\<close>, \<^verbatim>\<open>MemoryOffline.h\<close>,
      \<^verbatim>\<open>MemoryCache.h\<close>. Windows, ranges and the page cache show the memory behind them.
    \<^item> \<open>Dwarf_Memory\<close>: \<^verbatim>\<open>DwarfMemory.cpp\<close>. LEB128 numbers and encoded pointers are decoded to the value that was encoded.
    \<^item> \<open>Regs_Info\<close>, \<open>Machine_Regs\<close>: \<^verbatim>\<open>RegsInfo.h\<close>, \<^verbatim>\<open>Regs.cpp\<close> and the seven \<^verbatim>\<open>Regs*.cpp\<close>. Overwritten registers keep their
      old value for later rules; signal frames are restored register by register.
    \<^item> \<open>Dwarf_Op_Table\<close>, \<open>Dwarf_Op\<close>, \<open>Dwarf_Expr\<close>: \<^verbatim>\<open>DwarfOp.cpp\<close>. The stack machine computes the value of the expression
      its bytes encode, and is contained and bounded on arbitrary bytes.
    \<^item> \<open>Dwarf_Cfa_Table\<close>, \<open>Dwarf_Cfa\<close>, \<open>Cfi_Spec\<close>, \<open>Cfi_Refine\<close>, \<open>Cfa_Safety\<close>: \<^verbatim>\<open>DwarfCfa.cpp\<close>. The interpreter
      refines the row machine of the DWARF standard; what it does on arbitrary bytes.
    \<^item> \<open>Arm_Exidx\<close>, \<open>Ehabi_Spec\<close>, \<open>Arm_Ehabi\<close>, \<open>Arm_Log\<close>: \<^verbatim>\<open>ArmExidx.cpp\<close>. It executes the instructions of the ARM
      EHABI, given independently as arithmetic on numbers.
    \<^item> \<open>Fde_Index\<close>, \<open>Dwarf_Section\<close>, \<open>Section_Cache\<close>, \<open>Section_Lookup\<close>: \<^verbatim>\<open>DwarfSection.cpp\<close>, \<^verbatim>\<open>DwarfEhFrame.h\<close>,
      \<^verbatim>\<open>DwarfDebugFrame.h\<close>. The caches are transparent and the lookup finds an FDE that covers the pc if there is one.
    \<^item> \<open>Dwarf_Eval\<close>, \<open>Caller_Frame\<close>, \<open>Dwarf_Step\<close>: the evaluation of register locations and \<^verbatim>\<open>Step\<close> of \<^verbatim>\<open>DwarfSection.cpp\<close>. The
      registers afterwards are those of the caller.
    \<^item> \<open>Binary_Search\<close>, \<open>Eh_Frame_Hdr\<close>, \<open>Hdr_Search\<close>: \<^verbatim>\<open>DwarfEhFrameWithHdr.cpp\<close>. The locale \<open>probed_table\<close> proves the search
      loop correct once for the four tables of the program that are searched.
    \<^item> \<open>Elf_Types\<close>, \<open>Symbols\<close>, \<open>Symbol_Lookup\<close>, \<open>Symbol_Remap\<close>, \<open>Symbol_Names\<close>: \<^verbatim>\<open>Symbols.cpp\<close>. The function that contains
      an address is found, in sorted and in unsorted symbol tables and whatever was looked up before.
    \<^item> \<open>Maps\<close>, \<open>Map_Update\<close>, \<open>Map_Lookup\<close>: \<^verbatim>\<open>Maps.cpp\<close>. Updating the list of maps in place makes it the list of the maps file
      and keeps the objects of unchanged maps.
    \<^item> \<open>Elf_Interface\<close>, \<open>Elf_Headers\<close>: \<^verbatim>\<open>ElfInterface.cpp\<close>. Program and section headers, build id, soname, names and \<^verbatim>\<open>Step\<close>. The
      valid pcs are those of the executable segments, the load bias is the one the static reader finds, notes are read to the build id.
    \<^item> \<open>Elf_Interface_Arm\<close>, \<open>Exidx_Step\<close>: \<^verbatim>\<open>ElfInterfaceArm.cpp\<close>. The entry of the function is found by the search loop above, in
      every state of its cache, and the frame is unwound as the ARM EHABI prescribes.
    \<^item> \<open>Elf_File\<close>: \<^verbatim>\<open>Elf.cpp\<close>. Choosing the interface, the interface of the debug data, relative pcs, names, \<^verbatim>\<open>Step\<close>.
    \<^item> \<open>Jit_State\<close>, \<open>Map_Info\<close>, \<open>Map_Elf\<close>: \<^verbatim>\<open>MapInfo.cpp\<close> and the cache of \<^verbatim>\<open>Elf.cpp\<close>. Where the memory of the file of a map comes
      from, and how ELF objects are shared between maps and through the cache. The offsets of a map into its file stay related as
      \<^verbatim>\<open>MapInfo.h\<close> documents; what the neighbouring real map is.
    \<^item> \<open>Unwinder\<close>, \<open>Unwind_Frames\<close>, \<open>Unwind_Ends\<close>: \<^verbatim>\<open>Unwinder.cpp\<close>. The state of \<open>Unwind\<close> is the machine registers, the frames, the
      error and the \<open>world\<close> of maps, ELF objects and caches, so one turn of the loop runs the models of all the components above. The frames
      are numbered and bounded whatever the input, the loop ends unless maps are skipped, and its ends on unmapped addresses and on
      maps that cannot be parsed are described.
    \<^item> \<open>Jit_Debug\<close>, \<open>Jit_List\<close>: \<^verbatim>\<open>GlobalDebugImpl.h\<close>, \<^verbatim>\<open>Global.cpp\<close>, \<^verbatim>\<open>JitDebug.cpp\<close>. The list of JIT entries is read while the
      process changes it: its memory is a sequence of memories indexed by the number of reads. What the sequence locks guarantee of an
      entry that is read, and a list on which the reader does not return.
    \<^item> \<open>Memory_Xz\<close>, \<open>Xz_Contents\<close>: \<^verbatim>\<open>MemoryXz.cpp\<close>. The memory of compressed debug data shows the blocks one after another, whatever was
      decompressed before; on which data its initialisation is undefined.
    \<^item> \<open>Thread_Entry\<close>, \<open>Thread_Safety\<close>, \<open>Thread_Session\<close>, \<open>Thread_Ends\<close>: \<^verbatim>\<open>ThreadEntry.cpp\<close>, \<^verbatim>\<open>ThreadUnwinder.cpp\<close>. Threads that
      unwind each other by signals, as a step relation over any number of threads that the handler can interrupt at every step: who holds
      which mutex, that entries in use exist, that a thread is stopped while it is unwound if no wait gives up; and executions in
      which a late wake or a signal at the wrong moment breaks this.

  \<^bold>\<open>Loops.\<close> \<open>eval_loop\<close> of \<^verbatim>\<open>DwarfOp::Eval\<close> counts its operations in 32 bits and stops after 1000, which is its termination measure.
  The loops over the bytes of an FDE (\<open>cfa_loop\<close>), over the unwind bytes of an ARM entry (\<open>arm_eval_loop\<close>), the binary search
  (\<open>search_loop\<close>), the loops over symbols (\<open>remap_batch\<close>, \<open>remap_loop\<close>), notes (\<open>note_loop\<close>), dynamic entries (\<open>dyn_loop\<close>) and
  neighbouring maps (\<open>real_map\<close>), the frame loop (\<open>unwind_loop\<close>) and the walk over the JIT entries (\<open>follow_list\<close>) are partial functions
  whose value \<open>None\<close> means that they do not return. Theorems show that they return, or on which data they do not: \<open>cfa_loop\<close>,
  \<open>unwind_loop\<close> with maps to skip, \<open>follow_list\<close> on a cycle. Nothing is stated on the end of \<open>dyn_loop\<close>. Every other loop is a
  recursion with a measure, or with the bound the code has: the list of JIT entries is read at most 16 times.

  \<^bold>\<open>Parameters.\<close> The results of system calls (\<^verbatim>\<open>fstat\<close>, \<^verbatim>\<open>mmap\<close>, opening a file), the entries of a maps file (\<^verbatim>\<open>android::procinfo\<close> parses
  it), the decompressor of \<^verbatim>\<open>.gnu_debugdata\<close> (for \<^verbatim>\<open>MemoryXz.cpp\<close> the two functions of the LZMA library it calls), the demangler, the lookup of dex functions, the instruction that removes pointer
  authentication bits, the value of uninitialised members, the order of unordered containers, the set of map objects that clients
  still hold, and the memory of a running process at each of its reads.

  \<^bold>\<open>Not modelled.\<close> System calls that read another process or its registers (\<^verbatim>\<open>ProcessVmRead\<close>, \<^verbatim>\<open>PtraceRead\<close>, \<^verbatim>\<open>Regs::RemoteGet\<close>); locks and
  atomics of the other components, so that no two operations on one object interleave; printing of instructions and sections (\<^verbatim>\<open>Log\<close>, \<^verbatim>\<open>GetLogInfo\<close>,
  \<^verbatim>\<open>LogRawData\<close>); the callbacks of \<^verbatim>\<open>MemoryXz.cpp\<close> that hand bytes to the LZMA library, and \<^verbatim>\<open>MemoryMte.cpp\<close>; \<^verbatim>\<open>DexFile.cpp\<close> and
  \<^verbatim>\<open>DexFiles.cpp\<close>, which are calls of libdexfile; \<^verbatim>\<open>AndroidUnwinder.cpp\<close>, which chooses an unwinder and reads registers of other
  processes. The vendored libraries of the repository (\<^verbatim>\<open>lzma\<close>, \<^verbatim>\<open>libziparchive\<close>, \<^verbatim>\<open>libdexfile\<close>, \<^verbatim>\<open>libbase\<close> but for
  \<^verbatim>\<open>Basename\<close>) are not part of the unwinder.
\<close>

end
